(* ===== verification/Prelude.thy ===== *)
theory Prelude
  imports Main "HOL-Library.Word" "HOL-Library.Char_ord" "HOL-Library.List_Lexorder"
begin

section \<open>Prelude: the parts of Rust's language and standard library the model shares\<close>

text \<open>
  Machine integers are words of their width. A \<open>std::time::Duration\<close> is its number of
  nanoseconds. A \<open>String\<close> is its list of UTF-8 bytes, ordered as Rust orders strings, that is
  lexicographically by byte. \<open>Result<T, E>\<close> is \<open>'e + 'a\<close> with the error on the left, and the
  \<open>?\<close> operator is \<open>and_then\<close>. A \<open>for\<close> loop whose body can return an error is \<open>try_fold\<close>.
\<close>

named_theorems wf_pres \<open>operations preserve the invariant of their component\<close>

type_synonym u8 = "8 word"
type_synonym u16 = "16 word"
type_synonym u32 = "32 word"
type_synonym u64 = "64 word"
type_synonym u128 = "128 word"

text \<open>Nanoseconds.\<close>
type_synonym duration = nat

subsection \<open>Integers\<close>

definition checked_add :: "'a::len word \<Rightarrow> 'a word \<Rightarrow> 'a word option" where
  "checked_add a b = (if unat a + unat b < 2 ^ LENGTH('a) then Some (a + b) else None)"

definition saturating_sub :: "'a::len word \<Rightarrow> 'a word \<Rightarrow> 'a word" where
  "saturating_sub a b = (if b \<le> a then a - b else 0)"

text \<open>\<open>u64::try_from(n).unwrap_or(u64::MAX)\<close> for a wider unsigned \<open>n\<close>.\<close>
definition u64_saturate :: "nat \<Rightarrow> u64" where
  "u64_saturate n = (if n < 2 ^ 64 then of_nat n else - 1)"

definition clamp_word :: "'a::len word \<Rightarrow> 'a word \<Rightarrow> 'a word \<Rightarrow> 'a word" where
  "clamp_word lo hi x = (if x < lo then lo else if hi < x then hi else x)"

lemma checked_add_Some_iff:
  "checked_add (a :: 'a::len word) b = Some c \<longleftrightarrow>
     unat a + unat b < 2 ^ LENGTH('a) \<and> unat c = unat a + unat b"
proof -
  have "unat (a + b) = unat a + unat b" if "unat a + unat b < 2 ^ LENGTH('a)"
    using that by (simp add: unat_word_ariths)
  then show ?thesis
    by (auto simp: checked_add_def word_unat_eq_iff)
qed

lemma checked_add_None_iff:
  "checked_add (a :: 'a::len word) b = None \<longleftrightarrow> 2 ^ LENGTH('a) \<le> unat a + unat b"
  by (simp add: checked_add_def)

lemma checked_add_commute: "checked_add a b = checked_add b a"
  by (simp add: checked_add_def add.commute)

lemma checked_add_0 [simp]: "checked_add 0 (a :: 'a::len word) = Some a"
  by (simp add: checked_add_def)

lemma checked_add_0_right [simp]: "checked_add (a :: 'a::len word) 0 = Some a"
  by (simp add: checked_add_def)

lemma unat_saturating_sub: "unat (saturating_sub a b) = unat a - unat b"
  by (auto simp: saturating_sub_def unat_sub word_le_nat_alt)

lemma clamp_word_bounds: "lo \<le> hi \<Longrightarrow> lo \<le> clamp_word lo hi x \<and> clamp_word lo hi x \<le> hi"
  by (auto simp: clamp_word_def)

subsection \<open>Results\<close>

definition and_then :: "'e + 'a \<Rightarrow> ('a \<Rightarrow> 'e + 'b) \<Rightarrow> 'e + 'b" where
  "and_then r f = (case r of Inl e \<Rightarrow> Inl e | Inr a \<Rightarrow> f a)"

definition ok_or :: "'e \<Rightarrow> 'a option \<Rightarrow> 'e + 'a" where
  "ok_or e x = (case x of None \<Rightarrow> Inl e | Some a \<Rightarrow> Inr a)"

text \<open>An early \<open>return Err(e)\<close> under a guard.\<close>
definition fail_if :: "bool \<Rightarrow> 'e \<Rightarrow> 'e + unit" where
  "fail_if c e = (if c then Inl e else Inr ())"

lemma and_then_simps [simp]:
  "and_then (Inl e) f = Inl e"
  "and_then (Inr a) f = f a"
  by (simp_all add: and_then_def)

lemma and_then_Inr_iff:
  "and_then r f = Inr b \<longleftrightarrow> (\<exists>a. r = Inr a \<and> f a = Inr b)"
  by (cases r) simp_all

lemma and_then_Inl_iff:
  "and_then r f = Inl e \<longleftrightarrow> r = Inl e \<or> (\<exists>a. r = Inr a \<and> f a = Inl e)"
  by (cases r) auto

lemma ok_or_simps [simp]: "ok_or e None = Inl e" "ok_or e (Some a) = Inr a"
  by (simp_all add: ok_or_def)

lemma ok_or_Inr_iff: "ok_or e x = Inr a \<longleftrightarrow> x = Some a"
  by (cases x) auto

lemma ok_or_Inl_iff: "ok_or e x = Inl e' \<longleftrightarrow> x = None \<and> e' = e"
  by (cases x) auto

lemma fail_if_Inr_iff: "fail_if c e = Inr u \<longleftrightarrow> \<not> c"
  by (simp add: fail_if_def)

lemma fail_if_Inl_iff: "fail_if c e = Inl e' \<longleftrightarrow> c \<and> e' = e"
  by (auto simp: fail_if_def)

lemma fail_if_simps [simp]: "fail_if True e = Inl e" "fail_if False e = Inr ()"
  by (simp_all add: fail_if_def)

lemmas result_iffs = and_then_Inr_iff and_then_Inl_iff ok_or_Inr_iff ok_or_Inl_iff
  fail_if_Inr_iff fail_if_Inl_iff

primrec try_fold :: "('s \<Rightarrow> 'a \<Rightarrow> 'e + 's) \<Rightarrow> 's \<Rightarrow> 'a list \<Rightarrow> 'e + 's" where
  "try_fold f s [] = Inr s"
| "try_fold f s (x # xs) = and_then (f s x) (\<lambda>s'. try_fold f s' xs)"

lemma try_fold_append:
  "try_fold f s (xs @ ys) = and_then (try_fold f s xs) (\<lambda>s'. try_fold f s' ys)"
proof (induction xs arbitrary: s)
  case (Cons x xs)
  then show ?case by (cases "f s x") simp_all
qed simp

text \<open>Loop rule: an invariant over the part of the list already consumed.\<close>

lemma try_fold_inv:
  assumes "try_fold f s xs = Inr s'"
    and "I [] s"
    and "\<And>done x t t'. I done t \<Longrightarrow> f t x = Inr t' \<Longrightarrow> I (done @ [x]) t'"
  shows "I xs s'"
proof -
  have "I (pre @ xs) s'" if "I pre t" "try_fold f t xs = Inr s'" for pre t
    using that
  proof (induction xs arbitrary: pre t)
    case (Cons x xs)
    then obtain t' where "f t x = Inr t'" "try_fold f t' xs = Inr s'"
      by (auto simp: and_then_Inr_iff)
    with Cons.prems(1) assms(3) have "I (pre @ [x]) t'" by blast
    with Cons.IH \<open>try_fold f t' xs = Inr s'\<close> have "I ((pre @ [x]) @ xs) s'" by blast
    then show ?case by simp
  qed simp
  from this [of "[]" s] assms(1,2) show ?thesis by simp
qed

text \<open>Collecting an iterator of results: the first error wins.\<close>

primrec traverse :: "('a \<Rightarrow> 'e + 'b) \<Rightarrow> 'a list \<Rightarrow> 'e + 'b list" where
  "traverse f [] = Inr []"
| "traverse f (x # xs) = and_then (f x) (\<lambda>y. and_then (traverse f xs) (\<lambda>ys. Inr (y # ys)))"

lemma traverse_Inr_iff: "traverse f xs = Inr ys \<longleftrightarrow> map f xs = map Inr ys"
  by (induction xs arbitrary: ys) (auto simp: and_then_Inr_iff Cons_eq_map_conv)

subsection \<open>Bytes and characters\<close>

abbreviation byte_of :: "char \<Rightarrow> nat" where
  "byte_of c \<equiv> of_char c"

definition is_ascii_digit :: "char \<Rightarrow> bool" where
  "is_ascii_digit c \<longleftrightarrow> 48 \<le> byte_of c \<and> byte_of c \<le> 57"

definition is_ascii_upper :: "char \<Rightarrow> bool" where
  "is_ascii_upper c \<longleftrightarrow> 65 \<le> byte_of c \<and> byte_of c \<le> 90"

definition is_ascii_lower :: "char \<Rightarrow> bool" where
  "is_ascii_lower c \<longleftrightarrow> 97 \<le> byte_of c \<and> byte_of c \<le> 122"

definition is_ascii_alphabetic :: "char \<Rightarrow> bool" where
  "is_ascii_alphabetic c \<longleftrightarrow> is_ascii_upper c \<or> is_ascii_lower c"

definition is_ascii_alphanumeric :: "char \<Rightarrow> bool" where
  "is_ascii_alphanumeric c \<longleftrightarrow> is_ascii_alphabetic c \<or> is_ascii_digit c"

definition ascii_lower :: "char \<Rightarrow> char" where
  "ascii_lower c = (if is_ascii_upper c then char_of (byte_of c + 32) else c)"

definition to_ascii_lowercase :: "string \<Rightarrow> string" where
  "to_ascii_lowercase s = map ascii_lower s"

definition eq_ignore_ascii_case :: "string \<Rightarrow> string \<Rightarrow> bool" where
  "eq_ignore_ascii_case a b \<longleftrightarrow> to_ascii_lowercase a = to_ascii_lowercase b"

text \<open>
  \<open>str::chars\<close>: the code points of a UTF-8 byte string. A Rust \<open>String\<close> is valid UTF-8, so the
  leading byte decides how many bytes a code point takes; the last equation is reached only by
  byte strings that no \<open>String\<close> holds.
\<close>

fun utf8_chars :: "string \<Rightarrow> nat list" where
  "utf8_chars [] = []"
| "utf8_chars (a # s) =
     (if byte_of a < 128 then byte_of a # utf8_chars s
      else if byte_of a < 224 then
        (case s of b # t \<Rightarrow>
           ((byte_of a mod 32) * 64 + byte_of b mod 64) # utf8_chars t | _ \<Rightarrow> [])
      else if byte_of a < 240 then
        (case s of b # c # t \<Rightarrow>
           ((byte_of a mod 16) * 4096 + (byte_of b mod 64) * 64 + byte_of c mod 64)
             # utf8_chars t | _ \<Rightarrow> [])
      else
        (case s of b # c # d # t \<Rightarrow>
           ((byte_of a mod 8) * 262144 + (byte_of b mod 64) * 4096
              + (byte_of c mod 64) * 64 + byte_of d mod 64) # utf8_chars t | _ \<Rightarrow> []))"

text \<open>\<open>char::is_control\<close> (category Cc) and \<open>char::is_whitespace\<close> (property White_Space).\<close>

definition is_control_char :: "nat \<Rightarrow> bool" where
  "is_control_char c \<longleftrightarrow> c < 32 \<or> 127 \<le> c \<and> c < 160"

definition is_whitespace_char :: "nat \<Rightarrow> bool" where
  "is_whitespace_char c \<longleftrightarrow>
     9 \<le> c \<and> c \<le> 13 \<or> c = 32 \<or> c = 133 \<or> c = 160 \<or> c = 5760 \<or> 8192 \<le> c \<and> c \<le> 8202
     \<or> c = 8232 \<or> c = 8233 \<or> c = 8239 \<or> c = 8287 \<or> c = 12288"

lemma ascii_lower_idem [simp]: "ascii_lower (ascii_lower c) = ascii_lower c"
  by (auto simp: ascii_lower_def is_ascii_upper_def of_char_of take_bit_eq_mod)

lemma to_ascii_lowercase_idem [simp]:
  "to_ascii_lowercase (to_ascii_lowercase s) = to_ascii_lowercase s"
  by (simp add: to_ascii_lowercase_def)

end
