(* ===== verification/Ordered_Map.thy ===== *)
theory Ordered_Map
  imports Prelude
begin

section \<open>Ordered maps and sets\<close>

text \<open>
  \<open>BTreeMap<K, V>\<close> as the association list its iterator yields: keys strictly increasing. The
  interface the components rely on is the locale \<open>ordered_map\<close>; the list model is its
  interpretation \<open>btm\<close>. \<open>BTreeSet<T>\<close> is a strictly increasing list.
\<close>

subsection \<open>The interface\<close>

locale ordered_map =
  fixes empty :: "'m"
    and get :: "'m \<Rightarrow> 'k::linorder \<Rightarrow> 'v option"
    and insert_at :: "'k \<Rightarrow> 'v \<Rightarrow> 'm \<Rightarrow> 'm"
    and adjust :: "'k \<Rightarrow> ('v \<Rightarrow> 'v) \<Rightarrow> 'm \<Rightarrow> 'm"
    and iter :: "'m \<Rightarrow> ('k \<times> 'v) list"
    and inv :: "'m \<Rightarrow> bool"
  assumes inv_empty: "inv empty"
    and get_empty: "get empty k = None"
    and inv_insert: "inv m \<Longrightarrow> inv (insert_at k v m)"
    and get_insert: "inv m \<Longrightarrow> get (insert_at k v m) = (get m)(k := Some v)"
    and inv_adjust: "inv m \<Longrightarrow> inv (adjust k f m)"
    and get_adjust: "inv m \<Longrightarrow> get (adjust k f m) = (get m)(k := map_option f (get m k))"
    and iter_sorted: "inv m \<Longrightarrow> sorted_wrt (<) (map fst (iter m))"
    and iter_get: "inv m \<Longrightarrow> (k, v) \<in> set (iter m) \<longleftrightarrow> get m k = Some v"
begin

lemma distinct_keys: "inv m \<Longrightarrow> distinct (map fst (iter m))"
  using iter_sorted by (simp add: strict_sorted_iff)

lemma keys_dom: "inv m \<Longrightarrow> set (map fst (iter m)) = dom (get m)"
  using iter_get by force

lemma keys_of_dom: "inv m \<Longrightarrow> map fst (iter m) = sorted_list_of_set (dom (get m))"
  using iter_sorted keys_dom distinct_keys
  by (metis sorted_list_of_set.idem_if_sorted_distinct strict_sorted_iff)

lemma dom_insert: "inv m \<Longrightarrow> dom (get (insert_at k v m)) = insert k (dom (get m))"
  by (simp add: get_insert)

lemma dom_adjust: "inv m \<Longrightarrow> dom (get (adjust k f m)) = dom (get m)"
  by (auto simp: get_adjust split: if_splits)

lemma iter_adjust_keys: "inv m \<Longrightarrow> map fst (iter (adjust k f m)) = map fst (iter m)"
  using keys_of_dom dom_adjust inv_adjust by metis

lemma inv_fold_insert: "inv m \<Longrightarrow> inv (fold (\<lambda>(k, v). insert_at k v) kvs m)"
  by (induction kvs arbitrary: m) (auto intro: inv_insert)

lemma dom_fold_insert:
  "inv m \<Longrightarrow> dom (get (fold (\<lambda>(k, v). insert_at k v) kvs m)) = fst ` set kvs \<union> dom (get m)"
proof (induction kvs arbitrary: m)
  case (Cons kv kvs)
  then show ?case by (cases kv) (auto simp: inv_insert get_insert split: if_splits)
qed simp

text \<open>Two maps with the same lookups iterate alike: the order of insertions is not observable.\<close>

lemma iter_ext:
  assumes "inv m" "inv m'" "get m = get m'"
  shows "iter m = iter m'"
proof (rule map_sorted_distinct_set_unique [where f = fst])
  show "inj_on fst (set (iter m) \<union> set (iter m'))"
    using assms by (auto simp: inj_on_def iter_get)
  show "sorted (map fst (iter m))" "sorted (map fst (iter m'))"
    using iter_sorted assms strict_sorted_imp_sorted by blast+
  show "distinct (map fst (iter m))" "distinct (map fst (iter m'))"
    using distinct_keys assms by blast+
  show "set (iter m) = set (iter m')"
    using assms by (auto simp: iter_get)
qed

end

subsection \<open>The model\<close>

type_synonym ('k, 'v) btree = "('k \<times> 'v) list"

definition bt_wf :: "('k::linorder, 'v) btree \<Rightarrow> bool" where
  "bt_wf m \<longleftrightarrow> sorted_wrt (<) (map fst m)"

abbreviation bt_get :: "('k, 'v) btree \<Rightarrow> 'k \<Rightarrow> 'v option" where
  "bt_get \<equiv> map_of"

fun bt_insert :: "'k::linorder \<Rightarrow> 'v \<Rightarrow> ('k, 'v) btree \<Rightarrow> ('k, 'v) btree" where
  "bt_insert k v [] = [(k, v)]"
| "bt_insert k v ((k', v') # m) =
     (if k < k' then (k, v) # (k', v') # m
      else if k = k' then (k, v) # m
      else (k', v') # bt_insert k v m)"

text \<open>In-place update through \<open>get_mut\<close>.\<close>
definition bt_adjust :: "'k \<Rightarrow> ('v \<Rightarrow> 'v) \<Rightarrow> ('k, 'v) btree \<Rightarrow> ('k, 'v) btree" where
  "bt_adjust k f m = map (\<lambda>(k', v). (k', if k' = k then f v else v)) m"

text \<open>In-place update of every value through \<open>iter_mut\<close>.\<close>
definition bt_map :: "('k \<Rightarrow> 'v \<Rightarrow> 'w) \<Rightarrow> ('k, 'v) btree \<Rightarrow> ('k, 'w) btree" where
  "bt_map f m = map (\<lambda>(k, v). (k, f k v)) m"

abbreviation bt_keys :: "('k, 'v) btree \<Rightarrow> 'k list" where
  "bt_keys \<equiv> map fst"

lemma bt_wf_Nil [simp]: "bt_wf []"
  by (simp add: bt_wf_def)

lemma bt_wf_Cons: "bt_wf ((k, v) # m) \<longleftrightarrow> (\<forall>k' \<in> fst ` set m. k < k') \<and> bt_wf m"
  by (auto simp: bt_wf_def)

lemma bt_wf_distinct: "bt_wf m \<Longrightarrow> distinct (map fst m)"
  by (simp add: bt_wf_def strict_sorted_iff)

lemma keys_bt_insert: "fst ` set (bt_insert k v m) = insert k (fst ` set m)"
  by (induction k v m rule: bt_insert.induct) auto

lemma bt_wf_insert [simp, wf_pres]: "bt_wf m \<Longrightarrow> bt_wf (bt_insert k v m)"
  by (induction k v m rule: bt_insert.induct) (auto simp: bt_wf_Cons keys_bt_insert)

lemma bt_get_insert [simp]:
  "bt_get (bt_insert k v m) = (bt_get m)(k := Some v)"
  by (induction k v m rule: bt_insert.induct) (auto simp: fun_eq_iff)

lemma bt_keys_adjust [simp]: "map fst (bt_adjust k f m) = map fst m"
  by (auto simp: bt_adjust_def)

lemma bt_wf_adjust [simp, wf_pres]: "bt_wf (bt_adjust k f m) = bt_wf m"
  by (simp add: bt_wf_def)

lemma bt_get_adjust [simp]:
  "bt_get (bt_adjust k f m) = (bt_get m)(k := map_option f (bt_get m k))"
  by (induction m) (auto simp: bt_adjust_def fun_eq_iff)

lemma bt_keys_map [simp]: "map fst (bt_map f m) = map fst m"
  by (auto simp: bt_map_def)

lemma bt_wf_map [simp, wf_pres]: "bt_wf (bt_map f m) = bt_wf m"
  by (simp add: bt_wf_def)

lemma bt_get_map [simp]: "bt_get (bt_map f m) k = map_option (f k) (bt_get m k)"
  by (induction m) (auto simp: bt_map_def)

lemma bt_map_Nil_iff [simp]: "bt_map f m = [] \<longleftrightarrow> m = []"
  by (simp add: bt_map_def)

lemma length_bt_insert:
  "bt_wf m \<Longrightarrow> length (bt_insert k v m) = (if bt_get m k = None then Suc (length m) else length m)"
proof (induction k v m rule: bt_insert.induct)
  case (2 k v k' v' m)
  then have "map_of m k = None" if "k < k'"
    using that by (auto simp: bt_wf_Cons map_of_eq_None_iff)
  with 2 show ?case by (auto simp: bt_wf_Cons)
qed simp

interpretation btm: ordered_map "[]" map_of bt_insert bt_adjust "\<lambda>m. m" bt_wf
proof unfold_locales
  show "bt_wf m \<Longrightarrow> ((k, v) \<in> set m) = (map_of m k = Some v)" for m k v
    by (simp add: bt_wf_distinct)
qed (auto simp: bt_wf_def [symmetric])

lemma bt_wf_get_mem: "bt_wf m \<Longrightarrow> (k, v) \<in> set m \<longleftrightarrow> bt_get m k = Some v"
  by (rule btm.iter_get)

lemma bt_values_all:
  "bt_wf m \<Longrightarrow> (\<forall>(k, v) \<in> set m. P k v) \<longleftrightarrow> (\<forall>k v. bt_get m k = Some v \<longrightarrow> P k v)"
  by (auto simp: bt_wf_get_mem)

subsection \<open>Sets\<close>

text \<open>\<open>BTreeSet::insert\<close>: the new set, and whether the value was absent.\<close>

definition bs_insert :: "'a::linorder \<Rightarrow> 'a list \<Rightarrow> bool \<times> 'a list" where
  "bs_insert x s = (if x \<in> set s then (False, s) else (True, insort x s))"

definition bs_wf :: "'a::linorder list \<Rightarrow> bool" where
  "bs_wf s \<longleftrightarrow> sorted_wrt (<) s"

lemma bs_wf_Nil [simp]: "bs_wf []"
  by (simp add: bs_wf_def)

lemma bs_wf_insort: "bs_wf s \<Longrightarrow> x \<notin> set s \<Longrightarrow> bs_wf (insort x s)"
  by (auto simp: bs_wf_def strict_sorted_iff sorted_insort distinct_insort)

lemma bs_wf_ext: "bs_wf s \<Longrightarrow> bs_wf t \<Longrightarrow> set s = set t \<Longrightarrow> s = t"
  unfolding bs_wf_def by (metis strict_sorted_equal)

end
