(* ===== verification/Float64.thy ===== *)
theory Float64
  imports Prelude Complex_Main "HOL-Library.Log_Nat"
begin

section \<open>IEEE 754 binary64\<close>

text \<open>
  Rust's \<open>f64\<close> with round-to-nearest, ties to even. A finite value is the rational number it
  denotes; the two zeros are one value, which no comparison of the modelled code tells apart.
  The operations compute the exact rational result and round it, as the standard prescribes.
\<close>

datatype f64 = F64_NaN | F64_Inf bool | F64_Fin rat

definition pow2 :: "int \<Rightarrow> rat" where
  "pow2 e = (if 0 \<le> e then 2 ^ nat e else inverse (2 ^ nat (- e)))"

text \<open>For a positive rational, the exponent of its leading bit.\<close>

definition exponent_of :: "rat \<Rightarrow> int" where
  "exponent_of q =
     (let (n, d) = quotient_of q; e = bitlen n - bitlen d
      in if pow2 e \<le> q then e else e - 1)"

definition round_half_even :: "rat \<Rightarrow> int" where
  "round_half_even x =
     (let f = \<lfloor>x\<rfloor>; r = x - of_int f
      in if r < 1 / 2 then f else if 1 / 2 < r then f + 1 else if even f then f else f + 1)"

definition unit_of :: "rat \<Rightarrow> rat" where
  "unit_of q = pow2 (max (exponent_of \<bar>q\<bar>) (- 1022) - 52)"

definition f64_round :: "rat \<Rightarrow> f64" where
  "f64_round q =
     (if q = 0 then F64_Fin 0
      else let u = unit_of q; v = of_int (round_half_even (q / u)) * u
           in if pow2 1024 \<le> \<bar>v\<bar> then F64_Inf (q < 0) else F64_Fin v)"

definition f64_of_nat :: "nat \<Rightarrow> f64" where
  "f64_of_nat n = f64_round (of_nat n)"

fun f64_is_finite :: "f64 \<Rightarrow> bool" where
  "f64_is_finite (F64_Fin _) = True"
| "f64_is_finite _ = False"

text \<open>Comparisons: every comparison with a NaN is false.\<close>

fun f64_lt :: "f64 \<Rightarrow> f64 \<Rightarrow> bool" where
  "f64_lt (F64_Fin a) (F64_Fin b) = (a < b)"
| "f64_lt (F64_Fin a) (F64_Inf s) = (\<not> s)"
| "f64_lt (F64_Inf s) (F64_Fin b) = s"
| "f64_lt (F64_Inf s) (F64_Inf t) = (s \<and> \<not> t)"
| "f64_lt _ _ = False"

fun f64_le :: "f64 \<Rightarrow> f64 \<Rightarrow> bool" where
  "f64_le (F64_Fin a) (F64_Fin b) = (a \<le> b)"
| "f64_le (F64_Fin a) (F64_Inf s) = (\<not> s)"
| "f64_le (F64_Inf s) (F64_Fin b) = s"
| "f64_le (F64_Inf s) (F64_Inf t) = (s \<or> \<not> t)"
| "f64_le _ _ = False"

fun f64_add :: "f64 \<Rightarrow> f64 \<Rightarrow> f64" where
  "f64_add (F64_Fin a) (F64_Fin b) = f64_round (a + b)"
| "f64_add (F64_Fin a) (F64_Inf s) = F64_Inf s"
| "f64_add (F64_Inf s) (F64_Fin b) = F64_Inf s"
| "f64_add (F64_Inf s) (F64_Inf t) = (if s = t then F64_Inf s else F64_NaN)"
| "f64_add _ _ = F64_NaN"

fun f64_neg :: "f64 \<Rightarrow> f64" where
  "f64_neg (F64_Fin a) = F64_Fin (- a)"
| "f64_neg (F64_Inf s) = F64_Inf (\<not> s)"
| "f64_neg F64_NaN = F64_NaN"

definition f64_sub :: "f64 \<Rightarrow> f64 \<Rightarrow> f64" where
  "f64_sub a b = f64_add a (f64_neg b)"

fun f64_mul :: "f64 \<Rightarrow> f64 \<Rightarrow> f64" where
  "f64_mul (F64_Fin a) (F64_Fin b) = f64_round (a * b)"
| "f64_mul (F64_Fin a) (F64_Inf s) = (if a = 0 then F64_NaN else F64_Inf (s \<noteq> (a < 0)))"
| "f64_mul (F64_Inf s) (F64_Fin b) = (if b = 0 then F64_NaN else F64_Inf (s \<noteq> (b < 0)))"
| "f64_mul (F64_Inf s) (F64_Inf t) = F64_Inf (s \<noteq> t)"
| "f64_mul _ _ = F64_NaN"

text \<open>Division by a zero takes the zero as positive; the modelled code divides by positive values only.\<close>

fun f64_div :: "f64 \<Rightarrow> f64 \<Rightarrow> f64" where
  "f64_div (F64_Fin a) (F64_Fin b) =
     (if b = 0 then (if a = 0 then F64_NaN else F64_Inf (a < 0)) else f64_round (a / b))"
| "f64_div (F64_Fin a) (F64_Inf s) = F64_Fin 0"
| "f64_div (F64_Inf s) (F64_Fin b) = F64_Inf (s \<noteq> (b < 0))"
| "f64_div (F64_Inf s) (F64_Inf t) = F64_NaN"
| "f64_div _ _ = F64_NaN"

text \<open>\<open>f64::max\<close>: a NaN operand is ignored.\<close>

definition f64_max :: "f64 \<Rightarrow> f64 \<Rightarrow> f64" where
  "f64_max a b = (if a = F64_NaN then b else if b = F64_NaN then a else if f64_le a b then b else a)"

text \<open>\<open>x as u64\<close>: truncation towards zero, saturating, NaN to zero.\<close>

fun f64_as_u64 :: "f64 \<Rightarrow> u64" where
  "f64_as_u64 F64_NaN = 0"
| "f64_as_u64 (F64_Inf s) = (if s then 0 else - 1)"
| "f64_as_u64 (F64_Fin q) = (if q < 0 then 0 else u64_saturate (nat \<lfloor>q\<rfloor>))"

subsection \<open>Rounding\<close>

lemma pow2_pos [simp]: "0 < pow2 e"
  by (simp add: pow2_def)

lemma pow2_nonneg [simp]: "0 \<le> pow2 e"
  by (simp add: less_imp_le)

lemma pow2_neq_0 [simp]: "pow2 e \<noteq> 0"
  using pow2_pos [of e] by linarith

lemma pow2_powi: "pow2 e = power_int 2 e"
  by (simp add: pow2_def power_int_def power_one_over inverse_eq_divide)

lemma pow2_add: "pow2 (a + b) = pow2 a * pow2 b"
  by (simp add: pow2_powi power_int_add)

lemma pow2_mono: "a \<le> b \<Longrightarrow> pow2 a \<le> pow2 b"
  by (simp add: pow2_powi power_int_increasing)

lemma pow2_strict_mono: "a < b \<Longrightarrow> pow2 a < pow2 b"
  by (simp add: pow2_powi power_int_strict_increasing)

lemma exponent_of_bounds:
  assumes "0 < q"
  shows "pow2 (exponent_of q) \<le> q" "q < pow2 (exponent_of q + 1)"
proof -
  obtain n d where nd: "quotient_of q = (n, d)" by fastforce
  then have q: "q = of_int n / of_int d" and d: "0 < d"
    by (auto simp: quotient_of_div quotient_of_denom_pos)
  with assms have n: "0 < n" by (simp add: zero_less_divide_iff)
  define bn bd where "bn = bitlen n" and "bd = bitlen d"
  have bounds: "pow2 (bitlen x - 1) \<le> of_int x \<and> (of_int x :: rat) < pow2 (bitlen x)" if "0 < x" for x
  proof -
    have "2 ^ nat (bitlen x - 1) \<le> x" "x < 2 ^ nat (bitlen x)"
      using bitlen_bounds [OF that] by auto
    moreover have "0 \<le> bitlen x - 1"
      using that by (simp add: bitlen_def floorlog_def)
    ultimately show ?thesis
      by (simp add: pow2_def bitlen_nonneg)
  qed
  have "q < pow2 (bn - bd + 1)"
  proof -
    have "of_int n < pow2 bn" using bounds [OF n] by (simp add: bn_def)
    also have "pow2 bn = pow2 (bn - bd + 1) * pow2 (bd - 1)" by (simp add: pow2_add [symmetric])
    also have "\<dots> \<le> pow2 (bn - bd + 1) * of_int d"
      using bounds [OF d] by (simp add: bd_def)
    finally show ?thesis using d by (simp add: q divide_less_eq)
  qed
  moreover have "pow2 (bn - bd - 1) \<le> q"
  proof -
    have "pow2 (bn - bd - 1) * of_int d \<le> pow2 (bn - bd - 1) * pow2 bd"
      using bounds [OF d] by (simp add: bd_def)
    also have "\<dots> = pow2 (bn - 1)" by (simp add: pow2_add [symmetric])
    also have "\<dots> \<le> of_int n" using bounds [OF n] by (simp add: bn_def)
    finally show ?thesis using d by (simp add: q le_divide_eq)
  qed
  ultimately show "pow2 (exponent_of q) \<le> q" "q < pow2 (exponent_of q + 1)"
    by (auto simp: exponent_of_def nd bn_def bd_def Let_def)
qed

lemma exponent_of_unique:
  assumes "pow2 e \<le> q" "q < pow2 (e + 1)"
  shows "exponent_of q = e"
proof -
  have "0 < q" using assms(1) pow2_pos [of e] by linarith
  note b = exponent_of_bounds [OF this]
  have "\<not> exponent_of q < e"
  proof
    assume "exponent_of q < e"
    then have "pow2 (exponent_of q + 1) \<le> pow2 e" by (intro pow2_mono) simp
    with b(2) assms(1) show False by linarith
  qed
  moreover have "\<not> e < exponent_of q"
  proof
    assume "e < exponent_of q"
    then have "pow2 (e + 1) \<le> pow2 (exponent_of q)" by (intro pow2_mono) simp
    with b(1) assms(2) show False by linarith
  qed
  ultimately show ?thesis by simp
qed

lemma exponent_of_mono: "0 < p \<Longrightarrow> p \<le> q \<Longrightarrow> exponent_of p \<le> exponent_of q"
proof (rule ccontr)
  assume a: "0 < p" "p \<le> q" "\<not> exponent_of p \<le> exponent_of q"
  then have "pow2 (exponent_of q + 1) \<le> pow2 (exponent_of p)" by (intro pow2_mono) simp
  with exponent_of_bounds [of p] exponent_of_bounds [of q] a show False by linarith
qed

lemma round_half_even_int [simp]: "round_half_even (of_int n) = n"
  by (simp add: round_half_even_def)

lemma round_half_even_mono: "x \<le> y \<Longrightarrow> round_half_even x \<le> round_half_even y"
proof -
  assume xy: "x \<le> y"
  have f: "\<lfloor>x\<rfloor> \<le> \<lfloor>y\<rfloor>" using xy by (rule floor_mono)
  show ?thesis
  proof (cases "\<lfloor>x\<rfloor> = \<lfloor>y\<rfloor>")
    case True
    with xy show ?thesis by (simp add: round_half_even_def Let_def)
  next
    case False
    with f have "\<lfloor>x\<rfloor> + 1 \<le> \<lfloor>y\<rfloor>" by simp
    then show ?thesis by (simp add: round_half_even_def Let_def)
  qed
qed

text \<open>The rounded magnitude of a positive rational, before the overflow check.\<close>

definition rounded :: "rat \<Rightarrow> rat" where
  "rounded q = of_int (round_half_even (q / unit_of q)) * unit_of q"

definition scale_of :: "rat \<Rightarrow> int" where
  "scale_of q = max (exponent_of q) (- 1022)"

lemma unit_of_scale: "0 < q \<Longrightarrow> unit_of q = pow2 (scale_of q - 52)"
  by (simp add: unit_of_def scale_of_def)

lemma scale_of_mono: "0 < p \<Longrightarrow> p \<le> q \<Longrightarrow> scale_of p \<le> scale_of q"
  using exponent_of_mono by (force simp: scale_of_def)

lemma rounded_le_next:
  assumes "0 < q"
  shows "rounded q \<le> pow2 (scale_of q + 1)"
proof -
  have "q < pow2 (scale_of q + 1)"
    using exponent_of_bounds(2) [OF assms] pow2_mono [of "exponent_of q + 1" "scale_of q + 1"]
    by (simp add: scale_of_def)
  also have "\<dots> = pow2 53 * pow2 (scale_of q - 52)"
    by (simp add: pow2_add [symmetric] add.commute)
  finally have "q / unit_of q \<le> of_int (2 ^ 53)"
    using assms by (simp add: unit_of_scale divide_le_eq) (simp add: pow2_def)
  then have "round_half_even (q / unit_of q) \<le> 2 ^ 53"
    using round_half_even_mono round_half_even_int by metis
  then have "(of_int (round_half_even (q / unit_of q)) :: rat) \<le> of_int (2 ^ 53)"
    by (simp only: of_int_le_iff)
  also have "(of_int (2 ^ 53) :: rat) = pow2 53" by (simp add: pow2_def)
  finally have "rounded q \<le> pow2 53 * pow2 (scale_of q - 52)"
    using assms by (simp add: rounded_def unit_of_scale)
  then show ?thesis by (simp add: pow2_add [symmetric] add.commute)
qed

lemma rounded_ge_scale:
  assumes "0 < q" "- 1022 < scale_of q"
  shows "pow2 (scale_of q) \<le> rounded q"
proof -
  have e: "scale_of q = exponent_of q" using assms(2) by (auto simp: scale_of_def max_def split: if_splits)
  have "pow2 52 * pow2 (scale_of q - 52) \<le> q"
    using exponent_of_bounds(1) [OF assms(1)] by (simp add: pow2_add [symmetric] e)
  then have "of_int (2 ^ 52) \<le> q / unit_of q"
    using assms(1) by (simp add: unit_of_scale le_divide_eq) (simp add: pow2_def)
  then have "2 ^ 52 \<le> round_half_even (q / unit_of q)"
    using round_half_even_mono round_half_even_int by metis
  then have "(of_int (2 ^ 52) :: rat) \<le> of_int (round_half_even (q / unit_of q))"
    by (simp only: of_int_le_iff)
  moreover have "(of_int (2 ^ 52) :: rat) = pow2 52" by (simp add: pow2_def)
  ultimately have "pow2 52 * pow2 (scale_of q - 52) \<le> rounded q"
    using assms by (simp add: rounded_def unit_of_scale)
  then show ?thesis by (simp add: pow2_add [symmetric])
qed

lemma rounded_mono:
  assumes "0 < p" "p \<le> q"
  shows "rounded p \<le> rounded q"
proof (cases "scale_of p = scale_of q")
  case True
  with assms show ?thesis
    by (simp add: rounded_def unit_of_scale divide_right_mono round_half_even_mono)
next
  case False
  with scale_of_mono [OF assms] have lt: "scale_of p < scale_of q" by simp
  have q: "0 < q" using assms by simp
  have "rounded p \<le> pow2 (scale_of p + 1)" using assms(1) by (rule rounded_le_next)
  also have "\<dots> \<le> pow2 (scale_of q)" using lt by (intro pow2_mono) simp
  also have "\<dots> \<le> rounded q"
    using q lt by (intro rounded_ge_scale) (simp_all add: scale_of_def)
  finally show ?thesis .
qed

lemma rounded_nonneg: "0 < q \<Longrightarrow> 0 \<le> rounded q"
proof -
  assume q: "0 < q"
  then have "round_half_even (of_int 0) \<le> round_half_even (q / unit_of q)"
    by (intro round_half_even_mono) (simp add: unit_of_def)
  then have "0 \<le> round_half_even (q / unit_of q)"
    by (simp only: round_half_even_int)
  then show ?thesis by (simp add: rounded_def unit_of_def)
qed

lemma f64_round_pos:
  "0 < q \<Longrightarrow> f64_round q = (if pow2 1024 \<le> rounded q then F64_Inf False else F64_Fin (rounded q))"
  using rounded_nonneg [of q] by (simp add: f64_round_def rounded_def Let_def)

lemma f64_round_mono:
  assumes "0 \<le> p" "p \<le> q"
  shows "f64_le (f64_round p) (f64_round q)"
proof (cases "p = 0")
  case True
  show ?thesis
  proof (cases "q = 0")
    case False
    with assms(2) True have "0 < q" by simp
    with rounded_nonneg [of q] True show ?thesis
      by (auto simp: f64_round_pos f64_round_def [of 0])
  qed (use True in \<open>simp add: f64_round_def\<close>)
next
  case False
  with assms have "0 < p" "0 < q" by auto
  with rounded_mono [of p q] assms(2) show ?thesis by (auto simp: f64_round_pos)
qed

text \<open>Integers up to \<open>2 ^ 53\<close> are represented exactly.\<close>

lemma rounded_of_nat:
  assumes "0 < n" "n < 2 ^ 53"
  shows "rounded (of_nat n) = of_nat n"
proof -
  let ?q = "of_nat n :: rat"
  have q: "0 < ?q" using assms by simp
  have one: "exponent_of 1 = 0" by (rule exponent_of_unique) (simp_all add: pow2_def)
  have e0: "0 \<le> exponent_of ?q"
    using exponent_of_mono [of 1 ?q] assms one by simp
  have "exponent_of ?q < 53"
  proof (rule ccontr)
    assume "\<not> exponent_of ?q < 53"
    then have "pow2 53 \<le> pow2 (exponent_of ?q)" by (intro pow2_mono) simp
    with exponent_of_bounds(1) [OF q] have "pow2 53 \<le> ?q" by linarith
    moreover have "pow2 53 = of_nat (2 ^ 53)" by (simp add: pow2_def)
    ultimately have "(of_nat (2 ^ 53) :: rat) \<le> of_nat n" by simp
    then have "2 ^ 53 \<le> n" by (simp only: of_nat_le_iff)
    with assms show False by simp
  qed
  with e0 have s: "scale_of ?q = exponent_of ?q" "0 \<le> 52 - scale_of ?q"
    by (simp_all add: scale_of_def)
  have u: "unit_of ?q = inverse (pow2 (52 - scale_of ?q))"
    using q by (simp add: unit_of_scale pow2_powi) (simp add: power_int_minus [symmetric])
  have "?q / unit_of ?q = of_int (int n * 2 ^ nat (52 - scale_of ?q))"
    using s by (simp add: u pow2_def divide_inverse)
  then have "rounded ?q = of_int (int n * 2 ^ nat (52 - scale_of ?q)) * unit_of ?q"
    by (simp only: rounded_def round_half_even_int)
  also have "\<dots> = ?q" using s by (simp add: u) (simp add: pow2_def)
  finally show ?thesis .
qed

lemma f64_of_nat_small:
  assumes "n < 2 ^ 53"
  shows "f64_of_nat n = F64_Fin (of_nat n)"
proof (cases "n = 0")
  case True
  then show ?thesis by (simp add: f64_of_nat_def f64_round_def)
next
  case False
  have "pow2 53 \<le> pow2 1024" by (rule pow2_mono) simp
  moreover have "(of_nat n :: rat) < pow2 53"
  proof -
    have "(of_nat n :: rat) < of_nat (2 ^ 53)" using assms by (simp only: of_nat_less_iff)
    then show ?thesis by (simp add: pow2_def)
  qed
  ultimately have "(of_nat n :: rat) < pow2 1024" by linarith
  with False assms show ?thesis
    by (simp add: f64_of_nat_def f64_round_pos rounded_of_nat)
qed

lemma f64_round_1 [simp]: "f64_round 1 = F64_Fin 1"
  using f64_of_nat_small [of 1] by (simp add: f64_of_nat_def)

lemma f64_round_0 [simp]: "f64_round 0 = F64_Fin 0"
  by (simp add: f64_round_def)

lemma f64_of_nat_0 [simp]: "f64_of_nat 0 = F64_Fin 0"
  by (simp add: f64_of_nat_def)

lemma f64_of_nat_mono: "m \<le> n \<Longrightarrow> f64_le (f64_of_nat m) (f64_of_nat n)"
  unfolding f64_of_nat_def by (rule f64_round_mono) simp_all

end
