(* ===== verification/Histogram_Api.thy ===== *)
theory Histogram_Api
  imports Prelude Float64
begin

section \<open>The HDR histogram library as a parameter\<close>

text \<open>
  \<open>hdrhistogram\<close> is a third-party crate: its operations are a record of functions that every
  definition using a histogram takes as an argument. \<open>hdr_contract\<close> is the documented behaviour
  the code relies on (a fresh histogram is empty, recording a trackable value counts it, adding two
  histograms of one layout adds their counts, the V2 serialisation reads back what it wrote). The
  exact histogram at the end satisfies it, so the contract can hold.
\<close>

type_synonym hdr_layout = "u64 \<times> u64 \<times> u8"

record 'h hdr_api =
  hdr_new :: "u64 \<Rightarrow> u64 \<Rightarrow> u8 \<Rightarrow> 'h option"
  hdr_record :: "'h \<Rightarrow> u64 \<Rightarrow> 'h option"
  hdr_add :: "'h \<Rightarrow> 'h \<Rightarrow> 'h option"
  hdr_len :: "'h \<Rightarrow> u64"
  hdr_low :: "'h \<Rightarrow> u64"
  hdr_high :: "'h \<Rightarrow> u64"
  hdr_sigfig :: "'h \<Rightarrow> u8"
  hdr_quantile :: "'h \<Rightarrow> f64 \<Rightarrow> u64"
  hdr_mean :: "'h \<Rightarrow> f64"
  hdr_min :: "'h \<Rightarrow> u64"
  hdr_max :: "'h \<Rightarrow> u64"
  hdr_serialize :: "'h \<Rightarrow> string + u8 list"
  hdr_deserialize :: "u8 list \<Rightarrow> string + ('h \<times> nat)"

definition hdr_layout_of :: "'h hdr_api \<Rightarrow> 'h \<Rightarrow> hdr_layout" where
  "hdr_layout_of A h = (hdr_low A h, hdr_high A h, hdr_sigfig A h)"

definition hdr_new_ok :: "'h hdr_api \<Rightarrow> bool" where
  "hdr_new_ok A \<longleftrightarrow>
     (\<forall>lo hi sf. 1 \<le> lo \<and> 2 * unat lo \<le> unat hi \<and> sf \<le> 5 \<longrightarrow>
        (\<exists>h. hdr_new A lo hi sf = Some h \<and> hdr_len A h = 0 \<and> hdr_layout_of A h = (lo, hi, sf)))"

definition hdr_record_ok :: "'h hdr_api \<Rightarrow> bool" where
  "hdr_record_ok A \<longleftrightarrow>
     (\<forall>h v. v \<le> hdr_high A h \<longrightarrow>
        (\<exists>h'. hdr_record A h v = Some h' \<and> hdr_layout_of A h' = hdr_layout_of A h
           \<and> (unat (hdr_len A h) + 1 < 2 ^ 64 \<longrightarrow> hdr_len A h' = hdr_len A h + 1)))"

definition hdr_add_ok :: "'h hdr_api \<Rightarrow> bool" where
  "hdr_add_ok A \<longleftrightarrow>
     (\<forall>a b. hdr_layout_of A a = hdr_layout_of A b \<longrightarrow>
        (\<exists>c. hdr_add A a b = Some c \<and> hdr_layout_of A c = hdr_layout_of A a
           \<and> (unat (hdr_len A a) + unat (hdr_len A b) < 2 ^ 64 \<longrightarrow>
                hdr_len A c = hdr_len A a + hdr_len A b)))"

definition hdr_roundtrip_ok :: "'h hdr_api \<Rightarrow> bool" where
  "hdr_roundtrip_ok A \<longleftrightarrow>
     (\<forall>h bs. hdr_serialize A h = Inr bs \<longrightarrow> hdr_deserialize A bs = Inr (h, length bs))"

definition hdr_contract :: "'h hdr_api \<Rightarrow> bool" where
  "hdr_contract A \<longleftrightarrow> hdr_new_ok A \<and> hdr_record_ok A \<and> hdr_add_ok A \<and> hdr_roundtrip_ok A"

lemma hdr_newD:
  assumes "hdr_contract A" "1 \<le> lo" "2 * unat lo \<le> unat hi" "sf \<le> 5"
  obtains h where "hdr_new A lo hi sf = Some h" "hdr_len A h = 0" "hdr_layout_of A h = (lo, hi, sf)"
  using assms unfolding hdr_contract_def hdr_new_ok_def by blast

lemma hdr_recordD:
  assumes "hdr_contract A" "v \<le> hdr_high A h"
  obtains h' where "hdr_record A h v = Some h'" "hdr_layout_of A h' = hdr_layout_of A h"
    "unat (hdr_len A h) + 1 < 2 ^ 64 \<Longrightarrow> hdr_len A h' = hdr_len A h + 1"
  using assms unfolding hdr_contract_def hdr_record_ok_def by blast

lemma hdr_addD:
  assumes "hdr_contract A" "hdr_layout_of A a = hdr_layout_of A b"
  obtains c where "hdr_add A a b = Some c" "hdr_layout_of A c = hdr_layout_of A a"
    "unat (hdr_len A a) + unat (hdr_len A b) < 2 ^ 64 \<Longrightarrow> hdr_len A c = hdr_len A a + hdr_len A b"
  using assms unfolding hdr_contract_def hdr_add_ok_def by blast

lemma hdr_roundtripD:
  "hdr_contract A \<Longrightarrow> hdr_serialize A h = Inr bs \<Longrightarrow> hdr_deserialize A bs = Inr (h, length bs)"
  by (auto simp: hdr_contract_def hdr_roundtrip_ok_def)

subsection \<open>An exact histogram\<close>

text \<open>
  A histogram that keeps its layout and every sample in order: it satisfies the contract and
  evaluates examples. Its serialisation is the significant-figure byte followed by the two bounds
  and the samples, eight little-endian bytes each.
\<close>

record exact_hist =
  xh_low :: u64
  xh_high :: u64
  xh_sigfig :: u8
  xh_samples :: "u64 list"

definition xh_layout_id :: "exact_hist \<Rightarrow> hdr_layout" where
  "xh_layout_id h = (xh_low h, xh_high h, xh_sigfig h)"

text \<open>A 64-bit number as eight little-endian bytes.\<close>

primrec bytes_of :: "nat \<Rightarrow> nat \<Rightarrow> u8 list" where
  "bytes_of 0 n = []"
| "bytes_of (Suc k) n = of_nat (n mod 256) # bytes_of k (n div 256)"

primrec number_of :: "u8 list \<Rightarrow> nat" where
  "number_of [] = 0"
| "number_of (b # bs) = unat b + 256 * number_of bs"

lemma length_bytes_of [simp]: "length (bytes_of k n) = k"
  by (induction k arbitrary: n) simp_all

lemma number_of_bytes_of: "n < 256 ^ k \<Longrightarrow> number_of (bytes_of k n) = n"
proof (induction k arbitrary: n)
  case (Suc k)
  then have "n div 256 < 256 ^ k" by (simp add: less_mult_imp_div_less mult.commute)
  then show ?case using Suc.IH [of "n div 256"] by (simp add: unat_of_nat)
qed simp

definition u64_bytes :: "u64 \<Rightarrow> u8 list" where
  "u64_bytes w = bytes_of 8 (unat w)"

definition u64_from_bytes :: "u8 list \<Rightarrow> u64" where
  "u64_from_bytes bs = of_nat (number_of bs)"

lemma length_u64_bytes [simp]: "length (u64_bytes w) = 8"
  by (simp add: u64_bytes_def)

lemma u64_from_bytes_u64_bytes [simp]: "u64_from_bytes (u64_bytes w) = w"
proof -
  have "unat w < 256 ^ 8" using unsigned_less [of w] by simp
  then show ?thesis by (simp add: u64_bytes_def u64_from_bytes_def number_of_bytes_of)
qed

definition xh_serialize :: "exact_hist \<Rightarrow> string + u8 list" where
  "xh_serialize h = Inr (xh_sigfig h # concat (map u64_bytes (xh_low h # xh_high h # xh_samples h)))"

fun chunks8 :: "u8 list \<Rightarrow> u64 list" where
  "chunks8 (a # b # c # d # e # f # g # h # bs) = u64_from_bytes [a, b, c, d, e, f, g, h] # chunks8 bs"
| "chunks8 _ = []"

lemma chunks8_append: "length bs = 8 \<Longrightarrow> chunks8 (bs @ rest) = u64_from_bytes bs # chunks8 rest"
  by (auto simp: length_Suc_conv numeral_eq_Suc)

lemma chunks8_concat [simp]: "chunks8 (concat (map u64_bytes ws)) = ws"
  by (induction ws) (simp_all add: chunks8_append)

definition xh_deserialize :: "u8 list \<Rightarrow> string + (exact_hist \<times> nat)" where
  "xh_deserialize bs =
     (case bs of [] \<Rightarrow> Inl ''UnexpectedEof''
      | sf # rest \<Rightarrow>
          (case chunks8 rest of
             lo # hi # ws \<Rightarrow>
               Inr (\<lparr>xh_low = lo, xh_high = hi, xh_sigfig = sf, xh_samples = ws\<rparr>, length bs)
           | _ \<Rightarrow> Inl ''UnexpectedEof''))"

definition xh_rank :: "nat \<Rightarrow> f64 \<Rightarrow> nat" where
  "xh_rank n q = (case q of F64_Fin r \<Rightarrow> nat \<lceil>r * of_nat n\<rceil> | _ \<Rightarrow> 1)"

definition exact_api :: "exact_hist hdr_api" where
  "exact_api = \<lparr>
     hdr_new = (\<lambda>lo hi sf. if 1 \<le> lo \<and> 2 * unat lo \<le> unat hi \<and> sf \<le> 5
        then Some \<lparr>xh_low = lo, xh_high = hi, xh_sigfig = sf, xh_samples = []\<rparr> else None),
     hdr_record = (\<lambda>h v. if v \<le> xh_high h then Some (h\<lparr>xh_samples := insort v (xh_samples h)\<rparr>) else None),
     hdr_add = (\<lambda>a b. if \<forall>v \<in> set (xh_samples b). v \<le> xh_high a \<or> xh_high b \<le> xh_high a
        then Some (a\<lparr>xh_samples := foldr insort (xh_samples b) (xh_samples a)\<rparr>) else None),
     hdr_len = (\<lambda>h. of_nat (length (xh_samples h))),
     hdr_low = xh_low,
     hdr_high = xh_high,
     hdr_sigfig = xh_sigfig,
     hdr_quantile = (\<lambda>h q. let n = length (xh_samples h)
        in if n = 0 then 0 else xh_samples h ! (max 1 (min n (xh_rank n q)) - 1)),
     hdr_mean = (\<lambda>h. f64_div (f64_of_nat (sum_list (map unat (xh_samples h))))
        (f64_of_nat (length (xh_samples h)))),
     hdr_min = (\<lambda>h. case xh_samples h of [] \<Rightarrow> 0 | v # _ \<Rightarrow> v),
     hdr_max = (\<lambda>h. case rev (xh_samples h) of [] \<Rightarrow> 0 | v # _ \<Rightarrow> v),
     hdr_serialize = xh_serialize,
     hdr_deserialize = xh_deserialize \<rparr>"

lemmas exact_api_simps = exact_api_def hdr_layout_of_def xh_serialize_def xh_deserialize_def

lemma length_foldr_insort [simp]: "length (foldr insort ys xs) = length ys + length xs"
  by (induction ys) simp_all

theorem exact_hdr_contract: "hdr_contract exact_api"
proof -
  have "hdr_new_ok exact_api"
    by (simp add: hdr_new_ok_def exact_api_simps)
  moreover have "hdr_record_ok exact_api"
    by (simp add: hdr_record_ok_def exact_api_simps)
  moreover have "hdr_add_ok exact_api"
    by (auto simp: hdr_add_ok_def exact_api_simps)
  moreover have "hdr_roundtrip_ok exact_api"
    by (auto simp: hdr_roundtrip_ok_def exact_api_simps chunks8_append)
  ultimately show ?thesis by (simp add: hdr_contract_def)
qed

end
