(* ===== verification/Metrics.thy ===== *)
theory Metrics
  imports Ordered_Map Float64 Histogram_Api
begin

section \<open>Metric values and the recorder\<close>

text \<open>
  \<open>crates/core/src/metrics\<close>: the outcome classes and snapshot records (\<open>types.rs\<close>), the atomic
  outcome counters (\<open>throughput.rs\<close>), the sharded latency histogram (\<open>histogram.rs\<close>), the
  per-tool state (\<open>per_tool.rs\<close>) and the \<open>Recorder\<close> (\<open>mod.rs\<close>). An atomic counter is its
  value (\<open>fetch_add\<close> wraps); a mutex-protected shard is \<open>Some\<close> histogram, or \<open>None\<close> when its
  lock is poisoned; likewise the lock around the per-tool map. Instants are nanoseconds of one
  monotonic clock. A call of \<open>expect\<close> that panics is \<open>None\<close>.
\<close>

subsection \<open>Values\<close>

datatype call_outcome =
    Outcome_Success | Outcome_Hang | Outcome_Deadlock | Outcome_Timeout | Outcome_ServerError
  | Outcome_ProtocolError | Outcome_Crash | Outcome_Malformed | Outcome_Disconnected
  | Outcome_Cancelled | Outcome_ExpectedRejection

fun contributes_to_latency :: "call_outcome \<Rightarrow> bool" where
  "contributes_to_latency Outcome_Success = True"
| "contributes_to_latency Outcome_Hang = True"
| "contributes_to_latency Outcome_Deadlock = True"
| "contributes_to_latency _ = False"

record latency_stats =
  ls_p50 :: duration
  ls_p95 :: duration
  ls_p99 :: duration
  ls_p999 :: duration
  ls_mean :: duration
  ls_min :: duration
  ls_max :: duration
  ls_count :: u64

record throughput_stats =
  ts_total_requests :: u64
  ts_successful_requests :: u64
  ts_requests_per_sec :: f64

record outcome_counts =
  oc_success :: u64
  oc_hang :: u64
  oc_deadlock :: u64
  oc_timeout :: u64
  oc_server_error :: u64
  oc_protocol_error :: u64
  oc_crash :: u64
  oc_malformed :: u64
  oc_disconnected :: u64
  oc_cancelled :: u64
  oc_expected_rejection :: u64

record scenario_metrics =
  sm_latency :: latency_stats
  sm_throughput :: throughput_stats
  sm_outcomes :: outcome_counts

definition latency_stats_default :: latency_stats where
  "latency_stats_default = \<lparr>ls_p50 = 0, ls_p95 = 0, ls_p99 = 0, ls_p999 = 0, ls_mean = 0,
     ls_min = 0, ls_max = 0, ls_count = 0\<rparr>"

definition outcome_counts_default :: outcome_counts where
  "outcome_counts_default = \<lparr>oc_success = 0, oc_hang = 0, oc_deadlock = 0, oc_timeout = 0,
     oc_server_error = 0, oc_protocol_error = 0, oc_crash = 0, oc_malformed = 0,
     oc_disconnected = 0, oc_cancelled = 0, oc_expected_rejection = 0\<rparr>"

text \<open>\<open>OutcomeCounters\<close> and its \<open>OutcomeSnapshot\<close> hold the same eleven counters.\<close>

type_synonym outcome_counters = outcome_counts
type_synonym outcome_snapshot = outcome_counts

fun bump :: "outcome_counters \<Rightarrow> call_outcome \<Rightarrow> outcome_counters" where
  "bump c Outcome_Success = c\<lparr>oc_success := oc_success c + 1\<rparr>"
| "bump c Outcome_Hang = c\<lparr>oc_hang := oc_hang c + 1\<rparr>"
| "bump c Outcome_Deadlock = c\<lparr>oc_deadlock := oc_deadlock c + 1\<rparr>"
| "bump c Outcome_Timeout = c\<lparr>oc_timeout := oc_timeout c + 1\<rparr>"
| "bump c Outcome_ServerError = c\<lparr>oc_server_error := oc_server_error c + 1\<rparr>"
| "bump c Outcome_ProtocolError = c\<lparr>oc_protocol_error := oc_protocol_error c + 1\<rparr>"
| "bump c Outcome_Crash = c\<lparr>oc_crash := oc_crash c + 1\<rparr>"
| "bump c Outcome_Malformed = c\<lparr>oc_malformed := oc_malformed c + 1\<rparr>"
| "bump c Outcome_Disconnected = c\<lparr>oc_disconnected := oc_disconnected c + 1\<rparr>"
| "bump c Outcome_Cancelled = c\<lparr>oc_cancelled := oc_cancelled c + 1\<rparr>"
| "bump c Outcome_ExpectedRejection = c\<lparr>oc_expected_rejection := oc_expected_rejection c + 1\<rparr>"

definition snapshot_total :: "outcome_snapshot \<Rightarrow> u64" where
  "snapshot_total s = oc_success s + oc_hang s + oc_deadlock s + oc_timeout s + oc_server_error s
     + oc_protocol_error s + oc_crash s + oc_malformed s + oc_disconnected s + oc_cancelled s
     + oc_expected_rejection s"

definition as_secs_f64 :: "duration \<Rightarrow> f64" where
  "as_secs_f64 d = f64_add (f64_of_nat (d div 1000000000))
     (f64_div (f64_of_nat (d mod 1000000000)) (f64_of_nat 1000000000))"

definition requests_per_sec :: "nat \<Rightarrow> nat \<Rightarrow> u64 \<Rightarrow> f64" where
  "requests_per_sec now start n =
     (let elapsed = as_secs_f64 (now - start)
      in if f64_lt (F64_Fin 0) elapsed then f64_div (f64_of_nat (unat n)) elapsed
         else F64_Fin 0)"

subsection \<open>The sharded histogram\<close>

definition MAX_LATENCY_US :: u64 where
  "MAX_LATENCY_US = 3600000000"

definition NUM_SHARDS :: nat where
  "NUM_SHARDS = 16"

type_synonym 'h sharded = "'h option list"

definition sharded_new :: "'h hdr_api \<Rightarrow> 'h sharded option" where
  "sharded_new A = map_option (\<lambda>h. replicate NUM_SHARDS (Some h)) (hdr_new A 1 MAX_LATENCY_US 3)"

text \<open>The hash of the calling thread's id is an argument; the index is cached per thread.\<close>

definition shard_index :: "u64 \<Rightarrow> nat" where
  "shard_index thread_hash = unat thread_hash mod NUM_SHARDS"

definition sharded_record :: "'h hdr_api \<Rightarrow> u64 \<Rightarrow> u64 \<Rightarrow> 'h sharded \<Rightarrow> 'h sharded" where
  "sharded_record A thread_hash value_us sh =
     (let value = clamp_word 1 MAX_LATENCY_US value_us; i = shard_index thread_hash
      in case sh ! i of
           None \<Rightarrow> sh
         | Some h \<Rightarrow> (case hdr_record A h value of None \<Rightarrow> sh | Some h' \<Rightarrow> sh[i := Some h']))"

fun merge_shards :: "'h hdr_api \<Rightarrow> 'h \<Rightarrow> 'h sharded \<Rightarrow> 'h option" where
  "merge_shards A acc [] = Some acc"
| "merge_shards A acc (None # sh) = merge_shards A acc sh"
| "merge_shards A acc (Some h # sh) =
     (case hdr_add A acc h of None \<Rightarrow> None | Some acc' \<Rightarrow> merge_shards A acc' sh)"

definition sharded_merged :: "'h hdr_api \<Rightarrow> 'h sharded \<Rightarrow> 'h option" where
  "sharded_merged A sh =
     (case hdr_new A 1 MAX_LATENCY_US 3 of None \<Rightarrow> None | Some h \<Rightarrow> merge_shards A h sh)"

subsection \<open>The recorder\<close>

record 'h per_tool_state =
  pts_start :: nat
  pts_latency :: "'h sharded"
  pts_outcomes :: outcome_counters

record 'h recorder =
  rec_start :: nat
  rec_latency :: "'h sharded"
  rec_outcomes :: outcome_counters
  rec_per_tool :: "(string, 'h per_tool_state) btree option"

definition per_tool_new :: "'h hdr_api \<Rightarrow> nat \<Rightarrow> 'h per_tool_state option" where
  "per_tool_new A now = map_option
     (\<lambda>sh. \<lparr>pts_start = now, pts_latency = sh, pts_outcomes = outcome_counts_default\<rparr>)
     (sharded_new A)"

definition recorder_new :: "'h hdr_api \<Rightarrow> nat \<Rightarrow> 'h recorder option" where
  "recorder_new A now = map_option
     (\<lambda>sh. \<lparr>rec_start = now, rec_latency = sh, rec_outcomes = outcome_counts_default,
            rec_per_tool = Some []\<rparr>)
     (sharded_new A)"

definition as_micros_saturated :: "duration \<Rightarrow> u64" where
  "as_micros_saturated d = u64_saturate (d div 1000)"

definition record_call ::
  "'h hdr_api \<Rightarrow> u64 \<Rightarrow> duration \<Rightarrow> call_outcome \<Rightarrow> 'h recorder \<Rightarrow> 'h recorder" where
  "record_call A thread_hash d oc r =
     (let r1 = r\<lparr>rec_outcomes := bump (rec_outcomes r) oc\<rparr>
      in if contributes_to_latency oc
         then r1\<lparr>rec_latency :=
                sharded_record A thread_hash (as_micros_saturated d) (rec_latency r1)\<rparr>
         else r1)"

definition tool_state_record ::
  "'h hdr_api \<Rightarrow> u64 \<Rightarrow> duration \<Rightarrow> call_outcome \<Rightarrow> 'h per_tool_state \<Rightarrow> 'h per_tool_state" where
  "tool_state_record A thread_hash d oc st =
     (let st1 = st\<lparr>pts_outcomes := bump (pts_outcomes st) oc\<rparr>
      in if contributes_to_latency oc
         then st1\<lparr>pts_latency :=
                sharded_record A thread_hash (as_micros_saturated d) (pts_latency st1)\<rparr>
         else st1)"

definition record_tool ::
  "'h hdr_api \<Rightarrow> u64 \<Rightarrow> nat \<Rightarrow> string \<Rightarrow> duration \<Rightarrow> call_outcome \<Rightarrow> 'h recorder \<Rightarrow> 'h recorder option"
where
  "record_tool A thread_hash now tool d oc r =
     (let r1 = record_call A thread_hash d oc r
      in case rec_per_tool r1 of
           None \<Rightarrow> Some r1
         | Some m \<Rightarrow>
             (case (case bt_get m tool of
                      Some st \<Rightarrow> Some m
                    | None \<Rightarrow> map_option (\<lambda>st. bt_insert tool st m) (per_tool_new A now)) of
                None \<Rightarrow> None
              | Some m' \<Rightarrow>
                  Some (r1\<lparr>rec_per_tool :=
                    Some (bt_adjust tool (tool_state_record A thread_hash d oc) m')\<rparr>)))"

subsection \<open>Snapshots\<close>

definition us_to_duration :: "u64 \<Rightarrow> duration" where
  "us_to_duration us = unat us * 1000"

definition latency_stats_of :: "'h hdr_api \<Rightarrow> 'h \<Rightarrow> latency_stats" where
  "latency_stats_of A merged =
     (let count = hdr_len A merged
      in if count = 0 then latency_stats_default
         else \<lparr>ls_p50 = us_to_duration (hdr_quantile A merged (f64_round (50 / 100))),
               ls_p95 = us_to_duration (hdr_quantile A merged (f64_round (95 / 100))),
               ls_p99 = us_to_duration (hdr_quantile A merged (f64_round (99 / 100))),
               ls_p999 = us_to_duration (hdr_quantile A merged (f64_round (999 / 1000))),
               ls_mean = us_to_duration (f64_as_u64 (hdr_mean A merged)),
               ls_min = us_to_duration (hdr_min A merged),
               ls_max = us_to_duration (hdr_max A merged),
               ls_count = count\<rparr>)"

definition metrics_of :: "'h hdr_api \<Rightarrow> nat \<Rightarrow> nat \<Rightarrow> outcome_snapshot \<Rightarrow> 'h \<Rightarrow> scenario_metrics" where
  "metrics_of A now start outcomes merged =
     (let total_n = snapshot_total outcomes
      in \<lparr>sm_latency = latency_stats_of A merged,
          sm_throughput =
            \<lparr>ts_total_requests = total_n,
             ts_successful_requests = oc_success outcomes + oc_expected_rejection outcomes,
             ts_requests_per_sec = requests_per_sec now start total_n\<rparr>,
          sm_outcomes = outcomes\<rparr>)"

definition recorder_snapshot :: "'h hdr_api \<Rightarrow> nat \<Rightarrow> 'h recorder \<Rightarrow> scenario_metrics option" where
  "recorder_snapshot A now r =
     map_option (metrics_of A now (rec_start r) (rec_outcomes r)) (sharded_merged A (rec_latency r))"

definition per_tool_snapshot :: "'h hdr_api \<Rightarrow> nat \<Rightarrow> 'h per_tool_state \<Rightarrow> scenario_metrics option" where
  "per_tool_snapshot A now st =
     map_option (metrics_of A now (pts_start st) (pts_outcomes st)) (sharded_merged A (pts_latency st))"

text \<open>A panic while visiting the map aborts the whole traversal.\<close>

fun bt_traverse :: "('v \<Rightarrow> 'w option) \<Rightarrow> ('k, 'v) btree \<Rightarrow> ('k, 'w) btree option" where
  "bt_traverse f [] = Some []"
| "bt_traverse f ((k, v) # m) =
     (case f v of None \<Rightarrow> None
      | Some w \<Rightarrow> map_option (\<lambda>m'. (k, w) # m') (bt_traverse f m))"

definition snapshot_per_tool ::
  "'h hdr_api \<Rightarrow> nat \<Rightarrow> 'h recorder \<Rightarrow> (string, scenario_metrics) btree option" where
  "snapshot_per_tool A now r =
     (case rec_per_tool r of None \<Rightarrow> Some [] | Some m \<Rightarrow> bt_traverse (per_tool_snapshot A now) m)"

definition latency_histogram :: "'h hdr_api \<Rightarrow> 'h recorder \<Rightarrow> 'h option" where
  "latency_histogram A r = sharded_merged A (rec_latency r)"

definition per_tool_latency_histograms ::
  "'h hdr_api \<Rightarrow> 'h recorder \<Rightarrow> (string, 'h) btree option" where
  "per_tool_latency_histograms A r =
     (case rec_per_tool r of None \<Rightarrow> Some []
      | Some m \<Rightarrow> bt_traverse (\<lambda>st. sharded_merged A (pts_latency st)) m)"

subsection \<open>Counters\<close>

fun count_of :: "outcome_counts \<Rightarrow> call_outcome \<Rightarrow> u64" where
  "count_of c Outcome_Success = oc_success c"
| "count_of c Outcome_Hang = oc_hang c"
| "count_of c Outcome_Deadlock = oc_deadlock c"
| "count_of c Outcome_Timeout = oc_timeout c"
| "count_of c Outcome_ServerError = oc_server_error c"
| "count_of c Outcome_ProtocolError = oc_protocol_error c"
| "count_of c Outcome_Crash = oc_crash c"
| "count_of c Outcome_Malformed = oc_malformed c"
| "count_of c Outcome_Disconnected = oc_disconnected c"
| "count_of c Outcome_Cancelled = oc_cancelled c"
| "count_of c Outcome_ExpectedRejection = oc_expected_rejection c"

definition all_outcomes :: "call_outcome list" where
  "all_outcomes = [Outcome_Success, Outcome_Hang, Outcome_Deadlock, Outcome_Timeout,
     Outcome_ServerError, Outcome_ProtocolError, Outcome_Crash, Outcome_Malformed,
     Outcome_Disconnected, Outcome_Cancelled, Outcome_ExpectedRejection]"

lemma all_outcomes_complete: "oc \<in> set all_outcomes" and distinct_all_outcomes: "distinct all_outcomes"
  by (cases oc) (simp_all add: all_outcomes_def)

lemma count_of_bump: "count_of (bump c oc) oc' = count_of c oc' + (if oc = oc' then 1 else 0)"
  by (cases oc; cases oc') simp_all

lemma snapshot_total_counts: "snapshot_total c = sum_list (map (count_of c) all_outcomes)"
  by (simp add: snapshot_total_def all_outcomes_def)

lemma outcome_counts_eqI: "(\<And>oc. count_of c oc = count_of d oc) \<Longrightarrow> c = d"
proof -
  assume a: "\<And>oc. count_of c oc = count_of d oc"
  show "c = d"
    using a [of Outcome_Success] a [of Outcome_Hang] a [of Outcome_Deadlock] a [of Outcome_Timeout]
      a [of Outcome_ServerError] a [of Outcome_ProtocolError] a [of Outcome_Crash]
      a [of Outcome_Malformed] a [of Outcome_Disconnected] a [of Outcome_Cancelled]
      a [of Outcome_ExpectedRejection] by simp
qed

lemma count_of_default [simp]: "count_of outcome_counts_default oc = 0"
  by (cases oc) (simp_all add: outcome_counts_default_def)

text \<open>The number of latency samples the counters promise: success, hang and deadlock.\<close>

definition latency_samples :: "outcome_counts \<Rightarrow> nat" where
  "latency_samples c = unat (oc_success c) + unat (oc_hang c) + unat (oc_deadlock c)"

definition counts_sum :: "outcome_counts \<Rightarrow> nat" where
  "counts_sum c = sum_list (map (\<lambda>oc. unat (count_of c oc)) all_outcomes)"

lemma counts_sum_default [simp]: "counts_sum outcome_counts_default = 0"
  by (simp add: counts_sum_def all_outcomes_def)

lemma count_le_sum: "unat (count_of c oc) \<le> counts_sum c"
  unfolding counts_sum_def
  using member_le_sum_list [of "unat (count_of c oc)"] all_outcomes_complete [of oc] by simp

lemma unat_plus_1: "unat (w :: u64) + 1 < 2 ^ 64 \<Longrightarrow> unat (w + 1) = unat w + 1"
  by (simp add: unat_word_ariths)

lemma unat_count_bump:
  assumes "counts_sum c + 1 < 2 ^ 64"
  shows "unat (count_of (bump c oc) oc') = unat (count_of c oc') + (if oc = oc' then 1 else 0)"
  using assms count_le_sum [of c oc'] by (simp add: count_of_bump unat_plus_1)

lemma counts_sum_bump:
  assumes "counts_sum c + 1 < 2 ^ 64"
  shows "counts_sum (bump c oc) = counts_sum c + 1"
  unfolding counts_sum_def unat_count_bump [OF assms]
  by (cases oc) (simp_all add: all_outcomes_def)

lemma latency_samples_bump:
  assumes "counts_sum c + 1 < 2 ^ 64"
  shows "latency_samples (bump c oc) = latency_samples c + (if contributes_to_latency oc then 1 else 0)"
proof -
  note count = unat_count_bump [OF assms, of oc Outcome_Success, unfolded count_of.simps]
    unat_count_bump [OF assms, of oc Outcome_Hang, unfolded count_of.simps]
    unat_count_bump [OF assms, of oc Outcome_Deadlock, unfolded count_of.simps]
  show ?thesis unfolding latency_samples_def count by (cases oc) simp_all
qed

lemma latency_samples_default [simp]: "latency_samples outcome_counts_default = 0"
  by (simp add: latency_samples_def outcome_counts_default_def)

lemma latency_samples_le: "latency_samples c \<le> counts_sum c"
  by (simp add: latency_samples_def counts_sum_def all_outcomes_def)

lemma unat_sum_list_words:
  "sum_list (map unat ws) < 2 ^ LENGTH('a) \<Longrightarrow> unat (sum_list (ws :: 'a::len word list)) = sum_list (map unat ws)"
proof (induction ws)
  case (Cons w ws)
  then have "unat (sum_list ws) = sum_list (map unat ws)" by simp
  with Cons.prems show ?case by (simp add: unat_word_ariths)
qed simp

text \<open>The wrapping total is the exact one as long as fewer than \<open>2 ^ 64\<close> calls were recorded.\<close>

lemma unat_snapshot_total:
  assumes "counts_sum c < 2 ^ 64"
  shows "unat (snapshot_total c) = counts_sum c"
proof -
  have "sum_list (map unat (map (count_of c) all_outcomes)) < 2 ^ LENGTH(64)"
    using assms unfolding counts_sum_def map_map comp_def by simp
  then have "unat (sum_list (map (count_of c) all_outcomes))
      = sum_list (map unat (map (count_of c) all_outcomes))"
    by (rule unat_sum_list_words)
  then show ?thesis
    unfolding snapshot_total_counts counts_sum_def map_map comp_def .
qed

subsection \<open>No sample is lost in the shards\<close>

definition rec_layout :: hdr_layout where
  "rec_layout = (1, MAX_LATENCY_US, 3)"

primrec shard_samples :: "'h hdr_api \<Rightarrow> 'h option \<Rightarrow> nat" where
  "shard_samples A None = 0"
| "shard_samples A (Some h) = unat (hdr_len A h)"

definition sharded_inv :: "'h hdr_api \<Rightarrow> nat \<Rightarrow> 'h sharded \<Rightarrow> bool" where
  "sharded_inv A n sh \<longleftrightarrow>
     length sh = NUM_SHARDS
     \<and> (\<forall>s \<in> set sh. \<exists>h. s = Some h \<and> hdr_layout_of A h = rec_layout)
     \<and> sum_list (map (shard_samples A) sh) = n"

lemma rec_layout_new:
  assumes "hdr_contract A"
  obtains h where "hdr_new A 1 MAX_LATENCY_US 3 = Some h" "hdr_len A h = 0"
    "hdr_layout_of A h = rec_layout"
  using hdr_newD [OF assms, of 1 MAX_LATENCY_US 3] by (auto simp: MAX_LATENCY_US_def rec_layout_def)

lemma shard_index_less: "shard_index t < NUM_SHARDS"
  by (simp add: shard_index_def NUM_SHARDS_def)

lemma sharded_new_inv:
  assumes "hdr_contract A"
  obtains sh where "sharded_new A = Some sh" "sharded_inv A 0 sh"
proof -
  obtain h where h: "hdr_new A 1 MAX_LATENCY_US 3 = Some h" "hdr_len A h = 0"
    "hdr_layout_of A h = rec_layout" using assms by (rule rec_layout_new)
  from h(2,3) have "sharded_inv A 0 (replicate NUM_SHARDS (Some h))"
    unfolding sharded_inv_def by (simp add: sum_list_replicate)
  moreover from h(1) have "sharded_new A = Some (replicate NUM_SHARDS (Some h))"
    by (simp add: sharded_new_def)
  ultimately show thesis using that by blast
qed

lemma sharded_record_inv [wf_pres]:
  assumes A: "hdr_contract A" and inv: "sharded_inv A n sh" and n: "n + 1 < 2 ^ 64"
  shows "sharded_inv A (n + 1) (sharded_record A t v sh)"
proof -
  let ?i = "shard_index t" and ?v = "clamp_word 1 MAX_LATENCY_US v"
  have i: "?i < length sh" using inv shard_index_less by (simp add: sharded_inv_def)
  have "sh ! ?i \<in> set sh" using i by (rule nth_mem)
  with inv obtain h where h: "sh ! ?i = Some h" "hdr_layout_of A h = rec_layout"
    unfolding sharded_inv_def by blast
  have "?v \<le> hdr_high A h"
    using h(2) clamp_word_bounds [of 1 MAX_LATENCY_US v]
    by (simp add: hdr_layout_of_def rec_layout_def MAX_LATENCY_US_def)
  from hdr_recordD [OF A this] obtain h' where h': "hdr_record A h ?v = Some h'"
    "hdr_layout_of A h' = rec_layout" "unat (hdr_len A h) + 1 < 2 ^ 64 \<Longrightarrow> hdr_len A h' = hdr_len A h + 1"
    using h(2) by metis
  have sum: "sum_list (map (shard_samples A) sh) = n" using inv by (simp add: sharded_inv_def)
  have le: "unat (hdr_len A h) \<le> n"
    using elem_le_sum_list [of ?i "map (shard_samples A) sh"] i h(1) sum by simp
  with n h'(3) have len: "unat (hdr_len A h') = unat (hdr_len A h) + 1"
    by (simp add: unat_plus_1)
  have "sum_list (map (shard_samples A) (sh[?i := Some h'])) = n + 1"
    using i h(1) len le by (simp add: map_update sum_list_update sum)
  moreover have "\<forall>s \<in> set (sh[?i := Some h']). \<exists>h. s = Some h \<and> hdr_layout_of A h = rec_layout"
    using inv h'(2) set_update_subset_insert [of sh ?i "Some h'"] by (auto simp: sharded_inv_def)
  ultimately show ?thesis
    using inv h(1) h'(1) by (simp add: sharded_record_def Let_def sharded_inv_def)
qed

lemma merge_shards_samples:
  assumes A: "hdr_contract A" and "hdr_layout_of A acc = rec_layout"
    and "\<forall>s \<in> set sh. \<exists>h. s = Some h \<and> hdr_layout_of A h = rec_layout"
    and "unat (hdr_len A acc) + sum_list (map (shard_samples A) sh) < 2 ^ 64"
  shows "\<exists>h. merge_shards A acc sh = Some h \<and> hdr_layout_of A h = rec_layout
     \<and> unat (hdr_len A h) = unat (hdr_len A acc) + sum_list (map (shard_samples A) sh)"
  using assms(2-)
proof (induction sh arbitrary: acc)
  case (Cons s sh)
  then obtain h where s: "s = Some h" and lay: "hdr_layout_of A h = rec_layout" by auto
  have "hdr_layout_of A acc = hdr_layout_of A h" using lay Cons.prems(1) by simp
  from hdr_addD [OF A this] obtain c where c: "hdr_add A acc h = Some c"
    "hdr_layout_of A c = hdr_layout_of A acc"
    "unat (hdr_len A acc) + unat (hdr_len A h) < 2 ^ 64 \<Longrightarrow> hdr_len A c = hdr_len A acc + hdr_len A h"
    by blast
  have "unat (hdr_len A acc) + unat (hdr_len A h) < 2 ^ 64" using Cons.prems(3) s by simp
  with c(3) have len: "unat (hdr_len A c) = unat (hdr_len A acc) + unat (hdr_len A h)"
    by (simp add: unat_word_ariths)
  have "\<exists>x. merge_shards A c sh = Some x \<and> hdr_layout_of A x = rec_layout
     \<and> unat (hdr_len A x) = unat (hdr_len A c) + sum_list (map (shard_samples A) sh)"
    by (rule Cons.IH) (use c(2) Cons.prems s len in simp_all)
  with c(1) s len show ?case by (simp add: add.assoc)
qed simp_all

lemma sharded_merged_samples:
  assumes A: "hdr_contract A" and inv: "sharded_inv A n sh" and n: "n < 2 ^ 64"
  obtains h where "sharded_merged A sh = Some h" "hdr_layout_of A h = rec_layout"
    "unat (hdr_len A h) = n"
proof -
  obtain h where h: "hdr_new A 1 MAX_LATENCY_US 3 = Some h" "hdr_len A h = 0"
    "hdr_layout_of A h = rec_layout" using A by (rule rec_layout_new)
  have "\<forall>s \<in> set sh. \<exists>h. s = Some h \<and> hdr_layout_of A h = rec_layout"
    and sum: "sum_list (map (shard_samples A) sh) = n"
    using inv by (simp_all add: sharded_inv_def)
  from merge_shards_samples [OF A h(3) this(1)]
  have "\<exists>x. merge_shards A h sh = Some x \<and> hdr_layout_of A x = rec_layout \<and> unat (hdr_len A x) = n"
    using h(2) n sum by simp
  with h(1) that show thesis by (auto simp: sharded_merged_def)
qed

subsection \<open>Runs of a recorder\<close>

text \<open>The calls the workers make on clones of one recorder, in the order they take effect.\<close>

datatype rec_event =
    Rec_Call u64 duration call_outcome
  | Rec_Tool u64 nat string duration call_outcome

fun recorder_step :: "'h hdr_api \<Rightarrow> 'h recorder \<Rightarrow> rec_event \<Rightarrow> 'h recorder option" where
  "recorder_step A r (Rec_Call t d oc) = Some (record_call A t d oc r)"
| "recorder_step A r (Rec_Tool t now tool d oc) = record_tool A t now tool d oc r"

fun recorder_run :: "'h hdr_api \<Rightarrow> 'h recorder \<Rightarrow> rec_event list \<Rightarrow> 'h recorder option" where
  "recorder_run A r [] = Some r"
| "recorder_run A r (e # es) =
     (case recorder_step A r e of None \<Rightarrow> None | Some r' \<Rightarrow> recorder_run A r' es)"

fun event_outcome :: "rec_event \<Rightarrow> call_outcome" where
  "event_outcome (Rec_Call t d oc) = oc"
| "event_outcome (Rec_Tool t now tool d oc) = oc"

fun event_tool :: "rec_event \<Rightarrow> string option" where
  "event_tool (Rec_Call t d oc) = None"
| "event_tool (Rec_Tool t now tool d oc) = Some tool"

text \<open>What a set of counters and its histogram hold after the given outcomes.\<close>

definition tally :: "'h hdr_api \<Rightarrow> call_outcome list \<Rightarrow> outcome_counts \<Rightarrow> 'h sharded \<Rightarrow> bool" where
  "tally A ocs c sh \<longleftrightarrow>
     counts_sum c = length ocs
     \<and> (\<forall>oc. unat (count_of c oc) = count_list ocs oc)
     \<and> sharded_inv A (latency_samples c) sh"

lemma tally_record:
  assumes A: "hdr_contract A" and t: "tally A ocs c sh" and n: "length ocs + 1 < 2 ^ 64"
  shows "tally A (ocs @ [oc]) (bump c oc)
     (if contributes_to_latency oc then sharded_record A th v sh else sh)"
proof -
  have sum: "counts_sum c + 1 < 2 ^ 64" using t n by (simp add: tally_def)
  have inv: "sharded_inv A (latency_samples c) sh" using t by (simp add: tally_def)
  have "latency_samples c + 1 < 2 ^ 64" using latency_samples_le [of c] sum by simp
  then have "sharded_inv A (latency_samples (bump c oc))
     (if contributes_to_latency oc then sharded_record A th v sh else sh)"
    using sharded_record_inv [OF A inv, of th v] inv by (simp add: latency_samples_bump [OF sum])
  with t show ?thesis
    by (simp add: tally_def counts_sum_bump [OF sum] unat_count_bump [OF sum])
qed

lemma tally_new: "sharded_inv A 0 sh \<Longrightarrow> tally A [] outcome_counts_default sh"
  by (simp add: tally_def)

definition tool_outcomes :: "string \<Rightarrow> rec_event list \<Rightarrow> call_outcome list" where
  "tool_outcomes tool es = map event_outcome (filter (\<lambda>e. event_tool e = Some tool) es)"

definition recorder_inv :: "'h hdr_api \<Rightarrow> rec_event list \<Rightarrow> 'h recorder \<Rightarrow> bool" where
  "recorder_inv A es r \<longleftrightarrow>
     tally A (map event_outcome es) (rec_outcomes r) (rec_latency r)
     \<and> (\<exists>m. rec_per_tool r = Some m \<and> bt_wf m
          \<and> (\<forall>tool. bt_get m tool = None \<longleftrightarrow> tool_outcomes tool es = [])
          \<and> (\<forall>tool st. bt_get m tool = Some st \<longrightarrow>
                tally A (tool_outcomes tool es) (pts_outcomes st) (pts_latency st)))"

lemma recorder_inv_call:
  assumes "hdr_contract A" "recorder_inv A es r" "length es + 1 < 2 ^ 64"
  shows "recorder_inv A (es @ [Rec_Call t d oc]) (record_call A t d oc r)"
proof -
  have "tally A (map event_outcome es) (rec_outcomes r) (rec_latency r)"
    using assms(2) by (simp add: recorder_inv_def)
  from tally_record [OF assms(1) this] assms(3)
  have "tally A (map event_outcome es @ [oc]) (bump (rec_outcomes r) oc)
     (if contributes_to_latency oc
      then sharded_record A t (as_micros_saturated d) (rec_latency r) else rec_latency r)" by simp
  then show ?thesis
    using assms(2)
    by (cases "contributes_to_latency oc")
      (simp_all add: recorder_inv_def record_call_def tool_outcomes_def)
qed

lemma tool_state_record_tally:
  assumes "hdr_contract A" "tally A ocs (pts_outcomes st) (pts_latency st)" "length ocs + 1 < 2 ^ 64"
  shows "tally A (ocs @ [oc]) (pts_outcomes (tool_state_record A t d oc st))
     (pts_latency (tool_state_record A t d oc st))"
  using tally_record [OF assms, of oc t "as_micros_saturated d"]
  by (cases "contributes_to_latency oc") (simp_all add: tool_state_record_def Let_def)

lemma per_tool_new_tally:
  assumes "hdr_contract A"
  obtains st where "per_tool_new A now = Some st" "tally A [] (pts_outcomes st) (pts_latency st)"
  using sharded_new_inv [OF assms] that by (fastforce simp: per_tool_new_def tally_new)

text \<open>Looking a tool up, or creating its entry, yields an entry that tallies its calls so far.\<close>

lemma tool_entry:
  assumes A: "hdr_contract A" and wf: "bt_wf m"
    and none: "bt_get m tool = None \<Longrightarrow> ocs = []"
    and some: "\<And>st. bt_get m tool = Some st \<Longrightarrow> tally A ocs (pts_outcomes st) (pts_latency st)"
  obtains m' st where
    "(case bt_get m tool of Some st \<Rightarrow> Some m
      | None \<Rightarrow> map_option (\<lambda>st. bt_insert tool st m) (per_tool_new A now)) = Some m'"
    "bt_wf m'" "bt_get m' tool = Some st" "tally A ocs (pts_outcomes st) (pts_latency st)"
    "\<And>x. x \<noteq> tool \<Longrightarrow> bt_get m' x = bt_get m x"
proof (cases "bt_get m tool")
  case None
  obtain st where "per_tool_new A now = Some st" "tally A [] (pts_outcomes st) (pts_latency st)"
    using A by (rule per_tool_new_tally)
  then show thesis
    using that [of "bt_insert tool st m" st] None wf none by simp
next
  case (Some st)
  then show thesis using that [of m st] wf some by simp
qed

lemma recorder_inv_tool:
  assumes A: "hdr_contract A" and inv: "recorder_inv A es r" and n: "length es + 1 < 2 ^ 64"
  shows "\<exists>r'. record_tool A t now tool d oc r = Some r'
     \<and> recorder_inv A (es @ [Rec_Tool t now tool d oc]) r'"
proof -
  let ?r1 = "record_call A t d oc r" and ?e = "Rec_Tool t now tool d oc"
  obtain m where m: "rec_per_tool r = Some m" "bt_wf m"
    "\<And>x. bt_get m x = None \<longleftrightarrow> tool_outcomes x es = []"
    "\<And>x st. bt_get m x = Some st \<Longrightarrow>
       tally A (tool_outcomes x es) (pts_outcomes st) (pts_latency st)"
    using inv unfolding recorder_inv_def by blast
  have r1: "tally A (map event_outcome (es @ [?e])) (rec_outcomes ?r1) (rec_latency ?r1)"
    "rec_per_tool ?r1 = Some m"
    using recorder_inv_call [OF A inv n, of t d oc] m(1)
    by (simp_all add: recorder_inv_def record_call_def Let_def)
  obtain m' st where m': "(case bt_get m tool of Some st \<Rightarrow> Some m
      | None \<Rightarrow> map_option (\<lambda>st. bt_insert tool st m) (per_tool_new A now)) = Some m'"
    "bt_wf m'" "bt_get m' tool = Some st"
    "tally A (tool_outcomes tool es) (pts_outcomes st) (pts_latency st)"
    "\<And>x. x \<noteq> tool \<Longrightarrow> bt_get m' x = bt_get m x"
    by (rule tool_entry [OF A m(2), where tool = tool and now = now
      and ocs = "tool_outcomes tool es"]) (use m(3,4) in auto)
  let ?m'' = "bt_adjust tool (tool_state_record A t d oc) m'"
  have run: "record_tool A t now tool d oc r = Some (?r1\<lparr>rec_per_tool := Some ?m''\<rparr>)"
    using r1(2) m'(1) by (simp add: record_tool_def Let_def)
  have ocs: "tool_outcomes x (es @ [?e]) = tool_outcomes x es @ (if x = tool then [oc] else [])" for x
    by (auto simp: tool_outcomes_def)
  have "length (tool_outcomes tool es) + 1 < 2 ^ 64"
    by (rule le_less_trans [OF add_right_mono n]) (simp add: tool_outcomes_def)
  from tool_state_record_tally [OF A m'(4) this]
  have st: "tally A (tool_outcomes tool es @ [oc]) (pts_outcomes (tool_state_record A t d oc st))
     (pts_latency (tool_state_record A t d oc st))" .
  have "recorder_inv A (es @ [?e]) (?r1\<lparr>rec_per_tool := Some ?m''\<rparr>)"
    using r1(1) m' m(3,4) st by (auto simp: recorder_inv_def ocs)
  with run show ?thesis by blast
qed

lemma recorder_inv_step:
  assumes "hdr_contract A" "recorder_inv A es r" "length es + 1 < 2 ^ 64"
  shows "\<exists>r'. recorder_step A r e = Some r' \<and> recorder_inv A (es @ [e]) r'"
  using recorder_inv_call [OF assms] recorder_inv_tool [OF assms] by (cases e) auto

lemma recorder_inv_run:
  assumes A: "hdr_contract A"
  shows "recorder_inv A pre r \<Longrightarrow> length pre + length es < 2 ^ 64 \<Longrightarrow>
     \<exists>r'. recorder_run A r es = Some r' \<and> recorder_inv A (pre @ es) r'"
proof (induction es arbitrary: pre r)
  case (Cons e es)
  then have "length pre + 1 < 2 ^ 64" by simp
  from recorder_inv_step [OF A Cons.prems(1) this]
  obtain r' where r': "recorder_step A r e = Some r'" "recorder_inv A (pre @ [e]) r'" by blast
  have "\<exists>r''. recorder_run A r' es = Some r'' \<and> recorder_inv A ((pre @ [e]) @ es) r''"
    by (rule Cons.IH [OF r'(2)]) (use Cons.prems in simp)
  with r'(1) show ?case by simp
qed simp

lemma recorder_new_inv:
  assumes "hdr_contract A"
  obtains r where "recorder_new A now = Some r" "recorder_inv A [] r"
proof -
  obtain sh where "sharded_new A = Some sh" "sharded_inv A 0 sh"
    using assms by (rule sharded_new_inv)
  then show thesis using that
    by (simp add: recorder_new_def recorder_inv_def tally_new tool_outcomes_def)
qed

lemma recorder_run_inv:
  assumes "hdr_contract A" "length es < 2 ^ 64"
  obtains r0 r where "recorder_new A now = Some r0" "recorder_run A r0 es = Some r"
    "recorder_inv A es r"
proof -
  obtain r0 where r0: "recorder_new A now = Some r0" "recorder_inv A [] r0"
    using assms(1) by (rule recorder_new_inv)
  with recorder_inv_run [OF assms(1) r0(2), of es] assms(2) that show thesis by auto
qed

lemma tally_merged:
  assumes "hdr_contract A" "tally A ocs c sh" "length ocs < 2 ^ 64"
  obtains h where "sharded_merged A sh = Some h" "hdr_layout_of A h = rec_layout"
    "unat (hdr_len A h) = latency_samples c"
proof -
  have "sharded_inv A (latency_samples c) sh" "latency_samples c < 2 ^ 64"
    using assms(2,3) latency_samples_le [of c] by (auto simp: tally_def)
  from sharded_merged_samples [OF assms(1) this] that show thesis by blast
qed

lemma tally_total: "tally A ocs c sh \<Longrightarrow> length ocs < 2 ^ 64 \<Longrightarrow> unat (snapshot_total c) = length ocs"
  by (simp add: tally_def unat_snapshot_total)

lemma length_filter_contributes:
  "length (filter contributes_to_latency ocs)
     = count_list ocs Outcome_Success + count_list ocs Outcome_Hang + count_list ocs Outcome_Deadlock"
proof (induction ocs)
  case (Cons oc ocs)
  then show ?case by (cases oc) simp_all
qed simp

lemma tally_latency:
  assumes "tally A ocs c sh"
  shows "latency_samples c = length (filter contributes_to_latency ocs)"
proof -
  have "unat (count_of c oc) = count_list ocs oc" for oc using assms by (simp add: tally_def)
  from this [of Outcome_Success] this [of Outcome_Hang] this [of Outcome_Deadlock]
  show ?thesis by (simp add: length_filter_contributes latency_samples_def)
qed

text \<open>A traversal that never panics keeps the keys and maps every value.\<close>

lemma bt_traverse_total:
  assumes "\<forall>(k, v) \<in> set m. \<exists>w. f v = Some w"
  obtains m' where "bt_traverse f m = Some m'" "bt_keys m' = bt_keys m"
    "\<And>k. bt_get m' k = Option.bind (bt_get m k) f"
proof -
  have "\<exists>m'. bt_traverse f m = Some m' \<and> bt_keys m' = bt_keys m
     \<and> (\<forall>k. bt_get m' k = Option.bind (bt_get m k) f)"
    using assms
  proof (induction m)
    case (Cons kv m)
    obtain k v where kv: "kv = (k, v)" by (cases kv)
    obtain w where w: "f v = Some w" using Cons.prems kv by auto
    obtain m' where m': "bt_traverse f m = Some m'" "bt_keys m' = bt_keys m"
      "\<forall>k. bt_get m' k = Option.bind (bt_get m k) f" using Cons by auto
    then show ?case using kv w by simp
  qed simp
  with that show thesis by blast
qed

lemma recorder_inv_tools:
  assumes A: "hdr_contract A" and inv: "recorder_inv A es r" and n: "length es < 2 ^ 64"
  obtains m where "rec_per_tool r = Some m" "bt_wf m"
    "\<And>x. bt_get m x = None \<longleftrightarrow> tool_outcomes x es = []"
    "\<And>x st. bt_get m x = Some st \<Longrightarrow> tally A (tool_outcomes x es) (pts_outcomes st) (pts_latency st)"
    "\<And>x st. bt_get m x = Some st \<Longrightarrow> \<exists>h. sharded_merged A (pts_latency st) = Some h
       \<and> unat (hdr_len A h) = length (filter contributes_to_latency (tool_outcomes x es))"
proof -
  obtain m where m: "rec_per_tool r = Some m" "bt_wf m"
    "\<And>x. bt_get m x = None \<longleftrightarrow> tool_outcomes x es = []"
    "\<And>x st. bt_get m x = Some st \<Longrightarrow>
       tally A (tool_outcomes x es) (pts_outcomes st) (pts_latency st)"
    using inv unfolding recorder_inv_def by blast
  have "\<exists>h. sharded_merged A (pts_latency st) = Some h
       \<and> unat (hdr_len A h) = length (filter contributes_to_latency (tool_outcomes x es))"
    if "bt_get m x = Some st" for x st
  proof -
    note t = m(4) [OF that]
    have "length (tool_outcomes x es) < 2 ^ 64"
      by (rule le_less_trans [OF _ n]) (simp add: tool_outcomes_def)
    from tally_merged [OF A t this] show ?thesis by (metis tally_latency [OF t])
  qed
  with m that show thesis by blast
qed

lemma length_tool_outcomes: "length es < 2 ^ 64 \<Longrightarrow> length (tool_outcomes x es) < 2 ^ 64"
  by (rule le_less_trans) (simp_all add: tool_outcomes_def)

definition tools_of :: "rec_event list \<Rightarrow> string set" where
  "tools_of es = {tool. Some tool \<in> set (map event_tool es)}"

lemma tools_of_outcomes: "tool_outcomes x es = [] \<longleftrightarrow> x \<notin> tools_of es"
  by (induction es) (auto simp: tools_of_def tool_outcomes_def)

lemma metrics_of_count [simp]:
  "ls_count (sm_latency (metrics_of A now start oc h)) = hdr_len A h"
  "sm_outcomes (metrics_of A now start oc h) = oc"
  "ts_total_requests (sm_throughput (metrics_of A now start oc h)) = snapshot_total oc"
  by (simp_all add: metrics_of_def Let_def latency_stats_of_def latency_stats_default_def)

lemma recorder_inv_per_tool:
  assumes "hdr_contract A" and inv: "recorder_inv A es r" and "length es < 2 ^ 64"
  shows "\<exists>ms hs. snapshot_per_tool A now r = Some ms \<and> per_tool_latency_histograms A r = Some hs
     \<and> bt_keys ms = sorted_list_of_set (tools_of es) \<and> bt_keys hs = bt_keys ms
     \<and> (\<forall>tool \<in> tools_of es. \<exists>m h. bt_get ms tool = Some m \<and> bt_get hs tool = Some h
          \<and> hdr_len A h = ls_count (sm_latency m)
          \<and> unat (ls_count (sm_latency m))
              = length (filter contributes_to_latency (tool_outcomes tool es))
          \<and> unat (ts_total_requests (sm_throughput m)) = length (tool_outcomes tool es)
          \<and> (\<forall>oc. unat (count_of (sm_outcomes m) oc) = count_list (tool_outcomes tool es) oc))"
proof -
  obtain m where m: "rec_per_tool r = Some m" "bt_wf m"
    "\<And>x. bt_get m x = None \<longleftrightarrow> tool_outcomes x es = []"
    "\<And>x st. bt_get m x = Some st \<Longrightarrow> tally A (tool_outcomes x es) (pts_outcomes st) (pts_latency st)"
    "\<And>x st. bt_get m x = Some st \<Longrightarrow> \<exists>h. sharded_merged A (pts_latency st) = Some h
       \<and> unat (hdr_len A h) = length (filter contributes_to_latency (tool_outcomes x es))"
    using assms(1) inv assms(3) by (rule recorder_inv_tools) blast
  have hist: "\<forall>(k, st) \<in> set m. \<exists>h. sharded_merged A (pts_latency st) = Some h"
    using m(5) bt_wf_get_mem [OF m(2)] by fastforce
  then have snap: "\<forall>(k, st) \<in> set m. \<exists>w. per_tool_snapshot A now st = Some w"
    by (auto simp: per_tool_snapshot_def)
  obtain hs where hs: "bt_traverse (\<lambda>st. sharded_merged A (pts_latency st)) m = Some hs"
    "bt_keys hs = bt_keys m"
    "\<And>k. bt_get hs k = Option.bind (bt_get m k) (\<lambda>st. sharded_merged A (pts_latency st))"
    using bt_traverse_total [OF hist] by blast
  obtain ms where ms: "bt_traverse (per_tool_snapshot A now) m = Some ms" "bt_keys ms = bt_keys m"
    "\<And>k. bt_get ms k = Option.bind (bt_get m k) (per_tool_snapshot A now)"
    using bt_traverse_total [OF snap] by blast
  have "dom (bt_get m) = tools_of es" using m(3) tools_of_outcomes by (auto simp: dom_def)
  then have keys: "bt_keys m = sorted_list_of_set (tools_of es)"
    using btm.keys_of_dom [OF m(2)] by simp
  have tool: "\<exists>sm h. bt_get ms x = Some sm \<and> bt_get hs x = Some h
      \<and> hdr_len A h = ls_count (sm_latency sm)
      \<and> unat (ls_count (sm_latency sm)) = length (filter contributes_to_latency (tool_outcomes x es))
      \<and> unat (ts_total_requests (sm_throughput sm)) = length (tool_outcomes x es)
      \<and> (\<forall>oc. unat (count_of (sm_outcomes sm) oc) = count_list (tool_outcomes x es) oc)"
    if "x \<in> tools_of es" for x
  proof -
    have "bt_get m x \<noteq> None" using that m(3) [of x] by (simp add: tools_of_outcomes)
    then obtain st where st: "bt_get m x = Some st" by blast
    obtain h where h: "sharded_merged A (pts_latency st) = Some h"
      "unat (hdr_len A h) = length (filter contributes_to_latency (tool_outcomes x es))"
      using m(5) [OF st] by blast
    show ?thesis
      using st h m(4) [OF st] tally_total [OF m(4) [OF st] length_tool_outcomes [OF assms(3)]]
      by (simp add: ms(3) hs(3) per_tool_snapshot_def tally_def)
  qed
  show ?thesis
    using hs(1,2) ms(1,2) keys tool m(1)
    by (auto simp: snapshot_per_tool_def per_tool_latency_histograms_def)
qed

lemma bt_traverse_values:
  "bt_traverse f m = Some m' \<Longrightarrow> (k, w) \<in> set m' \<Longrightarrow> \<exists>v. f v = Some w"
proof (induction m arbitrary: m')
  case (Cons kv m)
  obtain k0 v0 where kv: "kv = (k0, v0)" by (cases kv)
  from Cons.prems(1) obtain w0 m0 where m0: "f v0 = Some w0" "bt_traverse f m = Some m0"
    "m' = (k0, w0) # m0" unfolding kv by (auto split: option.splits)
  show ?case
  proof (cases "(k, w) \<in> set m0")
    case True
    with m0(2) show ?thesis by (rule Cons.IH)
  next
    case False
    with Cons.prems(2) m0 show ?thesis by auto
  qed
qed simp

text \<open>A reported percentile is a microsecond value of the histogram, in nanoseconds.\<close>

lemma unat_lt2p_u64: "unat (w :: u64) < 2 ^ 64"
  using unsigned_less [of w] by simp

lemma us_to_duration_le: "us_to_duration us \<le> 2 ^ 64 * 1000"
  using unat_lt2p_u64 [of us] by (simp add: us_to_duration_def)

lemma metrics_of_p99: "ls_p99 (sm_latency (metrics_of A now start oc h)) \<le> 2 ^ 64 * 1000"
  using us_to_duration_le [of "hdr_quantile A h (f64_round (99 / 100))"]
  by (simp add: metrics_of_def Let_def latency_stats_of_def latency_stats_default_def)

lemma snapshot_per_tool_p99:
  assumes "snapshot_per_tool A now r = Some ms" "bt_get ms tool = Some m"
  shows "ls_p99 (sm_latency m) \<le> 2 ^ 64 * 1000"
proof (cases "rec_per_tool r")
  case None
  then show ?thesis using assms by (simp add: snapshot_per_tool_def)
next
  case (Some tools)
  then have "bt_traverse (per_tool_snapshot A now) tools = Some ms"
    using assms(1) by (simp add: snapshot_per_tool_def)
  then obtain st where "per_tool_snapshot A now st = Some m"
    using bt_traverse_values map_of_SomeD [OF assms(2)] by fast
  then obtain h where "m = metrics_of A now (pts_start st) (pts_outcomes st) h"
    by (auto simp: per_tool_snapshot_def)
  then show ?thesis using metrics_of_p99 by simp
qed

subsection \<open>Properties\<close>

text \<open>
  C4. Recording never panics and loses nothing: after any sequence of fewer than \<open>2 ^ 64\<close> calls on
  a fresh recorder, every outcome counter is the number of calls with that outcome, the reported
  total is the number of calls, and the merged histogram over the sixteen shards holds exactly one
  sample per success, hang and deadlock, whichever shards the threads hashed to.
\<close>

theorem recorder_conserves_samples:
  assumes "hdr_contract A" and "length es < 2 ^ 64"
  shows "\<exists>r0 r h. recorder_new A now = Some r0 \<and> recorder_run A r0 es = Some r
     \<and> latency_histogram A r = Some h
     \<and> unat (hdr_len A h) = length (filter contributes_to_latency (map event_outcome es))
     \<and> (\<forall>oc. unat (count_of (rec_outcomes r) oc) = count_list (map event_outcome es) oc)
     \<and> unat (snapshot_total (rec_outcomes r)) = length es"
proof -
  obtain r0 r where run: "recorder_new A now = Some r0" "recorder_run A r0 es = Some r"
    and "recorder_inv A es r" using assms by (rule recorder_run_inv)
  then have t: "tally A (map event_outcome es) (rec_outcomes r) (rec_latency r)"
    by (simp add: recorder_inv_def)
  obtain h where h: "sharded_merged A (rec_latency r) = Some h"
    "unat (hdr_len A h) = latency_samples (rec_outcomes r)"
    using tally_merged [OF assms(1) t] assms(2) by auto
  have "unat (count_of (rec_outcomes r) oc) = count_list (map event_outcome es) oc" for oc
    using t by (simp add: tally_def)
  with run h tally_total [OF t] tally_latency [OF t] assms(2) show ?thesis
    by (auto simp: latency_histogram_def)
qed

lemma recorder_conserves_samples_witness:
  "\<exists>r0 r h. recorder_new exact_api 0 = Some r0
     \<and> recorder_run exact_api r0
          [Rec_Call 3 (5 * 10 ^ 6) Outcome_Success, Rec_Tool 19 7 ''echo'' 400 Outcome_Hang,
           Rec_Tool 4 9 ''echo'' (10 ^ 18) Outcome_Timeout] = Some r
     \<and> latency_histogram exact_api r = Some h \<and> unat (hdr_len exact_api h) = 2
     \<and> unat (oc_timeout (rec_outcomes r)) = 1 \<and> unat (snapshot_total (rec_outcomes r)) = 3"
  using recorder_conserves_samples [OF exact_hdr_contract, of
    "[Rec_Call 3 (5 * 10 ^ 6) Outcome_Success, Rec_Tool 19 7 ''echo'' 400 Outcome_Hang,
      Rec_Tool 4 9 ''echo'' (10 ^ 18) Outcome_Timeout]" 0]
  by (auto dest: spec [of _ Outcome_Timeout])

text \<open>
  The per-tool snapshot partitions the tool-tagged calls: it lists exactly the tools that were
  recorded, in order, the histogram map lists the same tools, and each tool's counters, total and
  sample count are those of its own calls, also when its entry was created by a later call.
\<close>

theorem snapshot_per_tool_partitions:
  assumes "hdr_contract A" and "length es < 2 ^ 64"
  shows "\<exists>r0 r ms hs. recorder_new A t0 = Some r0 \<and> recorder_run A r0 es = Some r
     \<and> snapshot_per_tool A now r = Some ms \<and> per_tool_latency_histograms A r = Some hs
     \<and> bt_keys ms = sorted_list_of_set (tools_of es) \<and> bt_keys hs = bt_keys ms
     \<and> (\<forall>tool \<in> tools_of es. \<exists>m h. bt_get ms tool = Some m \<and> bt_get hs tool = Some h
          \<and> hdr_len A h = ls_count (sm_latency m)
          \<and> unat (ls_count (sm_latency m))
              = length (filter contributes_to_latency (tool_outcomes tool es))
          \<and> unat (ts_total_requests (sm_throughput m)) = length (tool_outcomes tool es)
          \<and> (\<forall>oc. unat (count_of (sm_outcomes m) oc) = count_list (tool_outcomes tool es) oc))"
proof -
  obtain r0 r where run: "recorder_new A t0 = Some r0" "recorder_run A r0 es = Some r"
    and inv: "recorder_inv A es r" using assms by (rule recorder_run_inv)
  then show ?thesis using recorder_inv_per_tool [OF assms(1) inv assms(2), of now] by blast
qed

lemma snapshot_per_tool_partitions_witness:
  "\<exists>r0 r ms hs m. recorder_new exact_api 0 = Some r0
     \<and> recorder_run exact_api r0
          [Rec_Tool 3 5 ''b'' 4000 Outcome_Success, Rec_Call 3 (5 * 10 ^ 6) Outcome_Success,
           Rec_Tool 19 7 ''a'' 400 Outcome_Hang, Rec_Tool 4 9 ''b'' (10 ^ 18) Outcome_Timeout] = Some r
     \<and> snapshot_per_tool exact_api 100 r = Some ms \<and> per_tool_latency_histograms exact_api r = Some hs
     \<and> bt_keys hs = bt_keys ms \<and> bt_get ms ''b'' = Some m
     \<and> unat (ts_total_requests (sm_throughput m)) = 2 \<and> unat (ls_count (sm_latency m)) = 1"
proof -
  let ?es = "[Rec_Tool 3 5 ''b'' 4000 Outcome_Success, Rec_Call 3 (5 * 10 ^ 6) Outcome_Success,
    Rec_Tool 19 7 ''a'' 400 Outcome_Hang, Rec_Tool 4 9 ''b'' (10 ^ 18) Outcome_Timeout]"
  have b: "''b'' \<in> tools_of ?es" by (simp add: tools_of_def)
  have oc: "tool_outcomes ''b'' ?es = [Outcome_Success, Outcome_Timeout]"
    by (simp add: tool_outcomes_def)
  have "length ?es < 2 ^ 64" by simp
  from snapshot_per_tool_partitions [OF exact_hdr_contract this, of 0 100] b oc show ?thesis
    by fastforce
qed

end
