(* ===== verification/Report.thy ===== *)
theory Report
  imports Metrics
begin

section \<open>Run reports\<close>

text \<open>
  \<open>crates/core/src/outcome.rs\<close>, \<open>report.rs\<close> and \<open>coverage.rs\<close>: what a scenario hands back, the
  report a run produces, and the guardrails of \<open>Report::passed\<close>. A formatted string is its list of
  pieces: literal text, and the values the \<open>format!\<close> call interpolates (their decimal rendering is
  the standard library's). A \<open>SystemTime\<close> is its nanoseconds since the epoch.
\<close>

subsection \<open>Formatted text\<close>

datatype text_piece =
    Txt string
  | Txt_f64 f64
  | Txt_f64_prec nat f64
  | Txt_nat nat

type_synonym message = "text_piece list"

subsection \<open>Data\<close>

record scenario_outcome =
  so_total_calls :: u64
  so_successful_calls :: u64
  so_hang_count :: u32
  so_deadlock_count :: u32
  so_error_count :: u64
  so_divergence_count :: u64
  so_incomplete_worker_count :: u64
  so_teardown_failure_count :: u64
  so_notes :: "string list"
  so_hung_for_ms :: "u128 list"

definition scenario_outcome_default :: scenario_outcome where
  "scenario_outcome_default = \<lparr>so_total_calls = 0, so_successful_calls = 0, so_hang_count = 0,
     so_deadlock_count = 0, so_error_count = 0, so_divergence_count = 0,
     so_incomplete_worker_count = 0, so_teardown_failure_count = 0, so_notes = [],
     so_hung_for_ms = []\<rparr>"

record server_info =
  si_command :: string
  si_args :: "string list"
  si_pid :: "u32 option"
  si_protocol_version :: "string option"

record process_sample =
  sp_at_secs :: f64
  sp_rss_mb :: f64
  sp_cpu_pct :: f64
  sp_fd :: u64
  sp_threads :: u64

record process_stats =
  ps_peak_rss_mb :: f64
  ps_final_rss_mb :: f64
  ps_baseline_rss_mb :: f64
  ps_avg_cpu_pct :: f64
  ps_peak_fd :: u64
  ps_final_fd :: u64
  ps_peak_threads :: u64
  ps_final_threads :: u64
  ps_samples :: "process_sample list"

datatype threshold_kind =
    P50Latency | P95Latency | P99Latency | P999Latency | ErrorRate | MemoryGrowthMb

fun threshold_kind_name :: "threshold_kind \<Rightarrow> string" where
  "threshold_kind_name P50Latency = ''p50_latency''"
| "threshold_kind_name P95Latency = ''p95_latency''"
| "threshold_kind_name P99Latency = ''p99_latency''"
| "threshold_kind_name P999Latency = ''p999_latency''"
| "threshold_kind_name ErrorRate = ''error_rate''"
| "threshold_kind_name MemoryGrowthMb = ''memory_growth_mb''"

record threshold_violation =
  tv_kind :: threshold_kind
  tv_expected :: message
  tv_actual :: message

record coverage_report =
  cov_registered :: "string list"
  cov_exercised :: "(string, u64) btree"
  cov_unexercised :: "string list"

record report =
  rp_run_id :: string
  rp_started_at :: int
  rp_duration :: duration
  rp_scenario_name :: string
  rp_server_info :: server_info
  rp_metrics :: scenario_metrics
  rp_process :: process_stats
  rp_scenario_outcome :: scenario_outcome
  rp_trace_path :: "string option"
  rp_threshold_violations :: "threshold_violation list"
  rp_coverage :: "coverage_report option"

subsection \<open>Pass or fail\<close>

definition hard_recorded_failure :: "outcome_counts \<Rightarrow> bool" where
  "hard_recorded_failure c \<longleftrightarrow>
     list_ex (\<lambda>n. 0 < n)
       [oc_deadlock c, oc_timeout c, oc_protocol_error c, oc_crash c, oc_malformed c,
        oc_disconnected c, oc_cancelled c]"

definition passed :: "report \<Rightarrow> bool" where
  "passed r =
     (let outcome = rp_scenario_outcome r;
          recorded = sm_outcomes (rp_metrics r);
          diagnostic_complete =
            (rp_scenario_name r \<notin> {''race_check'', ''deadlock_probe'', ''fuzzer''}
             \<or> so_error_count outcome = 0 \<and> so_hang_count outcome = 0 \<and> oc_hang recorded = 0)
      in rp_threshold_violations r = []
         \<and> 0 < so_total_calls outcome
         \<and> 0 < so_successful_calls outcome
         \<and> so_successful_calls outcome \<le> so_total_calls outcome
         \<and> so_deadlock_count outcome = 0
         \<and> so_divergence_count outcome = 0
         \<and> so_incomplete_worker_count outcome = 0
         \<and> so_teardown_failure_count outcome = 0
         \<and> diagnostic_complete
         \<and> \<not> hard_recorded_failure recorded)"

subsection \<open>Coverage\<close>

definition coverage_pct :: "coverage_report \<Rightarrow> f64" where
  "coverage_pct c =
     (if cov_registered c = [] then F64_Fin 100
      else let covered = length (filter (\<lambda>t. bt_get (cov_exercised c) t \<noteq> None) (cov_registered c))
           in f64_mul (f64_div (f64_of_nat covered) (f64_of_nat (length (cov_registered c))))
                (F64_Fin 100))"

definition coverage_build :: "string list \<Rightarrow> (string, u64) btree \<Rightarrow> coverage_report" where
  "coverage_build registered exercised =
     \<lparr>cov_registered = registered, cov_exercised = exercised,
      cov_unexercised = sort (filter
        (\<lambda>name. (case bt_get exercised name of None \<Rightarrow> 0 | Some n \<Rightarrow> n) = 0) registered)\<rparr>"

end
