(* ===== verification/Thresholds.thy ===== *)
theory Thresholds
  imports Report
begin

section \<open>Threshold evaluation\<close>

text \<open>
  \<open>crates/engine/src/run/thresholds.rs\<close> and \<open>scenario/soak/leak_detect.rs\<close>: the configured
  pass/fail limits are compared with the measurements of a report, and every limit that is missed,
  or for which there is no usable evidence, becomes a violation.
\<close>

record tool_slo =
  slo_tool :: string
  slo_p99_latency :: duration

record thresholds_config =
  th_p50_latency :: "duration option"
  th_p95_latency :: "duration option"
  th_p99_latency :: "duration option"
  th_p999_latency :: "duration option"
  th_error_rate :: "f64 option"
  th_hang_timeout :: "duration option"
  th_memory_growth_mb :: "f64 option"
  th_rss_leak_mb_per_sec :: "f64 option"
  th_tool_slos :: "tool_slo list"

definition format_duration_ms :: "duration \<Rightarrow> message" where
  "format_duration_ms d = [Txt_f64_prec 3 (f64_mul (as_secs_f64 d) (F64_Fin 1000)), Txt ''ms'']"

definition check_latency ::
  "threshold_kind \<Rightarrow> duration \<Rightarrow> duration \<Rightarrow> u64 \<Rightarrow> threshold_violation list \<Rightarrow> threshold_violation list"
where
  "check_latency kind budget actual sample_count violations =
     (if sample_count = 0 then violations @
        [\<lparr>tv_kind = kind, tv_expected = Txt ''<= '' # format_duration_ms budget,
          tv_actual = [Txt ''unavailable: no recorder latency samples'']\<rparr>]
      else if budget < actual then violations @
        [\<lparr>tv_kind = kind, tv_expected = Txt ''<= '' # format_duration_ms budget,
          tv_actual = format_duration_ms actual\<rparr>]
      else violations)"

definition push_unavailable_process_violation ::
  "message \<Rightarrow> message \<Rightarrow> threshold_violation list \<Rightarrow> threshold_violation list" where
  "push_unavailable_process_violation expected actual violations =
     violations @ [\<lparr>tv_kind = MemoryGrowthMb, tv_expected = expected, tv_actual = actual\<rparr>]"

subsection \<open>The fitted slope\<close>

definition f64_sum :: "f64 list \<Rightarrow> f64" where
  "f64_sum xs = fold (\<lambda>x acc. f64_add acc x) xs (F64_Fin 0)"

definition f64_abs :: "f64 \<Rightarrow> f64" where
  "f64_abs x = (case x of F64_NaN \<Rightarrow> F64_NaN | F64_Inf s \<Rightarrow> F64_Inf False | F64_Fin q \<Rightarrow> F64_Fin \<bar>q\<bar>)"

definition F64_EPSILON :: f64 where
  "F64_EPSILON = F64_Fin (pow2 (- 52))"

definition detect_leak :: "(f64 \<times> f64) list \<Rightarrow> f64 option" where
  "detect_leak samples =
     (if length samples < 2 then None
      else
        let n = f64_of_nat (length samples);
            t_mean = f64_div (f64_sum (map fst samples)) n;
            y_mean = f64_div (f64_sum (map snd samples)) n;
            (num, den) = fold (\<lambda>(t, y) (num, den).
               let dt = f64_sub t t_mean
               in (f64_add num (f64_mul dt (f64_sub y y_mean)), f64_add den (f64_mul dt dt)))
              samples (F64_Fin 0, F64_Fin 0)
        in if f64_lt (f64_abs den) F64_EPSILON then None else Some (f64_div num den))"

definition MIN_RSS_SLOPE_SAMPLES :: nat where
  "MIN_RSS_SLOPE_SAMPLES = 3"

text \<open>The position and value of the first element that satisfies a predicate.\<close>

fun find_index_from :: "nat \<Rightarrow> ('a \<Rightarrow> bool) \<Rightarrow> 'a list \<Rightarrow> (nat \<times> 'a) option" where
  "find_index_from i P [] = None"
| "find_index_from i P (x # xs) = (if P x then Some (i, x) else find_index_from (Suc i) P xs)"

definition check_rss_slope ::
  "f64 \<Rightarrow> process_sample list \<Rightarrow> threshold_violation list \<Rightarrow> threshold_violation list" where
  "check_rss_slope max_slope samples violations =
     (let expected = [Txt ''<= '', Txt_f64 max_slope,
            Txt '' MB/s (least-squares RSS slope; requires at least '', Txt_nat MIN_RSS_SLOPE_SAMPLES,
            Txt '' finite samples with a non-zero time span)''];
          unavailable = (\<lambda>actual. push_unavailable_process_violation expected actual violations)
      in if samples = [] then unavailable [Txt ''unavailable: no process RSS samples'']
         else case find_index_from 0
                (\<lambda>s. \<not> f64_is_finite (sp_at_secs s) \<or> \<not> f64_is_finite (sp_rss_mb s)) samples of
           Some (index, sample) \<Rightarrow>
             (let fields =
                (if \<not> f64_is_finite (sp_at_secs sample) \<and> \<not> f64_is_finite (sp_rss_mb sample)
                 then ''timestamp and RSS''
                 else if \<not> f64_is_finite (sp_at_secs sample) then ''timestamp'' else ''RSS'')
              in unavailable [Txt ''unavailable: sample '', Txt_nat index,
                   Txt '' has non-finite '', Txt fields])
         | None \<Rightarrow>
             if length samples < MIN_RSS_SLOPE_SAMPLES then
               unavailable [Txt ''unavailable: '', Txt_nat (length samples),
                 Txt '' process RSS sample(s); need at least '', Txt_nat MIN_RSS_SLOPE_SAMPLES]
             else case detect_leak (map (\<lambda>s. (sp_at_secs s, sp_rss_mb s)) samples) of
               None \<Rightarrow> unavailable [Txt ''unavailable: process RSS samples have no usable time span'']
             | Some slope \<Rightarrow>
                 if \<not> f64_is_finite slope then
                   unavailable [Txt ''unavailable: fitted RSS slope is non-finite ('', Txt_f64 slope, Txt '')'']
                 else if f64_lt max_slope slope then violations @
                   [\<lparr>tv_kind = MemoryGrowthMb, tv_expected = expected,
                     tv_actual = [Txt_f64_prec 4 slope, Txt '' MB/s'']\<rparr>]
                 else violations)"

subsection \<open>The remaining limits\<close>

text \<open>The \<open>error_rate\<close> and \<open>memory_growth_mb\<close> blocks of \<open>evaluate_thresholds\<close>.\<close>

definition check_error_rate ::
  "f64 \<Rightarrow> throughput_stats \<Rightarrow> threshold_violation list \<Rightarrow> threshold_violation list" where
  "check_error_rate max_rate m violations =
     (let total_n = ts_total_requests m; success = ts_successful_requests m;
          expected = [Txt ''<= '', Txt_f64 max_rate]
      in if total_n = 0 then violations @
           [\<lparr>tv_kind = ErrorRate, tv_expected = expected,
             tv_actual = [Txt ''unavailable: no recorder request outcomes'']\<rparr>]
         else
           let errors = saturating_sub total_n success;
               actual = f64_div (f64_of_nat (unat errors)) (f64_of_nat (unat total_n))
           in if f64_lt max_rate actual then violations @
                [\<lparr>tv_kind = ErrorRate, tv_expected = expected, tv_actual = [Txt_f64_prec 4 actual]\<rparr>]
              else violations)"

definition check_memory_growth ::
  "f64 \<Rightarrow> process_stats \<Rightarrow> threshold_violation list \<Rightarrow> threshold_violation list" where
  "check_memory_growth max_growth p violations =
     (let baseline = ps_baseline_rss_mb p; peak = ps_peak_rss_mb p;
          expected = [Txt ''<= '', Txt_f64 max_growth,
            Txt '' MB (peak - baseline; requires finite process RSS samples)''];
          non_finite_sample =
            find_index_from 0 (\<lambda>s. \<not> f64_is_finite (sp_rss_mb s)) (ps_samples p)
      in if ps_samples p = [] then push_unavailable_process_violation expected
           [Txt ''unavailable: no process RSS samples''] violations
         else if \<not> f64_is_finite peak \<or> \<not> f64_is_finite baseline \<or> non_finite_sample \<noteq> None then
           (let detail =
              (if \<not> f64_is_finite baseline then [Txt ''baseline RSS is '', Txt_f64 baseline]
               else if \<not> f64_is_finite peak then [Txt ''peak RSS is '', Txt_f64 peak]
               else case non_finite_sample of
                 Some (index, _) \<Rightarrow> [Txt ''RSS sample '', Txt_nat index, Txt '' is non-finite'']
               | None \<Rightarrow> [Txt ''RSS evidence is unavailable''])
            in push_unavailable_process_violation expected
                 (Txt ''unavailable: non-finite RSS evidence ('' # detail @ [Txt '')'']) violations)
         else
           let observed_growth = f64_max (f64_sub peak baseline) (F64_Fin 0)
           in if f64_lt max_growth observed_growth then violations @
                [\<lparr>tv_kind = MemoryGrowthMb, tv_expected = expected,
                  tv_actual = [Txt_f64_prec 2 observed_growth, Txt '' MB'']\<rparr>]
              else violations)"

text \<open>\<open>if let Some(x) = \<dots>\<close> around a check.\<close>

definition when_set :: "'a option \<Rightarrow> ('a \<Rightarrow> 'v list \<Rightarrow> 'v list) \<Rightarrow> 'v list \<Rightarrow> 'v list" where
  "when_set x check violations = (case x of None \<Rightarrow> violations | Some a \<Rightarrow> check a violations)"

definition evaluate_thresholds :: "thresholds_config \<Rightarrow> report \<Rightarrow> threshold_violation list" where
  "evaluate_thresholds t r =
     (let m = rp_metrics r; lat = sm_latency m;
          v1 = when_set (th_p50_latency t)
                 (\<lambda>b. check_latency P50Latency b (ls_p50 lat) (ls_count lat)) [];
          v2 = when_set (th_p95_latency t)
                 (\<lambda>b. check_latency P95Latency b (ls_p95 lat) (ls_count lat)) v1;
          v3 = when_set (th_p99_latency t)
                 (\<lambda>b. check_latency P99Latency b (ls_p99 lat) (ls_count lat)) v2;
          v4 = when_set (th_p999_latency t)
                 (\<lambda>b. check_latency P999Latency b (ls_p999 lat) (ls_count lat)) v3;
          v5 = when_set (th_error_rate t)
                 (\<lambda>max_rate. check_error_rate max_rate (sm_throughput m)) v4;
          v6 = when_set (th_memory_growth_mb t)
                 (\<lambda>max_growth. check_memory_growth max_growth (rp_process r)) v5
      in when_set (th_rss_leak_mb_per_sec t)
           (\<lambda>max_slope. check_rss_slope max_slope (ps_samples (rp_process r))) v6)"

definition tool_slo_violation ::
  "(string, scenario_metrics) btree \<Rightarrow> tool_slo \<Rightarrow> threshold_violation list" where
  "tool_slo_violation per_tool slo =
     (let expected = Txt ''<= '' # format_duration_ms (slo_p99_latency slo)
            @ [Txt '' for tool `'', Txt (slo_tool slo), Txt ''`'']
      in case bt_get per_tool (slo_tool slo) of
           None \<Rightarrow> [\<lparr>tv_kind = P99Latency, tv_expected = expected,
             tv_actual = [Txt ''unavailable: no recorder metrics for configured tool `'',
               Txt (slo_tool slo), Txt ''`'']\<rparr>]
         | Some metrics \<Rightarrow>
             if ls_count (sm_latency metrics) = 0 then
               [\<lparr>tv_kind = P99Latency, tv_expected = expected,
                 tv_actual = [Txt ''unavailable: no latency samples for configured tool `'',
                   Txt (slo_tool slo), Txt ''`'']\<rparr>]
             else if slo_p99_latency slo < ls_p99 (sm_latency metrics) then
               [\<lparr>tv_kind = P99Latency, tv_expected = expected,
                 tv_actual = format_duration_ms (ls_p99 (sm_latency metrics))
                   @ [Txt '' for tool `'', Txt (slo_tool slo), Txt ''`'']\<rparr>]
             else [])"

definition evaluate_tool_slos ::
  "thresholds_config \<Rightarrow> (string, scenario_metrics) btree \<Rightarrow> threshold_violation list" where
  "evaluate_tool_slos t per_tool =
     fold (\<lambda>slo violations. violations @ tool_slo_violation per_tool slo) (th_tool_slos t) []"

definition evaluate_report_thresholds ::
  "thresholds_config \<Rightarrow> report \<Rightarrow> (string, scenario_metrics) btree \<Rightarrow> report" where
  "evaluate_report_thresholds t r per_tool =
     r\<lparr>rp_threshold_violations := evaluate_thresholds t r @ evaluate_tool_slos t per_tool\<rparr>"

subsection \<open>What no violation means\<close>

text \<open>The declarative reading of a configured limit: there is evidence, and it is within the limit.\<close>

definition latency_met :: "latency_stats \<Rightarrow> duration \<Rightarrow> duration \<Rightarrow> bool" where
  "latency_met lat actual budget \<longleftrightarrow> 0 < ls_count lat \<and> actual \<le> budget"

definition error_rate_met :: "throughput_stats \<Rightarrow> f64 \<Rightarrow> bool" where
  "error_rate_met m max_rate \<longleftrightarrow> 0 < ts_total_requests m
     \<and> \<not> f64_lt max_rate (f64_div
          (f64_of_nat (unat (ts_total_requests m) - unat (ts_successful_requests m)))
          (f64_of_nat (unat (ts_total_requests m))))"

definition memory_growth_met :: "process_stats \<Rightarrow> f64 \<Rightarrow> bool" where
  "memory_growth_met p max_growth \<longleftrightarrow> ps_samples p \<noteq> []
     \<and> list_all (\<lambda>s. f64_is_finite (sp_rss_mb s)) (ps_samples p)
     \<and> f64_is_finite (ps_peak_rss_mb p) \<and> f64_is_finite (ps_baseline_rss_mb p)
     \<and> \<not> f64_lt max_growth (f64_max (f64_sub (ps_peak_rss_mb p) (ps_baseline_rss_mb p)) (F64_Fin 0))"

definition slope_met :: "process_sample list \<Rightarrow> f64 \<Rightarrow> bool" where
  "slope_met ss max_slope \<longleftrightarrow> 3 \<le> length ss
     \<and> list_all (\<lambda>s. f64_is_finite (sp_at_secs s) \<and> f64_is_finite (sp_rss_mb s)) ss
     \<and> (\<exists>slope. detect_leak (map (\<lambda>s. (sp_at_secs s, sp_rss_mb s)) ss) = Some slope
          \<and> f64_is_finite slope \<and> \<not> f64_lt max_slope slope)"

definition tool_slo_met :: "(string, scenario_metrics) btree \<Rightarrow> tool_slo \<Rightarrow> bool" where
  "tool_slo_met per_tool slo \<longleftrightarrow> (\<exists>m. bt_get per_tool (slo_tool slo) = Some m
     \<and> latency_met (sm_latency m) (ls_p99 (sm_latency m)) (slo_p99_latency slo))"

definition limits_met ::
  "thresholds_config \<Rightarrow> report \<Rightarrow> (string, scenario_metrics) btree \<Rightarrow> bool" where
  "limits_met t r per_tool \<longleftrightarrow>
     (let lat = sm_latency (rp_metrics r)
      in pred_option (latency_met lat (ls_p50 lat)) (th_p50_latency t)
         \<and> pred_option (latency_met lat (ls_p95 lat)) (th_p95_latency t)
         \<and> pred_option (latency_met lat (ls_p99 lat)) (th_p99_latency t)
         \<and> pred_option (latency_met lat (ls_p999 lat)) (th_p999_latency t)
         \<and> pred_option (error_rate_met (sm_throughput (rp_metrics r))) (th_error_rate t)
         \<and> pred_option (memory_growth_met (rp_process r)) (th_memory_growth_mb t)
         \<and> pred_option (slope_met (ps_samples (rp_process r))) (th_rss_leak_mb_per_sec t)
         \<and> list_all (tool_slo_met per_tool) (th_tool_slos t))"

lemma when_set_Nil_iff:
  assumes "\<And>a. check a v = [] \<longleftrightarrow> v = [] \<and> P a"
  shows "when_set x check v = [] \<longleftrightarrow> v = [] \<and> pred_option P x"
  using assms by (cases x) (simp_all add: when_set_def)

lemma check_latency_Nil:
  "check_latency k b x (ls_count lat) v = [] \<longleftrightarrow> v = [] \<and> latency_met lat x b"
  by (auto simp: check_latency_def latency_met_def word_neq_0_conv)

lemma check_error_rate_Nil: "check_error_rate q m v = [] \<longleftrightarrow> v = [] \<and> error_rate_met m q"
  by (auto simp: check_error_rate_def error_rate_met_def Let_def unat_saturating_sub word_neq_0_conv)

lemma find_index_from_None: "find_index_from i P xs = None \<longleftrightarrow> list_all (\<lambda>x. \<not> P x) xs"
  by (induction xs arbitrary: i) simp_all

lemma check_memory_growth_Nil: "check_memory_growth g p v = [] \<longleftrightarrow> v = [] \<and> memory_growth_met p g"
  using find_index_from_None [of 0 "\<lambda>s. \<not> f64_is_finite (sp_rss_mb s)" "ps_samples p"]
  by (auto simp: check_memory_growth_def memory_growth_met_def Let_def
      push_unavailable_process_violation_def)

lemma check_rss_slope_Nil: "check_rss_slope q ss v = [] \<longleftrightarrow> v = [] \<and> slope_met ss q"
proof (cases "find_index_from 0 (\<lambda>s. \<not> f64_is_finite (sp_at_secs s) \<or> \<not> f64_is_finite (sp_rss_mb s)) ss")
  case None
  then have "list_all (\<lambda>s. f64_is_finite (sp_at_secs s) \<and> f64_is_finite (sp_rss_mb s)) ss"
    by (simp add: find_index_from_None)
  with None show ?thesis
    by (cases "detect_leak (map (\<lambda>s. (sp_at_secs s, sp_rss_mb s)) ss)")
      (auto simp: check_rss_slope_def slope_met_def Let_def push_unavailable_process_violation_def
        MIN_RSS_SLOPE_SAMPLES_def)
next
  case (Some a)
  then have "\<not> list_all (\<lambda>s. f64_is_finite (sp_at_secs s) \<and> f64_is_finite (sp_rss_mb s)) ss"
    using find_index_from_None [of 0 "\<lambda>s. \<not> f64_is_finite (sp_at_secs s) \<or> \<not> f64_is_finite (sp_rss_mb s)" ss]
    by auto
  with Some show ?thesis
    by (cases a) (auto simp: check_rss_slope_def slope_met_def Let_def push_unavailable_process_violation_def)
qed

lemma tool_slo_violation_Nil: "tool_slo_violation pt slo = [] \<longleftrightarrow> tool_slo_met pt slo"
  by (cases "bt_get pt (slo_tool slo)")
    (auto simp: tool_slo_violation_def tool_slo_met_def latency_met_def word_neq_0_conv Let_def)

lemma evaluate_tool_slos_Nil: "evaluate_tool_slos t pt = [] \<longleftrightarrow> list_all (tool_slo_met pt) (th_tool_slos t)"
proof -
  have "fold (\<lambda>slo violations. violations @ tool_slo_violation pt slo) slos v = []
     \<longleftrightarrow> v = [] \<and> list_all (tool_slo_met pt) slos" for slos v
    by (induction slos arbitrary: v) (auto simp: tool_slo_violation_Nil)
  then show ?thesis by (simp add: evaluate_tool_slos_def)
qed

lemmas check_Nils = check_latency_Nil check_error_rate_Nil check_memory_growth_Nil check_rss_slope_Nil

lemma evaluate_Nil:
  "evaluate_thresholds t r @ evaluate_tool_slos t pt = [] \<longleftrightarrow> limits_met t r pt"
  unfolding evaluate_thresholds_def limits_met_def Let_def append_is_Nil_conv evaluate_tool_slos_Nil
  by (simp add: when_set_Nil_iff [OF check_rss_slope_Nil] when_set_Nil_iff [OF check_memory_growth_Nil]
      when_set_Nil_iff [OF check_error_rate_Nil] conj_assoc
      when_set_Nil_iff [where check = "\<lambda>b. check_latency k b x (ls_count lat)" and
        P = "latency_met lat x" for k x lat, OF check_latency_Nil])

subsection \<open>Properties\<close>

text \<open>
  C31. Threshold evaluation is exact and fails closed: a report gets no violation precisely when every
  configured limit (latency percentiles, error rate, memory growth, RSS slope, per-tool latency) is
  met by evidence that exists and is finite; a limit whose evidence is missing is never silently met.
\<close>

theorem no_violation_iff_limits_met:
  "rp_threshold_violations (evaluate_report_thresholds t r per_tool) = [] \<longleftrightarrow> limits_met t r per_tool"
  using evaluate_Nil by (simp add: evaluate_report_thresholds_def)

lemma passed_counts:
  assumes "passed r"
  shows "\<forall>oc \<in> {Outcome_Deadlock, Outcome_Timeout, Outcome_ProtocolError, Outcome_Crash,
    Outcome_Malformed, Outcome_Disconnected, Outcome_Cancelled}. count_of (sm_outcomes (rp_metrics r)) oc = 0"
    "rp_threshold_violations r = []"
  using assms by (simp_all add: passed_def hard_recorded_failure_def Let_def word_gt_0)

lemma passed_outcomes:
  assumes "\<And>oc. unat (count_of (sm_outcomes (rp_metrics r)) oc) = count_list ocs oc" and "passed r"
  shows "set ocs \<subseteq> {Outcome_Success, Outcome_Hang, Outcome_ServerError, Outcome_ExpectedRejection}"
proof
  fix oc assume "oc \<in> set ocs"
  then have "count_list ocs oc \<noteq> 0" by (simp add: count_list_0_iff)
  then have "count_of (sm_outcomes (rp_metrics r)) oc \<noteq> 0" using assms(1) [of oc] by auto
  then show "oc \<in> {Outcome_Success, Outcome_Hang, Outcome_ServerError, Outcome_ExpectedRejection}"
    using passed_counts(1) [OF assms(2)] by (cases oc) simp_all
qed

text \<open>
  C8. No false green, from the recorded calls to the verdict: when the report built from a recorder
  passes after threshold evaluation, no recorded call deadlocked, timed out, crashed, was malformed,
  disconnected, cancelled or a protocol error, every configured limit is met, and every tool with a
  configured latency objective was called and answered at least once.
\<close>

theorem passed_run_is_clean:
  assumes "hdr_contract A" and "length es < 2 ^ 64"
    and "recorder_new A t0 = Some r0" and "recorder_run A r0 es = Some rc"
    and "recorder_snapshot A now rc = Some (rp_metrics r)"
    and "snapshot_per_tool A now rc = Some per_tool"
    and "passed (evaluate_report_thresholds t r per_tool)"
  shows "set (map event_outcome es)
      \<subseteq> {Outcome_Success, Outcome_Hang, Outcome_ServerError, Outcome_ExpectedRejection}
     \<and> limits_met t r per_tool
     \<and> (\<forall>slo \<in> set (th_tool_slos t).
          filter contributes_to_latency (tool_outcomes (slo_tool slo) es) \<noteq> [])"
proof -
  let ?r = "evaluate_report_thresholds t r per_tool"
  have inv: "recorder_inv A es rc"
    using recorder_run_inv [OF assms(1,2), of t0] assms(3,4) by (metis option.inject)
  have m: "rp_metrics ?r = rp_metrics r" by (simp add: evaluate_report_thresholds_def)
  have "sm_outcomes (rp_metrics r) = rec_outcomes rc"
    using assms(5) metrics_of_count(2) unfolding recorder_snapshot_def by (metis (lifting) map_option_eq_Some)
  then have "unat (count_of (sm_outcomes (rp_metrics ?r)) oc) = count_list (map event_outcome es) oc" for oc
    using inv unfolding m by (simp add: recorder_inv_def tally_def)
  from passed_outcomes [OF this assms(7)] have "set (map event_outcome es)
      \<subseteq> {Outcome_Success, Outcome_Hang, Outcome_ServerError, Outcome_ExpectedRejection}" .
  moreover have lim: "limits_met t r per_tool"
    using passed_counts(2) [OF assms(7)] evaluate_Nil by (simp add: evaluate_report_thresholds_def)
  moreover have "\<forall>slo \<in> set (th_tool_slos t).
      filter contributes_to_latency (tool_outcomes (slo_tool slo) es) \<noteq> []"
  proof
    fix slo assume "slo \<in> set (th_tool_slos t)"
    with lim obtain sm where sm: "bt_get per_tool (slo_tool slo) = Some sm" "0 < ls_count (sm_latency sm)"
      by (auto simp: limits_met_def Let_def list_all_iff tool_slo_met_def latency_met_def)
    have facts: "bt_keys per_tool = sorted_list_of_set (tools_of es)"
      "\<forall>x \<in> tools_of es. \<exists>m. bt_get per_tool x = Some m
         \<and> unat (ls_count (sm_latency m)) = length (filter contributes_to_latency (tool_outcomes x es))"
      using recorder_inv_per_tool [OF assms(1) inv assms(2), of now] assms(6) by auto
    have "finite (tools_of es)"
      by (rule finite_subset [of _ "the ` set (map event_tool es)"])
        (simp_all add: tools_of_def image_iff subset_iff, metis option.sel)
    moreover have "slo_tool slo \<in> set (bt_keys per_tool)" using sm(1) by (force dest: map_of_SomeD)
    ultimately have "slo_tool slo \<in> tools_of es" using facts(1) by simp
    with facts(2) sm(1) have
      "unat (ls_count (sm_latency sm)) = length (filter contributes_to_latency (tool_outcomes (slo_tool slo) es))"
      by fastforce
    with sm(2) show "filter contributes_to_latency (tool_outcomes (slo_tool slo) es) \<noteq> []"
      by (metis list.size(3) unat_eq_0 word_gt_0)
  qed
  ultimately show ?thesis by blast
qed

definition sample_report :: "scenario_metrics \<Rightarrow> report" where
  "sample_report m = \<lparr>rp_run_id = ''01TEST'', rp_started_at = 0, rp_duration = 10 ^ 9,
     rp_scenario_name = ''baseline'',
     rp_server_info = \<lparr>si_command = ''python'', si_args = [''-m'', ''my_mcp''], si_pid = Some 7,
       si_protocol_version = None\<rparr>,
     rp_metrics = m,
     rp_process = \<lparr>ps_peak_rss_mb = F64_Fin 0, ps_final_rss_mb = F64_Fin 0,
       ps_baseline_rss_mb = F64_Fin 0, ps_avg_cpu_pct = F64_Fin 0, ps_peak_fd = 0, ps_final_fd = 0,
       ps_peak_threads = 0, ps_final_threads = 0, ps_samples = []\<rparr>,
     rp_scenario_outcome = scenario_outcome_default\<lparr>so_total_calls := 1, so_successful_calls := 1\<rparr>,
     rp_trace_path = None, rp_threshold_violations = [], rp_coverage = None\<rparr>"

definition echo_slo :: thresholds_config where
  "echo_slo = \<lparr>th_p50_latency = None, th_p95_latency = None, th_p99_latency = None,
     th_p999_latency = None, th_error_rate = None, th_hang_timeout = None,
     th_memory_growth_mb = None, th_rss_leak_mb_per_sec = None,
     th_tool_slos = [\<lparr>slo_tool = ''echo'', slo_p99_latency = 2 ^ 64 * 1000\<rparr>]\<rparr>"

lemma passed_run_is_clean_witness:
  "\<exists>r0 rc r per_tool. recorder_new exact_api 0 = Some r0
     \<and> recorder_run exact_api r0 [Rec_Tool 19 7 ''echo'' 4000000 Outcome_Success] = Some rc
     \<and> recorder_snapshot exact_api (10 ^ 9) rc = Some (rp_metrics r)
     \<and> snapshot_per_tool exact_api (10 ^ 9) rc = Some per_tool
     \<and> passed (evaluate_report_thresholds echo_slo r per_tool)
     \<and> limits_met echo_slo r per_tool"
proof -
  let ?A = exact_api and ?es = "[Rec_Tool 19 7 ''echo'' 4000000 Outcome_Success]"
  have n: "length ?es < 2 ^ 64" by simp
  obtain r0 rc where run: "recorder_new ?A 0 = Some r0" "recorder_run ?A r0 ?es = Some rc"
    and inv: "recorder_inv ?A ?es rc" using recorder_run_inv [OF exact_hdr_contract n] by blast
  have t: "tally ?A [Outcome_Success] (rec_outcomes rc) (rec_latency rc)"
    using inv by (simp add: recorder_inv_def)
  have "\<exists>m. recorder_snapshot ?A (10 ^ 9) rc = Some m \<and> sm_outcomes m = rec_outcomes rc"
    by (rule tally_merged [OF exact_hdr_contract t]) (simp_all add: recorder_snapshot_def)
  then obtain m where m: "recorder_snapshot ?A (10 ^ 9) rc = Some m" "sm_outcomes m = rec_outcomes rc"
    by blast
  have oc: "unat (count_of (sm_outcomes m) oc) = count_list [Outcome_Success] oc" for oc
    using t unfolding m(2) tally_def by blast
  have ec: "''echo'' \<in> tools_of ?es" "tool_outcomes ''echo'' ?es = [Outcome_Success]"
    by (simp_all add: tools_of_def tool_outcomes_def)
  obtain pt pm where pt: "snapshot_per_tool ?A (10 ^ 9) rc = Some pt" "bt_get pt ''echo'' = Some pm"
    "unat (ls_count (sm_latency pm)) = 1"
    using recorder_inv_per_tool [OF exact_hdr_contract inv n, of "10 ^ 9"] ec by auto
  let ?r = "sample_report m"
  have p99: "ls_p99 (sm_latency pm) \<le> 2 ^ 64 * 1000"
    using pt(1,2) by (rule snapshot_per_tool_p99)
  have "ls_count (sm_latency pm) \<noteq> 0" using pt(3) by auto
  then have lim: "limits_met echo_slo ?r pt"
    using pt p99 by (simp add: limits_met_def echo_slo_def tool_slo_met_def latency_met_def word_gt_0 Let_def)
  have "hard_recorded_failure (sm_outcomes m) = False"
    using oc [of Outcome_Deadlock] oc [of Outcome_Timeout] oc [of Outcome_ProtocolError]
      oc [of Outcome_Crash] oc [of Outcome_Malformed] oc [of Outcome_Disconnected]
      oc [of Outcome_Cancelled] by (simp add: hard_recorded_failure_def unat_eq_0)
  then have "passed (evaluate_report_thresholds echo_slo ?r pt)"
    using lim evaluate_Nil [of echo_slo ?r pt]
    by (simp add: passed_def evaluate_report_thresholds_def sample_report_def Let_def scenario_outcome_default_def)
  moreover have "rp_metrics ?r = m" by (simp add: sample_report_def)
  ultimately show ?thesis
    using passed_run_is_clean [OF exact_hdr_contract n run, of "10 ^ 9" ?r pt echo_slo] run m(1) pt(1)
    by metis
qed

end
