(* ===== verification/Civil_Date.thy ===== *)
theory Civil_Date
  imports Prelude
begin

section \<open>Report timestamps\<close>

text \<open>
  \<open>format_iso8601_utc\<close> and \<open>epoch_to_ymdhms\<close> of \<open>crates/core/src/report.rs\<close>, and the Gregorian
  calendar they are measured against. A \<open>SystemTime\<close> is its nanoseconds since the epoch.
\<close>

subsection \<open>Timestamps\<close>

text \<open>
  \<open>epoch_to_ymdhms\<close>: every intermediate value of the source fits its \<open>i64\<close> or \<open>u64\<close> for every
  \<open>i64\<close> argument, so the arithmetic is exact; \<open>div\<close> and \<open>mod\<close> by a positive number are
  \<open>div_euclid\<close> and \<open>rem_euclid\<close>. The final cast of the year to \<open>i32\<close> is the only one that can drop
  bits.
\<close>

definition yoe_of :: "int \<Rightarrow> int" where
  "yoe_of doe = (doe - doe div 1460 + doe div 36524 - doe div 146096) div 365"

definition month_of :: "int \<Rightarrow> int" where
  "month_of mp = (if mp < 10 then mp + 3 else mp - 9)"

definition civil_from_days :: "int \<Rightarrow> int \<times> int \<times> int" where
  "civil_from_days days =
     (let z = days + 719468;
          era = z div 146097;
          doe = z mod 146097;
          yoe = yoe_of doe;
          y = yoe + era * 400;
          doy = doe - (365 * yoe + yoe div 4 - yoe div 100);
          mp = (5 * doy + 2) div 153;
          d = doy - (153 * mp + 2) div 5 + 1;
          m = month_of mp
      in (if m \<le> 2 then y + 1 else y, m, d))"

definition as_i32 :: "int \<Rightarrow> int" where
  "as_i32 y = sint (word_of_int y :: 32 word)"

definition epoch_to_ymdhms :: "int \<Rightarrow> int \<times> int \<times> int \<times> int \<times> int \<times> int" where
  "epoch_to_ymdhms epoch_secs =
     (let days = epoch_secs div 86400;
          day_secs = epoch_secs mod 86400;
          h = day_secs div 3600;
          mi = day_secs mod 3600 div 60;
          s = day_secs mod 60;
          (year, m, d) = civil_from_days days
      in (as_i32 year, m, d, h, mi, s))"

text \<open>Decimal digits, and the \<open>{:0w}\<close> format of an integer: the sign counts towards the width.\<close>

fun show_nat :: "nat \<Rightarrow> string" where
  "show_nat n = (if n < 10 then [char_of (48 + n)] else show_nat (n div 10) @ [char_of (48 + n mod 10)])"

declare show_nat.simps [simp del]

definition show_padded :: "nat \<Rightarrow> int \<Rightarrow> string" where
  "show_padded w i =
     (let ds = show_nat (nat \<bar>i\<bar>); sign = (if i < 0 then ''-'' else [])
      in sign @ replicate (w - length sign - length ds) (CHR ''0'') @ ds)"

text \<open>A time before the epoch is the negated whole seconds of its distance from it.\<close>

definition format_iso8601_utc :: "int \<Rightarrow> string" where
  "format_iso8601_utc t =
     (let secs = (if 0 \<le> t then t div 1000000000 else - (- t div 1000000000));
          (y, mo, d, h, mi, s) = epoch_to_ymdhms secs
      in show_padded 4 y @ ''-'' @ show_padded 2 mo @ ''-'' @ show_padded 2 d @ ''T''
         @ show_padded 2 h @ '':'' @ show_padded 2 mi @ '':'' @ show_padded 2 s @ ''Z'')"

text \<open>The Gregorian calendar, by the successor of a date.\<close>

definition leap_year :: "int \<Rightarrow> bool" where
  "leap_year y \<longleftrightarrow> y mod 4 = 0 \<and> (y mod 100 = 0 \<longrightarrow> y mod 400 = 0)"

definition month_days :: "int \<Rightarrow> int \<Rightarrow> int" where
  "month_days y m =
     (if m = 2 then if leap_year y then 29 else 28
      else if m = 4 \<or> m = 6 \<or> m = 9 \<or> m = 11 then 30 else 31)"

fun next_date :: "int \<times> int \<times> int \<Rightarrow> int \<times> int \<times> int" where
  "next_date (y, m, d) =
     (if d < month_days y m then (y, m, d + 1)
      else if m < 12 then (y, m + 1, 1) else (y + 1, 1, 1))"

text \<open>Years of an era start on 1 March; \<open>year_start y\<close> is the day of the era on which year \<open>y\<close> starts.\<close>

definition year_start :: "int \<Rightarrow> int" where
  "year_start y = 365 * y + y div 4 - y div 100"

definition year_days :: "int \<Rightarrow> int" where
  "year_days y = (if leap_year (y + 1) then 366 else 365)"

definition year_row_ok :: "int \<Rightarrow> bool" where
  "year_row_ok y \<longleftrightarrow> yoe_of (year_start y) = y \<and> yoe_of (year_start y + year_days y - 1) = y
     \<and> year_start y + year_days y = (if y = 399 then 146097 else year_start (y + 1))
     \<and> 0 \<le> year_start y \<and> year_start y + year_days y \<le> 146097"

lemma year_table: "list_all year_row_ok [0..399]"
  by code_simp

lemma div_plus_le:
  assumes "(0 :: int) < k" "a \<le> b"
  shows "b div k \<le> a div k + (b - a)"
proof -
  have "(b - a) * 1 \<le> (b - a) * k" using assms by (intro mult_left_mono) simp_all
  then have "b div k \<le> (a + (b - a) * k) div k" using assms by (intro zdiv_mono1) simp_all
  also have "\<dots> = a div k + (b - a)" using assms by simp
  finally show ?thesis .
qed

lemma yoe_of_mono:
  assumes "0 \<le> a" "a \<le> b" "b < 146097"
  shows "yoe_of a \<le> yoe_of b"
proof -
  have s: "b div 1460 \<le> a div 1460 + (b - a)" "a div 36524 \<le> b div 36524"
    using assms by (simp_all add: div_plus_le zdiv_mono1)
  have "a div 36524 - a div 146096 \<le> b div 36524 - b div 146096"
  proof (cases "b = 146096 \<and> a < b")
    case True
    then have "a div 36524 \<le> 146095 div 36524" by (intro zdiv_mono1) simp_all
    then show ?thesis using True assms(1) by simp
  next
    case False
    then show ?thesis using assms s(2) by (cases "a = b") simp_all
  qed
  then show ?thesis unfolding yoe_of_def using s(1) by (intro zdiv_mono1) simp_all
qed

lemma year_row:
  assumes "0 \<le> y" "y < 400"
  shows "yoe_of (year_start y) = y" "yoe_of (year_start y + year_days y - 1) = y"
    "year_start y + year_days y = (if y = 399 then 146097 else year_start (y + 1))"
    "0 \<le> year_start y" "year_start y + year_days y \<le> 146097"
proof -
  have "year_row_ok y" using year_table assms by (simp add: list_all_iff)
  then show "yoe_of (year_start y) = y" "yoe_of (year_start y + year_days y - 1) = y"
    "year_start y + year_days y = (if y = 399 then 146097 else year_start (y + 1))"
    "0 \<le> year_start y" "year_start y + year_days y \<le> 146097"
    unfolding year_row_ok_def by blast+
qed

lemma yoe_of_range: "0 \<le> doe \<Longrightarrow> doe < 146097 \<Longrightarrow> 0 \<le> yoe_of doe \<and> yoe_of doe < 400"
  using yoe_of_mono [of 0 doe] yoe_of_mono [of doe 146096] by (simp add: yoe_of_def)

lemma year_start_yoe:
  assumes "0 \<le> doe" "doe < 146097"
  shows "year_start (yoe_of doe) \<le> doe" "doe < year_start (yoe_of doe) + year_days (yoe_of doe)"
proof -
  let ?y = "yoe_of doe"
  note r = yoe_of_range [OF assms]
  show "year_start ?y \<le> doe"
  proof (rule ccontr)
    assume lt: "\<not> year_start ?y \<le> doe"
    then have "?y \<noteq> 0" using assms(1) by (auto simp: year_start_def)
    then have y: "0 \<le> ?y - 1" "?y - 1 < 400" "?y - 1 \<noteq> 399" using r by linarith+
    have e: "year_start (?y - 1) + year_days (?y - 1) = year_start ?y"
      using year_row(3) [OF y(1,2)] y(3) by simp
    have "yoe_of doe \<le> yoe_of (year_start ?y - 1)"
      using lt assms year_row(5) [OF y(1,2)] unfolding e by (intro yoe_of_mono) linarith+
    also have "\<dots> = ?y - 1" using year_row(2) [OF y(1,2)] unfolding e .
    finally show False by simp
  qed
  show "doe < year_start ?y + year_days ?y"
  proof (rule ccontr)
    assume ge: "\<not> doe < year_start ?y + year_days ?y"
    have y: "0 \<le> ?y" "?y < 400" using r by blast+
    have "?y \<noteq> 399" using ge assms(2) year_row(3) [OF y] by auto
    then have e: "year_start ?y + year_days ?y = year_start (?y + 1)" and y': "?y + 1 < 400"
      using year_row(3) [OF y] y(2) by simp_all
    have y0: "0 \<le> ?y + 1" using y by simp
    have "?y + 1 = yoe_of (year_start (?y + 1))" using year_row(1) [OF y0 y'] by simp
    also have "\<dots> \<le> yoe_of doe"
      using ge assms(2) year_row(4) [OF y0 y'] unfolding e by (intro yoe_of_mono) linarith+
    finally show False by simp
  qed
qed

lemma yoe_of_eq:
  assumes "0 \<le> y" "y < 400" "year_start y \<le> doe" "doe < year_start y + year_days y"
  shows "yoe_of doe = y"
proof -
  note row = year_row [OF assms(1,2)]
  have "y \<le> yoe_of doe"
    using yoe_of_mono [of "year_start y" doe] row(1,4,5) assms(3,4) by linarith
  moreover have "yoe_of doe \<le> y"
    using yoe_of_mono [of doe "year_start y + year_days y - 1"] row(2,4,5) assms(3,4) by linarith
  ultimately show ?thesis by simp
qed

text \<open>Month and day from the day of a year that starts in March.\<close>

definition md_of :: "int \<Rightarrow> int \<times> int" where
  "md_of doy = (let mp = (5 * doy + 2) div 153 in (month_of mp, doy - (153 * mp + 2) div 5 + 1))"

definition md_row_ok :: "int \<Rightarrow> bool" where
  "md_row_ok doy \<longleftrightarrow>
     (let (m, d) = md_of doy
      in 1 \<le> m \<and> m \<le> 12 \<and> (m = 2 \<longrightarrow> d < 28)
         \<and> md_of (doy + 1) = (if d < month_days 1 m then (m, d + 1) else if m < 12 then (m + 1, 1) else (1, 1)))"

lemma md_table: "list_all md_row_ok [0..363]"
  by code_simp

lemma md_ends: "md_of 0 = (3, 1)" "md_of 364 = (2, 28)" "md_of 365 = (2, 29)"
  by code_simp+

lemma civil_from_days_split:
  assumes "days + 719468 = era * 146097 + year_start y + doy" "0 \<le> y" "y < 400"
    "0 \<le> doy" "doy < year_days y"
  shows "civil_from_days days =
     (let (m, d) = md_of doy in (y + era * 400 + (if m \<le> 2 then 1 else 0), m, d))"
proof -
  have y: "yoe_of (year_start y + doy) = y" using assms by (intro yoe_of_eq) simp_all
  have "0 \<le> year_start y" "year_start y + year_days y \<le> 146097"
    using year_row(4,5) [OF assms(2,3)] .
  then have dm: "(days + 719468) mod 146097 = year_start y + doy"
    "(days + 719468) div 146097 = era"
    using assms(4,5) unfolding assms(1) by (simp_all add: add.assoc)
  have s: "365 * y + y div 4 - y div 100 = year_start y" by (simp add: year_start_def)
  have bump: "(if b then x + 1 else x) = x + (if b then 1 else 0)" for b and x :: int by simp
  show ?thesis
    unfolding civil_from_days_def md_of_def Let_def dm y s add_diff_cancel_left' prod.case bump ..
qed

lemma days_split:
  obtains era y doy where "days + 719468 = era * 146097 + year_start y + doy" "0 \<le> y" "y < 400"
    "0 \<le> doy" "doy < year_days y"
proof -
  let ?doe = "(days + 719468) mod 146097"
  have "0 \<le> ?doe" "?doe < 146097" by simp_all
  note r = yoe_of_range [OF this] year_start_yoe [OF this]
  show thesis
    by (rule that [of "(days + 719468) div 146097" "yoe_of ?doe" "?doe - year_start (yoe_of ?doe)"])
      (use r in simp_all)
qed

lemma leap_year_era [simp]: "leap_year (y + era * 400 + 1) = leap_year (y + 1)"
proof -
  have "(y + 1 + k * (j * era)) mod k = (y + 1) mod k" for j k :: int by simp
  from this [of 4 100] this [of 100 4] this [of 400 1] show ?thesis
    unfolding leap_year_def by (simp add: algebra_simps)
qed

lemma civil_from_days_Suc: "civil_from_days (days + 1) = next_date (civil_from_days days)"
proof -
  obtain era y doy where s: "days + 719468 = era * 146097 + year_start y + doy" "0 \<le> y" "y < 400"
    "0 \<le> doy" "doy < year_days y" by (rule days_split)
  note now = civil_from_days_split [OF s]
  have len: "year_days y = (if leap_year (y + 1) then 366 else 365)" by (simp add: year_days_def)
  show ?thesis
  proof (cases "doy + 1 < year_days y")
    case True
    have s': "days + 1 + 719468 = era * 146097 + year_start y + (doy + 1)" using s(1) by simp
    note nxt = civil_from_days_split [OF s' s(2,3) _ True]
    show ?thesis
    proof (cases "doy = 364")
      case True
      then have "leap_year (y + 1)" using \<open>doy + 1 < year_days y\<close> len by (auto split: if_splits)
      then show ?thesis using now nxt True md_ends by (simp add: month_days_def)
    next
      case False
      then have "md_row_ok doy" using True s(4) md_table len by (auto simp: list_all_iff split: if_splits)
      then show ?thesis
        using now nxt s(4) by (cases "md_of doy") (auto simp: md_row_ok_def month_days_def split: if_splits)
    qed
  next
    case False
    then have last: "doy = year_days y - 1" using s(5) by simp
    note row = year_row(3) [OF s(2,3)]
    have nxt: "civil_from_days (days + 1) = (y + era * 400 + 1, 3, 1)"
    proof (cases "y = 399")
      case True
      have "days + 1 + 719468 = (era + 1) * 146097 + year_start 0 + 0"
        using s(1) last row True by (simp add: year_start_def)
      from civil_from_days_split [OF this] show ?thesis
        using True md_ends by (simp add: year_days_def leap_year_def)
    next
      case y: False
      have "days + 1 + 719468 = era * 146097 + year_start (y + 1) + 0"
        using s(1) last row y by simp
      moreover have "0 < year_days (y + 1)" by (simp add: year_days_def)
      ultimately show ?thesis
        using civil_from_days_split [of days' era "y + 1" 0 for days'] s(2,3) y md_ends by simp
    qed
    show ?thesis
      using nxt now last len md_ends by (auto simp: month_days_def split: if_splits)
  qed
qed

lemma civil_from_days_0: "civil_from_days 0 = (1970, 1, 1)"
  by code_simp

lemma civil_from_days_add: "civil_from_days (days + int n) = (next_date ^^ n) (civil_from_days days)"
proof (induction n)
  case (Suc n)
  have e: "days + int (Suc n) = days + int n + 1" by simp
  show ?case unfolding e civil_from_days_Suc Suc by simp
qed simp

lemma day_seconds:
  assumes "0 \<le> (s :: int)" "s < 86400"
  shows "s = s div 3600 * 3600 + s mod 3600 div 60 * 60 + s mod 60"
    "0 \<le> s div 3600" "s div 3600 < 24" "0 \<le> s mod 3600 div 60" "s mod 3600 div 60 < 60"
proof -
  have "s mod 3600 mod 60 = s mod 60" by (rule mod_mod_cancel) simp
  then show "s = s div 3600 * 3600 + s mod 3600 div 60 * 60 + s mod 60"
    using div_mult_mod_eq [of s 3600] div_mult_mod_eq [of "s mod 3600" 60] by linarith
  show "0 \<le> s div 3600" "0 \<le> s mod 3600 div 60" using assms(1) by (simp_all add: pos_imp_zdiv_nonneg_iff)
  have "s mod 3600 < 60 * 60" by simp
  then show "s div 3600 < 24" "s mod 3600 div 60 < 60"
    using assms(2) by linarith+
qed

lemma as_i32_id: "- (2 ^ 31) \<le> y \<Longrightarrow> y < 2 ^ 31 \<Longrightarrow> as_i32 y = y"
  unfolding as_i32_def by (subst sint_sbintrunc') (simp add: signed_take_bit_int_eq_self)

subsection \<open>Properties\<close>

text \<open>
  The hand-rolled calendar of the report timestamps is the Gregorian calendar: as long as the
  year fits the \<open>i32\<close> it is cast to, the date of a Unix time is reached from 1 January 1970 by
  stepping one calendar day per 86,400 seconds (backwards for a negative time), and the time of day
  is the remainder in hours, minutes and seconds.
\<close>

theorem epoch_to_ymdhms_calendar:
  assumes "civil_from_days (t div 86400) = (y, m, d)" and "- (2 ^ 31) \<le> y" and "y < 2 ^ 31"
  shows "\<exists>h mi s. epoch_to_ymdhms t = (y, m, d, h, mi, s)
     \<and> t mod 86400 = h * 3600 + mi * 60 + s \<and> h \<in> {0..<24} \<and> mi \<in> {0..<60} \<and> s \<in> {0..<60}
     \<and> (if 0 \<le> t then (y, m, d) = (next_date ^^ nat (t div 86400)) (1970, 1, 1)
        else (next_date ^^ nat (- (t div 86400))) (y, m, d) = (1970, 1, 1))"
proof -
  let ?s = "t mod 86400"
  have s: "0 \<le> ?s" "?s < 86400" by simp_all
  have "epoch_to_ymdhms t = (y, m, d, ?s div 3600, ?s mod 3600 div 60, ?s mod 60)"
    unfolding epoch_to_ymdhms_def Let_def assms(1) prod.case as_i32_id [OF assms(2,3)] ..
  moreover have "if 0 \<le> t then (y, m, d) = (next_date ^^ nat (t div 86400)) (1970, 1, 1)
      else (next_date ^^ nat (- (t div 86400))) (y, m, d) = (1970, 1, 1)"
  proof (cases "0 \<le> t")
    case True
    then have "0 \<le> t div 86400" by (simp add: pos_imp_zdiv_nonneg_iff)
    then show ?thesis
      using civil_from_days_add [of 0 "nat (t div 86400)"] True assms(1) civil_from_days_0 by simp
  next
    case False
    then have "t div 86400 < 0" by (simp add: neg_imp_zdiv_neg_iff)
    then show ?thesis
      using civil_from_days_add [of "t div 86400" "nat (- (t div 86400))"] False assms(1)
        civil_from_days_0 by simp
  qed
  moreover have "0 \<le> ?s mod 60" "?s mod 60 < 60" by simp_all
  ultimately show ?thesis
    using day_seconds [OF s] unfolding atLeastLessThan_iff by blast
qed

lemma epoch_to_ymdhms_calendar_witness:
  "\<exists>h mi s. epoch_to_ymdhms 1778398200 = (2026, 5, 10, h, mi, s)
     \<and> 1778398200 mod 86400 = h * 3600 + mi * 60 + s"
proof -
  have "civil_from_days (1778398200 div 86400) = (2026, 5, 10)" by code_simp
  from epoch_to_ymdhms_calendar [OF this] show ?thesis by auto
qed

end
