(* ===== verification/Net.thy ===== *)
theory Net
  imports Prelude
begin

section \<open>Addresses and URLs\<close>

text \<open>
  What the outbound guards use of \<open>std::net\<close> and of the \<open>url\<close> crate. An \<open>Ipv4Addr\<close> is its four
  octets and an \<open>Ipv6Addr\<close> its eight segments, with the classification methods and the text forms of
  the standard library. The \<open>url\<close> crate is third-party code: a parsed URL is the record of what its
  accessors return, and \<open>url_contract\<close> states what the crate documents of them.
\<close>

unbundle bit_operations_syntax

datatype ipv4_addr = Ipv4 u8 u8 u8 u8

datatype ipv6_addr = Ipv6 u16 u16 u16 u16 u16 u16 u16 u16

datatype ip_addr = V4 ipv4_addr | V6 ipv6_addr

record socket_addr =
  sa_ip :: ip_addr
  sa_port :: u16

subsection \<open>Classification in the standard library\<close>

fun v4_is_loopback :: "ipv4_addr \<Rightarrow> bool" where
  "v4_is_loopback (Ipv4 a b c d) \<longleftrightarrow> a = 127"

fun v4_is_private :: "ipv4_addr \<Rightarrow> bool" where
  "v4_is_private (Ipv4 a b c d) \<longleftrightarrow> a = 10 \<or> a = 172 \<and> 16 \<le> b \<and> b \<le> 31 \<or> a = 192 \<and> b = 168"

fun v4_is_link_local :: "ipv4_addr \<Rightarrow> bool" where
  "v4_is_link_local (Ipv4 a b c d) \<longleftrightarrow> a = 169 \<and> b = 254"

definition v4_is_unspecified :: "ipv4_addr \<Rightarrow> bool" where
  "v4_is_unspecified a \<longleftrightarrow> a = Ipv4 0 0 0 0"

definition v4_broadcast :: ipv4_addr where
  "v4_broadcast = Ipv4 255 255 255 255"

definition v4_is_broadcast :: "ipv4_addr \<Rightarrow> bool" where
  "v4_is_broadcast a \<longleftrightarrow> a = v4_broadcast"

fun v4_is_multicast :: "ipv4_addr \<Rightarrow> bool" where
  "v4_is_multicast (Ipv4 a b c d) \<longleftrightarrow> 224 \<le> a \<and> a \<le> 239"

fun v6_segments :: "ipv6_addr \<Rightarrow> u16 list" where
  "v6_segments (Ipv6 a b c d e f g h) = [a, b, c, d, e, f, g, h]"

definition high_octet :: "u16 \<Rightarrow> u8" where
  "high_octet s = ucast (drop_bit 8 s)"

definition low_octet :: "u16 \<Rightarrow> u8" where
  "low_octet s = ucast s"

definition v6_octets :: "ipv6_addr \<Rightarrow> u8 list" where
  "v6_octets a = concat (map (\<lambda>s. [high_octet s, low_octet s]) (v6_segments a))"

definition v6_is_loopback :: "ipv6_addr \<Rightarrow> bool" where
  "v6_is_loopback a \<longleftrightarrow> a = Ipv6 0 0 0 0 0 0 0 1"

definition v6_is_unspecified :: "ipv6_addr \<Rightarrow> bool" where
  "v6_is_unspecified a \<longleftrightarrow> a = Ipv6 0 0 0 0 0 0 0 0"

definition v6_first :: "ipv6_addr \<Rightarrow> u16" where
  "v6_first a = hd (v6_segments a)"

definition v6_is_multicast :: "ipv6_addr \<Rightarrow> bool" where
  "v6_is_multicast a \<longleftrightarrow> v6_first a AND 0xff00 = 0xff00"

fun to_ipv4_mapped :: "ipv6_addr \<Rightarrow> ipv4_addr option" where
  "to_ipv4_mapped (Ipv6 a b c d e f g h) =
     (if a = 0 \<and> b = 0 \<and> c = 0 \<and> d = 0 \<and> e = 0 \<and> f = 0xffff
      then Some (Ipv4 (high_octet g) (low_octet g) (high_octet h) (low_octet h)) else None)"

fun ip_is_loopback :: "ip_addr \<Rightarrow> bool" where
  "ip_is_loopback (V4 a) = v4_is_loopback a"
| "ip_is_loopback (V6 a) = v6_is_loopback a"

subsection \<open>Text forms\<close>

definition digit_char :: "nat \<Rightarrow> char" where
  "digit_char n = (if n < 10 then char_of (48 + n) else char_of (87 + n))"

fun show_base :: "nat \<Rightarrow> nat \<Rightarrow> string" where
  "show_base b n = (if n < b \<or> b < 2 then [digit_char n] else show_base b (n div b) @ [digit_char (n mod b)])"

declare show_base.simps [simp del]

fun v4_show :: "ipv4_addr \<Rightarrow> string" where
  "v4_show (Ipv4 a b c d) = show_base 10 (unat a) @ ''.'' @ show_base 10 (unat b) @ ''.''
     @ show_base 10 (unat c) @ ''.'' @ show_base 10 (unat d)"

fun join_colon :: "u16 list \<Rightarrow> string" where
  "join_colon [] = []"
| "join_colon [s] = show_base 16 (unat s)"
| "join_colon (s # ss) = show_base 16 (unat s) @ '':'' @ join_colon ss"

definition zero_run :: "u16 list \<Rightarrow> nat \<Rightarrow> nat" where
  "zero_run ss i = length (takeWhile (\<lambda>s. s = 0) (drop i ss))"

text \<open>The first longest run of zero segments, as its start and its length.\<close>
definition longest_zero_run :: "u16 list \<Rightarrow> nat \<times> nat" where
  "longest_zero_run ss = fold (\<lambda>i (start, n). if n < zero_run ss i then (i, zero_run ss i) else (start, n))
     [0..<length ss] (0, 0)"

definition v6_show :: "ipv6_addr \<Rightarrow> string" where
  "v6_show a = (case to_ipv4_mapped a of
       Some m \<Rightarrow> ''::ffff:'' @ v4_show m
     | None \<Rightarrow>
         (let ss = v6_segments a; (start, n) = longest_zero_run ss
          in if 1 < n then join_colon (take start ss) @ ''::'' @ join_colon (drop (start + n) ss)
             else join_colon ss))"

fun ip_show :: "ip_addr \<Rightarrow> string" where
  "ip_show (V4 a) = v4_show a"
| "ip_show (V6 a) = v6_show a"

text \<open>\<open>str::split\<close> at a character.\<close>
fun split_on :: "char \<Rightarrow> string \<Rightarrow> string list" where
  "split_on c [] = [[]]"
| "split_on c (x # xs) =
     (case split_on c xs of
        [] \<Rightarrow> [[x]]
      | p # ps \<Rightarrow> if x = c then [] # p # ps else (x # p) # ps)"

definition digit_value :: "char \<Rightarrow> nat option" where
  "digit_value c =
     (let n = byte_of c in
      if 48 \<le> n \<and> n \<le> 57 then Some (n - 48)
      else if 97 \<le> n \<and> n \<le> 102 then Some (n - 87)
      else if 65 \<le> n \<and> n \<le> 70 then Some (n - 55) else None)"

primrec read_number :: "nat \<Rightarrow> nat \<Rightarrow> string \<Rightarrow> nat option" where
  "read_number b n [] = Some n"
| "read_number b n (c # s) =
     (case digit_value c of
        None \<Rightarrow> None
      | Some v \<Rightarrow> if v < b then read_number b (n * b + v) s else None)"

text \<open>An octet has one to three digits without a leading zero; a group has one to four hex digits.\<close>

definition read_octet :: "string \<Rightarrow> u8 option" where
  "read_octet s =
     (if s = [] \<or> 3 < length s \<or> (1 < length s \<and> hd s = CHR ''0'') then None
      else case read_number 10 0 s of
        None \<Rightarrow> None
      | Some n \<Rightarrow> if n < 256 then Some (of_nat n) else None)"

definition v4_parse :: "string \<Rightarrow> ipv4_addr option" where
  "v4_parse s =
     (case map read_octet (split_on CHR ''.'' s) of
        [Some a, Some b, Some c, Some d] \<Rightarrow> Some (Ipv4 a b c d)
      | _ \<Rightarrow> None)"

definition read_group :: "string \<Rightarrow> u16 option" where
  "read_group s =
     (if s = [] \<or> 4 < length s then None else map_option of_nat (read_number 16 0 s))"

fun read_groups :: "bool \<Rightarrow> string list \<Rightarrow> u16 list option" where
  "read_groups v4_ok [] = Some []"
| "read_groups v4_ok [s] =
     (case read_group s of
        Some g \<Rightarrow> Some [g]
      | None \<Rightarrow>
          if v4_ok then (case v4_parse s of
              Some (Ipv4 a b c d) \<Rightarrow>
                Some [of_nat (unat a * 256 + unat b), of_nat (unat c * 256 + unat d)]
            | None \<Rightarrow> None)
          else None)"
| "read_groups v4_ok (s # ss) =
     (case read_group s of
        None \<Rightarrow> None
      | Some g \<Rightarrow> map_option (\<lambda>gs. g # gs) (read_groups v4_ok ss))"

definition group_texts :: "string \<Rightarrow> string list" where
  "group_texts s = (if s = [] then [] else split_on CHR '':'' s)"

text \<open>The parts before and after the first \<open>::\<close>.\<close>
fun split_gap :: "string \<Rightarrow> (string \<times> string) option" where
  "split_gap (a # b # s) =
     (if a = CHR '':'' \<and> b = CHR '':'' then Some ([], s)
      else map_option (\<lambda>(l, r). (a # l, r)) (split_gap (b # s)))"
| "split_gap _ = None"

fun v6_of_segments :: "u16 list \<Rightarrow> ipv6_addr option" where
  "v6_of_segments [a, b, c, d, e, f, g, h] = Some (Ipv6 a b c d e f g h)"
| "v6_of_segments _ = None"

definition v6_parse :: "string \<Rightarrow> ipv6_addr option" where
  "v6_parse s =
     (case split_gap s of
        None \<Rightarrow> Option.bind (read_groups True (group_texts s)) v6_of_segments
      | Some (l, r) \<Rightarrow>
          (case (read_groups False (group_texts l), read_groups True (group_texts r)) of
             (Some ls, Some rs) \<Rightarrow>
               if length ls + length rs \<le> 7
               then v6_of_segments (ls @ replicate (8 - length ls - length rs) 0 @ rs) else None
           | _ \<Rightarrow> None))"

definition ip_parse :: "string \<Rightarrow> ip_addr option" where
  "ip_parse s = (case v4_parse s of Some a \<Rightarrow> Some (V4 a) | None \<Rightarrow> map_option V6 (v6_parse s))"

subsection \<open>URLs\<close>

datatype url_host = Host_Domain string | Host_Ipv4 ipv4_addr | Host_Ipv6 ipv6_addr

record url =
  url_scheme :: string
  url_username :: string
  url_password :: "string option"
  url_fragment :: "string option"
  url_host :: "url_host option"
  url_host_str :: "string option"
  url_port_or_known_default :: "u16 option"
  url_cannot_be_a_base :: bool
  url_display :: string

text \<open>
  The documented behaviour of \<open>Url::host_str\<close>: a domain as it is (a domain that would read as an IPv4
  address is parsed as one, and \<open>:\<close> is a forbidden character of domains), an IPv4 address in dotted
  decimal, an IPv6 address in square brackets.
\<close>

fun host_text_ok :: "url_host \<Rightarrow> string \<Rightarrow> bool" where
  "host_text_ok (Host_Domain d) s \<longleftrightarrow> s = d \<and> ip_parse (to_ascii_lowercase d) = None"
| "host_text_ok (Host_Ipv4 a) s \<longleftrightarrow> s = v4_show a"
| "host_text_ok (Host_Ipv6 a) s \<longleftrightarrow> (\<exists>t. s = CHR ''['' # t)"

definition url_contract :: "url \<Rightarrow> bool" where
  "url_contract u \<longleftrightarrow>
     (case url_host u of
        None \<Rightarrow> url_host_str u = None
      | Some h \<Rightarrow> \<exists>s. url_host_str u = Some s \<and> host_text_ok h s)"

subsection \<open>Reading what is shown\<close>

lemma split_on_append: "c \<notin> set p \<Longrightarrow> split_on c (p @ c # s) = p # split_on c s"
proof (induction p)
  case Nil
  have "split_on c s \<noteq> []" by (induction s) (simp_all split: list.splits)
  then show ?case by (cases "split_on c s") simp_all
next
  case (Cons x p)
  then show ?case by auto
qed

lemma split_on_none: "c \<notin> set p \<Longrightarrow> split_on c p = [p]"
  by (induction p) auto

lemma byte_of_digit: "n < 16 \<Longrightarrow> byte_of (digit_char n) = (if n < 10 then 48 + n else 87 + n)"
  by (simp add: digit_char_def of_char_of)

lemma byte_of_literals: "byte_of CHR ''.'' = 46" "byte_of CHR ''0'' = 48" "byte_of CHR ''['' = 91"
  by simp_all

lemma digit_facts:
  assumes "n < 16"
  shows "digit_value (digit_char n) = Some n" "digit_char n \<noteq> CHR ''.''"
    "ascii_lower (digit_char n) = digit_char n" "digit_char n = CHR ''0'' \<longleftrightarrow> n = 0"
proof -
  note b = byte_of_digit [OF assms]
  show "digit_value (digit_char n) = Some n" using assms b by (simp add: digit_value_def Let_def)
  show "digit_char n \<noteq> CHR ''.''" using b byte_of_literals(1) by (auto split: if_splits)
  show "ascii_lower (digit_char n) = digit_char n"
    using assms b by (simp add: ascii_lower_def is_ascii_upper_def)
  have "digit_char n = CHR ''0'' \<longleftrightarrow> byte_of (digit_char n) = byte_of CHR ''0''" by (simp only: of_char_eq_iff)
  also have "\<dots> \<longleftrightarrow> n = 0" using b byte_of_literals(2) by (simp split: if_splits)
  finally show "digit_char n = CHR ''0'' \<longleftrightarrow> n = 0" .
qed

lemma read_number_append:
  "read_number b n (s @ t) = Option.bind (read_number b n s) (\<lambda>m. read_number b m t)"
  by (induction s arbitrary: n) (simp_all split: option.splits)

lemma show_base_facts:
  assumes "2 \<le> b" "b \<le> 16"
  shows "read_number b 0 (show_base b n) = Some n \<and> show_base b n \<noteq> []
     \<and> CHR ''.'' \<notin> set (show_base b n) \<and> to_ascii_lowercase (show_base b n) = show_base b n
     \<and> (0 < n \<longrightarrow> hd (show_base b n) \<noteq> CHR ''0'')"
  using assms
proof (induction b n rule: show_base.induct)
  case (1 b n)
  show ?case
  proof (cases "n < b")
    case True
    then have "n < 16" using 1(3) by simp
    then show ?thesis using True
      by (simp add: show_base.simps [of b n] digit_facts to_ascii_lowercase_def)
        (use digit_facts(2) in force)
  next
    case False
    then have "\<not> (n < b \<or> b < 2)" using 1(2) by simp
    note IH = 1(1) [OF this 1(2,3)]
    have d: "n mod b < b" "n mod b < 16" "0 < n div b" using 1(2,3) False
      by (simp_all add: div_greater_zero_iff less_le_trans [OF mod_less_divisor])
    show ?thesis using IH d 1(2) False digit_facts(2) [OF d(2)] digit_facts(2) [OF d(2), symmetric]
      by (auto simp: show_base.simps [of b n] digit_facts to_ascii_lowercase_def read_number_append)
  qed
qed

lemma show_base_length: "n < 256 \<Longrightarrow> length (show_base 10 n) \<le> 3 \<and> (1 < length (show_base 10 n) \<longrightarrow> 0 < n)"
  by (simp add: show_base.simps [of 10 n] show_base.simps [of 10 "n div 10"]
      show_base.simps [of 10 "n div 10 div 10"])

lemma octet_text:
  "read_octet (show_base 10 (unat (a :: u8))) = Some a" "CHR ''.'' \<notin> set (show_base 10 (unat a))"
  "to_ascii_lowercase (show_base 10 (unat a)) = show_base 10 (unat a)"
proof -
  have lt: "unat a < 256" using unsigned_less [of a] by simp
  show "read_octet (show_base 10 (unat a)) = Some a"
    using show_base_facts [of 10 "unat a"] show_base_length [OF lt] lt by (auto simp: read_octet_def)
qed (use show_base_facts [of 10 "unat a"] in simp_all)

lemma v4_parse_show: "v4_parse (v4_show a) = Some a"
  by (cases a) (simp add: v4_parse_def octet_text split_on_append split_on_none)

lemma ip_parse_v4_show [simp]: "ip_parse (v4_show a) = Some (V4 a)"
  by (simp add: ip_parse_def v4_parse_show)

lemma lowercase_v4_show [simp]: "to_ascii_lowercase (v4_show a) = v4_show a"
proof (cases a)
  case (Ipv4 b c d e)
  have "to_ascii_lowercase (x @ y) = to_ascii_lowercase x @ to_ascii_lowercase y" for x y
    by (simp add: to_ascii_lowercase_def)
  moreover have "to_ascii_lowercase ''.'' = ''.''" by (simp add: to_ascii_lowercase_def ascii_lower_def is_ascii_upper_def)
  ultimately show ?thesis by (simp add: Ipv4 octet_text del: append.simps)
qed

text \<open>A bracketed text is not the text of an address.\<close>

lemma split_on_Cons: "x \<noteq> c \<Longrightarrow> \<exists>p ps. split_on c (x # s) = (x # p) # ps"
  by (auto split: list.splits)

lemma bracket_digit: "digit_value CHR ''['' = None"
  by (simp add: digit_value_def)

lemma read_bracket: "read_octet (CHR ''['' # s) = None" "read_group (CHR ''['' # s) = None"
  by (simp_all add: read_octet_def read_group_def bracket_digit)

lemma v4_parse_bracket: "v4_parse (CHR ''['' # s) = None"
  using split_on_Cons [of "CHR ''[''" "CHR ''.''" s] by (auto simp: v4_parse_def read_bracket)

lemma read_groups_bracket: "read_groups v4_ok (group_texts (CHR ''['' # s)) = None"
proof -
  obtain p ps where p: "group_texts (CHR ''['' # s) = (CHR ''['' # p) # ps"
    using split_on_Cons [of "CHR ''[''" "CHR '':''" s] by (auto simp: group_texts_def)
  then show ?thesis by (cases ps) (simp_all add: read_bracket v4_parse_bracket)
qed

lemma split_gap_bracket: "split_gap (CHR ''['' # s) = Some (l, r) \<Longrightarrow> \<exists>l'. l = CHR ''['' # l'"
  by (cases s) auto

lemma ip_parse_bracket: "ip_parse (CHR ''['' # s) = None"
proof -
  have "v6_parse (CHR ''['' # s) = None"
  proof (cases "split_gap (CHR ''['' # s)")
    case (Some lr)
    obtain l r where lr: "lr = (l, r)" by (cases lr)
    then obtain l' where "l = CHR ''['' # l'" using split_gap_bracket Some by blast
    then show ?thesis using Some by (simp add: v6_parse_def lr read_groups_bracket)
  qed (simp add: v6_parse_def read_groups_bracket)
  then show ?thesis by (simp add: ip_parse_def v4_parse_bracket)
qed

lemma lowercase_bracket: "to_ascii_lowercase (CHR ''['' # s) = CHR ''['' # to_ascii_lowercase s"
proof -
  have "ascii_lower CHR ''['' = CHR ''[''" by (simp add: ascii_lower_def is_ascii_upper_def)
  then show ?thesis by (simp add: to_ascii_lowercase_def)
qed

text \<open>What the lowercased text of a host reads as: an IPv4 literal, and nothing else.\<close>

lemma host_text_parse:
  assumes "host_text_ok h s"
  shows "ip_parse (to_ascii_lowercase s) = (case h of Host_Ipv4 a \<Rightarrow> Some (V4 a) | _ \<Rightarrow> None)"
  using assms by (cases h) (auto simp: lowercase_bracket ip_parse_bracket)

end
