(* ===== verification/Host_Guard.thy ===== *)
theory Host_Guard
  imports Net
begin

section \<open>The outbound host guard\<close>

text \<open>
  \<open>HostGuard\<close> of \<open>crates/protocol/src/transport/guard.rs\<close> and the resolver pinning of
  \<open>resolve.rs\<close>: which addresses an outbound transport may dial. The error messages are the texts
  the code formats. DNS is a parameter of \<open>resolve_and_check_with\<close>, as in the code: a function from
  a name and a port to the lookup error's text or the addresses. \<open>transport_error\<close> is the error type of
  \<open>transport/mod.rs\<close>, with an I/O error as its text.
\<close>

datatype transport_error =
    TE_Io string
  | TE_Http string
  | TE_Closed
  | TE_Timeout duration
  | TE_Other string

record host_guard =
  hg_allowed :: "string list"

definition guard_from_hosts :: "string list \<Rightarrow> host_guard" where
  "guard_from_hosts allowed_hosts = \<lparr>hg_allowed = map to_ascii_lowercase allowed_hosts\<rparr>"

definition host_allowed :: "host_guard \<Rightarrow> string \<Rightarrow> bool" where
  "host_allowed g host = list_ex (\<lambda>a. a = to_ascii_lowercase host) (hg_allowed g)"

fun is_blocked_ip :: "ip_addr \<Rightarrow> bool" where
  "is_blocked_ip (V4 a) \<longleftrightarrow> v4_is_loopback a \<or> v4_is_private a \<or> v4_is_link_local a
     \<or> v4_is_unspecified a \<or> v4_is_broadcast a"
| "is_blocked_ip (V6 a) =
     (if v6_is_loopback a \<or> v6_is_unspecified a then True
      else if (v6_octets a ! 0) AND 0xfe = 0xfc then True
      else if v6_first a AND 0xffc0 = 0xfe80 then True
      else case to_ipv4_mapped a of
        Some m \<Rightarrow> v4_is_loopback m \<or> v4_is_private m \<or> v4_is_link_local m
          \<or> v4_is_unspecified m \<or> v4_is_broadcast m
      | None \<Rightarrow> False)"

fun host_ip :: "url_host \<Rightarrow> ip_addr option" where
  "host_ip (Host_Ipv4 a) = Some (V4 a)"
| "host_ip (Host_Ipv6 a) = Some (V6 a)"
| "host_ip (Host_Domain _) = None"

fun host_string :: "url_host \<Rightarrow> string" where
  "host_string (Host_Domain d) = d"
| "host_string (Host_Ipv4 a) = v4_show a"
| "host_string (Host_Ipv6 a) = v6_show a"

definition blocked_no_host :: transport_error where
  "blocked_no_host = TE_Other ''blocked host: URL has no host (SSRF guard, ADR 0012)''"

definition blocked_address :: "string \<Rightarrow> transport_error" where
  "blocked_address host = TE_Other (''blocked host `'' @ host @
     ''`: resolves to a private/loopback/link-local/reserved address and is not in allowed_hosts (SSRF guard, ADR 0012)'')"

definition blocked_unlisted :: "string \<Rightarrow> transport_error" where
  "blocked_unlisted host =
     TE_Other (''blocked host `'' @ host @ ''`: not in allowed_hosts (SSRF guard, ADR 0012)'')"

definition blocked_resolution :: "string \<Rightarrow> ip_addr \<Rightarrow> transport_error" where
  "blocked_resolution domain ip = TE_Other (''blocked host `'' @ domain @
     ''`: resolves to private/loopback/link-local/reserved address '' @ ip_show ip @
     '' and is not in allowed_hosts (DNS-rebinding guard, ADR 0016)'')"

text \<open>\<open>check_url\<close>: an address literal is looked up in the allowlist before its range is checked.\<close>

definition check_listed :: "host_guard \<Rightarrow> string \<Rightarrow> transport_error + unit" where
  "check_listed g host =
     (if hg_allowed g = [] \<or> host_allowed g host then Inr () else Inl (blocked_unlisted host))"

definition check_url :: "host_guard \<Rightarrow> url \<Rightarrow> transport_error + unit" where
  "check_url g u =
     and_then (ok_or blocked_no_host (url_host u)) (\<lambda>host.
     let host_str = host_string host in
     case host_ip host of
       Some ip \<Rightarrow>
         if host_allowed g host_str then Inr ()
         else if is_blocked_ip ip then Inl (blocked_address host_str)
         else check_listed g host_str
     | None \<Rightarrow> check_listed g host_str)"

definition no_port :: "url \<Rightarrow> transport_error" where
  "no_port u = TE_Other (''cannot determine port for `'' @ url_display u @
     ''` (resolver pinning, ADR 0016)'')"

definition lookup_failed :: "string \<Rightarrow> string \<Rightarrow> transport_error" where
  "lookup_failed domain e = TE_Other (''dns lookup for `'' @ domain @ ''` failed: '' @ e @
     '' (resolver pinning, ADR 0016)'')"

definition lookup_empty :: "string \<Rightarrow> transport_error" where
  "lookup_empty domain = TE_Other (''dns lookup for `'' @ domain @
     ''` returned no addresses (resolver pinning, ADR 0016)'')"

type_synonym resolver = "string \<Rightarrow> u16 \<Rightarrow> string + socket_addr list"

definition check_resolved ::
  "host_guard \<Rightarrow> string \<Rightarrow> socket_addr list \<Rightarrow> transport_error + socket_addr list" where
  "check_resolved g domain addrs =
     (if addrs = [] then Inl (lookup_empty domain)
      else if \<not> host_allowed g domain then
        (case find (\<lambda>sa. is_blocked_ip (sa_ip sa)) addrs of
           Some bad \<Rightarrow> Inl (blocked_resolution domain (sa_ip bad))
         | None \<Rightarrow> Inr addrs)
      else Inr addrs)"

definition resolve_and_check_with ::
  "url \<Rightarrow> host_guard \<Rightarrow> resolver \<Rightarrow> transport_error + socket_addr list" where
  "resolve_and_check_with u g resolve =
     and_then (check_url g u) (\<lambda>_.
     and_then (ok_or (no_port u) (url_port_or_known_default u)) (\<lambda>port.
     and_then (ok_or blocked_no_host (url_host u)) (\<lambda>host.
     case host of
       Host_Ipv4 a \<Rightarrow> Inr [\<lparr>sa_ip = V4 a, sa_port = port\<rparr>]
     | Host_Ipv6 a \<Rightarrow> Inr [\<lparr>sa_ip = V6 a, sa_port = port\<rparr>]
     | Host_Domain domain \<Rightarrow>
         (case resolve domain port of
            Inl e \<Rightarrow> Inl (lookup_failed domain e)
          | Inr addrs \<Rightarrow> check_resolved g domain addrs))))"

subsection \<open>What passes the guard\<close>

lemma host_allowed_iff: "host_allowed g host \<longleftrightarrow> to_ascii_lowercase host \<in> set (hg_allowed g)"
  by (auto simp: host_allowed_def list_ex_iff)

lemma host_allowed_from_hosts:
  "host_allowed (guard_from_hosts hosts) host \<longleftrightarrow> (\<exists>h \<in> set hosts. eq_ignore_ascii_case h host)"
proof -
  have "host_allowed (guard_from_hosts hosts) host
      \<longleftrightarrow> to_ascii_lowercase host \<in> to_ascii_lowercase ` set hosts"
    by (simp add: host_allowed_iff guard_from_hosts_def)
  then show ?thesis unfolding eq_ignore_ascii_case_def by (metis imageE imageI)
qed

lemma check_url_Inr_iff:
  "check_url g u = Inr () \<longleftrightarrow> (\<exists>h. url_host u = Some h
     \<and> (host_allowed g (host_string h) \<or> hg_allowed g = [] \<and> (\<forall>ip. host_ip h = Some ip \<longrightarrow> \<not> is_blocked_ip ip)))"
proof (cases "url_host u")
  case (Some h)
  show ?thesis
    by (cases "host_ip h") (auto simp: Some check_url_def check_listed_def Let_def)
qed (simp add: check_url_def)

lemma check_resolved_Inr_iff:
  "check_resolved g domain addrs = Inr out \<longleftrightarrow> out = addrs \<and> addrs \<noteq> []
     \<and> (host_allowed g domain \<or> (\<forall>sa \<in> set addrs. \<not> is_blocked_ip (sa_ip sa)))"
  by (auto simp: check_resolved_def find_None_iff split: option.splits if_splits)
    (auto simp: find_Some_iff)

text \<open>The addresses that pass: for an IP literal the literal itself, for a name all that were looked up.\<close>

lemma resolve_and_check_Inr:
  assumes "resolve_and_check_with u g resolve = Inr addrs"
  obtains h where "url_host u = Some h" "addrs \<noteq> []"
    "host_allowed g (host_string h) \<or> hg_allowed g = [] \<and> (\<forall>sa \<in> set addrs. \<not> is_blocked_ip (sa_ip sa))"
    "\<And>ip. host_ip h = Some ip \<Longrightarrow> map sa_ip addrs = [ip]"
proof -
  obtain h where h: "url_host u = Some h" and "check_url g u = Inr ()"
    using assms by (auto simp: resolve_and_check_with_def result_iffs)
  then have ok: "host_allowed g (host_string h)
      \<or> hg_allowed g = [] \<and> (\<forall>ip. host_ip h = Some ip \<longrightarrow> \<not> is_blocked_ip ip)"
    by (auto simp: check_url_Inr_iff)
  have "addrs \<noteq> [] \<and> (\<forall>ip. host_ip h = Some ip \<longrightarrow> map sa_ip addrs = [ip])
      \<and> (host_ip h = None \<longrightarrow> host_allowed g (host_string h) \<or> (\<forall>sa \<in> set addrs. \<not> is_blocked_ip (sa_ip sa)))"
  proof (cases h)
    case (Host_Domain domain)
    obtain port where "url_port_or_known_default u = Some port"
      using assms by (auto simp: resolve_and_check_with_def result_iffs)
    with assms h Host_Domain show ?thesis
      by (cases "resolve domain port")
        (auto simp: resolve_and_check_with_def and_then_Inr_iff check_resolved_Inr_iff)
  qed (use assms h in \<open>auto simp: resolve_and_check_with_def result_iffs\<close>)
  then show thesis using that [OF h] ok by (cases "host_ip h") auto
qed

lemma resolved_without_list:
  assumes "resolve_and_check_with u (guard_from_hosts []) resolve = Inr addrs" "a \<in> set addrs"
  shows "\<not> is_blocked_ip (sa_ip a)"
  using resolve_and_check_Inr [OF assms(1)] assms(2)
  by (metis guard_from_hosts_def host_allowed_iff host_guard.select_convs(1) list.simps(8) list.set(1) empty_iff)

text \<open>Every message of a rejection by policy carries the text the command line looks for.\<close>

definition mentions_blocked_host :: "transport_error \<Rightarrow> bool" where
  "mentions_blocked_host e \<longleftrightarrow> (case e of TE_Other m \<Rightarrow> take 12 m = ''blocked host'' | _ \<Rightarrow> False)"

lemma blocked_messages [simp]:
  "mentions_blocked_host blocked_no_host" "mentions_blocked_host (blocked_address h)"
  "mentions_blocked_host (blocked_unlisted h)" "mentions_blocked_host (blocked_resolution h a)"
  by (simp_all add: mentions_blocked_host_def blocked_no_host_def blocked_address_def
      blocked_unlisted_def blocked_resolution_def)

lemma check_url_Inl: "check_url g u = Inl e \<Longrightarrow> mentions_blocked_host e"
  by (auto simp: check_url_def check_listed_def result_iffs Let_def split: option.splits if_splits)

subsection \<open>Properties\<close>

text \<open>
  C10. The guard admits no address behind the operator's back: when the addresses of a URL are handed
  to the transport, there is at least one, and if the URL's host is not listed in \<open>allowed_hosts\<close> (whatever the
  letter case), none of them is a loopback, private, link-local, unspecified or broadcast address, also
  when it is an IPv4 address mapped into IPv6; this holds whatever the resolver answers. With a
  non-empty list, only listed hosts pass. An IP literal is the only address dialled for it.
\<close>

theorem vetted_addresses_safe:
  assumes "resolve_and_check_with u (guard_from_hosts hosts) resolve = Inr addrs"
  shows "\<exists>h. url_host u = Some h \<and> addrs \<noteq> []
     \<and> ((\<exists>listed \<in> set hosts. eq_ignore_ascii_case listed (host_string h))
        \<or> hosts = [] \<and> (\<forall>sa \<in> set addrs. \<not> is_blocked_ip (sa_ip sa)))
     \<and> (\<forall>ip. host_ip h = Some ip \<longrightarrow> map sa_ip addrs = [ip])"
  using resolve_and_check_Inr [OF assms]
  by (metis host_allowed_from_hosts guard_from_hosts_def host_guard.select_convs(1) map_is_Nil_conv)

subsection \<open>A public name\<close>

definition sample_url :: "url_host \<Rightarrow> string \<Rightarrow> url" where
  "sample_url h text = \<lparr>url_scheme = ''https'', url_username = [], url_password = None,
     url_fragment = None, url_host = Some h, url_host_str = Some text,
     url_port_or_known_default = Some 443, url_cannot_be_a_base = False,
     url_display = ''https://example.com/''\<rparr>"

lemma sample_url_simps [simp]:
  "url_scheme (sample_url h t) = ''https''" "url_username (sample_url h t) = []"
  "url_password (sample_url h t) = None" "url_fragment (sample_url h t) = None"
  "url_host (sample_url h t) = Some h" "url_host_str (sample_url h t) = Some t"
  "url_port_or_known_default (sample_url h t) = Some 443" "\<not> url_cannot_be_a_base (sample_url h t)"
  by (simp_all add: sample_url_def)

lemma vetted_addresses_safe_witness:
  "\<exists>addrs. resolve_and_check_with (sample_url (Host_Domain ''example.com'') ''example.com'')
       (guard_from_hosts []) (\<lambda>_ port. Inr [\<lparr>sa_ip = V4 (Ipv4 93 184 216 34), sa_port = port\<rparr>]) = Inr addrs
     \<and> (\<forall>sa \<in> set addrs. \<not> is_blocked_ip (sa_ip sa))"
proof -
  let ?u = "sample_url (Host_Domain ''example.com'') ''example.com''"
  let ?resolve = "\<lambda>_ port. Inr [\<lparr>sa_ip = V4 (Ipv4 93 184 216 34), sa_port = port\<rparr>]"
  have "\<exists>addrs. resolve_and_check_with ?u (guard_from_hosts []) ?resolve = Inr addrs"
    by (simp add: resolve_and_check_with_def check_url_def check_listed_def
        guard_from_hosts_def check_resolved_def host_allowed_def v4_is_unspecified_def
        v4_is_broadcast_def v4_broadcast_def)
  then obtain addrs where a: "resolve_and_check_with ?u (guard_from_hosts []) ?resolve = Inr addrs" by blast
  with vetted_addresses_safe [OF a] show ?thesis by auto
qed

end
