(* ===== verification/Endpoint_Policy.thy ===== *)
theory Endpoint_Policy
  imports Host_Guard
begin

section \<open>The policy for OAuth endpoints\<close>

text \<open>
  \<open>EndpointPolicy\<close> of \<open>crates/auth/src/policy.rs\<close>: HTTPS only, no userinfo or fragment, no local,
  private or reserved address, and DNS answers vetted before they are pinned. The HTTP client built from
  the vetted addresses is third-party code; it is represented by the pin it is built with. The DNS
  lookup is a parameter.
\<close>

datatype auth_error =
    Auth_UnsafeEndpoint string
  | Auth_InvalidUrl string
  | Auth_Network string

record endpoint_policy =
  ep_allow_loopback_http :: bool
  ep_timeout :: duration
  ep_maximum_response_bytes :: nat

definition strict_policy :: endpoint_policy where
  "strict_policy = \<lparr>ep_allow_loopback_http = False, ep_timeout = 15 * 10 ^ 9,
     ep_maximum_response_bytes = 1024 * 1024\<rparr>"

definition loopback_for_tests :: endpoint_policy where
  "loopback_for_tests = strict_policy\<lparr>ep_allow_loopback_http := True\<rparr>"

definition with_timeout :: "endpoint_policy \<Rightarrow> duration \<Rightarrow> endpoint_policy" where
  "with_timeout p timeout = p\<lparr>ep_timeout := timeout\<rparr>"

definition with_maximum_response_bytes :: "endpoint_policy \<Rightarrow> nat \<Rightarrow> endpoint_policy" where
  "with_maximum_response_bytes p bytes = p\<lparr>ep_maximum_response_bytes := bytes\<rparr>"

subsection \<open>Public addresses\<close>

fun is_public_ipv4 :: "ipv4_addr \<Rightarrow> bool" where
  "is_public_ipv4 (Ipv4 a b c d) \<longleftrightarrow>
     \<not> (a = 0 \<or> a = 10 \<or> a = 127 \<or> 224 \<le> a
       \<or> a = 100 \<and> 64 \<le> b \<and> b \<le> 127
       \<or> a = 169 \<and> b = 254
       \<or> a = 172 \<and> 16 \<le> b \<and> b \<le> 31
       \<or> a = 192 \<and> b = 0 \<and> c = 0
       \<or> a = 192 \<and> b = 0 \<and> c = 2
       \<or> a = 192 \<and> b = 168
       \<or> a = 198 \<and> (b = 18 \<or> b = 19)
       \<or> a = 198 \<and> b = 51 \<and> c = 100
       \<or> a = 203 \<and> b = 0 \<and> c = 113)"

definition is_non_public_nat64 :: "ipv6_addr \<Rightarrow> bool" where
  "is_non_public_nat64 address =
     (let octets = v6_octets address;
          well_known_prefix = (take 12 octets = [0x00, 0x64, 0xff, 0x9b, 0, 0, 0, 0, 0, 0, 0, 0]);
          local_prefix = (take 6 octets = [0x00, 0x64, 0xff, 0x9b, 0x00, 0x01])
      in if \<not> well_known_prefix \<and> \<not> local_prefix then False
         else \<not> is_public_ipv4 (Ipv4 (octets ! 12) (octets ! 13) (octets ! 14) (octets ! 15)))"

definition is_public_ipv6 :: "ipv6_addr \<Rightarrow> bool" where
  "is_public_ipv6 address =
     (case to_ipv4_mapped address of
        Some mapped \<Rightarrow> is_public_ipv4 mapped
      | None \<Rightarrow>
          (let segments = v6_segments address in
           \<not> (v6_is_unspecified address \<or> v6_is_loopback address
             \<or> (segments ! 0) AND 0xfe00 = 0xfc00
             \<or> (segments ! 0) AND 0xffc0 = 0xfe80
             \<or> (segments ! 0) AND 0xffc0 = 0xfec0
             \<or> (segments ! 0) AND 0xff00 = 0xff00
             \<or> segments ! 0 = 0x2001 \<and> segments ! 1 = 0x0db8
             \<or> is_non_public_nat64 address)))"

fun is_public_ip :: "ip_addr \<Rightarrow> bool" where
  "is_public_ip (V4 a) = is_public_ipv4 a"
| "is_public_ip (V6 a) = is_public_ipv6 a"

definition LOCALHOST :: string where
  "LOCALHOST = ''localhost''"

fun is_loopback_host :: "url_host option \<Rightarrow> bool" where
  "is_loopback_host (Some (Host_Domain d)) = eq_ignore_ascii_case d LOCALHOST"
| "is_loopback_host (Some (Host_Ipv4 a)) = v4_is_loopback a"
| "is_loopback_host (Some (Host_Ipv6 a)) = v6_is_loopback a"
| "is_loopback_host None = False"

fun is_unsafe_host :: "url_host option \<Rightarrow> bool" where
  "is_unsafe_host (Some (Host_Domain d)) = eq_ignore_ascii_case d LOCALHOST"
| "is_unsafe_host (Some (Host_Ipv4 a)) = (\<not> is_public_ipv4 a)"
| "is_unsafe_host (Some (Host_Ipv6 a)) = (\<not> is_public_ipv6 a)"
| "is_unsafe_host None = True"

subsection \<open>Checks\<close>

definition unsafe_if :: "bool \<Rightarrow> string \<Rightarrow> auth_error + unit" where
  "unsafe_if c reason = fail_if c (Auth_UnsafeEndpoint reason)"

definition endpoint_validate :: "endpoint_policy \<Rightarrow> url \<Rightarrow> auth_error + unit" where
  "endpoint_validate p u =
     and_then (unsafe_if (url_cannot_be_a_base u \<or> url_host u = None)
       ''URL must be an absolute hierarchical URL'') (\<lambda>_.
     and_then (unsafe_if (url_username u \<noteq> [] \<or> url_password u \<noteq> None)
       ''URL userinfo is forbidden'') (\<lambda>_.
     and_then (unsafe_if (url_fragment u \<noteq> None) ''URL fragments are forbidden'') (\<lambda>_.
     and_then (unsafe_if (is_unsafe_host (url_host u)
         \<and> \<not> (ep_allow_loopback_http p \<and> is_loopback_host (url_host u)))
       ''local, private, and reserved IP endpoints are forbidden'') (\<lambda>_.
     if url_scheme u = ''https'' then Inr ()
     else if url_scheme u = ''http'' \<and> ep_allow_loopback_http p \<and> is_loopback_host (url_host u)
     then Inr ()
     else Inl (Auth_UnsafeEndpoint ''HTTPS is required'')))))"

definition address_allowed :: "endpoint_policy \<Rightarrow> string \<Rightarrow> ip_addr \<Rightarrow> bool" where
  "address_allowed p domain address =
     (if ep_allow_loopback_http p \<and> eq_ignore_ascii_case domain LOCALHOST then ip_is_loopback address
      else is_public_ip address)"

text \<open>A client is the domain it overrides and the addresses it is pinned to, if any.\<close>

type_synonym client_pin = "(string \<times> socket_addr list) option"

definition endpoint_pinned_client ::
  "endpoint_policy \<Rightarrow> url \<Rightarrow> string \<Rightarrow> socket_addr list \<Rightarrow> auth_error + client_pin" where
  "endpoint_pinned_client p u domain addresses =
     and_then (endpoint_validate p u) (\<lambda>_.
     and_then (fail_if (url_host_str u \<noteq> Some domain) (Auth_InvalidUrl ''endpoint'')) (\<lambda>_.
     and_then (fail_if (addresses = []) (Auth_Network ''endpoint DNS resolution'')) (\<lambda>_.
     and_then (fail_if (list_ex (\<lambda>a. \<not> address_allowed p domain (sa_ip a)) addresses)
       (Auth_UnsafeEndpoint ''DNS resolved to a local, private, or reserved address'')) (\<lambda>_.
     Inr (Some (domain, addresses))))))"

text \<open>\<open>sort_unstable\<close> and \<open>dedup\<close>: IPv4 before IPv6, then by address, then by port.\<close>

fun ip_key :: "ip_addr \<Rightarrow> nat list" where
  "ip_key (V4 (Ipv4 a b c d)) = 4 # map unat [a, b, c, d]"
| "ip_key (V6 a) = 6 # map unat (v6_segments a)"

definition socket_key :: "socket_addr \<Rightarrow> nat list" where
  "socket_key a = ip_key (sa_ip a) @ [unat (sa_port a)]"

definition sort_dedup :: "socket_addr list \<Rightarrow> socket_addr list" where
  "sort_dedup addresses = remdups_adj (sort_key socket_key addresses)"

text \<open>\<open>client_for\<close>; the lookup is a parameter that gives the addresses, or nothing when it fails.\<close>

definition client_for ::
  "(string \<Rightarrow> u16 \<Rightarrow> socket_addr list option) \<Rightarrow> endpoint_policy \<Rightarrow> url \<Rightarrow> auth_error + client_pin" where
  "client_for lookup p u =
     and_then (endpoint_validate p u) (\<lambda>_.
     case url_host u of
       Some (Host_Domain domain) \<Rightarrow>
         and_then (ok_or (Auth_InvalidUrl ''endpoint'') (url_port_or_known_default u)) (\<lambda>port.
         and_then (ok_or (Auth_Network ''endpoint DNS resolution'') (lookup domain port)) (\<lambda>addresses.
         endpoint_pinned_client p u domain (sort_dedup addresses)))
     | _ \<Rightarrow> Inr None)"

subsection \<open>A public address is not a blocked one\<close>

lemma bit_high_octet: "bit (high_octet s) n \<longleftrightarrow> n < 8 \<and> bit s (8 + n)"
  by (simp add: high_octet_def bit_simps)

lemma unique_local_octet:
  assumes "high_octet s AND 0xfe = 0xfc"
  shows "s AND 0xfe00 = 0xfc00"
proof (rule bit_word_eqI)
  fix n :: nat
  assume n: "n < LENGTH(16)"
  have b: "bit (high_octet s AND 0xfe) (n - 8) \<longleftrightarrow> bit (0xfc :: u8) (n - 8)" by (simp only: assms)
  have "n \<in> {0,1,2,3,4,5,6,7,8,9,10,11,12,13,14,15}"
    using n by (simp add: less_Suc_eq eval_nat_numeral)
  then show "bit (s AND 0xfe00) n \<longleftrightarrow> bit (0xfc00 :: u16) n"
    using b by (elim insertE) (simp_all add: bit_simps bit_high_octet)
qed

lemma public_v4:
  assumes "is_public_ipv4 a"
  shows "\<not> is_blocked_ip (V4 a)"
proof (cases a)
  case (Ipv4 b c d e)
  have "b \<noteq> 0 \<and> b \<noteq> 10 \<and> b \<noteq> 127 \<and> \<not> 224 \<le> b \<and> \<not> (b = 169 \<and> c = 254)
      \<and> \<not> (b = 172 \<and> 16 \<le> c \<and> c \<le> 31) \<and> \<not> (b = 192 \<and> c = 168)"
    using assms unfolding Ipv4 is_public_ipv4.simps by blast
  moreover from this have "b \<noteq> 255" by auto
  ultimately show ?thesis
    unfolding Ipv4 is_blocked_ip.simps v4_is_loopback.simps v4_is_private.simps v4_is_link_local.simps
      v4_is_unspecified_def v4_is_broadcast_def v4_broadcast_def ipv4_addr.inject by blast
qed

lemma v6_octets_first: "v6_octets a ! 0 = high_octet (v6_first a)"
  by (cases a) (simp add: v6_octets_def v6_first_def)

lemma v6_segments_first: "v6_segments a ! 0 = v6_first a"
  by (cases a) (simp add: v6_first_def)

lemma mapped_facts:
  assumes "to_ipv4_mapped a = Some m"
  shows "\<not> v6_is_loopback a" "\<not> v6_is_unspecified a" "v6_first a = 0"
  using assms by (cases a; auto simp: v6_is_loopback_def v6_is_unspecified_def v6_first_def split: if_splits)+

lemma public_not_blocked: "is_public_ip a \<Longrightarrow> \<not> is_blocked_ip a"
proof (cases a)
  case (V6 b)
  assume pub: "is_public_ip a"
  show ?thesis
  proof (cases "to_ipv4_mapped b")
    case None
    have "\<not> high_octet (v6_first b) AND 0xfe = 0xfc"
      using pub unique_local_octet by (auto simp: V6 is_public_ipv6_def None Let_def v6_segments_first)
    then show ?thesis using pub
      by (simp add: V6 is_public_ipv6_def None Let_def v6_octets_first v6_segments_first)
  next
    case (Some m)
    then show ?thesis using pub public_v4 [of m]
      by (simp add: V6 is_public_ipv6_def v6_octets_first mapped_facts high_octet_def)
  qed
qed (use public_v4 in simp)

subsection \<open>What the checks guarantee\<close>

lemma unsafe_if_Inr [simp]: "unsafe_if c r = Inr u \<longleftrightarrow> \<not> c"
  by (simp add: unsafe_if_def fail_if_Inr_iff)

lemma endpoint_validate_iff:
  "endpoint_validate p u = Inr () \<longleftrightarrow> \<not> url_cannot_be_a_base u \<and> url_host u \<noteq> None
     \<and> url_username u = [] \<and> url_password u = None \<and> url_fragment u = None
     \<and> (is_unsafe_host (url_host u) \<longrightarrow> ep_allow_loopback_http p \<and> is_loopback_host (url_host u))
     \<and> (url_scheme u = ''https''
        \<or> url_scheme u = ''http'' \<and> ep_allow_loopback_http p \<and> is_loopback_host (url_host u))"
  by (auto simp: endpoint_validate_def result_iffs)

lemma sort_dedup_set [simp]: "set (sort_dedup as) = set as"
  by (simp add: sort_dedup_def)

lemma endpoint_pinned_iff:
  "endpoint_pinned_client p u domain addresses = Inr pin \<longleftrightarrow>
     pin = Some (domain, addresses) \<and> endpoint_validate p u = Inr () \<and> url_host_str u = Some domain
     \<and> addresses \<noteq> [] \<and> (\<forall>a \<in> set addresses. address_allowed p domain (sa_ip a))"
  by (auto simp: endpoint_pinned_client_def result_iffs list_ex_iff)

text \<open>The addresses a client built for \<open>u\<close> can dial: those it is pinned to, or the literal in the URL.\<close>

definition dialled :: "url \<Rightarrow> client_pin \<Rightarrow> ip_addr set" where
  "dialled u pin = (case pin of
       Some (_, addresses) \<Rightarrow> sa_ip ` set addresses
     | None \<Rightarrow> (case url_host u of
         Some (Host_Ipv4 a) \<Rightarrow> {V4 a} | Some (Host_Ipv6 a) \<Rightarrow> {V6 a} | _ \<Rightarrow> UNIV))"

subsection \<open>Properties\<close>

text \<open>
  C32. Credentials never leave for a private place: under a policy without the test-only loopback
  switch (\<open>strict_policy\<close> and whatever timeout or size limit is set on it), a client is built only for
  an absolute HTTPS URL without userinfo and fragment, every address it can dial is public, hence none the
  transport guard would block, and for a domain it is pinned to exactly the addresses of the one
  lookup, of which there is at least one; this holds whatever the lookup answers.
\<close>

theorem oauth_client_public_only:
  assumes "client_for lookup p u = Inr pin" "\<not> ep_allow_loopback_http p"
  shows "url_scheme u = ''https'' \<and> url_username u = [] \<and> url_password u = None \<and> url_fragment u = None
     \<and> \<not> url_cannot_be_a_base u
     \<and> (\<forall>a \<in> dialled u pin. is_public_ip a \<and> \<not> is_blocked_ip a)
     \<and> (\<forall>domain. url_host u = Some (Host_Domain domain) \<longrightarrow> (\<exists>port found addresses.
           lookup domain port = Some found \<and> pin = Some (domain, addresses)
           \<and> set addresses = set found \<and> addresses \<noteq> []))"
proof -
  have v: "endpoint_validate p u = Inr ()"
    using assms(1) by (simp add: client_for_def result_iffs)
  then obtain h where h: "url_host u = Some h" and https: "url_scheme u = ''https''"
    and ok: "\<not> is_unsafe_host (Some h)"
    and clean: "url_username u = []" "url_password u = None" "url_fragment u = None" "\<not> url_cannot_be_a_base u"
    using assms(2) by (auto simp: endpoint_validate_iff)
  have "(\<forall>a \<in> dialled u pin. is_public_ip a)
      \<and> (\<forall>domain. h = Host_Domain domain \<longrightarrow> (\<exists>port found addresses.
           lookup domain port = Some found \<and> pin = Some (domain, addresses)
           \<and> set addresses = set found \<and> addresses \<noteq> []))"
  proof (cases h)
    case (Host_Domain domain)
    obtain port found where f: "lookup domain port = Some found"
      and pin: "endpoint_pinned_client p u domain (sort_dedup found) = Inr pin"
      using assms(1) h by (auto simp: client_for_def Host_Domain result_iffs)
    then have "\<forall>a \<in> set found. is_public_ip (sa_ip a)"
      using assms(2) by (auto simp: endpoint_pinned_iff address_allowed_def)
    then show ?thesis using f pin Host_Domain
      by (auto simp: endpoint_pinned_iff dialled_def)
  qed (use assms(1) h ok in \<open>auto simp: client_for_def result_iffs dialled_def\<close>)
  then show ?thesis using h https clean public_not_blocked by simp
qed

lemma strict_no_loopback: "\<not> ep_allow_loopback_http strict_policy"
  by (simp add: strict_policy_def)

lemma oauth_client_public_only_witness:
  "\<exists>pin. client_for (\<lambda>_ port. Some [\<lparr>sa_ip = V4 (Ipv4 93 184 216 34), sa_port = port\<rparr>]) strict_policy
       (sample_url (Host_Domain ''example.com'') ''example.com'') = Inr pin
     \<and> dialled (sample_url (Host_Domain ''example.com'') ''example.com'') pin \<subseteq> Collect is_public_ip"
proof -
  let ?lookup = "\<lambda>_ port. Some [\<lparr>sa_ip = V4 (Ipv4 93 184 216 34), sa_port = port\<rparr>]"
  let ?u = "sample_url (Host_Domain ''example.com'') ''example.com''"
  have local: "\<not> eq_ignore_ascii_case ''example.com'' LOCALHOST"
    by (simp add: eq_ignore_ascii_case_def to_ascii_lowercase_def LOCALHOST_def)
  have v: "endpoint_validate strict_policy ?u = Inr ()"
    unfolding endpoint_validate_iff by (simp add: local)
  have "\<exists>pin. client_for ?lookup strict_policy ?u = Inr pin"
    using v by (simp add: client_for_def endpoint_pinned_client_def sort_dedup_def address_allowed_def
        strict_no_loopback)
  then obtain pin where "client_for ?lookup strict_policy ?u = Inr pin" by blast
  then show ?thesis using oauth_client_public_only [of ?lookup strict_policy ?u pin]
    by (auto simp: strict_no_loopback)
qed

end
