(* ===== verification/Wire.thy ===== *)
theory Wire
  imports Report
begin

section \<open>The controller/worker wire protocol\<close>

text \<open>
  The frames of \<open>crates/distributed/src/protocol.rs\<close> and the evidence records they carry, from
  \<open>aggregate.rs\<close>. Fields keep the source's names behind a prefix per struct. A frame's \<open>u64\<close>
  milliseconds stay words. \<open>serde_json::Value\<close> is a JSON value with its numbers as their text.
\<close>

datatype json =
    JNull
  | JBool bool
  | JNumber string
  | JString string
  | JArray "json list"
  | JObject "(string \<times> json) list"

definition WIRE_PROTOCOL :: string where
  "WIRE_PROTOCOL = ''mcp-loadtest-dist/1''"

subsection \<open>Work assignment\<close>

record agent_shard =
  sh_agent_name :: string
  sh_index :: u32
  sh_agent_count :: u32
  sh_concurrency :: u32

datatype supported_scenario = Scenario_Sustained | Scenario_Pattern

text \<open>The derived \<open>Ord\<close> of the enum: the order of its constructors.\<close>

fun scenario_le :: "supported_scenario \<Rightarrow> supported_scenario \<Rightarrow> bool" where
  "scenario_le Scenario_Pattern Scenario_Sustained = False"
| "scenario_le _ _ = True"

instantiation supported_scenario :: linorder
begin

definition less_eq_supported_scenario :: "supported_scenario \<Rightarrow> supported_scenario \<Rightarrow> bool" where
  "less_eq_supported_scenario = scenario_le"

definition less_supported_scenario :: "supported_scenario \<Rightarrow> supported_scenario \<Rightarrow> bool" where
  "less_supported_scenario a b \<longleftrightarrow> a = Scenario_Sustained \<and> b = Scenario_Pattern"

instance
proof
  fix x y z :: supported_scenario
  show "(x < y) = (x \<le> y \<and> \<not> y \<le> x)" by (cases x; cases y) (simp_all add: less_supported_scenario_def less_eq_supported_scenario_def)
  show "x \<le> x" by (cases x) (simp_all add: less_eq_supported_scenario_def)
  show "x \<le> y \<Longrightarrow> y \<le> z \<Longrightarrow> x \<le> z" by (cases x; cases y; cases z) (simp_all add: less_eq_supported_scenario_def)
  show "x \<le> y \<Longrightarrow> y \<le> x \<Longrightarrow> x = y" by (cases x; cases y) (simp_all add: less_eq_supported_scenario_def)
  show "x \<le> y \<or> y \<le> x" by (cases x; cases y) (simp_all add: less_eq_supported_scenario_def)
qed

end

datatype pattern_error_policy = On_Error_Continue | On_Error_Abort

record pattern_step_plan =
  st_tool :: string
  st_args :: json

record pattern_plan =
  pat_name :: string
  pat_weight :: f64
  pat_think_time_ms :: u64
  pat_on_step_error :: pattern_error_policy
  pat_steps :: "pattern_step_plan list"

record workload_plan =
  wp_scenario :: supported_scenario
  wp_global_concurrency :: u32
  wp_duration_ms :: u64
  wp_patterns :: "pattern_plan list"
  wp_seed :: u64

record agent_workload_plan =
  ap_scenario :: supported_scenario
  ap_concurrency :: u32
  ap_duration_ms :: u64
  ap_patterns :: "pattern_plan list"
  ap_seed :: u64

unbundle bit_operations_syntax

definition for_shard :: "workload_plan \<Rightarrow> agent_shard \<Rightarrow> agent_workload_plan" where
  "for_shard w s = \<lparr>ap_scenario = wp_scenario w, ap_concurrency = sh_concurrency s,
     ap_duration_ms = wp_duration_ms w, ap_patterns = wp_patterns w,
     ap_seed = wp_seed w XOR ucast (sh_index s)\<rparr>"

datatype remote_transport = Transport_Http | Transport_Sse | Transport_Ws

datatype token_endpoint_auth_method =
    Auth_Auto | Auth_None | Auth_ClientSecretBasic | Auth_ClientSecretPost

record remote_client_credentials_auth =
  ra_client_id :: string
  ra_client_secret_env :: string
  ra_token_endpoint_auth_method :: token_endpoint_auth_method
  ra_scopes :: "string list"
  ra_offline_access :: bool
  ra_max_step_up_retries :: u8

record remote_target =
  rt_transport :: remote_transport
  rt_url :: string
  rt_startup_timeout_ms :: u64
  rt_protocol_version :: "string option"
  rt_headers_from_env :: "(string, string) btree"
  rt_allowed_hosts :: "string list"
  rt_strict_validation :: bool
  rt_auth :: "remote_client_credentials_auth option"

subsection \<open>Evidence\<close>

record histogram_evidence =
  he_encoding :: string
  he_payload :: string
  he_count :: u64

record metrics_evidence =
  me_latency :: histogram_evidence
  me_outcomes :: outcome_counts

record agent_evidence =
  ev_agent_name :: string
  ev_shard :: agent_shard
  ev_metrics :: metrics_evidence
  ev_per_tool :: "(string, metrics_evidence) btree"
  ev_scenario_outcome :: scenario_outcome
  ev_measurement_elapsed_ms :: u64
  ev_start_delay_ms :: u64
  ev_target_protocol_version :: string
  ev_tool_inventory_hash :: string

subsection \<open>Frames\<close>

record hello_frame =
  hf_agent_name :: "string option"
  hf_binary_version :: string
  hf_scenarios :: "supported_scenario list"
  hf_max_concurrency :: u32

record prepare_frame =
  pf_job_id :: string
  pf_config_digest :: string
  pf_target :: remote_target
  pf_plan :: agent_workload_plan
  pf_shard :: agent_shard
  pf_heartbeat_interval_ms :: u64

record ready_frame =
  rf_job_id :: string
  rf_agent_name :: string
  rf_live_workers :: u32
  rf_requested_workers :: u32
  rf_tool_inventory_hash :: string
  rf_target_protocol_version :: string

record start_frame =
  sf_job_id :: string
  sf_start_after_ms :: u64

record progress_frame =
  gf_job_id :: string
  gf_sequence :: u64
  gf_evidence :: agent_evidence

record heartbeat_frame =
  bf_job_id :: string
  bf_sequence :: u64

record finished_frame =
  ff_job_id :: string
  ff_evidence :: agent_evidence

record failed_frame =
  xf_job_id :: string
  xf_code :: string
  xf_message :: string
  xf_retryable :: bool

record cancel_frame =
  cf_job_id :: string
  cf_reason :: string

record cancelled_frame =
  df_job_id :: string
  df_reason :: string

datatype wire_message =
    Msg_Hello hello_frame
  | Msg_Prepare prepare_frame
  | Msg_Ready ready_frame
  | Msg_Start start_frame
  | Msg_Progress progress_frame
  | Msg_Heartbeat heartbeat_frame
  | Msg_Finished finished_frame
  | Msg_Failed failed_frame
  | Msg_Cancel cancel_frame
  | Msg_Cancelled cancelled_frame

fun message_job_id :: "wire_message \<Rightarrow> string option" where
  "message_job_id (Msg_Hello _) = None"
| "message_job_id (Msg_Prepare frame) = Some (pf_job_id frame)"
| "message_job_id (Msg_Ready frame) = Some (rf_job_id frame)"
| "message_job_id (Msg_Start frame) = Some (sf_job_id frame)"
| "message_job_id (Msg_Progress frame) = Some (gf_job_id frame)"
| "message_job_id (Msg_Heartbeat frame) = Some (bf_job_id frame)"
| "message_job_id (Msg_Finished frame) = Some (ff_job_id frame)"
| "message_job_id (Msg_Failed frame) = Some (xf_job_id frame)"
| "message_job_id (Msg_Cancel frame) = Some (cf_job_id frame)"
| "message_job_id (Msg_Cancelled frame) = Some (df_job_id frame)"

record wire_frame =
  wf_protocol :: string
  wf_message :: wire_message

definition wire_frame_new :: "wire_message \<Rightarrow> wire_frame" where
  "wire_frame_new m = \<lparr>wf_protocol = WIRE_PROTOCOL, wf_message = m\<rparr>"

definition frame_job_id :: "wire_frame \<Rightarrow> string option" where
  "frame_job_id f = message_job_id (wf_message f)"

datatype controller_message =
    Send_Prepare prepare_frame
  | Send_Start start_frame
  | Send_Cancel cancel_frame

fun controller_frame :: "controller_message \<Rightarrow> wire_frame" where
  "controller_frame (Send_Prepare frame) = wire_frame_new (Msg_Prepare frame)"
| "controller_frame (Send_Start frame) = wire_frame_new (Msg_Start frame)"
| "controller_frame (Send_Cancel frame) = wire_frame_new (Msg_Cancel frame)"

lemma wire_frame_new_simps [simp]:
  "wf_protocol (wire_frame_new m) = WIRE_PROTOCOL" "wf_message (wire_frame_new m) = m"
  "frame_job_id (wire_frame_new m) = message_job_id m"
  by (simp_all add: wire_frame_new_def frame_job_id_def)

lemma for_shard_simps [simp]:
  "ap_concurrency (for_shard w s) = sh_concurrency s" "ap_scenario (for_shard w s) = wp_scenario w"
  "ap_duration_ms (for_shard w s) = wp_duration_ms w" "ap_patterns (for_shard w s) = wp_patterns w"
  by (simp_all add: for_shard_def)

text \<open>Distinct shard indices give distinct seeds.\<close>

lemma for_shard_seed_inj:
  assumes "ap_seed (for_shard w s) = ap_seed (for_shard w s')"
  shows "sh_index s = sh_index s'"
proof -
  have "wp_seed w XOR (wp_seed w XOR ucast (sh_index s))
      = wp_seed w XOR (wp_seed w XOR (ucast (sh_index s') :: u64))"
    using assms by (simp add: for_shard_def)
  then have "(ucast (sh_index s) :: u64) = ucast (sh_index s')"
    by (simp add: xor.assoc [symmetric])
  then have "unat (ucast (sh_index s) :: u64) = unat (ucast (sh_index s') :: u64)" by simp
  moreover have "unat (ucast i :: u64) = unat i" for i :: u32
  proof -
    have "unat i < 2 ^ 32" using unsigned_less [of i] by simp
    then have "unat i < 2 ^ 64" by simp
    then show ?thesis by (simp add: unsigned_ucast_eq take_bit_word_eq_self take_bit_nat_eq_self)
  qed
  ultimately show ?thesis by (simp add: word_unat_eq_iff)
qed

end
