(* ===== verification/Lifecycle.thy ===== *)
theory Lifecycle
  imports Main
begin

section \<open>Lifecycles\<close>

text \<open>
  The contract shared by the protocol state machines: a component moves between phases along
  \<open>edge\<close>, every edge climbs a rank, and no edge leaves a terminal phase. A run is a list of phases in
  which every two neighbours are equal or joined by an edge.
\<close>

locale lifecycle =
  fixes edge :: "'p \<Rightarrow> 'p \<Rightarrow> bool"
    and rank :: "'p \<Rightarrow> nat"
    and terminal :: "'p \<Rightarrow> bool"
  assumes edge_rank: "edge p q \<Longrightarrow> rank p < rank q"
    and terminal_no_edge: "terminal p \<Longrightarrow> \<not> edge p q"
begin

definition stays_or_moves :: "'p \<Rightarrow> 'p \<Rightarrow> bool" where
  "stays_or_moves p q \<longleftrightarrow> p = q \<or> edge p q"

fun run :: "'p list \<Rightarrow> bool" where
  "run [] = True"
| "run [p] = True"
| "run (p # q # ps) = (stays_or_moves p q \<and> run (q # ps))"

lemma run_rank: "run (p # ps) \<Longrightarrow> q \<in> set ps \<Longrightarrow> rank p \<le> rank q"
proof (induction ps arbitrary: p)
  case (Cons r ps)
  have pr: "rank p \<le> rank r" using Cons.prems(1) edge_rank by (auto simp: stays_or_moves_def less_imp_le)
  show ?case
  proof (cases "q = r")
    case True
    with pr show ?thesis by simp
  next
    case False
    then have "rank r \<le> rank q" using Cons by simp
    with pr show ?thesis by simp
  qed
qed simp

text \<open>A run never comes back to a phase it has left.\<close>

lemma run_no_return:
  assumes "run (p # q # ps)" "p \<noteq> q"
  shows "p \<notin> set ps"
proof
  assume "p \<in> set ps"
  then have "rank q \<le> rank p" using run_rank [of q ps p] assms(1) by simp
  moreover have "rank p < rank q" using assms edge_rank by (auto simp: stays_or_moves_def)
  ultimately show False by simp
qed

lemma run_terminal: "run (p # ps) \<Longrightarrow> terminal p \<Longrightarrow> q \<in> set ps \<Longrightarrow> q = p"
proof (induction ps)
  case (Cons r ps)
  then have "r = p" using terminal_no_edge by (auto simp: stays_or_moves_def)
  with Cons show ?case by (cases ps) auto
qed simp

text \<open>Without its repetitions a run climbs strictly, so it never re-enters a phase.\<close>

lemma run_climbs: "run ps \<Longrightarrow> sorted_wrt (\<lambda>p q. rank p < rank q) (remdups_adj ps)"
proof (induction ps rule: run.induct)
  case (3 p q ps)
  then have IH: "sorted_wrt (\<lambda>p q. rank p < rank q) (remdups_adj (q # ps))" by simp
  show ?case
  proof (cases "p = q")
    case True
    with IH show ?thesis by simp
  next
    case False
    then have pq: "rank p < rank q" using 3(2) edge_rank by (simp add: stays_or_moves_def)
    have "rank p < rank r" if "r \<in> set (remdups_adj (q # ps))" for r
      using that run_rank [of q ps r] pq 3(2) by (auto simp del: remdups_adj.simps)
    with IH False show ?thesis by (simp del: remdups_adj.simps add: remdups_adj_Cons')
  qed
qed simp_all

lemma run_distinct: "run ps \<Longrightarrow> distinct (remdups_adj ps)"
  using run_climbs by (metis distinct_conv_nth less_irrefl linorder_neqE_nat sorted_wrt_nth_less)

lemma run_length:
  assumes "run ps" "\<And>p. rank p \<le> n"
  shows "length (remdups_adj ps) \<le> n + 1"
proof -
  have "sorted_wrt (<) (map rank (remdups_adj ps))" using run_climbs [OF assms(1)] by (simp add: sorted_wrt_map)
  then have "distinct (map rank (remdups_adj ps))" by (simp add: strict_sorted_iff)
  then have "length (remdups_adj ps) = card (rank ` set (remdups_adj ps))"
    by (metis distinct_card length_map set_map)
  also have "\<dots> \<le> card {0..n}" using assms(2) by (intro card_mono) auto
  finally show ?thesis by simp
qed

lemma run_snoc: "run ps \<Longrightarrow> (ps \<noteq> [] \<Longrightarrow> stays_or_moves (last ps) q) \<Longrightarrow> run (ps @ [q])"
  by (induction ps rule: run.induct) simp_all

end

end
