(* ===== verification/Controller.thy ===== *)
theory Controller
  imports Wire Lifecycle
begin

section \<open>The controller's protocol state\<close>

text \<open>
  \<open>ControllerJobState\<close> of \<open>crates/distributed/src/state.rs\<close>: legal frame ordering, job and agent
  identity checks, the readiness gate, replacement of cumulative progress, and the retained final
  evidence. An operation on \<open>&mut self\<close> returns the updated state next to its result, because a
  rejected frame can still have changed the state.
\<close>

datatype controller_agent_phase =
    Ctl_AwaitingHello | Ctl_Preparing | Ctl_Ready | Ctl_Running | Ctl_Finished | Ctl_Failed
  | Ctl_Cancelling | Ctl_Cancelled

datatype controller_state_error =
    CE_EmptyCohort
  | CE_DuplicateAgent string
  | CE_UnknownAgent string
  | CE_UnsupportedProtocol string
  | CE_JobMismatch string string
  | CE_AgentMismatch string string
  | CE_CapabilityMismatch string
  | CE_ReadinessShortfall string u32 u32
  | CE_TargetProtocolMismatch string string string
  | CE_ToolInventoryMismatch string
  | CE_UnexpectedFrame string controller_agent_phase string
  | CE_CohortNotReady
  | CE_MissingFinalEvidence string
  | CE_Evidence string string string

record controller_agent =
  ca_phase :: controller_agent_phase
  ca_prepare :: prepare_frame
  ca_latest_progress :: "(u64 \<times> agent_evidence) option"
  ca_final_evidence :: "agent_evidence option"
  ca_failure :: "failed_frame option"

type_synonym ready_signature = "string \<times> string"

record controller_job =
  cj_job_id :: string
  cj_agents :: "(string, controller_agent) btree"
  cj_ready_signature :: "ready_signature option"

subsection \<open>Construction\<close>

definition controller_agent_new :: "prepare_frame \<Rightarrow> controller_agent" where
  "controller_agent_new p = \<lparr>ca_phase = Ctl_AwaitingHello, ca_prepare = p, ca_latest_progress = None,
     ca_final_evidence = None, ca_failure = None\<rparr>"

definition insert_prepare ::
  "string \<Rightarrow> (string, controller_agent) btree \<Rightarrow> prepare_frame
     \<Rightarrow> controller_state_error + (string, controller_agent) btree" where
  "insert_prepare job agents p =
     and_then (fail_if (pf_job_id p \<noteq> job) (CE_JobMismatch job (pf_job_id p))) (\<lambda>_.
     let name = sh_agent_name (pf_shard p)
     in and_then (fail_if (bt_get agents name \<noteq> None) (CE_DuplicateAgent name)) (\<lambda>_.
        Inr (bt_insert name (controller_agent_new p) agents)))"

definition controller_new :: "prepare_frame list \<Rightarrow> controller_state_error + controller_job" where
  "controller_new prepares =
     (case prepares of
        [] \<Rightarrow> Inl CE_EmptyCohort
      | first # _ \<Rightarrow>
          and_then (try_fold (insert_prepare (pf_job_id first)) [] prepares) (\<lambda>agents.
          Inr \<lparr>cj_job_id = pf_job_id first, cj_agents = agents, cj_ready_signature = None\<rparr>))"

definition controller_phase :: "controller_job \<Rightarrow> string \<Rightarrow> controller_agent_phase option" where
  "controller_phase j agent = map_option ca_phase (bt_get (cj_agents j) agent)"

subsection \<open>Validation helpers\<close>

fun message_name :: "wire_message \<Rightarrow> string" where
  "message_name (Msg_Hello _) = ''hello''"
| "message_name (Msg_Prepare _) = ''prepare''"
| "message_name (Msg_Ready _) = ''ready''"
| "message_name (Msg_Start _) = ''start''"
| "message_name (Msg_Progress _) = ''progress''"
| "message_name (Msg_Heartbeat _) = ''heartbeat''"
| "message_name (Msg_Finished _) = ''finished''"
| "message_name (Msg_Failed _) = ''failed''"
| "message_name (Msg_Cancel _) = ''cancel''"
| "message_name (Msg_Cancelled _) = ''cancelled''"

definition validate_job :: "string \<Rightarrow> string \<Rightarrow> controller_state_error + unit" where
  "validate_job expected got = fail_if (expected \<noteq> got) (CE_JobMismatch expected got)"

definition validate_hello ::
  "string \<Rightarrow> hello_frame \<Rightarrow> prepare_frame \<Rightarrow> controller_state_error + unit" where
  "validate_hello agent hello prepare =
     and_then (case hf_agent_name hello of
         None \<Rightarrow> Inr ()
       | Some hello_name \<Rightarrow> fail_if (hello_name \<noteq> agent) (CE_AgentMismatch agent hello_name)) (\<lambda>_.
     fail_if (ap_scenario (pf_plan prepare) \<notin> set (hf_scenarios hello)
         \<or> hf_max_concurrency hello < ap_concurrency (pf_plan prepare))
       (CE_CapabilityMismatch agent))"

definition validate_evidence_agent :: "string \<Rightarrow> agent_evidence \<Rightarrow> controller_state_error + unit" where
  "validate_evidence_agent expected e =
     fail_if (\<not> (ev_agent_name e = expected \<and> sh_agent_name (ev_shard e) = expected))
       (CE_Evidence expected (ev_agent_name e) (sh_agent_name (ev_shard e)))"

subsection \<open>Accepting a frame\<close>

type_synonym accept_result = "controller_state_error + wire_frame option"

text \<open>
  The arms of the \<open>match\<close> in \<open>accept\<close>, one definition per message; each takes the fields of \<open>self\<close> it
  reads and returns the agent's state and the ready signature as it leaves them.
\<close>

type_synonym accept_step = "(controller_agent \<times> ready_signature option) \<times> accept_result"

definition unexpected :: "string \<Rightarrow> controller_agent \<Rightarrow> wire_message \<Rightarrow> controller_state_error" where
  "unexpected agent st m = CE_UnexpectedFrame agent (ca_phase st) (message_name m)"

definition on_hello ::
  "string \<Rightarrow> ready_signature option \<Rightarrow> controller_agent \<Rightarrow> hello_frame \<Rightarrow> accept_step" where
  "on_hello agent sig st hello =
     (case validate_hello agent hello (ca_prepare st) of
        Inl e \<Rightarrow> ((st, sig), Inl e)
      | Inr _ \<Rightarrow> ((st\<lparr>ca_phase := Ctl_Preparing\<rparr>, sig),
          Inr (Some (wire_frame_new (Msg_Prepare (ca_prepare st))))))"

definition on_ready ::
  "string \<Rightarrow> string \<Rightarrow> ready_signature option \<Rightarrow> controller_agent \<Rightarrow> ready_frame \<Rightarrow> accept_step" where
  "on_ready job agent sig st ready =
     (case validate_job job (rf_job_id ready) of Inl e \<Rightarrow> ((st, sig), Inl e) | Inr _ \<Rightarrow>
      if rf_agent_name ready \<noteq> agent
      then ((st, sig), Inl (CE_AgentMismatch agent (rf_agent_name ready)))
      else if rf_requested_workers ready \<noteq> sh_concurrency (pf_shard (ca_prepare st))
           \<or> rf_live_workers ready \<noteq> rf_requested_workers ready
           \<or> rf_tool_inventory_hash ready = [] \<or> rf_target_protocol_version ready = []
      then ((st\<lparr>ca_phase := Ctl_Failed\<rparr>, sig),
        Inl (CE_ReadinessShortfall agent (sh_concurrency (pf_shard (ca_prepare st)))
          (rf_live_workers ready)))
      else case sig of
        Some (expected_protocol, expected_inventory) \<Rightarrow>
          if rf_target_protocol_version ready \<noteq> expected_protocol
          then ((st\<lparr>ca_phase := Ctl_Failed\<rparr>, sig),
            Inl (CE_TargetProtocolMismatch agent expected_protocol (rf_target_protocol_version ready)))
          else if rf_tool_inventory_hash ready \<noteq> expected_inventory
          then ((st\<lparr>ca_phase := Ctl_Failed\<rparr>, sig), Inl (CE_ToolInventoryMismatch agent))
          else ((st\<lparr>ca_phase := Ctl_Ready\<rparr>, sig), Inr None)
      | None \<Rightarrow> ((st\<lparr>ca_phase := Ctl_Ready\<rparr>,
          Some (rf_target_protocol_version ready, rf_tool_inventory_hash ready)), Inr None))"

definition on_progress ::
  "string \<Rightarrow> string \<Rightarrow> controller_agent \<Rightarrow> progress_frame
     \<Rightarrow> controller_agent \<times> accept_result" where
  "on_progress job agent st progress =
     (case validate_job job (gf_job_id progress) of Inl e \<Rightarrow> (st, Inl e) | Inr _ \<Rightarrow>
      case validate_evidence_agent agent (gf_evidence progress) of Inl e \<Rightarrow> (st, Inl e) | Inr _ \<Rightarrow>
      (if (case ca_latest_progress st of None \<Rightarrow> True
           | Some (sequence, _) \<Rightarrow> sequence < gf_sequence progress)
       then st\<lparr>ca_latest_progress := Some (gf_sequence progress, gf_evidence progress)\<rparr> else st,
       Inr None))"

definition on_finished ::
  "string \<Rightarrow> string \<Rightarrow> controller_agent \<Rightarrow> finished_frame \<Rightarrow> controller_agent \<times> accept_result" where
  "on_finished job agent st finished =
     (case validate_job job (ff_job_id finished) of Inl e \<Rightarrow> (st, Inl e) | Inr _ \<Rightarrow>
      case validate_evidence_agent agent (ff_evidence finished) of Inl e \<Rightarrow> (st, Inl e) | Inr _ \<Rightarrow>
      (st\<lparr>ca_final_evidence := Some (ff_evidence finished), ca_phase := Ctl_Finished\<rparr>, Inr None))"

definition controller_terminal :: "controller_agent_phase \<Rightarrow> bool" where
  "controller_terminal p \<longleftrightarrow> p \<in> {Ctl_Finished, Ctl_Failed, Ctl_Cancelled}"

definition accept_message ::
  "string \<Rightarrow> string \<Rightarrow> ready_signature option \<Rightarrow> controller_agent \<Rightarrow> wire_message \<Rightarrow> accept_step" where
  "accept_message job agent sig st m =
     (case m of
        Msg_Hello hello \<Rightarrow>
          if ca_phase st = Ctl_AwaitingHello then on_hello agent sig st hello
          else ((st, sig), Inl (unexpected agent st m))
      | Msg_Ready ready \<Rightarrow>
          if ca_phase st = Ctl_Preparing then on_ready job agent sig st ready
          else ((st, sig), Inl (unexpected agent st m))
      | Msg_Progress progress \<Rightarrow>
          if ca_phase st = Ctl_Running
          then (case on_progress job agent st progress of (st', r) \<Rightarrow> ((st', sig), r))
          else ((st, sig), Inl (unexpected agent st m))
      | Msg_Heartbeat heartbeat \<Rightarrow>
          if ca_phase st \<in> {Ctl_Preparing, Ctl_Ready, Ctl_Running}
          then ((st, sig), case validate_job job (bf_job_id heartbeat) of
                  Inl e \<Rightarrow> Inl e | Inr _ \<Rightarrow> Inr None)
          else ((st, sig), Inl (unexpected agent st m))
      | Msg_Finished finished \<Rightarrow>
          if ca_phase st = Ctl_Running
          then (case on_finished job agent st finished of (st', r) \<Rightarrow> ((st', sig), r))
          else ((st, sig), Inl (unexpected agent st m))
      | Msg_Cancelled cancelled \<Rightarrow>
          if ca_phase st = Ctl_Cancelling
          then (case validate_job job (df_job_id cancelled) of
                  Inl e \<Rightarrow> ((st, sig), Inl e)
                | Inr _ \<Rightarrow> ((st\<lparr>ca_phase := Ctl_Cancelled\<rparr>, sig), Inr None))
          else ((st, sig), Inl (unexpected agent st m))
      | Msg_Failed failure \<Rightarrow>
          if \<not> controller_terminal (ca_phase st)
          then (case validate_job job (xf_job_id failure) of
                  Inl e \<Rightarrow> ((st, sig), Inl e)
                | Inr _ \<Rightarrow> ((st\<lparr>ca_failure := Some failure, ca_phase := Ctl_Failed\<rparr>, sig), Inr None))
          else ((st, sig), Inl (unexpected agent st m))
      | _ \<Rightarrow> ((st, sig), Inl (unexpected agent st m)))"

definition controller_accept ::
  "controller_job \<Rightarrow> string \<Rightarrow> wire_frame \<Rightarrow> controller_job \<times> accept_result" where
  "controller_accept j agent frame =
     (if wf_protocol frame \<noteq> WIRE_PROTOCOL then (j, Inl (CE_UnsupportedProtocol (wf_protocol frame)))
      else case bt_get (cj_agents j) agent of
        None \<Rightarrow> (j, Inl (CE_UnknownAgent agent))
      | Some st \<Rightarrow>
          (case accept_message (cj_job_id j) agent (cj_ready_signature j) st (wf_message frame) of
             ((st', sig'), r) \<Rightarrow>
               (j\<lparr>cj_agents := bt_adjust agent (\<lambda>_. st') (cj_agents j), cj_ready_signature := sig'\<rparr>, r)))"

subsection \<open>Cohort operations\<close>

definition all_ready :: "controller_job \<Rightarrow> bool" where
  "all_ready j \<longleftrightarrow> list_all (\<lambda>(_, st). ca_phase st = Ctl_Ready) (cj_agents j)"

definition start_all ::
  "controller_job \<Rightarrow> u64 \<Rightarrow> controller_job \<times> (controller_state_error + (string \<times> wire_frame) list)"
where
  "start_all j start_after_ms =
     (if \<not> all_ready j then (j, Inl CE_CohortNotReady)
      else (j\<lparr>cj_agents := bt_map (\<lambda>_ st. st\<lparr>ca_phase := Ctl_Running\<rparr>) (cj_agents j)\<rparr>,
        Inr (map (\<lambda>(name, _). (name, wire_frame_new (Msg_Start
          \<lparr>sf_job_id = cj_job_id j, sf_start_after_ms = start_after_ms\<rparr>))) (cj_agents j))))"

definition cancel_agent :: "controller_agent \<Rightarrow> controller_agent" where
  "cancel_agent st =
     (if controller_terminal (ca_phase st) then st
      else if ca_phase st = Ctl_AwaitingHello then st\<lparr>ca_phase := Ctl_Cancelled\<rparr>
      else st\<lparr>ca_phase := Ctl_Cancelling\<rparr>)"

definition cancel_all ::
  "controller_job \<Rightarrow> string \<Rightarrow> controller_job \<times> (string \<times> wire_frame) list" where
  "cancel_all j reason =
     (j\<lparr>cj_agents := bt_map (\<lambda>_. cancel_agent) (cj_agents j)\<rparr>,
      List.map_filter (\<lambda>(name, st).
        if controller_terminal (ca_phase st) \<or> ca_phase st = Ctl_AwaitingHello then None
        else Some (name, wire_frame_new (Msg_Cancel
          \<lparr>cf_job_id = cj_job_id j, cf_reason = reason\<rparr>))) (cj_agents j))"

definition controller_is_terminal :: "controller_job \<Rightarrow> bool" where
  "controller_is_terminal j \<longleftrightarrow> list_all (\<lambda>(_, st). controller_terminal (ca_phase st)) (cj_agents j)"

definition has_failure :: "controller_job \<Rightarrow> bool" where
  "has_failure j \<longleftrightarrow> list_ex (\<lambda>(_, st). ca_phase st = Ctl_Failed) (cj_agents j)"

definition latest_evidence :: "controller_job \<Rightarrow> string \<Rightarrow> agent_evidence option" where
  "latest_evidence j agent =
     (case bt_get (cj_agents j) agent of
        None \<Rightarrow> None
      | Some st \<Rightarrow>
          (case ca_final_evidence st of Some e \<Rightarrow> Some e | None \<Rightarrow> map_option snd (ca_latest_progress st)))"

definition final_evidence :: "controller_job \<Rightarrow> controller_state_error + agent_evidence list" where
  "final_evidence j =
     traverse (\<lambda>(name, st). ok_or (CE_MissingFinalEvidence name) (ca_final_evidence st)) (cj_agents j)"

subsection \<open>Phases of one agent\<close>

inductive ctl_edge :: "controller_agent_phase \<Rightarrow> controller_agent_phase \<Rightarrow> bool" where
  hello: "ctl_edge Ctl_AwaitingHello Ctl_Preparing"
| ready: "ctl_edge Ctl_Preparing Ctl_Ready"
| start: "ctl_edge Ctl_Ready Ctl_Running"
| finish: "ctl_edge Ctl_Running Ctl_Finished"
| fail: "\<not> controller_terminal p \<Longrightarrow> ctl_edge p Ctl_Failed"
| drop: "ctl_edge Ctl_AwaitingHello Ctl_Cancelled"
| cancel: "p \<in> {Ctl_Preparing, Ctl_Ready, Ctl_Running} \<Longrightarrow> ctl_edge p Ctl_Cancelling"
| cancelled: "ctl_edge Ctl_Cancelling Ctl_Cancelled"

code_pred ctl_edge .

inductive_simps ctl_edge_iff: "ctl_edge p q"

fun ctl_rank :: "controller_agent_phase \<Rightarrow> nat" where
  "ctl_rank Ctl_AwaitingHello = 0"
| "ctl_rank Ctl_Preparing = 1"
| "ctl_rank Ctl_Ready = 2"
| "ctl_rank Ctl_Running = 3"
| "ctl_rank Ctl_Cancelling = 4"
| "ctl_rank _ = 5"

interpretation ctl: lifecycle ctl_edge ctl_rank controller_terminal
proof
  show "ctl_edge p q \<Longrightarrow> ctl_rank p < ctl_rank q" for p q
    by (cases p; cases q) (simp_all add: ctl_edge_iff controller_terminal_def)
  show "controller_terminal p \<Longrightarrow> \<not> ctl_edge p q" for p q
    by (cases p; cases q) (simp_all add: ctl_edge_iff controller_terminal_def)
qed

subsection \<open>The invariant of one agent\<close>

abbreviation evidence_of :: "string \<Rightarrow> agent_evidence \<Rightarrow> bool" where
  "evidence_of agent e \<equiv> ev_agent_name e = agent \<and> sh_agent_name (ev_shard e) = agent"

definition agent_ok :: "string \<Rightarrow> string \<Rightarrow> ready_signature option \<Rightarrow> controller_agent \<Rightarrow> bool" where
  "agent_ok job name sig st \<longleftrightarrow>
     pf_job_id (ca_prepare st) = job \<and> sh_agent_name (pf_shard (ca_prepare st)) = name
     \<and> (ca_final_evidence st = None \<longleftrightarrow> ca_phase st \<noteq> Ctl_Finished)
     \<and> pred_option (evidence_of name) (ca_final_evidence st)
     \<and> pred_option (\<lambda>p. evidence_of name (snd p)) (ca_latest_progress st)
     \<and> (ca_latest_progress st \<noteq> None \<longrightarrow> ca_phase st \<notin> {Ctl_AwaitingHello, Ctl_Preparing, Ctl_Ready})
     \<and> (ca_phase st \<in> {Ctl_Ready, Ctl_Running, Ctl_Finished} \<longrightarrow> sig \<noteq> None)
     \<and> (ca_failure st \<noteq> None \<longrightarrow> ca_phase st = Ctl_Failed)"

lemma validate_simps [simp]:
  "validate_job expected got = Inr u \<longleftrightarrow> expected = got"
  "validate_evidence_agent name e = Inr u \<longleftrightarrow> evidence_of name e"
  by (simp_all add: validate_job_def validate_evidence_agent_def fail_if_Inr_iff)

lemma validate_self [simp]: "validate_job job job = Inr ()"
  by (simp add: validate_job_def)

lemma validate_evidence_self [simp]: "evidence_of agent e \<Longrightarrow> validate_evidence_agent agent e = Inr ()"
  by (simp add: validate_evidence_agent_def)

text \<open>What accepting a message can do to the agent's state.\<close>

inductive agent_step ::
  "string \<Rightarrow> string \<Rightarrow> controller_agent \<times> ready_signature option
     \<Rightarrow> controller_agent \<times> ready_signature option \<Rightarrow> bool" for job agent where
  same: "agent_step job agent (st, sig) (st, sig)"
| hello: "ca_phase st = Ctl_AwaitingHello \<Longrightarrow>
    agent_step job agent (st, sig) (st\<lparr>ca_phase := Ctl_Preparing\<rparr>, sig)"
| ready: "ca_phase st = Ctl_Preparing \<Longrightarrow> sig' \<noteq> None \<Longrightarrow> sig = None \<or> sig' = sig \<Longrightarrow>
    agent_step job agent (st, sig) (st\<lparr>ca_phase := Ctl_Ready\<rparr>, sig')"
| unready: "ca_phase st = Ctl_Preparing \<Longrightarrow>
    agent_step job agent (st, sig) (st\<lparr>ca_phase := Ctl_Failed\<rparr>, sig)"
| progress: "ca_phase st = Ctl_Running \<Longrightarrow> evidence_of agent e \<Longrightarrow>
    (case ca_latest_progress st of None \<Rightarrow> True | Some (k, _) \<Rightarrow> k < n) \<Longrightarrow>
    agent_step job agent (st, sig) (st\<lparr>ca_latest_progress := Some (n, e)\<rparr>, sig)"
| finished: "ca_phase st = Ctl_Running \<Longrightarrow> evidence_of agent e \<Longrightarrow>
    agent_step job agent (st, sig)
      (st\<lparr>ca_final_evidence := Some e, ca_phase := Ctl_Finished\<rparr>, sig)"
| cancelled: "ca_phase st = Ctl_Cancelling \<Longrightarrow>
    agent_step job agent (st, sig) (st\<lparr>ca_phase := Ctl_Cancelled\<rparr>, sig)"
| failed: "\<not> controller_terminal (ca_phase st) \<Longrightarrow> xf_job_id f = job \<Longrightarrow>
    agent_step job agent (st, sig) (st\<lparr>ca_failure := Some f, ca_phase := Ctl_Failed\<rparr>, sig)"

inductive_cases agent_stepE: "agent_step job agent (st, sig) (st', sig')"

lemma on_ready_step:
  assumes "ca_phase st = Ctl_Preparing" "on_ready job agent sig st f = ((st', sig'), r)"
  shows "agent_step job agent (st, sig) (st', sig')"
  using assms(2)
  by (auto simp: on_ready_def split: sum.splits if_splits option.splits prod.splits
      intro: agent_step.intros assms(1))

lemma on_progress_step:
  assumes "ca_phase st = Ctl_Running" "on_progress job agent st f = (st', r)"
  shows "agent_step job agent (st, sig) (st', sig)"
  using assms by (auto simp: on_progress_def split: sum.splits if_splits intro: agent_step.intros)

lemma on_finished_step:
  assumes "ca_phase st = Ctl_Running" "on_finished job agent st f = (st', r)"
  shows "agent_step job agent (st, sig) (st', sig)"
  using assms
  by (auto simp: on_finished_def split: sum.splits intro: agent_step.intros)

lemma accept_message_step:
  assumes "accept_message job agent sig st m = ((st', sig'), r)"
  shows "agent_step job agent (st, sig) (st', sig')"
proof (cases m)
  case (Msg_Hello f)
  then show ?thesis using assms
    by (auto simp: accept_message_def on_hello_def split: if_splits sum.splits intro: agent_step.intros)
next
  case (Msg_Ready f)
  then show ?thesis using assms
    by (auto simp: accept_message_def split: if_splits intro: agent_step.same on_ready_step)
next
  case (Msg_Progress f)
  then show ?thesis using assms
    by (auto simp: accept_message_def split: if_splits prod.splits intro: agent_step.same on_progress_step)
next
  case (Msg_Finished f)
  then show ?thesis using assms
    by (auto simp: accept_message_def split: if_splits prod.splits intro: agent_step.same on_finished_step)
next
  case (Msg_Cancelled f)
  then show ?thesis using assms
    by (auto simp: accept_message_def split: if_splits sum.splits intro: agent_step.intros)
next
  case (Msg_Failed f)
  then show ?thesis using assms
    by (auto simp: accept_message_def split: if_splits sum.splits intro: agent_step.intros)
qed (use assms in \<open>auto simp: accept_message_def split: if_splits intro: agent_step.same\<close>)

text \<open>A step keeps the invariant and stays or moves along an edge.\<close>

lemma agent_step_ok:
  "agent_step job agent (st, sig) (st', sig') \<Longrightarrow> agent_ok job agent sig st \<Longrightarrow> agent_ok job agent sig' st'"
  by (erule agent_stepE) (auto simp: agent_ok_def controller_terminal_def)

lemma agent_step_moves:
  "agent_step job agent (st, sig) (st', sig') \<Longrightarrow> ctl.stays_or_moves (ca_phase st) (ca_phase st')"
  by (erule agent_stepE) (auto simp: ctl.stays_or_moves_def ctl_edge_iff controller_terminal_def)

lemma agent_step_sig:
  "agent_step job agent (st, sig) (st', sig') \<Longrightarrow> sig' = sig \<or> sig = None"
  by (erule agent_stepE) auto

lemma agent_ok_sig: "agent_ok job name sig st \<Longrightarrow> sig' = sig \<or> sig = None \<Longrightarrow> agent_ok job name sig' st"
  by (auto simp: agent_ok_def)

subsection \<open>The cohort\<close>

datatype ctl_event =
    Ctl_Frame string wire_frame
  | Ctl_Start u64
  | Ctl_Cancel string

fun ctl_apply :: "controller_job \<Rightarrow> ctl_event \<Rightarrow> controller_job" where
  "ctl_apply j (Ctl_Frame agent frame) = fst (controller_accept j agent frame)"
| "ctl_apply j (Ctl_Start ms) = fst (start_all j ms)"
| "ctl_apply j (Ctl_Cancel reason) = fst (cancel_all j reason)"

inductive ctl_reachable :: "prepare_frame list \<Rightarrow> controller_job \<Rightarrow> bool" for prepares where
  init: "controller_new prepares = Inr j \<Longrightarrow> ctl_reachable prepares j"
| step: "ctl_reachable prepares j \<Longrightarrow> ctl_reachable prepares (ctl_apply j e)"

definition before_start :: "controller_agent_phase set" where
  "before_start = {Ctl_AwaitingHello, Ctl_Preparing, Ctl_Ready}"

definition released :: "controller_agent_phase set" where
  "released = {Ctl_Running, Ctl_Finished}"

definition job_agents_ok :: "controller_job \<Rightarrow> bool" where
  "job_agents_ok j \<longleftrightarrow> (\<forall>name st. bt_get (cj_agents j) name = Some st \<longrightarrow>
     agent_ok (cj_job_id j) name (cj_ready_signature j) st)"

definition start_barrier :: "controller_job \<Rightarrow> bool" where
  "start_barrier j \<longleftrightarrow> (\<forall>a b s t. bt_get (cj_agents j) a = Some s \<and> bt_get (cj_agents j) b = Some t
     \<and> ca_phase s \<in> released \<longrightarrow> ca_phase t \<notin> before_start)"

lemma accept_cases:
  obtains "controller_accept j agent frame = (j, Inl (CE_UnsupportedProtocol (wf_protocol frame)))"
  | "controller_accept j agent frame = (j, Inl (CE_UnknownAgent agent))"
  | st st' sig' r where "bt_get (cj_agents j) agent = Some st"
      "accept_message (cj_job_id j) agent (cj_ready_signature j) st (wf_message frame) = ((st', sig'), r)"
      "agent_step (cj_job_id j) agent (st, cj_ready_signature j) (st', sig')"
      "controller_accept j agent frame
         = (j\<lparr>cj_agents := bt_adjust agent (\<lambda>_. st') (cj_agents j), cj_ready_signature := sig'\<rparr>, r)"
proof (cases "wf_protocol frame = WIRE_PROTOCOL")
  case ok: True
  show thesis
  proof (cases "bt_get (cj_agents j) agent")
    case None
    then show thesis using that(2) ok by (simp add: controller_accept_def)
  next
    case (Some st)
    obtain st' sig' r where m:
      "accept_message (cj_job_id j) agent (cj_ready_signature j) st (wf_message frame) = ((st', sig'), r)"
      by (metis prod.collapse)
    then show thesis
      using that(3) [OF Some m accept_message_step [OF m]] ok Some by (simp add: controller_accept_def)
  qed
next
  case False
  then show thesis using that(1) by (simp add: controller_accept_def)
qed

lemma agent_step_released:
  "agent_step job agent (st, sig) (st', sig') \<Longrightarrow> ca_phase st' \<in> released \<Longrightarrow> ca_phase st \<in> released"
  by (erule agent_stepE) (auto simp: released_def)

lemma agent_step_before:
  "agent_step job agent (st, sig) (st', sig') \<Longrightarrow> ca_phase st' \<in> before_start \<Longrightarrow> ca_phase st \<in> before_start"
  by (erule agent_stepE) (auto simp: before_start_def)

text \<open>One induction over the operations: what holds of every step of every agent.\<close>

lemma ctl_apply_cases:
  obtains (same) "ctl_apply j e = j"
  | (frame) agent st st' sig' where "bt_get (cj_agents j) agent = Some st"
      "agent_step (cj_job_id j) agent (st, cj_ready_signature j) (st', sig')"
      "ctl_apply j e = j\<lparr>cj_agents := bt_adjust agent (\<lambda>_. st') (cj_agents j), cj_ready_signature := sig'\<rparr>"
  | (start) "all_ready j"
      "ctl_apply j e = j\<lparr>cj_agents := bt_map (\<lambda>_ st. st\<lparr>ca_phase := Ctl_Running\<rparr>) (cj_agents j)\<rparr>"
  | (cancel) "ctl_apply j e = j\<lparr>cj_agents := bt_map (\<lambda>_. cancel_agent) (cj_agents j)\<rparr>"
proof (cases e)
  case (Ctl_Frame agent frame)
  show thesis
    using accept_cases [of j agent frame] that(1,2) unfolding Ctl_Frame ctl_apply.simps by (metis fst_conv)
next
  case (Ctl_Start ms)
  then show thesis using that(1,3) by (cases "all_ready j") (simp_all add: start_all_def)
next
  case (Ctl_Cancel reason)
  then show thesis using that(4) by (simp add: cancel_all_def)
qed

lemma all_ready_get:
  "bt_wf (cj_agents j) \<Longrightarrow> all_ready j \<Longrightarrow> bt_get (cj_agents j) name = Some st \<Longrightarrow> ca_phase st = Ctl_Ready"
  using bt_wf_get_mem by (fastforce simp: all_ready_def list_all_iff)

lemma cancel_agent_ok: "agent_ok job name sig st \<Longrightarrow> agent_ok job name sig (cancel_agent st)"
  by (auto simp: cancel_agent_def agent_ok_def controller_terminal_def)

lemma cancel_agent_moves: "ctl.stays_or_moves (ca_phase st) (ca_phase (cancel_agent st))"
  by (cases "ca_phase st") (auto simp: cancel_agent_def ctl.stays_or_moves_def ctl_edge_iff controller_terminal_def)

lemma start_agent_ok:
  "agent_ok job name sig st \<Longrightarrow> ca_phase st = Ctl_Ready \<Longrightarrow> agent_ok job name sig (st\<lparr>ca_phase := Ctl_Running\<rparr>)"
  by (auto simp: agent_ok_def)

definition job_inv :: "controller_job \<Rightarrow> bool" where
  "job_inv j \<longleftrightarrow> bt_wf (cj_agents j) \<and> cj_agents j \<noteq> [] \<and> job_agents_ok j \<and> start_barrier j"

lemma job_inv_apply [wf_pres]:
  assumes "job_inv j"
  shows "job_inv (ctl_apply j e)"
proof -
  have wf: "bt_wf (cj_agents j)" and ne: "cj_agents j \<noteq> []" and barrier: "start_barrier j"
    and ok: "\<And>name st. bt_get (cj_agents j) name = Some st \<Longrightarrow>
        agent_ok (cj_job_id j) name (cj_ready_signature j) st"
    using assms by (auto simp: job_inv_def job_agents_ok_def)
  show ?thesis
  proof (rule ctl_apply_cases [of j e])
    assume "ctl_apply j e = j"
    then show ?thesis using assms by simp
  next
    fix agent st st' sig'
    let ?j' = "j\<lparr>cj_agents := bt_adjust agent (\<lambda>_. st') (cj_agents j), cj_ready_signature := sig'\<rparr>"
    assume st: "bt_get (cj_agents j) agent = Some st"
      and step: "agent_step (cj_job_id j) agent (st, cj_ready_signature j) (st', sig')"
      and j': "ctl_apply j e = ?j'"
    have get: "bt_get (cj_agents ?j') name = (if name = agent then Some st' else bt_get (cj_agents j) name)" for name
      using st by simp
    have "job_agents_ok ?j'"
      using agent_step_ok [OF step ok [OF st]] agent_ok_sig [OF ok agent_step_sig [OF step]]
      unfolding job_agents_ok_def get by auto
    moreover have "start_barrier ?j'"
      unfolding start_barrier_def
    proof (intro allI impI)
      fix a b s t
      assume "bt_get (cj_agents ?j') a = Some s \<and> bt_get (cj_agents ?j') b = Some t \<and> ca_phase s \<in> released"
      then have s: "(if a = agent then Some st' else bt_get (cj_agents j) a) = Some s"
        and t: "(if b = agent then Some st' else bt_get (cj_agents j) b) = Some t"
        and rel: "ca_phase s \<in> released" unfolding get by blast+
      have "\<exists>s0. bt_get (cj_agents j) a = Some s0 \<and> ca_phase s0 \<in> released"
        using s rel st agent_step_released [OF step] by (auto split: if_splits)
      moreover have "\<exists>t0. bt_get (cj_agents j) b = Some t0
          \<and> (ca_phase t \<in> before_start \<longrightarrow> ca_phase t0 \<in> before_start)"
        using t st agent_step_before [OF step] by (auto split: if_splits)
      ultimately show "ca_phase t \<notin> before_start"
        using barrier unfolding start_barrier_def by blast
    qed
    moreover have "cj_agents ?j' \<noteq> []" using ne by (simp add: bt_adjust_def)
    ultimately show ?thesis unfolding j' using wf by (simp add: job_inv_def)
  next
    let ?j' = "j\<lparr>cj_agents := bt_map (\<lambda>_ st. st\<lparr>ca_phase := Ctl_Running\<rparr>) (cj_agents j)\<rparr>"
    assume all: "all_ready j" and j': "ctl_apply j e = ?j'"
    have "job_agents_ok ?j'"
      using start_agent_ok ok all_ready_get [OF wf all] by (auto simp: job_agents_ok_def)
    moreover have "start_barrier ?j'" by (auto simp: start_barrier_def before_start_def)
    ultimately show ?thesis unfolding j' using wf ne by (simp add: job_inv_def)
  next
    let ?j' = "j\<lparr>cj_agents := bt_map (\<lambda>_. cancel_agent) (cj_agents j)\<rparr>"
    assume j': "ctl_apply j e = ?j'"
    have "job_agents_ok ?j'" using cancel_agent_ok ok by (auto simp: job_agents_ok_def)
    moreover have "ca_phase (cancel_agent st) \<notin> before_start" for st
      by (cases "ca_phase st") (simp_all add: cancel_agent_def before_start_def controller_terminal_def)
    then have "start_barrier ?j'" by (auto simp: start_barrier_def)
    ultimately show ?thesis unfolding j' using wf ne by (simp add: job_inv_def)
  qed
qed

lemma insert_prepare_ok:
  assumes "try_fold (insert_prepare job) [] ps = Inr agents"
  shows "bt_wf agents \<and> set (bt_keys agents) = set (map (\<lambda>p. sh_agent_name (pf_shard p)) ps)
     \<and> distinct (map (\<lambda>p. sh_agent_name (pf_shard p)) ps)
     \<and> list_all (\<lambda>p. pf_job_id p = job) ps
     \<and> (\<forall>name st. bt_get agents name = Some st \<longrightarrow> (\<exists>p \<in> set ps. st = controller_agent_new p
          \<and> name = sh_agent_name (pf_shard p)))"
  using assms
proof (rule try_fold_inv [where I = "\<lambda>ps agents. bt_wf agents
     \<and> set (bt_keys agents) = set (map (\<lambda>p. sh_agent_name (pf_shard p)) ps)
     \<and> distinct (map (\<lambda>p. sh_agent_name (pf_shard p)) ps) \<and> list_all (\<lambda>p. pf_job_id p = job) ps
     \<and> (\<forall>name st. bt_get agents name = Some st \<longrightarrow> (\<exists>p \<in> set ps. st = controller_agent_new p
          \<and> name = sh_agent_name (pf_shard p)))"])
  fix don m p m'
  assume inv: "bt_wf m \<and> set (bt_keys m) = set (map (\<lambda>p. sh_agent_name (pf_shard p)) don)
     \<and> distinct (map (\<lambda>p. sh_agent_name (pf_shard p)) don) \<and> list_all (\<lambda>p. pf_job_id p = job) don
     \<and> (\<forall>name st. bt_get m name = Some st \<longrightarrow> (\<exists>p \<in> set don. st = controller_agent_new p
          \<and> name = sh_agent_name (pf_shard p)))"
    and "insert_prepare job m p = Inr m'"
  then have p: "pf_job_id p = job" "bt_get m (sh_agent_name (pf_shard p)) = None"
    and m': "m' = bt_insert (sh_agent_name (pf_shard p)) (controller_agent_new p) m"
    by (auto simp: insert_prepare_def Let_def result_iffs)
  have "set (bt_keys m') = insert (sh_agent_name (pf_shard p)) (set (bt_keys m))"
    by (simp add: m' keys_bt_insert)
  moreover have "sh_agent_name (pf_shard p) \<notin> set (bt_keys m)"
    using p(2) by (simp add: map_of_eq_None_iff)
  ultimately show "bt_wf m' \<and> set (bt_keys m') = set (map (\<lambda>p. sh_agent_name (pf_shard p)) (don @ [p]))
     \<and> distinct (map (\<lambda>p. sh_agent_name (pf_shard p)) (don @ [p])) \<and> list_all (\<lambda>p. pf_job_id p = job) (don @ [p])
     \<and> (\<forall>name st. bt_get m' name = Some st \<longrightarrow> (\<exists>p \<in> set (don @ [p]). st = controller_agent_new p
          \<and> name = sh_agent_name (pf_shard p)))"
    using inv p(1) by (auto simp: m')
qed simp_all

lemma agent_new_ok:
  "agent_ok (pf_job_id p) (sh_agent_name (pf_shard p)) sig (controller_agent_new p)"
  by (simp add: agent_ok_def controller_agent_new_def)

lemma controller_new_agents:
  assumes "controller_new prepares = Inr j" "bt_get (cj_agents j) name = Some st"
  shows "\<exists>p \<in> set prepares. st = controller_agent_new p \<and> name = sh_agent_name (pf_shard p)"
proof -
  obtain first rest where "prepares = first # rest"
    "try_fold (insert_prepare (pf_job_id first)) [] prepares = Inr (cj_agents j)"
    using assms(1) by (cases prepares) (auto simp: controller_new_def and_then_Inr_iff simp del: try_fold.simps)
  then show ?thesis using insert_prepare_ok assms(2) by blast
qed

lemma controller_new_phase:
  "controller_new prepares = Inr j \<Longrightarrow> bt_get (cj_agents j) name = Some st \<Longrightarrow> ca_phase st = Ctl_AwaitingHello"
  using controller_new_agents by (fastforce simp: controller_agent_new_def)

lemma controller_new_inv:
  assumes "controller_new prepares = Inr j"
  shows "job_inv j"
proof -
  obtain first rest agents where ps: "prepares = first # rest"
    and fold: "try_fold (insert_prepare (pf_job_id first)) [] prepares = Inr agents"
    and j: "j = \<lparr>cj_job_id = pf_job_id first, cj_agents = agents, cj_ready_signature = None\<rparr>"
    using assms by (cases prepares) (auto simp: controller_new_def and_then_Inr_iff simp del: try_fold.simps)
  note ok = insert_prepare_ok [OF fold]
  have "agents \<noteq> []" using ok ps by auto
  moreover have st: "\<exists>p \<in> set prepares. st = controller_agent_new p \<and> name = sh_agent_name (pf_shard p)
      \<and> pf_job_id p = pf_job_id first" if "bt_get agents name = Some st" for name st
    using ok that by (fastforce simp: list_all_iff)
  have "job_agents_ok j"
    unfolding job_agents_ok_def
  proof (intro allI impI)
    fix name st assume "bt_get (cj_agents j) name = Some st"
    then obtain p where "st = controller_agent_new p" "name = sh_agent_name (pf_shard p)"
      "pf_job_id p = pf_job_id first" using st by (auto simp: j)
    then show "agent_ok (cj_job_id j) name (cj_ready_signature j) st"
      using agent_new_ok [of p None] by (simp add: j)
  qed
  moreover have "start_barrier j"
    using st unfolding start_barrier_def j released_def controller_agent_new_def by fastforce
  ultimately show ?thesis using ok by (simp add: job_inv_def j)
qed

lemma ctl_reachable_inv: "ctl_reachable prepares j \<Longrightarrow> job_inv j"
  by (induction rule: ctl_reachable.induct) (auto intro: controller_new_inv job_inv_apply)

lemma ctl_apply_keys [simp]: "bt_keys (cj_agents (ctl_apply j e)) = bt_keys (cj_agents j)"
  by (rule ctl_apply_cases [of j e]) simp_all

lemma ctl_apply_job [simp]: "cj_job_id (ctl_apply j e) = cj_job_id j"
  by (rule ctl_apply_cases [of j e]) simp_all

lemma ctl_apply_agent:
  assumes "bt_wf (cj_agents j)" "bt_get (cj_agents j) name = Some st"
  shows "\<exists>st'. bt_get (cj_agents (ctl_apply j e)) name = Some st'
     \<and> ctl.stays_or_moves (ca_phase st) (ca_phase st')"
proof (rule ctl_apply_cases [of j e])
  assume "ctl_apply j e = j"
  then show ?thesis using assms(2) by (simp add: ctl.stays_or_moves_def)
next
  fix agent s s' sig'
  assume "bt_get (cj_agents j) agent = Some s"
    "agent_step (cj_job_id j) agent (s, cj_ready_signature j) (s', sig')"
    "ctl_apply j e = j\<lparr>cj_agents := bt_adjust agent (\<lambda>_. s') (cj_agents j), cj_ready_signature := sig'\<rparr>"
  then show ?thesis
    using assms(2) agent_step_moves by (cases "name = agent") (auto simp: ctl.stays_or_moves_def)
next
  assume "all_ready j"
    "ctl_apply j e = j\<lparr>cj_agents := bt_map (\<lambda>_ st. st\<lparr>ca_phase := Ctl_Running\<rparr>) (cj_agents j)\<rparr>"
  then show ?thesis
    using assms all_ready_get [OF assms(1)] by (simp add: ctl.stays_or_moves_def ctl_edge_iff)
next
  assume "ctl_apply j e = j\<lparr>cj_agents := bt_map (\<lambda>_. cancel_agent) (cj_agents j)\<rparr>"
  then show ?thesis using assms(2) cancel_agent_moves by simp
qed

subsection \<open>Histories\<close>

primrec ctl_run :: "controller_job \<Rightarrow> ctl_event list \<Rightarrow> controller_job" where
  "ctl_run j [] = j"
| "ctl_run j (e # es) = ctl_run (ctl_apply j e) es"

text \<open>The phases one agent goes through while the events happen.\<close>

primrec ctl_trace :: "string \<Rightarrow> controller_job \<Rightarrow> ctl_event list \<Rightarrow> controller_agent_phase list" where
  "ctl_trace name j [] = (case controller_phase j name of None \<Rightarrow> [] | Some p \<Rightarrow> [p])"
| "ctl_trace name j (e # es) =
     (case controller_phase j name of None \<Rightarrow> [] | Some p \<Rightarrow> [p]) @ ctl_trace name (ctl_apply j e) es"

lemma ctl_reachable_run: "ctl_reachable prepares j \<Longrightarrow> ctl_reachable prepares (ctl_run j es)"
  by (induction es arbitrary: j) (auto intro: ctl_reachable.step)

lemma ctl_trace_run:
  assumes "job_inv j" "controller_phase j name = Some p"
  shows "ctl.run (ctl_trace name j es) \<and> hd (ctl_trace name j es) = p \<and> ctl_trace name j es \<noteq> []
     \<and> controller_phase (ctl_run j es) name = Some (last (ctl_trace name j es))"
  using assms
proof (induction es arbitrary: j p)
  case (Cons e es)
  obtain st where st: "bt_get (cj_agents j) name = Some st" "ca_phase st = p"
    using Cons.prems(2) by (auto simp: controller_phase_def)
  have "bt_wf (cj_agents j)" using Cons.prems(1) by (simp add: job_inv_def)
  from ctl_apply_agent [OF this st(1), of e] obtain st' where
    st': "bt_get (cj_agents (ctl_apply j e)) name = Some st'" "ctl.stays_or_moves p (ca_phase st')"
    using st(2) by blast
  have "controller_phase (ctl_apply j e) name = Some (ca_phase st')"
    using st'(1) by (simp add: controller_phase_def)
  note IH = Cons.IH [OF job_inv_apply [OF Cons.prems(1)] this]
  then obtain rest where "ctl_trace name (ctl_apply j e) es = ca_phase st' # rest"
    by (metis list.collapse)
  with IH st'(2) Cons.prems(2) show ?case by simp
qed simp

lemma ctl_rank_le: "ctl_rank p \<le> 5"
  by (cases p) simp_all

subsection \<open>Progress replacement\<close>

definition progress_latest ::
  "(u64 \<times> agent_evidence) option \<Rightarrow> progress_frame list \<Rightarrow> (u64 \<times> agent_evidence) option" where
  "progress_latest = foldl (\<lambda>cur f. if (case cur of None \<Rightarrow> True | Some (k, _) \<Rightarrow> k < gf_sequence f)
     then Some (gf_sequence f, gf_evidence f) else cur)"

definition progress_valid :: "string \<Rightarrow> string \<Rightarrow> progress_frame \<Rightarrow> bool" where
  "progress_valid job agent f \<longleftrightarrow> gf_job_id f = job \<and> evidence_of agent (gf_evidence f)"

abbreviation progress_event :: "string \<Rightarrow> progress_frame \<Rightarrow> ctl_event" where
  "progress_event agent f \<equiv> Ctl_Frame agent (wire_frame_new (Msg_Progress f))"

lemma progress_run:
  assumes "bt_get (cj_agents j) agent = Some st" "ca_phase st = Ctl_Running"
    and "list_all (progress_valid (cj_job_id j) agent) fs"
  shows "bt_get (cj_agents (ctl_run j (map (progress_event agent) fs))) agent
     = Some (st\<lparr>ca_latest_progress := progress_latest (ca_latest_progress st) fs\<rparr>)"
  using assms
proof (induction fs arbitrary: j st)
  case Nil
  then show ?case by (simp add: progress_latest_def)
next
  case (Cons f fs)
  let ?j = "ctl_apply j (progress_event agent f)"
  let ?st = "st\<lparr>ca_latest_progress := progress_latest (ca_latest_progress st) [f]\<rparr>"
  have "accept_message (cj_job_id j) agent (cj_ready_signature j) st (Msg_Progress f)
      = ((?st, cj_ready_signature j), Inr None)"
    using Cons.prems(2,3)
    by (auto simp: accept_message_def on_progress_def progress_latest_def progress_valid_def)
  then have get: "bt_get (cj_agents ?j) agent = Some ?st"
    using Cons.prems(1) by (simp add: controller_accept_def)
  have "list_all (progress_valid (cj_job_id ?j) agent) fs"
    using Cons.prems(3) unfolding ctl_apply_job by simp
  from Cons.IH [OF get _ this] Cons.prems(2) show ?case
    by (simp add: progress_latest_def del: ctl_apply.simps)
qed

lemma progress_latest_max:
  assumes "progress_latest cur fs = Some (n, e)"
  shows "(\<forall>f \<in> set fs. gf_sequence f \<le> n) \<and> (\<forall>k x. cur = Some (k, x) \<longrightarrow> k \<le> n)
     \<and> (cur = Some (n, e) \<or> (\<exists>f \<in> set fs. gf_sequence f = n \<and> gf_evidence f = e))"
  using assms
proof (induction fs arbitrary: cur)
  case Nil
  then show ?case by (simp add: progress_latest_def)
next
  case (Cons f fs)
  let ?c = "if (case cur of None \<Rightarrow> True | Some (k, _) \<Rightarrow> k < gf_sequence f)
     then Some (gf_sequence f, gf_evidence f) else cur"
  have "progress_latest ?c fs = Some (n, e)" using Cons.prems by (simp add: progress_latest_def)
  note IH = Cons.IH [OF this]
  show ?case
  proof (cases cur)
    case None
    then show ?thesis using IH by auto
  next
    case (Some p)
    then show ?thesis using IH by (cases p) (auto split: if_splits)
  qed
qed

lemma progress_latest_keep: "\<exists>p. progress_latest (Some c) fs = Some p"
  by (induction fs arbitrary: c) (auto simp: progress_latest_def)

lemma progress_latest_Some: "fs \<noteq> [] \<Longrightarrow> \<exists>p. progress_latest cur fs = Some p"
  using progress_latest_keep
  by (cases fs; cases cur) (auto simp: progress_latest_def split: if_splits)

subsection \<open>Final evidence\<close>

lemma job_inv_get:
  assumes "job_inv j" "(name, st) \<in> set (cj_agents j)"
  shows "bt_get (cj_agents j) name = Some st" "agent_ok (cj_job_id j) name (cj_ready_signature j) st"
proof -
  show get: "bt_get (cj_agents j) name = Some st"
    using assms bt_wf_get_mem [of "cj_agents j" name st] unfolding job_inv_def by blast
  then show "agent_ok (cj_job_id j) name (cj_ready_signature j) st"
    using assms(1) unfolding job_inv_def job_agents_ok_def by blast
qed

lemma final_evidence_Inr_iff:
  "final_evidence j = Inr evs \<longleftrightarrow> map (\<lambda>(_, st). ca_final_evidence st) (cj_agents j) = map Some evs"
proof -
  have "map (\<lambda>(name, st). ok_or (CE_MissingFinalEvidence name) (ca_final_evidence st)) m = map Inr evs
      \<longleftrightarrow> map (\<lambda>(_, st). ca_final_evidence st) m = map Some evs" for m :: "(string \<times> controller_agent) list"
  proof (induction m arbitrary: evs)
    case (Cons a m)
    then show ?case by (cases a; cases evs) (simp_all add: ok_or_Inr_iff)
  qed simp
  then show ?thesis by (simp add: final_evidence_def traverse_Inr_iff)
qed

lemma final_evidence_names:
  assumes inv: "job_inv j" and evs: "final_evidence j = Inr evs"
  shows "map ev_agent_name evs = bt_keys (cj_agents j)"
    "list_all (\<lambda>e. sh_agent_name (ev_shard e) = ev_agent_name e) evs"
    "list_all (\<lambda>(_, st). ca_phase st = Ctl_Finished) (cj_agents j)"
proof -
  have eq: "map (\<lambda>(_, st). ca_final_evidence st) (cj_agents j) = map Some evs"
    using evs by (simp add: final_evidence_Inr_iff)
  have len: "length evs = length (cj_agents j)" using arg_cong [OF eq, of length] by simp
  have nth: "evidence_of (fst (cj_agents j ! i)) (evs ! i) \<and> ca_phase (snd (cj_agents j ! i)) = Ctl_Finished"
    if i: "i < length evs" for i
  proof -
    have "(fst (cj_agents j ! i), snd (cj_agents j ! i)) \<in> set (cj_agents j)" using i len by simp
    note job_inv_get [OF inv this]
    moreover have "(\<lambda>(_, st). ca_final_evidence st) (cj_agents j ! i) = Some (evs ! i)"
      using arg_cong [OF eq, of "\<lambda>xs. xs ! i"] i len by simp
    ultimately show ?thesis by (simp add: case_prod_beta agent_ok_def)
  qed
  show "map ev_agent_name evs = bt_keys (cj_agents j)"
    using nth len by (intro nth_equalityI) simp_all
  show "list_all (\<lambda>e. sh_agent_name (ev_shard e) = ev_agent_name e) evs"
    using nth by (simp add: list_all_length)
  show "list_all (\<lambda>(_, st). ca_phase st = Ctl_Finished) (cj_agents j)"
    using nth len by (simp add: list_all_length case_prod_beta)
qed

lemma final_evidence_total:
  assumes "job_inv j" "list_all (\<lambda>(_, st). ca_phase st = Ctl_Finished) (cj_agents j)"
  shows "\<exists>evs. final_evidence j = Inr evs"
proof -
  have fin: "ca_final_evidence st \<noteq> None" if "(name, st) \<in> set (cj_agents j)" for name st
    using job_inv_get(2) [OF assms(1) that] assms(2) that by (auto simp: agent_ok_def list_all_iff)
  have "map (\<lambda>(_, st). ca_final_evidence st) (cj_agents j)
      = map Some (map (\<lambda>(_, st). the (ca_final_evidence st)) (cj_agents j))"
    using fin by (auto simp: comp_def)
  then show ?thesis unfolding final_evidence_Inr_iff by blast
qed

subsection \<open>Cancellation\<close>

definition ack_cancel :: "controller_job \<Rightarrow> string \<Rightarrow> ctl_event" where
  "ack_cancel j name = Ctl_Frame name (wire_frame_new (Msg_Cancelled
     \<lparr>df_job_id = cj_job_id j, df_reason = ''cancelled''\<rparr>))"

definition cancelling :: "controller_job \<Rightarrow> string list" where
  "cancelling j = map fst (filter (\<lambda>(_, st). ca_phase st = Ctl_Cancelling) (cj_agents j))"

lemma cancel_agent_cancelling:
  "ca_phase (cancel_agent st) = Ctl_Cancelling \<longleftrightarrow>
     \<not> (controller_terminal (ca_phase st) \<or> ca_phase st = Ctl_AwaitingHello)"
  by (cases "ca_phase st") (simp_all add: cancel_agent_def controller_terminal_def)

lemma cancel_agent_terminal:
  "controller_terminal (ca_phase (cancel_agent st)) \<or> ca_phase (cancel_agent st) = Ctl_Cancelling"
  by (cases "ca_phase st") (simp_all add: cancel_agent_def controller_terminal_def)

text \<open>Cancel frames go to exactly the agents that are left cancelling.\<close>

lemma cancel_all_frames: "map fst (snd (cancel_all j reason)) = cancelling (fst (cancel_all j reason))"
proof -
  have "map fst (List.map_filter (\<lambda>(name, st).
        if controller_terminal (ca_phase st) \<or> ca_phase st = Ctl_AwaitingHello then None
        else Some (name, f name)) m)
      = map fst (filter (\<lambda>(_, st). ca_phase st = Ctl_Cancelling) (bt_map (\<lambda>_. cancel_agent) m))"
    for m :: "(string, controller_agent) btree" and f :: "string \<Rightarrow> wire_frame"
    by (induction m) (auto simp: map_filter_simps bt_map_def cancel_agent_cancelling)
  then show ?thesis by (simp add: cancel_all_def cancelling_def)
qed

lemma ack_cancel_step:
  assumes "bt_get (cj_agents j) name = Some st" "ca_phase st = Ctl_Cancelling"
    and "cj_job_id j0 = cj_job_id j"
  shows "bt_get (cj_agents (ctl_apply j (ack_cancel j0 name)))
     = (bt_get (cj_agents j))(name := Some (st\<lparr>ca_phase := Ctl_Cancelled\<rparr>))"
  using assms by (simp add: ack_cancel_def controller_accept_def accept_message_def)

lemma ack_cancel_run:
  assumes "distinct names" "cj_job_id j0 = cj_job_id j"
    and "\<forall>n \<in> set names. \<exists>st. bt_get (cj_agents j) n = Some st \<and> ca_phase st = Ctl_Cancelling"
  shows "bt_get (cj_agents (ctl_run j (map (ack_cancel j0) names))) x =
     (if x \<in> set names then map_option (\<lambda>st. st\<lparr>ca_phase := Ctl_Cancelled\<rparr>) (bt_get (cj_agents j) x)
      else bt_get (cj_agents j) x)"
  using assms
proof (induction names arbitrary: j)
  case (Cons n names)
  let ?j = "ctl_apply j (ack_cancel j0 n)"
  obtain st where st: "bt_get (cj_agents j) n = Some st" "ca_phase st = Ctl_Cancelling"
    using Cons.prems(3) by auto
  note step = ack_cancel_step [OF st Cons.prems(2)]
  have "\<forall>m \<in> set names. \<exists>st. bt_get (cj_agents ?j) m = Some st \<and> ca_phase st = Ctl_Cancelling"
    using Cons.prems(1,3) unfolding step by auto
  moreover have "cj_job_id j0 = cj_job_id ?j" using Cons.prems(2) by simp
  ultimately have "bt_get (cj_agents (ctl_run ?j (map (ack_cancel j0) names))) x =
     (if x \<in> set names then map_option (\<lambda>st. st\<lparr>ca_phase := Ctl_Cancelled\<rparr>) (bt_get (cj_agents ?j) x)
      else bt_get (cj_agents ?j) x)"
    using Cons.IH [of ?j] Cons.prems(1) by simp
  then show ?case using Cons.prems(1) st(1) unfolding step by simp
qed simp

lemma job_inv_values:
  assumes "job_inv j"
  shows "(\<forall>(name, st) \<in> set (cj_agents j). P name st) \<longleftrightarrow>
     (\<forall>name st. bt_get (cj_agents j) name = Some st \<longrightarrow> P name st)"
  using assms by (intro bt_values_all) (simp add: job_inv_def)

lemma cancelling_set:
  assumes "job_inv j"
  shows "distinct (cancelling j)"
    "n \<in> set (cancelling j) \<longleftrightarrow> (\<exists>st. bt_get (cj_agents j) n = Some st \<and> ca_phase st = Ctl_Cancelling)"
proof -
  have wf: "bt_wf (cj_agents j)" using assms by (simp add: job_inv_def)
  then show "distinct (cancelling j)"
    using bt_wf_distinct [OF wf] by (simp add: cancelling_def distinct_map_filter)
  show "n \<in> set (cancelling j) \<longleftrightarrow> (\<exists>st. bt_get (cj_agents j) n = Some st \<and> ca_phase st = Ctl_Cancelling)"
    unfolding bt_wf_get_mem [OF wf, symmetric] by (force simp: cancelling_def)
qed

abbreviation prepare_name :: "prepare_frame \<Rightarrow> string" where
  "prepare_name p \<equiv> sh_agent_name (pf_shard p)"

lemma ctl_reachable_keys:
  "ctl_reachable prepares j \<Longrightarrow>
     bt_keys (cj_agents j) = sort (map prepare_name prepares) \<and> distinct (map prepare_name prepares)"
proof (induction rule: ctl_reachable.induct)
  case (init j)
  then obtain job where fold: "try_fold (insert_prepare job) [] prepares = Inr (cj_agents j)"
    by (cases prepares) (auto simp: controller_new_def and_then_Inr_iff simp del: try_fold.simps)
  have d: "distinct (map prepare_name prepares)" and s: "set (bt_keys (cj_agents j)) = set (map prepare_name prepares)"
    and wf: "bt_wf (cj_agents j)" using insert_prepare_ok [OF fold] by blast+
  have "bt_keys (cj_agents j) = sort (map prepare_name prepares)"
    using wf d s by (intro sorted_distinct_set_unique) (simp_all add: bt_wf_def strict_sorted_iff)
  with d show ?case by blast
qed simp

lemma controller_phase_values:
  assumes "job_inv j"
  shows "list_all (\<lambda>(_, st). ca_phase st = p) (cj_agents j) \<longleftrightarrow>
     (\<forall>a. controller_phase j a \<in> {None, Some p})"
proof -
  have "controller_phase j a \<in> {None, Some p} \<longleftrightarrow>
      (\<forall>st. bt_get (cj_agents j) a = Some st \<longrightarrow> ca_phase st = p)" for a
    by (cases "bt_get (cj_agents j) a") (simp_all add: controller_phase_def)
  then show ?thesis
    using job_inv_values [OF assms, of "\<lambda>_ st. ca_phase st = p"] by (simp add: list_all_iff)
qed

subsection \<open>Properties\<close>

text \<open>
  C7. The start gate is a barrier: in every reachable state of the controller, once some agent is
  running or has finished, no agent is still connecting, preparing or merely ready; the gate opens
  exactly when every agent is ready, and then a start frame for the job goes to every agent.
\<close>

theorem start_gate_is_barrier:
  assumes "ctl_reachable prepares j"
  shows "(\<forall>a b. controller_phase j a \<in> Some ` released \<longrightarrow> controller_phase j b \<notin> Some ` before_start)
     \<and> ((\<exists>frames. snd (start_all j ms) = Inr frames) \<longleftrightarrow> (\<forall>a. controller_phase j a \<in> {None, Some Ctl_Ready}))
     \<and> (snd (start_all j ms) = Inr frames \<longrightarrow>
          frames = map (\<lambda>name. (name, wire_frame_new (Msg_Start
            \<lparr>sf_job_id = cj_job_id j, sf_start_after_ms = ms\<rparr>))) (sort (map prepare_name prepares))
          \<and> (\<forall>a. controller_phase (fst (start_all j ms)) a \<in> {None, Some Ctl_Running}))"
proof -
  have inv: "job_inv j" using assms by (rule ctl_reachable_inv)
  have keys: "bt_keys (cj_agents j) = sort (map prepare_name prepares)"
    using ctl_reachable_keys [OF assms] by blast
  have "controller_phase j b \<notin> Some ` before_start" if "controller_phase j a \<in> Some ` released" for a b
    using inv that unfolding job_inv_def start_barrier_def
    by (fastforce simp: controller_phase_def)
  moreover have "(\<exists>frames. snd (start_all j ms) = Inr frames) \<longleftrightarrow> all_ready j"
    by (simp add: start_all_def)
  moreover have "all_ready j \<longleftrightarrow> (\<forall>a. controller_phase j a \<in> {None, Some Ctl_Ready})"
    unfolding all_ready_def by (rule controller_phase_values [OF inv])
  moreover have "frames = map (\<lambda>name. (name, wire_frame_new (Msg_Start
            \<lparr>sf_job_id = cj_job_id j, sf_start_after_ms = ms\<rparr>))) (sort (map prepare_name prepares))
      \<and> (\<forall>a. controller_phase (fst (start_all j ms)) a \<in> {None, Some Ctl_Running})"
    if "snd (start_all j ms) = Inr frames"
  proof -
    have all: "all_ready j" using that by (simp add: start_all_def split: if_splits)
    then have "controller_phase (fst (start_all j ms)) a \<in> {None, Some Ctl_Running}" for a
      by (cases "bt_get (cj_agents j) a") (simp_all add: start_all_def controller_phase_def)
    with that all show ?thesis
      unfolding keys [symmetric] by (auto simp: start_all_def comp_def case_prod_beta)
  qed
  ultimately show ?thesis by blast
qed

text \<open>
  Final evidence is complete and authentic: in every reachable state it is available exactly
  when all agents finished, and it then holds one result per configured agent, in name order, each
  naming the agent it came from.
\<close>

theorem final_evidence_complete:
  assumes "ctl_reachable prepares j"
  shows "((\<exists>evs. final_evidence j = Inr evs) \<longleftrightarrow> (\<forall>a. controller_phase j a \<in> {None, Some Ctl_Finished}))
     \<and> (final_evidence j = Inr evs \<longrightarrow>
          map ev_agent_name evs = sort (map prepare_name prepares) \<and> distinct (map ev_agent_name evs)
          \<and> list_all (\<lambda>e. sh_agent_name (ev_shard e) = ev_agent_name e) evs)"
proof -
  have inv: "job_inv j" using assms by (rule ctl_reachable_inv)
  note keys = ctl_reachable_keys [OF assms]
  have "(\<exists>evs. final_evidence j = Inr evs) \<longleftrightarrow> list_all (\<lambda>(_, st). ca_phase st = Ctl_Finished) (cj_agents j)"
    using final_evidence_total [OF inv] final_evidence_names(3) [OF inv] by blast
  then show ?thesis
    unfolding controller_phase_values [OF inv]
    using final_evidence_names(1,2) [OF inv, of evs] keys by auto
qed

text \<open>
  An agent's life is a one-way street: along any history of frames, starts and cancellations no
  agent re-enters a phase it has left, a finished, failed or cancelled agent stays so, and an agent
  changes phase at most five times.
\<close>

theorem agent_phases_one_way:
  assumes "ctl_reachable prepares j" and "controller_phase j name = Some p"
  shows "\<exists>q. controller_phase (ctl_run j es) name = Some q \<and> ctl_rank p \<le> ctl_rank q
     \<and> (controller_terminal p \<longrightarrow> q = p)
     \<and> distinct (remdups_adj (ctl_trace name j es))
     \<and> length (remdups_adj (ctl_trace name j es)) \<le> 6"
proof -
  let ?t = "ctl_trace name j es"
  have t: "ctl.run ?t" "hd ?t = p" "?t \<noteq> []" "controller_phase (ctl_run j es) name = Some (last ?t)"
    using ctl_trace_run [OF ctl_reachable_inv [OF assms(1)] assms(2), of es] by blast+
  obtain ps where ps: "?t = p # ps" using t(2,3) by (metis list.collapse)
  have "ctl_rank p \<le> ctl_rank (last ?t)"
    using ctl.run_rank [of p ps "last ps"] t(1) by (cases "ps = []") (simp_all add: ps)
  moreover have "last ?t = p" if "controller_terminal p"
    using ctl.run_terminal [of p ps "last ps"] t(1) that by (cases "ps = []") (simp_all add: ps)
  moreover have "length (remdups_adj ?t) \<le> 6"
    using ctl.run_length [OF t(1) ctl_rank_le] by simp
  ultimately show ?thesis using t(4) ctl.run_distinct [OF t(1)] by blast
qed

text \<open>
  Progress is replaced by sequence number: after any frames of valid progress from a running
  agent, in whatever order and however often repeated, the retained checkpoint is the one with the
  largest sequence number received (or the earlier one, if that was larger).
\<close>

theorem progress_keeps_latest:
  assumes "bt_get (cj_agents j) agent = Some st" and "ca_phase st = Ctl_Running"
    and "list_all (progress_valid (cj_job_id j) agent) fs" and "fs \<noteq> []"
  shows "\<exists>st' n e. bt_get (cj_agents (ctl_run j (map (progress_event agent) fs))) agent = Some st'
     \<and> ca_phase st' = Ctl_Running \<and> ca_latest_progress st' = Some (n, e)
     \<and> (\<forall>f \<in> set fs. gf_sequence f \<le> n) \<and> (\<forall>k x. ca_latest_progress st = Some (k, x) \<longrightarrow> k \<le> n)
     \<and> (ca_latest_progress st = Some (n, e) \<or> (\<exists>f \<in> set fs. gf_sequence f = n \<and> gf_evidence f = e))"
proof -
  obtain n e where p: "progress_latest (ca_latest_progress st) fs = Some (n, e)"
    using progress_latest_Some [OF assms(4)] by (metis surj_pair)
  show ?thesis
    using progress_run [OF assms(1-3)] progress_latest_max [OF p] assms(2)
    by (intro exI [of _ "st\<lparr>ca_latest_progress := Some (n, e)\<rparr>"] exI [of _ n] exI [of _ e]) (simp add: p)
qed

text \<open>
  Cancellation always terminates the cohort: from every reachable state, \<open>cancel_all\<close> leaves
  each agent terminal or cancelling, sends a cancel frame to exactly the cancelling ones, and once
  those have acknowledged, in that order, every agent is terminal.
\<close>

theorem cancel_all_terminates:
  assumes "ctl_reachable prepares j"
  shows "(\<forall>a p. controller_phase (fst (cancel_all j reason)) a = Some p \<longrightarrow>
        controller_terminal p \<or> p = Ctl_Cancelling)
     \<and> map fst (snd (cancel_all j reason)) = cancelling (fst (cancel_all j reason))
     \<and> controller_is_terminal (ctl_run (fst (cancel_all j reason))
          (map (ack_cancel j) (map fst (snd (cancel_all j reason)))))"
proof -
  let ?j = "fst (cancel_all j reason)"
  let ?names = "cancelling ?j"
  have r1: "ctl_reachable prepares ?j" using ctl_reachable.step [OF assms, of "Ctl_Cancel reason"] by simp
  then have inv: "job_inv ?j" by (rule ctl_reachable_inv)
  have phases: "controller_terminal (ca_phase st) \<or> ca_phase st = Ctl_Cancelling"
    if "bt_get (cj_agents ?j) a = Some st" for a st
    using that cancel_agent_terminal by (auto simp: cancel_all_def)
  let ?j2 = "ctl_run ?j (map (ack_cancel j) ?names)"
  have inv2: "job_inv ?j2" using ctl_reachable_run [OF r1] by (rule ctl_reachable_inv)
  have job: "cj_job_id j = cj_job_id ?j" by (simp add: cancel_all_def)
  have get: "bt_get (cj_agents ?j2) x =
      (if x \<in> set ?names then map_option (\<lambda>st. st\<lparr>ca_phase := Ctl_Cancelled\<rparr>) (bt_get (cj_agents ?j) x)
       else bt_get (cj_agents ?j) x)" for x
    using cancelling_set [OF inv] by (intro ack_cancel_run job) auto
  have "controller_terminal (ca_phase st)" if "bt_get (cj_agents ?j2) a = Some st" for a st
  proof (cases "a \<in> set ?names")
    case True
    then show ?thesis using that unfolding get by (auto simp: controller_terminal_def)
  next
    case False
    then have s: "bt_get (cj_agents ?j) a = Some st" using that unfolding get by simp
    then have "ca_phase st \<noteq> Ctl_Cancelling" using False cancelling_set(2) [OF inv] by blast
    with phases [OF s] show ?thesis by blast
  qed
  then have "controller_is_terminal ?j2"
    using job_inv_values [OF inv2, of "\<lambda>_ st. controller_terminal (ca_phase st)"]
    by (simp add: controller_is_terminal_def list_all_iff)
  moreover have "controller_terminal p \<or> p = Ctl_Cancelling" if "controller_phase ?j a = Some p" for a p
    using that phases by (auto simp: controller_phase_def)
  ultimately show ?thesis unfolding cancel_all_frames by blast
qed

subsection \<open>A job of two agents\<close>

definition sample_target :: remote_target where
  "sample_target = \<lparr>rt_transport = Transport_Http, rt_url = ''https://mcp.example.com/'',
     rt_startup_timeout_ms = 1000, rt_protocol_version = None, rt_headers_from_env = [],
     rt_allowed_hosts = [], rt_strict_validation = False, rt_auth = None\<rparr>"

definition sample_prepare :: "string \<Rightarrow> u32 \<Rightarrow> prepare_frame" where
  "sample_prepare name index = \<lparr>pf_job_id = ''job'', pf_config_digest = ''d'', pf_target = sample_target,
     pf_plan = \<lparr>ap_scenario = Scenario_Sustained, ap_concurrency = 2, ap_duration_ms = 1000,
       ap_patterns = [], ap_seed = 7\<rparr>,
     pf_shard = \<lparr>sh_agent_name = name, sh_index = index, sh_agent_count = 2, sh_concurrency = 2\<rparr>,
     pf_heartbeat_interval_ms = 1000\<rparr>"

definition sample_prepares :: "prepare_frame list" where
  "sample_prepares = [sample_prepare ''b'' 1, sample_prepare ''a'' 0]"

definition sample_job :: "controller_agent_phase \<Rightarrow> controller_job" where
  "sample_job p = \<lparr>cj_job_id = ''job'',
     cj_agents = [(''a'', (controller_agent_new (sample_prepare ''a'' 0))\<lparr>ca_phase := p\<rparr>),
       (''b'', (controller_agent_new (sample_prepare ''b'' 1))\<lparr>ca_phase := p\<rparr>)],
     cj_ready_signature = (if p = Ctl_AwaitingHello then None else Some (''2025-06-18'', ''abc''))\<rparr>"

definition sample_hello :: "string \<Rightarrow> ctl_event" where
  "sample_hello name = Ctl_Frame name (wire_frame_new (Msg_Hello \<lparr>hf_agent_name = None,
     hf_binary_version = ''0.2.0'', hf_scenarios = [Scenario_Sustained], hf_max_concurrency = 8\<rparr>))"

definition sample_ready :: "string \<Rightarrow> ctl_event" where
  "sample_ready name = Ctl_Frame name (wire_frame_new (Msg_Ready \<lparr>rf_job_id = ''job'',
     rf_agent_name = name, rf_live_workers = 2, rf_requested_workers = 2,
     rf_tool_inventory_hash = ''abc'', rf_target_protocol_version = ''2025-06-18''\<rparr>))"

definition sample_start :: "ctl_event list" where
  "sample_start = [sample_hello ''a'', sample_hello ''b'', sample_ready ''b'', sample_ready ''a'', Ctl_Start 50]"

lemma sample_new: "controller_new sample_prepares = Inr (sample_job Ctl_AwaitingHello)"
  by (simp add: controller_new_def sample_prepares_def insert_prepare_def sample_prepare_def
      sample_job_def controller_agent_new_def Let_def)

lemma sample_accept_hello:
  assumes "bt_get (cj_agents j) name = Some st" "ca_phase st = Ctl_AwaitingHello"
    "ca_prepare st = sample_prepare name i"
  shows "ctl_apply j (sample_hello name)
     = j\<lparr>cj_agents := bt_adjust name (\<lambda>_. st\<lparr>ca_phase := Ctl_Preparing\<rparr>) (cj_agents j)\<rparr>"
  using assms by (simp add: sample_hello_def controller_accept_def accept_message_def on_hello_def
      validate_hello_def sample_prepare_def)

lemma sample_accept_ready:
  assumes "bt_get (cj_agents j) name = Some st" "ca_phase st = Ctl_Preparing"
    "ca_prepare st = sample_prepare name i" "cj_job_id j = ''job''"
    "cj_ready_signature j \<in> {None, Some (''2025-06-18'', ''abc'')}"
  shows "ctl_apply j (sample_ready name)
     = j\<lparr>cj_agents := bt_adjust name (\<lambda>_. st\<lparr>ca_phase := Ctl_Ready\<rparr>) (cj_agents j),
         cj_ready_signature := Some (''2025-06-18'', ''abc'')\<rparr>"
  using assms by (auto simp: sample_ready_def controller_accept_def accept_message_def on_ready_def
      sample_prepare_def)

lemma sample_started: "ctl_run (sample_job Ctl_AwaitingHello) sample_start = sample_job Ctl_Running"
  by (simp add: sample_start_def sample_accept_hello sample_accept_ready sample_job_def
      controller_agent_new_def start_all_def all_ready_def bt_adjust_def bt_map_def)

lemma sample_running: "ctl_reachable sample_prepares (sample_job Ctl_Running)"
  using ctl_reachable_run [OF ctl_reachable.init [OF sample_new], of sample_start] sample_started by simp

lemma sample_phase: "controller_phase (sample_job p) ''b'' = Some p"
  by (simp add: controller_phase_def sample_job_def)

lemma start_gate_is_barrier_witness:
  "ctl_reachable sample_prepares (sample_job Ctl_Running)
     \<and> controller_phase (sample_job Ctl_Running) ''b'' = Some Ctl_Running
     \<and> controller_phase (sample_job Ctl_Running) ''a'' \<noteq> Some Ctl_Ready"
proof -
  have "controller_phase (sample_job Ctl_Running) ''b'' \<in> Some ` released"
    by (simp add: sample_phase released_def)
  then have "controller_phase (sample_job Ctl_Running) ''a'' \<notin> Some ` before_start"
    using start_gate_is_barrier [OF sample_running] by blast
  then show ?thesis using sample_running sample_phase by (simp add: before_start_def)
qed

lemma final_evidence_complete_witness:
  "\<not> (\<exists>evs. final_evidence (sample_job Ctl_Running) = Inr evs)"
proof -
  have "controller_phase (sample_job Ctl_Running) ''b'' \<notin> {None, Some Ctl_Finished}"
    by (simp add: sample_phase)
  then show ?thesis using final_evidence_complete [OF sample_running] by blast
qed

lemma agent_phases_one_way_witness:
  "\<exists>q. controller_phase (ctl_run (sample_job Ctl_Running) [Ctl_Cancel ''stop'']) ''b'' = Some q
     \<and> ctl_rank Ctl_Running \<le> ctl_rank q"
  using agent_phases_one_way [OF sample_running sample_phase, of "[Ctl_Cancel ''stop'']"] by blast

lemma cancel_all_terminates_witness:
  "controller_is_terminal (ctl_run (fst (cancel_all (sample_job Ctl_Running) ''stop''))
     (map (ack_cancel (sample_job Ctl_Running)) (map fst (snd (cancel_all (sample_job Ctl_Running) ''stop'')))))"
  using cancel_all_terminates [OF sample_running, of "''stop''"] by blast

definition sample_progress :: "u64 \<Rightarrow> progress_frame" where
  "sample_progress n = \<lparr>gf_job_id = ''job'', gf_sequence = n, gf_evidence =
     \<lparr>ev_agent_name = ''b'',
      ev_shard = \<lparr>sh_agent_name = ''b'', sh_index = 1, sh_agent_count = 2, sh_concurrency = 2\<rparr>,
      ev_metrics = \<lparr>me_latency = \<lparr>he_encoding = [], he_payload = [], he_count = 0\<rparr>,
        me_outcomes = outcome_counts_default\<rparr>,
      ev_per_tool = [], ev_scenario_outcome = scenario_outcome_default,
      ev_measurement_elapsed_ms = n, ev_start_delay_ms = 0,
      ev_target_protocol_version = ''2025-06-18'', ev_tool_inventory_hash = ''abc''\<rparr>\<rparr>"

lemma progress_keeps_latest_witness:
  "\<exists>st e. bt_get (cj_agents (ctl_run (sample_job Ctl_Running)
        (map (progress_event ''b'') [sample_progress 2, sample_progress 5, sample_progress 3]))) ''b'' = Some st
     \<and> ca_latest_progress st = Some (5, e)"
proof -
  let ?fs = "[sample_progress 2, sample_progress 5, sample_progress 3]"
  obtain st where st: "bt_get (cj_agents (sample_job Ctl_Running)) ''b'' = Some st"
    "ca_phase st = Ctl_Running" "ca_latest_progress st = None"
    by (simp add: sample_job_def controller_agent_new_def)
  have "list_all (progress_valid (cj_job_id (sample_job Ctl_Running)) ''b'') ?fs"
    by (simp add: progress_valid_def sample_progress_def sample_job_def)
  from progress_keeps_latest [OF st(1,2) this] obtain st' n e where
    "bt_get (cj_agents (ctl_run (sample_job Ctl_Running) (map (progress_event ''b'') ?fs))) ''b'' = Some st'"
    and n: "ca_latest_progress st' = Some (n, e)" "\<forall>f \<in> set ?fs. gf_sequence f \<le> n"
    "\<exists>f \<in> set ?fs. gf_sequence f = n" using st(3) by auto
  moreover have "n = 5" using n(2,3) by (auto simp: sample_progress_def)
  ultimately show ?thesis by (intro exI [of _ st'] exI [of _ e]) simp
qed

end
