(* ===== verification/Agent.thy ===== *)
theory Agent
  imports Controller "HOL-Library.Sublist"
begin

section \<open>The worker's protocol state\<close>

text \<open>
  \<open>AgentStateMachine\<close> of \<open>crates/distributed/src/state.rs\<close>: the order in which a worker accepts
  controller frames and emits its own, and its conversation with the controller's state.
\<close>

datatype agent_phase =
    Agent_AwaitingPrepare | Agent_Preparing | Agent_Ready | Agent_Running | Agent_Finished
  | Agent_Failed | Agent_Cancelling | Agent_Cancelled

datatype agent_directive =
    Do_Prepare prepare_frame
  | Do_Start start_frame
  | Do_Cancel cancel_frame

datatype agent_state_error =
    AE_UnsupportedProtocol string
  | AE_JobMismatch string string
  | AE_AgentMismatch string string
  | AE_JobNotPrepared
  | AE_WrongPhase agent_phase agent_phase
  | AE_UnexpectedFrame agent_phase string
  | AE_Evidence controller_state_error

record agent_machine =
  am_hello :: hello_frame
  am_phase :: agent_phase
  am_job_id :: "string option"
  am_bound_agent_name :: "string option"

definition agent_new :: "hello_frame \<Rightarrow> agent_machine" where
  "agent_new hello = \<lparr>am_hello = hello, am_phase = Agent_AwaitingPrepare, am_job_id = None,
     am_bound_agent_name = None\<rparr>"

definition agent_hello :: "agent_machine \<Rightarrow> wire_frame" where
  "agent_hello s = wire_frame_new (Msg_Hello (am_hello s))"

subsection \<open>Guards\<close>

definition require_phase :: "agent_phase \<Rightarrow> agent_machine \<Rightarrow> agent_state_error + unit" where
  "require_phase expected s = fail_if (am_phase s \<noteq> expected) (AE_WrongPhase expected (am_phase s))"

definition required_job :: "agent_machine \<Rightarrow> agent_state_error + string" where
  "required_job s = ok_or AE_JobNotPrepared (am_job_id s)"

definition required_agent_name :: "agent_machine \<Rightarrow> agent_state_error + string" where
  "required_agent_name s = ok_or AE_JobNotPrepared (am_bound_agent_name s)"

definition agent_validate_job :: "string \<Rightarrow> agent_machine \<Rightarrow> agent_state_error + unit" where
  "agent_validate_job got s =
     and_then (required_job s) (\<lambda>expected. fail_if (got \<noteq> expected) (AE_JobMismatch expected got))"

text \<open>The operation's result, with the state as it was when a guard failed.\<close>

definition keep_on_error ::
  "agent_machine \<Rightarrow> agent_state_error + agent_machine \<times> 'a \<Rightarrow> agent_machine \<times> (agent_state_error + 'a)" where
  "keep_on_error s r = (case r of Inl e \<Rightarrow> (s, Inl e) | Inr (s', a) \<Rightarrow> (s', Inr a))"

subsection \<open>Operations\<close>

definition agent_accept ::
  "agent_machine \<Rightarrow> wire_frame \<Rightarrow> agent_machine \<times> (agent_state_error + agent_directive)" where
  "agent_accept s frame = keep_on_error s
     (and_then (fail_if (wf_protocol frame \<noteq> WIRE_PROTOCOL)
       (AE_UnsupportedProtocol (wf_protocol frame))) (\<lambda>_.
      let unexpected = Inl (AE_UnexpectedFrame (am_phase s) (message_name (wf_message frame)))
      in case wf_message frame of
        Msg_Prepare p \<Rightarrow>
          if am_phase s = Agent_AwaitingPrepare then
            (let name = sh_agent_name (pf_shard p) in
            and_then (case hf_agent_name (am_hello s) of
                None \<Rightarrow> Inr ()
              | Some pinned \<Rightarrow> fail_if (pinned \<noteq> name) (AE_AgentMismatch pinned name)) (\<lambda>_.
            Inr (s\<lparr>am_job_id := Some (pf_job_id p), am_bound_agent_name := Some name,
                  am_phase := Agent_Preparing\<rparr>, Do_Prepare p)))
          else unexpected
      | Msg_Start start \<Rightarrow>
          if am_phase s = Agent_Ready then
            and_then (agent_validate_job (sf_job_id start) s) (\<lambda>_.
            Inr (s\<lparr>am_phase := Agent_Running\<rparr>, Do_Start start))
          else unexpected
      | Msg_Cancel cancel \<Rightarrow>
          if am_phase s \<notin> {Agent_Finished, Agent_Failed, Agent_Cancelled, Agent_AwaitingPrepare} then
            and_then (agent_validate_job (cf_job_id cancel) s) (\<lambda>_.
            Inr (s\<lparr>am_phase := Agent_Cancelling\<rparr>, Do_Cancel cancel))
          else unexpected
      | _ \<Rightarrow> unexpected))"

definition mark_ready ::
  "agent_machine \<Rightarrow> ready_frame \<Rightarrow> agent_machine \<times> (agent_state_error + wire_frame)" where
  "mark_ready s ready = keep_on_error s
     (and_then (require_phase Agent_Preparing s) (\<lambda>_.
      and_then (agent_validate_job (rf_job_id ready) s) (\<lambda>_.
      and_then (required_agent_name s) (\<lambda>expected.
      and_then (fail_if (rf_agent_name ready \<noteq> expected)
        (AE_AgentMismatch expected (rf_agent_name ready))) (\<lambda>_.
      Inr (s\<lparr>am_phase := Agent_Ready\<rparr>, wire_frame_new (Msg_Ready ready)))))))"

definition agent_check_evidence :: "agent_evidence \<Rightarrow> agent_machine \<Rightarrow> agent_state_error + unit" where
  "agent_check_evidence e s =
     and_then (required_agent_name s) (\<lambda>name.
     case validate_evidence_agent name e of Inl err \<Rightarrow> Inl (AE_Evidence err) | Inr u \<Rightarrow> Inr u)"

definition agent_progress ::
  "agent_machine \<Rightarrow> u64 \<Rightarrow> agent_evidence \<Rightarrow> agent_state_error + wire_frame" where
  "agent_progress s sequence e =
     and_then (require_phase Agent_Running s) (\<lambda>_.
     and_then (agent_check_evidence e s) (\<lambda>_.
     and_then (required_job s) (\<lambda>job.
     Inr (wire_frame_new (Msg_Progress
       \<lparr>gf_job_id = job, gf_sequence = sequence, gf_evidence = e\<rparr>)))))"

definition agent_heartbeat :: "agent_machine \<Rightarrow> u64 \<Rightarrow> agent_state_error + wire_frame" where
  "agent_heartbeat s sequence =
     and_then (fail_if (am_phase s \<notin> {Agent_Preparing, Agent_Ready, Agent_Running})
       (AE_WrongPhase Agent_Running (am_phase s))) (\<lambda>_.
     and_then (required_job s) (\<lambda>job.
     Inr (wire_frame_new (Msg_Heartbeat \<lparr>bf_job_id = job, bf_sequence = sequence\<rparr>))))"

text \<open>
  \<open>finish\<close>, \<open>fail\<close> and \<open>cancelled\<close>: the phase is set before \<open>required_job\<close> is read again in \<open>finish\<close>,
  and after it in the other two.
\<close>

definition agent_finish ::
  "agent_machine \<Rightarrow> agent_evidence \<Rightarrow> agent_machine \<times> (agent_state_error + wire_frame)" where
  "agent_finish s e =
     (case and_then (require_phase Agent_Running s) (\<lambda>_. agent_check_evidence e s) of
        Inl err \<Rightarrow> (s, Inl err)
      | Inr _ \<Rightarrow>
          (let s' = s\<lparr>am_phase := Agent_Finished\<rparr>
           in (s', and_then (required_job s') (\<lambda>job.
             Inr (wire_frame_new (Msg_Finished \<lparr>ff_job_id = job, ff_evidence = e\<rparr>))))))"

definition agent_fail ::
  "agent_machine \<Rightarrow> string \<Rightarrow> string \<Rightarrow> bool \<Rightarrow> agent_machine \<times> (agent_state_error + wire_frame)" where
  "agent_fail s code msg retryable = keep_on_error s
     (and_then (required_job s) (\<lambda>job.
      Inr (s\<lparr>am_phase := Agent_Failed\<rparr>, wire_frame_new (Msg_Failed
        \<lparr>xf_job_id = job, xf_code = code, xf_message = msg, xf_retryable = retryable\<rparr>))))"

definition agent_cancelled ::
  "agent_machine \<Rightarrow> string \<Rightarrow> agent_machine \<times> (agent_state_error + wire_frame)" where
  "agent_cancelled s reason = keep_on_error s
     (and_then (require_phase Agent_Cancelling s) (\<lambda>_.
      and_then (required_job s) (\<lambda>job.
      Inr (s\<lparr>am_phase := Agent_Cancelled\<rparr>, wire_frame_new (Msg_Cancelled
        \<lparr>df_job_id = job, df_reason = reason\<rparr>)))))"

subsection \<open>The worker's lifecycle\<close>

text \<open>
  \<open>fail\<close> has no phase guard: it also leaves \<open>Finished\<close> and \<open>Cancelled\<close>, so \<open>Failed\<close> is the only
  phase nothing leaves.
\<close>

inductive agent_edge :: "agent_phase \<Rightarrow> agent_phase \<Rightarrow> bool" where
  prepare: "agent_edge Agent_AwaitingPrepare Agent_Preparing"
| ready: "agent_edge Agent_Preparing Agent_Ready"
| start: "agent_edge Agent_Ready Agent_Running"
| finish: "agent_edge Agent_Running Agent_Finished"
| cancel: "p \<in> {Agent_Preparing, Agent_Ready, Agent_Running} \<Longrightarrow> agent_edge p Agent_Cancelling"
| cancelled: "agent_edge Agent_Cancelling Agent_Cancelled"
| fail: "p \<notin> {Agent_AwaitingPrepare, Agent_Failed} \<Longrightarrow> agent_edge p Agent_Failed"

code_pred agent_edge .

inductive_simps agent_edge_iff: "agent_edge p q"

fun agent_rank :: "agent_phase \<Rightarrow> nat" where
  "agent_rank Agent_AwaitingPrepare = 0"
| "agent_rank Agent_Preparing = 1"
| "agent_rank Agent_Ready = 2"
| "agent_rank Agent_Running = 3"
| "agent_rank Agent_Cancelling = 4"
| "agent_rank Agent_Finished = 5"
| "agent_rank Agent_Cancelled = 5"
| "agent_rank Agent_Failed = 6"

interpretation agent: lifecycle agent_edge agent_rank "\<lambda>p. p = Agent_Failed"
proof
  show "agent_edge p q \<Longrightarrow> agent_rank p < agent_rank q" for p q
    by (cases p; cases q) (simp_all add: agent_edge_iff)
  show "p = Agent_Failed \<Longrightarrow> \<not> agent_edge p q" for p q
    by (cases q) (simp_all add: agent_edge_iff)
qed

datatype agent_event =
    Agent_Frame wire_frame
  | Agent_MarkReady ready_frame
  | Agent_Finish agent_evidence
  | Agent_Fail string string bool
  | Agent_AckCancel string

fun agent_apply :: "agent_machine \<Rightarrow> agent_event \<Rightarrow> agent_machine" where
  "agent_apply s (Agent_Frame f) = fst (agent_accept s f)"
| "agent_apply s (Agent_MarkReady r) = fst (mark_ready s r)"
| "agent_apply s (Agent_Finish e) = fst (agent_finish s e)"
| "agent_apply s (Agent_Fail c m r) = fst (agent_fail s c m r)"
| "agent_apply s (Agent_AckCancel reason) = fst (agent_cancelled s reason)"

inductive agent_reachable :: "hello_frame \<Rightarrow> agent_machine \<Rightarrow> bool" for hello where
  init: "agent_reachable hello (agent_new hello)"
| step: "agent_reachable hello s \<Longrightarrow> agent_reachable hello (agent_apply s e)"

text \<open>A job and a name are bound exactly when a prepare frame has been accepted.\<close>

definition machine_inv :: "hello_frame \<Rightarrow> agent_machine \<Rightarrow> bool" where
  "machine_inv hello s \<longleftrightarrow> am_hello s = hello
     \<and> (am_phase s = Agent_AwaitingPrepare \<longleftrightarrow> am_job_id s = None)
     \<and> (am_job_id s = None \<longleftrightarrow> am_bound_agent_name s = None)
     \<and> (\<forall>pinned name. hf_agent_name hello = Some pinned \<and> am_bound_agent_name s = Some name \<longrightarrow> pinned = name)"

subsection \<open>What an operation can do\<close>

text \<open>
  The operations as a step relation: each rule names the event, what it required, and the fields it
  changed. \<open>agent_apply_step\<close> shows that the operations refine it.
\<close>

inductive machine_step :: "agent_machine \<Rightarrow> agent_event \<Rightarrow> agent_machine \<Rightarrow> bool" where
  same: "machine_step s e s"
| prepare: "am_phase s = Agent_AwaitingPrepare \<Longrightarrow>
    hf_agent_name (am_hello s) = None \<or> hf_agent_name (am_hello s) = Some (sh_agent_name (pf_shard p)) \<Longrightarrow>
    machine_step s (Agent_Frame (wire_frame_new (Msg_Prepare p)))
      (s\<lparr>am_job_id := Some (pf_job_id p), am_bound_agent_name := Some (sh_agent_name (pf_shard p)),
         am_phase := Agent_Preparing\<rparr>)"
| ready: "am_phase s = Agent_Preparing \<Longrightarrow> am_job_id s = Some (rf_job_id r) \<Longrightarrow>
    am_bound_agent_name s = Some (rf_agent_name r) \<Longrightarrow>
    machine_step s (Agent_MarkReady r) (s\<lparr>am_phase := Agent_Ready\<rparr>)"
| start: "am_phase s = Agent_Ready \<Longrightarrow> am_job_id s = Some (sf_job_id f) \<Longrightarrow>
    machine_step s (Agent_Frame (wire_frame_new (Msg_Start f))) (s\<lparr>am_phase := Agent_Running\<rparr>)"
| cancel: "am_phase s \<in> {Agent_Preparing, Agent_Ready, Agent_Running, Agent_Cancelling} \<Longrightarrow>
    am_job_id s = Some (cf_job_id c) \<Longrightarrow>
    machine_step s (Agent_Frame (wire_frame_new (Msg_Cancel c))) (s\<lparr>am_phase := Agent_Cancelling\<rparr>)"
| finish: "am_phase s = Agent_Running \<Longrightarrow> am_bound_agent_name s = Some name \<Longrightarrow> evidence_of name ev \<Longrightarrow>
    machine_step s (Agent_Finish ev) (s\<lparr>am_phase := Agent_Finished\<rparr>)"
| fail: "am_job_id s \<noteq> None \<Longrightarrow>
    machine_step s (Agent_Fail c m r) (s\<lparr>am_phase := Agent_Failed\<rparr>)"
| cancelled: "am_phase s = Agent_Cancelling \<Longrightarrow>
    machine_step s (Agent_AckCancel reason) (s\<lparr>am_phase := Agent_Cancelled\<rparr>)"

inductive_cases machine_stepE: "machine_step s e s'"

lemma keep_on_error_simps [simp]:
  "keep_on_error s (Inl e) = (s, Inl e)" "keep_on_error s (Inr (s', a)) = (s', Inr a)"
  by (simp_all add: keep_on_error_def)

lemma agent_validate_job_iff [simp]: "agent_validate_job got s = Inr u \<longleftrightarrow> am_job_id s = Some got"
  by (auto simp: agent_validate_job_def required_job_def result_iffs)

lemma agent_check_evidence_iff [simp]:
  "agent_check_evidence e s = Inr u \<longleftrightarrow> (\<exists>name. am_bound_agent_name s = Some name \<and> evidence_of name e)"
  by (auto simp: agent_check_evidence_def required_agent_name_def result_iffs validate_evidence_agent_def
      fail_if_def split: if_splits)

lemma agent_guards_self [simp]:
  "am_job_id s = Some got \<Longrightarrow> agent_validate_job got s = Inr ()"
  "am_job_id s = Some got \<Longrightarrow> required_job s = Inr got"
  "am_bound_agent_name s = Some name \<Longrightarrow> required_agent_name s = Inr name"
  "am_bound_agent_name s = Some name \<Longrightarrow> evidence_of name e \<Longrightarrow> agent_check_evidence e s = Inr ()"
  by (auto simp: agent_validate_job_def required_job_def required_agent_name_def agent_check_evidence_def)

lemma frame_new_eq: "wf_protocol f = WIRE_PROTOCOL \<Longrightarrow> wf_message f = m \<Longrightarrow> f = wire_frame_new m"
  by (simp add: wire_frame_new_def)

lemma keep_on_error_fst: "fst (keep_on_error s r) = s \<or> (\<exists>s' a. r = Inr (s', a) \<and> fst (keep_on_error s r) = s')"
  by (cases r) (auto simp: keep_on_error_def)

lemma agent_accept_step: "machine_step s (Agent_Frame f) (fst (agent_accept s f))"
proof (cases "snd (agent_accept s f)")
  case (Inl e)
  have "fst (agent_accept s f) = s"
    using Inl by (auto simp: agent_accept_def keep_on_error_def split: sum.splits)
  then show ?thesis by (simp add: machine_step.same)
next
  case (Inr d)
  then have ok: "wf_protocol f = WIRE_PROTOCOL"
    by (auto simp: agent_accept_def keep_on_error_def result_iffs split: sum.splits)
  show ?thesis
  proof (cases "wf_message f")
    case (Msg_Prepare p)
    show ?thesis
      using Inr ok unfolding frame_new_eq [OF ok Msg_Prepare]
      by (cases "hf_agent_name (am_hello s)")
        (auto simp: agent_accept_def keep_on_error_def result_iffs fail_if_def Let_def
          split: sum.splits if_splits intro!: machine_step.prepare)
  next
    case (Msg_Start st)
    show ?thesis
      using Inr ok unfolding frame_new_eq [OF ok Msg_Start]
      by (auto simp: agent_accept_def keep_on_error_def result_iffs Let_def
          split: sum.splits if_splits intro!: machine_step.start)
  next
    case (Msg_Cancel c)
    have "am_phase s \<in> {Agent_Preparing, Agent_Ready, Agent_Running, Agent_Cancelling}"
      if "am_phase s \<notin> {Agent_Finished, Agent_Failed, Agent_Cancelled, Agent_AwaitingPrepare}"
      using that by (cases "am_phase s") simp_all
    then show ?thesis
      using Inr ok unfolding frame_new_eq [OF ok Msg_Cancel]
      by (auto simp: agent_accept_def keep_on_error_def result_iffs Let_def
          split: sum.splits if_splits intro!: machine_step.cancel)
  qed (use Inr ok in \<open>auto simp: agent_accept_def keep_on_error_def result_iffs Let_def split: sum.splits\<close>)
qed

lemma agent_apply_step: "machine_step s e (agent_apply s e)"
proof (cases e)
  case (Agent_Frame f)
  then show ?thesis by (simp add: agent_accept_step)
next
  case (Agent_MarkReady r)
  then show ?thesis
    using keep_on_error_fst [of s] by (auto simp: mark_ready_def require_phase_def required_agent_name_def
        result_iffs keep_on_error_def split: sum.splits intro: machine_step.intros)
next
  case (Agent_Finish ev)
  then show ?thesis
    by (auto simp: agent_finish_def require_phase_def result_iffs Let_def split: sum.splits
        intro: machine_step.intros)
next
  case (Agent_Fail c m r)
  then show ?thesis
    by (auto simp: agent_fail_def required_job_def result_iffs keep_on_error_def split: sum.splits
        intro: machine_step.intros)
next
  case (Agent_AckCancel reason)
  then show ?thesis
    by (auto simp: agent_cancelled_def require_phase_def required_job_def result_iffs keep_on_error_def
        split: sum.splits intro: machine_step.intros)
qed

lemma machine_step_inv: "machine_step s e s' \<Longrightarrow> machine_inv hello s \<Longrightarrow> machine_inv hello s'"
  by (erule machine_stepE) (auto simp: machine_inv_def)

lemma machine_step_moves:
  "machine_step s e s' \<Longrightarrow> machine_inv hello s \<Longrightarrow> agent.stays_or_moves (am_phase s) (am_phase s')"
  by (erule machine_stepE) (auto simp: machine_inv_def agent.stays_or_moves_def agent_edge_iff)

lemma agent_new_inv: "machine_inv hello (agent_new hello)"
  by (simp add: machine_inv_def agent_new_def)

lemma agent_reachable_inv: "agent_reachable hello s \<Longrightarrow> machine_inv hello s"
  by (induction rule: agent_reachable.induct) (auto intro: agent_new_inv machine_step_inv agent_apply_step)

subsection \<open>Runs of one worker\<close>

definition agent_run :: "agent_machine \<Rightarrow> agent_event list \<Rightarrow> agent_machine" where
  "agent_run s es = fold (\<lambda>e s. agent_apply s e) es s"

lemma agent_run_simps [simp]:
  "agent_run s [] = s" "agent_run s (e # es) = agent_run (agent_apply s e) es"
  "agent_run s (es @ [e]) = agent_apply (agent_run s es) e"
  by (simp_all add: agent_run_def)

lemma agent_run_reachable: "agent_reachable hello (agent_run (agent_new hello) es)"
  by (induction es rule: rev_induct) (auto intro: agent_reachable.intros)

text \<open>The phases a worker goes through, the first and the last included.\<close>

fun agent_trace :: "agent_machine \<Rightarrow> agent_event list \<Rightarrow> agent_phase list" where
  "agent_trace s [] = [am_phase s]"
| "agent_trace s (e # es) = am_phase s # agent_trace (agent_apply s e) es"

lemma agent_trace_run: "machine_inv hello s \<Longrightarrow> agent.run (agent_trace s es)"
proof (induction es arbitrary: s)
  case (Cons e es)
  have "machine_inv hello (agent_apply s e)" using machine_step_inv agent_apply_step Cons.prems by blast
  then have "agent.run (agent_trace (agent_apply s e) es)" by (rule Cons.IH)
  moreover have "agent.stays_or_moves (am_phase s) (am_phase (agent_apply s e))"
    using machine_step_moves agent_apply_step Cons.prems by blast
  ultimately show ?case by (cases es) simp_all
qed simp

text \<open>The events that lead to each phase, in order.\<close>

abbreviation prepared_event :: "prepare_frame \<Rightarrow> agent_event" where
  "prepared_event p \<equiv> Agent_Frame (wire_frame_new (Msg_Prepare p))"

abbreviation start_event :: "start_frame \<Rightarrow> agent_event" where
  "start_event f \<equiv> Agent_Frame (wire_frame_new (Msg_Start f))"

definition bound_to :: "prepare_frame \<Rightarrow> agent_machine \<Rightarrow> bool" where
  "bound_to p s \<longleftrightarrow> am_job_id s = Some (pf_job_id p) \<and> am_bound_agent_name s = Some (sh_agent_name (pf_shard p))"

definition ready_for :: "prepare_frame \<Rightarrow> ready_frame \<Rightarrow> bool" where
  "ready_for p r \<longleftrightarrow> rf_job_id r = pf_job_id p \<and> rf_agent_name r = sh_agent_name (pf_shard p)"

definition handshake :: "agent_event list \<Rightarrow> agent_machine \<Rightarrow> bool" where
  "handshake es s \<longleftrightarrow>
     (am_phase s = Agent_AwaitingPrepare \<or>
      (\<exists>p. bound_to p s \<and> subseq [prepared_event p] es
        \<and> (am_phase s = Agent_Ready \<longrightarrow> (\<exists>r. ready_for p r \<and> subseq [prepared_event p, Agent_MarkReady r] es))
        \<and> (am_phase s \<in> {Agent_Running, Agent_Finished} \<longrightarrow>
            (\<exists>r f. ready_for p r \<and> sf_job_id f = pf_job_id p
               \<and> subseq [prepared_event p, Agent_MarkReady r, start_event f] es))))"

lemma subseq_later: "subseq xs es \<Longrightarrow> subseq xs (es @ [e])"
  by (rule list_emb_prefix)

lemma subseq_now: "subseq xs es \<Longrightarrow> subseq (xs @ [e]) (es @ [e])"
  by simp

lemma handshake_step:
  assumes "machine_step s e s'" "handshake es s" "machine_inv hello s"
  shows "handshake (es @ [e]) s'"
proof (cases "am_phase s = Agent_AwaitingPrepare")
  case True
  then have "am_job_id s = None" using assms(3) by (simp add: machine_inv_def)
  with assms(1) True show ?thesis
    by (cases rule: machine_stepE) (auto simp: handshake_def bound_to_def)
next
  case False
  then obtain p where p: "bound_to p s" "subseq [prepared_event p] es"
    and r: "am_phase s = Agent_Ready \<Longrightarrow>
        \<exists>r. ready_for p r \<and> subseq [prepared_event p, Agent_MarkReady r] es"
    and f: "am_phase s \<in> {Agent_Running, Agent_Finished} \<Longrightarrow> \<exists>r f. ready_for p r
        \<and> sf_job_id f = pf_job_id p \<and> subseq [prepared_event p, Agent_MarkReady r, start_event f] es"
    using assms(2) by (auto simp: handshake_def)
  have p': "subseq [prepared_event p] (es @ [e])" using p(2) by (rule subseq_later)
  from assms(1) show ?thesis
  proof (cases rule: machine_step.cases)
    case same
    then show ?thesis using assms(2) False p(1) p' r f
      unfolding handshake_def by (meson subseq_later)
  next
    case (ready rf)
    then have "ready_for p rf" using p(1) by (simp add: ready_for_def bound_to_def)
    moreover have "subseq [prepared_event p, Agent_MarkReady rf] (es @ [e])"
      using subseq_now [OF p(2), of e] ready by simp
    ultimately show ?thesis using p p' ready unfolding handshake_def bound_to_def
      by (intro disjI2 exI [of _ p]) auto
  next
    case (start sf)
    then obtain rf where "ready_for p rf" "subseq [prepared_event p, Agent_MarkReady rf] es" using r by blast
    then have "subseq [prepared_event p, Agent_MarkReady rf, start_event sf] (es @ [e])"
      using subseq_now [of "[prepared_event p, Agent_MarkReady rf]" es e] start by simp
    moreover have "sf_job_id sf = pf_job_id p" using p(1) start by (simp add: bound_to_def)
    ultimately show ?thesis using p p' start \<open>ready_for p rf\<close> unfolding handshake_def bound_to_def
      by (intro disjI2 exI [of _ p]) auto
  next
    case (finish name ev)
    then have "\<exists>r f. ready_for p r \<and> sf_job_id f = pf_job_id p
        \<and> subseq [prepared_event p, Agent_MarkReady r, start_event f] (es @ [e])"
      using f subseq_later by simp blast
    with finish p p' show ?thesis unfolding handshake_def bound_to_def
      by (intro disjI2 exI [of _ p]) simp
  qed (use p p' False in \<open>auto simp: handshake_def bound_to_def\<close>)
qed

lemma handshake_run: "handshake es (agent_run (agent_new hello) es)"
proof (induction es rule: rev_induct)
  case Nil
  then show ?case by (simp add: handshake_def agent_new_def)
next
  case (snoc e es)
  then show ?case
    using handshake_step [OF agent_apply_step snoc.IH agent_reachable_inv [OF agent_run_reachable]] by simp
qed

subsection \<open>Properties\<close>

text \<open>
  A worker runs its workload only after the whole handshake: whenever a run of the state machine
  from its greeting ends in \<open>Running\<close> or \<open>Finished\<close>, it accepted a prepare frame, then marked itself
  ready for that frame's job under the shard's name, then accepted a start frame of the same job, in
  this order; it is bound to that prepare frame, and a name pinned in the greeting is the shard's.
\<close>

theorem worker_runs_after_handshake:
  assumes "am_phase (agent_run (agent_new hello) es) \<in> {Agent_Running, Agent_Finished}"
  shows "\<exists>p r f. subseq [prepared_event p, Agent_MarkReady r, start_event f] es
     \<and> ready_for p r \<and> sf_job_id f = pf_job_id p \<and> bound_to p (agent_run (agent_new hello) es)
     \<and> (hf_agent_name hello = None \<or> hf_agent_name hello = Some (sh_agent_name (pf_shard p)))"
proof -
  let ?s = "agent_run (agent_new hello) es"
  obtain p r f where h: "bound_to p ?s" "ready_for p r" "sf_job_id f = pf_job_id p"
    "subseq [prepared_event p, Agent_MarkReady r, start_event f] es"
    using handshake_run [of es hello] assms by (auto simp: handshake_def)
  moreover have "hf_agent_name hello = None \<or> hf_agent_name hello = Some (sh_agent_name (pf_shard p))"
    using agent_reachable_inv [OF agent_run_reachable, of hello es] h(1)
    by (cases "hf_agent_name hello") (auto simp: machine_inv_def bound_to_def)
  ultimately show ?thesis by blast
qed

text \<open>
  A worker's phases are one-way: whatever events it handles, valid or not, the phases it goes
  through climb \<open>agent_rank\<close> strictly once repetitions are dropped, so no phase is ever re-entered and
  a worker changes phase at most six times.
\<close>

theorem worker_phases_one_way:
  "sorted_wrt (\<lambda>p q. agent_rank p < agent_rank q) (remdups_adj (agent_trace (agent_new hello) es))
   \<and> distinct (remdups_adj (agent_trace (agent_new hello) es))
   \<and> length (remdups_adj (agent_trace (agent_new hello) es)) \<le> 7"
proof -
  have run: "agent.run (agent_trace (agent_new hello) es)"
    by (rule agent_trace_run [OF agent_new_inv])
  have "agent_rank p \<le> 6" for p by (cases p) simp_all
  then show ?thesis
    using agent.run_climbs [OF run] agent.run_distinct [OF run] agent.run_length [OF run, of 6] by simp
qed

subsection \<open>A worker's run\<close>

definition sample_worker_hello :: hello_frame where
  "sample_worker_hello = \<lparr>hf_agent_name = None, hf_binary_version = ''0.2.0'',
     hf_scenarios = [Scenario_Sustained, Scenario_Pattern], hf_max_concurrency = 8\<rparr>"

definition sample_worker_events :: "agent_event list" where
  "sample_worker_events = [prepared_event (sample_prepare ''a'' 0),
     Agent_MarkReady \<lparr>rf_job_id = ''job'', rf_agent_name = ''a'', rf_live_workers = 2,
       rf_requested_workers = 2, rf_tool_inventory_hash = ''abc'',
       rf_target_protocol_version = ''2025-06-18''\<rparr>,
     start_event \<lparr>sf_job_id = ''job'', sf_start_after_ms = 50\<rparr>]"

lemma sample_worker_running:
  "am_phase (agent_run (agent_new sample_worker_hello) sample_worker_events) = Agent_Running"
  by (simp add: sample_worker_events_def sample_worker_hello_def agent_new_def agent_accept_def
      mark_ready_def require_phase_def sample_prepare_def Let_def)

lemma worker_runs_after_handshake_witness:
  "\<exists>p. bound_to p (agent_run (agent_new sample_worker_hello) sample_worker_events)"
  using worker_runs_after_handshake [of sample_worker_hello sample_worker_events]
    sample_worker_running by auto

end
