(* ===== verification/Evidence.thy ===== *)
theory Evidence
  imports Wire
begin

section \<open>Histogram evidence\<close>

text \<open>
  The portable histogram payload of \<open>crates/distributed/src/aggregate.rs\<close> and the errors of the
  module. The base64 codec is a third-party crate: a pair of functions and its documented contract
  (decoding gives back what was encoded; without padding, three bytes take at most four characters).
\<close>

datatype aggregate_error =
    Agg_EmptyCohort
  | Agg_DuplicateAgent string
  | Agg_ShardIdentityMismatch string string
  | Agg_InvalidShard string
  | Agg_TargetProtocolMismatch string string string
  | Agg_ToolInventoryMismatch string
  | Agg_UnsupportedHistogramEncoding string
  | Agg_HistogramEncode string
  | Agg_HistogramDecode string
  | Agg_TrailingHistogramData
  | Agg_HistogramTooLarge nat nat
  | Agg_HistogramCountMismatch u64 u64
  | Agg_HistogramLayoutMismatch string string
  | Agg_LatencyOutcomeMismatch string string u64 u64
  | Agg_CounterOverflow string
  | Agg_MissingMeasurementInterval

definition MAX_HISTOGRAM_BYTES :: nat where
  "MAX_HISTOGRAM_BYTES = 4 * 1024 * 1024"

record base64_api =
  b64_encode :: "u8 list \<Rightarrow> string"
  b64_decode :: "string \<Rightarrow> string + u8 list"

definition base64_contract :: "base64_api \<Rightarrow> bool" where
  "base64_contract B \<longleftrightarrow>
     (\<forall>bs. b64_decode B (b64_encode B bs) = Inr bs
        \<and> length (b64_encode B bs) \<le> (length bs + 2) div 3 * 4)"

definition map_err :: "('e \<Rightarrow> 'f) \<Rightarrow> 'e + 'a \<Rightarrow> 'f + 'a" where
  "map_err f r = (case r of Inl e \<Rightarrow> Inl (f e) | Inr a \<Rightarrow> Inr a)"

lemma map_err_simps [simp]: "map_err f (Inl e) = Inl (f e)" "map_err f (Inr a) = Inr a"
  by (simp_all add: map_err_def)

lemma map_err_Inr_iff: "map_err f r = Inr a \<longleftrightarrow> r = Inr a"
  by (cases r) simp_all

definition HDR_V2_BASE64 :: string where
  "HDR_V2_BASE64 = ''hdr-v2-base64''"

definition from_histogram ::
  "'h hdr_api \<Rightarrow> base64_api \<Rightarrow> 'h \<Rightarrow> aggregate_error + histogram_evidence" where
  "from_histogram A B histogram =
     and_then (map_err Agg_HistogramEncode (hdr_serialize A histogram)) (\<lambda>bytes.
     and_then (fail_if (MAX_HISTOGRAM_BYTES < length bytes)
       (Agg_HistogramTooLarge (length bytes) MAX_HISTOGRAM_BYTES)) (\<lambda>_.
     Inr \<lparr>he_encoding = HDR_V2_BASE64, he_payload = b64_encode B bytes,
          he_count = hdr_len A histogram\<rparr>))"

definition MAX_ENCODED :: nat where
  "MAX_ENCODED = (MAX_HISTOGRAM_BYTES + 2) div 3 * 4"

definition to_histogram ::
  "'h hdr_api \<Rightarrow> base64_api \<Rightarrow> histogram_evidence \<Rightarrow> aggregate_error + 'h" where
  "to_histogram A B e =
     and_then (fail_if (he_encoding e \<noteq> HDR_V2_BASE64)
       (Agg_UnsupportedHistogramEncoding (he_encoding e))) (\<lambda>_.
     and_then (fail_if (MAX_ENCODED < length (he_payload e))
       (Agg_HistogramTooLarge (length (he_payload e)) MAX_ENCODED)) (\<lambda>_.
     and_then (map_err Agg_HistogramDecode (b64_decode B (he_payload e))) (\<lambda>bytes.
     and_then (fail_if (MAX_HISTOGRAM_BYTES < length bytes)
       (Agg_HistogramTooLarge (length bytes) MAX_HISTOGRAM_BYTES)) (\<lambda>_.
     and_then (map_err Agg_HistogramDecode (hdr_deserialize A bytes)) (\<lambda>(histogram, position).
     and_then (fail_if (position \<noteq> length bytes) Agg_TrailingHistogramData) (\<lambda>_.
     and_then (fail_if (hdr_len A histogram \<noteq> he_count e)
       (Agg_HistogramCountMismatch (he_count e) (hdr_len A histogram))) (\<lambda>_.
     Inr histogram)))))))"

text \<open>The sample count a valid payload declares is the one it decodes to.\<close>

lemma to_histogram_count: "to_histogram A B e = Inr h \<Longrightarrow> hdr_len A h = he_count e"
  by (auto simp: to_histogram_def result_iffs)

lemma to_histogram_bounds:
  "to_histogram A B e = Inr h \<Longrightarrow> length (he_payload e) \<le> MAX_ENCODED"
  by (auto simp: to_histogram_def result_iffs)

lemma from_histogram_encoding:
  "from_histogram A B h = Inr e \<Longrightarrow> he_encoding e = HDR_V2_BASE64"
  by (auto simp: from_histogram_def result_iffs)

lemma base64_contract_D:
  assumes "base64_contract B"
  shows "b64_decode B (b64_encode B bs) = Inr bs"
    "length (b64_encode B bs) \<le> (length bs + 2) div 3 * 4"
  using assms by (simp_all add: base64_contract_def)

lemma from_to_histogram:
  assumes A: "hdr_contract A" and B: "base64_contract B" and e: "from_histogram A B h = Inr e"
  shows "to_histogram A B e = Inr h"
proof -
  obtain bytes where b: "hdr_serialize A h = Inr bytes" "length bytes \<le> MAX_HISTOGRAM_BYTES"
    and e': "e = \<lparr>he_encoding = HDR_V2_BASE64, he_payload = b64_encode B bytes,
      he_count = hdr_len A h\<rparr>"
    using e by (auto simp: from_histogram_def result_iffs map_err_Inr_iff not_less)
  have "length (b64_encode B bytes) \<le> MAX_ENCODED"
    unfolding MAX_ENCODED_def
    by (rule order_trans [OF base64_contract_D(2) [OF B]])
      (use b(2) in \<open>intro mult_le_mono div_le_mono add_mono; simp\<close>)
  then show ?thesis
    using b hdr_roundtripD [OF A b(1)] base64_contract_D(1) [OF B]
    by (simp add: to_histogram_def e' not_less)
qed

text \<open>A codec that satisfies the contract: every byte as one character.\<close>

definition plain_codec :: base64_api where
  "plain_codec = \<lparr>b64_encode = map (\<lambda>b. char_of (unat b)),
     b64_decode = (\<lambda>s. Inr (map (\<lambda>c. of_nat (byte_of c)) s))\<rparr>"

lemma plain_codec_contract: "base64_contract plain_codec"
proof -
  have "(of_nat (byte_of (char_of (unat b))) :: u8) = b" for b :: u8
  proof -
    have "unat b < 256" using unsigned_less [of b] by simp
    then show ?thesis by (simp add: of_char_of)
  qed
  moreover have "n \<le> (n + 2) div 3 * 4" for n :: nat by presburger
  ultimately show ?thesis by (simp add: base64_contract_def plain_codec_def comp_def)
qed

end
