(* ===== verification/Checked_Counters.thy ===== *)
theory Checked_Counters
  imports Prelude "HOL-Library.Multiset"
begin

section \<open>Checked counters\<close>

text \<open>
  The contract of a merge that adds counters and fails, instead of wrapping, when one of them would
  reach its limit: \<open>view\<close> reads the counters, \<open>contrib\<close> what an item adds. Folding such a merge over
  a list succeeds exactly when the true sums stay below the limits, and then yields the true sums,
  so neither depends on the order of the list.
\<close>

locale checked_counters =
  fixes merge :: "'a \<Rightarrow> 'b \<Rightarrow> 'e + 'a"
    and view :: "'a \<Rightarrow> 'i \<Rightarrow> nat"
    and contrib :: "'b \<Rightarrow> 'i \<Rightarrow> nat"
    and limit :: "'i \<Rightarrow> nat"
  assumes merge_ok: "(\<exists>c. merge a b = Inr c) \<longleftrightarrow> (\<forall>i. view a i + contrib b i < limit i)"
    and merge_view: "merge a b = Inr c \<Longrightarrow> view c i = view a i + contrib b i"
    and view_limit: "view a i < limit i"
begin

lemma fold_view:
  "try_fold merge a bs = Inr c \<Longrightarrow> view c i = view a i + sum_list (map (\<lambda>b. contrib b i) bs)"
proof (induction bs arbitrary: a)
  case (Cons b bs)
  then obtain d where d: "merge a b = Inr d" "try_fold merge d bs = Inr c"
    by (auto simp: and_then_Inr_iff)
  then show ?case using Cons.IH [OF d(2)] merge_view [OF d(1), of i] by simp
qed simp

lemma fold_ok:
  "(\<exists>c. try_fold merge a bs = Inr c) \<longleftrightarrow>
     (\<forall>i. view a i + sum_list (map (\<lambda>b. contrib b i) bs) < limit i)"
proof (induction bs arbitrary: a)
  case Nil
  then show ?case using view_limit by simp
next
  case (Cons b bs)
  show ?case
  proof (cases "\<exists>d. merge a b = Inr d")
    case True
    then obtain d where d: "merge a b = Inr d" by blast
    then have "view d i = view a i + contrib b i" for i by (rule merge_view)
    then show ?thesis using d Cons.IH [of d] by (simp add: add.assoc)
  next
    case False
    then obtain i where "\<not> view a i + contrib b i < limit i" using merge_ok by blast
    then have "\<not> view a i + sum_list (map (\<lambda>b. contrib b i) (b # bs)) < limit i" by simp
    moreover have "\<nexists>c. try_fold merge a (b # bs) = Inr c" using False by (simp add: and_then_Inr_iff)
    ultimately show ?thesis by blast
  qed
qed

lemma fold_order_independent:
  assumes "mset bs = mset bs'"
  shows "(\<exists>c. try_fold merge a bs = Inr c) \<longleftrightarrow> (\<exists>c. try_fold merge a bs' = Inr c)"
    and "try_fold merge a bs = Inr c \<Longrightarrow> try_fold merge a bs' = Inr c' \<Longrightarrow> view c = view c'"
proof -
  have sums: "sum_list (map f bs) = sum_list (map f bs')" for f :: "'b \<Rightarrow> nat"
    using assms by (metis mset_map sum_mset_sum_list)
  show "(\<exists>c. try_fold merge a bs = Inr c) \<longleftrightarrow> (\<exists>c. try_fold merge a bs' = Inr c)"
    unfolding fold_ok sums ..
  assume "try_fold merge a bs = Inr c" "try_fold merge a bs' = Inr c'"
  then show "view c = view c'" using sums fold_view by (auto simp: fun_eq_iff)
qed

end

text \<open>Projecting a loop onto a part of its state.\<close>

lemma try_fold_project:
  assumes "try_fold f s xs = Inr s'"
    and "\<And>s x s'. x \<in> set xs \<Longrightarrow> f s x = Inr s' \<Longrightarrow> g (p s) (q x) = Inr (p s')"
  shows "try_fold g (p s) (map q xs) = Inr (p s')"
  using assms
proof (induction xs arbitrary: s)
  case (Cons x xs)
  then obtain t where t: "f s x = Inr t" "try_fold f t xs = Inr s'"
    by (auto simp: and_then_Inr_iff)
  then have "g (p s) (q x) = Inr (p t)" using Cons.prems(2) by simp
  moreover have "try_fold g (p t) (map q xs) = Inr (p s')"
    using Cons.IH [OF t(2)] Cons.prems(2) by simp
  ultimately show ?case by simp
qed simp

end
