(* ===== verification/Aggregate.thy ===== *)
theory Aggregate
  imports Evidence Checked_Counters
begin

section \<open>Exact cross-agent aggregation\<close>

text \<open>
  \<open>crates/distributed/src/aggregate.rs\<close>: the evidence of a complete agent cohort is validated and
  merged, histogram by histogram and counter by counter, with every sum checked for overflow; the
  percentiles are computed once from the merged histogram.
\<close>

subsection \<open>Checked counters\<close>

definition add_named ::
  "string \<Rightarrow> 'a::len word \<Rightarrow> 'a word \<Rightarrow> aggregate_error + 'a word" where
  "add_named field a b = ok_or (Agg_CounterOverflow field) (checked_add a b)"

definition add_outcomes :: "outcome_counts \<Rightarrow> outcome_counts \<Rightarrow> aggregate_error + outcome_counts" where
  "add_outcomes into from =
     and_then (add_named ''success'' (oc_success into) (oc_success from)) (\<lambda>a1.
     and_then (add_named ''hang'' (oc_hang into) (oc_hang from)) (\<lambda>a2.
     and_then (add_named ''deadlock'' (oc_deadlock into) (oc_deadlock from)) (\<lambda>a3.
     and_then (add_named ''timeout'' (oc_timeout into) (oc_timeout from)) (\<lambda>a4.
     and_then (add_named ''server_error'' (oc_server_error into) (oc_server_error from)) (\<lambda>a5.
     and_then (add_named ''protocol_error'' (oc_protocol_error into) (oc_protocol_error from)) (\<lambda>a6.
     and_then (add_named ''crash'' (oc_crash into) (oc_crash from)) (\<lambda>a7.
     and_then (add_named ''malformed'' (oc_malformed into) (oc_malformed from)) (\<lambda>a8.
     and_then (add_named ''disconnected'' (oc_disconnected into) (oc_disconnected from)) (\<lambda>a9.
     and_then (add_named ''cancelled'' (oc_cancelled into) (oc_cancelled from)) (\<lambda>a10.
     and_then (add_named ''expected_rejection'' (oc_expected_rejection into)
       (oc_expected_rejection from)) (\<lambda>a11.
     Inr \<lparr>oc_success = a1, oc_hang = a2, oc_deadlock = a3, oc_timeout = a4, oc_server_error = a5,
          oc_protocol_error = a6, oc_crash = a7, oc_malformed = a8, oc_disconnected = a9,
          oc_cancelled = a10, oc_expected_rejection = a11\<rparr>)))))))))))"

definition outcome_total :: "outcome_counts \<Rightarrow> aggregate_error + u64" where
  "outcome_total c = try_fold (\<lambda>total_n (name, value). add_named name total_n value) 0
     [(''success'', oc_success c), (''hang'', oc_hang c), (''deadlock'', oc_deadlock c),
      (''timeout'', oc_timeout c), (''server_error'', oc_server_error c),
      (''protocol_error'', oc_protocol_error c), (''crash'', oc_crash c),
      (''malformed'', oc_malformed c), (''disconnected'', oc_disconnected c),
      (''cancelled'', oc_cancelled c), (''expected_rejection'', oc_expected_rejection c)]"

definition add_scenario_outcome ::
  "scenario_outcome \<Rightarrow> scenario_outcome \<Rightarrow> string \<Rightarrow> aggregate_error + scenario_outcome" where
  "add_scenario_outcome into from agent_name =
     and_then (add_named ''hang_count'' (so_hang_count into) (so_hang_count from)) (\<lambda>hang.
     and_then (add_named ''deadlock_count'' (so_deadlock_count into) (so_deadlock_count from)) (\<lambda>dead.
     and_then (add_named ''total_calls'' (so_total_calls into) (so_total_calls from)) (\<lambda>calls.
     and_then (add_named ''successful_calls'' (so_successful_calls into)
       (so_successful_calls from)) (\<lambda>succ.
     and_then (add_named ''error_count'' (so_error_count into) (so_error_count from)) (\<lambda>errs.
     and_then (add_named ''divergence_count'' (so_divergence_count into)
       (so_divergence_count from)) (\<lambda>dive.
     and_then (add_named ''incomplete_worker_count'' (so_incomplete_worker_count into)
       (so_incomplete_worker_count from)) (\<lambda>inco.
     and_then (add_named ''teardown_failure_count'' (so_teardown_failure_count into)
       (so_teardown_failure_count from)) (\<lambda>tear.
     Inr \<lparr>so_total_calls = calls, so_successful_calls = succ, so_hang_count = hang,
          so_deadlock_count = dead, so_error_count = errs, so_divergence_count = dive,
          so_incomplete_worker_count = inco, so_teardown_failure_count = tear,
          so_notes = so_notes into
            @ map (\<lambda>note. ''agent '' @ agent_name @ '': '' @ note) (so_notes from),
          so_hung_for_ms = so_hung_for_ms into @ so_hung_for_ms from\<rparr>))))))))"

subsection \<open>Histograms\<close>

definition decode_validated_metrics ::
  "'h hdr_api \<Rightarrow> base64_api \<Rightarrow> string \<Rightarrow> string \<Rightarrow> metrics_evidence \<Rightarrow> aggregate_error + 'h" where
  "decode_validated_metrics A B agent scope m =
     and_then (to_histogram A B (me_latency m)) (\<lambda>histogram.
     and_then (ok_or (Agg_CounterOverflow ''latency_outcomes'')
       (Option.bind (checked_add (oc_success (me_outcomes m)) (oc_hang (me_outcomes m)))
          (\<lambda>value. checked_add value (oc_deadlock (me_outcomes m))))) (\<lambda>latency_outcomes.
     and_then (fail_if (hdr_len A histogram \<noteq> latency_outcomes)
       (Agg_LatencyOutcomeMismatch agent scope (hdr_len A histogram) latency_outcomes)) (\<lambda>_.
     Inr histogram)))"

definition ensure_compatible ::
  "'h hdr_api \<Rightarrow> 'h \<Rightarrow> 'h \<Rightarrow> string \<Rightarrow> string \<Rightarrow> aggregate_error + unit" where
  "ensure_compatible A left right agent scope =
     fail_if (hdr_low A left \<noteq> hdr_low A right \<or> hdr_high A left \<noteq> hdr_high A right
       \<or> hdr_sigfig A left \<noteq> hdr_sigfig A right) (Agg_HistogramLayoutMismatch agent scope)"

text \<open>The same merge is written out for the global histogram and for each tool's map entry.\<close>

definition merge_histogram ::
  "'h hdr_api \<Rightarrow> 'h option \<Rightarrow> 'h \<Rightarrow> string \<Rightarrow> string \<Rightarrow> aggregate_error + 'h" where
  "merge_histogram A into histogram agent scope =
     (case into of None \<Rightarrow> Inr histogram
      | Some h \<Rightarrow>
          and_then (ensure_compatible A h histogram agent scope) (\<lambda>_.
          ok_or (Agg_HistogramLayoutMismatch agent scope) (hdr_add A h histogram)))"

definition f64_ratio_per_sec :: "u64 \<Rightarrow> u64 \<Rightarrow> f64" where
  "f64_ratio_per_sec n elapsed_ms =
     (if elapsed_ms = 0 then F64_Fin 0
      else f64_div (f64_of_nat (unat n)) (f64_div (f64_of_nat (unat elapsed_ms)) (F64_Fin 1000)))"

definition summarize ::
  "'h hdr_api \<Rightarrow> 'h \<Rightarrow> outcome_counts \<Rightarrow> u64 \<Rightarrow> aggregate_error + scenario_metrics" where
  "summarize A histogram outcomes measurement_elapsed_ms =
     and_then (outcome_total outcomes) (\<lambda>total_requests.
     and_then (add_named ''successful_requests'' (oc_success outcomes)
       (oc_expected_rejection outcomes)) (\<lambda>successful_requests.
     Inr \<lparr>sm_latency = latency_stats_of A histogram,
          sm_throughput = \<lparr>ts_total_requests = total_requests,
            ts_successful_requests = successful_requests,
            ts_requests_per_sec = f64_ratio_per_sec total_requests measurement_elapsed_ms\<rparr>,
          sm_outcomes = outcomes\<rparr>))"

subsection \<open>The cohort\<close>

record aggregated_evidence =
  ag_agent_names :: "string list"
  ag_global_concurrency :: u32
  ag_metrics :: scenario_metrics
  ag_per_tool :: "(string, scenario_metrics) btree"
  ag_scenario_outcome :: scenario_outcome
  ag_measurement_elapsed_ms :: u64
  ag_start_skew_ms :: u64
  ag_target_protocol_version :: string
  ag_tool_inventory_hash :: string

text \<open>The mutable locals of \<open>aggregate_evidence\<close>.\<close>

record 'h agg_state =
  as_names :: "string list"
  as_shard_indices :: "u32 list"
  as_global_concurrency :: u32
  as_min_start_delay :: u64
  as_max_start_delay :: u64
  as_measurement_elapsed_ms :: u64
  as_histogram :: "'h option"
  as_outcomes :: outcome_counts
  as_scenario_outcome :: scenario_outcome
  as_tool_histograms :: "(string, 'h) btree"
  as_tool_outcomes :: "(string, outcome_counts) btree"

definition agg_start :: "'h agg_state" where
  "agg_start = \<lparr>as_names = [], as_shard_indices = [], as_global_concurrency = 0,
     as_min_start_delay = - 1, as_max_start_delay = 0, as_measurement_elapsed_ms = 0,
     as_histogram = None, as_outcomes = outcome_counts_default,
     as_scenario_outcome = scenario_outcome_default, as_tool_histograms = [], as_tool_outcomes = []\<rparr>"

definition agg_tool ::
  "'h hdr_api \<Rightarrow> base64_api \<Rightarrow> string \<Rightarrow> (string, 'h) btree \<times> (string, outcome_counts) btree
     \<Rightarrow> string \<times> metrics_evidence
     \<Rightarrow> aggregate_error + (string, 'h) btree \<times> (string, outcome_counts) btree" where
  "agg_tool A B agent st item =
     (case st of (hists, outs) \<Rightarrow> case item of (tool, m) \<Rightarrow>
     and_then (decode_validated_metrics A B agent tool m) (\<lambda>histogram.
     and_then (merge_histogram A (bt_get hists tool) histogram agent tool) (\<lambda>merged.
     and_then (add_outcomes (case bt_get outs tool of None \<Rightarrow> outcome_counts_default | Some c \<Rightarrow> c)
       (me_outcomes m)) (\<lambda>counts.
     Inr (bt_insert tool merged hists, bt_insert tool counts outs)))))"

definition check_identity ::
  "u32 \<Rightarrow> string \<Rightarrow> string \<Rightarrow> string list \<Rightarrow> u32 list \<Rightarrow> agent_evidence
     \<Rightarrow> aggregate_error + string list \<times> u32 list" where
  "check_identity expected_count expected_protocol expected_inventory names indices agent =
     (let name = ev_agent_name agent; shard = ev_shard agent;
          (fresh, names') = bs_insert name names;
          (fresh_index, indices') = bs_insert (sh_index shard) indices
      in and_then (fail_if (\<not> fresh) (Agg_DuplicateAgent name)) (\<lambda>_.
         and_then (fail_if (name \<noteq> sh_agent_name shard)
           (Agg_ShardIdentityMismatch name (sh_agent_name shard))) (\<lambda>_.
         and_then (fail_if (sh_agent_count shard \<noteq> expected_count \<or> expected_count \<le> sh_index shard
             \<or> sh_concurrency shard = 0 \<or> \<not> fresh_index)
           (Agg_InvalidShard name)) (\<lambda>_.
         and_then (fail_if (ev_target_protocol_version agent \<noteq> expected_protocol)
           (Agg_TargetProtocolMismatch expected_protocol (ev_target_protocol_version agent) name)) (\<lambda>_.
         and_then (fail_if (ev_tool_inventory_hash agent \<noteq> expected_inventory)
           (Agg_ToolInventoryMismatch name)) (\<lambda>_.
         Inr (names', indices')))))))"

definition agg_agent ::
  "'h hdr_api \<Rightarrow> base64_api \<Rightarrow> u32 \<Rightarrow> string \<Rightarrow> string \<Rightarrow> 'h agg_state \<Rightarrow> agent_evidence
     \<Rightarrow> aggregate_error + 'h agg_state" where
  "agg_agent A B expected_count expected_protocol expected_inventory st agent =
     (let name = ev_agent_name agent in
     and_then (check_identity expected_count expected_protocol expected_inventory
       (as_names st) (as_shard_indices st) agent) (\<lambda>(names, indices).
     and_then (add_named ''global_concurrency'' (as_global_concurrency st)
       (sh_concurrency (ev_shard agent))) (\<lambda>conc.
     and_then (decode_validated_metrics A B name ''global'' (ev_metrics agent)) (\<lambda>histogram.
     and_then (merge_histogram A (as_histogram st) histogram name ''global'') (\<lambda>merged.
     and_then (add_outcomes (as_outcomes st) (me_outcomes (ev_metrics agent))) (\<lambda>outcomes.
     and_then (add_scenario_outcome (as_scenario_outcome st) (ev_scenario_outcome agent) name) (\<lambda>so.
     and_then (try_fold (agg_tool A B name) (as_tool_histograms st, as_tool_outcomes st)
       (ev_per_tool agent)) (\<lambda>(hists, outs).
     Inr \<lparr>as_names = names, as_shard_indices = indices, as_global_concurrency = conc,
          as_min_start_delay = min (as_min_start_delay st) (ev_start_delay_ms agent),
          as_max_start_delay = max (as_max_start_delay st) (ev_start_delay_ms agent),
          as_measurement_elapsed_ms =
            max (as_measurement_elapsed_ms st) (ev_measurement_elapsed_ms agent),
          as_histogram = Some merged, as_outcomes = outcomes, as_scenario_outcome = so,
          as_tool_histograms = hists, as_tool_outcomes = outs\<rparr>))))))))"

definition summarize_tool ::
  "'h hdr_api \<Rightarrow> (string, outcome_counts) btree \<Rightarrow> u64 \<Rightarrow> string \<times> 'h
     \<Rightarrow> aggregate_error + string \<times> scenario_metrics" where
  "summarize_tool A outs elapsed item =
     and_then (summarize A (snd item)
       (case bt_get outs (fst item) of None \<Rightarrow> outcome_counts_default | Some c \<Rightarrow> c) elapsed)
       (\<lambda>m. Inr (fst item, m))"

definition aggregate_evidence ::
  "'h hdr_api \<Rightarrow> base64_api \<Rightarrow> agent_evidence list \<Rightarrow> aggregate_error + aggregated_evidence" where
  "aggregate_evidence A B evidence =
     (case evidence of
        [] \<Rightarrow> Inl Agg_EmptyCohort
      | first # _ \<Rightarrow>
          and_then (fail_if (2 ^ 32 \<le> length evidence) (Agg_CounterOverflow ''agent_count'')) (\<lambda>_.
          and_then (try_fold (agg_agent A B (of_nat (length evidence))
              (ev_target_protocol_version first) (ev_tool_inventory_hash first))
            agg_start evidence) (\<lambda>st.
          and_then (ok_or Agg_EmptyCohort (as_histogram st)) (\<lambda>histogram.
          and_then (outcome_total (as_outcomes st)) (\<lambda>total_requests.
          and_then (fail_if (0 < total_requests \<and> as_measurement_elapsed_ms st = 0)
            Agg_MissingMeasurementInterval) (\<lambda>_.
          and_then (summarize A histogram (as_outcomes st) (as_measurement_elapsed_ms st)) (\<lambda>metrics.
          and_then (traverse (summarize_tool A (as_tool_outcomes st) (as_measurement_elapsed_ms st))
            (as_tool_histograms st)) (\<lambda>per_tool.
          Inr \<lparr>ag_agent_names = as_names st, ag_global_concurrency = as_global_concurrency st,
               ag_metrics = metrics, ag_per_tool = per_tool,
               ag_scenario_outcome = as_scenario_outcome st,
               ag_measurement_elapsed_ms = as_measurement_elapsed_ms st,
               ag_start_skew_ms = saturating_sub (as_max_start_delay st) (as_min_start_delay st),
               ag_target_protocol_version = ev_target_protocol_version first,
               ag_tool_inventory_hash = ev_tool_inventory_hash first\<rparr>))))))))"

subsection \<open>The counters are checked counters\<close>

lemma add_named_Inr_iff:
  "add_named f a b = Inr (c :: 'a::len word) \<longleftrightarrow>
     unat a + unat b < 2 ^ LENGTH('a) \<and> unat c = unat a + unat b"
  by (simp add: add_named_def ok_or_Inr_iff checked_add_Some_iff)

lemma add_named_ok_iff: "(\<exists>c. add_named f a b = Inr c) \<longleftrightarrow> unat a + unat b < 2 ^ LENGTH('a)"
  for a b :: "'a::len word"
  by (auto simp: add_named_def ok_or_Inr_iff checked_add_def)

lemma all_call_outcomes:
  "(\<forall>oc. P oc) \<longleftrightarrow> P Outcome_Success \<and> P Outcome_Hang \<and> P Outcome_Deadlock \<and> P Outcome_Timeout
     \<and> P Outcome_ServerError \<and> P Outcome_ProtocolError \<and> P Outcome_Crash \<and> P Outcome_Malformed
     \<and> P Outcome_Disconnected \<and> P Outcome_Cancelled \<and> P Outcome_ExpectedRejection"
  (is "?l \<longleftrightarrow> ?r")
proof
  assume r: ?r
  show ?l
  proof
    fix oc show "P oc" using r by (cases oc) simp_all
  qed
qed simp

lemma ex_and_then: "(\<exists>c. and_then r f = Inr c) \<longleftrightarrow> (\<exists>a. r = Inr a \<and> (\<exists>c. f a = Inr c))"
  by (auto simp: and_then_Inr_iff)

lemma add_outcomes_Inr_iff:
  "add_outcomes a b = Inr c \<longleftrightarrow> (\<forall>oc. add_named [] (count_of a oc) (count_of b oc) = Inr (count_of c oc))"
proof -
  have named: "add_named f x y = Inr z \<longleftrightarrow> add_named [] x y = Inr z" for f and x y z :: u64
    by (simp add: add_named_Inr_iff)
  show ?thesis
    unfolding add_outcomes_def and_then_Inr_iff all_call_outcomes count_of.simps named [of "_ # _"]
    by (cases c) auto
qed

lemma add_outcomes_view:
  "add_outcomes a b = Inr c \<Longrightarrow> unat (count_of c oc) = unat (count_of a oc) + unat (count_of b oc)"
  by (simp add: add_outcomes_Inr_iff add_named_Inr_iff)

lemma ex_counts: "(\<exists>c. \<forall>oc. P oc (count_of c oc)) \<longleftrightarrow> (\<forall>oc. \<exists>n. P oc n)"
proof
  assume "\<forall>oc. \<exists>n. P oc n"
  then obtain f where f: "\<And>oc. P oc (f oc)" by metis
  let ?c = "\<lparr>oc_success = f Outcome_Success, oc_hang = f Outcome_Hang, oc_deadlock = f Outcome_Deadlock,
    oc_timeout = f Outcome_Timeout, oc_server_error = f Outcome_ServerError,
    oc_protocol_error = f Outcome_ProtocolError, oc_crash = f Outcome_Crash,
    oc_malformed = f Outcome_Malformed, oc_disconnected = f Outcome_Disconnected,
    oc_cancelled = f Outcome_Cancelled, oc_expected_rejection = f Outcome_ExpectedRejection\<rparr>"
  have "count_of ?c oc = f oc" for oc by (cases oc) simp_all
  with f show "\<exists>c. \<forall>oc. P oc (count_of c oc)" by metis
qed blast

interpretation outcome_sum: checked_counters add_outcomes "\<lambda>c oc. unat (count_of c oc)"
  "\<lambda>c oc. unat (count_of c oc)" "\<lambda>_. 2 ^ 64"
proof
  show "(\<exists>c. add_outcomes a b = Inr c)
      \<longleftrightarrow> (\<forall>oc. unat (count_of a oc) + unat (count_of b oc) < 2 ^ 64)" for a b
    using ex_counts [of "\<lambda>oc n. add_named [] (count_of a oc) (count_of b oc) = Inr n"]
    by (simp add: add_outcomes_Inr_iff add_named_ok_iff)
  show "unat (count_of c oc) < 2 ^ 64" for c oc by (rule unat_lt2p_u64)
qed (rule add_outcomes_view)

interpretation concurrency_sum: checked_counters "add_named f" "\<lambda>a (_ :: unit). unat (a :: u32)"
  "\<lambda>a _. unat a" "\<lambda>_. 2 ^ 32" for f
proof
  show "(\<exists>c. add_named f a b = Inr c) \<longleftrightarrow> (\<forall>i :: unit. unat a + unat b < 2 ^ 32)" for a b :: u32
    using add_named_ok_iff [of f a b] by simp
  show "unat (a :: u32) < 2 ^ 32" for a using unsigned_less [of a] by simp
qed (simp add: add_named_Inr_iff)

interpretation total_sum: checked_counters
  "\<lambda>(a :: u64) (name, value). add_named name a value" "\<lambda>a (_ :: unit). unat a"
  "\<lambda>(name, value) _. unat value" "\<lambda>_. 2 ^ 64"
proof
  show "(\<exists>c. (case b of (name, value) \<Rightarrow> add_named name a value) = Inr c)
      \<longleftrightarrow> (\<forall>i :: unit. unat a + (case b of (name, value) \<Rightarrow> \<lambda>_. unat value) i < 2 ^ 64)"
    for a :: u64 and b
    using add_named_ok_iff [of "fst b" a "snd b"] by (simp add: case_prod_beta)
  show "unat (a :: u64) < 2 ^ 64" for a by (rule unat_lt2p_u64)
qed (auto simp: add_named_Inr_iff)

datatype scenario_counter =
    SC_total_calls | SC_successful_calls | SC_hang_count | SC_deadlock_count | SC_error_count
  | SC_divergence_count | SC_incomplete_worker_count | SC_teardown_failure_count

fun scenario_count :: "scenario_outcome \<Rightarrow> scenario_counter \<Rightarrow> nat" where
  "scenario_count s SC_total_calls = unat (so_total_calls s)"
| "scenario_count s SC_successful_calls = unat (so_successful_calls s)"
| "scenario_count s SC_hang_count = unat (so_hang_count s)"
| "scenario_count s SC_deadlock_count = unat (so_deadlock_count s)"
| "scenario_count s SC_error_count = unat (so_error_count s)"
| "scenario_count s SC_divergence_count = unat (so_divergence_count s)"
| "scenario_count s SC_incomplete_worker_count = unat (so_incomplete_worker_count s)"
| "scenario_count s SC_teardown_failure_count = unat (so_teardown_failure_count s)"

fun scenario_limit :: "scenario_counter \<Rightarrow> nat" where
  "scenario_limit SC_hang_count = 2 ^ 32"
| "scenario_limit SC_deadlock_count = 2 ^ 32"
| "scenario_limit _ = 2 ^ 64"

lemma all_scenario_counters:
  "(\<forall>i. P i) \<longleftrightarrow> P SC_total_calls \<and> P SC_successful_calls \<and> P SC_hang_count \<and> P SC_deadlock_count
     \<and> P SC_error_count \<and> P SC_divergence_count \<and> P SC_incomplete_worker_count
     \<and> P SC_teardown_failure_count"
  (is "?l \<longleftrightarrow> ?r")
proof
  assume r: ?r
  show ?l
  proof
    fix i show "P i" using r by (cases i) simp_all
  qed
qed simp

interpretation scenario_sum: checked_counters
  "\<lambda>into (name, from). add_scenario_outcome into from name" scenario_count
  "\<lambda>(name, from). scenario_count from" scenario_limit
proof
  fix a :: scenario_outcome and b :: "string \<times> scenario_outcome"
  obtain name s where b: "b = (name, s)" by (cases b)
  have "(\<exists>c. add_scenario_outcome a s name = Inr c) \<longleftrightarrow>
      (\<forall>i. scenario_count a i + scenario_count s i < scenario_limit i)"
    by (simp add: add_scenario_outcome_def ex_and_then add_named_ok_iff all_scenario_counters conj_ac)
  then show "(\<exists>c. (case b of (name, from) \<Rightarrow> add_scenario_outcome a from name) = Inr c) \<longleftrightarrow>
      (\<forall>i. scenario_count a i + (case b of (name, from) \<Rightarrow> scenario_count from) i < scenario_limit i)"
    by (simp add: b)
  show "scenario_count c i = scenario_count a i + (case b of (name, from) \<Rightarrow> scenario_count from) i"
    if "(case b of (name, from) \<Rightarrow> add_scenario_outcome a from name) = Inr c" for c i
  proof -
    have "add_scenario_outcome a s name = Inr c" using that by (simp add: b)
    then have "\<forall>i. scenario_count c i = scenario_count a i + scenario_count s i"
      unfolding all_scenario_counters
      by (auto simp: add_scenario_outcome_def and_then_Inr_iff add_named_Inr_iff)
    then show ?thesis by (simp add: b)
  qed
next
  have u32: "unat (w :: u32) < 2 ^ 32" for w using unsigned_less [of w] by simp
  show "scenario_count a i < scenario_limit i" for a i
    using unat_lt2p_u64 u32 by (cases i) simp_all
qed

lemma outcome_total_ok: "(\<exists>n. outcome_total c = Inr n) \<longleftrightarrow> counts_sum c < 2 ^ 64"
  unfolding outcome_total_def total_sum.fold_ok by (simp add: counts_sum_def all_outcomes_def add.assoc)

lemma outcome_total_view: "outcome_total c = Inr n \<Longrightarrow> unat n = counts_sum c"
  unfolding outcome_total_def
  by (drule total_sum.fold_view [where i = "()"]) (simp add: counts_sum_def all_outcomes_def)

subsection \<open>Histogram merges\<close>

lemma decode_validated_InrD:
  assumes "decode_validated_metrics A B agent scope m = Inr h"
  shows "to_histogram A B (me_latency m) = Inr h" "unat (hdr_len A h) = latency_samples (me_outcomes m)"
    "hdr_len A h = he_count (me_latency m)"
proof -
  have to: "to_histogram A B (me_latency m) = Inr h"
    using assms by (auto simp: decode_validated_metrics_def result_iffs)
  then show "to_histogram A B (me_latency m) = Inr h" .
  show "hdr_len A h = he_count (me_latency m)" using to by (rule to_histogram_count)
  show "unat (hdr_len A h) = latency_samples (me_outcomes m)"
    using assms
    by (auto simp: decode_validated_metrics_def result_iffs bind_eq_Some_conv checked_add_Some_iff
        latency_samples_def)
qed

text \<open>One scope (the global one or one tool) of one agent, merged into the scope's histogram.\<close>

definition merge_scope ::
  "'h hdr_api \<Rightarrow> base64_api \<Rightarrow> 'h option \<Rightarrow> string \<times> string \<times> metrics_evidence
     \<Rightarrow> aggregate_error + 'h option" where
  "merge_scope A B into item =
     (case item of (agent, scope, m) \<Rightarrow>
     and_then (decode_validated_metrics A B agent scope m) (\<lambda>h.
     and_then (merge_histogram A into h agent scope) (\<lambda>merged. Inr (Some merged))))"

lemma merge_scope_InrE:
  assumes "merge_scope A B into (agent, scope, m) = Inr r"
  obtains h c where "decode_validated_metrics A B agent scope m = Inr h"
    "merge_histogram A into h agent scope = Inr c" "r = Some c"
  using assms unfolding merge_scope_def by (auto simp: and_then_Inr_iff)

definition scope_samples :: "(string \<times> string \<times> metrics_evidence) list \<Rightarrow> nat" where
  "scope_samples items = sum_list (map (\<lambda>(_, _, m). latency_samples (me_outcomes m)) items)"

lemma merge_histogram_InrD:
  assumes A: "hdr_contract A" and "merge_histogram A (Some h) h' agent scope = Inr c"
  shows "hdr_layout_of A h = hdr_layout_of A h'" "hdr_layout_of A c = hdr_layout_of A h"
    "unat (hdr_len A h) + unat (hdr_len A h') < 2 ^ 64 \<Longrightarrow>
       unat (hdr_len A c) = unat (hdr_len A h) + unat (hdr_len A h')"
proof -
  show lay: "hdr_layout_of A h = hdr_layout_of A h'"
    using assms(2) by (auto simp: merge_histogram_def ensure_compatible_def result_iffs hdr_layout_of_def)
  have c: "hdr_add A h h' = Some c"
    using assms(2) by (auto simp: merge_histogram_def ensure_compatible_def result_iffs)
  obtain c' where "hdr_add A h h' = Some c'" "hdr_layout_of A c' = hdr_layout_of A h"
    "unat (hdr_len A h) + unat (hdr_len A h') < 2 ^ 64 \<Longrightarrow> hdr_len A c' = hdr_len A h + hdr_len A h'"
    using hdr_addD [OF A lay] by blast
  with c show "hdr_layout_of A c = hdr_layout_of A h"
    "unat (hdr_len A h) + unat (hdr_len A h') < 2 ^ 64 \<Longrightarrow>
       unat (hdr_len A c) = unat (hdr_len A h) + unat (hdr_len A h')"
    by (simp_all add: unat_word_ariths)
qed

lemma merge_scope_samples:
  assumes A: "hdr_contract A" and "try_fold (merge_scope A B) (Some h) items = Inr r"
    and "unat (hdr_len A h) + scope_samples items < 2 ^ 64"
  shows "\<exists>h'. r = Some h' \<and> unat (hdr_len A h') = unat (hdr_len A h) + scope_samples items"
  using assms(2,3)
proof (induction items arbitrary: h)
  case (Cons item items)
  obtain agent scope m where item: "item = (agent, scope, m)" by (cases item)
  obtain t where t: "merge_scope A B (Some h) (agent, scope, m) = Inr t"
    "try_fold (merge_scope A B) t items = Inr r"
    using Cons.prems(1) unfolding item try_fold.simps and_then_Inr_iff by blast
  obtain h1 h2 where h: "decode_validated_metrics A B agent scope m = Inr h1"
    "merge_histogram A (Some h) h1 agent scope = Inr h2" "try_fold (merge_scope A B) (Some h2) items = Inr r"
    using t(1) by (rule merge_scope_InrE) (use t(2) in simp)
  have n: "unat (hdr_len A h) + unat (hdr_len A h1) + scope_samples items < 2 ^ 64"
    using Cons.prems(2) decode_validated_InrD(2) [OF h(1)] by (simp add: scope_samples_def item)
  then have "unat (hdr_len A h2) = unat (hdr_len A h) + unat (hdr_len A h1)"
    using merge_histogram_InrD(3) [OF A h(2)] by simp
  then show ?case
    using Cons.IH [OF h(3)] n decode_validated_InrD(2) [OF h(1)]
    by (simp add: scope_samples_def item add.assoc)
qed (auto simp: scope_samples_def)

lemma merge_scopes_samples:
  assumes A: "hdr_contract A" and r: "try_fold (merge_scope A B) None items = Inr r" and "items \<noteq> []"
    and n: "scope_samples items < 2 ^ 64"
  shows "\<exists>h'. r = Some h' \<and> unat (hdr_len A h') = scope_samples items"
proof -
  obtain agent scope m rest where items: "items = (agent, scope, m) # rest"
    using assms(3) by (metis list.exhaust surj_pair)
  obtain t where t: "merge_scope A B None (agent, scope, m) = Inr t"
    "try_fold (merge_scope A B) t rest = Inr r"
    using r unfolding items try_fold.simps and_then_Inr_iff by blast
  obtain h where h: "decode_validated_metrics A B agent scope m = Inr h"
    "try_fold (merge_scope A B) (Some h) rest = Inr r"
    using t(1) by (rule merge_scope_InrE) (use t(2) in \<open>simp add: merge_histogram_def\<close>)
  then show ?thesis
    using merge_scope_samples [OF A h(2)] n decode_validated_InrD(2) [OF h(1)]
    by (simp add: scope_samples_def items)
qed

lemma merge_scope_Some: "merge_scope A B into item = Inr r \<Longrightarrow> \<exists>h. r = Some h"
  by (cases item) (auto elim: merge_scope_InrE)

lemma merge_scopes_None:
  "try_fold (merge_scope A B) into items = Inr None \<Longrightarrow> into = None \<and> items = []"
proof (induction items arbitrary: into)
  case (Cons item items)
  then obtain t where "merge_scope A B into item = Inr t" "try_fold (merge_scope A B) t items = Inr None"
    by (auto simp: and_then_Inr_iff)
  with Cons.IH merge_scope_Some show ?case by blast
qed simp

subsection \<open>One tool across the cohort\<close>

definition tool_merge ::
  "'h hdr_api \<Rightarrow> base64_api \<Rightarrow> 'h option \<times> outcome_counts option \<Rightarrow> string \<times> string \<times> metrics_evidence
     \<Rightarrow> aggregate_error + 'h option \<times> outcome_counts option" where
  "tool_merge A B st item =
     and_then (merge_scope A B (fst st) item) (\<lambda>h.
     and_then (add_outcomes (case snd st of None \<Rightarrow> outcome_counts_default | Some c \<Rightarrow> c)
       (me_outcomes (snd (snd item)))) (\<lambda>c. Inr (h, Some c)))"

definition tool_item :: "string \<Rightarrow> agent_evidence \<Rightarrow> (string \<times> string \<times> metrics_evidence) list" where
  "tool_item t a = (case bt_get (ev_per_tool a) t of None \<Rightarrow> [] | Some m \<Rightarrow> [(ev_agent_name a, t, m)])"

definition tool_items :: "string \<Rightarrow> agent_evidence list \<Rightarrow> (string \<times> string \<times> metrics_evidence) list" where
  "tool_items t evs = concat (map (tool_item t) evs)"

lemma agg_tool_InrD:
  assumes "agg_tool A B agent (hists, outs) (tool, m) = Inr (hists', outs')"
  shows "tool_merge A B (bt_get hists tool, bt_get outs tool) (agent, tool, m)
      = Inr (bt_get hists' tool, bt_get outs' tool)"
    and "t \<noteq> tool \<Longrightarrow> bt_get hists' t = bt_get hists t \<and> bt_get outs' t = bt_get outs t"
    and "bt_wf hists \<Longrightarrow> bt_wf hists'"
  using assms by (auto simp: agg_tool_def tool_merge_def merge_scope_def and_then_Inr_iff)

lemma agg_tools_tool:
  assumes "try_fold (agg_tool A B agent) st items = Inr st'" "distinct (map fst items)"
  shows "try_fold (tool_merge A B) (bt_get (fst st) t, bt_get (snd st) t)
      (case map_of items t of None \<Rightarrow> [] | Some m \<Rightarrow> [(agent, t, m)])
      = Inr (bt_get (fst st') t, bt_get (snd st') t)"
  using assms
proof (induction items arbitrary: st)
  case (Cons item items)
  obtain tool m where item: "item = (tool, m)" by (cases item)
  obtain st1 where st1: "agg_tool A B agent st item = Inr st1" "try_fold (agg_tool A B agent) st1 items = Inr st'"
    using Cons.prems(1) by (auto simp: and_then_Inr_iff)
  obtain hs os hs1 os1 where st: "st = (hs, os)" "st1 = (hs1, os1)" by (cases st, cases st1)
  note step = agg_tool_InrD [OF st1(1) [unfolded item st]]
  have "distinct (map fst items)" using Cons.prems(2) by simp
  note IH = Cons.IH [OF st1(2) this]
  show ?case
  proof (cases "t = tool")
    case True
    then have "map_of items t = None" using Cons.prems(2) item by (simp add: map_of_eq_None_iff)
    then have "bt_get (fst st') t = bt_get hs1 t" "bt_get (snd st') t = bt_get os1 t"
      using IH by (simp_all add: st)
    then show ?thesis using step(1) True by (simp add: item st)
  next
    case False
    then show ?thesis using step(2) [OF False] IH by (simp add: item st)
  qed
qed simp

lemma agg_tools_wf:
  "try_fold (agg_tool A B agent) st items = Inr st' \<Longrightarrow> bt_wf (fst st) \<Longrightarrow> bt_wf (fst st')"
proof (induction items arbitrary: st)
  case (Cons item items)
  obtain st1 where st1: "agg_tool A B agent st item = Inr st1" "try_fold (agg_tool A B agent) st1 items = Inr st'"
    using Cons.prems(1) by (auto simp: and_then_Inr_iff)
  moreover have "bt_wf (fst st1)"
    using agg_tool_InrD(3) st1(1) Cons.prems(2) by (metis prod.collapse)
  ultimately show ?case by (rule_tac Cons.IH)
qed simp

lemma agg_agent_InrD:
  assumes "agg_agent A B n p i st agent = Inr st'"
  shows
    "check_identity n p i (as_names st) (as_shard_indices st) agent = Inr (as_names st', as_shard_indices st')"
    "add_named ''global_concurrency'' (as_global_concurrency st) (sh_concurrency (ev_shard agent))
       = Inr (as_global_concurrency st')"
    "merge_scope A B (as_histogram st) (ev_agent_name agent, ''global'', ev_metrics agent) = Inr (as_histogram st')"
    "add_outcomes (as_outcomes st) (me_outcomes (ev_metrics agent)) = Inr (as_outcomes st')"
    "add_scenario_outcome (as_scenario_outcome st) (ev_scenario_outcome agent) (ev_agent_name agent)
       = Inr (as_scenario_outcome st')"
    "try_fold (agg_tool A B (ev_agent_name agent)) (as_tool_histograms st, as_tool_outcomes st)
       (ev_per_tool agent) = Inr (as_tool_histograms st', as_tool_outcomes st')"
    "as_min_start_delay st' = min (as_min_start_delay st) (ev_start_delay_ms agent)"
    "as_max_start_delay st' = max (as_max_start_delay st) (ev_start_delay_ms agent)"
    "as_measurement_elapsed_ms st' = max (as_measurement_elapsed_ms st) (ev_measurement_elapsed_ms agent)"
  using assms unfolding agg_agent_def Let_def and_then_Inr_iff merge_scope_def
  by (auto simp: and_then_Inr_iff)

lemma agg_agents_tool:
  assumes "try_fold (agg_agent A B n p i) st evs = Inr st'" "list_all (\<lambda>a. bt_wf (ev_per_tool a)) evs"
  shows "try_fold (tool_merge A B) (bt_get (as_tool_histograms st) t, bt_get (as_tool_outcomes st) t)
      (tool_items t evs) = Inr (bt_get (as_tool_histograms st') t, bt_get (as_tool_outcomes st') t)"
  using assms
proof (induction evs arbitrary: st)
  case (Cons a evs)
  obtain st1 where st1: "agg_agent A B n p i st a = Inr st1" "try_fold (agg_agent A B n p i) st1 evs = Inr st'"
    using Cons.prems(1) by (auto simp: and_then_Inr_iff)
  have "try_fold (agg_tool A B (ev_agent_name a)) (as_tool_histograms st, as_tool_outcomes st)
       (ev_per_tool a) = Inr (as_tool_histograms st1, as_tool_outcomes st1)"
    using st1(1) by (rule agg_agent_InrD)
  from agg_tools_tool [OF this, of t] Cons.prems(2)
  have "try_fold (tool_merge A B) (bt_get (as_tool_histograms st) t, bt_get (as_tool_outcomes st) t)
      (tool_item t a) = Inr (bt_get (as_tool_histograms st1) t, bt_get (as_tool_outcomes st1) t)"
    by (simp add: tool_item_def bt_wf_distinct)
  then show ?case
    using Cons.IH [OF st1(2)] Cons.prems(2) by (simp add: tool_items_def try_fold_append)
qed (simp add: tool_items_def)

lemma agg_agents_wf:
  "try_fold (agg_agent A B n p i) st evs = Inr st' \<Longrightarrow> bt_wf (as_tool_histograms st) \<Longrightarrow>
     bt_wf (as_tool_histograms st')"
proof (induction evs arbitrary: st)
  case (Cons a evs)
  obtain st1 where st1: "agg_agent A B n p i st a = Inr st1" "try_fold (agg_agent A B n p i) st1 evs = Inr st'"
    using Cons.prems(1) by (auto simp: and_then_Inr_iff)
  have "try_fold (agg_tool A B (ev_agent_name a)) (as_tool_histograms st, as_tool_outcomes st)
       (ev_per_tool a) = Inr (as_tool_histograms st1, as_tool_outcomes st1)"
    using st1(1) by (rule agg_agent_InrD)
  from agg_tools_wf [OF this] Cons.prems(2) Cons.IH [OF st1(2)] show ?case by simp
qed simp

subsection \<open>The identity of the cohort\<close>

definition member_ok :: "u32 \<Rightarrow> string \<Rightarrow> string \<Rightarrow> agent_evidence \<Rightarrow> bool" where
  "member_ok n p i a \<longleftrightarrow> ev_agent_name a = sh_agent_name (ev_shard a) \<and> sh_agent_count (ev_shard a) = n
     \<and> sh_index (ev_shard a) < n \<and> sh_concurrency (ev_shard a) \<noteq> 0
     \<and> ev_target_protocol_version a = p \<and> ev_tool_inventory_hash a = i"

abbreviation ev_index :: "agent_evidence \<Rightarrow> u32" where
  "ev_index a \<equiv> sh_index (ev_shard a)"

lemma check_identity_Inr_iff:
  "check_identity n p i ns idx a = Inr r \<longleftrightarrow> member_ok n p i a \<and> ev_agent_name a \<notin> set ns
     \<and> ev_index a \<notin> set idx \<and> r = (insort (ev_agent_name a) ns, insort (ev_index a) idx)"
  by (cases r) (auto simp: check_identity_def Let_def bs_insert_def result_iffs member_ok_def not_le)

definition identity_step ::
  "u32 \<Rightarrow> string \<Rightarrow> string \<Rightarrow> string list \<times> u32 list \<Rightarrow> agent_evidence \<Rightarrow> aggregate_error + string list \<times> u32 list"
where
  "identity_step n p i st a = check_identity n p i (fst st) (snd st) a"

lemma identity_fold:
  "try_fold (identity_step n p i) (ns, idx) evs = Inr r \<longleftrightarrow>
     list_all (member_ok n p i) evs \<and> distinct (map ev_agent_name evs) \<and> distinct (map ev_index evs)
     \<and> set (map ev_agent_name evs) \<inter> set ns = {} \<and> set (map ev_index evs) \<inter> set idx = {}
     \<and> r = (fold insort (map ev_agent_name evs) ns, fold insort (map ev_index evs) idx)"
proof (induction evs arbitrary: ns idx)
  case (Cons a evs)
  show ?case
    unfolding try_fold.simps and_then_Inr_iff identity_step_def [of n p i "(ns, idx)"] fst_conv snd_conv
      check_identity_Inr_iff
    by (auto simp: Cons.IH set_insort_key)
qed auto

lemma agg_agents_identity:
  "try_fold (agg_agent A B n p i) st evs = Inr st' \<Longrightarrow>
     try_fold (identity_step n p i) (as_names st, as_shard_indices st) evs
       = Inr (as_names st', as_shard_indices st')"
  using try_fold_project [where f = "agg_agent A B n p i" and g = "identity_step n p i"
      and p = "\<lambda>st. (as_names st, as_shard_indices st)" and q = "\<lambda>a. a"]
  by (simp add: identity_step_def agg_agent_InrD(1))

lemma agg_agents_concurrency:
  "try_fold (agg_agent A B n p i) st evs = Inr st' \<Longrightarrow>
     try_fold (add_named ''global_concurrency'') (as_global_concurrency st)
       (map (\<lambda>a. sh_concurrency (ev_shard a)) evs) = Inr (as_global_concurrency st')"
  by (erule try_fold_project [where p = as_global_concurrency]) (rule agg_agent_InrD(2))

definition global_item :: "agent_evidence \<Rightarrow> string \<times> string \<times> metrics_evidence" where
  "global_item a = (ev_agent_name a, ''global'', ev_metrics a)"

lemma agg_agents_histogram:
  "try_fold (agg_agent A B n p i) st evs = Inr st' \<Longrightarrow>
     try_fold (merge_scope A B) (as_histogram st) (map global_item evs) = Inr (as_histogram st')"
  by (erule try_fold_project [where p = as_histogram]) (simp add: global_item_def agg_agent_InrD(3))

lemma agg_agents_outcomes:
  "try_fold (agg_agent A B n p i) st evs = Inr st' \<Longrightarrow>
     try_fold add_outcomes (as_outcomes st) (map (\<lambda>a. me_outcomes (ev_metrics a)) evs)
       = Inr (as_outcomes st')"
  by (erule try_fold_project [where p = as_outcomes]) (rule agg_agent_InrD(4))

lemma agg_agents_scenario:
  "try_fold (agg_agent A B n p i) st evs = Inr st' \<Longrightarrow>
     try_fold (\<lambda>into (name, from). add_scenario_outcome into from name) (as_scenario_outcome st)
       (map (\<lambda>a. (ev_agent_name a, ev_scenario_outcome a)) evs) = Inr (as_scenario_outcome st')"
  by (erule try_fold_project [where p = as_scenario_outcome]) (simp add: agg_agent_InrD(5))

lemma agg_agents_delays:
  "try_fold (agg_agent A B n p i) st evs = Inr st' \<Longrightarrow>
     as_min_start_delay st' = fold min (map ev_start_delay_ms evs) (as_min_start_delay st)
     \<and> as_max_start_delay st' = fold max (map ev_start_delay_ms evs) (as_max_start_delay st)
     \<and> as_measurement_elapsed_ms st'
         = fold max (map ev_measurement_elapsed_ms evs) (as_measurement_elapsed_ms st)"
proof (induction evs arbitrary: st)
  case (Cons a evs)
  obtain st1 where st1: "agg_agent A B n p i st a = Inr st1" "try_fold (agg_agent A B n p i) st1 evs = Inr st'"
    using Cons.prems(1) by (auto simp: and_then_Inr_iff)
  show ?case
    using Cons.IH [OF st1(2)] agg_agent_InrD(7-9) [OF st1(1)]
    by (simp add: min.commute max.commute)
qed simp

text \<open>The parts of a successful aggregation.\<close>

lemma aggregate_InrE:
  assumes "aggregate_evidence A B evs = Inr g"
  obtains st h n where
    "evs \<noteq> []" "length evs < 2 ^ 32"
    "try_fold (agg_agent A B (of_nat (length evs)) (ag_target_protocol_version g)
       (ag_tool_inventory_hash g)) agg_start evs = Inr st"
    "as_histogram st = Some h" "outcome_total (as_outcomes st) = Inr n"
    "summarize A h (as_outcomes st) (as_measurement_elapsed_ms st) = Inr (ag_metrics g)"
    "traverse (summarize_tool A (as_tool_outcomes st) (as_measurement_elapsed_ms st))
       (as_tool_histograms st) = Inr (ag_per_tool g)"
    "ag_agent_names g = as_names st" "ag_global_concurrency g = as_global_concurrency st"
    "ag_scenario_outcome g = as_scenario_outcome st"
    "ag_measurement_elapsed_ms g = as_measurement_elapsed_ms st"
    "ag_start_skew_ms g = saturating_sub (as_max_start_delay st) (as_min_start_delay st)"
    "0 < n \<Longrightarrow> as_measurement_elapsed_ms st \<noteq> 0"
proof (cases evs)
  case Nil
  then show thesis using assms by (simp add: aggregate_evidence_def)
next
  case (Cons a rest)
  from assms obtain st h n m pt where parts: "length evs < 2 ^ 32"
    "try_fold (agg_agent A B (of_nat (length evs)) (ev_target_protocol_version a)
       (ev_tool_inventory_hash a)) agg_start evs = Inr st"
    "as_histogram st = Some h" "outcome_total (as_outcomes st) = Inr n"
    "summarize A h (as_outcomes st) (as_measurement_elapsed_ms st) = Inr m"
    "traverse (summarize_tool A (as_tool_outcomes st) (as_measurement_elapsed_ms st))
       (as_tool_histograms st) = Inr pt"
    "\<not> (0 < n \<and> as_measurement_elapsed_ms st = 0)"
    and g: "g = \<lparr>ag_agent_names = as_names st, ag_global_concurrency = as_global_concurrency st,
               ag_metrics = m, ag_per_tool = pt,
               ag_scenario_outcome = as_scenario_outcome st,
               ag_measurement_elapsed_ms = as_measurement_elapsed_ms st,
               ag_start_skew_ms = saturating_sub (as_max_start_delay st) (as_min_start_delay st),
               ag_target_protocol_version = ev_target_protocol_version a,
               ag_tool_inventory_hash = ev_tool_inventory_hash a\<rparr>"
    unfolding aggregate_evidence_def Cons list.case result_iffs not_le by blast
  then show thesis using Cons by (intro that [of st h n]) simp_all
qed

lemma counts_sum_fold:
  assumes "try_fold add_outcomes outcome_counts_default cs = Inr c"
  shows "unat (count_of c oc) = sum_list (map (\<lambda>c. unat (count_of c oc)) cs)"
    "counts_sum c = sum_list (map counts_sum cs)" "latency_samples c = sum_list (map latency_samples cs)"
proof -
  have "count_of outcome_counts_default oc = 0" for oc
    by (cases oc) (simp_all add: outcome_counts_default_def)
  then have oc: "unat (count_of c oc) = sum_list (map (\<lambda>c. unat (count_of c oc)) cs)" for oc
    using outcome_sum.fold_view [OF assms, of oc] by simp
  then show "unat (count_of c oc) = sum_list (map (\<lambda>c. unat (count_of c oc)) cs)" .
  show "counts_sum c = sum_list (map counts_sum cs)"
    unfolding counts_sum_def oc by (induction cs) (simp_all add: all_outcomes_def)
  show "latency_samples c = sum_list (map latency_samples cs)"
    unfolding latency_samples_def
    using oc [of Outcome_Success] oc [of Outcome_Hang] oc [of Outcome_Deadlock]
    by (simp add: sum_list_addf)
qed

lemma summarize_InrD:
  assumes "summarize A h c ms = Inr m"
  shows "sm_outcomes m = c" "ls_count (sm_latency m) = hdr_len A h" "counts_sum c < 2 ^ 64"
    "unat (ts_total_requests (sm_throughput m)) = counts_sum c"
    "unat (ts_successful_requests (sm_throughput m)) = unat (oc_success c) + unat (oc_expected_rejection c)"
    "sm_latency m = latency_stats_of A h"
proof -
  obtain n s where parts: "outcome_total c = Inr n"
    "add_named ''successful_requests'' (oc_success c) (oc_expected_rejection c) = Inr s"
    and m: "m = \<lparr>sm_latency = latency_stats_of A h,
          sm_throughput = \<lparr>ts_total_requests = n, ts_successful_requests = s,
            ts_requests_per_sec = f64_ratio_per_sec n ms\<rparr>, sm_outcomes = c\<rparr>"
    using assms unfolding summarize_def and_then_Inr_iff by blast
  show "sm_outcomes m = c" "sm_latency m = latency_stats_of A h" by (simp_all add: m)
  show "ls_count (sm_latency m) = hdr_len A h"
    by (simp add: m latency_stats_of_def Let_def latency_stats_default_def)
  show "unat (ts_total_requests (sm_throughput m)) = counts_sum c"
    using outcome_total_view [OF parts(1)] by (simp add: m)
  show "counts_sum c < 2 ^ 64" using parts(1) outcome_total_ok by blast
  show "unat (ts_successful_requests (sm_throughput m)) = unat (oc_success c) + unat (oc_expected_rejection c)"
    using parts(2) by (simp add: m add_named_Inr_iff)
qed

lemma agg_start_simps [simp]:
  "as_names agg_start = []" "as_shard_indices agg_start = []" "as_global_concurrency agg_start = 0"
  "as_min_start_delay agg_start = - 1" "as_max_start_delay agg_start = 0"
  "as_measurement_elapsed_ms agg_start = 0" "as_histogram agg_start = None"
  "as_outcomes agg_start = outcome_counts_default"
  "as_scenario_outcome agg_start = scenario_outcome_default"
  "as_tool_histograms agg_start = []" "as_tool_outcomes agg_start = []"
  by (simp_all add: agg_start_def)

lemma indices_partition:
  assumes "distinct ws" "list_all (\<lambda>w. w < (of_nat (length ws) :: u32)) ws" "length ws < 2 ^ 32"
  shows "sort (map unat ws) = [0..<length ws]"
proof -
  have un: "unat (of_nat (length ws) :: u32) = length ws" using assms(3) by (simp add: unat_of_nat)
  have "set (map unat ws) \<subseteq> {0..<length ws}"
    using assms(2) un by (auto simp: list_all_iff word_less_nat_alt)
  moreover have d: "distinct (map unat ws)" using assms(1)
    by (simp add: distinct_map inj_on_def word_unat_eq_iff)
  then have "card (set (map unat ws)) = card {0..<length ws}"
    using distinct_card [OF d] by simp
  ultimately have "set (map unat ws) = {0..<length ws}" by (simp add: card_subset_eq)
  then show ?thesis using d by (intro sorted_distinct_set_unique) simp_all
qed

lemma traverse_summarize:
  assumes "traverse (summarize_tool A outs e) hists = Inr pt"
  shows "bt_keys pt = bt_keys hists"
    and "bt_get pt t = Some m \<Longrightarrow> \<exists>h. bt_get hists t = Some h
      \<and> summarize A h (case bt_get outs t of None \<Rightarrow> outcome_counts_default | Some c \<Rightarrow> c) e = Inr m"
proof -
  have "bt_keys pt = bt_keys hists \<and> (\<forall>m. bt_get pt t = Some m \<longrightarrow> (\<exists>h. bt_get hists t = Some h
      \<and> summarize A h (case bt_get outs t of None \<Rightarrow> outcome_counts_default | Some c \<Rightarrow> c) e = Inr m))"
    using assms
  proof (induction hists arbitrary: pt)
    case (Cons item hists)
    then obtain m0 pt0 where s: "summarize_tool A outs e item = Inr m0"
      "traverse (summarize_tool A outs e) hists = Inr pt0" "pt = m0 # pt0"
      by (auto simp: and_then_Inr_iff)
    then obtain m1 where "m0 = (fst item, m1)" "summarize A (snd item)
       (case bt_get outs (fst item) of None \<Rightarrow> outcome_counts_default | Some c \<Rightarrow> c) e = Inr m1"
      by (auto simp: summarize_tool_def and_then_Inr_iff)
    with Cons.IH [OF s(2)] s(3) show ?case by (cases item) auto
  qed simp
  then show "bt_keys pt = bt_keys hists"
    and "bt_get pt t = Some m \<Longrightarrow> \<exists>h. bt_get hists t = Some h
      \<and> summarize A h (case bt_get outs t of None \<Rightarrow> outcome_counts_default | Some c \<Rightarrow> c) e = Inr m"
    by blast+
qed

lemma tool_merge_scope:
  "tool_merge A B st item = Inr st' \<Longrightarrow> merge_scope A B (fst st) item = Inr (fst st')"
  by (auto simp: tool_merge_def and_then_Inr_iff)

lemma tool_merge_outcomes:
  "tool_merge A B st item = Inr st' \<Longrightarrow>
     add_outcomes (case_option outcome_counts_default (\<lambda>c. c) (snd st)) (me_outcomes (snd (snd item)))
       = Inr (case_option outcome_counts_default (\<lambda>c. c) (snd st'))"
  by (auto simp: tool_merge_def and_then_Inr_iff)

lemma tool_fold_scope:
  "try_fold (tool_merge A B) st items = Inr st' \<Longrightarrow>
     try_fold (merge_scope A B) (fst st) items = Inr (fst st')"
  using try_fold_project [where f = "tool_merge A B" and g = "merge_scope A B" and p = fst
      and q = "\<lambda>x. x"] tool_merge_scope [of A B] by simp

lemma tool_fold_outcomes:
  assumes "try_fold (tool_merge A B) st items = Inr st'"
  shows "try_fold add_outcomes (case_option outcome_counts_default (\<lambda>c. c) (snd st))
       (map (\<lambda>item. me_outcomes (snd (snd item))) items)
       = Inr (case_option outcome_counts_default (\<lambda>c. c) (snd st'))"
  using assms by (rule try_fold_project) (rule tool_merge_outcomes)

text \<open>What an agent reports for a tool, zero when it never called it.\<close>

definition tool_counts :: "string \<Rightarrow> agent_evidence \<Rightarrow> outcome_counts" where
  "tool_counts t a = (case bt_get (ev_per_tool a) t of None \<Rightarrow> outcome_counts_default
     | Some m \<Rightarrow> me_outcomes m)"

lemma tool_items_sum:
  assumes "f outcome_counts_default = (0 :: nat)"
  shows "sum_list (map (\<lambda>item. f (me_outcomes (snd (snd item)))) (tool_items t evs))
      = sum_list (map (\<lambda>a. f (tool_counts t a)) evs)"
  using assms by (induction evs) (auto simp: tool_items_def tool_item_def tool_counts_def split: option.splits)

lemma tool_items_Nil: "tool_items t evs = [] \<longleftrightarrow> t \<notin> (\<Union>a \<in> set evs. dom (bt_get (ev_per_tool a)))"
  by (induction evs) (auto simp: tool_items_def tool_item_def split: option.splits)

lemma scope_samples_items:
  "scope_samples items = sum_list (map (\<lambda>item. latency_samples (me_outcomes (snd (snd item)))) items)"
  by (induction items) (auto simp: scope_samples_def)

lemma count_default [simp]: "count_of outcome_counts_default oc = 0"
  by (cases oc) (simp_all add: outcome_counts_default_def)

subsection \<open>When aggregation succeeds\<close>

text \<open>A scope merges exactly when all its payloads validate and share one histogram layout.\<close>

definition validates :: "'h hdr_api \<Rightarrow> base64_api \<Rightarrow> hdr_layout \<Rightarrow> metrics_evidence \<Rightarrow> bool" where
  "validates A B lay m \<longleftrightarrow> (\<exists>h. to_histogram A B (me_latency m) = Inr h
     \<and> unat (hdr_len A h) = latency_samples (me_outcomes m) \<and> hdr_layout_of A h = lay)"

definition scope_ok :: "'h hdr_api \<Rightarrow> base64_api \<Rightarrow> metrics_evidence list \<Rightarrow> bool" where
  "scope_ok A B ms \<longleftrightarrow> (\<exists>lay. list_all (validates A B lay) ms)"

lemma decode_validated_ok_iff:
  "decode_validated_metrics A B agent scope m = Inr h \<longleftrightarrow>
     to_histogram A B (me_latency m) = Inr h \<and> unat (hdr_len A h) = latency_samples (me_outcomes m)"
proof
  assume "decode_validated_metrics A B agent scope m = Inr h"
  then show "to_histogram A B (me_latency m) = Inr h \<and> unat (hdr_len A h) = latency_samples (me_outcomes m)"
    using decode_validated_InrD(1,2) [of A B agent scope m h] by simp
next
  assume r: "to_histogram A B (me_latency m) = Inr h \<and> unat (hdr_len A h) = latency_samples (me_outcomes m)"
  let ?c = "me_outcomes m"
  have lt: "unat (oc_success ?c) + unat (oc_hang ?c) + unat (oc_deadlock ?c) < 2 ^ 64"
    using r unat_lt2p_u64 [of "hdr_len A h"] by (simp add: latency_samples_def)
  then have 1: "checked_add (oc_success ?c) (oc_hang ?c) = Some (oc_success ?c + oc_hang ?c)"
    "unat (oc_success ?c + oc_hang ?c) = unat (oc_success ?c) + unat (oc_hang ?c)"
    by (simp_all add: checked_add_def unat_word_ariths)
  then have "checked_add (oc_success ?c + oc_hang ?c) (oc_deadlock ?c) = Some (hdr_len A h)"
    using r lt by (simp add: checked_add_Some_iff latency_samples_def)
  with r 1 show "decode_validated_metrics A B agent scope m = Inr h"
    by (simp add: decode_validated_metrics_def)
qed

lemma merge_histogram_ok_iff:
  assumes "hdr_contract A"
  shows "(\<exists>c. merge_histogram A (Some h) h' agent scope = Inr c) \<longleftrightarrow> hdr_layout_of A h = hdr_layout_of A h'"
proof
  assume "hdr_layout_of A h = hdr_layout_of A h'"
  then show "\<exists>c. merge_histogram A (Some h) h' agent scope = Inr c"
  proof -
    assume lay: "hdr_layout_of A h = hdr_layout_of A h'"
    obtain c where "hdr_add A h h' = Some c" using hdr_addD [OF assms lay] by blast
    then show ?thesis using lay
      by (simp add: merge_histogram_def ensure_compatible_def hdr_layout_of_def)
  qed
qed (use merge_histogram_InrD(1) [OF assms] in blast)

abbreviation item_metrics :: "string \<times> string \<times> metrics_evidence \<Rightarrow> metrics_evidence" where
  "item_metrics item \<equiv> snd (snd item)"

lemma merge_scope_ok_iff:
  assumes "hdr_contract A"
  shows "(\<exists>r. merge_scope A B (Some h) item = Inr r) \<longleftrightarrow>
     validates A B (hdr_layout_of A h) (item_metrics item)"
    and "merge_scope A B (Some h) item = Inr (Some h') \<Longrightarrow> hdr_layout_of A h' = hdr_layout_of A h"
proof -
  obtain agent scope m where item: "item = (agent, scope, m)" by (cases item)
  have "(\<exists>r. merge_scope A B (Some h) item = Inr r) \<longleftrightarrow>
      (\<exists>h'. decode_validated_metrics A B agent scope m = Inr h'
        \<and> (\<exists>c. merge_histogram A (Some h) h' agent scope = Inr c))"
    by (simp add: item merge_scope_def ex_and_then)
  then show "(\<exists>r. merge_scope A B (Some h) item = Inr r) \<longleftrightarrow>
     validates A B (hdr_layout_of A h) (item_metrics item)"
    unfolding merge_histogram_ok_iff [OF assms] decode_validated_ok_iff
    by (auto simp: validates_def item)
  show "merge_scope A B (Some h) item = Inr (Some h') \<Longrightarrow> hdr_layout_of A h' = hdr_layout_of A h"
    unfolding item using merge_histogram_InrD(2) [OF assms] by (elim merge_scope_InrE) auto
qed

lemma merge_scopes_Some_ok:
  assumes A: "hdr_contract A"
  shows "(\<exists>r. try_fold (merge_scope A B) (Some h) items = Inr r) \<longleftrightarrow>
     list_all (\<lambda>item. validates A B (hdr_layout_of A h) (item_metrics item)) items"
proof (induction items arbitrary: h)
  case (Cons item items)
  show ?case
  proof (cases "\<exists>r. merge_scope A B (Some h) item = Inr r")
    case True
    then obtain h' where h': "merge_scope A B (Some h) item = Inr (Some h')"
      using merge_scope_Some by blast
    then show ?thesis
      using Cons.IH [of h'] merge_scope_ok_iff(2) [OF A h'] merge_scope_ok_iff(1) [OF A, of B h item] True
      by simp
  next
    case False
    then have "\<not> validates A B (hdr_layout_of A h) (item_metrics item)"
      using merge_scope_ok_iff(1) [OF A] by blast
    with False show ?thesis by (auto simp: and_then_Inr_iff)
  qed
qed simp

lemma merge_scopes_ok:
  assumes A: "hdr_contract A"
  shows "(\<exists>r. try_fold (merge_scope A B) None items = Inr r) \<longleftrightarrow> scope_ok A B (map item_metrics items)"
proof (cases items)
  case Nil
  then show ?thesis by (simp add: scope_ok_def)
next
  case (Cons item rest)
  obtain agent scope m where item: "item = (agent, scope, m)" by (cases item)
  have "merge_scope A B None item = Inr r \<longleftrightarrow> (\<exists>h. r = Some h \<and> to_histogram A B (me_latency m) = Inr h
      \<and> unat (hdr_len A h) = latency_samples (me_outcomes m))" for r
    by (auto simp: item merge_scope_def merge_histogram_def and_then_Inr_iff decode_validated_ok_iff)
  then have "(\<exists>r. try_fold (merge_scope A B) None items = Inr r) \<longleftrightarrow>
      (\<exists>h. to_histogram A B (me_latency m) = Inr h \<and> unat (hdr_len A h) = latency_samples (me_outcomes m)
        \<and> (\<exists>r. try_fold (merge_scope A B) (Some h) rest = Inr r))"
    by (auto simp: Cons and_then_Inr_iff)
  also have "\<dots> \<longleftrightarrow> scope_ok A B (map item_metrics items)"
    unfolding merge_scopes_Some_ok [OF A]
    by (auto simp: scope_ok_def Cons item validates_def [of A B _ m] list_all_iff
        simp del: split_paired_Ex split_paired_All)
  finally show ?thesis .
qed

lemma agg_tool_ok_iff:
  "(\<exists>r. agg_tool A B agent (hists, outs) (tool, m) = Inr r) \<longleftrightarrow>
     (\<exists>r. tool_merge A B (bt_get hists tool, bt_get outs tool) (agent, tool, m) = Inr r)"
  by (auto simp: agg_tool_def tool_merge_def merge_scope_def and_then_Inr_iff)

abbreviation tool_state ::
  "(string, 'h) btree \<times> (string, outcome_counts) btree \<Rightarrow> string \<Rightarrow> 'h option \<times> outcome_counts option"
where
  "tool_state st t \<equiv> (bt_get (fst st) t, bt_get (snd st) t)"

lemma agg_tools_ok:
  assumes "distinct (map fst items)"
  shows "(\<exists>r. try_fold (agg_tool A B agent) st items = Inr r) \<longleftrightarrow>
     list_all (\<lambda>(t, m). \<exists>r. tool_merge A B (tool_state st t) (agent, t, m) = Inr r) items"
  using assms
proof (induction items arbitrary: st)
  case (Cons item items)
  obtain tool m where item: "item = (tool, m)" by (cases item)
  obtain hs os where st: "st = (hs, os)" by (cases st)
  have iff: "(\<exists>r. agg_tool A B agent st item = Inr r) \<longleftrightarrow>
      (\<exists>r. tool_merge A B (tool_state st tool) (agent, tool, m) = Inr r)"
    using agg_tool_ok_iff by (simp add: item st)
  show ?case
  proof (cases "\<exists>r. agg_tool A B agent st item = Inr r")
    case True
    then obtain hs1 os1 where s1: "agg_tool A B agent (hs, os) (tool, m) = Inr (hs1, os1)"
      by (auto simp: item st)
    have same: "tool_state (hs1, os1) t = tool_state st t" if "t \<in> fst ` set items" for t
    proof -
      have "t \<noteq> tool" using that Cons.prems by (auto simp: item)
      then show ?thesis using agg_tool_InrD(2) [OF s1] by (simp add: st)
    qed
    have "list_all (\<lambda>(t, m). \<exists>r. tool_merge A B (tool_state (hs1, os1) t) (agent, t, m) = Inr r) items
        \<longleftrightarrow> list_all (\<lambda>(t, m). \<exists>r. tool_merge A B (tool_state st t) (agent, t, m) = Inr r) items"
    proof (intro list.pred_cong refl)
      fix x assume "x \<in> set items"
      then have "tool_state (hs1, os1) (fst x) = tool_state st (fst x)" by (intro same imageI)
      then show "(case x of (t, m) \<Rightarrow> \<exists>r. tool_merge A B (tool_state (hs1, os1) t) (agent, t, m) = Inr r)
          = (case x of (t, m) \<Rightarrow> \<exists>r. tool_merge A B (tool_state st t) (agent, t, m) = Inr r)"
        unfolding case_prod_beta by (simp only:)
    qed
    then show ?thesis
      using Cons.IH [of "(hs1, os1)"] Cons.prems iff True s1 by (simp add: item st)
  next
    case False
    then show ?thesis using iff by (auto simp: and_then_Inr_iff item)
  qed
qed simp

lemma agg_tools_ok_iff:
  assumes "bt_wf (ev_per_tool a)"
  shows "(\<exists>r. try_fold (agg_tool A B (ev_agent_name a)) st (ev_per_tool a) = Inr r) \<longleftrightarrow>
     (\<forall>t. \<exists>r. try_fold (tool_merge A B) (tool_state st t) (tool_item t a) = Inr r)"
proof -
  have "(\<exists>r. try_fold (tool_merge A B) (tool_state st t) (tool_item t a) = Inr r) \<longleftrightarrow>
      (\<forall>m. bt_get (ev_per_tool a) t = Some m \<longrightarrow>
         (\<exists>r. tool_merge A B (tool_state st t) (ev_agent_name a, t, m) = Inr r))" for t
    by (auto simp: tool_item_def and_then_Inr_iff split: option.splits)
  then show ?thesis
    using agg_tools_ok [OF bt_wf_distinct [OF assms], of A B "ev_agent_name a" st]
      bt_values_all [OF assms, of "\<lambda>t m. \<exists>r. tool_merge A B (tool_state st t) (ev_agent_name a, t, m) = Inr r"]
    by (simp add: list_all_iff)
qed

lemma agg_agent_ok_iff:
  assumes "bt_wf (ev_per_tool a)"
  shows "(\<exists>r. agg_agent A B n p i st a = Inr r) \<longleftrightarrow>
     (\<exists>r. identity_step n p i (as_names st, as_shard_indices st) a = Inr r)
     \<and> (\<exists>r. add_named ''global_concurrency'' (as_global_concurrency st) (sh_concurrency (ev_shard a)) = Inr r)
     \<and> (\<exists>r. merge_scope A B (as_histogram st) (global_item a) = Inr r)
     \<and> (\<exists>r. add_outcomes (as_outcomes st) (me_outcomes (ev_metrics a)) = Inr r)
     \<and> (\<exists>r. add_scenario_outcome (as_scenario_outcome st) (ev_scenario_outcome a) (ev_agent_name a) = Inr r)
     \<and> (\<forall>t. \<exists>r. try_fold (tool_merge A B) (tool_state (as_tool_histograms st, as_tool_outcomes st) t)
            (tool_item t a) = Inr r)"
proof -
  have "(\<exists>r. agg_agent A B n p i st a = Inr r) \<longleftrightarrow>
     (\<exists>r. identity_step n p i (as_names st, as_shard_indices st) a = Inr r)
     \<and> (\<exists>r. add_named ''global_concurrency'' (as_global_concurrency st) (sh_concurrency (ev_shard a)) = Inr r)
     \<and> (\<exists>r. merge_scope A B (as_histogram st) (global_item a) = Inr r)
     \<and> (\<exists>r. add_outcomes (as_outcomes st) (me_outcomes (ev_metrics a)) = Inr r)
     \<and> (\<exists>r. add_scenario_outcome (as_scenario_outcome st) (ev_scenario_outcome a) (ev_agent_name a) = Inr r)
     \<and> (\<exists>r. try_fold (agg_tool A B (ev_agent_name a)) (as_tool_histograms st, as_tool_outcomes st)
          (ev_per_tool a) = Inr r)"
    by (auto simp: agg_agent_def Let_def ex_and_then identity_step_def merge_scope_def global_item_def)
  then show ?thesis unfolding agg_tools_ok_iff [OF assms] .
qed

lemma agg_agents_ok_iff:
  assumes "list_all (\<lambda>a. bt_wf (ev_per_tool a)) evs"
  shows "(\<exists>r. try_fold (agg_agent A B n p i) st evs = Inr r) \<longleftrightarrow>
     (\<exists>r. try_fold (identity_step n p i) (as_names st, as_shard_indices st) evs = Inr r)
     \<and> (\<exists>r. try_fold (add_named ''global_concurrency'') (as_global_concurrency st)
          (map (\<lambda>a. sh_concurrency (ev_shard a)) evs) = Inr r)
     \<and> (\<exists>r. try_fold (merge_scope A B) (as_histogram st) (map global_item evs) = Inr r)
     \<and> (\<exists>r. try_fold add_outcomes (as_outcomes st) (map (\<lambda>a. me_outcomes (ev_metrics a)) evs) = Inr r)
     \<and> (\<exists>r. try_fold (\<lambda>into (name, from). add_scenario_outcome into from name) (as_scenario_outcome st)
          (map (\<lambda>a. (ev_agent_name a, ev_scenario_outcome a)) evs) = Inr r)
     \<and> (\<forall>t. \<exists>r. try_fold (tool_merge A B) (tool_state (as_tool_histograms st, as_tool_outcomes st) t)
          (tool_items t evs) = Inr r)"
  using assms
proof (induction evs arbitrary: st)
  case Nil
  then show ?case by (simp add: tool_items_def)
next
  case (Cons a evs)
  then have wf: "bt_wf (ev_per_tool a)" "list_all (\<lambda>a. bt_wf (ev_per_tool a)) evs" by simp_all
  have items: "tool_items t (a # evs) = tool_item t a @ tool_items t evs" for t
    by (simp add: tool_items_def)
  show ?case
  proof (cases "\<exists>r. agg_agent A B n p i st a = Inr r")
    case True
    then obtain st1 where st1: "agg_agent A B n p i st a = Inr st1" by blast
    note D = agg_agent_InrD [OF st1]
    have tool: "try_fold (tool_merge A B) (tool_state (as_tool_histograms st, as_tool_outcomes st) t)
        (tool_item t a) = Inr (tool_state (as_tool_histograms st1, as_tool_outcomes st1) t)" for t
      using agg_tools_tool [OF D(6) bt_wf_distinct [OF wf(1)], of t] by (simp add: tool_item_def)
    have "identity_step n p i (as_names st, as_shard_indices st) a = Inr (as_names st1, as_shard_indices st1)"
      using D(1) by (simp add: identity_step_def)
    then show ?thesis
      using Cons.IH [OF wf(2), of st1] st1 D(2-5) tool
      by (simp add: items try_fold_append global_item_def)
  next
    case False
    then have "\<nexists>r. try_fold (agg_agent A B n p i) st (a # evs) = Inr r"
      by (simp add: ex_and_then)
    moreover note False [unfolded agg_agent_ok_iff [OF wf(1)]]
    ultimately show ?thesis
      unfolding items try_fold_append list.map try_fold.simps ex_and_then prod.case by blast
  qed
qed

text \<open>The cohorts that can be aggregated, in terms that do not depend on the order of the agents.\<close>

definition sums_below :: "nat \<Rightarrow> (agent_evidence \<Rightarrow> nat) \<Rightarrow> agent_evidence list \<Rightarrow> bool" where
  "sums_below limit f evs \<longleftrightarrow> sum_list (map f evs) < limit"

definition tool_metrics :: "string \<Rightarrow> agent_evidence list \<Rightarrow> metrics_evidence list" where
  "tool_metrics t evs = map item_metrics (tool_items t evs)"

definition cohort_ok :: "'h hdr_api \<Rightarrow> base64_api \<Rightarrow> agent_evidence list \<Rightarrow> bool" where
  "cohort_ok A B evs \<longleftrightarrow>
     evs \<noteq> [] \<and> length evs < 2 ^ 32
     \<and> (\<exists>p i. list_all (member_ok (of_nat (length evs)) p i) evs)
     \<and> distinct (map ev_agent_name evs) \<and> distinct (map ev_index evs)
     \<and> sums_below (2 ^ 32) (\<lambda>a. unat (sh_concurrency (ev_shard a))) evs
     \<and> scope_ok A B (map ev_metrics evs)
     \<and> sums_below (2 ^ 64) (\<lambda>a. counts_sum (me_outcomes (ev_metrics a))) evs
     \<and> (\<forall>i. sums_below (scenario_limit i) (\<lambda>a. scenario_count (ev_scenario_outcome a) i) evs)
     \<and> (\<forall>t. scope_ok A B (tool_metrics t evs)
          \<and> sums_below (2 ^ 64) (\<lambda>a. counts_sum (tool_counts t a)) evs)
     \<and> (list_ex (\<lambda>a. counts_sum (me_outcomes (ev_metrics a)) \<noteq> 0) evs \<longrightarrow>
          list_ex (\<lambda>a. ev_measurement_elapsed_ms a \<noteq> 0) evs)"

lemma mset_tool_items: "mset (tool_items t evs) = \<Sum>\<^sub># (image_mset (\<lambda>a. mset (tool_item t a)) (mset evs))"
  by (induction evs) (simp_all add: tool_items_def)

lemma mset_tool_metrics: "mset evs = mset evs' \<Longrightarrow> mset (tool_metrics t evs) = mset (tool_metrics t evs')"
  by (simp add: tool_metrics_def mset_tool_items)

lemma cohort_ok_mset:
  assumes "mset evs = mset evs'" "cohort_ok A B evs"
  shows "cohort_ok A B evs'"
proof -
  have len: "length evs = length evs'" using assms(1) by (rule mset_eq_length)
  have s: "set evs = set evs'" using assms(1) by (rule mset_eq_setD)
  have sums_eq: "sums_below l f evs = sums_below l f evs'" for l f
    unfolding sums_below_def using assms(1) by (metis mset_map sum_mset_sum_list)
  have dist: "distinct (map f evs) = distinct (map f evs')" for f :: "agent_evidence \<Rightarrow> 'b"
    using assms(1) by (intro mset_eq_imp_distinct_iff) simp
  have la: "list_all P evs = list_all P evs'" "list_ex P evs = list_ex P evs'" for P
    using s by (simp_all add: list_all_iff list_ex_iff)
  have sc: "scope_ok A B (map ev_metrics evs) = scope_ok A B (map ev_metrics evs')"
    using s by (simp add: scope_ok_def list_all_iff)
  have st: "scope_ok A B (tool_metrics t evs) = scope_ok A B (tool_metrics t evs')" for t
    using mset_eq_setD [OF mset_tool_metrics [OF assms(1), of t]] by (simp add: scope_ok_def list_all_iff)
  have ne: "evs = [] \<longleftrightarrow> evs' = []" using len by auto
  show ?thesis
    using assms(2) unfolding cohort_ok_def len sums_eq dist la sc st ne .
qed

lemma counts_sum_0_iff: "counts_sum c = 0 \<longleftrightarrow> (\<forall>oc. count_of c oc = 0)"
  unfolding all_call_outcomes by (simp add: counts_sum_def all_outcomes_def unat_eq_0)

lemma sum_counts_below:
  assumes "sum_list (map counts_sum cs) < 2 ^ 64"
  shows "\<exists>c. try_fold add_outcomes outcome_counts_default cs = Inr c"
proof -
  have "sum_list (map (\<lambda>c. unat (count_of c oc)) cs) < 2 ^ 64" for oc
    by (rule le_less_trans [OF sum_list_mono assms]) (rule count_le_sum)
  then show ?thesis by (simp add: outcome_sum.fold_ok)
qed

lemma summarize_ok:
  "(\<exists>m. summarize A h c e = Inr m) \<longleftrightarrow> counts_sum c < 2 ^ 64"
proof -
  have "unat (oc_success c) + unat (oc_expected_rejection c) \<le> counts_sum c"
    by (simp add: counts_sum_def all_outcomes_def)
  then show ?thesis
    using outcome_total_ok [of c] by (auto simp: summarize_def ex_and_then add_named_ok_iff)
qed

lemma tool_merges_ok:
  assumes "hdr_contract A"
  shows "(\<exists>r. try_fold (tool_merge A B) (None, None) items = Inr r) \<longleftrightarrow>
     scope_ok A B (map item_metrics items)
     \<and> (\<exists>c. try_fold add_outcomes outcome_counts_default (map (\<lambda>item. me_outcomes (item_metrics item)) items) = Inr c)"
proof -
  have "(\<exists>r. try_fold (tool_merge A B) st items = Inr r) \<longleftrightarrow>
      (\<exists>r. try_fold (merge_scope A B) (fst st) items = Inr r)
      \<and> (\<exists>c. try_fold add_outcomes (case_option outcome_counts_default (\<lambda>c. c) (snd st))
           (map (\<lambda>item. me_outcomes (item_metrics item)) items) = Inr c)" for st
  proof (induction items arbitrary: st)
    case (Cons item items)
    have step: "(\<exists>r. tool_merge A B st item = Inr r) \<longleftrightarrow> (\<exists>r. merge_scope A B (fst st) item = Inr r)
        \<and> (\<exists>c. add_outcomes (case_option outcome_counts_default (\<lambda>c. c) (snd st))
             (me_outcomes (item_metrics item)) = Inr c)"
      by (auto simp: tool_merge_def ex_and_then simp del: split_paired_Ex)
    show ?case
    proof (cases "\<exists>r. tool_merge A B st item = Inr r")
      case True
      then obtain st1 where st1: "tool_merge A B st item = Inr st1" by blast
      show ?thesis
        using Cons.IH [of st1] st1 tool_merge_scope [OF st1] tool_merge_outcomes [OF st1] by simp
    next
      case False
      then have "\<nexists>r. try_fold (tool_merge A B) st (item # items) = Inr r"
        unfolding try_fold.simps ex_and_then by blast
      moreover note False [unfolded step]
      ultimately show ?thesis unfolding list.map try_fold.simps ex_and_then by blast
    qed
  qed simp
  from this [of "(None, None)"] show ?thesis using merge_scopes_ok [OF assms] by simp
qed

lemma summarize_tool_ok:
  "(\<exists>r. summarize_tool A outs e item = Inr r) \<longleftrightarrow>
     counts_sum (case bt_get outs (fst item) of None \<Rightarrow> outcome_counts_default | Some c \<Rightarrow> c) < 2 ^ 64"
  unfolding summarize_tool_def ex_and_then
  using summarize_ok [of A "snd item" _ e] by (simp del: split_paired_Ex)

lemma traverse_summarize_ok:
  "(\<exists>pt. traverse (summarize_tool A outs e) hists = Inr pt) \<longleftrightarrow>
     list_all (\<lambda>item. counts_sum (case bt_get outs (fst item) of None \<Rightarrow> outcome_counts_default
       | Some c \<Rightarrow> c) < 2 ^ 64) hists"
proof (induction hists)
  case (Cons item hists)
  then show ?case
    unfolding traverse.simps ex_and_then list.pred_inject
    using summarize_tool_ok [of A outs e item] by blast
qed simp

lemma max_zero_u64: "max (a :: u64) b = 0 \<longleftrightarrow> a = 0 \<and> b = 0"
  using max.cobounded1 [of a b] max.cobounded2 [of b a] by (auto simp: word_le_nat_alt unat_eq_0)

lemma fold_max_zero: "fold max ws (m :: u64) = 0 \<longleftrightarrow> m = 0 \<and> list_all (\<lambda>w. w = 0) ws"
  by (induction ws arbitrary: m) (auto simp: max_zero_u64)

lemma total_with_interval:
  "(\<exists>n. outcome_total c = Inr n \<and> \<not> (0 < n \<and> e = (0 :: u64))) \<longleftrightarrow>
     counts_sum c < 2 ^ 64 \<and> (counts_sum c = 0 \<or> e \<noteq> 0)"
proof -
  have z: "\<not> 0 < n \<longleftrightarrow> counts_sum c = 0" if "outcome_total c = Inr n" for n
    using outcome_total_view [OF that] by (simp add: word_gt_0 unat_eq_0 [symmetric])
  then show ?thesis unfolding outcome_total_ok [symmetric] by blast
qed

lemma aggregate_ok_iff:
  fixes A :: "'h hdr_api"
  assumes "evs = a # rest"
  shows "(\<exists>g. aggregate_evidence A B evs = Inr g) \<longleftrightarrow>
     length evs < 2 ^ 32
     \<and> (\<exists>st. try_fold (agg_agent A B (of_nat (length evs)) (ev_target_protocol_version a)
            (ev_tool_inventory_hash a)) agg_start evs = Inr st
          \<and> as_histogram st \<noteq> None \<and> counts_sum (as_outcomes st) < 2 ^ 64
          \<and> (counts_sum (as_outcomes st) = 0 \<or> as_measurement_elapsed_ms st \<noteq> 0)
          \<and> list_all (\<lambda>item. counts_sum (case bt_get (as_tool_outcomes st) (fst item) of
               None \<Rightarrow> outcome_counts_default | Some c \<Rightarrow> c) < 2 ^ 64) (as_tool_histograms st))"
proof -
  let ?tail = "\<lambda>st h. \<exists>n. outcome_total (as_outcomes st) = Inr n
      \<and> (\<exists>u. fail_if (0 < n \<and> as_measurement_elapsed_ms st = 0) Agg_MissingMeasurementInterval = Inr u
      \<and> (\<exists>m. summarize A h (as_outcomes st) (as_measurement_elapsed_ms st) = Inr m
      \<and> (\<exists>pt. traverse (summarize_tool A (as_tool_outcomes st) (as_measurement_elapsed_ms st))
            (as_tool_histograms st) = Inr pt)))"
  have tail: "?tail st h \<longleftrightarrow> counts_sum (as_outcomes st) < 2 ^ 64
      \<and> (counts_sum (as_outcomes st) = 0 \<or> as_measurement_elapsed_ms st \<noteq> 0)
      \<and> list_all (\<lambda>item. counts_sum (case bt_get (as_tool_outcomes st) (fst item) of
           None \<Rightarrow> outcome_counts_default | Some c \<Rightarrow> c) < 2 ^ 64) (as_tool_histograms st)" for st h
    unfolding fail_if_Inr_iff
    using traverse_summarize_ok [of A "as_tool_outcomes st" "as_measurement_elapsed_ms st" "as_tool_histograms st"]
      total_with_interval [of "as_outcomes st" "as_measurement_elapsed_ms st"]
      summarize_ok [of A h "as_outcomes st" "as_measurement_elapsed_ms st"] by blast
  have "(\<exists>g. aggregate_evidence A B evs = Inr g) \<longleftrightarrow>
      (\<exists>u. fail_if (2 ^ 32 \<le> length evs) (Agg_CounterOverflow ''agent_count'') = Inr u
      \<and> (\<exists>st. try_fold (agg_agent A B (of_nat (length evs)) (ev_target_protocol_version a)
            (ev_tool_inventory_hash a)) agg_start evs = Inr st
      \<and> (\<exists>h. ok_or Agg_EmptyCohort (as_histogram st) = Inr h \<and> ?tail st h)))"
    unfolding aggregate_evidence_def assms list.case ex_and_then by blast
  moreover have "(\<exists>h. x = Some h \<and> P) \<longleftrightarrow> x \<noteq> None \<and> P" for x :: "'h option" and P by auto
  ultimately show ?thesis
    unfolding tail unfolding fail_if_Inr_iff ok_or_Inr_iff not_le by (simp only: ex_simps simp_thms)
qed

lemma agg_agents_results:
  assumes wf: "list_all (\<lambda>a. bt_wf (ev_per_tool a)) evs"
    and st: "try_fold (agg_agent A B n p i) agg_start evs = Inr st"
  shows "counts_sum (as_outcomes st) = sum_list (map (\<lambda>a. counts_sum (me_outcomes (ev_metrics a))) evs)"
    and "as_measurement_elapsed_ms st = 0 \<longleftrightarrow> \<not> list_ex (\<lambda>a. ev_measurement_elapsed_ms a \<noteq> 0) evs"
    and "evs \<noteq> [] \<Longrightarrow> as_histogram st \<noteq> None"
    and "list_all (\<lambda>item. counts_sum (case bt_get (as_tool_outcomes st) (fst item) of
           None \<Rightarrow> outcome_counts_default | Some c \<Rightarrow> c) < 2 ^ 64) (as_tool_histograms st)
         \<longleftrightarrow> (\<forall>t. sums_below (2 ^ 64) (\<lambda>a. counts_sum (tool_counts t a)) evs)"
proof -
  show "counts_sum (as_outcomes st) = sum_list (map (\<lambda>a. counts_sum (me_outcomes (ev_metrics a))) evs)"
    using counts_sum_fold(2) agg_agents_outcomes [OF st] by (simp add: comp_def)
  show "as_measurement_elapsed_ms st = 0 \<longleftrightarrow> \<not> list_ex (\<lambda>a. ev_measurement_elapsed_ms a \<noteq> 0) evs"
    using agg_agents_delays [OF st] by (simp add: fold_max_zero list_all_iff list_ex_iff)
  show "as_histogram st \<noteq> None" if "evs \<noteq> []"
    using agg_agents_histogram [OF st] merge_scopes_None [of A B None "map global_item evs"] that by auto
  have tool: "try_fold (tool_merge A B) (None, None) (tool_items t evs)
      = Inr (bt_get (as_tool_histograms st) t, bt_get (as_tool_outcomes st) t)" for t
    using agg_agents_tool [OF st wf, of t] by simp
  let ?c = "\<lambda>t. case bt_get (as_tool_outcomes st) t of None \<Rightarrow> outcome_counts_default | Some c \<Rightarrow> c"
  have sums: "counts_sum (?c t) = sum_list (map (\<lambda>a. counts_sum (tool_counts t a)) evs)" for t
    using counts_sum_fold(2) [of "map (\<lambda>item. me_outcomes (item_metrics item)) (tool_items t evs)" "?c t"]
      tool_fold_outcomes [OF tool [of t]] tool_items_sum [of counts_sum t evs] by (simp add: comp_def)
  have none: "counts_sum (?c t) = 0" if "bt_get (as_tool_histograms st) t = None" for t
  proof -
    have "tool_items t evs = []"
      using tool_fold_scope [OF tool [of t]] merge_scopes_None [of A B None "tool_items t evs"] that by simp
    then show ?thesis using sums [of t] tool_items_sum [of counts_sum t evs] by simp
  qed
  have "bt_wf (as_tool_histograms st)" using agg_agents_wf [OF st] by simp
  from bt_values_all [OF this, of "\<lambda>t h. counts_sum (?c t) < 2 ^ 64"]
  have "list_all (\<lambda>item. counts_sum (?c (fst item)) < 2 ^ 64) (as_tool_histograms st)
      \<longleftrightarrow> (\<forall>t h. bt_get (as_tool_histograms st) t = Some h \<longrightarrow> counts_sum (?c t) < 2 ^ 64)"
    by (simp add: list_all_iff case_prod_beta)
  also have "\<dots> \<longleftrightarrow> (\<forall>t. counts_sum (?c t) < 2 ^ 64)"
    using none by (metis not_Some_eq zero_less_numeral zero_less_power)
  finally show "list_all (\<lambda>item. counts_sum (?c (fst item)) < 2 ^ 64) (as_tool_histograms st)
      \<longleftrightarrow> (\<forall>t. sums_below (2 ^ 64) (\<lambda>a. counts_sum (tool_counts t a)) evs)"
    by (simp add: sums sums_below_def)
qed

lemma agg_agents_components:
  assumes A: "hdr_contract A" and wf: "list_all (\<lambda>a. bt_wf (ev_per_tool a)) evs"
    and g: "sums_below (2 ^ 64) (\<lambda>a. counts_sum (me_outcomes (ev_metrics a))) evs"
    and t: "\<And>t. sums_below (2 ^ 64) (\<lambda>a. counts_sum (tool_counts t a)) evs"
  shows "(\<exists>st. try_fold (agg_agent A B n p i) agg_start evs = Inr st) \<longleftrightarrow>
     list_all (member_ok n p i) evs \<and> distinct (map ev_agent_name evs) \<and> distinct (map ev_index evs)
     \<and> sums_below (2 ^ 32) (\<lambda>a. unat (sh_concurrency (ev_shard a))) evs
     \<and> scope_ok A B (map ev_metrics evs)
     \<and> (\<forall>i. sums_below (scenario_limit i) (\<lambda>a. scenario_count (ev_scenario_outcome a) i) evs)
     \<and> (\<forall>t. scope_ok A B (tool_metrics t evs))"
proof -
  have "\<exists>c. try_fold add_outcomes outcome_counts_default (map (\<lambda>a. me_outcomes (ev_metrics a)) evs) = Inr c"
    by (rule sum_counts_below) (use g in \<open>simp add: sums_below_def comp_def\<close>)
  moreover have "\<exists>c. try_fold add_outcomes outcome_counts_default
      (map (\<lambda>item. me_outcomes (item_metrics item)) (tool_items t evs)) = Inr c" for t
    by (rule sum_counts_below)
      (use t [of t] tool_items_sum [of counts_sum t evs] in \<open>simp add: sums_below_def comp_def\<close>)
  moreover have "(\<exists>r. try_fold (identity_step n p i) ([], []) evs = Inr r) \<longleftrightarrow>
      list_all (member_ok n p i) evs \<and> distinct (map ev_agent_name evs) \<and> distinct (map ev_index evs)"
    unfolding identity_fold by simp
  moreover have "scenario_count scenario_outcome_default i = 0" for i
    by (cases i) (simp_all add: scenario_outcome_default_def)
  ultimately show ?thesis
    unfolding agg_agents_ok_iff [OF wf]
    by (simp add: merge_scopes_ok [OF A] tool_merges_ok [OF A] concurrency_sum.fold_ok
        scenario_sum.fold_ok sums_below_def tool_metrics_def comp_def global_item_def
        del: split_paired_Ex)
qed

lemma aggregate_ok:
  assumes A: "hdr_contract A" and wf: "list_all (\<lambda>a. bt_wf (ev_per_tool a)) evs"
  shows "(\<exists>g. aggregate_evidence A B evs = Inr g) \<longleftrightarrow> cohort_ok A B evs"
proof (cases evs)
  case Nil
  then show ?thesis by (simp add: aggregate_evidence_def cohort_ok_def)
next
  case (Cons a rest)
  let ?n = "of_nat (length evs) :: u32" and ?p = "ev_target_protocol_version a"
    and ?i = "ev_tool_inventory_hash a"
  let ?g = "sums_below (2 ^ 64) (\<lambda>a. counts_sum (me_outcomes (ev_metrics a))) evs"
    and ?t = "\<forall>t. sums_below (2 ^ 64) (\<lambda>a. counts_sum (tool_counts t a)) evs"
    and ?e = "list_ex (\<lambda>a. counts_sum (me_outcomes (ev_metrics a)) \<noteq> 0) evs \<longrightarrow>
          list_ex (\<lambda>a. ev_measurement_elapsed_ms a \<noteq> 0) evs"
  have zero: "sum_list (map f evs) = 0 \<longleftrightarrow> \<not> list_ex (\<lambda>a. f a \<noteq> 0) evs" for f :: "agent_evidence \<Rightarrow> nat"
    by (induction evs) auto
  have "(\<exists>g. aggregate_evidence A B evs = Inr g) \<longleftrightarrow> length evs < 2 ^ 32
      \<and> (\<exists>st. try_fold (agg_agent A B ?n ?p ?i) agg_start evs = Inr st) \<and> ?g \<and> ?t \<and> ?e"
  proof -
    have "as_histogram st \<noteq> None \<and> counts_sum (as_outcomes st) < 2 ^ 64
        \<and> (counts_sum (as_outcomes st) = 0 \<or> as_measurement_elapsed_ms st \<noteq> 0)
        \<and> list_all (\<lambda>item. counts_sum (case bt_get (as_tool_outcomes st) (fst item) of
             None \<Rightarrow> outcome_counts_default | Some c \<Rightarrow> c) < 2 ^ 64) (as_tool_histograms st)
        \<longleftrightarrow> ?g \<and> ?t \<and> ?e"
      if fold: "try_fold (agg_agent A B ?n ?p ?i) agg_start evs = Inr st" for st
    proof -
      have "evs \<noteq> []" using Cons by simp
      note res = agg_agents_results [OF wf fold]
      show ?thesis
        unfolding res(1,2,4) zero sums_below_def [of _ "\<lambda>a. counts_sum (me_outcomes (ev_metrics a))"]
        using res(3) [OF \<open>evs \<noteq> []\<close>] by blast
    qed
    then show ?thesis unfolding aggregate_ok_iff [OF Cons] by blast
  qed
  also have "\<dots> \<longleftrightarrow> cohort_ok A B evs"
  proof -
    have "(\<exists>p i. list_all (member_ok ?n p i) evs) \<longleftrightarrow> list_all (member_ok ?n ?p ?i) evs"
      by (auto simp: Cons member_ok_def list_all_iff)
    moreover have "evs \<noteq> []" using Cons by simp
    ultimately show ?thesis
      unfolding cohort_ok_def using agg_agents_components [OF A wf, of B ?n ?p ?i] by blast
  qed
  finally show ?thesis .
qed

lemma aggregate_sums:
  assumes "hdr_contract A" and "aggregate_evidence A B evs = Inr g"
  shows "(\<forall>oc. unat (count_of (sm_outcomes (ag_metrics g)) oc)
        = sum_list (map (\<lambda>a. unat (count_of (me_outcomes (ev_metrics a)) oc)) evs))
     \<and> unat (ts_total_requests (sm_throughput (ag_metrics g)))
        = sum_list (map (\<lambda>a. counts_sum (me_outcomes (ev_metrics a))) evs)
     \<and> unat (ls_count (sm_latency (ag_metrics g)))
        = sum_list (map (\<lambda>a. latency_samples (me_outcomes (ev_metrics a))) evs)
     \<and> (\<forall>i. scenario_count (ag_scenario_outcome g) i
        = sum_list (map (\<lambda>a. scenario_count (ev_scenario_outcome a) i) evs))"
proof -
  obtain st h n where ne: "evs \<noteq> []" and st:
    "try_fold (agg_agent A B (of_nat (length evs)) (ag_target_protocol_version g)
       (ag_tool_inventory_hash g)) agg_start evs = Inr st"
    and h: "as_histogram st = Some h"
    and m: "summarize A h (as_outcomes st) (as_measurement_elapsed_ms st) = Inr (ag_metrics g)"
    and so: "ag_scenario_outcome g = as_scenario_outcome st"
    using assms(2) by (rule aggregate_InrE)
  note sumD = summarize_InrD [OF m]
  have cs: "try_fold add_outcomes outcome_counts_default (map (\<lambda>a. me_outcomes (ev_metrics a)) evs)
      = Inr (as_outcomes st)" using agg_agents_outcomes [OF st] by simp
  note c = counts_sum_fold [OF cs]
  have samples: "scope_samples (map global_item evs)
      = sum_list (map (\<lambda>a. latency_samples (me_outcomes (ev_metrics a))) evs)"
    by (simp add: scope_samples_def global_item_def comp_def)
  have "scope_samples (map global_item evs) < 2 ^ 64"
    using latency_samples_le [of "as_outcomes st"] c(3) sumD(3) by (simp add: samples comp_def)
  then have "unat (hdr_len A h) = sum_list (map (\<lambda>a. latency_samples (me_outcomes (ev_metrics a))) evs)"
    using merge_scopes_samples [OF assms(1), of B "map global_item evs"] agg_agents_histogram [OF st] ne h
    by (auto simp: samples)
  moreover have "scenario_count scenario_outcome_default i = 0" for i
    by (cases i) (simp_all add: scenario_outcome_default_def)
  then have "scenario_count (as_scenario_outcome st) i
      = sum_list (map (\<lambda>a. scenario_count (ev_scenario_outcome a) i) evs)" for i
    using scenario_sum.fold_view [OF agg_agents_scenario [OF st], of i] by (simp add: comp_def)
  ultimately show ?thesis
    using c sumD so by (auto simp: comp_def)
qed

subsection \<open>Properties\<close>

lemma aggregate_cohort:
  assumes "aggregate_evidence A B evs = Inr g"
  shows "ag_agent_names g = sort (map ev_agent_name evs) \<and> distinct (ag_agent_names g)
     \<and> sort (map (\<lambda>a. unat (sh_index (ev_shard a))) evs) = [0..<length evs]
     \<and> list_all (\<lambda>a. sh_agent_name (ev_shard a) = ev_agent_name a
          \<and> unat (sh_agent_count (ev_shard a)) = length evs \<and> sh_concurrency (ev_shard a) \<noteq> 0
          \<and> ev_target_protocol_version a = ag_target_protocol_version g
          \<and> ev_tool_inventory_hash a = ag_tool_inventory_hash g) evs
     \<and> unat (ag_global_concurrency g) = sum_list (map (\<lambda>a. unat (sh_concurrency (ev_shard a))) evs)"
proof -
  obtain st where len: "length evs < 2 ^ 32" and st:
    "try_fold (agg_agent A B (of_nat (length evs)) (ag_target_protocol_version g)
       (ag_tool_inventory_hash g)) agg_start evs = Inr st"
    and g: "ag_agent_names g = as_names st" "ag_global_concurrency g = as_global_concurrency st"
    using assms by (rule aggregate_InrE)
  have un: "unat (of_nat (length evs) :: u32) = length evs" using len by (simp add: unat_of_nat)
  have id: "list_all (member_ok (of_nat (length evs)) (ag_target_protocol_version g)
      (ag_tool_inventory_hash g)) evs" "distinct (map ev_agent_name evs)" "distinct (map ev_index evs)"
    "as_names st = sort (map ev_agent_name evs)"
    using agg_agents_identity [OF st] by (simp_all add: identity_fold sort_conv_fold)
  have "sort (map unat (map ev_index evs)) = [0..<length (map ev_index evs)]"
    using id(1,3) len by (intro indices_partition) (simp_all add: list_all_iff member_ok_def)
  moreover have "unat (as_global_concurrency st) = sum_list (map (\<lambda>a. unat (sh_concurrency (ev_shard a))) evs)"
    using concurrency_sum.fold_view [OF agg_agents_concurrency [OF st]] by (simp add: comp_def)
  ultimately show ?thesis
    using g id un by (auto simp: list_all_iff member_ok_def comp_def)
qed

text \<open>
  C5. Only a complete and coherent cohort is aggregated: the agents have distinct names, each name is
  that of its shard, the shard indices are exactly 0 to n - 1 for n agents that all declare a cohort
  of n, every agent saw the protocol revision and tool inventory the aggregate reports, and the
  reported global concurrency is the exact sum of the shards'.
\<close>

theorem aggregate_cohort_coherent:
  assumes "aggregate_evidence A B evs = Inr g"
  shows "ag_agent_names g = sort (map ev_agent_name evs) \<and> distinct (ag_agent_names g)
     \<and> sort (map (\<lambda>a. unat (sh_index (ev_shard a))) evs) = [0..<length evs]
     \<and> list_all (\<lambda>a. sh_agent_name (ev_shard a) = ev_agent_name a
          \<and> unat (sh_agent_count (ev_shard a)) = length evs \<and> sh_concurrency (ev_shard a) \<noteq> 0
          \<and> ev_target_protocol_version a = ag_target_protocol_version g
          \<and> ev_tool_inventory_hash a = ag_tool_inventory_hash g) evs
     \<and> unat (ag_global_concurrency g) = sum_list (map (\<lambda>a. unat (sh_concurrency (ev_shard a))) evs)"
  using assms by (rule aggregate_cohort)

lemma merge_scopes_decode:
  "try_fold (merge_scope A B) into items = Inr r \<Longrightarrow> (agent, scope, m) \<in> set items \<Longrightarrow>
     \<exists>h. to_histogram A B (me_latency m) = Inr h \<and> unat (hdr_len A h) = latency_samples (me_outcomes m)"
proof (induction items arbitrary: into)
  case (Cons item items)
  obtain t where t: "merge_scope A B into item = Inr t" "try_fold (merge_scope A B) t items = Inr r"
    using Cons.prems(1) by (auto simp: and_then_Inr_iff)
  show ?case
  proof (cases "(agent, scope, m) = item")
    case True
    then obtain h where "decode_validated_metrics A B agent scope m = Inr h"
      using t(1) by (auto elim: merge_scope_InrE)
    then show ?thesis using decode_validated_InrD(1,2) by metis
  next
    case False
    then show ?thesis using Cons.IH [OF t(2)] Cons.prems(2) by simp
  qed
qed simp

lemma aggregate_agent_histogram:
  assumes "aggregate_evidence A B evs = Inr g" and "a \<in> set evs"
  shows "\<exists>h. to_histogram A B (me_latency (ev_metrics a)) = Inr h
     \<and> unat (hdr_len A h) = latency_samples (me_outcomes (ev_metrics a))"
proof -
  obtain st where st: "try_fold (agg_agent A B (of_nat (length evs)) (ag_target_protocol_version g)
       (ag_tool_inventory_hash g)) agg_start evs = Inr st"
    using assms(1) by (rule aggregate_InrE)
  have "global_item a \<in> set (map global_item evs)" using assms(2) by simp
  then show ?thesis
    using merge_scopes_decode [OF agg_agents_histogram [OF st]] unfolding global_item_def by blast
qed

text \<open>
  C6. Aggregation is exact and never wraps: in a successful aggregate every outcome counter of the
  run as a whole, its total number of requests, the sample count behind its percentiles and every
  scenario counter is the true sum over the agents, and the run-wide histogram each agent sent
  decodes to one with exactly one sample per success, hang and deadlock that agent reported.
\<close>

theorem aggregate_sums_exact:
  assumes "hdr_contract A" and "aggregate_evidence A B evs = Inr g"
  shows "(\<forall>oc. unat (count_of (sm_outcomes (ag_metrics g)) oc)
        = sum_list (map (\<lambda>a. unat (count_of (me_outcomes (ev_metrics a)) oc)) evs))
     \<and> unat (ts_total_requests (sm_throughput (ag_metrics g)))
        = sum_list (map (\<lambda>a. counts_sum (me_outcomes (ev_metrics a))) evs)
     \<and> unat (ls_count (sm_latency (ag_metrics g)))
        = sum_list (map (\<lambda>a. latency_samples (me_outcomes (ev_metrics a))) evs)
     \<and> (\<forall>i. scenario_count (ag_scenario_outcome g) i
        = sum_list (map (\<lambda>a. scenario_count (ev_scenario_outcome a) i) evs))
     \<and> (\<forall>a \<in> set evs. \<exists>h. to_histogram A B (me_latency (ev_metrics a)) = Inr h
          \<and> unat (hdr_len A h) = latency_samples (me_outcomes (ev_metrics a)))"
  using aggregate_sums [OF assms] aggregate_agent_histogram [OF assms(2)] by blast

lemma aggregate_tools:
  assumes "hdr_contract A" and "list_all (\<lambda>a. bt_wf (ev_per_tool a)) evs"
    and "aggregate_evidence A B evs = Inr g"
  shows "bt_keys (ag_per_tool g) = sorted_list_of_set (\<Union>a \<in> set evs. dom (bt_get (ev_per_tool a)))
     \<and> (\<forall>t m. bt_get (ag_per_tool g) t = Some m \<longrightarrow>
          (\<forall>oc. unat (count_of (sm_outcomes m) oc)
             = sum_list (map (\<lambda>a. unat (count_of (tool_counts t a) oc)) evs))
          \<and> unat (ts_total_requests (sm_throughput m)) = sum_list (map (\<lambda>a. counts_sum (tool_counts t a)) evs)
          \<and> unat (ls_count (sm_latency m)) = sum_list (map (\<lambda>a. latency_samples (tool_counts t a)) evs))"
proof -
  obtain st where st:
    "try_fold (agg_agent A B (of_nat (length evs)) (ag_target_protocol_version g)
       (ag_tool_inventory_hash g)) agg_start evs = Inr st"
    and pt: "traverse (summarize_tool A (as_tool_outcomes st) (as_measurement_elapsed_ms st))
       (as_tool_histograms st) = Inr (ag_per_tool g)"
    using assms(3) by (rule aggregate_InrE)
  have tool: "try_fold (tool_merge A B) (None, None) (tool_items t evs)
      = Inr (bt_get (as_tool_histograms st) t, bt_get (as_tool_outcomes st) t)" for t
    using agg_agents_tool [OF st assms(2), of t] by simp
  have scope: "try_fold (merge_scope A B) None (tool_items t evs)
      = Inr (bt_get (as_tool_histograms st) t)" for t
    using tool_fold_scope [OF tool [of t]] by simp
  have wf: "bt_wf (as_tool_histograms st)" using agg_agents_wf [OF st] by simp
  have "bt_get (as_tool_histograms st) t = None \<longleftrightarrow> tool_items t evs = []" for t
    using scope [of t] merge_scopes_None [of A B None "tool_items t evs"] by auto
  then have "dom (bt_get (as_tool_histograms st)) = (\<Union>a \<in> set evs. dom (bt_get (ev_per_tool a)))"
    unfolding tool_items_Nil by (auto simp: dom_def)
  then have keys: "bt_keys (ag_per_tool g)
      = sorted_list_of_set (\<Union>a \<in> set evs. dom (bt_get (ev_per_tool a)))"
    using btm.keys_of_dom [OF wf] traverse_summarize(1) [OF pt] by simp
  have "(\<forall>oc. unat (count_of (sm_outcomes m) oc)
             = sum_list (map (\<lambda>a. unat (count_of (tool_counts t a) oc)) evs))
      \<and> unat (ts_total_requests (sm_throughput m)) = sum_list (map (\<lambda>a. counts_sum (tool_counts t a)) evs)
      \<and> unat (ls_count (sm_latency m)) = sum_list (map (\<lambda>a. latency_samples (tool_counts t a)) evs)"
    if get: "bt_get (ag_per_tool g) t = Some m" for t m
  proof -
    let ?c = "case bt_get (as_tool_outcomes st) t of None \<Rightarrow> outcome_counts_default | Some c \<Rightarrow> c"
    obtain h where h: "bt_get (as_tool_histograms st) t = Some h"
      "summarize A h ?c (as_measurement_elapsed_ms st) = Inr m"
      using traverse_summarize(2) [OF pt get] by blast
    note sumD = summarize_InrD [OF h(2)]
    have cs: "try_fold add_outcomes outcome_counts_default
        (map (\<lambda>item. me_outcomes (snd (snd item))) (tool_items t evs)) = Inr ?c"
      using tool_fold_outcomes [OF tool [of t]] by simp
    note c = counts_sum_fold [OF cs]
    have "scope_samples (tool_items t evs) < 2 ^ 64"
      using latency_samples_le [of ?c] c(3) sumD(3) by (simp add: scope_samples_items comp_def)
    moreover have "tool_items t evs \<noteq> []" using scope [of t] h(1) by auto
    ultimately have "unat (hdr_len A h) = scope_samples (tool_items t evs)"
      using merge_scopes_samples [OF assms(1) scope [of t]] h(1) by auto
    then show ?thesis
      using c sumD tool_items_sum [of counts_sum t evs] tool_items_sum [of latency_samples t evs]
        tool_items_sum [of "\<lambda>c. unat (count_of c oc)" t evs for oc]
      by (simp add: scope_samples_items comp_def)
  qed
  with keys show ?thesis by blast
qed

text \<open>
  The per-tool breakdown is exact too: the aggregate lists, in order, exactly the tools some agent
  reported, and each tool's counters, total and sample count are the true sums over the agents, an
  agent that never called the tool contributing nothing.
\<close>

theorem aggregate_tools_exact:
  assumes "hdr_contract A" and "list_all (\<lambda>a. bt_wf (ev_per_tool a)) evs"
    and "aggregate_evidence A B evs = Inr g"
  shows "bt_keys (ag_per_tool g) = sorted_list_of_set (\<Union>a \<in> set evs. dom (bt_get (ev_per_tool a)))
     \<and> (\<forall>t m. bt_get (ag_per_tool g) t = Some m \<longrightarrow>
          (\<forall>oc. unat (count_of (sm_outcomes m) oc)
             = sum_list (map (\<lambda>a. unat (count_of (tool_counts t a) oc)) evs))
          \<and> unat (ts_total_requests (sm_throughput m)) = sum_list (map (\<lambda>a. counts_sum (tool_counts t a)) evs)
          \<and> unat (ls_count (sm_latency m)) = sum_list (map (\<lambda>a. latency_samples (tool_counts t a)) evs))"
  using assms by (rule aggregate_tools)

lemma summarize_throughput:
  assumes "summarize A h c e = Inr m" and "summarize A h' c' e = Inr m'" and "sm_outcomes m = sm_outcomes m'"
  shows "sm_throughput m = sm_throughput m'"
  using assms by (auto simp: summarize_def result_iffs)

lemma fold_max_set: "set xs = set ys \<Longrightarrow> fold max xs (k :: 'a::linorder) = fold max ys k"
  using Max.set_eq_fold [of k xs] Max.set_eq_fold [of k ys] by simp

lemma fold_min_set: "set xs = set ys \<Longrightarrow> fold min xs (k :: 'a::linorder) = fold min ys k"
  using Min.set_eq_fold [of k xs] Min.set_eq_fold [of k ys] by simp

lemma aggregate_times:
  assumes "aggregate_evidence A B evs = Inr g"
  shows "ag_measurement_elapsed_ms g = fold max (map ev_measurement_elapsed_ms evs) 0"
    and "ag_start_skew_ms g
      = saturating_sub (fold max (map ev_start_delay_ms evs) 0) (fold min (map ev_start_delay_ms evs) (- 1))"
    and "\<exists>h c. summarize A h c (ag_measurement_elapsed_ms g) = Inr (ag_metrics g)"
    and "bt_get (ag_per_tool g) t = Some m \<Longrightarrow> \<exists>h c. summarize A h c (ag_measurement_elapsed_ms g) = Inr m"
proof -
  obtain st h where st: "try_fold (agg_agent A B (of_nat (length evs)) (ag_target_protocol_version g)
       (ag_tool_inventory_hash g)) agg_start evs = Inr st"
    and g: "summarize A h (as_outcomes st) (as_measurement_elapsed_ms st) = Inr (ag_metrics g)"
    "traverse (summarize_tool A (as_tool_outcomes st) (as_measurement_elapsed_ms st))
       (as_tool_histograms st) = Inr (ag_per_tool g)"
    "ag_measurement_elapsed_ms g = as_measurement_elapsed_ms st"
    "ag_start_skew_ms g = saturating_sub (as_max_start_delay st) (as_min_start_delay st)"
    using assms by (rule aggregate_InrE)
  show "ag_measurement_elapsed_ms g = fold max (map ev_measurement_elapsed_ms evs) 0"
    "ag_start_skew_ms g
      = saturating_sub (fold max (map ev_start_delay_ms evs) 0) (fold min (map ev_start_delay_ms evs) (- 1))"
    using agg_agents_delays [OF st] g(3,4) by simp_all
  show "\<exists>h c. summarize A h c (ag_measurement_elapsed_ms g) = Inr (ag_metrics g)"
    using g(1,3) by metis
  show "\<exists>h c. summarize A h c (ag_measurement_elapsed_ms g) = Inr m" if "bt_get (ag_per_tool g) t = Some m"
    using traverse_summarize(2) [OF g(2) that] g(3) by metis
qed

text \<open>Two successful aggregates of the same evidence in two orders, field by field.\<close>

lemma aggregate_mset_head:
  assumes "aggregate_evidence A B evs = Inr g" and "aggregate_evidence A B evs' = Inr g'"
    and "mset evs = mset evs'"
  shows "ag_agent_names g = ag_agent_names g'" "ag_global_concurrency g = ag_global_concurrency g'"
    "ag_target_protocol_version g = ag_target_protocol_version g'"
    "ag_tool_inventory_hash g = ag_tool_inventory_hash g'"
    "ag_measurement_elapsed_ms g = ag_measurement_elapsed_ms g'" "ag_start_skew_ms g = ag_start_skew_ms g'"
proof -
  have set: "set evs = set evs'" using assms(3) by (rule mset_eq_setD)
  then have maps: "set (map f evs) = set (map f evs')" for f :: "agent_evidence \<Rightarrow> 'c" by simp
  note c = aggregate_cohort [OF assms(1)] aggregate_cohort [OF assms(2)]
  have "sort (map ev_agent_name evs) = sort (map ev_agent_name evs')"
    by (rule properties_for_sort) (simp_all add: assms(3))
  then show "ag_agent_names g = ag_agent_names g'" using c by simp
  have "sum_list (map f evs) = sum_list (map f evs')" for f :: "agent_evidence \<Rightarrow> nat"
    using assms(3) by (metis mset_map sum_mset_sum_list)
  then show "ag_global_concurrency g = ag_global_concurrency g'" using c by (simp add: word_unat_eq_iff)
  have "evs \<noteq> []" using assms(1) by (auto simp: aggregate_evidence_def)
  then obtain a where "a \<in> set evs" "a \<in> set evs'" using set by (cases evs) auto
  then show "ag_target_protocol_version g = ag_target_protocol_version g'"
    "ag_tool_inventory_hash g = ag_tool_inventory_hash g'"
    using c by (auto simp: list_all_iff)
  show "ag_measurement_elapsed_ms g = ag_measurement_elapsed_ms g'" "ag_start_skew_ms g = ag_start_skew_ms g'"
    unfolding aggregate_times(1,2) [OF assms(1)] aggregate_times(1,2) [OF assms(2)]
    using fold_max_set [OF maps] fold_min_set [OF maps] by metis+
qed

lemma aggregate_mset_metrics:
  assumes A: "hdr_contract A" and g: "aggregate_evidence A B evs = Inr g" "aggregate_evidence A B evs' = Inr g'"
    and m: "mset evs = mset evs'"
  shows "sm_outcomes (ag_metrics g) = sm_outcomes (ag_metrics g')"
    "sm_throughput (ag_metrics g) = sm_throughput (ag_metrics g')"
    "ls_count (sm_latency (ag_metrics g)) = ls_count (sm_latency (ag_metrics g'))"
    "scenario_count (ag_scenario_outcome g) = scenario_count (ag_scenario_outcome g')"
proof -
  have sums_eq: "sum_list (map f evs) = sum_list (map f evs')" for f :: "agent_evidence \<Rightarrow> nat"
    using m by (metis mset_map sum_mset_sum_list)
  note s = aggregate_sums [OF A g(1), unfolded sums_eq] aggregate_sums [OF A g(2)]
  show out: "sm_outcomes (ag_metrics g) = sm_outcomes (ag_metrics g')"
    using s by (auto simp: word_unat_eq_iff intro!: outcome_counts_eqI)
  show "sm_throughput (ag_metrics g) = sm_throughput (ag_metrics g')"
    using aggregate_times(3) [OF g(1)] aggregate_times(3) [OF g(2)] aggregate_mset_head(5) [OF g m]
      summarize_throughput [OF _ _ out] by metis
  show "ls_count (sm_latency (ag_metrics g)) = ls_count (sm_latency (ag_metrics g'))"
    "scenario_count (ag_scenario_outcome g) = scenario_count (ag_scenario_outcome g')"
    using s by (auto simp: word_unat_eq_iff fun_eq_iff)
qed

lemma aggregate_mset_tools:
  assumes A: "hdr_contract A" and wf: "list_all (\<lambda>a. bt_wf (ev_per_tool a)) evs"
    and g: "aggregate_evidence A B evs = Inr g" "aggregate_evidence A B evs' = Inr g'"
    and m: "mset evs = mset evs'"
  shows "bt_keys (ag_per_tool g) = bt_keys (ag_per_tool g')"
    "bt_get (ag_per_tool g) t = Some x \<Longrightarrow> bt_get (ag_per_tool g') t = Some x' \<Longrightarrow>
       sm_outcomes x = sm_outcomes x' \<and> sm_throughput x = sm_throughput x'
       \<and> ls_count (sm_latency x) = ls_count (sm_latency x')"
proof -
  have set: "set evs = set evs'" using m by (rule mset_eq_setD)
  then have wf': "list_all (\<lambda>a. bt_wf (ev_per_tool a)) evs'" using wf by (simp add: list_all_iff)
  have sums_eq: "sum_list (map f evs) = sum_list (map f evs')" for f :: "agent_evidence \<Rightarrow> nat"
    using m by (metis mset_map sum_mset_sum_list)
  note s = aggregate_tools [OF A wf g(1), unfolded sums_eq] aggregate_tools [OF A wf' g(2)]
  show "bt_keys (ag_per_tool g) = bt_keys (ag_per_tool g')" using s set by simp
  assume x: "bt_get (ag_per_tool g) t = Some x" "bt_get (ag_per_tool g') t = Some x'"
  have out: "sm_outcomes x = sm_outcomes x'"
    using s x by (auto simp: word_unat_eq_iff intro!: outcome_counts_eqI)
  moreover have "sm_throughput x = sm_throughput x'"
    using aggregate_times(4) [OF g(1) x(1)] aggregate_times(4) [OF g(2) x(2)] aggregate_mset_head(5) [OF g m]
      summarize_throughput [OF _ _ out] by metis
  moreover have "ls_count (sm_latency x) = ls_count (sm_latency x')"
    using s x by (simp add: word_unat_eq_iff)
  ultimately show "sm_outcomes x = sm_outcomes x' \<and> sm_throughput x = sm_throughput x'
       \<and> ls_count (sm_latency x) = ls_count (sm_latency x')" by blast
qed

text \<open>
  C34. Aggregation does not depend on the order in which the agents' evidence arrives. It succeeds
  exactly for the coherent cohorts whose payloads validate and whose true sums fit the counters. For
  two orders of one cohort the two aggregates agree on the agent names, the global concurrency, the
  protocol revision, the tool inventory, the measured interval and the start skew; on the outcome
  counters, the throughput (total, successful and rate) and the sample count of the run as a whole; on
  every scenario counter; and on the list of tools and, tool by tool, the outcome counters, the
  throughput and the sample count. The percentiles, the notes and the hang durations are not part of
  the statement.
\<close>

theorem aggregate_order_independent:
  assumes "hdr_contract A" and "list_all (\<lambda>a. bt_wf (ev_per_tool a)) evs" and "mset evs = mset evs'"
  shows "((\<exists>g. aggregate_evidence A B evs = Inr g) \<longleftrightarrow> cohort_ok A B evs)
     \<and> ((\<exists>g. aggregate_evidence A B evs' = Inr g) \<longleftrightarrow> cohort_ok A B evs)
     \<and> (aggregate_evidence A B evs = Inr g \<and> aggregate_evidence A B evs' = Inr g' \<longrightarrow>
          ag_agent_names g = ag_agent_names g' \<and> ag_global_concurrency g = ag_global_concurrency g'
          \<and> ag_target_protocol_version g = ag_target_protocol_version g'
          \<and> ag_tool_inventory_hash g = ag_tool_inventory_hash g'
          \<and> ag_measurement_elapsed_ms g = ag_measurement_elapsed_ms g'
          \<and> ag_start_skew_ms g = ag_start_skew_ms g'
          \<and> sm_outcomes (ag_metrics g) = sm_outcomes (ag_metrics g')
          \<and> sm_throughput (ag_metrics g) = sm_throughput (ag_metrics g')
          \<and> ls_count (sm_latency (ag_metrics g)) = ls_count (sm_latency (ag_metrics g'))
          \<and> scenario_count (ag_scenario_outcome g) = scenario_count (ag_scenario_outcome g')
          \<and> bt_keys (ag_per_tool g) = bt_keys (ag_per_tool g')
          \<and> (\<forall>t m m'. bt_get (ag_per_tool g) t = Some m \<and> bt_get (ag_per_tool g') t = Some m' \<longrightarrow>
               sm_outcomes m = sm_outcomes m' \<and> sm_throughput m = sm_throughput m'
               \<and> ls_count (sm_latency m) = ls_count (sm_latency m')))"
proof -
  have "set evs = set evs'" using assms(3) by (rule mset_eq_setD)
  then have "list_all (\<lambda>a. bt_wf (ev_per_tool a)) evs'" using assms(2) by (simp add: list_all_iff)
  then have ok': "(\<exists>g. aggregate_evidence A B evs' = Inr g) \<longleftrightarrow> cohort_ok A B evs"
    using aggregate_ok [OF assms(1)] cohort_ok_mset assms(3) by metis
  note ok = aggregate_ok [OF assms(1,2)]
  note agree = aggregate_mset_head [OF _ _ assms(3)] aggregate_mset_metrics [OF assms(1) _ _ assms(3)]
    aggregate_mset_tools(1) [OF assms(1,2) _ _ assms(3)]
    aggregate_mset_tools(2) [OF assms(1,2) _ _ assms(3), THEN conjunct1]
    aggregate_mset_tools(2) [OF assms(1,2) _ _ assms(3), THEN conjunct2, THEN conjunct1]
    aggregate_mset_tools(2) [OF assms(1,2) _ _ assms(3), THEN conjunct2, THEN conjunct2]
  show ?thesis
    by (intro conjI impI allI; (elim conjE)?) (rule ok ok' | (rule agree, assumption+))+
qed

text \<open>
  C35. The evidence codec is a round trip that cannot smuggle samples: what a worker encodes decodes
  to the same histogram on the controller, the declared count is the histogram's, and any payload the
  controller accepts declares exactly the samples it holds and stays within the size bound.
\<close>

theorem histogram_evidence_roundtrip:
  assumes "hdr_contract A" and "base64_contract B"
  shows "(from_histogram A B h = Inr e \<longrightarrow>
       to_histogram A B e = Inr h \<and> he_count e = hdr_len A h \<and> he_encoding e = HDR_V2_BASE64)
     \<and> (to_histogram A B e' = Inr h' \<longrightarrow>
       hdr_len A h' = he_count e' \<and> length (he_payload e') \<le> MAX_ENCODED)"
  using from_to_histogram [OF assms, of h e] to_histogram_count [of A B e' h']
    to_histogram_bounds [of A B e' h'] to_histogram_count [of A B e h] from_histogram_encoding
  by metis

subsection \<open>A cohort of two agents\<close>

definition sample_hist :: exact_hist where
  "sample_hist = \<lparr>xh_low = 1, xh_high = MAX_LATENCY_US, xh_sigfig = 3, xh_samples = [700]\<rparr>"

definition sample_bytes :: "u8 list" where
  "sample_bytes = xh_sigfig sample_hist # concat (map u64_bytes [1, MAX_LATENCY_US, 700])"

definition sample_histogram_evidence :: histogram_evidence where
  "sample_histogram_evidence = \<lparr>he_encoding = HDR_V2_BASE64,
     he_payload = b64_encode plain_codec sample_bytes, he_count = 1\<rparr>"

definition sample_metrics :: metrics_evidence where
  "sample_metrics = \<lparr>me_latency = sample_histogram_evidence,
     me_outcomes = outcome_counts_default\<lparr>oc_success := 1, oc_timeout := 2\<rparr>\<rparr>"

definition sample_evidence :: "string \<Rightarrow> u32 \<Rightarrow> agent_evidence" where
  "sample_evidence name index = \<lparr>ev_agent_name = name,
     ev_shard = \<lparr>sh_agent_name = name, sh_index = index, sh_agent_count = 2, sh_concurrency = 4\<rparr>,
     ev_metrics = sample_metrics, ev_per_tool = [(''echo'', sample_metrics)],
     ev_scenario_outcome = scenario_outcome_default\<lparr>so_total_calls := 3, so_successful_calls := 1\<rparr>,
     ev_measurement_elapsed_ms = 1000, ev_start_delay_ms = 5,
     ev_target_protocol_version = ''2025-06-18'', ev_tool_inventory_hash = ''abc''\<rparr>"

definition sample_cohort :: "agent_evidence list" where
  "sample_cohort = [sample_evidence ''b'' 1, sample_evidence ''a'' 0]"

lemma sample_from_histogram:
  "from_histogram exact_api plain_codec sample_hist = Inr sample_histogram_evidence"
proof -
  have "length sample_bytes = 25" by (simp add: sample_bytes_def)
  moreover have "hdr_serialize exact_api sample_hist = Inr sample_bytes"
    by (simp add: exact_api_def xh_serialize_def sample_hist_def sample_bytes_def)
  moreover have "hdr_len exact_api sample_hist = 1" by (simp add: exact_api_def sample_hist_def)
  ultimately show ?thesis
    by (simp add: from_histogram_def sample_histogram_evidence_def MAX_HISTOGRAM_BYTES_def)
qed

lemma sample_validates: "validates exact_api plain_codec rec_layout sample_metrics"
proof -
  have "to_histogram exact_api plain_codec sample_histogram_evidence = Inr sample_hist"
    by (rule from_to_histogram [OF exact_hdr_contract plain_codec_contract sample_from_histogram])
  then show ?thesis
    by (simp add: validates_def sample_metrics_def exact_api_def sample_hist_def hdr_layout_of_def
        rec_layout_def latency_samples_def outcome_counts_default_def)
qed

lemma sample_counts: "counts_sum (me_outcomes sample_metrics) = 3"
  by (simp add: sample_metrics_def counts_sum_def all_outcomes_def outcome_counts_default_def)

lemma sample_tools_wf: "list_all (\<lambda>a. bt_wf (ev_per_tool a)) sample_cohort"
  by (simp add: sample_cohort_def sample_evidence_def bt_wf_def)

lemma sample_cohort_ok: "cohort_ok exact_api plain_codec sample_cohort"
proof -
  have scen: "scenario_count (ev_scenario_outcome (sample_evidence n k)) i \<le> 3" for n k i
    by (cases i) (simp_all add: sample_evidence_def scenario_outcome_default_def)
  have lim: "6 < scenario_limit i" for i by (cases i) simp_all
  have "sums_below (scenario_limit i) (\<lambda>a. scenario_count (ev_scenario_outcome a) i) sample_cohort" for i
    using scen [of "''a''" 0 i] scen [of "''b''" 1 i] lim [of i] by (simp add: sums_below_def sample_cohort_def)
  moreover have "sums_below (2 ^ 64) (\<lambda>a. counts_sum (tool_counts t a)) sample_cohort" for t
  proof -
    have "counts_sum (tool_counts t (sample_evidence n k)) \<le> 3" for n k
      by (simp add: tool_counts_def sample_evidence_def sample_counts)
    note add_mono [OF this [of "''b''" 1] this [of "''a''" 0]]
    then show ?thesis by (simp add: sums_below_def sample_cohort_def)
  qed
  moreover have "set (tool_metrics t sample_cohort) \<subseteq> {sample_metrics}" for t
    by (auto simp: tool_metrics_def tool_items_def tool_item_def sample_cohort_def sample_evidence_def
        split: if_splits)
  then have "scope_ok exact_api plain_codec (tool_metrics t sample_cohort)" for t
    unfolding scope_ok_def list_all_iff using sample_validates by blast
  moreover have "scope_ok exact_api plain_codec (map ev_metrics sample_cohort)"
    unfolding scope_ok_def using sample_validates
    by (intro exI [of _ rec_layout]) (simp add: sample_cohort_def sample_evidence_def)
  moreover have "list_all (member_ok 2 ''2025-06-18'' ''abc'') sample_cohort"
    by (simp add: sample_cohort_def sample_evidence_def member_ok_def)
  ultimately show ?thesis
    unfolding cohort_ok_def
    by (auto simp: sample_cohort_def sample_evidence_def sums_below_def sample_counts)
qed

lemma sample_aggregates: "\<exists>g. aggregate_evidence exact_api plain_codec sample_cohort = Inr g"
  using aggregate_ok [OF exact_hdr_contract sample_tools_wf] sample_cohort_ok by blast

lemma aggregate_cohort_coherent_witness:
  "\<exists>g. aggregate_evidence exact_api plain_codec sample_cohort = Inr g
     \<and> unat (ag_global_concurrency g) = 8 \<and> ag_target_protocol_version g = ''2025-06-18''"
proof -
  obtain g where g: "aggregate_evidence exact_api plain_codec sample_cohort = Inr g"
    using sample_aggregates by blast
  from aggregate_cohort_coherent [OF g] g show ?thesis
    by (simp add: sample_cohort_def sample_evidence_def)
qed

lemma aggregate_sums_exact_witness:
  "\<exists>g. aggregate_evidence exact_api plain_codec sample_cohort = Inr g
     \<and> unat (oc_timeout (sm_outcomes (ag_metrics g))) = 4
     \<and> unat (ts_total_requests (sm_throughput (ag_metrics g))) = 6"
proof -
  obtain g where g: "aggregate_evidence exact_api plain_codec sample_cohort = Inr g"
    using sample_aggregates by blast
  have "count_of (me_outcomes sample_metrics) Outcome_Timeout = 2"
    by (simp add: sample_metrics_def)
  with aggregate_sums_exact [OF exact_hdr_contract g] g show ?thesis
    by (auto simp: sample_cohort_def sample_evidence_def sample_counts dest: spec [of _ Outcome_Timeout])
qed

lemma aggregate_tools_exact_witness:
  "\<exists>g. aggregate_evidence exact_api plain_codec sample_cohort = Inr g
     \<and> bt_keys (ag_per_tool g) = [''echo'']"
proof -
  obtain g where g: "aggregate_evidence exact_api plain_codec sample_cohort = Inr g"
    using sample_aggregates by blast
  with aggregate_tools_exact [OF exact_hdr_contract sample_tools_wf g] show ?thesis
    by (simp add: sample_cohort_def sample_evidence_def)
qed

lemma aggregate_order_independent_witness:
  "\<exists>g. aggregate_evidence exact_api plain_codec (rev sample_cohort) = Inr g"
  using aggregate_order_independent [OF exact_hdr_contract sample_tools_wf, of "rev sample_cohort" plain_codec]
    sample_cohort_ok by simp

lemma histogram_evidence_roundtrip_witness:
  "to_histogram exact_api plain_codec sample_histogram_evidence = Inr sample_hist"
  using histogram_evidence_roundtrip [OF exact_hdr_contract plain_codec_contract,
      of sample_hist sample_histogram_evidence] sample_from_histogram by blast

end
