(* ===== verification/Controller_Run.thy ===== *)
theory Controller_Run
  imports Agent Aggregate
begin

section \<open>The controller's run\<close>

text \<open>
  \<open>drive_controller\<close> of \<open>crates/mcp-loadtest-cli/src/distributed/controller.rs\<close>: the three waiting
  loops around the controller's job state. What the loops wait for is their input: a tick is one iteration, with the
  clock at its head, what \<open>events.recv()\<close> under a timeout returned, the clock after it, and the peers
  whose control task has stopped by then. A loop that runs out of ticks is still waiting; its result is
  None. Clocks and durations are nanoseconds.
\<close>

datatype peer_event =
    Peer_Frame string wire_frame
  | Peer_Closed string string

datatype poll = Poll_Event peer_event | Poll_AllClosed | Poll_Elapsed

record tick =
  tk_now :: nat
  tk_poll :: poll
  tk_after :: nat
  tk_stopped :: "string set"

datatype run_error =
    Run_State controller_state_error
  | Run_UnexpectedWhileConnecting string
  | Run_Disconnected string string
  | Run_AllClosed
  | Run_Timeout
  | Run_UnknownPeer string
  | Run_PeerStopped string
  | Run_AgentFailed string
  | Run_PastDeadline
  | Run_HeartbeatMissed string
  | Run_Unsuccessful
  | Run_DurationTooLarge

record run_config =
  rc_peers :: "string list"
  rc_connect_timeout :: duration
  rc_ready_timeout :: duration
  rc_heartbeat_timeout :: duration
  rc_start_lead :: duration
  rc_measurement_ms :: u64

record run_state =
  rs_job :: controller_job
  rs_seen :: "string list"
  rs_sent :: "(string \<times> wire_frame) list"
  rs_last_seen :: "(string, nat) btree"

subsection \<open>Pieces\<close>

definition duration_max :: duration where
  "duration_max = (2 ^ 64 - 1) * 10 ^ 9 + 999999999"

definition duration_add :: "duration \<Rightarrow> duration \<Rightarrow> duration" where
  "duration_add a b = min (a + b) duration_max"

definition run_millis :: "duration \<Rightarrow> run_error + u64" where
  "run_millis d = (if d div 10 ^ 6 < 2 ^ 64 then Inr (of_nat (d div 10 ^ 6)) else Inl Run_DurationTooLarge)"

definition receive_until :: "nat \<Rightarrow> tick \<Rightarrow> run_error + string \<times> wire_frame" where
  "receive_until deadline t =
     (if deadline < tk_now t then Inl Run_Timeout
      else case tk_poll t of
        Poll_Event (Peer_Frame agent frame) \<Rightarrow> Inr (agent, frame)
      | Poll_Event (Peer_Closed agent diagnostic) \<Rightarrow> Inl (Run_Disconnected agent diagnostic)
      | Poll_AllClosed \<Rightarrow> Inl Run_AllClosed
      | Poll_Elapsed \<Rightarrow> Inl Run_Timeout)"

definition send_to ::
  "run_config \<Rightarrow> string set \<Rightarrow> string \<Rightarrow> wire_frame \<Rightarrow> run_state \<Rightarrow> run_state \<times> (run_error + unit)" where
  "send_to cfg stopped agent frame s =
     (if agent \<notin> set (rc_peers cfg) then (s, Inl (Run_UnknownPeer agent))
      else if agent \<in> stopped then (s, Inl (Run_PeerStopped agent))
      else (s\<lparr>rs_sent := rs_sent s @ [(agent, frame)]\<rparr>, Inr ()))"

definition send_response ::
  "run_config \<Rightarrow> string set \<Rightarrow> string \<Rightarrow> wire_frame option \<Rightarrow> run_state \<Rightarrow> run_state \<times> (run_error + unit)" where
  "send_response cfg stopped agent response s =
     (case response of None \<Rightarrow> (s, Inr ()) | Some frame \<Rightarrow> send_to cfg stopped agent frame s)"

primrec send_starts ::
  "run_config \<Rightarrow> string set \<Rightarrow> (string \<times> wire_frame) list \<Rightarrow> run_state \<Rightarrow> run_state \<times> (run_error + unit)" where
  "send_starts cfg stopped [] s = (s, Inr ())"
| "send_starts cfg stopped (m # ms) s =
     (case send_to cfg stopped (fst m) (snd m) s of
        (s', Inl e) \<Rightarrow> (s', Inl e)
      | (s', Inr _) \<Rightarrow> send_starts cfg stopped ms s')"

text \<open>The shape of the three loops: a condition, and a body that handles one tick.\<close>

fun drive_loop ::
  "('s \<Rightarrow> bool) \<Rightarrow> (tick \<Rightarrow> 's \<Rightarrow> 's \<times> (run_error + unit)) \<Rightarrow> tick list \<Rightarrow> 's
     \<Rightarrow> 's \<times> tick list \<times> (run_error + unit) option" where
  "drive_loop waiting body [] s = (s, [], if waiting s then None else Some (Inr ()))"
| "drive_loop waiting body (t # ts) s =
     (if \<not> waiting s then (s, t # ts, Some (Inr ()))
      else case body t s of
        (s', Inl e) \<Rightarrow> (s', ts, Some (Inl e))
      | (s', Inr _) \<Rightarrow> drive_loop waiting body ts s')"

subsection \<open>The three loops\<close>

definition connecting :: "run_config \<Rightarrow> run_state \<Rightarrow> bool" where
  "connecting cfg s \<longleftrightarrow> length (rs_seen s) < length (rc_peers cfg)"

definition connect_body :: "run_config \<Rightarrow> nat \<Rightarrow> tick \<Rightarrow> run_state \<Rightarrow> run_state \<times> (run_error + unit)" where
  "connect_body cfg deadline t s =
     (case receive_until deadline t of
        Inl e \<Rightarrow> (s, Inl e)
      | Inr (agent, frame) \<Rightarrow>
          if controller_phase (rs_job s) agent \<noteq> Some Ctl_AwaitingHello
          then (s, Inl (Run_UnexpectedWhileConnecting agent))
          else (case controller_accept (rs_job s) agent frame of
              (j, Inl e) \<Rightarrow> (s\<lparr>rs_job := j\<rparr>, Inl (Run_State e))
            | (j, Inr response) \<Rightarrow>
                send_response cfg (tk_stopped t) agent response
                  (s\<lparr>rs_job := j, rs_seen := snd (bs_insert agent (rs_seen s))\<rparr>)))"

definition ready_body :: "run_config \<Rightarrow> nat \<Rightarrow> tick \<Rightarrow> run_state \<Rightarrow> run_state \<times> (run_error + unit)" where
  "ready_body cfg deadline t s =
     (case receive_until deadline t of
        Inl e \<Rightarrow> (s, Inl e)
      | Inr (agent, frame) \<Rightarrow>
          (case controller_accept (rs_job s) agent frame of
             (j, Inl e) \<Rightarrow> (s\<lparr>rs_job := j\<rparr>, Inl (Run_State e))
           | (j, Inr response) \<Rightarrow>
               (case send_response cfg (tk_stopped t) agent response (s\<lparr>rs_job := j\<rparr>) of
                  (s', Inl e) \<Rightarrow> (s', Inl e)
                | (s', Inr _) \<Rightarrow>
                    (s', if has_failure (rs_job s') then Inl (Run_AgentFailed agent) else Inr ()))))"

definition heartbeat_late :: "run_config \<Rightarrow> nat \<Rightarrow> run_state \<Rightarrow> string \<times> nat \<Rightarrow> bool" where
  "heartbeat_late cfg now s seen \<longleftrightarrow>
     controller_phase (rs_job s) (fst seen) \<in> Some ` {Ctl_Preparing, Ctl_Ready, Ctl_Running}
     \<and> rc_heartbeat_timeout cfg < now - snd seen"

definition check_heartbeats :: "run_config \<Rightarrow> nat \<Rightarrow> run_state \<Rightarrow> run_error + unit" where
  "check_heartbeats cfg now s =
     (case find (heartbeat_late cfg now s) (rs_last_seen s) of
        Some (agent, _) \<Rightarrow> Inl (Run_HeartbeatMissed agent)
      | None \<Rightarrow> Inr ())"

definition run_body :: "run_config \<Rightarrow> nat \<Rightarrow> tick \<Rightarrow> run_state \<Rightarrow> run_state \<times> (run_error + unit)" where
  "run_body cfg deadline t s =
     (if deadline \<le> tk_now t then (s, Inl Run_PastDeadline)
      else case tk_poll t of
        Poll_Event (Peer_Frame agent frame) \<Rightarrow>
          (case controller_accept (rs_job s) agent frame of
             (j, r) \<Rightarrow>
               (let s' = s\<lparr>rs_job := j, rs_last_seen := bt_insert agent (tk_after t) (rs_last_seen s)\<rparr> in
                case r of
                  Inl e \<Rightarrow> (s', Inl (Run_State e))
                | Inr _ \<Rightarrow>
                    (s', if has_failure j then Inl (Run_AgentFailed agent)
                         else check_heartbeats cfg (tk_after t) s')))
      | Poll_Event (Peer_Closed agent diagnostic) \<Rightarrow> (s, Inl (Run_Disconnected agent diagnostic))
      | Poll_AllClosed \<Rightarrow> (s, Inl Run_AllClosed)
      | Poll_Elapsed \<Rightarrow> (s, check_heartbeats cfg (tk_after t) s))"

definition maximum_run :: "run_config \<Rightarrow> duration" where
  "maximum_run cfg = duration_add (duration_add (duration_add
     (unat (rc_measurement_ms cfg) * 10 ^ 6) (rc_start_lead cfg)) (rc_heartbeat_timeout cfg)) (10 * 10 ^ 9)"

definition not_terminal :: "run_state \<Rightarrow> bool" where
  "not_terminal s \<longleftrightarrow> \<not> controller_is_terminal (rs_job s)"

definition not_ready :: "run_state \<Rightarrow> bool" where
  "not_ready s \<longleftrightarrow> \<not> all_ready (rs_job s)"

subsection \<open>The run\<close>

text \<open>
  The arguments are the three readings of the clock that start the deadlines, the peers stopped when
  the start frames go out, and the ticks. The result is None while the run is still waiting.
\<close>

definition run_phase ::
  "run_config \<Rightarrow> nat \<Rightarrow> string set \<Rightarrow> tick list \<Rightarrow> run_state \<Rightarrow> run_state \<times> (run_error + unit) option" where
  "run_phase cfg started stopped ts s =
     (case run_millis (rc_start_lead cfg) of
        Inl e \<Rightarrow> (s, Some (Inl e))
      | Inr lead \<Rightarrow>
          (case start_all (rs_job s) lead of
             (j, Inl e) \<Rightarrow> (s\<lparr>rs_job := j\<rparr>, Some (Inl (Run_State e)))
           | (j, Inr starts) \<Rightarrow>
               (case send_starts cfg stopped starts (s\<lparr>rs_job := j\<rparr>) of
                  (s1, Inl e) \<Rightarrow> (s1, Some (Inl e))
                | (s1, Inr _) \<Rightarrow>
                    (case drive_loop not_terminal (run_body cfg (started + maximum_run cfg)) ts
                         (s1\<lparr>rs_last_seen := fold (\<lambda>name m. bt_insert name started m) (rc_peers cfg) []\<rparr>) of
                       (s2, _, None) \<Rightarrow> (s2, None)
                     | (s2, _, Some (Inl e)) \<Rightarrow> (s2, Some (Inl e))
                     | (s2, _, Some (Inr _)) \<Rightarrow>
                         (s2, Some (if has_failure (rs_job s2) then Inl Run_Unsuccessful else Inr ()))))))"

definition drive_controller ::
  "run_config \<Rightarrow> nat \<Rightarrow> nat \<Rightarrow> nat \<Rightarrow> string set \<Rightarrow> tick list \<Rightarrow> controller_job
     \<Rightarrow> run_state \<times> (run_error + unit) option" where
  "drive_controller cfg t0 t1 t2 stopped ts j =
     (case drive_loop (connecting cfg) (connect_body cfg (t0 + rc_connect_timeout cfg)) ts
        \<lparr>rs_job = j, rs_seen = [], rs_sent = [], rs_last_seen = []\<rparr> of
        (s, ts1, Some (Inr _)) \<Rightarrow>
          (case drive_loop not_ready (ready_body cfg (t1 + rc_ready_timeout cfg)) ts1 s of
             (s', ts2, Some (Inr _)) \<Rightarrow> run_phase cfg t2 stopped ts2 s'
           | (s', _, r) \<Rightarrow> (s', r))
      | (s, _, r) \<Rightarrow> (s, r))"

subsection \<open>Rules for the loop\<close>

lemma drive_loop_invariant:
  assumes "I s" "\<And>t s. I s \<Longrightarrow> waiting s \<Longrightarrow> I (fst (body t s))"
  shows "I (fst (drive_loop waiting body ts s))"
  using assms(1)
proof (induction ts arbitrary: s)
  case (Cons t ts)
  then show ?case using assms(2) [OF Cons.prems, of t]
    by (auto split: prod.splits sum.splits)
qed simp

lemma drive_loop_done: "drive_loop waiting body ts s = (s', ts', Some (Inr u)) \<Longrightarrow> \<not> waiting s'"
  by (induction ts arbitrary: s) (auto split: if_splits prod.splits sum.splits)

text \<open>A tick whose body always fails ends the loop, unless the loop ended before it.\<close>

lemma drive_loop_late:
  assumes late: "\<And>s. \<exists>s' e. body t s = (s', Inl e)"
  shows "drive_loop waiting body ts s = (s', ts', r) \<Longrightarrow> t \<in> set ts \<Longrightarrow>
    r \<noteq> None \<and> (\<forall>u. r = Some (Inr u) \<longrightarrow> t \<in> set ts')"
proof (induction ts arbitrary: s)
  case (Cons a ts)
  show ?case
  proof (cases "waiting s")
    case True
    obtain s1 r1 where b: "body a s = (s1, r1)" by (cases "body a s")
    show ?thesis
    proof (cases r1)
      case (Inr u)
      then have "a \<noteq> t" using late [of s] b by auto
      then have "drive_loop waiting body ts s1 = (s', ts', r)" "t \<in> set ts" using Cons.prems b True Inr by auto
      then show ?thesis using Cons.IH by blast
    qed (use Cons.prems b True in auto)
  qed (use Cons.prems in auto)
qed simp

subsection \<open>The invariant of the run\<close>

definition uncancelled :: "controller_job \<Rightarrow> bool" where
  "uncancelled j \<longleftrightarrow> (\<forall>a st. bt_get (cj_agents j) a = Some st \<longrightarrow> ca_phase st \<notin> {Ctl_Cancelling, Ctl_Cancelled})"

definition run_inv :: "prepare_frame list \<Rightarrow> run_state \<Rightarrow> bool" where
  "run_inv prepares s \<longleftrightarrow> ctl_reachable prepares (rs_job s) \<and> uncancelled (rs_job s)"

lemma agent_step_uncancelled:
  "agent_step job agent (st, sig) (st', sig') \<Longrightarrow> ca_phase st \<notin> {Ctl_Cancelling, Ctl_Cancelled} \<Longrightarrow>
     ca_phase st' \<notin> {Ctl_Cancelling, Ctl_Cancelled}"
  by (erule agent_stepE) auto

lemma accept_uncancelled: "uncancelled j \<Longrightarrow> uncancelled (fst (controller_accept j agent frame))"
proof (rule accept_cases [of j agent frame])
  fix st st' sig' r
  assume u: "uncancelled j" and st: "bt_get (cj_agents j) agent = Some st"
    and step: "agent_step (cj_job_id j) agent (st, cj_ready_signature j) (st', sig')"
    and eq: "controller_accept j agent frame
      = (j\<lparr>cj_agents := bt_adjust agent (\<lambda>_. st') (cj_agents j), cj_ready_signature := sig'\<rparr>, r)"
  have "ca_phase st' \<notin> {Ctl_Cancelling, Ctl_Cancelled}"
    using agent_step_uncancelled [OF step] u st unfolding uncancelled_def by blast
  then show "uncancelled (fst (controller_accept j agent frame))"
    using u st unfolding eq by (simp add: uncancelled_def)
qed simp_all

lemma start_uncancelled: "uncancelled j \<Longrightarrow> uncancelled (fst (start_all j ms))"
  by (auto simp: start_all_def uncancelled_def)

lemma run_inv_accept:
  "run_inv prepares s \<Longrightarrow> rs_job s' = fst (controller_accept (rs_job s) agent frame) \<Longrightarrow> run_inv prepares s'"
  using ctl_reachable.step [of prepares "rs_job s" "Ctl_Frame agent frame"] accept_uncancelled
  by (simp add: run_inv_def)

lemma send_to_job [simp]: "rs_job (fst (send_to cfg stopped agent frame s)) = rs_job s"
  by (simp add: send_to_def)

lemma send_response_job [simp]: "rs_job (fst (send_response cfg stopped agent response s)) = rs_job s"
  by (cases response) (simp_all add: send_response_def)

lemma send_starts_job [simp]: "rs_job (fst (send_starts cfg stopped ms s)) = rs_job s"
proof (induction ms arbitrary: s)
  case (Cons m ms)
  obtain s1 r where m: "send_to cfg stopped (fst m) (snd m) s = (s1, r)" by (cases "send_to cfg stopped (fst m) (snd m) s")
  then have "rs_job s1 = rs_job s" using send_to_job [of cfg stopped "fst m" "snd m" s] by simp
  with Cons m show ?case by (cases r) simp_all
qed simp

text \<open>Every body leaves the job as it is or hands it one frame.\<close>

definition handles_frame :: "run_state \<Rightarrow> run_state \<Rightarrow> bool" where
  "handles_frame s s' \<longleftrightarrow> rs_job s' = rs_job s
     \<or> (\<exists>agent frame. rs_job s' = fst (controller_accept (rs_job s) agent frame))"

lemma handles_frame_inv: "handles_frame s s' \<Longrightarrow> run_inv prepares s \<Longrightarrow> run_inv prepares s'"
  unfolding handles_frame_def using run_inv_accept by (auto simp: run_inv_def)

lemma handles_frameI:
  "controller_accept (rs_job s) agent frame = (j, r) \<Longrightarrow> rs_job s' \<in> {rs_job s, j} \<Longrightarrow> handles_frame s s'"
  by (auto simp: handles_frame_def) (metis fst_conv)

lemma connect_body_job: "handles_frame s (fst (connect_body cfg d t s))"
proof (cases "receive_until d t")
  case (Inr af)
  obtain agent frame j r where af: "af = (agent, frame)"
    and acc: "controller_accept (rs_job s) agent frame = (j, r)" by (metis surj_pair)
  show ?thesis
    by (rule handles_frameI [OF acc]) (cases r, simp_all add: connect_body_def Inr af acc)
qed (simp add: connect_body_def handles_frame_def)

lemma ready_body_job: "handles_frame s (fst (ready_body cfg d t s))"
proof (cases "receive_until d t")
  case received: (Inr af)
  obtain agent frame j r where af: "af = (agent, frame)"
    and acc: "controller_accept (rs_job s) agent frame = (j, r)" by (metis surj_pair)
  show ?thesis
  proof (cases r)
    case (Inl e)
    show ?thesis
      by (rule handles_frameI [OF acc]) (simp add: ready_body_def received af acc Inl)
  next
    case (Inr response)
    obtain s1 r1 where send: "send_response cfg (tk_stopped t) agent response (s\<lparr>rs_job := j\<rparr>) = (s1, r1)"
      by (metis surj_pair)
    then have "rs_job s1 = j"
      using send_response_job [of cfg "tk_stopped t" agent response "s\<lparr>rs_job := j\<rparr>"] by simp
    then show ?thesis
      by (intro handles_frameI [OF acc]) (cases r1, simp_all add: ready_body_def received af acc Inr send)
  qed
qed (simp add: ready_body_def handles_frame_def)

lemma run_body_job: "handles_frame s (fst (run_body cfg d t s))"
proof (cases "\<exists>agent frame. tk_poll t = Poll_Event (Peer_Frame agent frame)")
  case True
  then obtain agent frame j r where poll: "tk_poll t = Poll_Event (Peer_Frame agent frame)"
    and acc: "controller_accept (rs_job s) agent frame = (j, r)" by (metis surj_pair)
  show ?thesis
    by (rule handles_frameI [OF acc]) (cases r, simp_all add: run_body_def poll acc Let_def)
next
  case False
  then have "rs_job (fst (run_body cfg d t s)) = rs_job s"
    by (auto simp: run_body_def split: poll.splits peer_event.splits)
  then show ?thesis by (simp add: handles_frame_def)
qed

lemma bodies_inv:
  assumes "run_inv prepares s"
  shows "run_inv prepares (fst (connect_body cfg d t s))" "run_inv prepares (fst (ready_body cfg d t s))"
    "run_inv prepares (fst (run_body cfg d t s))"
  using handles_frame_inv [OF connect_body_job assms] handles_frame_inv [OF ready_body_job assms]
    handles_frame_inv [OF run_body_job assms] by blast+

lemma run_phase_inv:
  assumes inv: "run_inv prepares s"
  shows "run_inv prepares (fst (run_phase cfg started stopped ts s))"
    and "snd (run_phase cfg started stopped ts s) = Some (Inr ()) \<Longrightarrow>
      controller_is_terminal (rs_job (fst (run_phase cfg started stopped ts s)))
      \<and> \<not> has_failure (rs_job (fst (run_phase cfg started stopped ts s)))"
proof -
  have "run_inv prepares (fst (run_phase cfg started stopped ts s))
      \<and> (snd (run_phase cfg started stopped ts s) = Some (Inr ()) \<longrightarrow>
        controller_is_terminal (rs_job (fst (run_phase cfg started stopped ts s)))
        \<and> \<not> has_failure (rs_job (fst (run_phase cfg started stopped ts s))))"
  proof (cases "run_millis (rc_start_lead cfg)")
    case lead: (Inr lead)
    obtain j r where start: "start_all (rs_job s) lead = (j, r)" by (cases "start_all (rs_job s) lead")
    have "ctl_reachable prepares j \<and> uncancelled j"
      using ctl_reachable.step [of prepares "rs_job s" "Ctl_Start lead"] start_uncancelled [of "rs_job s" lead]
        inv start by (simp add: run_inv_def)
    then have j: "run_inv prepares s'" if "rs_job s' = j" for s' using that by (simp add: run_inv_def)
    show ?thesis
    proof (cases r)
      case starts: (Inr starts)
      obtain s1 r1 where s1: "send_starts cfg stopped starts (s\<lparr>rs_job := j\<rparr>) = (s1, r1)"
        by (cases "send_starts cfg stopped starts (s\<lparr>rs_job := j\<rparr>)")
      then have j1: "rs_job s1 = j" using send_starts_job [of cfg stopped starts "s\<lparr>rs_job := j\<rparr>"] by simp
      show ?thesis
      proof (cases r1)
        case (Inr u)
        let ?body = "run_body cfg (started + maximum_run cfg)"
        let ?s = "s1\<lparr>rs_last_seen := fold (\<lambda>name m. bt_insert name started m) (rc_peers cfg) []\<rparr>"
        obtain s2 ts2 r2 where loop: "drive_loop not_terminal ?body ts ?s = (s2, ts2, r2)"
          by (metis surj_pair)
        have "run_inv prepares s2"
          using drive_loop_invariant [where I = "run_inv prepares" and body = ?body and waiting = not_terminal, of ?s ts]
            bodies_inv(3) j [of ?s] j1 by (simp add: loop)
        moreover have "\<not> not_terminal s2" if "r2 = Some (Inr v)" for v
          using drive_loop_done loop that by metis
        ultimately show ?thesis using lead start starts s1 Inr loop
          by (auto simp: run_phase_def not_terminal_def split: option.splits sum.splits)
      qed (use lead start starts s1 j1 j in \<open>simp add: run_phase_def\<close>)
    qed (use lead start j in \<open>simp add: run_phase_def\<close>)
  qed (use inv in \<open>simp add: run_phase_def\<close>)
  then show "run_inv prepares (fst (run_phase cfg started stopped ts s))"
    and "snd (run_phase cfg started stopped ts s) = Some (Inr ()) \<Longrightarrow>
      controller_is_terminal (rs_job (fst (run_phase cfg started stopped ts s)))
      \<and> \<not> has_failure (rs_job (fst (run_phase cfg started stopped ts s)))" by blast+
qed

lemma drive_controller_inv:
  assumes "controller_new prepares = Inr j"
  shows "run_inv prepares (fst (drive_controller cfg t0 t1 t2 stopped ts j))"
    and "snd (drive_controller cfg t0 t1 t2 stopped ts j) = Some (Inr ()) \<Longrightarrow>
      controller_is_terminal (rs_job (fst (drive_controller cfg t0 t1 t2 stopped ts j)))
      \<and> \<not> has_failure (rs_job (fst (drive_controller cfg t0 t1 t2 stopped ts j)))"
proof -
  let ?s = "\<lparr>rs_job = j, rs_seen = [], rs_sent = [], rs_last_seen = []\<rparr>"
  let ?b1 = "connect_body cfg (t0 + rc_connect_timeout cfg)" and ?b2 = "ready_body cfg (t1 + rc_ready_timeout cfg)"
  have "uncancelled j"
    using controller_new_phase [OF assms] by (auto simp: uncancelled_def)
  then have i0: "run_inv prepares ?s" using ctl_reachable.init [OF assms] by (simp add: run_inv_def)
  obtain s1 ts1 r1 where l1: "drive_loop (connecting cfg) ?b1 ts ?s = (s1, ts1, r1)" by (metis surj_pair)
  have i1: "run_inv prepares s1"
    using drive_loop_invariant [where I = "run_inv prepares" and body = ?b1 and waiting = "connecting cfg", of ?s ts]
      i0 bodies_inv(1) by (simp add: l1)
  obtain s2 ts2 r2 where l2: "drive_loop not_ready ?b2 ts1 s1 = (s2, ts2, r2)" by (metis surj_pair)
  have i2: "run_inv prepares s2"
    using drive_loop_invariant [where I = "run_inv prepares" and body = ?b2 and waiting = not_ready, of s1 ts1]
      i1 bodies_inv(2) by (simp add: l2)
  show "run_inv prepares (fst (drive_controller cfg t0 t1 t2 stopped ts j))"
    using i1 i2 l1 l2 run_phase_inv(1) [OF i2]
    by (simp add: drive_controller_def split: option.split sum.split)
  show "snd (drive_controller cfg t0 t1 t2 stopped ts j) = Some (Inr ()) \<Longrightarrow>
      controller_is_terminal (rs_job (fst (drive_controller cfg t0 t1 t2 stopped ts j)))
      \<and> \<not> has_failure (rs_job (fst (drive_controller cfg t0 t1 t2 stopped ts j)))"
    using l1 l2 run_phase_inv(2) [OF i2] by (auto simp: drive_controller_def split: option.splits sum.splits)
qed

subsection \<open>The evidence of a successful run\<close>

fun identity_error :: "aggregate_error \<Rightarrow> bool" where
  "identity_error Agg_EmptyCohort = True"
| "identity_error (Agg_DuplicateAgent _) = True"
| "identity_error (Agg_ShardIdentityMismatch _ _) = True"
| "identity_error _ = False"

text \<open>Results that are not such an error, closed under the ways results are composed.\<close>

definition identity_ok :: "aggregate_error + 'a \<Rightarrow> bool" where
  "identity_ok r \<longleftrightarrow> (\<forall>e. r = Inl e \<longrightarrow> \<not> identity_error e)"

named_theorems identity_intros \<open>results without an identity error\<close>

lemma identity_ok_Inr [identity_intros]: "identity_ok (Inr a)"
  and identity_ok_Inl [identity_intros]: "\<not> identity_error e \<Longrightarrow> identity_ok (Inl e)"
  and identity_ok_fail_if [identity_intros]: "\<not> identity_error e \<Longrightarrow> identity_ok (fail_if c e)"
  and identity_ok_ok_or [identity_intros]: "\<not> identity_error e \<Longrightarrow> identity_ok (ok_or e x)"
  and identity_ok_map_err [identity_intros]: "(\<And>x. \<not> identity_error (g x)) \<Longrightarrow> identity_ok (map_err g r')"
  by (auto simp: identity_ok_def fail_if_def ok_or_def map_err_def split: option.splits sum.splits)

lemma identity_ok_and_then [identity_intros]:
  "identity_ok r \<Longrightarrow> (\<And>a. identity_ok (f a)) \<Longrightarrow> identity_ok (and_then r f)"
  by (cases r) (auto simp: identity_ok_def)

lemma identity_ok_and_then_Inr:
  "identity_ok r \<Longrightarrow> (\<And>a. r = Inr a \<Longrightarrow> identity_ok (f a)) \<Longrightarrow> identity_ok (and_then r f)"
  by (cases r) (auto simp: identity_ok_def)

lemma identity_ok_try_fold [identity_intros]:
  "(\<And>s x. identity_ok (f s x)) \<Longrightarrow> identity_ok (try_fold f s xs)"
  by (induction xs arbitrary: s) (auto intro: identity_intros)

lemma identity_ok_traverse [identity_intros]:
  "(\<And>x. identity_ok (f x)) \<Longrightarrow> identity_ok (traverse f xs)"
  by (induction xs) (auto intro!: identity_intros)

lemma identity_ok_add_named [identity_intros]: "identity_ok (add_named f a b)"
  by (auto simp: add_named_def intro: identity_intros)

lemma identity_ok_outcomes [identity_intros]: "identity_ok (add_outcomes a b)"
  "identity_ok (outcome_total c)" "identity_ok (add_scenario_outcome x y n)"
  by (auto simp: add_outcomes_def outcome_total_def add_scenario_outcome_def intro!: identity_intros)

lemma identity_ok_histograms [identity_intros]: "identity_ok (to_histogram A B ev)"
  "identity_ok (decode_validated_metrics A B agent scope m)" "identity_ok (ensure_compatible A l r agent scope)"
  "identity_ok (merge_histogram A into h agent scope)" "identity_ok (summarize A h c n)"
  by (auto simp: to_histogram_def decode_validated_metrics_def ensure_compatible_def merge_histogram_def
      summarize_def intro!: identity_intros split: option.splits prod.splits)

lemma identity_ok_tools [identity_intros]:
  "identity_ok (agg_tool A B agent st item)" "identity_ok (summarize_tool A outs n x)"
  by (auto simp: agg_tool_def summarize_tool_def intro!: identity_intros split: prod.splits)

lemma identity_ok_check:
  "ev_agent_name a \<notin> set names \<Longrightarrow> sh_agent_name (ev_shard a) = ev_agent_name a \<Longrightarrow>
     identity_ok (check_identity n p i names idx a)"
  by (auto simp: check_identity_def Let_def bs_insert_def intro!: identity_intros split: prod.splits)

lemma agg_agents_names:
  assumes "try_fold (agg_agent A B n p i) agg_start evs = Inr st"
  shows "set (as_names st) = ev_agent_name ` set evs"
proof -
  have "as_names st = fold insort (map ev_agent_name evs) []"
    using agg_agents_identity [OF assms] by (auto simp: identity_fold agg_start_def)
  moreover have "set (fold insort xs ys) = set xs \<union> set ys" for xs ys :: "string list"
    by (induction xs arbitrary: ys) (auto simp: set_insort_key)
  ultimately show ?thesis by simp
qed

lemma identity_ok_agents:
  assumes "distinct (map ev_agent_name evs)" "list_all (\<lambda>e. sh_agent_name (ev_shard e) = ev_agent_name e) evs"
  shows "identity_ok (try_fold (agg_agent A B n p i) agg_start evs)"
  using assms
proof (induction evs rule: rev_induct)
  case (snoc a evs)
  show ?case
  proof (cases "try_fold (agg_agent A B n p i) agg_start evs")
    case (Inr st)
    have "ev_agent_name a \<notin> set (as_names st)" using snoc.prems(1) agg_agents_names [OF Inr] by auto
    then have "identity_ok (agg_agent A B n p i st a)"
      using snoc.prems(2) by (auto simp: agg_agent_def Let_def intro!: identity_intros identity_ok_check)
    then show ?thesis using Inr by (auto simp: try_fold_append intro!: identity_intros)
  qed (use snoc in \<open>simp add: try_fold_append identity_ok_def\<close>)
qed (simp add: identity_intros)

lemma aggregate_identity_ok:
  assumes "evs \<noteq> []" "distinct (map ev_agent_name evs)"
    "list_all (\<lambda>e. sh_agent_name (ev_shard e) = ev_agent_name e) evs"
  shows "identity_ok (aggregate_evidence A B evs)"
proof -
  obtain first rest where e: "evs = first # rest" using assms(1) by (cases evs) auto
  let ?fold = "try_fold (agg_agent A B (of_nat (length evs)) (ev_target_protocol_version first)
      (ev_tool_inventory_hash first)) agg_start evs"
  have some: "as_histogram st \<noteq> None" if st: "?fold = Inr st" for st
  proof -
    obtain a where "merge_scope A B a (global_item (last evs)) = Inr (as_histogram st)"
      using agg_agents_histogram [OF st] assms(1)
      by (cases evs rule: rev_cases) (auto simp: try_fold_append and_then_Inr_iff)
    then show ?thesis by (auto simp: merge_scope_def and_then_Inr_iff split: prod.splits dest: sym)
  qed
  have fold: "identity_ok ?fold" by (rule identity_ok_agents [OF assms(2,3)])
  have hist: "identity_ok (ok_or Agg_EmptyCohort (as_histogram st))" if "?fold = Inr st" for st
    using some [OF that] by (auto intro: identity_intros)
  show ?thesis
    unfolding aggregate_evidence_def e list.case
    apply (rule identity_ok_and_then, rule identity_ok_fail_if, simp)
    apply (rule identity_ok_and_then_Inr, rule fold [unfolded e])
    apply (rule identity_ok_and_then, erule hist [unfolded e])
    apply (intro identity_intros; simp)
    done
qed

lemma set_bt_insert_subset: "set (bt_insert k v m) \<subseteq> insert (k, v) (set m)"
  by (induction k v m rule: bt_insert.induct) auto

subsection \<open>Properties\<close>

text \<open>
  C26. A run that succeeds has everybody's evidence: if \<open>drive_controller\<close> returns without an error, the job's final
  evidence is available, holds exactly one result per configured agent in name order, and its aggregation
  never fails for an empty cohort, a duplicate agent or an agent whose shard names somebody else.
\<close>

theorem successful_run_is_complete:
  assumes "controller_new prepares = Inr j"
    and "drive_controller cfg t0 t1 t2 stopped ts j = (s, Some (Inr ()))"
  shows "\<exists>evs. final_evidence (rs_job s) = Inr evs
     \<and> map ev_agent_name evs = sort (map prepare_name prepares) \<and> distinct (map ev_agent_name evs)
     \<and> identity_ok (aggregate_evidence A B evs)"
proof -
  have inv: "run_inv prepares s" and fin: "controller_is_terminal (rs_job s)" "\<not> has_failure (rs_job s)"
    using drive_controller_inv [OF assms(1), of cfg t0 t1 t2 stopped ts] assms(2) by simp_all
  then have reach: "ctl_reachable prepares (rs_job s)" and unc: "uncancelled (rs_job s)"
    by (simp_all add: run_inv_def)
  then have job: "job_inv (rs_job s)" by (blast intro: ctl_reachable_inv)
  have "ca_phase st = Ctl_Finished" if st: "(a, st) \<in> set (cj_agents (rs_job s))" for a st
  proof -
    have "controller_terminal (ca_phase st)" "ca_phase st \<noteq> Ctl_Failed"
      using fin st by (auto simp: controller_is_terminal_def has_failure_def list_all_iff list_ex_iff)
    moreover have "ca_phase st \<noteq> Ctl_Cancelled"
      using unc job_inv_get(1) [OF job st] by (auto simp: uncancelled_def)
    ultimately show ?thesis by (auto simp: controller_terminal_def)
  qed
  then have "list_all (\<lambda>(_, st). ca_phase st = Ctl_Finished) (cj_agents (rs_job s))"
    by (auto simp: list_all_iff)
  then obtain evs where evs: "final_evidence (rs_job s) = Inr evs" using final_evidence_total [OF job] by blast
  note names = final_evidence_names [OF job evs] ctl_reachable_keys [OF reach]
  have "evs \<noteq> []" using names(1) job by (auto simp: job_inv_def)
  moreover have "distinct (map ev_agent_name evs)" using names by simp
  ultimately have "identity_ok (aggregate_evidence A B evs)"
    using aggregate_identity_ok names(2) by blast
  with evs names show ?thesis by auto
qed

text \<open>
  C36. The controller never waits for ever: as soon as one tick reads a clock past the connecting, the preparing and the
  completion deadline, the run has returned, with success or an error.
\<close>

theorem run_is_bounded:
  assumes "t \<in> set ts" "t0 + rc_connect_timeout cfg < tk_now t" "t1 + rc_ready_timeout cfg < tk_now t"
    "t2 + maximum_run cfg \<le> tk_now t"
  shows "snd (drive_controller cfg t0 t1 t2 stopped ts j) \<noteq> None"
proof -
  have late1: "\<exists>s' e. connect_body cfg (t0 + rc_connect_timeout cfg) t s = (s', Inl e)"
    and late2: "\<exists>s' e. ready_body cfg (t1 + rc_ready_timeout cfg) t s = (s', Inl e)"
    and late3: "\<exists>s' e. run_body cfg (t2 + maximum_run cfg) t s = (s', Inl e)" for s
    using assms(2-4) by (simp_all add: connect_body_def ready_body_def receive_until_def run_body_def)
  have run: "snd (run_phase cfg t2 stopped ts2 s) \<noteq> None" if t: "t \<in> set ts2" for ts2 s
  proof -
    have "r \<noteq> None" if "drive_loop not_terminal (run_body cfg (t2 + maximum_run cfg)) ts2 s1 = (s2, ts3, r)"
      for s1 s2 ts3 r
      using drive_loop_late [OF late3 that t] by blast
    then show ?thesis by (auto simp: run_phase_def split: sum.splits prod.splits option.splits)
  qed
  obtain s1 ts1 r1 where l1: "drive_loop (connecting cfg) (connect_body cfg (t0 + rc_connect_timeout cfg)) ts
      \<lparr>rs_job = j, rs_seen = [], rs_sent = [], rs_last_seen = []\<rparr> = (s1, ts1, r1)" by (metis surj_pair)
  obtain s2 ts2 r2 where l2: "drive_loop not_ready (ready_body cfg (t1 + rc_ready_timeout cfg)) ts1 s1 = (s2, ts2, r2)"
    by (metis surj_pair)
  have 1: "r1 \<noteq> None" "\<And>u. r1 = Some (Inr u) \<Longrightarrow> t \<in> set ts1"
    using drive_loop_late [OF late1 l1 assms(1)] by auto
  have 2: "r2 \<noteq> None" "\<And>u. r2 = Some (Inr u) \<Longrightarrow> t \<in> set ts2" if "r1 = Some (Inr v)" for v
    using drive_loop_late [OF late2 l2 1(2) [OF that]] by auto
  show ?thesis
  proof (cases r1)
    case (Some x)
    then show ?thesis
    proof (cases x)
      case (Inr v)
      with Some have r1: "r1 = Some (Inr v)" by simp
      obtain y where "r2 = Some y" using 2(1) [OF r1] by auto
      then show ?thesis using run 2(2) [OF r1]
        by (cases y) (auto simp: drive_controller_def l1 l2 r1)
    qed (simp add: drive_controller_def l1)
  qed (use 1 in simp)
qed

text \<open>
  C39. Finishing first breaks the run: when an agent's final evidence is accepted and its peer then closes the
  channel, as a worker does after its final frame, while another agent is still running, the run is
  aborted as a disconnection, although that agent is finished and its evidence retained.
\<close>

theorem early_finisher_aborts_run:
  assumes "bt_get (cj_agents (rs_job s)) a = Some st" "ca_phase st = Ctl_Running"
    and "controller_phase (rs_job s) b = Some Ctl_Running" "b \<noteq> a" "bt_wf (cj_agents (rs_job s))"
    and "ff_job_id f = cj_job_id (rs_job s)" "evidence_of a (ff_evidence f)" "\<not> has_failure (rs_job s)"
    and "tk_poll t1 = Poll_Event (Peer_Frame a (wire_frame_new (Msg_Finished f)))" "tk_now t1 < deadline"
    and "tk_poll t2 = Poll_Event (Peer_Closed a diagnostic)" "tk_now t2 < deadline"
    and "\<forall>(name, seen) \<in> set (rs_last_seen s). tk_after t1 - seen \<le> rc_heartbeat_timeout cfg"
  shows "\<exists>s'. drive_loop not_terminal (run_body cfg deadline) (t1 # t2 # ts) s
        = (s', ts, Some (Inl (Run_Disconnected a diagnostic)))
     \<and> controller_phase (rs_job s') a = Some Ctl_Finished \<and> latest_evidence (rs_job s') a = Some (ff_evidence f)"
proof -
  let ?st = "st\<lparr>ca_final_evidence := Some (ff_evidence f), ca_phase := Ctl_Finished\<rparr>"
  let ?j = "(rs_job s)\<lparr>cj_agents := bt_adjust a (\<lambda>_. ?st) (cj_agents (rs_job s)),
      cj_ready_signature := cj_ready_signature (rs_job s)\<rparr>"
  let ?s = "s\<lparr>rs_job := ?j, rs_last_seen := bt_insert a (tk_after t1) (rs_last_seen s)\<rparr>"
  have acc: "controller_accept (rs_job s) a (wire_frame_new (Msg_Finished f)) = (?j, Inr None)"
    using assms(1,2,6,7) by (simp add: controller_accept_def accept_message_def on_finished_def)
  have running: "not_terminal s'"
    if "controller_phase (rs_job s') b = Some Ctl_Running" "bt_wf (cj_agents (rs_job s'))" for s'
  proof -
    from that obtain stb where "(b, stb) \<in> set (cj_agents (rs_job s'))" "ca_phase stb = Ctl_Running"
      using bt_wf_get_mem by (fastforce simp: controller_phase_def)
    then show ?thesis
      by (auto simp: not_terminal_def controller_is_terminal_def controller_terminal_def list_all_iff
          intro!: bexI [of _ "(b, stb)"])
  qed
  have b: "controller_phase ?j b = Some Ctl_Running" using assms(3,4) by (simp add: controller_phase_def)
  have "\<not> has_failure ?j"
    using assms(8) by (fastforce simp: has_failure_def bt_adjust_def list_ex_iff split: if_splits)
  moreover have "\<not> heartbeat_late cfg (tk_after t1) ?s x" if "x \<in> set (rs_last_seen ?s)" for x
  proof -
    have "x = (a, tk_after t1) \<or> x \<in> set (rs_last_seen s)"
      using that set_bt_insert_subset by fastforce
    then show ?thesis using assms(13) by (auto simp: heartbeat_late_def)
  qed
  then have "check_heartbeats cfg (tk_after t1) ?s = Inr ()"
    by (auto simp: check_heartbeats_def find_None_iff split: option.splits) (metis find_Some_iff nth_mem)
  ultimately have "run_body cfg deadline t1 s = (?s, Inr ())"
    using assms(9,10) acc by (simp add: run_body_def Let_def)
  moreover have "run_body cfg deadline t2 ?s = (?s, Inl (Run_Disconnected a diagnostic))"
    using assms(11,12) by (simp add: run_body_def)
  moreover have "not_terminal s" "not_terminal ?s" using running assms(3,5) b by simp_all
  moreover have "controller_phase ?j a = Some Ctl_Finished" "latest_evidence ?j a = Some (ff_evidence f)"
    using assms(1) by (simp_all add: controller_phase_def latest_evidence_def)
  ultimately show ?thesis by (intro exI [of _ ?s]) simp
qed

text \<open>
  Being early breaks the run too: while some agent has yet to greet, any frame of an agent that has already
  greeted aborts the connecting loop, even a heartbeat that the job's state machine accepts.
\<close>

theorem early_frame_aborts_connecting:
  assumes "connecting cfg s" "controller_phase (rs_job s) a \<in> Some ` {Ctl_Preparing, Ctl_Ready}"
    and "tk_now t \<le> deadline" "bf_job_id beat = cj_job_id (rs_job s)"
    and "tk_poll t = Poll_Event (Peer_Frame a (wire_frame_new (Msg_Heartbeat beat)))"
  shows "drive_loop (connecting cfg) (connect_body cfg deadline) (t # ts) s
       = (s, ts, Some (Inl (Run_UnexpectedWhileConnecting a)))
     \<and> snd (controller_accept (rs_job s) a (wire_frame_new (Msg_Heartbeat beat))) = Inr None"
proof
  obtain st where "bt_get (cj_agents (rs_job s)) a = Some st" "ca_phase st \<in> {Ctl_Preparing, Ctl_Ready}"
    using assms(2) by (auto simp: controller_phase_def)
  then show "snd (controller_accept (rs_job s) a (wire_frame_new (Msg_Heartbeat beat))) = Inr None"
    using assms(4) by (auto simp: controller_accept_def accept_message_def)
  show "drive_loop (connecting cfg) (connect_body cfg deadline) (t # ts) s
      = (s, ts, Some (Inl (Run_UnexpectedWhileConnecting a)))"
    using assms(1,2,3,5) by (auto simp: connect_body_def receive_until_def)
qed

subsection \<open>Runs of two agents\<close>

definition sample_config :: run_config where
  "sample_config = \<lparr>rc_peers = [''a'', ''b''], rc_connect_timeout = 100, rc_ready_timeout = 100,
     rc_heartbeat_timeout = 100, rc_start_lead = 0, rc_measurement_ms = 1\<rparr>"

definition sample_tick :: "nat \<Rightarrow> poll \<Rightarrow> tick" where
  "sample_tick now p = \<lparr>tk_now = now, tk_poll = p, tk_after = now, tk_stopped = {}\<rparr>"

definition sample_finished :: "string \<Rightarrow> finished_frame" where
  "sample_finished name = \<lparr>ff_job_id = ''job'', ff_evidence =
     (gf_evidence (sample_progress 1))\<lparr>ev_agent_name := name,
       ev_shard := \<lparr>sh_agent_name = name, sh_index = 0, sh_agent_count = 2, sh_concurrency = 2\<rparr>\<rparr>\<rparr>"

definition finished_poll :: "string \<Rightarrow> poll" where
  "finished_poll name = Poll_Event (Peer_Frame name (wire_frame_new (Msg_Finished (sample_finished name))))"

definition closed_poll :: "string \<Rightarrow> poll" where
  "closed_poll name = Poll_Event (Peer_Closed name ''closed'')"

definition sample_run :: "controller_agent_phase \<Rightarrow> run_state" where
  "sample_run p = \<lparr>rs_job = sample_job p, rs_seen = [''a''], rs_sent = [], rs_last_seen = [(''a'', 0), (''b'', 0)]\<rparr>"

lemma sample_finished_evidence: "evidence_of name (ff_evidence (sample_finished name))"
  "ff_job_id (sample_finished name) = ''job''"
  by (simp_all add: sample_finished_def)

lemma sample_job_agents:
  "cj_agents (sample_job p) = [(''a'', (controller_agent_new (sample_prepare ''a'' 0))\<lparr>ca_phase := p\<rparr>),
     (''b'', (controller_agent_new (sample_prepare ''b'' 1))\<lparr>ca_phase := p\<rparr>)]"
  "cj_job_id (sample_job p) = ''job''"
  by (simp_all add: sample_job_def)

lemma early_finisher_aborts_run_witness:
  "\<exists>s'. drive_loop not_terminal (run_body sample_config 1000)
        [sample_tick 10 (finished_poll ''a''), sample_tick 20 (closed_poll ''a''), sample_tick 30 (finished_poll ''b'')]
        (sample_run Ctl_Running)
      = (s', [sample_tick 30 (finished_poll ''b'')], Some (Inl (Run_Disconnected ''a'' ''closed'')))"
proof -
  have st: "bt_get (cj_agents (rs_job (sample_run Ctl_Running))) ''a''
      = Some ((controller_agent_new (sample_prepare ''a'' 0))\<lparr>ca_phase := Ctl_Running\<rparr>)"
    by (simp add: sample_run_def sample_job_agents)
  have "bt_wf (cj_agents (rs_job (sample_run Ctl_Running)))"
    using ctl_reachable_inv [OF sample_running] by (simp add: sample_run_def job_inv_def)
  moreover have "\<not> has_failure (rs_job (sample_run Ctl_Running))"
    by (simp add: has_failure_def sample_run_def sample_job_agents)
  moreover have "controller_phase (rs_job (sample_run Ctl_Running)) ''b'' = Some Ctl_Running"
    by (simp add: sample_run_def sample_phase)
  ultimately have "\<exists>s'. drive_loop not_terminal (run_body sample_config 1000)
        (sample_tick 10 (finished_poll ''a'') # sample_tick 20 (closed_poll ''a'') # [sample_tick 30 (finished_poll ''b'')])
        (sample_run Ctl_Running)
      = (s', [sample_tick 30 (finished_poll ''b'')], Some (Inl (Run_Disconnected ''a'' ''closed'')))
      \<and> controller_phase (rs_job s') ''a'' = Some Ctl_Finished
      \<and> latest_evidence (rs_job s') ''a'' = Some (ff_evidence (sample_finished ''a''))"
    by (intro early_finisher_aborts_run [OF st, where b = "''b''"])
      (simp_all add: finished_poll_def closed_poll_def sample_tick_def sample_run_def sample_job_agents
        sample_finished_evidence sample_config_def)
  then show ?thesis by blast
qed

text \<open>In the other order, with both final frames before the first close, the same run succeeds.\<close>

lemma finishing_together_succeeds:
  "snd (snd (drive_loop not_terminal (run_body sample_config 1000)
      [sample_tick 10 (finished_poll ''a''), sample_tick 20 (finished_poll ''b''), sample_tick 30 (closed_poll ''a'')]
      (sample_run Ctl_Running))) = Some (Inr ())"
  by (simp add: not_terminal_def controller_is_terminal_def controller_terminal_def sample_run_def sample_job_agents
      run_body_def finished_poll_def closed_poll_def sample_tick_def controller_accept_def accept_message_def
      on_finished_def sample_finished_evidence has_failure_def check_heartbeats_def heartbeat_late_def
      sample_config_def controller_phase_def bt_adjust_def Let_def)

definition sample_beat :: heartbeat_frame where
  "sample_beat = \<lparr>bf_job_id = ''job'', bf_sequence = 1\<rparr>"

lemma early_frame_aborts_connecting_witness:
  "\<exists>s. snd (snd (drive_loop (connecting sample_config) (connect_body sample_config 1000)
      [sample_tick 10 (Poll_Event (Peer_Frame ''b'' (wire_frame_new (Msg_Heartbeat sample_beat))))] s))
      = Some (Inl (Run_UnexpectedWhileConnecting ''b''))"
  using early_frame_aborts_connecting [where s = "sample_run Ctl_Preparing" and cfg = sample_config and a = "''b''"
      and deadline = 1000 and beat = sample_beat and ts = "[]"
      and t = "sample_tick 10 (Poll_Event (Peer_Frame ''b'' (wire_frame_new (Msg_Heartbeat sample_beat))))"]
    sample_phase [of Ctl_Preparing]
  by (intro exI [of _ "sample_run Ctl_Preparing"])
    (simp add: connecting_def sample_run_def sample_config_def sample_tick_def sample_beat_def sample_job_agents)

lemma run_is_bounded_witness:
  "snd (drive_controller sample_config 0 0 0 {} [sample_tick (10 ^ 12) Poll_Elapsed] (sample_job Ctl_AwaitingHello)) \<noteq> None"
proof -
  have "maximum_run sample_config \<le> 10 ^ 12"
    by (simp add: maximum_run_def sample_config_def duration_add_def duration_max_def)
  then show ?thesis
    by (intro run_is_bounded [of "sample_tick (10 ^ 12) Poll_Elapsed"])
      (simp_all add: sample_tick_def sample_config_def)
qed

definition hello_poll :: "string \<Rightarrow> poll" where
  "hello_poll name = Poll_Event (Peer_Frame name (wire_frame_new (Msg_Hello \<lparr>hf_agent_name = None,
     hf_binary_version = ''0.2.0'', hf_scenarios = [Scenario_Sustained], hf_max_concurrency = 8\<rparr>)))"

definition ready_poll :: "string \<Rightarrow> poll" where
  "ready_poll name = Poll_Event (Peer_Frame name (wire_frame_new (Msg_Ready \<lparr>rf_job_id = ''job'',
     rf_agent_name = name, rf_live_workers = 2, rf_requested_workers = 2,
     rf_tool_inventory_hash = ''abc'', rf_target_protocol_version = ''2025-06-18''\<rparr>)))"

definition sample_ticks :: "tick list" where
  "sample_ticks = [sample_tick 1 (hello_poll ''a''), sample_tick 2 (hello_poll ''b''),
     sample_tick 3 (ready_poll ''b''), sample_tick 4 (ready_poll ''a''),
     sample_tick 5 (finished_poll ''b''), sample_tick 6 (finished_poll ''a'')]"

lemmas sample_run_defs = sample_tick_def hello_poll_def ready_poll_def finished_poll_def sample_job_def
  sample_config_def controller_agent_new_def sample_prepare_def connecting_def connect_body_def
  receive_until_def controller_phase_def controller_accept_def accept_message_def on_hello_def
  validate_hello_def on_ready_def on_finished_def send_response_def send_to_def bs_insert_def
  not_ready_def ready_body_def all_ready_def has_failure_def bt_adjust_def bt_map_def
  run_body_def not_terminal_def controller_is_terminal_def controller_terminal_def
  check_heartbeats_def heartbeat_late_def Let_def sample_finished_evidence

lemma sample_connected:
  "\<exists>s. drive_loop (connecting sample_config) (connect_body sample_config 100) sample_ticks
       \<lparr>rs_job = sample_job Ctl_AwaitingHello, rs_seen = [], rs_sent = [], rs_last_seen = []\<rparr>
     = (s, drop 2 sample_ticks, Some (Inr ()))
     \<and> rs_job s = (sample_job Ctl_Preparing)\<lparr>cj_ready_signature := None\<rparr> \<and> length (rs_seen s) = 2"
  by (simp add: sample_ticks_def sample_run_defs)

lemma sample_prepared:
  assumes "rs_job s = (sample_job Ctl_Preparing)\<lparr>cj_ready_signature := None\<rparr>"
  shows "\<exists>s'. drive_loop not_ready (ready_body sample_config 100) (drop 2 sample_ticks) s
     = (s', drop 4 sample_ticks, Some (Inr ())) \<and> rs_job s' = sample_job Ctl_Ready"
  using assms by (simp add: sample_ticks_def sample_run_defs)

lemma sample_completed:
  assumes "rs_job s = sample_job Ctl_Ready"
  shows "\<exists>s'. run_phase sample_config 0 {} (drop 4 sample_ticks) s = (s', Some (Inr ()))"
proof -
  have late: "5 < maximum_run sample_config" "6 < maximum_run sample_config"
    by (simp_all add: maximum_run_def sample_config_def duration_add_def duration_max_def)
  have start: "start_all (rs_job s) 0 = (sample_job Ctl_Running,
      Inr [(''a'', wire_frame_new (Msg_Start \<lparr>sf_job_id = ''job'', sf_start_after_ms = 0\<rparr>)),
           (''b'', wire_frame_new (Msg_Start \<lparr>sf_job_id = ''job'', sf_start_after_ms = 0\<rparr>))])"
    by (simp add: assms start_all_def all_ready_def sample_job_def controller_agent_new_def bt_map_def)
  have lead: "run_millis (rc_start_lead sample_config) = Inr 0" by (simp add: run_millis_def sample_config_def)
  show ?thesis
    using late unfolding run_phase_def lead start sum.case prod.case
    by (simp add: sample_ticks_def send_starts_def sample_run_defs del: One_nat_def)
qed

lemma successful_run_is_complete_witness:
  "\<exists>s evs. drive_controller sample_config 0 0 0 {} sample_ticks (sample_job Ctl_AwaitingHello) = (s, Some (Inr ()))
     \<and> final_evidence (rs_job s) = Inr evs \<and> map ev_agent_name evs = [''a'', ''b'']"
proof -
  obtain s1 where s1: "drive_loop (connecting sample_config) (connect_body sample_config 100) sample_ticks
       \<lparr>rs_job = sample_job Ctl_AwaitingHello, rs_seen = [], rs_sent = [], rs_last_seen = []\<rparr>
     = (s1, drop 2 sample_ticks, Some (Inr ()))"
    "rs_job s1 = (sample_job Ctl_Preparing)\<lparr>cj_ready_signature := None\<rparr>"
    using sample_connected by blast
  obtain s2 where s2: "drive_loop not_ready (ready_body sample_config 100) (drop 2 sample_ticks) s1
      = (s2, drop 4 sample_ticks, Some (Inr ()))" "rs_job s2 = sample_job Ctl_Ready"
    using sample_prepared [OF s1(2)] by blast
  obtain s3 where s3: "run_phase sample_config 0 {} (drop 4 sample_ticks) s2 = (s3, Some (Inr ()))"
    using sample_completed [OF s2(2)] by blast
  have "rc_connect_timeout sample_config = 100" "rc_ready_timeout sample_config = 100"
    by (simp_all add: sample_config_def)
  then have d: "drive_controller sample_config 0 0 0 {} sample_ticks (sample_job Ctl_AwaitingHello) = (s3, Some (Inr ()))"
    using s1(1) s2(1) s3 by (simp add: drive_controller_def)
  have "sort (map prepare_name sample_prepares) = [''a'', ''b'']"
    by (simp add: sample_prepares_def sample_prepare_def)
  then show ?thesis using successful_run_is_complete [OF sample_new d] d by fastforce
qed

end
