(* ===== verification/Worker_Evidence.thy ===== *)
theory Worker_Evidence
  imports Aggregate
begin

section \<open>The evidence a worker reports\<close>

text \<open>
  \<open>build_evidence\<close> of \<open>crates/mcp-loadtest-cli/src/distributed/worker.rs\<close>: how a finished run's
  recorder becomes the evidence the controller aggregates. A panic of the recorder's snapshots is
  \<open>None\<close>; an \<open>anyhow\<close> error is the left value. The recorder is quiescent by then (the run task has
  finished), so the four snapshots read one state. The clock is read once more for the elapsed time.
\<close>

record traffic_readiness =
  tr_live_workers :: u32
  tr_requested_workers :: u32
  tr_target_protocol_version :: string
  tr_tool_inventory_hash :: string

record gate_timing =
  gt_readiness :: traffic_readiness
  gt_traffic_start :: nat
  gt_start_delay_ms :: u64

datatype evidence_error =
    Evd_MissingHistogram string
  | Evd_Aggregate aggregate_error

definition millis_saturated :: "duration \<Rightarrow> u64" where
  "millis_saturated d = u64_saturate (d div 10 ^ 6)"

text \<open>What the start gate records when it lets the traffic go.\<close>

definition gate_open :: "traffic_readiness \<Rightarrow> nat \<Rightarrow> nat \<Rightarrow> gate_timing" where
  "gate_open readiness scheduled now = \<lparr>gt_readiness = readiness, gt_traffic_start = now,
     gt_start_delay_ms = millis_saturated (now - scheduled)\<rparr>"

definition tool_evidence ::
  "'h hdr_api \<Rightarrow> base64_api \<Rightarrow> (string, 'h) btree \<Rightarrow> (string, metrics_evidence) btree
     \<Rightarrow> string \<times> scenario_metrics \<Rightarrow> evidence_error + (string, metrics_evidence) btree" where
  "tool_evidence A B histograms per_tool item =
     (case item of (tool, metrics) \<Rightarrow>
     and_then (ok_or (Evd_MissingHistogram tool) (bt_get histograms tool)) (\<lambda>histogram.
     and_then (map_err Evd_Aggregate (from_histogram A B histogram)) (\<lambda>latency.
     Inr (bt_insert tool \<lparr>me_latency = latency, me_outcomes = sm_outcomes metrics\<rparr> per_tool))))"

definition build_evidence ::
  "'h hdr_api \<Rightarrow> base64_api \<Rightarrow> nat \<Rightarrow> nat \<Rightarrow> agent_shard \<Rightarrow> 'h recorder \<Rightarrow> scenario_outcome \<Rightarrow> gate_timing
     \<Rightarrow> (evidence_error + agent_evidence) option" where
  "build_evidence A B now later shard r outcome timing =
     Option.bind (recorder_snapshot A now r) (\<lambda>snapshot.
     Option.bind (snapshot_per_tool A now r) (\<lambda>per_tool_snapshots.
     Option.bind (per_tool_latency_histograms A r) (\<lambda>per_tool_histograms.
     case try_fold (tool_evidence A B per_tool_histograms) [] per_tool_snapshots of
       Inl e \<Rightarrow> Some (Inl e)
     | Inr per_tool \<Rightarrow>
         Option.bind (latency_histogram A r) (\<lambda>histogram. Some (
           and_then (map_err Evd_Aggregate (from_histogram A B histogram)) (\<lambda>latency.
           Inr \<lparr>ev_agent_name = sh_agent_name shard, ev_shard = shard,
                ev_metrics = \<lparr>me_latency = latency, me_outcomes = sm_outcomes snapshot\<rparr>,
                ev_per_tool = per_tool, ev_scenario_outcome = outcome,
                ev_measurement_elapsed_ms = max (millis_saturated (later - gt_traffic_start timing)) 1,
                ev_start_delay_ms = gt_start_delay_ms timing,
                ev_target_protocol_version = tr_target_protocol_version (gt_readiness timing),
                ev_tool_inventory_hash = tr_tool_inventory_hash (gt_readiness timing)\<rparr>))))))"

subsection \<open>What the evidence says\<close>

text \<open>A payload that passes the controller's validation and counts exactly the given outcomes.\<close>

definition evidence_for :: "'h hdr_api \<Rightarrow> base64_api \<Rightarrow> call_outcome list \<Rightarrow> metrics_evidence \<Rightarrow> bool" where
  "evidence_for A B ocs m \<longleftrightarrow> validates A B rec_layout m \<and> counts_sum (me_outcomes m) = length ocs
     \<and> (\<forall>oc. unat (count_of (me_outcomes m) oc) = count_list ocs oc)"

lemma encode_tally:
  assumes "hdr_contract A" "base64_contract B" "tally A ocs c sh" "length ocs < 2 ^ 64"
    and h: "sharded_merged A sh = Some h" and e: "from_histogram A B h = Inr e"
  shows "evidence_for A B ocs \<lparr>me_latency = e, me_outcomes = c\<rparr>"
proof -
  have "hdr_layout_of A h = rec_layout" "unat (hdr_len A h) = latency_samples c"
    using tally_merged [OF assms(1,3,4)] h by auto
  then have "validates A B rec_layout \<lparr>me_latency = e, me_outcomes = c\<rparr>"
    using from_to_histogram [OF assms(1,2) e] by (simp add: validates_def)
  with assms(3) show ?thesis by (simp add: evidence_for_def tally_def)
qed

lemma tool_evidence_Inr_iff:
  "tool_evidence A B hs pt (tool, m) = Inr pt' \<longleftrightarrow> (\<exists>h e. bt_get hs tool = Some h \<and> from_histogram A B h = Inr e
     \<and> pt' = bt_insert tool \<lparr>me_latency = e, me_outcomes = sm_outcomes m\<rparr> pt)"
  by (auto simp: tool_evidence_def result_iffs map_err_Inr_iff)

definition encoded_entry ::
  "'h hdr_api \<Rightarrow> base64_api \<Rightarrow> (string, 'h) btree \<Rightarrow> (string, metrics_evidence) btree
     \<Rightarrow> string \<Rightarrow> scenario_metrics \<Rightarrow> bool" where
  "encoded_entry A B hs pt tool m \<longleftrightarrow> (\<exists>h e. bt_get hs tool = Some h \<and> from_histogram A B h = Inr e
     \<and> bt_get pt tool = Some \<lparr>me_latency = e, me_outcomes = sm_outcomes m\<rparr>)"

lemma tool_evidence_entry:
  "tool_evidence A B hs pt (tool, m) = Inr pt' \<Longrightarrow> encoded_entry A B hs pt' tool m"
  by (auto simp: tool_evidence_Inr_iff encoded_entry_def)

lemma tool_evidence_keeps:
  "tool_evidence A B hs pt (tool, m) = Inr pt' \<Longrightarrow> tool' \<noteq> tool \<Longrightarrow>
     encoded_entry A B hs pt' tool' m' = encoded_entry A B hs pt tool' m'"
  by (auto simp: tool_evidence_Inr_iff encoded_entry_def)

lemma tool_evidence_fold:
  assumes "try_fold (tool_evidence A B hs) [] ms = Inr pt" "distinct (bt_keys ms)"
  shows "bt_wf pt \<and> dom (bt_get pt) = fst ` set ms \<and> (\<forall>(tool, m) \<in> set ms. encoded_entry A B hs pt tool m)"
proof -
  have "bt_wf pt \<and> dom (bt_get pt) = fst ` set ms
     \<and> (distinct (bt_keys ms) \<longrightarrow> (\<forall>(tool, m) \<in> set ms. encoded_entry A B hs pt tool m))"
    using assms(1)
  proof (rule try_fold_inv)
    fix don :: "(string \<times> scenario_metrics) list" and x t t'
    assume I: "bt_wf t \<and> dom (bt_get t) = fst ` set don
     \<and> (distinct (bt_keys don) \<longrightarrow> (\<forall>(tool, m) \<in> set don. encoded_entry A B hs t tool m))"
      and s: "tool_evidence A B hs t x = Inr t'"
    obtain tool m where x: "x = (tool, m)" by (cases x)
    obtain v where "t' = bt_insert tool v t" using s by (auto simp: x tool_evidence_Inr_iff)
    then have "bt_wf t'" "dom (bt_get t') = insert tool (dom (bt_get t))" using I by simp_all
    moreover have "encoded_entry A B hs t' tool' m'"
      if "(tool', m') \<in> set (don @ [x])" "distinct (bt_keys (don @ [x]))" for tool' m'
    proof (cases "(tool', m') \<in> set don")
      case True
      then have "tool' \<noteq> tool" using that(2) x by force
      then show ?thesis using tool_evidence_keeps [of A B hs t tool m t'] s x I True that(2) by auto
    qed (use that tool_evidence_entry s x in auto)
    ultimately show "bt_wf t' \<and> dom (bt_get t') = fst ` set (don @ [x])
     \<and> (distinct (bt_keys (don @ [x])) \<longrightarrow> (\<forall>(tool, m) \<in> set (don @ [x]). encoded_entry A B hs t' tool m))"
      using I x by auto
  qed simp
  with assms(2) show ?thesis by blast
qed

text \<open>An encoding error of the histogram library, or a histogram beyond the payload bound.\<close>

fun encoding_error :: "evidence_error \<Rightarrow> bool" where
  "encoding_error (Evd_Aggregate (Agg_HistogramEncode _)) = True"
| "encoding_error (Evd_Aggregate (Agg_HistogramTooLarge _ _)) = True"
| "encoding_error _ = False"

lemma from_histogram_error: "from_histogram A B h = Inl e \<Longrightarrow> encoding_error (Evd_Aggregate e)"
  by (auto simp: from_histogram_def result_iffs map_err_def split: sum.splits)

lemma tool_evidence_error:
  assumes "try_fold (tool_evidence A B hs) pt ms = Inl e" "fst ` set ms \<subseteq> dom (bt_get hs)"
  shows "encoding_error e"
  using assms
proof (induction ms arbitrary: pt)
  case (Cons x ms)
  obtain tool m where x: "x = (tool, m)" by (cases x)
  then obtain h where "bt_get hs tool = Some h" using Cons.prems(2) by auto
  then show ?case using Cons x from_histogram_error
    by (cases "from_histogram A B h") (auto simp: tool_evidence_def)
qed simp

text \<open>The traffic a run generates, and the recorder it leaves behind.\<close>

definition recorded :: "'h hdr_api \<Rightarrow> rec_event list \<Rightarrow> 'h recorder \<Rightarrow> bool" where
  "recorded A es r \<longleftrightarrow> length es < 2 ^ 64
     \<and> (\<exists>start r0. recorder_new A start = Some r0 \<and> recorder_run A r0 es = Some r)"

lemma recorded_inv:
  assumes "hdr_contract A" "recorded A es r"
  shows "recorder_inv A es r"
proof -
  obtain start r0 where "length es < 2 ^ 64" "recorder_new A start = Some r0" "recorder_run A r0 es = Some r"
    using assms(2) by (auto simp: recorded_def)
  then show ?thesis using recorder_run_inv [OF assms(1), of es start] by (metis option.inject)
qed

text \<open>What the four snapshots return, and the per-tool map \<open>m\<close> they read.\<close>

definition snapshots ::
  "'h hdr_api \<Rightarrow> nat \<Rightarrow> rec_event list \<Rightarrow> 'h recorder \<Rightarrow> (string, scenario_metrics) btree \<Rightarrow> (string, 'h) btree
     \<Rightarrow> 'h \<Rightarrow> (string, 'h per_tool_state) btree \<Rightarrow> bool" where
  "snapshots A now es r ms hs h m \<longleftrightarrow>
     snapshot_per_tool A now r = Some ms \<and> per_tool_latency_histograms A r = Some hs
     \<and> latency_histogram A r = Some h \<and> bt_wf m
     \<and> recorder_snapshot A now r = Some (metrics_of A now (rec_start r) (rec_outcomes r) h)
     \<and> bt_keys ms = bt_keys m \<and> bt_keys hs = bt_keys m \<and> dom (bt_get m) = tools_of es
     \<and> (\<forall>x. bt_get ms x = Option.bind (bt_get m x) (per_tool_snapshot A now))
     \<and> (\<forall>x. bt_get hs x = Option.bind (bt_get m x) (\<lambda>st. sharded_merged A (pts_latency st)))
     \<and> (\<forall>x st. bt_get m x = Some st \<longrightarrow> tally A (tool_outcomes x es) (pts_outcomes st) (pts_latency st))
     \<and> tally A (map event_outcome es) (rec_outcomes r) (rec_latency r)"

lemma recorded_snapshots:
  assumes "hdr_contract A" "recorded A es r"
  shows "\<exists>ms hs h m. snapshots A now es r ms hs h m"
proof -
  have n: "length es < 2 ^ 64" using assms(2) by (simp add: recorded_def)
  note inv = recorded_inv [OF assms]
  obtain m where m: "rec_per_tool r = Some m" "bt_wf m"
    "\<And>x. bt_get m x = None \<longleftrightarrow> tool_outcomes x es = []"
    "\<And>x st. bt_get m x = Some st \<Longrightarrow> tally A (tool_outcomes x es) (pts_outcomes st) (pts_latency st)"
    "\<And>x st. bt_get m x = Some st \<Longrightarrow> \<exists>h. sharded_merged A (pts_latency st) = Some h
       \<and> unat (hdr_len A h) = length (filter contributes_to_latency (tool_outcomes x es))"
    using assms(1) inv n by (rule recorder_inv_tools) blast
  have hist: "\<forall>(k, st) \<in> set m. \<exists>h. sharded_merged A (pts_latency st) = Some h"
    using m(5) bt_wf_get_mem [OF m(2)] by fastforce
  then have snap: "\<forall>(k, st) \<in> set m. \<exists>w. per_tool_snapshot A now st = Some w"
    by (auto simp: per_tool_snapshot_def)
  obtain hs where hs: "bt_traverse (\<lambda>st. sharded_merged A (pts_latency st)) m = Some hs"
    "bt_keys hs = bt_keys m"
    "\<And>k. bt_get hs k = Option.bind (bt_get m k) (\<lambda>st. sharded_merged A (pts_latency st))"
    using bt_traverse_total [OF hist] by blast
  obtain ms where ms: "bt_traverse (per_tool_snapshot A now) m = Some ms" "bt_keys ms = bt_keys m"
    "\<And>k. bt_get ms k = Option.bind (bt_get m k) (per_tool_snapshot A now)"
    using bt_traverse_total [OF snap] by blast
  have t: "tally A (map event_outcome es) (rec_outcomes r) (rec_latency r)"
    using inv by (simp add: recorder_inv_def)
  obtain h where h: "sharded_merged A (rec_latency r) = Some h"
    using tally_merged [OF assms(1) t] n by auto
  have d: "dom (bt_get m) = tools_of es" using m(3) tools_of_outcomes by (auto simp: dom_def)
  have "snapshots A now es r ms hs h m"
    unfolding snapshots_def using ms hs h d t m(1,2,4)
    by (simp add: snapshot_per_tool_def per_tool_latency_histograms_def latency_histogram_def
        recorder_snapshot_def)
  then show ?thesis by blast
qed

lemma build_evidence_total:
  assumes "hdr_contract A" "recorded A es r"
  shows "\<exists>res. build_evidence A B now later shard r outcome timing = Some res
     \<and> (\<forall>e. res = Inl e \<longrightarrow> encoding_error e)"
proof -
  obtain ms hs h m where sn: "snapshots A now es r ms hs h m"
    using recorded_snapshots [OF assms] by blast
  then have s: "snapshot_per_tool A now r = Some ms" "per_tool_latency_histograms A r = Some hs"
    "latency_histogram A r = Some h"
    "recorder_snapshot A now r = Some (metrics_of A now (rec_start r) (rec_outcomes r) h)"
    and keys: "bt_keys ms = bt_keys m" "bt_keys hs = bt_keys m" "dom (bt_get m) = tools_of es"
    by (simp_all add: snapshots_def)
  have sub: "fst ` set ms \<subseteq> dom (bt_get hs)"
    using keys(1,2) by (metis dom_map_of_conv_image_fst list.set_map order_refl)
  show ?thesis
  proof (cases "try_fold (tool_evidence A B hs) [] ms")
    case (Inl e)
    then show ?thesis using tool_evidence_error [OF Inl sub] by (simp add: build_evidence_def s)
  next
    case (Inr pt)
    then show ?thesis
      using from_histogram_error by (cases "from_histogram A B h") (auto simp: build_evidence_def s)
  qed
qed

lemma build_evidence_sound:
  assumes A: "hdr_contract A" and B: "base64_contract B" and r: "recorded A es r"
    and ev: "build_evidence A B now later shard r outcome timing = Some (Inr ev)"
  shows "ev_agent_name ev = sh_agent_name shard" "ev_shard ev = shard" "ev_scenario_outcome ev = outcome"
    "ev_target_protocol_version ev = tr_target_protocol_version (gt_readiness timing)"
    "ev_tool_inventory_hash ev = tr_tool_inventory_hash (gt_readiness timing)"
    "ev_start_delay_ms ev = gt_start_delay_ms timing" "ev_measurement_elapsed_ms ev \<noteq> 0"
    "evidence_for A B (map event_outcome es) (ev_metrics ev)"
    "bt_wf (ev_per_tool ev)" "dom (bt_get (ev_per_tool ev)) = tools_of es"
    "\<And>tool m. bt_get (ev_per_tool ev) tool = Some m \<Longrightarrow> evidence_for A B (tool_outcomes tool es) m"
proof -
  have n: "length es < 2 ^ 64" using r by (simp add: recorded_def)
  obtain ms hs h m where sn: "snapshots A now es r ms hs h m"
    using recorded_snapshots [OF A r] by blast
  then have s: "snapshot_per_tool A now r = Some ms" "per_tool_latency_histograms A r = Some hs"
    "latency_histogram A r = Some h"
    "recorder_snapshot A now r = Some (metrics_of A now (rec_start r) (rec_outcomes r) h)"
    and keys: "bt_keys ms = bt_keys m" "bt_keys hs = bt_keys m" "dom (bt_get m) = tools_of es"
    by (simp_all add: snapshots_def)
  obtain pt e where pt: "try_fold (tool_evidence A B hs) [] ms = Inr pt"
    and e: "from_histogram A B h = Inr e" and ev': "ev = \<lparr>ev_agent_name = sh_agent_name shard, ev_shard = shard,
      ev_metrics = \<lparr>me_latency = e, me_outcomes = rec_outcomes r\<rparr>, ev_per_tool = pt,
      ev_scenario_outcome = outcome,
      ev_measurement_elapsed_ms = max (millis_saturated (later - gt_traffic_start timing)) 1,
      ev_start_delay_ms = gt_start_delay_ms timing,
      ev_target_protocol_version = tr_target_protocol_version (gt_readiness timing),
      ev_tool_inventory_hash = tr_tool_inventory_hash (gt_readiness timing)\<rparr>"
    using ev by (auto simp: build_evidence_def s result_iffs map_err_Inr_iff split: sum.splits)
  have t: "tally A (map event_outcome es) (rec_outcomes r) (rec_latency r)"
    and get: "\<And>x. bt_get ms x = Option.bind (bt_get m x) (per_tool_snapshot A now)"
      "\<And>x. bt_get hs x = Option.bind (bt_get m x) (\<lambda>st. sharded_merged A (pts_latency st))"
    and tool: "\<And>x st. bt_get m x = Some st \<Longrightarrow> tally A (tool_outcomes x es) (pts_outcomes st) (pts_latency st)"
    and wf: "bt_wf ms"
    using sn by (simp_all add: snapshots_def bt_wf_def keys(1))
  note fold = tool_evidence_fold [OF pt bt_wf_distinct [OF wf]]
  show "ev_agent_name ev = sh_agent_name shard" "ev_shard ev = shard" "ev_scenario_outcome ev = outcome"
    "ev_target_protocol_version ev = tr_target_protocol_version (gt_readiness timing)"
    "ev_tool_inventory_hash ev = tr_tool_inventory_hash (gt_readiness timing)"
    "ev_start_delay_ms ev = gt_start_delay_ms timing"
    by (simp_all add: ev')
  have "max w 1 \<noteq> 0" for w :: u64 by (simp add: max_zero_u64)
  then show "ev_measurement_elapsed_ms ev \<noteq> 0" by (simp add: ev')
  show "evidence_for A B (map event_outcome es) (ev_metrics ev)"
    using encode_tally [OF A B t _ _ e] n s(3) by (simp add: ev' latency_histogram_def)
  show "bt_wf (ev_per_tool ev)" using fold by (simp add: ev')
  have "fst ` set ms = dom (bt_get m)"
    by (metis dom_map_of_conv_image_fst keys(1) list.set_map)
  then show "dom (bt_get (ev_per_tool ev)) = tools_of es" using fold keys(3) by (simp add: ev')
  show "evidence_for A B (tool_outcomes tool es) me" if me: "bt_get (ev_per_tool ev) tool = Some me" for tool me
  proof -
    have "tool \<in> fst ` set ms" using me fold unfolding ev' by auto
    then obtain sm where sm: "(tool, sm) \<in> set ms" "bt_get ms tool = Some sm"
      using wf bt_wf_get_mem by fastforce
    obtain st hist where st: "bt_get m tool = Some st" "sharded_merged A (pts_latency st) = Some hist"
      "sm = metrics_of A now (pts_start st) (pts_outcomes st) hist" "bt_get hs tool = Some hist"
      using sm(2) get by (auto simp: per_tool_snapshot_def split: bind_splits)
    have "encoded_entry A B hs pt tool sm" using fold sm(1) by blast
    then obtain d where d: "from_histogram A B hist = Inr d"
      "me = \<lparr>me_latency = d, me_outcomes = pts_outcomes st\<rparr>"
      using me st(3,4) by (auto simp: encoded_entry_def ev')
    show ?thesis
      using encode_tally [OF A B tool [OF st(1)] length_tool_outcomes [OF n] st(2) d(1)] d(2) by simp
  qed
qed

end
