(* ===== verification/Shard.thy ===== *)
theory Shard
  imports Wire "HOL-Library.Multiset"
begin

section \<open>Sharding of the global concurrency\<close>

text \<open>
  \<open>crates/distributed/src/shard.rs\<close>: the global concurrency is split over the agents by quotient and
  remainder, after sorting the agent names.
\<close>

datatype shard_error =
    EmptyAgents
  | DuplicateAgent string
  | InvalidAgentName string
  | InsufficientConcurrency u32 nat
  | TooManyAgents

definition is_portable_name :: "string \<Rightarrow> bool" where
  "is_portable_name value \<longleftrightarrow> value \<noteq> [] \<and> length value \<le> 64
     \<and> list_all (\<lambda>b. is_ascii_alphanumeric b \<or> b \<in> {CHR ''-'', CHR ''_'', CHR ''.''}) value
     \<and> value \<noteq> ''.'' \<and> value \<noteq> ''..''"

text \<open>The loop that validates the names and collects them in a \<open>BTreeSet\<close>.\<close>

definition insert_name :: "string list \<Rightarrow> string \<Rightarrow> shard_error + string list" where
  "insert_name names name =
     and_then (fail_if (\<not> is_portable_name name) (InvalidAgentName name)) (\<lambda>_.
     let (fresh, names') = bs_insert name names
     in if fresh then Inr names' else Inl (DuplicateAgent name))"

definition shard_of :: "u32 \<Rightarrow> u32 \<Rightarrow> nat \<times> string \<Rightarrow> agent_shard" where
  "shard_of global agent_count p =
     (let base = global div agent_count; rest = global mod agent_count; index = of_nat (fst p)
      in \<lparr>sh_agent_name = snd p, sh_index = index, sh_agent_count = agent_count,
          sh_concurrency = base + (if index < rest then 1 else 0)\<rparr>)"

definition plan_shards :: "u32 \<Rightarrow> string list \<Rightarrow> shard_error + agent_shard list" where
  "plan_shards global agent_names =
     and_then (fail_if (agent_names = []) EmptyAgents) (\<lambda>_.
     and_then (fail_if (2 ^ 32 \<le> length agent_names) TooManyAgents) (\<lambda>_.
     let agent_count = of_nat (length agent_names)
     in and_then (fail_if (global < agent_count)
          (InsufficientConcurrency global (length agent_names))) (\<lambda>_.
        and_then (try_fold insert_name [] agent_names) (\<lambda>names.
        Inr (map (shard_of global agent_count) (enumerate 0 names))))))"

subsection \<open>The name set\<close>

lemma insert_name_Inr_iff:
  "insert_name names name = Inr names' \<longleftrightarrow>
     is_portable_name name \<and> name \<notin> set names \<and> names' = insort name names"
  by (auto simp: insert_name_def result_iffs bs_insert_def)

lemma collect_names:
  assumes "try_fold insert_name [] agent_names = Inr names"
  shows "bs_wf names \<and> set names = set agent_names \<and> distinct agent_names
     \<and> length names = length agent_names \<and> list_all is_portable_name agent_names"
  using assms
proof (rule try_fold_inv [where I = "\<lambda>done names. bs_wf names \<and> set names = set done \<and> distinct done
     \<and> length names = length done \<and> list_all is_portable_name done"])
  fix don ns x ns'
  assume "bs_wf ns \<and> set ns = set don \<and> distinct don \<and> length ns = length don
    \<and> list_all is_portable_name don" and "insert_name ns x = Inr ns'"
  then show "bs_wf ns' \<and> set ns' = set (don @ [x]) \<and> distinct (don @ [x])
    \<and> length ns' = length (don @ [x]) \<and> list_all is_portable_name (don @ [x])"
    by (auto simp: insert_name_Inr_iff bs_wf_insort set_insort_key)
qed simp_all

lemma collect_names_total:
  assumes "distinct agent_names" "list_all is_portable_name agent_names"
  shows "\<exists>names. try_fold insert_name [] agent_names = Inr names"
proof -
  have "\<exists>names. try_fold insert_name ns agent_names = Inr names"
    if "set ns \<inter> set agent_names = {}" for ns
    using assms that
  proof (induction agent_names arbitrary: ns)
    case (Cons x xs)
    then have "insert_name ns x = Inr (insort x ns)" by (auto simp: insert_name_Inr_iff)
    moreover have "\<exists>names. try_fold insert_name (insort x ns) xs = Inr names"
      by (rule Cons.IH) (use Cons.prems in \<open>auto simp: set_insort_key\<close>)
    ultimately show ?case by simp
  qed simp
  from this [of "[]"] show ?thesis by simp
qed

lemma plan_shards_Inr_iff:
  "plan_shards global agent_names = Inr shards \<longleftrightarrow>
     agent_names \<noteq> [] \<and> length agent_names < 2 ^ 32 \<and> length agent_names \<le> unat global
     \<and> distinct agent_names \<and> list_all is_portable_name agent_names
     \<and> (\<exists>names. bs_wf names \<and> set names = set agent_names \<and> length names = length agent_names
          \<and> shards = map (shard_of global (of_nat (length agent_names))) (enumerate 0 names))"
  (is "?l \<longleftrightarrow> ?r")
proof -
  have len: "unat (of_nat (length agent_names) :: u32) = length agent_names"
    if "length agent_names < 2 ^ 32" using that by (simp add: unat_of_nat)
  show ?thesis
  proof
    assume ?l
    then obtain names where n: "agent_names \<noteq> []" "length agent_names < 2 ^ 32"
      "\<not> global < of_nat (length agent_names)" "try_fold insert_name [] agent_names = Inr names"
      "shards = map (shard_of global (of_nat (length agent_names))) (enumerate 0 names)"
      by (auto simp: plan_shards_def result_iffs Let_def not_le)
    moreover have "length agent_names \<le> unat global"
      using n(3) len [OF n(2)] by (simp add: word_less_nat_alt)
    ultimately show ?r using collect_names [OF n(4)] by blast
  next
    assume r: ?r
    then obtain names where n: "bs_wf names" "set names = set agent_names"
      "shards = map (shard_of global (of_nat (length agent_names))) (enumerate 0 names)" by blast
    obtain names' where n': "try_fold insert_name [] agent_names = Inr names'"
      using collect_names_total r by blast
    from collect_names [OF n'] n have "names' = names" using bs_wf_ext by blast
    moreover have "\<not> global < of_nat (length agent_names)"
      using r len by (simp add: word_less_nat_alt)
    ultimately show ?l using r n(3) n' by (simp add: plan_shards_def Let_def not_le)
  qed
qed

subsection \<open>The shards\<close>

lemma shard_of_simps [simp]:
  "sh_agent_name (shard_of g n p) = snd p" "sh_index (shard_of g n p) = of_nat (fst p)"
  "sh_agent_count (shard_of g n p) = n"
  by (simp_all add: shard_of_def Let_def)

lemma shard_of_concurrency:
  assumes n: "0 < n" "n < 2 ^ 32" and i: "i < n"
  shows "unat (sh_concurrency (shard_of g (of_nat n) (i, name)))
     = unat g div n + (if i < unat g mod n then 1 else 0)"
proof -
  have un: "unat (of_nat n :: u32) = n" and ui: "unat (of_nat i :: u32) = i"
    using n i by (simp_all add: unat_of_nat)
  have lt: "((of_nat i :: u32) < g mod of_nat n) \<longleftrightarrow> i < unat g mod n"
    by (simp add: word_less_nat_alt unat_mod un ui)
  have "unat g div n + (if i < unat g mod n then 1 else 0) < 2 ^ 32"
  proof -
    have "unat g div n + (if i < unat g mod n then 1 else 0) \<le> unat g div n * n + unat g mod n"
      using n by (intro add_mono) simp_all
    also have "\<dots> = unat g" by (rule div_mult_mod_eq)
    also have "\<dots> < 2 ^ 32" using unsigned_less [of g] by simp
    finally show ?thesis .
  qed
  then show ?thesis
    by (cases "i < unat g mod n") (simp_all add: shard_of_def Let_def lt unat_word_ariths unat_div un)
qed

lemma sum_shares: "sum_list (map (\<lambda>i. b + (if i < m then 1 else 0)) [0..<k]) = b * k + min m k"
  by (induction k) (auto simp: min_def)

lemma map_shards:
  "map f (map (shard_of g n) (enumerate 0 names))
     = map (\<lambda>i. f (shard_of g n (i, names ! i))) [0..<length names]"
  by (rule nth_equalityI) (simp_all add: nth_enumerate_eq)

subsection \<open>Properties\<close>

lemma plan_shards_facts:
  assumes "plan_shards global agent_names = Inr shards"
  shows "map sh_agent_name shards = sort agent_names
     \<and> map (unat \<circ> sh_index) shards = [0..<length agent_names]
     \<and> sum_list (map (unat \<circ> sh_concurrency) shards) = unat global
     \<and> (\<forall>s \<in> set shards. unat (sh_agent_count s) = length agent_names \<and> 1 \<le> unat (sh_concurrency s)
          \<and> unat (sh_concurrency s) - unat global div length agent_names \<le> 1
          \<and> unat global div length agent_names \<le> unat (sh_concurrency s))"
proof -
  let ?n = "length agent_names"
  obtain names where n: "agent_names \<noteq> []" "?n < 2 ^ 32" "?n \<le> unat global" "distinct agent_names"
    and names: "bs_wf names" "set names = set agent_names" "length names = ?n"
    and sh: "shards = map (shard_of global (of_nat ?n)) (enumerate 0 names)"
    using assms unfolding plan_shards_Inr_iff by blast
  have pos: "0 < ?n" using n(1) by simp
  have eq: "names = sort agent_names"
    by (rule bs_wf_ext) (use names n(4) in \<open>simp_all add: bs_wf_def strict_sorted_iff\<close>)
  have conc: "unat (sh_concurrency (shard_of global (of_nat ?n) (i, x)))
      = unat global div ?n + (if i < unat global mod ?n then 1 else 0)" if "i < ?n" for i x
    using shard_of_concurrency [OF pos n(2) that] .
  have un: "unat (of_nat ?n :: u32) = ?n" using n(2) by (simp add: unat_of_nat)
  have "map sh_agent_name shards = sort agent_names"
    unfolding sh map_shards eq [symmetric] by (simp add: map_nth)
  moreover have "map (unat \<circ> sh_index) shards = [0..<?n]"
    unfolding sh map_shards using n(2) names(3) by (intro nth_equalityI) (simp_all add: unat_of_nat)
  moreover have "sum_list (map (unat \<circ> sh_concurrency) shards) = unat global"
  proof -
    have "map (unat \<circ> sh_concurrency) shards
        = map (\<lambda>i. unat global div ?n + (if i < unat global mod ?n then 1 else 0)) [0..<?n]"
      unfolding sh map_shards names(3) using conc by (intro map_cong) simp_all
    then show ?thesis using sum_shares [of "unat global div ?n" "unat global mod ?n" ?n] pos
      by (simp add: min_absorb1 less_imp_le)
  qed
  moreover have "1 \<le> unat global div ?n" using n(3) pos by (simp add: Suc_le_eq div_greater_zero_iff)
  then have "\<forall>s \<in> set shards. unat (sh_agent_count s) = ?n \<and> 1 \<le> unat (sh_concurrency s)
      \<and> unat (sh_concurrency s) - unat global div ?n \<le> 1 \<and> unat global div ?n \<le> unat (sh_concurrency s)"
    unfolding sh using conc un names(3) by (auto simp: in_set_enumerate_eq)
  ultimately show ?thesis by blast
qed

text \<open>
  C25. A successful plan distributes the work exactly and evenly: the shards carry the agent names in
  sorted order and the indices from 0, their concurrencies sum to the requested global concurrency,
  and every agent gets the quotient or the quotient plus one, never zero.
\<close>

theorem plan_shards_exact:
  assumes "plan_shards global agent_names = Inr shards"
  shows "map sh_agent_name shards = sort agent_names
     \<and> map (unat \<circ> sh_index) shards = [0..<length agent_names]
     \<and> sum_list (map (unat \<circ> sh_concurrency) shards) = unat global
     \<and> (\<forall>s \<in> set shards. unat (sh_agent_count s) = length agent_names \<and> 1 \<le> unat (sh_concurrency s)
          \<and> unat (sh_concurrency s) - unat global div length agent_names \<le> 1
          \<and> unat global div length agent_names \<le> unat (sh_concurrency s))"
  using assms by (rule plan_shards_facts)

text \<open>
  The plan exists exactly for a non-empty list of distinct portable names no longer than the
  global concurrency, and it does not depend on the order in which the names arrive.
\<close>

theorem plan_shards_order_independent:
  assumes "mset agent_names = mset agent_names'"
  shows "((\<exists>shards. plan_shards global agent_names = Inr shards) \<longleftrightarrow>
       agent_names \<noteq> [] \<and> length agent_names \<le> unat global \<and> distinct agent_names
       \<and> list_all is_portable_name agent_names)
     \<and> (plan_shards global agent_names = Inr s \<longleftrightarrow> plan_shards global agent_names' = Inr s)"
proof -
  have g: "unat global < 2 ^ 32" using unsigned_less [of global] by simp
  have len: "length agent_names = length agent_names'" "set agent_names = set agent_names'"
    "distinct agent_names = distinct agent_names'"
    using mset_eq_length [OF assms] mset_eq_setD [OF assms] mset_eq_imp_distinct_iff [OF assms] .
  have names: "\<exists>names. bs_wf names \<and> set names = set agent_names \<and> length names = length agent_names"
    if "distinct agent_names"
    by (rule exI [of _ "sort agent_names"]) (use that in \<open>simp add: bs_wf_def strict_sorted_iff\<close>)
  have "(\<exists>shards. plan_shards global agent_names = Inr shards) \<longleftrightarrow>
       agent_names \<noteq> [] \<and> length agent_names \<le> unat global \<and> distinct agent_names
       \<and> list_all is_portable_name agent_names"
    (is "?l \<longleftrightarrow> ?r")
  proof
    show "?l \<Longrightarrow> ?r" unfolding plan_shards_Inr_iff by blast
    assume r: ?r
    then have "length agent_names < 2 ^ 32" using g by linarith
    with r names show ?l unfolding plan_shards_Inr_iff by blast
  qed
  moreover have "agent_names = [] \<longleftrightarrow> agent_names' = []" using len(1) by auto
  moreover have "list_all is_portable_name agent_names = list_all is_portable_name agent_names'"
    using len(2) by (simp add: list_all_iff)
  ultimately show ?thesis
    unfolding plan_shards_Inr_iff [of _ _ s] using len by simp
qed

lemma plan_shards_exact_witness:
  "\<exists>shards. plan_shards 7 [''b'', ''c'', ''a''] = Inr shards
     \<and> map sh_agent_name shards = [''a'', ''b'', ''c'']
     \<and> sum_list (map (unat \<circ> sh_concurrency) shards) = 7"
proof -
  have "is_portable_name ''a'' \<and> is_portable_name ''b'' \<and> is_portable_name ''c''" by code_simp
  then have "\<exists>shards. plan_shards 7 [''b'', ''c'', ''a''] = Inr shards"
    using collect_names_total [of "[''b'', ''c'', ''a'']"] by (auto simp: plan_shards_def)
  then obtain shards where s: "plan_shards 7 [''b'', ''c'', ''a''] = Inr shards" by blast
  moreover have "sort [''b'', ''c'', ''a''] = [''a'', ''b'', ''c'']" by code_simp
  ultimately show ?thesis using plan_shards_exact [OF s] by simp
qed

lemma plan_shards_order_independent_witness:
  "\<exists>s. plan_shards 2 [''b'', ''a''] = Inr s \<and> plan_shards 2 [''a'', ''b''] = Inr s"
proof -
  have "is_portable_name ''a'' \<and> is_portable_name ''b''" by code_simp
  then have "\<exists>s. plan_shards 2 [''b'', ''a''] = Inr s"
    using plan_shards_order_independent [of "[''b'', ''a'']" "[''b'', ''a'']" 2] by simp
  then show ?thesis
    using plan_shards_order_independent [of "[''b'', ''a'']" "[''a'', ''b'']" 2] by auto
qed

end
