(* ===== verification/Distributed_Run.thy ===== *)
theory Distributed_Run
  imports Worker_Evidence Shard
begin

section \<open>From the shard plan to the aggregate\<close>

text \<open>
  The data path of a distributed run across its components: the planner cuts the concurrency into
  shards, every worker records the calls it makes for its shard and turns its recorder into evidence,
  and the controller aggregates the evidence. The lemmas join what the recorder, \<open>build_evidence\<close>,
  \<open>plan_shards\<close> and \<open>aggregate_evidence\<close> were proved to do on their own.
\<close>

text \<open>The worker of a shard made the calls \<open>es\<close>, saw the target's protocol \<open>p\<close> and tools \<open>i\<close>, and sent \<open>ev\<close>.\<close>

definition worker_reported ::
  "'h hdr_api \<Rightarrow> base64_api \<Rightarrow> string \<Rightarrow> string \<Rightarrow> agent_shard \<Rightarrow> rec_event list \<Rightarrow> agent_evidence \<Rightarrow> bool" where
  "worker_reported A B p i shard es ev \<longleftrightarrow>
     (\<exists>r now later outcome timing. recorded A es r
        \<and> build_evidence A B now later shard r outcome timing = Some (Inr ev)
        \<and> tr_target_protocol_version (gt_readiness timing) = p
        \<and> tr_tool_inventory_hash (gt_readiness timing) = i)"

definition cohort_reported ::
  "'h hdr_api \<Rightarrow> base64_api \<Rightarrow> string \<Rightarrow> string \<Rightarrow> agent_shard list \<Rightarrow> rec_event list list
     \<Rightarrow> agent_evidence list \<Rightarrow> bool" where
  "cohort_reported A B p i shards calls evs \<longleftrightarrow> length calls = length shards \<and> length evs = length shards
     \<and> (\<forall>k < length shards. worker_reported A B p i (shards ! k) (calls ! k) (evs ! k))"

lemma worker_reportedD:
  assumes A: "hdr_contract A" and B: "base64_contract B" and w: "worker_reported A B p i shard es ev"
  shows "ev_agent_name ev = sh_agent_name shard" "ev_shard ev = shard" "ev_target_protocol_version ev = p"
    "ev_tool_inventory_hash ev = i" "ev_measurement_elapsed_ms ev \<noteq> 0"
    "evidence_for A B (map event_outcome es) (ev_metrics ev)" "bt_wf (ev_per_tool ev)"
    "dom (bt_get (ev_per_tool ev)) = tools_of es"
    "\<And>tool m. bt_get (ev_per_tool ev) tool = Some m \<Longrightarrow> evidence_for A B (tool_outcomes tool es) m"
proof -
  obtain r now later outcome timing where r: "recorded A es r"
    and b: "build_evidence A B now later shard r outcome timing = Some (Inr ev)"
    and t: "tr_target_protocol_version (gt_readiness timing) = p"
      "tr_tool_inventory_hash (gt_readiness timing) = i"
    using w by (auto simp: worker_reported_def)
  note s = build_evidence_sound [OF A B r b]
  show "ev_agent_name ev = sh_agent_name shard" "ev_shard ev = shard" "ev_target_protocol_version ev = p"
    "ev_tool_inventory_hash ev = i" "ev_measurement_elapsed_ms ev \<noteq> 0"
    "evidence_for A B (map event_outcome es) (ev_metrics ev)" "bt_wf (ev_per_tool ev)"
    "dom (bt_get (ev_per_tool ev)) = tools_of es"
    using s(1,2,4,5,7,8,9,10) t by simp_all
  show "evidence_for A B (tool_outcomes tool es) m" if "bt_get (ev_per_tool ev) tool = Some m" for tool m
    using s(11) [OF that] .
qed

lemma cohort_nth:
  assumes "cohort_reported A B p i shards calls evs" "k < length shards"
  shows "worker_reported A B p i (shards ! k) (calls ! k) (evs ! k)"
  using assms by (simp add: cohort_reported_def)

text \<open>A quantity each worker reports adds up to that quantity over the shards or the calls.\<close>

lemma cohort_map:
  assumes "cohort_reported A B p i shards calls evs"
    and "\<And>s es e. worker_reported A B p i s es e \<Longrightarrow> f e = g s"
  shows "map f evs = map g shards"
  using assms by (intro nth_equalityI) (auto simp: cohort_reported_def)

lemma cohort_map_calls:
  assumes "cohort_reported A B p i shards calls evs"
    and "\<And>s es e. worker_reported A B p i s es e \<Longrightarrow> f e = g es"
  shows "map f evs = map g calls"
  using assms by (intro nth_equalityI) (auto simp: cohort_reported_def)

lemma sum_counts_concat: "sum_list (map (\<lambda>es. count_list (map event_outcome es) oc) calls)
    = count_list (map event_outcome (concat calls)) oc"
  by (induction calls) simp_all

lemma tool_outcomes_append: "tool_outcomes t (xs @ ys) = tool_outcomes t xs @ tool_outcomes t ys"
  by (simp add: tool_outcomes_def)

lemma sum_tool_counts_concat: "sum_list (map (\<lambda>es. count_list (tool_outcomes t es) oc) calls)
    = count_list (tool_outcomes t (concat calls)) oc"
  by (induction calls) (simp_all add: tool_outcomes_append, simp add: tool_outcomes_def)

lemma sum_tool_lengths_concat: "sum_list (map (\<lambda>es. length (tool_outcomes t es)) calls)
    = length (tool_outcomes t (concat calls))"
  by (induction calls) (simp_all add: tool_outcomes_append, simp add: tool_outcomes_def)

lemma sum_latency_concat: "sum_list (map (\<lambda>es. length (filter contributes_to_latency (map event_outcome es))) calls)
    = length (filter contributes_to_latency (map event_outcome (concat calls)))"
  by (induction calls) simp_all

lemma tools_of_concat: "(\<Union>es \<in> set calls. tools_of es) = tools_of (concat calls)"
  by (auto simp: tools_of_def)

lemma evidence_for_latency:
  assumes "evidence_for A B ocs m"
  shows "latency_samples (me_outcomes m) = length (filter contributes_to_latency ocs)"
proof -
  have "unat (count_of (me_outcomes m) oc) = count_list ocs oc" for oc
    using assms by (simp add: evidence_for_def)
  from this [of Outcome_Success] this [of Outcome_Hang] this [of Outcome_Deadlock]
  show ?thesis by (simp add: length_filter_contributes latency_samples_def)
qed

lemma worker_tool_counts:
  assumes "hdr_contract A" "base64_contract B" "worker_reported A B p i shard es ev"
  shows "unat (count_of (tool_counts t ev) oc) = count_list (tool_outcomes t es) oc"
    "counts_sum (tool_counts t ev) = length (tool_outcomes t es)"
proof -
  note w = worker_reportedD [OF assms]
  have none: "tool_outcomes t es = []" if "bt_get (ev_per_tool ev) t = None"
    using that w(8) by (auto simp: tools_of_outcomes)
  show "unat (count_of (tool_counts t ev) oc) = count_list (tool_outcomes t es) oc"
    "counts_sum (tool_counts t ev) = length (tool_outcomes t es)"
    using w(9) [of t] none
    by (auto simp: tool_counts_def evidence_for_def split: option.splits)
qed

subsection \<open>The cohort can be aggregated\<close>

lemma reported_members:
  assumes plan: "plan_shards global names = Inr shards" and A: "hdr_contract A" and B: "base64_contract B"
    and c: "cohort_reported A B p i shards calls evs"
  shows "evs \<noteq> []" "length evs < 2 ^ 32" "list_all (member_ok (of_nat (length evs)) p i) evs"
    "map ev_agent_name evs = sort names" "distinct (map ev_agent_name evs)" "distinct (map ev_index evs)"
    "sum_list (map (\<lambda>a. unat (sh_concurrency (ev_shard a))) evs) = unat global"
proof -
  have names: "names \<noteq> []" "length names < 2 ^ 32" "distinct names"
    using plan unfolding plan_shards_Inr_iff by blast+
  note facts = plan_shards_facts [OF plan]
  have len: "length evs = length names"
    using facts c by (metis cohort_reported_def diff_zero length_map length_upt)
  note shard = cohort_map [OF c worker_reportedD(2) [OF A B]]
  have by_shard: "map (\<lambda>e. g (ev_shard e)) evs = map g shards" for g :: "agent_shard \<Rightarrow> 'z"
    using shard [THEN arg_cong [where f = "map g"]] by (simp add: comp_def)
  have un: "unat (of_nat (length evs) :: u32) = length evs" using names(2) len by (simp add: unat_of_nat)
  show "evs \<noteq> []" "length evs < 2 ^ 32" using names len by auto
  have "map ev_agent_name evs = map sh_agent_name shards"
    by (rule cohort_map [OF c worker_reportedD(1) [OF A B]])
  then show n: "map ev_agent_name evs = sort names" using facts by simp
  then show "distinct (map ev_agent_name evs)" using names(3) by simp
  have "map unat (map ev_index evs) = [0..<length names]"
    using by_shard [of "\<lambda>s. unat (sh_index s)"] facts by (simp add: comp_def)
  then show "distinct (map ev_index evs)" by (metis distinct_map distinct_upt)
  show "sum_list (map (\<lambda>a. unat (sh_concurrency (ev_shard a))) evs) = unat global"
    using by_shard [of "\<lambda>s. unat (sh_concurrency s)"] facts by (simp add: comp_def)
  have "member_ok (of_nat (length evs)) p i (evs ! k)" if k: "k < length shards" for k
  proof -
    note w = worker_reportedD [OF A B cohort_nth [OF c k]]
    have s: "shards ! k \<in> set shards" using k by simp
    have "unat (sh_index (shards ! k)) = map (unat \<circ> sh_index) shards ! k" using k by simp
    also have "\<dots> = k" using facts k len c by (simp add: cohort_reported_def)
    finally have "sh_index (shards ! k) < of_nat (length evs)"
      using k c un by (simp add: word_less_nat_alt cohort_reported_def)
    moreover have "sh_agent_count (shards ! k) = of_nat (length evs)"
      using facts s un len by (metis word_unat_eq_iff)
    moreover have "1 \<le> unat (sh_concurrency (shards ! k))" using facts s by blast
    then have "sh_concurrency (shards ! k) \<noteq> 0" by auto
    ultimately show ?thesis using w by (simp add: member_ok_def)
  qed
  then show "list_all (member_ok (of_nat (length evs)) p i) evs"
    using c by (auto simp: list_all_length cohort_reported_def)
qed

lemma reported_cohort_ok:
  assumes plan: "plan_shards global names = Inr shards" and A: "hdr_contract A" and B: "base64_contract B"
    and c: "cohort_reported A B p i shards calls evs" and n: "length (concat calls) < 2 ^ 64"
    and scenario: "\<forall>x. sums_below (scenario_limit x) (\<lambda>a. scenario_count (ev_scenario_outcome a) x) evs"
  shows "cohort_ok A B evs"
proof -
  note m = reported_members [OF plan A B c]
  have ev: "\<exists>shard es. worker_reported A B p i shard es e" if "e \<in> set evs" for e
    using that c by (auto simp: cohort_reported_def in_set_conv_nth)
  have conc: "sums_below (2 ^ 32) (\<lambda>a. unat (sh_concurrency (ev_shard a))) evs"
    using m(7) unsigned_less [of global] by (simp add: sums_below_def)
  have scope: "scope_ok A B (map ev_metrics evs)"
    unfolding scope_ok_def list_all_iff using ev worker_reportedD(6) [OF A B]
    by (fastforce simp: evidence_for_def)
  have "map (\<lambda>a. counts_sum (me_outcomes (ev_metrics a))) evs = map length calls"
    by (rule cohort_map_calls [OF c]) (use worker_reportedD(6) [OF A B] in \<open>fastforce simp: evidence_for_def\<close>)
  then have counts: "sums_below (2 ^ 64) (\<lambda>a. counts_sum (me_outcomes (ev_metrics a))) evs"
    using n by (simp add: sums_below_def length_concat)
  have tscope: "scope_ok A B (tool_metrics t evs)" for t
  proof -
    have "validates A B rec_layout me" if me: "me \<in> set (tool_metrics t evs)" for me
    proof -
      obtain e where e: "e \<in> set evs" "bt_get (ev_per_tool e) t = Some me"
        using me by (force simp: tool_metrics_def tool_items_def tool_item_def split: option.splits)
      then show ?thesis using ev worker_reportedD(9) [OF A B] by (fastforce simp: evidence_for_def)
    qed
    then show ?thesis unfolding scope_ok_def list_all_iff by blast
  qed
  have tcounts: "sums_below (2 ^ 64) (\<lambda>a. counts_sum (tool_counts t a)) evs" for t
  proof -
    have "map (\<lambda>a. counts_sum (tool_counts t a)) evs = map (\<lambda>es. length (tool_outcomes t es)) calls"
      by (rule cohort_map_calls [OF c worker_tool_counts(2) [OF A B]])
    moreover have "length (tool_outcomes t (concat calls)) \<le> length (concat calls)"
      by (simp only: tool_outcomes_def length_map length_filter_le)
    ultimately show ?thesis using n by (simp add: sums_below_def sum_tool_lengths_concat)
  qed
  have "\<forall>e \<in> set evs. ev_measurement_elapsed_ms e \<noteq> 0" using ev worker_reportedD(5) [OF A B] by blast
  then have elapsed: "list_ex (\<lambda>a. ev_measurement_elapsed_ms a \<noteq> 0) evs"
    using m(1) by (cases evs) auto
  show ?thesis
    unfolding cohort_ok_def using m(1,2,3,5,6) conc scope counts scenario tscope tcounts elapsed by blast
qed

subsection \<open>Properties\<close>

text \<open>
  C1. A distributed run loses and invents nothing between the shard plan and the report. Let the
  planner cut the concurrency among the agents, let every agent record any sequence of calls for its
  shard and send the evidence built from its recorder, all for one protocol revision and inventory.
  Then, provided the counters can hold the true totals, the aggregate exists, names exactly the planned
  agents, reports the planned concurrency, and counts every call of every agent exactly once: by
  outcome, in total, as latency samples, and for each tool.
\<close>

theorem distributed_run_counts_every_call:
  assumes "hdr_contract A" and "base64_contract B" and "plan_shards global names = Inr shards"
    and "cohort_reported A B p i shards calls evs" and "length (concat calls) < 2 ^ 64"
    and "\<forall>x. sums_below (scenario_limit x) (\<lambda>a. scenario_count (ev_scenario_outcome a) x) evs"
  shows "\<exists>g. aggregate_evidence A B evs = Inr g
     \<and> ag_agent_names g = sort names \<and> ag_global_concurrency g = global
     \<and> (\<forall>oc. unat (count_of (sm_outcomes (ag_metrics g)) oc)
          = count_list (map event_outcome (concat calls)) oc)
     \<and> unat (ts_total_requests (sm_throughput (ag_metrics g))) = length (concat calls)
     \<and> unat (ls_count (sm_latency (ag_metrics g)))
          = length (filter contributes_to_latency (map event_outcome (concat calls)))
     \<and> bt_keys (ag_per_tool g) = sorted_list_of_set (tools_of (concat calls))
     \<and> (\<forall>t m oc. bt_get (ag_per_tool g) t = Some m \<longrightarrow>
          unat (count_of (sm_outcomes m) oc) = count_list (tool_outcomes t (concat calls)) oc)"
proof -
  note A = assms(1) and B = assms(2) and plan = assms(3) and c = assms(4)
  note m = reported_members [OF plan A B c]
  have ev: "\<exists>shard es. worker_reported A B p i shard es e" if "e \<in> set evs" for e
    using that c by (auto simp: cohort_reported_def in_set_conv_nth)
  have wf: "list_all (\<lambda>a. bt_wf (ev_per_tool a)) evs"
    using ev worker_reportedD(7) [OF A B] by (fastforce simp: list_all_iff)
  obtain g where g: "aggregate_evidence A B evs = Inr g"
    using aggregate_ok [OF A wf, of B] reported_cohort_ok [OF plan A B c assms(5,6)] by blast
  note sums = aggregate_sums [OF A g] and tools = aggregate_tools [OF A wf g] and coh = aggregate_cohort [OF g]
  have id: "ag_agent_names g = sort names" "ag_global_concurrency g = global"
    using coh m(4,7) sorted_sort_id [of "sort names"] by (simp_all add: word_unat_eq_iff)
  have counts: "unat (count_of (sm_outcomes (ag_metrics g)) oc) = count_list (map event_outcome (concat calls)) oc" for oc
  proof -
    have "map (\<lambda>a. unat (count_of (me_outcomes (ev_metrics a)) oc)) evs
        = map (\<lambda>es. count_list (map event_outcome es) oc) calls"
      by (rule cohort_map_calls [OF c]) (use worker_reportedD(6) [OF A B] in \<open>fastforce simp: evidence_for_def\<close>)
    then show ?thesis using sums sum_counts_concat [of oc calls] by simp
  qed
  have "map (\<lambda>a. counts_sum (me_outcomes (ev_metrics a))) evs = map length calls"
    by (rule cohort_map_calls [OF c]) (use worker_reportedD(6) [OF A B] in \<open>fastforce simp: evidence_for_def\<close>)
  then have totals: "unat (ts_total_requests (sm_throughput (ag_metrics g))) = length (concat calls)"
    using sums by (simp add: length_concat)
  have "map (\<lambda>a. latency_samples (me_outcomes (ev_metrics a))) evs
      = map (\<lambda>es. length (filter contributes_to_latency (map event_outcome es))) calls"
    by (rule cohort_map_calls [OF c evidence_for_latency [OF worker_reportedD(6) [OF A B]]])
  then have samples: "unat (ls_count (sm_latency (ag_metrics g)))
      = length (filter contributes_to_latency (map event_outcome (concat calls)))"
    using sums sum_latency_concat [of calls] by simp
  have "map (\<lambda>a. dom (bt_get (ev_per_tool a))) evs = map tools_of calls"
    by (rule cohort_map_calls [OF c worker_reportedD(8) [OF A B]])
  then have "(\<Union>a \<in> set evs. dom (bt_get (ev_per_tool a))) = tools_of (concat calls)"
    unfolding tools_of_concat [symmetric] by (metis list.set_map)
  then have keys: "bt_keys (ag_per_tool g) = sorted_list_of_set (tools_of (concat calls))"
    using tools by simp
  have "unat (count_of (sm_outcomes tm) oc) = count_list (tool_outcomes t (concat calls)) oc"
    if "bt_get (ag_per_tool g) t = Some tm" for t tm oc
  proof -
    have "map (\<lambda>a. unat (count_of (tool_counts t a) oc)) evs = map (\<lambda>es. count_list (tool_outcomes t es) oc) calls"
      by (rule cohort_map_calls [OF c worker_tool_counts(1) [OF A B]])
    then show ?thesis using tools that sum_tool_counts_concat [of t oc calls] by simp
  qed
  with g id counts totals samples keys show ?thesis by blast
qed

subsection \<open>A run of two agents\<close>

text \<open>
  A histogram that keeps its layout and the number of its samples: another instance of the library's
  contract, whose serialised form has a fixed size, so that every worker's evidence can be encoded.
\<close>

record count_hist =
  kh_low :: u64
  kh_high :: u64
  kh_sigfig :: u8
  kh_count :: u64

definition count_api :: "count_hist hdr_api" where
  "count_api = \<lparr>
     hdr_new = (\<lambda>lo hi sf. if 1 \<le> lo \<and> 2 * unat lo \<le> unat hi \<and> sf \<le> 5
        then Some \<lparr>kh_low = lo, kh_high = hi, kh_sigfig = sf, kh_count = 0\<rparr> else None),
     hdr_record = (\<lambda>h v. if v \<le> kh_high h then Some (h\<lparr>kh_count := kh_count h + 1\<rparr>) else None),
     hdr_add = (\<lambda>a b. if kh_high b \<le> kh_high a then Some (a\<lparr>kh_count := kh_count a + kh_count b\<rparr>) else None),
     hdr_len = kh_count, hdr_low = kh_low, hdr_high = kh_high, hdr_sigfig = kh_sigfig,
     hdr_quantile = (\<lambda>h q. kh_high h), hdr_mean = (\<lambda>h. F64_Fin 0), hdr_min = (\<lambda>h. 0), hdr_max = kh_high,
     hdr_serialize = (\<lambda>h. Inr (kh_sigfig h # concat (map u64_bytes [kh_low h, kh_high h, kh_count h]))),
     hdr_deserialize = (\<lambda>bs. case bs of [] \<Rightarrow> Inl ''UnexpectedEof''
        | sf # rest \<Rightarrow> (case chunks8 rest of
            [lo, hi, n] \<Rightarrow> Inr (\<lparr>kh_low = lo, kh_high = hi, kh_sigfig = sf, kh_count = n\<rparr>, length bs)
          | _ \<Rightarrow> Inl ''UnexpectedEof'')) \<rparr>"

lemma count_hdr_contract: "hdr_contract count_api"
proof -
  have "hdr_new_ok count_api" "hdr_record_ok count_api"
    by (simp_all add: hdr_new_ok_def hdr_record_ok_def count_api_def hdr_layout_of_def)
  moreover have "hdr_add_ok count_api"
    by (simp add: hdr_add_ok_def count_api_def hdr_layout_of_def)
  moreover have "hdr_roundtrip_ok count_api"
    by (auto simp: hdr_roundtrip_ok_def count_api_def chunks8_append chunks8_concat [of "[_]", simplified])
  ultimately show ?thesis by (simp add: hdr_contract_def)
qed

lemma count_encodes: "\<exists>e. from_histogram count_api plain_codec h = Inr e"
  by (simp add: from_histogram_def count_api_def MAX_HISTOGRAM_BYTES_def)

lemma count_reports:
  assumes "length es < 2 ^ 64"
  shows "\<exists>ev. worker_reported count_api plain_codec p i shard es ev
     \<and> ev_scenario_outcome ev = scenario_outcome_default"
proof -
  obtain r0 r where r: "recorder_new count_api 0 = Some r0" "recorder_run count_api r0 es = Some r"
    using recorder_run_inv [OF count_hdr_contract assms] by blast
  have rec: "recorded count_api es r" using r assms by (auto simp: recorded_def)
  let ?timing = "gate_open \<lparr>tr_live_workers = 1, tr_requested_workers = 1,
    tr_target_protocol_version = p, tr_tool_inventory_hash = i\<rparr> 0 0"
  obtain res where res: "build_evidence count_api plain_codec 0 0 shard r scenario_outcome_default ?timing = Some res"
    "\<And>e. res = Inl e \<Longrightarrow> encoding_error e"
    using build_evidence_total [OF count_hdr_contract rec] by blast
  have "try_fold (tool_evidence count_api plain_codec hs) pt ms \<noteq> Inl e" if "encoding_error e" for hs pt ms e
    using that
  proof (induction ms arbitrary: pt)
    case (Cons x ms)
    obtain tool m where x: "x = (tool, m)" by (cases x)
    show ?case
    proof (cases "bt_get hs tool")
      case (Some h)
      obtain d where "from_histogram count_api plain_codec h = Inr d" using count_encodes by blast
      with Cons Some x show ?thesis by (simp add: tool_evidence_def)
    qed (use Cons.prems x in \<open>auto simp: tool_evidence_def\<close>)
  qed simp
  then have no_try: "encoding_error e \<Longrightarrow> try_fold (tool_evidence count_api plain_codec hs) pt ms \<noteq> Inl e" for hs pt ms e .
  have no_err: "map_err f (from_histogram count_api plain_codec h) \<noteq> Inl e" for f h and e :: evidence_error
    using count_encodes [of h] by auto
  have "res \<noteq> Inl e" for e
  proof
    assume e: "res = Inl e"
    then have "encoding_error e" by (rule res(2))
    then show False
      using res(1) e no_try no_err
      by (auto simp: build_evidence_def result_iffs split: sum.splits bind_splits)
  qed
  then obtain ev where ev: "res = Inr ev" by (cases res) auto
  have "worker_reported count_api plain_codec p i shard es ev"
    unfolding worker_reported_def using rec res(1) ev by (force simp: gate_open_def)
  then show ?thesis
    using build_evidence_sound(3) [OF count_hdr_contract plain_codec_contract rec res(1) [unfolded ev]] by blast
qed

definition sample_calls :: "rec_event list list" where
  "sample_calls = [[Rec_Tool 3 5 ''echo'' 4000 Outcome_Success, Rec_Call 3 (5 * 10 ^ 6) Outcome_Timeout],
     [Rec_Tool 19 7 ''echo'' 400 Outcome_Success]]"

lemma sample_cohort_reported:
  "\<exists>shards evs. plan_shards 3 [''b'', ''a''] = Inr shards
     \<and> cohort_reported count_api plain_codec ''2025-06-18'' ''tools'' shards sample_calls evs
     \<and> (\<forall>x. sums_below (scenario_limit x) (\<lambda>a. scenario_count (ev_scenario_outcome a) x) evs)"
proof -
  have "is_portable_name ''a'' \<and> is_portable_name ''b''" by code_simp
  then have "\<exists>names. try_fold insert_name [] [''b'', ''a''] = Inr names"
    by (intro collect_names_total) auto
  then obtain shards where s: "plan_shards 3 [''b'', ''a''] = Inr shards"
    by (auto simp: plan_shards_def)
  then have "length (map (unat \<circ> sh_index) shards) = length [0..<2]"
    using plan_shards_facts [OF s] by (simp only: list.size) simp
  then have len: "length shards = 2" by simp
  have "\<exists>ev. worker_reported count_api plain_codec ''2025-06-18'' ''tools'' (shards ! k) (sample_calls ! k) ev
      \<and> ev_scenario_outcome ev = scenario_outcome_default" if "k < 2" for k
    using that by (intro count_reports) (auto simp: sample_calls_def less_2_cases_iff)
  then obtain ev where ev: "\<And>k. k < 2 \<Longrightarrow>
      worker_reported count_api plain_codec ''2025-06-18'' ''tools'' (shards ! k) (sample_calls ! k) (ev k)
      \<and> ev_scenario_outcome (ev k) = scenario_outcome_default" by metis
  have "cohort_reported count_api plain_codec ''2025-06-18'' ''tools'' shards sample_calls [ev 0, ev 1]"
    unfolding cohort_reported_def
  proof (intro conjI allI impI)
    show "worker_reported count_api plain_codec ''2025-06-18'' ''tools'' (shards ! k) (sample_calls ! k) ([ev 0, ev 1] ! k)"
      if "k < length shards" for k
    proof -
      have "k = 0 \<or> k = 1" using that len by auto
      then show ?thesis using ev [of k] by auto
    qed
  qed (simp_all add: len sample_calls_def)
  moreover have "sums_below (scenario_limit x) (\<lambda>a. scenario_count (ev_scenario_outcome a) x) [ev 0, ev 1]" for x
    using ev [of 0] ev [of 1] by (cases x) (simp_all add: sums_below_def scenario_outcome_default_def)
  ultimately show ?thesis using s by blast
qed

lemma distributed_run_counts_every_call_witness:
  "\<exists>shards evs g. plan_shards 3 [''b'', ''a''] = Inr shards
     \<and> cohort_reported count_api plain_codec ''2025-06-18'' ''tools'' shards sample_calls evs
     \<and> aggregate_evidence count_api plain_codec evs = Inr g \<and> ag_agent_names g = [''a'', ''b'']
     \<and> ag_global_concurrency g = 3 \<and> unat (oc_success (sm_outcomes (ag_metrics g))) = 2
     \<and> unat (ls_count (sm_latency (ag_metrics g))) = 2
     \<and> unat (ts_total_requests (sm_throughput (ag_metrics g))) = 3"
proof -
  obtain shards evs where s: "plan_shards 3 [''b'', ''a''] = Inr shards"
    "cohort_reported count_api plain_codec ''2025-06-18'' ''tools'' shards sample_calls evs"
    "\<forall>x. sums_below (scenario_limit x) (\<lambda>a. scenario_count (ev_scenario_outcome a) x) evs"
    using sample_cohort_reported by blast
  have n: "length (concat sample_calls) < 2 ^ 64" by (simp add: sample_calls_def)
  have "sort [''b'', ''a''] = [''a'', ''b'']" by code_simp
  moreover have "map event_outcome (concat sample_calls) = [Outcome_Success, Outcome_Timeout, Outcome_Success]"
    by (simp add: sample_calls_def)
  moreover have "length (concat sample_calls) = 3" by (simp add: sample_calls_def)
  ultimately show ?thesis
    using distributed_run_counts_every_call [OF count_hdr_contract plain_codec_contract s(1,2) n s(3)] s(1,2)
    by (auto dest!: spec [of _ Outcome_Success])
qed

end
