(* ===== verification/Agent_Policy.thy ===== *)
theory Agent_Policy
  imports Wire Endpoint_Policy
begin

section \<open>The worker's local policy\<close>

text \<open>
  \<open>AgentPolicy\<close> of \<open>crates/distributed/src/policy.rs\<close>, with \<open>is_managed_remote_header\<close> of
  \<open>crates/core/src/config/validate.rs\<close>: the checks a worker makes on a controller's prepare frame before
  it opens a connection, and their composition with the transport's host guard. \<open>Url::parse\<close> is a
  parameter: the parse error's text or the URL.
\<close>

record agent_policy =
  pol_allowed_target_hosts :: "string set"
  pol_allow_plaintext :: bool
  pol_max_concurrency :: u32
  pol_max_duration :: duration
  pol_max_startup_timeout :: duration

definition agent_policy_default :: agent_policy where
  "agent_policy_default = \<lparr>pol_allowed_target_hosts = {}, pol_allow_plaintext = False,
     pol_max_concurrency = 10000, pol_max_duration = 24 * 60 * 60 * 10 ^ 9,
     pol_max_startup_timeout = 5 * 60 * 10 ^ 9\<rparr>"

datatype policy_error =
    Pol_InvalidShard
  | Pol_InvalidHeartbeatInterval
  | Pol_Concurrency u32 u32
  | Pol_Duration u64 u64
  | Pol_InvalidWorkload
  | Pol_StartupTimeout u64 u64
  | Pol_InvalidUrl string
  | Pol_MissingHost
  | Pol_UrlCredentials
  | Pol_UrlFragment
  | Pol_SchemeMismatch string string
  | Pol_PlaintextDenied
  | Pol_CredentialOverPlaintext
  | Pol_HostDenied string
  | Pol_RestrictedAddress string
  | Pol_InvalidHeaderName string
  | Pol_InvalidEnvironmentName string
  | Pol_InvalidClientId
  | Pol_OfflineAccess
  | Pol_StepUpRetries
  | Pol_InvalidScope string

subsection \<open>Pieces\<close>

definition from_millis :: "u64 \<Rightarrow> duration" where
  "from_millis ms = unat ms * 10 ^ 6"

definition millis_u64 :: "duration \<Rightarrow> u64" where
  "millis_u64 d = u64_saturate (d div 10 ^ 6)"

fun transport_name :: "remote_transport \<Rightarrow> string" where
  "transport_name Transport_Http = ''http''"
| "transport_name Transport_Sse = ''sse''"
| "transport_name Transport_Ws = ''ws''"

definition validate_scheme :: "remote_transport \<Rightarrow> string \<Rightarrow> policy_error + unit" where
  "validate_scheme transport scheme =
     (let valid = (case transport of
          Transport_Ws \<Rightarrow> scheme \<in> {''ws'', ''wss''}
        | _ \<Rightarrow> scheme \<in> {''http'', ''https''})
      in if valid then Inr () else Inl (Pol_SchemeMismatch (transport_name transport) scheme))"

definition is_http_token :: "string \<Rightarrow> bool" where
  "is_http_token value \<longleftrightarrow> value \<noteq> []
     \<and> list_all (\<lambda>c. is_ascii_alphanumeric c
         \<or> byte_of c \<in> {33, 35, 36, 37, 38, 39, 42, 43, 45, 46, 94, 95, 96, 124, 126}) value"

definition is_portable_env_name :: "string \<Rightarrow> bool" where
  "is_portable_env_name value \<longleftrightarrow>
     (case value of
        [] \<Rightarrow> False
      | c # s \<Rightarrow> (is_ascii_alphabetic c \<or> byte_of c = 95)
          \<and> list_all (\<lambda>c. is_ascii_alphanumeric c \<or> byte_of c = 95) s)"

definition starts_with :: "string \<Rightarrow> string \<Rightarrow> bool" where
  "starts_with prefix s \<longleftrightarrow> take (length prefix) s = prefix"

definition is_managed_remote_header :: "string \<Rightarrow> bool" where
  "is_managed_remote_header name0 =
     (let name = to_ascii_lowercase name0 in
      name \<in> {''accept'', ''connection'', ''content-length'', ''content-type'', ''host'', ''keep-alive'',
        ''proxy-authenticate'', ''proxy-authorization'', ''proxy-connection'', ''te'', ''trailer'',
        ''transfer-encoding'', ''upgrade''}
      \<or> starts_with ''mcp-'' name \<or> starts_with ''sec-websocket-'' name)"

definition check_header_ref :: "unit \<Rightarrow> string \<times> string \<Rightarrow> policy_error + unit" where
  "check_header_ref u entry =
     (case entry of (header, environment) \<Rightarrow>
      if \<not> is_http_token header \<or> is_managed_remote_header (to_ascii_lowercase header)
      then Inl (Pol_InvalidHeaderName header)
      else if \<not> is_portable_env_name environment then Inl (Pol_InvalidEnvironmentName environment)
      else Inr ())"

definition validate_header_refs :: "remote_target \<Rightarrow> policy_error + unit" where
  "validate_header_refs target = try_fold check_header_ref () (rt_headers_from_env target)"

definition scope_text_ok :: "string \<Rightarrow> bool" where
  "scope_text_ok scope \<longleftrightarrow> scope \<noteq> [] \<and> length scope \<le> 1024
     \<and> list_all (\<lambda>c. \<not> (is_control_char c \<or> is_whitespace_char c)) (utf8_chars scope)"

definition check_scope :: "unit \<Rightarrow> string \<Rightarrow> policy_error + unit" where
  "check_scope u scope = fail_if (\<not> scope_text_ok scope) (Pol_InvalidScope scope)"

definition OFFLINE_ACCESS :: string where
  "OFFLINE_ACCESS = ''offline_access''"

definition validate_remote_auth :: "remote_client_credentials_auth \<Rightarrow> policy_error + unit" where
  "validate_remote_auth auth =
     and_then (fail_if (ra_client_id auth = [] \<or> 4096 < length (ra_client_id auth)
         \<or> list_ex is_control_char (utf8_chars (ra_client_id auth))) Pol_InvalidClientId) (\<lambda>_.
     and_then (fail_if (\<not> is_portable_env_name (ra_client_secret_env auth))
       (Pol_InvalidEnvironmentName (ra_client_secret_env auth))) (\<lambda>_.
     and_then (fail_if (ra_offline_access auth
         \<or> list_ex (\<lambda>scope. eq_ignore_ascii_case scope OFFLINE_ACCESS) (ra_scopes auth))
       Pol_OfflineAccess) (\<lambda>_.
     and_then (fail_if (3 < ra_max_step_up_retries auth) Pol_StepUpRetries) (\<lambda>_.
     try_fold check_scope () (ra_scopes auth)))))"

fun is_restricted_ip :: "ip_addr \<Rightarrow> bool" where
  "is_restricted_ip (V4 a) \<longleftrightarrow> v4_is_private a \<or> v4_is_loopback a \<or> v4_is_link_local a
     \<or> v4_is_unspecified a \<or> v4_is_multicast a \<or> a = v4_broadcast"
| "is_restricted_ip (V6 a) \<longleftrightarrow> v6_is_loopback a \<or> v6_is_unspecified a \<or> v6_is_multicast a
     \<or> (v6_segments a ! 0) AND 0xfe00 = 0xfc00 \<or> (v6_segments a ! 0) AND 0xffc0 = 0xfe80"

subsection \<open>Authorization\<close>

definition json_is_object :: "json \<Rightarrow> bool" where
  "json_is_object j \<longleftrightarrow> (case j of JObject _ \<Rightarrow> True | _ \<Rightarrow> False)"

definition pattern_invalid :: "pattern_plan \<Rightarrow> bool" where
  "pattern_invalid p \<longleftrightarrow> \<not> f64_is_finite (pat_weight p) \<or> f64_le (pat_weight p) (F64_Fin 0)
     \<or> pat_steps p = []
     \<or> list_ex (\<lambda>step. st_tool step = [] \<or> \<not> json_is_object (st_args step)) (pat_steps p)"

definition check_work :: "agent_policy \<Rightarrow> prepare_frame \<Rightarrow> policy_error + unit" where
  "check_work p f =
     (let shard = pf_shard f; plan = pf_plan f in
     and_then (fail_if (sh_agent_count shard = 0 \<or> sh_agent_count shard \<le> sh_index shard
         \<or> sh_agent_name shard = []) Pol_InvalidShard) (\<lambda>_.
     and_then (fail_if (pf_heartbeat_interval_ms f = 0) Pol_InvalidHeartbeatInterval) (\<lambda>_.
     and_then (fail_if (ap_concurrency plan = 0 \<or> ap_concurrency plan \<noteq> sh_concurrency shard
         \<or> pol_max_concurrency p < ap_concurrency plan)
       (Pol_Concurrency (ap_concurrency plan) (pol_max_concurrency p))) (\<lambda>_.
     and_then (fail_if (ap_duration_ms plan = 0 \<or> pol_max_duration p < from_millis (ap_duration_ms plan))
       (Pol_Duration (ap_duration_ms plan) (millis_u64 (pol_max_duration p)))) (\<lambda>_.
     fail_if (ap_patterns plan = [] \<or> list_ex pattern_invalid (ap_patterns plan))
       Pol_InvalidWorkload)))))"

definition check_target ::
  "(string \<Rightarrow> string + url) \<Rightarrow> agent_policy \<Rightarrow> remote_target \<Rightarrow> policy_error + string \<times> bool" where
  "check_target parse p target =
     and_then (fail_if (rt_startup_timeout_ms target = 0
         \<or> pol_max_startup_timeout p < from_millis (rt_startup_timeout_ms target))
       (Pol_StartupTimeout (rt_startup_timeout_ms target) (millis_u64 (pol_max_startup_timeout p)))) (\<lambda>_.
     and_then (case parse (rt_url target) of Inl e \<Rightarrow> Inl (Pol_InvalidUrl e) | Inr u \<Rightarrow> Inr u) (\<lambda>parsed.
     and_then (fail_if (url_username parsed \<noteq> [] \<or> url_password parsed \<noteq> None) Pol_UrlCredentials) (\<lambda>_.
     and_then (fail_if (url_fragment parsed \<noteq> None) Pol_UrlFragment) (\<lambda>_.
     and_then (ok_or Pol_MissingHost (map_option to_ascii_lowercase (url_host_str parsed))) (\<lambda>host.
     and_then (validate_scheme (rt_transport target) (url_scheme parsed)) (\<lambda>_.
     let secure = url_scheme parsed \<in> {''https'', ''wss''} in
     and_then (fail_if (\<not> secure \<and> \<not> pol_allow_plaintext p) Pol_PlaintextDenied) (\<lambda>_.
     and_then (fail_if (\<not> secure \<and> (rt_headers_from_env target \<noteq> [] \<or> rt_auth target \<noteq> None))
       Pol_CredentialOverPlaintext) (\<lambda>_.
     let explicitly_allowed = host \<in> pol_allowed_target_hosts p in
     and_then (fail_if (pol_allowed_target_hosts p \<noteq> {} \<and> \<not> explicitly_allowed)
       (Pol_HostDenied host)) (\<lambda>_.
     and_then (fail_if ((case ip_parse host of Some ip \<Rightarrow> is_restricted_ip ip | None \<Rightarrow> False)
         \<and> \<not> explicitly_allowed) (Pol_RestrictedAddress host)) (\<lambda>_.
     and_then (validate_header_refs target) (\<lambda>_.
     and_then (case rt_auth target of None \<Rightarrow> Inr () | Some auth \<Rightarrow> validate_remote_auth auth) (\<lambda>_.
     Inr (host, explicitly_allowed)))))))))))))"

definition authorize ::
  "(string \<Rightarrow> string + url) \<Rightarrow> agent_policy \<Rightarrow> prepare_frame \<Rightarrow> policy_error + remote_target" where
  "authorize parse p f =
     and_then (check_work p f) (\<lambda>_.
     and_then (check_target parse p (pf_target f)) (\<lambda>(host, explicitly_allowed).
     Inr ((pf_target f)\<lparr>rt_allowed_hosts := if explicitly_allowed then [host] else []\<rparr>)))"

subsection \<open>What an authorized frame satisfies\<close>

lemma try_fold_unit_iff: "try_fold f () xs = Inr u \<longleftrightarrow> (\<forall>x \<in> set xs. f () x = Inr ())"
  by (induction xs) (auto simp: and_then_Inr_iff)

lemma check_header_ref_Inr [simp]:
  "check_header_ref u (header, environment) = Inr v \<longleftrightarrow> is_http_token header
     \<and> \<not> is_managed_remote_header (to_ascii_lowercase header) \<and> is_portable_env_name environment"
  by (simp add: check_header_ref_def)

lemma managed_lowercase [simp]:
  "is_managed_remote_header (to_ascii_lowercase h) = is_managed_remote_header h"
  by (simp add: is_managed_remote_header_def)

lemma validate_header_refs_iff:
  "validate_header_refs t = Inr u \<longleftrightarrow> (\<forall>(header, environment) \<in> set (rt_headers_from_env t).
     is_http_token header \<and> \<not> is_managed_remote_header header \<and> is_portable_env_name environment)"
  by (fastforce simp: validate_header_refs_def try_fold_unit_iff)

lemma validate_remote_auth_iff:
  "validate_remote_auth a = Inr u \<longleftrightarrow> ra_client_id a \<noteq> [] \<and> length (ra_client_id a) \<le> 4096
     \<and> list_all (\<lambda>c. \<not> is_control_char c) (utf8_chars (ra_client_id a))
     \<and> is_portable_env_name (ra_client_secret_env a) \<and> \<not> ra_offline_access a
     \<and> (\<forall>scope \<in> set (ra_scopes a). scope_text_ok scope \<and> \<not> eq_ignore_ascii_case scope OFFLINE_ACCESS)
     \<and> ra_max_step_up_retries a \<le> 3"
  by (auto simp: validate_remote_auth_def result_iffs try_fold_unit_iff check_scope_def list_ex_iff
      list_all_iff not_less not_le)

lemma validate_scheme_Inr [simp]:
  "validate_scheme transport scheme = Inr u \<longleftrightarrow>
     scheme \<in> (if transport = Transport_Ws then {''ws'', ''wss''} else {''http'', ''https''})"
  by (cases transport) (auto simp: validate_scheme_def Let_def)

definition url_clean :: "agent_policy \<Rightarrow> remote_target \<Rightarrow> url \<Rightarrow> bool" where
  "url_clean p target u \<longleftrightarrow> url_username u = [] \<and> url_password u = None \<and> url_fragment u = None
     \<and> url_scheme u \<in> (if rt_transport target = Transport_Ws then {''ws'', ''wss''} else {''http'', ''https''})
     \<and> (url_scheme u \<notin> {''https'', ''wss''} \<longrightarrow>
          pol_allow_plaintext p \<and> rt_headers_from_env target = [] \<and> rt_auth target = None)"

lemma check_target_Inr:
  assumes "check_target parse p target = Inr (host, explicit)"
  obtains u shown where "parse (rt_url target) = Inr u" "url_clean p target u"
    "url_host_str u = Some shown" "host = to_ascii_lowercase shown"
    "explicit \<longleftrightarrow> host \<in> pol_allowed_target_hosts p" "explicit \<or> pol_allowed_target_hosts p = {}"
    "explicit \<or> (\<forall>ip. ip_parse host = Some ip \<longrightarrow> \<not> is_restricted_ip ip)"
    "rt_startup_timeout_ms target \<noteq> 0"
    "from_millis (rt_startup_timeout_ms target) \<le> pol_max_startup_timeout p"
    "validate_header_refs target = Inr ()"
    "\<And>auth. rt_auth target = Some auth \<Longrightarrow> validate_remote_auth auth = Inr ()"
proof -
  obtain u where u: "parse (rt_url target) = Inr u"
    using assms by (auto simp: check_target_def result_iffs split: sum.splits)
  obtain shown where shown: "url_host_str u = Some shown"
    using assms u by (auto simp: check_target_def result_iffs)
  have "host = to_ascii_lowercase shown"
    "explicit \<longleftrightarrow> host \<in> pol_allowed_target_hosts p" "explicit \<or> pol_allowed_target_hosts p = {}"
    "rt_startup_timeout_ms target \<noteq> 0"
    "from_millis (rt_startup_timeout_ms target) \<le> pol_max_startup_timeout p"
    "validate_header_refs target = Inr ()"
    using assms by (auto simp: check_target_def result_iffs Let_def u shown)
  moreover have "url_clean p target u"
    using assms by (auto simp: check_target_def result_iffs Let_def u shown url_clean_def)
  moreover have "explicit \<or> (\<forall>ip. ip_parse host = Some ip \<longrightarrow> \<not> is_restricted_ip ip)"
    using assms by (auto simp: check_target_def result_iffs Let_def u shown)
  moreover have "validate_remote_auth auth = Inr ()" if "rt_auth target = Some auth" for auth
    using assms that by (auto simp: check_target_def result_iffs Let_def u shown)
  ultimately show thesis using that u shown by blast
qed

lemma check_target_allowed_hosts:
  "check_target parse p (t\<lparr>rt_allowed_hosts := hs\<rparr>) = check_target parse p t"
  by (simp add: check_target_def validate_header_refs_def)

lemma check_work_Inr_iff:
  "check_work p f = Inr u \<longleftrightarrow> sh_agent_count (pf_shard f) \<noteq> 0
     \<and> sh_index (pf_shard f) < sh_agent_count (pf_shard f) \<and> sh_agent_name (pf_shard f) \<noteq> []
     \<and> pf_heartbeat_interval_ms f \<noteq> 0
     \<and> ap_concurrency (pf_plan f) \<noteq> 0 \<and> ap_concurrency (pf_plan f) = sh_concurrency (pf_shard f)
     \<and> ap_concurrency (pf_plan f) \<le> pol_max_concurrency p
     \<and> ap_duration_ms (pf_plan f) \<noteq> 0 \<and> from_millis (ap_duration_ms (pf_plan f)) \<le> pol_max_duration p
     \<and> ap_patterns (pf_plan f) \<noteq> [] \<and> list_all (\<lambda>q. \<not> pattern_invalid q) (ap_patterns (pf_plan f))"
  by (auto simp: check_work_def result_iffs Let_def list_ex_iff list_all_iff not_le not_less)

lemma authorize_Inr:
  assumes "authorize parse p f = Inr t"
  obtains host explicit where "check_work p f = Inr ()" "check_target parse p (pf_target f) = Inr (host, explicit)"
    "t = (pf_target f)\<lparr>rt_allowed_hosts := if explicit then [host] else []\<rparr>"
  using assms by (auto simp: authorize_def result_iffs split: prod.splits)

subsection \<open>Properties\<close>

text \<open>
  The addresses the worker's transport may dial for an authorized target: the host guard is built from
  the target's \<open>allowed_hosts\<close>, and the resolver is asked once.
\<close>

definition worker_dials ::
  "(string \<Rightarrow> string + url) \<Rightarrow> resolver \<Rightarrow> remote_target \<Rightarrow> socket_addr list \<Rightarrow> bool" where
  "worker_dials parse resolve target addrs \<longleftrightarrow>
     (\<exists>u. parse (rt_url target) = Inr u
        \<and> resolve_and_check_with u (guard_from_hosts (rt_allowed_hosts target)) resolve = Inr addrs)"

definition parse_contract :: "(string \<Rightarrow> string + url) \<Rightarrow> bool" where
  "parse_contract parse \<longleftrightarrow> (\<forall>s u. parse s = Inr u \<longrightarrow> url_contract u)"

text \<open>
  C9. A controller cannot widen a worker's reach. An authorized prepare frame stays within the worker's own limits on concurrency,
  duration and startup; credentials only go to a TLS URL, and plaintext needs the worker's consent; the
  result does not depend on the \<open>allowed_hosts\<close> the controller sent. Whatever the resolver answers, the
  addresses the worker's transport then dials belong to a host the worker itself lists, or, when it lists
  none, include no loopback, private, link-local, unspecified or broadcast address.
\<close>

theorem authorization_confines_worker:
  assumes "authorize parse p f = Inr t"
  shows "(let c = ap_concurrency (pf_plan f) in
        c \<noteq> 0 \<and> c = sh_concurrency (pf_shard f) \<and> c \<le> pol_max_concurrency p)
     \<and> from_millis (ap_duration_ms (pf_plan f)) \<le> pol_max_duration p
     \<and> from_millis (rt_startup_timeout_ms t) \<le> pol_max_startup_timeout p
     \<and> (\<exists>u. parse (rt_url t) = Inr u \<and> url_clean p t u)
     \<and> (\<forall>hs. authorize parse p (f\<lparr>pf_target := (pf_target f)\<lparr>rt_allowed_hosts := hs\<rparr>\<rparr>) = Inr t)
     \<and> (\<forall>resolve addrs. worker_dials parse resolve t addrs \<longrightarrow>
          (\<exists>u shown. parse (rt_url t) = Inr u \<and> url_host_str u = Some shown
             \<and> to_ascii_lowercase shown \<in> pol_allowed_target_hosts p)
          \<or> pol_allowed_target_hosts p = {} \<and> (\<forall>a \<in> set addrs. \<not> is_blocked_ip (sa_ip a)))"
proof -
  obtain host explicit where w: "check_work p f = Inr ()"
    and c: "check_target parse p (pf_target f) = Inr (host, explicit)"
    and t: "t = (pf_target f)\<lparr>rt_allowed_hosts := if explicit then [host] else []\<rparr>"
    using authorize_Inr [OF assms] .
  obtain u shown where u: "parse (rt_url t) = Inr u" "url_clean p (pf_target f) u" "url_host_str u = Some shown"
    and host: "host = to_ascii_lowercase shown" "explicit \<longleftrightarrow> host \<in> pol_allowed_target_hosts p"
      "explicit \<or> pol_allowed_target_hosts p = {}"
    and startup: "from_millis (rt_startup_timeout_ms t) \<le> pol_max_startup_timeout p"
    using check_target_Inr [OF c] t by (metis (no_types, lifting) remote_target.select_convs(2,3)
        remote_target.surjective remote_target.update_convs(6))
  have "url_clean p t u" using u(2) t by (simp add: url_clean_def)
  moreover have "authorize parse p (f\<lparr>pf_target := (pf_target f)\<lparr>rt_allowed_hosts := hs\<rparr>\<rparr>) = Inr t" for hs
    using w c by (simp add: authorize_def check_work_def check_target_allowed_hosts t Let_def)
  moreover have "to_ascii_lowercase shown \<in> pol_allowed_target_hosts p
      \<or> pol_allowed_target_hosts p = {} \<and> (\<forall>a \<in> set addrs. \<not> is_blocked_ip (sa_ip a))"
    if "worker_dials parse resolve t addrs" for resolve addrs
  proof (cases explicit)
    case True
    then show ?thesis using host by simp
  next
    case False
    then have "rt_allowed_hosts t = []" using t by simp
    then have "resolve_and_check_with u (guard_from_hosts []) resolve = Inr addrs"
      using \<open>worker_dials parse resolve t addrs\<close> u(1) by (simp add: worker_dials_def)
    then have "\<forall>a \<in> set addrs. \<not> is_blocked_ip (sa_ip a)"
      using resolved_without_list by blast
    then show ?thesis using False host(3) by simp
  qed
  ultimately show ?thesis using w startup u by (fastforce simp: check_work_Inr_iff Let_def)
qed

text \<open>
  Credentials a worker agrees to use are well formed: in an authorized target every forwarded header is a
  legal header name that the transport does not manage itself, in any letter case, and every environment
  reference is portable; an OAuth block never asks for offline access (neither by its flag nor by a
  scope, in any letter case), retries step-up at most three times, and its client id and scopes are
  bounded and free of control characters.
\<close>

theorem authorized_credentials:
  assumes "authorize parse p f = Inr t"
  shows "(\<forall>(header, environment) \<in> set (rt_headers_from_env t). is_http_token header
        \<and> (\<forall>spelling. eq_ignore_ascii_case spelling header \<longrightarrow> \<not> is_managed_remote_header spelling)
        \<and> is_portable_env_name environment)
     \<and> (\<forall>auth. rt_auth t = Some auth \<longrightarrow> \<not> ra_offline_access auth
        \<and> (\<forall>scope \<in> set (ra_scopes auth). scope_text_ok scope \<and> \<not> eq_ignore_ascii_case scope OFFLINE_ACCESS)
        \<and> ra_max_step_up_retries auth \<le> 3 \<and> is_portable_env_name (ra_client_secret_env auth)
        \<and> ra_client_id auth \<noteq> [] \<and> length (ra_client_id auth) \<le> 4096)"
proof -
  obtain host explicit where c: "check_target parse p (pf_target f) = Inr (host, explicit)"
    and t: "t = (pf_target f)\<lparr>rt_allowed_hosts := if explicit then [host] else []\<rparr>"
    using authorize_Inr [OF assms] .
  have h: "validate_header_refs t = Inr ()"
    and a: "\<And>auth. rt_auth t = Some auth \<Longrightarrow> validate_remote_auth auth = Inr ()"
    using check_target_Inr [OF c] by (auto simp: t validate_header_refs_def)
  have "is_managed_remote_header spelling = is_managed_remote_header header"
    if "eq_ignore_ascii_case spelling header" for spelling header
    using that by (simp add: is_managed_remote_header_def eq_ignore_ascii_case_def)
  then have "\<forall>(header, environment) \<in> set (rt_headers_from_env t). is_http_token header
      \<and> (\<forall>spelling. eq_ignore_ascii_case spelling header \<longrightarrow> \<not> is_managed_remote_header spelling)
      \<and> is_portable_env_name environment"
    using h unfolding validate_header_refs_iff by fast
  with a show ?thesis by (simp add: validate_remote_auth_iff)
qed

text \<open>
  The rejection \<open>RestrictedAddress\<close> is exact for IPv4 literals and only for them: it is raised only when the URL's host is
  an IPv4 literal in a restricted range that the worker does not list, and it names that address. No
  IPv6 literal is ever rejected as restricted, not even the loopback address: its text carries brackets,
  which do not read as an address.
\<close>

theorem restricted_address_only_ipv4:
  assumes "authorize parse p f = Inl (Pol_RestrictedAddress host)" "parse_contract parse"
  shows "\<exists>u a. parse (rt_url (pf_target f)) = Inr u \<and> url_host u = Some (Host_Ipv4 a)
     \<and> is_restricted_ip (V4 a) \<and> host = v4_show a \<and> host \<notin> pol_allowed_target_hosts p"
proof -
  have c: "check_target parse p (pf_target f) = Inl (Pol_RestrictedAddress host)"
    using assms(1) by (auto simp: authorize_def check_work_def result_iffs Let_def split: prod.splits)
  obtain u where u: "parse (rt_url (pf_target f)) = Inr u"
    using c by (auto simp: check_target_def result_iffs split: sum.splits)
  obtain shown where shown: "url_host_str u = Some shown"
    using c by (auto simp: check_target_def result_iffs u)
  have auth: "validate_remote_auth auth \<noteq> Inl (Pol_RestrictedAddress host)" for auth
  proof -
    have "try_fold check_scope () xs \<noteq> Inl (Pol_RestrictedAddress host)" for xs
      by (induction xs) (auto simp: check_scope_def result_iffs)
    then show ?thesis by (auto simp: validate_remote_auth_def result_iffs)
  qed
  have headers: "validate_header_refs t \<noteq> Inl (Pol_RestrictedAddress host)" for t
  proof -
    have "try_fold check_header_ref () xs \<noteq> Inl (Pol_RestrictedAddress host)" for xs
      by (induction xs) (auto simp: check_header_ref_def result_iffs split: prod.splits if_splits)
    then show ?thesis by (simp add: validate_header_refs_def)
  qed
  have scheme: "validate_scheme tr s \<noteq> Inl (Pol_RestrictedAddress host)" for tr s
    by (cases tr) (auto simp: validate_scheme_def Let_def)
  have r: "host = to_ascii_lowercase shown" "host \<notin> pol_allowed_target_hosts p"
    "\<exists>ip. ip_parse host = Some ip \<and> is_restricted_ip ip"
    using c auth headers scheme
    by (auto simp: check_target_def result_iffs Let_def u shown split: option.splits if_splits)
  have "url_contract u" using assms(2) u by (auto simp: parse_contract_def)
  then obtain h where h: "url_host u = Some h" "host_text_ok h shown"
    using shown by (auto simp: url_contract_def split: option.splits)
  then obtain a where "h = Host_Ipv4 a" using r host_text_parse [OF h(2)] by (cases h) auto
  with h r u show ?thesis by auto
qed

text \<open>
  The three address classifiers of the program are nested: what the OAuth policy calls public, neither the transport
  guard blocks nor the worker policy restricts; on IPv4 the worker policy restricts exactly what the
  guard blocks and multicast. On IPv6 they part: the loopback address mapped from IPv4 is blocked by the
  guard and not public, but not restricted.
\<close>

theorem address_classes_nested:
  "Collect is_public_ip \<subseteq> - Collect is_blocked_ip \<inter> - Collect is_restricted_ip
   \<and> is_restricted_ip (V4 a) = (is_blocked_ip (V4 a) \<or> v4_is_multicast a)
   \<and> (let mapped = V6 (Ipv6 0 0 0 0 0 0xffff 0x7f00 1) in
        is_blocked_ip mapped \<and> \<not> is_public_ip mapped \<and> \<not> is_restricted_ip mapped)"
proof -
  have v4: "is_restricted_ip (V4 b) = (is_blocked_ip (V4 b) \<or> v4_is_multicast b)" for b
    unfolding is_restricted_ip.simps is_blocked_ip.simps v4_is_broadcast_def by blast
  have "\<not> is_restricted_ip b" if pub: "is_public_ip b" for b
  proof (cases b)
    case (V4 c)
    have "\<not> v4_is_multicast c" using pub unfolding V4 by (cases c) simp
    then show ?thesis using v4 [of c] public_not_blocked [OF pub] unfolding V4 by blast
  next
    case (V6 c)
    show ?thesis
    proof (cases "to_ipv4_mapped c")
      case None
      then show ?thesis using pub
        by (simp add: V6 is_public_ipv6_def Let_def v6_segments_first v6_is_multicast_def)
    next
      case (Some m)
      then show ?thesis by (simp add: V6 mapped_facts v6_is_multicast_def v6_segments_first)
    qed
  qed
  moreover have "(high_octet 0x7f00 :: u8) = 127" by (simp add: high_octet_def)
  ultimately show ?thesis using v4 public_not_blocked
    by (auto simp: Let_def is_public_ipv6_def v6_is_multicast_def v6_first_def v6_is_loopback_def
        v6_is_unspecified_def simp del: v4_is_private.simps v4_is_link_local.simps)
qed

subsection \<open>A worker with the default policy\<close>

definition sample_parse :: "string \<Rightarrow> string + url" where
  "sample_parse s = (if s = ''https://example.com/''
     then Inr (sample_url (Host_Domain ''example.com'') ''example.com'')
     else Inr (sample_url (Host_Ipv4 (Ipv4 127 0 0 1)) ''127.0.0.1''))"

definition sample_work :: "string \<Rightarrow> prepare_frame" where
  "sample_work target = \<lparr>pf_job_id = ''job'', pf_config_digest = ''d'',
     pf_target = \<lparr>rt_transport = Transport_Http, rt_url = target, rt_startup_timeout_ms = 1000,
       rt_protocol_version = None, rt_headers_from_env = [(''x-key'', ''KEY'')],
       rt_allowed_hosts = [''127.0.0.1''], rt_strict_validation = False, rt_auth = None\<rparr>,
     pf_plan = \<lparr>ap_scenario = Scenario_Pattern, ap_concurrency = 2, ap_duration_ms = 1000,
       ap_patterns = [\<lparr>pat_name = ''echo'', pat_weight = F64_Fin 1, pat_think_time_ms = 0,
         pat_on_step_error = On_Error_Continue,
         pat_steps = [\<lparr>st_tool = ''echo'', st_args = JObject []\<rparr>]\<rparr>], ap_seed = 7\<rparr>,
     pf_shard = \<lparr>sh_agent_name = ''a'', sh_index = 0, sh_agent_count = 1, sh_concurrency = 2\<rparr>,
     pf_heartbeat_interval_ms = 1000\<rparr>"

lemma sample_work_checked: "check_work agent_policy_default (sample_work target) = Inr ()"
  by (simp add: check_work_Inr_iff sample_work_def agent_policy_default_def from_millis_def
      pattern_invalid_def json_is_object_def)

lemma sample_headers: "validate_header_refs (pf_target (sample_work target)) = Inr ()"
proof -
  have "is_http_token ''x-key'' \<and> \<not> is_managed_remote_header ''x-key'' \<and> is_portable_env_name ''KEY''"
    by code_simp
  then show ?thesis by (simp add: validate_header_refs_iff sample_work_def)
qed

lemma sample_hosts:
  "ip_parse (to_ascii_lowercase ''example.com'') = None"
  "ip_parse (to_ascii_lowercase ''127.0.0.1'') = Some (V4 (Ipv4 127 0 0 1))"
  "to_ascii_lowercase ''127.0.0.1'' = ''127.0.0.1''" "v4_show (Ipv4 127 0 0 1) = ''127.0.0.1''"
  by code_simp+

lemma sample_authorized:
  "\<exists>t. authorize sample_parse agent_policy_default (sample_work ''https://example.com/'') = Inr t"
  using sample_headers [of "''https://example.com/''"]
  by (simp add: authorize_def sample_work_checked check_target_def sample_parse_def Let_def sample_hosts)
    (simp add: sample_work_def agent_policy_default_def from_millis_def validate_scheme_def)

lemma authorization_confines_worker_witness:
  "\<exists>t. authorize sample_parse agent_policy_default (sample_work ''https://example.com/'') = Inr t
     \<and> (\<forall>resolve addrs. worker_dials sample_parse resolve t addrs \<longrightarrow> (\<forall>a \<in> set addrs. \<not> is_blocked_ip (sa_ip a)))"
proof -
  obtain t where t: "authorize sample_parse agent_policy_default (sample_work ''https://example.com/'') = Inr t"
    using sample_authorized by blast
  have "pol_allowed_target_hosts agent_policy_default = {}" by (simp add: agent_policy_default_def)
  with t authorization_confines_worker [OF t] show ?thesis by blast
qed

lemma authorized_credentials_witness:
  "\<exists>t. authorize sample_parse agent_policy_default (sample_work ''https://example.com/'') = Inr t
     \<and> (\<forall>(header, environment) \<in> set (rt_headers_from_env t). is_http_token header)"
proof -
  obtain t where t: "authorize sample_parse agent_policy_default (sample_work ''https://example.com/'') = Inr t"
    using sample_authorized by blast
  with authorized_credentials [OF t] show ?thesis by blast
qed

lemma sample_url_contract:
  "url_contract (sample_url (Host_Domain ''example.com'') ''example.com'')"
  "url_contract (sample_url (Host_Ipv4 (Ipv4 127 0 0 1)) ''127.0.0.1'')"
  by (simp_all add: url_contract_def sample_hosts del: v4_show.simps)

lemma restricted_address_only_ipv4_witness:
  "authorize sample_parse agent_policy_default (sample_work ''https://localhost/'')
       = Inl (Pol_RestrictedAddress ''127.0.0.1'')
     \<and> ''127.0.0.1'' \<notin> pol_allowed_target_hosts agent_policy_default"
proof -
  have c: "parse_contract sample_parse"
    using sample_url_contract by (simp add: parse_contract_def sample_parse_def)
  have a: "authorize sample_parse agent_policy_default (sample_work ''https://localhost/'')
      = Inl (Pol_RestrictedAddress ''127.0.0.1'')"
    by (simp add: authorize_def sample_work_checked check_target_def sample_parse_def Let_def)
      (simp add: sample_hosts sample_hosts(2) [unfolded sample_hosts(3)] sample_work_def
        agent_policy_default_def from_millis_def validate_scheme_def)
  from a restricted_address_only_ipv4 [OF a c] show ?thesis by blast
qed

end
