(* ===== verification/Channel.thy ===== *)
theory Channel
  imports Wire
begin

section \<open>The control channel\<close>

text \<open>
  \<open>NdjsonChannel\<close> of \<open>crates/distributed/src/channel.rs\<close>: one JSON frame per line over a byte
  stream, with a bound on a frame's bytes. The stream is what \<open>fill_buf\<close> returns in turn: a chunk of
  bytes, or the text of an I/O error; an empty chunk and the end of the list are the end of the stream.
  The JSON codec is third-party code: a pair of functions and its documented contract (decoding gives
  back what was encoded, and the compact encoding is a non-empty text without line breaks).
\<close>

datatype channel_error =
    Ch_Io string
  | Ch_Json string
  | Ch_UnsupportedProtocol string string
  | Ch_FrameTooLarge nat
  | Ch_UnterminatedFrame
  | Ch_EmptyFrame

type_synonym bytes = "u8 list"

record json_api =
  js_encode :: "wire_frame \<Rightarrow> string + bytes"
  js_decode :: "bytes \<Rightarrow> string + wire_frame"

definition LF :: u8 where "LF = 10"

definition CR :: u8 where "CR = 13"

definition json_contract :: "json_api \<Rightarrow> bool" where
  "json_contract J \<longleftrightarrow> (\<forall>f bs. js_encode J f = Inr bs \<longrightarrow>
     js_decode J bs = Inr f \<and> bs \<noteq> [] \<and> LF \<notin> set bs \<and> CR \<notin> set bs)"

definition DEFAULT_MAX_FRAME_BYTES :: nat where
  "DEFAULT_MAX_FRAME_BYTES = 8 * 1024 * 1024"

type_synonym reader = "(string + bytes) list"

record channel =
  ch_reader :: reader
  ch_max_frame_bytes :: nat
  ch_read_buffer :: bytes

definition with_max_frame_bytes :: "reader \<Rightarrow> nat \<Rightarrow> channel" where
  "with_max_frame_bytes reader max_frame_bytes =
     \<lparr>ch_reader = reader, ch_max_frame_bytes = max max_frame_bytes 1, ch_read_buffer = []\<rparr>"

definition channel_new :: "reader \<Rightarrow> channel" where
  "channel_new reader = with_max_frame_bytes reader DEFAULT_MAX_FRAME_BYTES"

subsection \<open>Receiving\<close>

definition position_of :: "u8 \<Rightarrow> bytes \<Rightarrow> nat option" where
  "position_of b bs = (if b \<in> set bs then Some (length (takeWhile (\<lambda>x. x \<noteq> b) bs)) else None)"

text \<open>\<open>BufReader::consume\<close>: the rest of the current chunk stays available.\<close>

definition consume_chunk :: "nat \<Rightarrow> bytes \<Rightarrow> reader \<Rightarrow> reader" where
  "consume_chunk n available rest =
     (if n = length available then rest else Inr (drop n available) # rest)"

definition finish_frame :: "json_api \<Rightarrow> bytes \<Rightarrow> (channel_error + wire_frame option) \<times> bytes" where
  "finish_frame J buffer =
     (let payload = (if buffer \<noteq> [] \<and> last buffer = CR then butlast buffer else buffer) in
      (if payload = [] then Inl Ch_EmptyFrame
       else case js_decode J payload of
         Inl e \<Rightarrow> Inl (Ch_Json e)
       | Inr frame \<Rightarrow>
           if wf_protocol frame \<noteq> WIRE_PROTOCOL
           then Inl (Ch_UnsupportedProtocol (wf_protocol frame) WIRE_PROTOCOL)
           else Inr (Some frame), payload))"

text \<open>
  The loop of \<open>receive_inner\<close>: the result, the stream and the buffer it leaves. The addition that the
  code checks is on lengths of buffers in memory and is exact.
\<close>

fun receive_loop ::
  "json_api \<Rightarrow> nat \<Rightarrow> bytes \<Rightarrow> reader \<Rightarrow> (channel_error + wire_frame option) \<times> reader \<times> bytes" where
  "receive_loop J limit buffer [] =
     (if buffer = [] then Inr None else Inl Ch_UnterminatedFrame, [], buffer)"
| "receive_loop J limit buffer (Inl e # rest) = (Inl (Ch_Io e), rest, buffer)"
| "receive_loop J limit buffer (Inr available # rest) =
     (if available = [] then (if buffer = [] then Inr None else Inl Ch_UnterminatedFrame, rest, buffer)
      else
        let newline = position_of LF available;
            take_n = (case newline of None \<Rightarrow> length available | Some position \<Rightarrow> position + 1);
            payload_len = take_n - (if newline = None then 0 else 1)
        in if limit < length buffer + payload_len
           then (Inl (Ch_FrameTooLarge limit), Inr available # rest, buffer)
           else
             let buffer' = buffer @ take payload_len available
             in if newline = None then receive_loop J limit buffer' rest
                else (case finish_frame J buffer' of
                  (result, payload) \<Rightarrow> (result, consume_chunk take_n available rest, payload)))"

definition channel_receive :: "json_api \<Rightarrow> channel \<Rightarrow> channel \<times> (channel_error + wire_frame option)" where
  "channel_receive J c =
     (case receive_loop J (ch_max_frame_bytes c) [] (ch_reader c) of
        (result, reader, buffer) \<Rightarrow> (c\<lparr>ch_reader := reader, ch_read_buffer := buffer\<rparr>, result))"

subsection \<open>Sending\<close>


subsection \<open>Specification: lines of a byte string\<close>

text \<open>
  What receiving means, without chunks: the first line of the stream, if it is complete and within the
  bound, is one frame, and the stream continues after it.
\<close>

definition receive_spec :: "json_api \<Rightarrow> nat \<Rightarrow> bytes \<Rightarrow> channel_error + wire_frame option" where
  "receive_spec J limit bs =
     (let line = takeWhile (\<lambda>b. b \<noteq> LF) bs in
      if limit < length line then Inl (Ch_FrameTooLarge limit)
      else if LF \<in> set bs then fst (finish_frame J line)
      else if bs = [] then Inr None else Inl Ch_UnterminatedFrame)"

definition after_line :: "bytes \<Rightarrow> bytes" where
  "after_line bs = drop 1 (dropWhile (\<lambda>b. b \<noteq> LF) bs)"

definition chunks_of :: "reader \<Rightarrow> bytes list \<Rightarrow> bool" where
  "chunks_of r cs \<longleftrightarrow> r = map Inr cs \<and> [] \<notin> set cs"

lemma position_of_Some:
  "LF \<in> set bs \<Longrightarrow> position_of LF bs = Some (length (takeWhile (\<lambda>x. x \<noteq> LF) bs))"
  "LF \<notin> set bs \<Longrightarrow> position_of LF bs = None"
  by (simp_all add: position_of_def)

lemma takeWhile_none: "LF \<notin> set bs \<Longrightarrow> takeWhile (\<lambda>b. b \<noteq> LF) (bs @ cs) = bs @ takeWhile (\<lambda>b. b \<noteq> LF) cs"
  by (induction bs) auto

lemma dropWhile_none: "LF \<notin> set bs \<Longrightarrow> dropWhile (\<lambda>b. b \<noteq> LF) (bs @ cs) = dropWhile (\<lambda>b. b \<noteq> LF) cs"
  by (induction bs) auto

lemma takeWhile_some: "LF \<in> set bs \<Longrightarrow> takeWhile (\<lambda>b. b \<noteq> LF) (bs @ cs) = takeWhile (\<lambda>b. b \<noteq> LF) bs"
  by (induction bs) auto

lemma dropWhile_some: "LF \<in> set bs \<Longrightarrow> dropWhile (\<lambda>b. b \<noteq> LF) (bs @ cs) = dropWhile (\<lambda>b. b \<noteq> LF) bs @ cs"
  by (induction bs) auto

lemma take_line: "LF \<in> set bs \<Longrightarrow>
    take (length (takeWhile (\<lambda>b. b \<noteq> LF) bs)) bs = takeWhile (\<lambda>b. b \<noteq> LF) bs"
  by (metis append_eq_conv_conj takeWhile_dropWhile_id)

lemma drop_line: "drop (Suc (length (takeWhile (\<lambda>b. b \<noteq> LF) bs))) bs = after_line bs"
  by (simp add: after_line_def dropWhile_eq_drop)

text \<open>The loop refines the specification, whatever the chunks are.\<close>

lemma receive_loop_refines:
  assumes "[] \<notin> set cs" "LF \<notin> set buffer" "length buffer \<le> limit"
  shows "fst (receive_loop J limit buffer (map Inr cs)) = receive_spec J limit (buffer @ concat cs)
     \<and> (LF \<in> set (concat cs) \<and> length (takeWhile (\<lambda>b. b \<noteq> LF) (buffer @ concat cs)) \<le> limit \<longrightarrow>
          (\<exists>cs'. [] \<notin> set cs' \<and> concat cs' = after_line (buffer @ concat cs)
             \<and> fst (snd (receive_loop J limit buffer (map Inr cs))) = map Inr cs'))"
  using assms
proof (induction cs arbitrary: buffer)
  case Nil
  have whole: "takeWhile (\<lambda>b. b \<noteq> LF) buffer = buffer" using takeWhile_none [OF Nil(2), of "[]"] by simp
  then show ?case using Nil(2,3) by (simp add: receive_spec_def Let_def whole)
next
  case (Cons c cs)
  then have c: "c \<noteq> []" "[] \<notin> set cs" by auto
  let ?line = "takeWhile (\<lambda>b. b \<noteq> LF) c"
  show ?case
  proof (cases "LF \<in> set c")
    case False
    then have lines: "takeWhile (\<lambda>b. b \<noteq> LF) (buffer @ concat (c # cs))
        = (buffer @ c) @ takeWhile (\<lambda>b. b \<noteq> LF) (concat cs)"
      using Cons.prems(2) by (simp add: takeWhile_none)
    show ?thesis
    proof (cases "limit < length buffer + length c")
      case True
      then show ?thesis using c False lines
        by (simp add: position_of_Some receive_spec_def Let_def)
    next
      case ok: False
      have "receive_loop J limit buffer (map Inr (c # cs)) = receive_loop J limit (buffer @ c) (map Inr cs)"
        using c(1) False ok by (simp add: position_of_Some Let_def)
      moreover have "LF \<in> set (concat (c # cs)) \<longleftrightarrow> LF \<in> set (concat cs)" using False by simp
      ultimately show ?thesis
        using Cons.IH [of "buffer @ c"] c(2) Cons.prems(2) False ok by simp
    qed
  next
    case True
    have line: "takeWhile (\<lambda>b. b \<noteq> LF) (buffer @ concat (c # cs)) = buffer @ ?line"
      using Cons.prems(2) True by (simp add: takeWhile_none takeWhile_some)
    have rest: "after_line (buffer @ concat (c # cs)) = after_line c @ concat cs"
      using Cons.prems(2) True by (simp add: after_line_def dropWhile_none dropWhile_some dropWhile_eq_Nil_conv)
        (metis (mono_tags, lifting) True append_self_conv2 dropWhile_eq_Nil_conv drop_0 drop_append
          drop_eq_Nil2 length_0_conv list.size(3) Suc_leI diff_is_0_eq length_greater_0_conv)
    show ?thesis
    proof (cases "limit < length buffer + length ?line")
      case big: True
      then show ?thesis using c(1) True line
        by (simp add: position_of_Some Let_def receive_spec_def)
    next
      case ok: False
      have eq: "receive_loop J limit buffer (map Inr (c # cs)) =
          (case finish_frame J (buffer @ ?line) of (result, payload) \<Rightarrow>
             (result, consume_chunk (length ?line + 1) c (map Inr cs), payload))"
        using c(1) True ok by (simp add: position_of_Some Let_def take_line)
      let ?cs' = "if length ?line + 1 = length c then cs else drop (length ?line + 1) c # cs"
      have "consume_chunk (length ?line + 1) c (map Inr cs) = map Inr ?cs'"
        by (simp add: consume_chunk_def)
      moreover have "length ?line < length c"
        using True by (metis (mono_tags, lifting) length_takeWhile_le nat_less_le takeWhile_eq_all_conv
            takeWhile_eq_take take_all_iff order_refl)
      then have "[] \<notin> set ?cs'" using c(2) by auto
      moreover have "concat ?cs' = after_line (buffer @ concat (c # cs))"
        unfolding rest using drop_line [of c] \<open>length ?line < length c\<close> by auto
      moreover have "fst (finish_frame J (buffer @ ?line)) = receive_spec J limit (buffer @ concat (c # cs))"
        using True ok line by (simp add: receive_spec_def Let_def)
      ultimately show ?thesis unfolding eq by (auto split: prod.split)
    qed
  qed
qed

lemma finish_frame_bound: "length (snd (finish_frame J buffer)) \<le> length buffer"
  by (simp add: finish_frame_def Let_def)

lemma receive_loop_bound:
  "length buffer \<le> limit \<Longrightarrow> length (snd (snd (receive_loop J limit buffer r))) \<le> limit"
proof (induction J limit buffer r rule: receive_loop.induct)
  case (3 J limit buffer available rest)
  show ?case
  proof (cases "LF \<in> set available")
    case True
    then show ?thesis
      using 3(2) finish_frame_bound [of J "buffer @ takeWhile (\<lambda>b. b \<noteq> LF) available"]
      by (auto simp: position_of_Some Let_def take_line split: prod.splits)
  next
    case False
    then show ?thesis using 3 by (auto simp: position_of_Some Let_def not_less)
  qed
qed simp_all

lemma receive_spec_Some:
  "receive_spec J limit bs = Inr (Some f) \<Longrightarrow> LF \<in> set bs \<and> length (takeWhile (\<lambda>b. b \<noteq> LF) bs) \<le> limit"
  by (auto simp: receive_spec_def Let_def split: if_splits)




lemma finish_encoded:
  assumes "json_contract J" "js_encode J f = Inr encoded" "wf_protocol f = WIRE_PROTOCOL"
  shows "fst (finish_frame J encoded) = Inr (Some f)"
proof -
  have e: "js_decode J encoded = Inr f" "encoded \<noteq> []" "CR \<notin> set encoded"
    using assms by (auto simp: json_contract_def)
  then have "last encoded \<noteq> CR" by (metis last_in_set)
  with e assms(3) show ?thesis by (simp add: finish_frame_def)
qed

lemma receive_sent:
  assumes "json_contract J" "js_encode J f = Inr encoded" "wf_protocol f = WIRE_PROTOCOL"
    "length encoded \<le> limit"
  shows "receive_spec J limit (encoded @ LF # bs) = Inr (Some f)" "after_line (encoded @ LF # bs) = bs"
proof -
  have "LF \<notin> set encoded" using assms by (auto simp: json_contract_def)
  then show "receive_spec J limit (encoded @ LF # bs) = Inr (Some f)" "after_line (encoded @ LF # bs) = bs"
    using finish_encoded [OF assms(1-3)] assms(4)
    by (simp_all add: receive_spec_def Let_def takeWhile_none after_line_def dropWhile_none)
qed

lemma channel_receive_step:
  assumes "chunks_of (ch_reader c) cs"
  shows "snd (channel_receive J c) = receive_spec J (ch_max_frame_bytes c) (concat cs)"
    and "snd (channel_receive J c) = Inr (Some f) \<Longrightarrow>
      \<exists>cs'. chunks_of (ch_reader (fst (channel_receive J c))) cs' \<and> concat cs' = after_line (concat cs)"
    and "ch_max_frame_bytes (fst (channel_receive J c)) = ch_max_frame_bytes c"
proof -
  let ?limit = "ch_max_frame_bytes c"
  obtain result reader buffer where r: "receive_loop J ?limit [] (map Inr cs) = (result, reader, buffer)"
    by (metis surj_pair)
  have c: "ch_reader c = map Inr cs" "[] \<notin> set cs" using assms by (simp_all add: chunks_of_def)
  have eq: "channel_receive J c = (c\<lparr>ch_reader := reader, ch_read_buffer := buffer\<rparr>, result)"
    using r c by (simp add: channel_receive_def)
  note loop = receive_loop_refines [OF c(2), of "[]" ?limit J]
  show spec: "snd (channel_receive J c) = receive_spec J ?limit (concat cs)"
    using loop r by (simp add: eq)
  show "ch_max_frame_bytes (fst (channel_receive J c)) = ?limit" by (simp add: eq)
  assume "snd (channel_receive J c) = Inr (Some f)"
  then have "LF \<in> set (concat cs)" "length (takeWhile (\<lambda>b. b \<noteq> LF) (concat cs)) \<le> ?limit"
    using receive_spec_Some [of J ?limit "concat cs" f] spec by simp_all
  then show "\<exists>cs'. chunks_of (ch_reader (fst (channel_receive J c))) cs' \<and> concat cs' = after_line (concat cs)"
    using loop r by (auto simp: eq chunks_of_def)
qed

subsection \<open>Properties\<close>

text \<open>
  C27. Framing does not depend on how the bytes arrive: whatever the chunks in which a stream is read, receiving returns what
  the specification \<open>receive_spec\<close> says of the whole byte string (its first line decoded, end of stream, or the
  error), and after a frame the rest of the stream is what follows that line; the read buffer never
  holds more than the frame bound.
\<close>

theorem receive_refines_lines:
  assumes "chunks_of (ch_reader c) cs"
  shows "snd (channel_receive J c) = receive_spec J (ch_max_frame_bytes c) (concat cs)
     \<and> (\<forall>f. snd (channel_receive J c) = Inr (Some f) \<longrightarrow>
          (\<exists>cs'. chunks_of (ch_reader (fst (channel_receive J c))) cs' \<and> concat cs' = after_line (concat cs)))
     \<and> length (ch_read_buffer (fst (channel_receive J c))) \<le> ch_max_frame_bytes c"
proof -
  have "length (ch_read_buffer (fst (channel_receive J c))) \<le> ch_max_frame_bytes c"
    using receive_loop_bound [of "[]" "ch_max_frame_bytes c" J "ch_reader c"]
    by (auto simp: channel_receive_def split: prod.splits)
  with channel_receive_step [OF assms] show ?thesis by blast
qed


subsection \<open>A channel with a toy codec\<close>

definition toy_frame :: wire_frame where
  "toy_frame = wire_frame_new (Msg_Cancel \<lparr>cf_job_id = ''job'', cf_reason = ''stop''\<rparr>)"

definition toy_json :: json_api where
  "toy_json = \<lparr>js_encode = (\<lambda>f. if f = toy_frame then Inr [1, 2, 3] else Inl ''no''),
     js_decode = (\<lambda>bs. if bs = [1, 2, 3] then Inr toy_frame else Inl ''no'')\<rparr>"


definition toy_channel :: "bytes list \<Rightarrow> channel" where
  "toy_channel cs = channel_new (map Inr cs)"

lemma toy_channel_simps [simp]:
  "ch_reader (toy_channel cs) = map Inr cs" "ch_max_frame_bytes (toy_channel cs) = DEFAULT_MAX_FRAME_BYTES"
  by (simp_all add: toy_channel_def channel_new_def with_max_frame_bytes_def DEFAULT_MAX_FRAME_BYTES_def)


lemma receive_refines_lines_witness:
  "snd (channel_receive toy_json (toy_channel [[1], [2]])) = Inl Ch_UnterminatedFrame"
proof -
  have "chunks_of (ch_reader (toy_channel [[1], [2]])) [[1], [2]]" by (simp add: chunks_of_def)
  from receive_refines_lines [OF this, of toy_json] show ?thesis
    by (simp add: receive_spec_def LF_def DEFAULT_MAX_FRAME_BYTES_def)
qed

subsection \<open>A receive that is abandoned\<close>

text \<open>
  The worker's loop and the controller's peer task await \<open>receive\<close> under a 50 ms timeout. When only \<open>k\<close>
  chunks have arrived by then and the line is still open, the future is dropped at \<open>fill_buf\<close>: the chunks
  have been consumed from the reader, and the next \<open>receive\<close> starts by clearing the buffer they went to.
\<close>

fun still_open :: "nat \<Rightarrow> bytes \<Rightarrow> reader \<Rightarrow> bool" where
  "still_open limit buffer [] = True"
| "still_open limit buffer (Inl e # rest) = False"
| "still_open limit buffer (Inr available # rest) =
     (available \<noteq> [] \<and> position_of LF available = None \<and> length buffer + length available \<le> limit
      \<and> still_open limit (buffer @ available) rest)"

definition channel_poll ::
  "json_api \<Rightarrow> nat \<Rightarrow> channel \<Rightarrow> channel \<times> (channel_error + wire_frame option) option" where
  "channel_poll J k c =
     (if still_open (ch_max_frame_bytes c) [] (take k (ch_reader c))
      then (c\<lparr>ch_reader := drop k (ch_reader c),
              ch_read_buffer := concat (map projr (take k (ch_reader c)))\<rparr>, None)
      else (case channel_receive J c of (c', r) \<Rightarrow> (c', Some r)))"

lemma still_open_iff:
  assumes "[] \<notin> set cs" "length buffer \<le> limit"
  shows "still_open limit buffer (map Inr cs) \<longleftrightarrow>
     LF \<notin> set (concat cs) \<and> length buffer + length (concat cs) \<le> limit"
  using assms
proof (induction cs arbitrary: buffer)
  case (Cons c cs)
  have "position_of LF c = None \<longleftrightarrow> LF \<notin> set c" using position_of_Some [of c] by fastforce
  then show ?case
    using Cons.IH [of "buffer @ c"] Cons.prems
    by (cases "length buffer + length c \<le> limit") auto
qed simp

lemma channel_receive_result:
  "snd (channel_receive J c) = fst (receive_loop J (ch_max_frame_bytes c) [] (ch_reader c))"
  by (simp add: channel_receive_def split: prod.splits)

lemma abandoned_receive:
  assumes "chunks_of (ch_reader c) cs" "LF \<notin> set (concat (take k cs))"
    and "length (concat (take k cs)) \<le> ch_max_frame_bytes c"
  shows "channel_poll J k c = (c\<lparr>ch_reader := map Inr (drop k cs), ch_read_buffer := concat (take k cs)\<rparr>, None)"
proof -
  have cs: "ch_reader c = map Inr cs" "[] \<notin> set cs" using assms(1) by (auto simp: chunks_of_def)
  have "[] \<notin> set (take k cs)" using cs(2) by (meson in_set_takeD)
  from still_open_iff [OF this, of "[]" "ch_max_frame_bytes c"] assms(2,3)
  show ?thesis by (simp add: channel_poll_def cs(1) take_map drop_map comp_def)
qed

text \<open>
  What makes the rest of a cut frame unreadable is the grammar of JSON. A scanner over the bytes keeps
  the nesting depth and whether it is inside a string, and right after a backslash in one; a backslash
  outside a string and an escape that the grammar does not know are refused.
\<close>

fun json_step :: "int \<times> bool \<times> bool \<Rightarrow> u8 \<Rightarrow> (int \<times> bool \<times> bool) option" where
  "json_step (depth, quoted, escaped) b =
     (if quoted then
        (if escaped then
           (if b \<in> {34, 92, 47, 98, 102, 110, 114, 116, 117} then Some (depth, True, False) else None)
         else Some (depth, b \<noteq> 34, b = 92))
      else if b = 92 then None
      else Some (depth + (if b \<in> {123, 91} then 1 else if b \<in> {125, 93} then - 1 else 0), b = 34, False))"

fun json_scan :: "int \<times> bool \<times> bool \<Rightarrow> bytes \<Rightarrow> (int \<times> bool \<times> bool) option" where
  "json_scan st [] = Some st"
| "json_scan st (b # bs) = Option.bind (json_step st b) (\<lambda>st'. json_scan st' bs)"

text \<open>
  A text that reads as an array or an object starts with blanks or an opening bracket and closes all it
  opens; a compact object starts with its brace, which stays open until the last byte.
\<close>

definition json_composite :: "bytes \<Rightarrow> bool" where
  "json_composite t \<longleftrightarrow> t \<noteq> [] \<and> hd t \<in> {123, 91, 32, 9, 10, 13}
     \<and> json_scan (0, False, False) t = Some (0, False, False)"

definition json_object :: "bytes \<Rightarrow> bool" where
  "json_object t \<longleftrightarrow> json_scan (0, False, False) t = Some (0, False, False)
     \<and> list_all (\<lambda>n. case json_scan (0, False, False) (take n t) of
          None \<Rightarrow> False | Some (depth, _, _) \<Rightarrow> 0 < depth) [1..<length t]"

text \<open>
  A frame is a struct: the codec writes it as a compact object, and reads it from an object (or an
  array) only.
\<close>

definition json_grammar :: "json_api \<Rightarrow> bool" where
  "json_grammar J \<longleftrightarrow> (\<forall>f t. js_encode J f = Inr t \<longrightarrow> json_object t)
     \<and> (\<forall>f t. js_decode J t = Inr f \<longrightarrow> json_composite t)"

lemma json_scan_append:
  "json_scan st (xs @ ys) = Option.bind (json_scan st xs) (\<lambda>st'. json_scan st' ys)"
  by (induction xs arbitrary: st) (auto split: bind_splits)

text \<open>Starting below the opening brace shifts the depth.\<close>

lemma json_step_shift:
  "json_step (depth, q, e) b = Some (depth1, q1, e1) \<Longrightarrow>
     json_step (depth + k, q, e) b = Some (depth1 + k, q1, e1)"
  by (auto split: if_splits)

lemma json_scan_shift:
  "json_scan (depth, q, e) bs = Some (depth1, q1, e1) \<Longrightarrow>
     json_scan (depth + k, q, e) bs = Some (depth1 + k, q1, e1)"
proof (induction bs arbitrary: depth q e)
  case (Cons b bs)
  obtain d2 q2 e2 where s: "json_step (depth, q, e) b = Some (d2, q2, e2)"
    "json_scan (d2, q2, e2) bs = Some (depth1, q1, e1)"
    using Cons.prems by (auto simp del: json_step.simps simp: bind_eq_Some_conv)
  from json_step_shift [OF s(1), of k] Cons.IH [OF s(2)] show ?case by (simp del: json_step.simps)
qed simp

text \<open>Starting inside a string, the inside and the outside of strings are swapped to the end.\<close>

lemma json_scan_swapped:
  "json_scan (d, q, False) bs = Some (d1, q1, e1) \<Longrightarrow> json_scan (d', \<not> q, False) bs = Some (d1', q1', e1') \<Longrightarrow>
     q1' = (\<not> q1)"
proof (induction bs arbitrary: d d' q)
  case (Cons b bs)
  then have "b \<noteq> 92" by (cases q) auto
  then obtain d2 d2' q2 where "json_step (d, q, False) b = Some (d2, q2, False)"
    "json_step (d', \<not> q, False) b = Some (d2', \<not> q2, False)"
    by (cases q) auto
  with Cons.prems Cons.IH [of d2 q2 d2'] show ?case by (simp del: json_step.simps)
qed simp

lemma json_scan_first:
  "json_scan (d, True, True) (b # bs) = Some st \<Longrightarrow> b \<notin> {123, 91, 32, 9, 10, 13}"
  by (auto split: if_splits)

text \<open>So no proper suffix of a compact object reads as an object or an array.\<close>

lemma json_suffix_unreadable:
  assumes "json_object t" and "0 < n" "n < length t"
  shows "\<not> json_composite (drop n t)"
proof
  assume comp: "json_composite (drop n t)"
  have "case json_scan (0, False, False) (take n t) of None \<Rightarrow> False | Some (depth, _, _) \<Rightarrow> 0 < depth"
    using assms unfolding json_object_def list_all_iff by simp
  then obtain d q e where pre: "json_scan (0, False, False) (take n t) = Some (d, q, e)" and d: "0 < d"
    by (auto split: option.splits)
  have "json_scan (0, False, False) (take n t @ drop n t) = Some (0, False, False)"
    using assms(1) by (simp add: json_object_def)
  then have whole: "json_scan (d, q, e) (drop n t) = Some (0, False, False)"
    unfolding json_scan_append pre by simp
  have own: "json_scan (0, False, False) (drop n t) = Some (0, False, False)"
    and hd: "hd (drop n t) \<in> {123, 91, 32, 9, 10, 13}" "drop n t \<noteq> []"
    using comp by (simp_all add: json_composite_def)
  show False
  proof (cases q)
    case False
    have "e = False"
    proof (rule ccontr)
      assume "e \<noteq> False"
      moreover have "\<not> (\<not> q1 \<and> e1)" if "json_scan (d0, q0, e0) bs = Some (d1, q1, e1)" "\<not> (\<not> q0 \<and> e0)"
        for d0 q0 e0 d1 q1 e1 bs
        using that
      proof (induction bs arbitrary: d0 q0 e0)
        case (Cons b bs)
        then show ?case by (auto split: if_splits simp: bind_eq_Some_conv)
      qed simp
      ultimately show False using pre False by blast
    qed
    then show False using whole json_scan_shift [OF own, of d] False d by simp
  next
    case q: True
    show False
    proof (cases e)
      case True
      then show False using whole q hd json_scan_first [of d "hd (drop n t)" "tl (drop n t)"] by simp
    next
      case False
      then show False using json_scan_swapped [of d True "drop n t" 0 False False 0 0 False False] whole own q by simp
    qed
  qed
qed

lemma finish_suffix:
  assumes "json_contract J" "json_grammar J" "js_encode J f = Inr t" "0 < n" "n \<le> length t"
  shows "\<exists>e. fst (finish_frame J (drop n t)) = Inl e"
proof (cases "n = length t")
  case True
  then show ?thesis by (simp add: finish_frame_def)
next
  case False
  have "CR \<notin> set (drop n t)" using assms(1,3) by (auto simp: json_contract_def dest: in_set_dropD)
  then have "drop n t \<noteq> [] \<Longrightarrow> last (drop n t) \<noteq> CR" by (metis last_in_set)
  moreover have "\<not> json_composite (drop n t)"
    using json_suffix_unreadable assms(2-5) False by (simp add: json_grammar_def)
  then have "\<exists>e. js_decode J (drop n t) = Inl e"
    using assms(2) unfolding json_grammar_def by (cases "js_decode J (drop n t)") auto
  ultimately show ?thesis using False assms(5) by (auto simp: finish_frame_def Let_def)
qed

text \<open>A receive that refuses a complete line within the bound still moves on to the next line.\<close>

lemma channel_receive_skips:
  assumes "chunks_of (ch_reader c) cs" and "LF \<in> set (concat cs)"
    and "length (takeWhile (\<lambda>b. b \<noteq> LF) (concat cs)) \<le> ch_max_frame_bytes c"
  shows "\<exists>cs'. chunks_of (ch_reader (fst (channel_receive J c))) cs' \<and> concat cs' = after_line (concat cs)"
proof -
  have c: "ch_reader c = map Inr cs" "[] \<notin> set cs" using assms(1) by (simp_all add: chunks_of_def)
  from receive_loop_refines [OF c(2), of "[]" "ch_max_frame_bytes c" J] assms(2,3)
  show ?thesis by (auto simp: channel_receive_def chunks_of_def c(1) split: prod.splits)
qed

text \<open>
  C40. Receiving is not safe to abandon, and the program abandons it. Suppose the stream holds an encoded
  frame, its line feed and whatever follows, and the timeout strikes when at least one byte of the frame
  and not yet its line feed has arrived. An undisturbed receive would have returned the frame. The
  abandoned one reports nothing, the next receive fails on the rest of the line, and after that failure
  the channel reads on at the byte behind the line feed, as a fresh receive would after the frame: the
  frame itself is never delivered. The JSON codec enters by its round trip and by the grammar of JSON.
\<close>

theorem abandoned_receive_loses_bytes:
  assumes "json_contract J" and "json_grammar J" and "js_encode J f = Inr encoded"
    and "wf_protocol f = WIRE_PROTOCOL" and "length encoded \<le> ch_max_frame_bytes c"
    and "chunks_of (ch_reader c) cs" and "concat cs = encoded @ LF # rest"
    and "0 < length (concat (take k cs))" and "length (concat (take k cs)) \<le> length encoded"
  shows "snd (channel_receive J c) = Inr (Some f)
     \<and> (\<exists>c' c'' e cs'. channel_poll J k c = (c', None) \<and> channel_receive J c' = (c'', Inl e)
          \<and> chunks_of (ch_reader c'') cs' \<and> concat cs' = rest
          \<and> snd (channel_receive J c'') = receive_spec J (ch_max_frame_bytes c) rest)"
proof -
  let ?n = "length (concat (take k cs))"
  have split: "concat (take k cs) @ concat (drop k cs) = encoded @ LF # rest"
    using assms(7) by (metis append_take_drop_id concat_append)
  then have "concat (take k cs) = take ?n (encoded @ LF # rest)"
    and "concat (drop k cs) = drop ?n (encoded @ LF # rest)"
    by (metis append_eq_conv_conj)+
  then have parts: "concat (take k cs) = take ?n encoded"
    "concat (drop k cs) = drop ?n encoded @ LF # rest"
    using assms(9) by simp_all
  have nl: "LF \<notin> set encoded" using assms(1,3) by (auto simp: json_contract_def)
  then have "LF \<notin> set (concat (take k cs))" using parts(1) by (metis in_set_takeD)
  then have poll: "channel_poll J k c
      = (c\<lparr>ch_reader := map Inr (drop k cs), ch_read_buffer := concat (take k cs)\<rparr>, None)" (is "_ = (?c', None)")
    using abandoned_receive [OF assms(6)] assms(5,9) by simp
  have "[] \<notin> set cs" using assms(6) by (simp add: chunks_of_def)
  then have c': "chunks_of (ch_reader ?c') (drop k cs)" by (auto simp: chunks_of_def dest: in_set_dropD)
  have "LF \<notin> set (drop ?n encoded)" using nl by (meson in_set_dropD)
  then have line: "takeWhile (\<lambda>b. b \<noteq> LF) (concat (drop k cs)) = drop ?n encoded"
    "after_line (concat (drop k cs)) = rest" "LF \<in> set (concat (drop k cs))"
    unfolding parts(2) by (simp_all add: takeWhile_none after_line_def dropWhile_none)
  have bound: "\<not> ch_max_frame_bytes c < length (drop ?n encoded)" using assms(5) by simp
  obtain e where e: "fst (finish_frame J (drop ?n encoded)) = Inl e"
    using finish_suffix [OF assms(1-3,8,9)] by blast
  have "snd (channel_receive J ?c') = Inl e"
    using channel_receive_step(1) [OF c', of J] line bound e by (simp add: receive_spec_def Let_def del: length_drop)
  then obtain c'' where c'': "channel_receive J ?c' = (c'', Inl e)" by (metis surjective_pairing)
  have "\<exists>cs'. chunks_of (ch_reader c'') cs' \<and> concat cs' = rest"
    using channel_receive_skips [OF c', of J] line assms(5) c'' by simp
  moreover have "ch_max_frame_bytes c'' = ch_max_frame_bytes c"
    using channel_receive_step(3) [OF c', of J] c'' by simp
  moreover have "snd (channel_receive J c) = Inr (Some f)"
    using channel_receive_step(1) [OF assms(6), of J] receive_sent(1) [OF assms(1,3-5)] by (simp add: assms(7))
  ultimately show ?thesis using poll c'' channel_receive_step(1) by metis
qed

text \<open>A codec that writes every frame as an empty object.\<close>

definition object_json :: json_api where
  "object_json = \<lparr>js_encode = (\<lambda>f. if f = toy_frame then Inr [123, 125] else Inl ''no''),
     js_decode = (\<lambda>bs. if bs = [123, 125] then Inr toy_frame else Inl ''no'')\<rparr>"

lemma object_json_contracts: "json_contract object_json" "json_grammar object_json"
  by (simp_all add: json_contract_def json_grammar_def json_object_def json_composite_def object_json_def
      LF_def CR_def upt_rec)

lemma abandoned_receive_loses_bytes_witness:
  "\<exists>c' c'' e. channel_poll object_json 1 (toy_channel [[123], [125, 10], [123, 125, 10]]) = (c', None)
     \<and> channel_receive object_json c' = (c'', Inl e)
     \<and> snd (channel_receive object_json c'') = Inr (Some toy_frame)"
proof -
  let ?cs = "[[123], [125, 10], [123, 125, 10]] :: bytes list"
  have enc: "js_encode object_json toy_frame = Inr [123, 125]" "wf_protocol toy_frame = WIRE_PROTOCOL"
    by (simp_all add: object_json_def toy_frame_def)
  have "chunks_of (ch_reader (toy_channel ?cs)) ?cs" by (simp add: chunks_of_def)
  from abandoned_receive_loses_bytes [OF object_json_contracts enc _ this, of "[123, 125, 10]" 1]
  obtain c' c'' e where "channel_poll object_json 1 (toy_channel ?cs) = (c', None)"
    "channel_receive object_json c' = (c'', Inl e)"
    "snd (channel_receive object_json c'') = receive_spec object_json DEFAULT_MAX_FRAME_BYTES [123, 125, 10]"
    by (auto simp: DEFAULT_MAX_FRAME_BYTES_def LF_def)
  moreover have "receive_spec object_json DEFAULT_MAX_FRAME_BYTES [123, 125, 10] = Inr (Some toy_frame)"
    using receive_sent(1) [OF object_json_contracts(1) enc, of DEFAULT_MAX_FRAME_BYTES "[]"]
    by (simp add: LF_def DEFAULT_MAX_FRAME_BYTES_def)
  ultimately show ?thesis by auto
qed

end
