(* ===== verification/Worker.thy ===== *)
theory Worker
  imports Worker_Evidence Agent_Policy Channel Agent
begin

section \<open>The worker's control loop\<close>

text \<open>
  \<open>run_agent\<close> of \<open>crates/mcp-loadtest-cli/src/distributed/worker.rs\<close>: greet the controller, take one
  prepare frame through the local policy, then loop: announce readiness once, send a heartbeat when one
  is due, finish when the engine's task has, and otherwise wait a moment for a control frame. The clock,
  the engine's task and the channel are the environment: each pass of the loop takes a \<open>worker_tick\<close>
  that says what they answered. \<open>send\<close> is the outcome of writing a frame (the channel refuses a frame
  that is too large, and the pipe can fail); \<open>configure\<close> stands for building the engine's configuration
  from the authorized target, of which the loop only uses whether it succeeded.
\<close>

datatype worker_error =
    WE_Channel channel_error
  | WE_State agent_state_error
  | WE_Evidence evidence_error
  | WE_ClosedBeforePrepare
  | WE_NotPrepare
  | WE_PolicyRejected
  | WE_Config string
  | WE_Engine string
  | WE_NotStarted
  | WE_GateStopped
  | WE_DuplicatePrepare
  | WE_ControllerClosed

datatype worker_status = Worker_Continues | Worker_Stops "worker_error + unit"

datatype worker_poll = WPoll_Frame wire_frame | WPoll_Eof | WPoll_Error channel_error | WPoll_Elapsed

datatype engine_result = Engine_Failed string | Engine_Done scenario_outcome "gate_timing option"

record worker_tick =
  wt_readiness :: "traffic_readiness option"
  wt_now :: nat
  wt_after_beat :: nat
  wt_engine :: "engine_result option"
  wt_poll :: worker_poll
  wt_gate_open :: bool
  wt_close :: "channel_error + unit"

text \<open>The locals of \<open>run_agent\<close> that the loop changes, and \<open>prepare\<close>.\<close>

record worker =
  wk_machine :: agent_machine
  wk_prepare :: prepare_frame
  wk_sent_ready :: bool
  wk_heartbeat_sequence :: u64
  wk_next_heartbeat :: nat
  wk_start :: "duration option"

type_synonym sender = "wire_frame \<Rightarrow> channel_error + unit"
type_synonym builder = "agent_shard \<Rightarrow> scenario_outcome \<Rightarrow> gate_timing \<Rightarrow> evidence_error + agent_evidence"
type_synonym worker_result = "worker \<times> wire_frame list \<times> worker_status"

definition saturating_inc :: "u64 \<Rightarrow> u64" where
  "saturating_inc w = (if w = - 1 then w else w + 1)"

text \<open>\<open>channel.send(&state.operation(..)?).await?\<close>.\<close>

definition worker_send :: "sender \<Rightarrow> worker \<Rightarrow> agent_state_error + wire_frame \<Rightarrow> worker_result" where
  "worker_send send w r =
     (case r of Inl e \<Rightarrow> (w, [], Worker_Stops (Inl (WE_State e)))
      | Inr frame \<Rightarrow>
          (case send frame of Inl e \<Rightarrow> (w, [], Worker_Stops (Inl (WE_Channel e)))
           | Inr _ \<Rightarrow> (w, [frame], Worker_Continues)))"

text \<open>One part of the loop's body after another, unless the first one leaves the loop.\<close>

definition then_part :: "(worker \<Rightarrow> worker_result) \<Rightarrow> (worker \<Rightarrow> worker_result) \<Rightarrow> worker \<Rightarrow> worker_result" where
  "then_part p q w =
     (case p w of
        (w', fs, Worker_Continues) \<Rightarrow> (case q w' of (w'', fs', status) \<Rightarrow> (w'', fs @ fs', status))
      | r \<Rightarrow> r)"

text \<open>\<open>channel.close().await?; return Ok(())\<close>.\<close>

definition close_part :: "worker_tick \<Rightarrow> worker \<Rightarrow> worker_result" where
  "close_part t w = (w, [], Worker_Stops (map_err WE_Channel (wt_close t)))"

subsection \<open>The parts of the loop's body\<close>

definition ready_part :: "sender \<Rightarrow> worker_tick \<Rightarrow> worker \<Rightarrow> worker_result" where
  "ready_part send t w =
     (if wk_sent_ready w then (w, [], Worker_Continues)
      else case wt_readiness t of
        None \<Rightarrow> (w, [], Worker_Continues)
      | Some readiness \<Rightarrow>
          (case mark_ready (wk_machine w)
              \<lparr>rf_job_id = pf_job_id (wk_prepare w), rf_agent_name = sh_agent_name (pf_shard (wk_prepare w)),
               rf_live_workers = tr_live_workers readiness,
               rf_requested_workers = tr_requested_workers readiness,
               rf_tool_inventory_hash = tr_tool_inventory_hash readiness,
               rf_target_protocol_version = tr_target_protocol_version readiness\<rparr> of
             (m, r) \<Rightarrow> then_part (\<lambda>w. worker_send send w r)
               (\<lambda>w. (w\<lparr>wk_sent_ready := True\<rparr>, [], Worker_Continues)) (w\<lparr>wk_machine := m\<rparr>)))"

definition beat_part :: "sender \<Rightarrow> worker_tick \<Rightarrow> worker \<Rightarrow> worker_result" where
  "beat_part send t w =
     (if wt_now t < wk_next_heartbeat w then (w, [], Worker_Continues)
      else
        let sequence = saturating_inc (wk_heartbeat_sequence w) in
        then_part (\<lambda>w. worker_send send w (agent_heartbeat (wk_machine w) sequence))
          (\<lambda>w. (w\<lparr>wk_next_heartbeat :=
             wt_after_beat t + from_millis (pf_heartbeat_interval_ms (wk_prepare w))\<rparr>, [], Worker_Continues))
          (w\<lparr>wk_heartbeat_sequence := sequence\<rparr>))"

definition finish_part :: "sender \<Rightarrow> builder \<Rightarrow> worker_tick \<Rightarrow> worker \<Rightarrow> worker_result" where
  "finish_part send build t w =
     (case wt_engine t of
        None \<Rightarrow> (w, [], Worker_Continues)
      | Some (Engine_Failed e) \<Rightarrow> (w, [], Worker_Stops (Inl (WE_Engine e)))
      | Some (Engine_Done outcome None) \<Rightarrow> (w, [], Worker_Stops (Inl WE_NotStarted))
      | Some (Engine_Done outcome (Some timing)) \<Rightarrow>
          (case build (pf_shard (wk_prepare w)) outcome timing of
             Inl e \<Rightarrow> (w, [], Worker_Stops (Inl (WE_Evidence e)))
           | Inr evidence \<Rightarrow>
               (case agent_finish (wk_machine w) evidence of
                  (m, r) \<Rightarrow> then_part (\<lambda>w. worker_send send w r) (close_part t) (w\<lparr>wk_machine := m\<rparr>))))"

definition control_part :: "sender \<Rightarrow> worker_tick \<Rightarrow> worker \<Rightarrow> worker_result" where
  "control_part send t w =
     (case wt_poll t of
        WPoll_Frame frame \<Rightarrow>
          (case agent_accept (wk_machine w) frame of
             (m, Inl e) \<Rightarrow> (w\<lparr>wk_machine := m\<rparr>, [], Worker_Stops (Inl (WE_State e)))
           | (m, Inr (Do_Start start)) \<Rightarrow>
               if wt_gate_open t
               then (w\<lparr>wk_machine := m, wk_start := Some (from_millis (sf_start_after_ms start))\<rparr>, [], Worker_Continues)
               else (w\<lparr>wk_machine := m\<rparr>, [], Worker_Stops (Inl WE_GateStopped))
           | (m, Inr (Do_Cancel cancel)) \<Rightarrow>
               (case agent_cancelled m (cf_reason cancel) of
                  (m', r) \<Rightarrow> then_part (\<lambda>w. worker_send send w r) (close_part t) (w\<lparr>wk_machine := m'\<rparr>))
           | (m, Inr (Do_Prepare _)) \<Rightarrow> (w\<lparr>wk_machine := m\<rparr>, [], Worker_Stops (Inl WE_DuplicatePrepare)))
      | WPoll_Eof \<Rightarrow> (w, [], Worker_Stops (Inl WE_ControllerClosed))
      | WPoll_Error e \<Rightarrow> (w, [], Worker_Stops (Inl (WE_Channel e)))
      | WPoll_Elapsed \<Rightarrow> (w, [], Worker_Continues))"

definition worker_pass :: "sender \<Rightarrow> builder \<Rightarrow> worker_tick \<Rightarrow> worker \<Rightarrow> worker_result" where
  "worker_pass send build t =
     then_part (ready_part send t) (then_part (beat_part send t)
       (then_part (finish_part send build t) (control_part send t)))"

fun worker_loop :: "sender \<Rightarrow> builder \<Rightarrow> worker_tick list \<Rightarrow> worker \<Rightarrow> worker_result" where
  "worker_loop send build [] w = (w, [], Worker_Continues)"
| "worker_loop send build (t # ts) w =
     then_part (worker_pass send build t) (worker_loop send build ts) w"

subsection \<open>Before the loop\<close>

definition worker_hello :: "string \<Rightarrow> agent_policy \<Rightarrow> hello_frame" where
  "worker_hello version policy = \<lparr>hf_agent_name = None, hf_binary_version = version,
     hf_scenarios = [Scenario_Sustained, Scenario_Pattern], hf_max_concurrency = pol_max_concurrency policy\<rparr>"

text \<open>From the first frame to the loop: the worker it enters with, or why it stops.\<close>

definition worker_begin ::
  "sender \<Rightarrow> (string \<Rightarrow> string + url) \<Rightarrow> agent_policy \<Rightarrow> (remote_target \<Rightarrow> agent_workload_plan \<Rightarrow> string + unit)
     \<Rightarrow> nat \<Rightarrow> agent_machine \<Rightarrow> channel_error + wire_frame option
     \<Rightarrow> wire_frame list \<times> (worker_error + worker)" where
  "worker_begin send parse policy configure now machine received =
     (case received of
        Inl e \<Rightarrow> ([], Inl (WE_Channel e))
      | Inr None \<Rightarrow> ([], Inl WE_ClosedBeforePrepare)
      | Inr (Some frame) \<Rightarrow>
          (case agent_accept machine frame of
             (m, Inl e) \<Rightarrow> ([], Inl (WE_State e))
           | (m, Inr (Do_Prepare prepare)) \<Rightarrow>
               (case authorize parse policy prepare of
                  Inl _ \<Rightarrow>
                    (case agent_fail m ''policy_denied''
                        ''worker policy rejected the distributed target or workload'' False of
                       (m', Inl e) \<Rightarrow> ([], Inl (WE_State e))
                     | (m', Inr denied) \<Rightarrow>
                         (case send denied of Inl e \<Rightarrow> ([], Inl (WE_Channel e))
                          | Inr _ \<Rightarrow> ([denied], Inl WE_PolicyRejected)))
                | Inr target \<Rightarrow>
                    (case configure target (pf_plan prepare) of
                       Inl e \<Rightarrow> ([], Inl (WE_Config e))
                     | Inr _ \<Rightarrow> ([], Inr \<lparr>wk_machine = m, wk_prepare = prepare, wk_sent_ready = False,
                         wk_heartbeat_sequence = 0,
                         wk_next_heartbeat = now + from_millis (pf_heartbeat_interval_ms prepare),
                         wk_start = None\<rparr>)))
           | (m, Inr _) \<Rightarrow> ([], Inl WE_NotPrepare)))"

subsection \<open>What a worker says\<close>

text \<open>
  The worker's side of the conversation as an automaton over the frames it sends: heartbeats are
  numbered one after another, readiness is announced once, and the final result (only after readiness)
  or the acknowledged cancellation is the last word. Every frame carries the job's id, and names the
  agent it was prepared as.
\<close>

datatype said = Said_Hello | Said_Ready | Said_Goodbye

fun speak :: "string \<Rightarrow> string \<Rightarrow> said \<times> u64 \<Rightarrow> wire_message \<Rightarrow> (said \<times> u64) option" where
  "speak job name (s, n) (Msg_Heartbeat b) =
     (if s \<noteq> Said_Goodbye \<and> bf_job_id b = job \<and> bf_sequence b = saturating_inc n
      then Some (s, bf_sequence b) else None)"
| "speak job name (s, n) (Msg_Ready r) =
     (if s = Said_Hello \<and> rf_job_id r = job \<and> rf_agent_name r = name then Some (Said_Ready, n) else None)"
| "speak job name (s, n) (Msg_Finished f) =
     (if s = Said_Ready \<and> ff_job_id f = job \<and> evidence_of name (ff_evidence f)
      then Some (Said_Goodbye, n) else None)"
| "speak job name (s, n) (Msg_Cancelled c) =
     (if s \<noteq> Said_Goodbye \<and> df_job_id c = job then Some (Said_Goodbye, n) else None)"
| "speak job name _ _ = None"

fun speaks :: "string \<Rightarrow> string \<Rightarrow> said \<times> u64 \<Rightarrow> wire_frame list \<Rightarrow> (said \<times> u64) option" where
  "speaks job name s [] = Some s"
| "speaks job name s (f # fs) =
     (if wf_protocol f = WIRE_PROTOCOL
      then Option.bind (speak job name s (wf_message f)) (\<lambda>s'. speaks job name s' fs) else None)"

lemma speaks_append:
  "speaks job name s (fs @ gs) = Option.bind (speaks job name s fs) (\<lambda>s'. speaks job name s' gs)"
proof (induction fs arbitrary: s)
  case (Cons f fs)
  then show ?case by (cases "speak job name s (wf_message f)") simp_all
qed simp

text \<open>A worker in its loop: its machine's phase follows from what it has said and heard.\<close>

definition worker_ok :: "worker \<Rightarrow> bool" where
  "worker_ok w \<longleftrightarrow> am_job_id (wk_machine w) = Some (pf_job_id (wk_prepare w))
     \<and> am_bound_agent_name (wk_machine w) = Some (sh_agent_name (pf_shard (wk_prepare w)))
     \<and> am_phase (wk_machine w) = (if \<not> wk_sent_ready w then Agent_Preparing
          else if wk_start w = None then Agent_Ready else Agent_Running)
     \<and> (\<not> wk_sent_ready w \<longrightarrow> wk_start w = None)"

definition spoken :: "worker \<Rightarrow> said \<times> u64" where
  "spoken w = (if wk_sent_ready w then Said_Ready else Said_Hello, wk_heartbeat_sequence w)"

definition worker_speaks :: "worker \<Rightarrow> said \<times> u64 \<Rightarrow> wire_frame list \<Rightarrow> (said \<times> u64) option" where
  "worker_speaks w = speaks (pf_job_id (wk_prepare w)) (sh_agent_name (pf_shard (wk_prepare w)))"

text \<open>A part of the loop keeps the worker in order, and ends it with an answer only after its last word.\<close>

definition speech_ok :: "worker \<Rightarrow> worker_result \<Rightarrow> bool" where
  "speech_ok w res =
     (case res of
        (w', fs, Worker_Continues) \<Rightarrow> wk_prepare w' = wk_prepare w \<and> worker_ok w'
          \<and> worker_speaks w (spoken w) fs = Some (spoken w')
      | (w', fs, Worker_Stops r) \<Rightarrow> (\<exists>s. worker_speaks w (spoken w) fs = Some s
          \<and> (r = Inr () \<longrightarrow> fst s = Said_Goodbye)))"

definition part_ok :: "(worker \<Rightarrow> worker_result) \<Rightarrow> bool" where
  "part_ok p \<longleftrightarrow> (\<forall>w. worker_ok w \<longrightarrow> speech_ok w (p w))"

lemma speech_ok_idle: "worker_ok w \<Longrightarrow> speech_ok w (w, [], Worker_Continues)"
  by (simp add: speech_ok_def worker_speaks_def)

lemma speech_ok_abort [simp]: "speech_ok w (w', [], Worker_Stops (Inl e))"
  by (simp add: speech_ok_def worker_speaks_def)

lemma then_part_ok:
  assumes p: "part_ok p" and q: "part_ok q"
  shows "part_ok (then_part p q)"
  unfolding part_ok_def
proof (intro allI impI)
  fix w
  assume w: "worker_ok w"
  obtain w' fs status where r: "p w = (w', fs, status)" by (cases "p w") auto
  have ok: "speech_ok w (w', fs, status)" using p w r unfolding part_ok_def by metis
  show "speech_ok w (then_part p q w)"
  proof (cases status)
    case Worker_Continues
    then have w': "wk_prepare w' = wk_prepare w" "worker_ok w'"
      "worker_speaks w (spoken w) fs = Some (spoken w')"
      using ok by (simp_all add: speech_ok_def)
    obtain w'' gs status' where r': "q w' = (w'', gs, status')" by (cases "q w'") auto
    have "speech_ok w' (w'', gs, status')" using q w'(2) r' unfolding part_ok_def by metis
    moreover have "worker_speaks w (spoken w) (fs @ gs) = worker_speaks w' (spoken w') gs"
      using w' by (simp add: worker_speaks_def speaks_append)
    ultimately show ?thesis
      using w'(1) by (cases status') (simp_all add: then_part_def r r' Worker_Continues speech_ok_def)
  qed (use ok in \<open>simp add: then_part_def r\<close>)
qed

lemma then_send:
  "then_part (\<lambda>w. worker_send send w (r w)) k w =
     (case r w of Inl e \<Rightarrow> (w, [], Worker_Stops (Inl (WE_State e)))
      | Inr frame \<Rightarrow>
          (case send frame of Inl e \<Rightarrow> (w, [], Worker_Stops (Inl (WE_Channel e)))
           | Inr _ \<Rightarrow> (case k w of (w'', fs, status) \<Rightarrow> (w'', frame # fs, status))))"
  by (auto simp: then_part_def worker_send_def split: sum.splits prod.splits)

lemma ready_part_ok: "part_ok (ready_part send t)"
  unfolding part_ok_def
proof (intro allI impI)
  fix w
  assume w: "worker_ok w"
  show "speech_ok w (ready_part send t w)"
  proof (cases "wk_sent_ready w \<or> wt_readiness t = None")
    case True
    then show ?thesis using speech_ok_idle [OF w] by (auto simp: ready_part_def split: option.splits)
  next
    case False
    then obtain rd where rd: "wt_readiness t = Some rd" "\<not> wk_sent_ready w" by auto
    have "am_phase (wk_machine w) = Agent_Preparing" using w rd by (simp add: worker_ok_def)
    then show ?thesis
      using w rd by (auto simp: ready_part_def mark_ready_def require_phase_def then_send worker_ok_def
          speech_ok_def worker_speaks_def spoken_def split: sum.splits)
  qed
qed

lemma beat_part_ok: "part_ok (beat_part send t)"
  unfolding part_ok_def
proof (intro allI impI)
  fix w
  assume w: "worker_ok w"
  then have "am_phase (wk_machine w) \<in> {Agent_Preparing, Agent_Ready, Agent_Running}"
    by (auto simp: worker_ok_def)
  then show "speech_ok w (beat_part send t w)"
    using w speech_ok_idle [OF w]
    by (auto simp: beat_part_def agent_heartbeat_def Let_def then_send worker_ok_def speech_ok_def
        worker_speaks_def spoken_def split: sum.splits if_splits)
qed

lemma finish_part_ok: "part_ok (finish_part send build t)"
  unfolding part_ok_def
proof (intro allI impI)
  fix w
  assume w: "worker_ok w"
  have "speech_ok w (case agent_finish (wk_machine w) ev of
      (m, r) \<Rightarrow> then_part (\<lambda>w. worker_send send w r) (close_part t) (w\<lparr>wk_machine := m\<rparr>))" for ev
    using w by (auto simp: agent_finish_def require_phase_def Let_def then_send close_part_def worker_ok_def
        speech_ok_def worker_speaks_def spoken_def result_iffs required_job_def split: sum.splits if_splits)
  then show "speech_ok w (finish_part send build t w)"
    using speech_ok_idle [OF w] by (auto simp: finish_part_def split: option.splits engine_result.splits sum.splits)
qed

lemma control_part_ok: "part_ok (control_part send t)"
  unfolding part_ok_def
proof (intro allI impI)
  fix w
  assume w: "worker_ok w"
  show "speech_ok w (control_part send t w)"
  proof (cases "wt_poll t")
    case (WPoll_Frame frame)
    obtain m r where acc: "agent_accept (wk_machine w) frame = (m, r)" by (cases "agent_accept (wk_machine w) frame")
    show ?thesis
    proof (cases r)
      case (Inl e)
      then show ?thesis using acc WPoll_Frame by (simp add: control_part_def)
    next
      case (Inr d)
      then have proto: "wf_protocol frame = WIRE_PROTOCOL" and acc': "agent_accept (wk_machine w) frame = (m, Inr d)"
        using acc by (auto simp: agent_accept_def keep_on_error_def result_iffs split: sum.splits)
      show ?thesis
      proof (cases d)
        case (Do_Prepare p)
        then show ?thesis using acc' WPoll_Frame by (simp add: control_part_def)
      next
        case (Do_Start s)
        have "am_phase (wk_machine w) = Agent_Ready \<and> m = (wk_machine w)\<lparr>am_phase := Agent_Running\<rparr>"
          using acc' proto unfolding Do_Start
          by (auto simp: agent_accept_def keep_on_error_def result_iffs Let_def split: sum.splits wire_message.splits if_splits)
        then show ?thesis
          using w acc' WPoll_Frame Do_Start
          by (auto simp: control_part_def worker_ok_def speech_ok_def worker_speaks_def spoken_def split: if_splits)
      next
        case (Do_Cancel c)
        have "m = (wk_machine w)\<lparr>am_phase := Agent_Cancelling\<rparr>"
          using acc' proto unfolding Do_Cancel
          by (auto simp: agent_accept_def keep_on_error_def result_iffs Let_def split: sum.splits wire_message.splits if_splits)
        then show ?thesis
          using w acc' WPoll_Frame Do_Cancel
          by (auto simp: control_part_def agent_cancelled_def require_phase_def then_send close_part_def worker_ok_def
              speech_ok_def worker_speaks_def spoken_def split: sum.splits)
      qed
    qed
  qed (use w speech_ok_idle in \<open>simp_all add: control_part_def\<close>)
qed

lemma worker_pass_ok: "part_ok (worker_pass send build t)"
  unfolding worker_pass_def
  by (intro then_part_ok ready_part_ok beat_part_ok finish_part_ok control_part_ok)

lemma worker_loop_ok: "part_ok (worker_loop send build ts)"
proof (induction ts)
  case Nil
  then show ?case by (simp add: part_ok_def speech_ok_idle)
next
  case (Cons t ts)
  have "worker_loop send build (t # ts) = then_part (worker_pass send build t) (worker_loop send build ts)"
    by (simp add: fun_eq_iff)
  then show ?case using then_part_ok [OF worker_pass_ok Cons] by simp
qed

lemma worker_begin_loop:
  assumes "worker_begin send parse policy configure now (agent_new (worker_hello version policy)) received = (fs, Inr w)"
  obtains p target where "received = Inr (Some (wire_frame_new (Msg_Prepare p)))" "authorize parse policy p = Inr target"
    "fs = []" "wk_prepare w = p" "worker_ok w" "spoken w = (Said_Hello, 0)" "wk_start w = None"
proof -
  obtain frame m p target where f: "received = Inr (Some frame)"
    "agent_accept (agent_new (worker_hello version policy)) frame = (m, Inr (Do_Prepare p))"
    "authorize parse policy p = Inr target"
    and w: "fs = []" "w = \<lparr>wk_machine = m, wk_prepare = p, wk_sent_ready = False, wk_heartbeat_sequence = 0,
      wk_next_heartbeat = now + from_millis (pf_heartbeat_interval_ms p), wk_start = None\<rparr>"
    using assms by (auto simp: worker_begin_def split: sum.splits option.splits prod.splits agent_directive.splits)
  have proto: "wf_protocol frame = WIRE_PROTOCOL"
    using f(2) by (auto simp: agent_accept_def keep_on_error_def result_iffs split: sum.splits)
  have "wf_message frame = Msg_Prepare p \<and> m = (agent_new (worker_hello version policy))
      \<lparr>am_job_id := Some (pf_job_id p), am_bound_agent_name := Some (sh_agent_name (pf_shard p)),
       am_phase := Agent_Preparing\<rparr>"
    using f(2) proto by (auto simp: agent_accept_def keep_on_error_def result_iffs Let_def agent_new_def
        split: sum.splits wire_message.splits if_splits option.splits)
  then show thesis
    using that [OF _ f(3) w(1)] f(1) frame_new_eq [OF proto] w(2)
    by (simp add: worker_ok_def spoken_def)
qed

text \<open>
  C28. Whatever its environment does, a worker keeps to its side of the protocol. A worker that entered its
  loop was given a prepare frame its policy authorized; the frames it then sends, over any sequence of
  passes, with any clock, engine result, received frame or channel failure, are numbered heartbeats of
  that job, at most one readiness announcement in that agent's name, and at most one final frame, a result
  only after readiness and with evidence of its own shard, after which it says nothing more. It ends
  without an error only after that final frame.
\<close>

theorem worker_keeps_protocol:
  assumes "worker_begin send parse policy configure now (agent_new (worker_hello version policy)) received
      = (fs0, Inr w)"
    and "worker_loop send build ts w = (w', fs, status)"
  shows "\<exists>p target said. received = Inr (Some (wire_frame_new (Msg_Prepare p)))
     \<and> authorize parse policy p = Inr target \<and> fs0 = []
     \<and> speaks (pf_job_id p) (sh_agent_name (pf_shard p)) (Said_Hello, 0) fs = Some said
     \<and> (status = Worker_Stops (Inr ()) \<longrightarrow> fst said = Said_Goodbye)"
proof -
  obtain p target where p: "received = Inr (Some (wire_frame_new (Msg_Prepare p)))"
    "authorize parse policy p = Inr target" "fs0 = []" "wk_prepare w = p" "worker_ok w"
    "spoken w = (Said_Hello, 0)"
    using assms(1) by (rule worker_begin_loop)
  have "speech_ok w (w', fs, status)"
    using worker_loop_ok [of send build ts] p(5) assms(2) unfolding part_ok_def by metis
  then have "\<exists>said. speaks (pf_job_id p) (sh_agent_name (pf_shard p)) (Said_Hello, 0) fs = Some said
      \<and> (status = Worker_Stops (Inr ()) \<longrightarrow> fst said = Said_Goodbye)"
    using p(4,6) by (cases status) (auto simp: speech_ok_def worker_speaks_def)
  with p(1,2,3) show ?thesis by blast
qed

subsection \<open>A worker that runs to the end\<close>

definition sample_build :: builder where
  "sample_build shard outcome timing =
     Inr ((gf_evidence (sample_progress 1))\<lparr>ev_agent_name := sh_agent_name shard, ev_shard := shard\<rparr>)"

definition idle_tick :: worker_tick where
  "idle_tick = \<lparr>wt_readiness = None, wt_now = 0, wt_after_beat = 0, wt_engine = None,
     wt_poll = WPoll_Elapsed, wt_gate_open = True, wt_close = Inr ()\<rparr>"

definition full_readiness :: traffic_readiness where
  "full_readiness = \<lparr>tr_live_workers = 2, tr_requested_workers = 2, tr_target_protocol_version = ''p'',
     tr_tool_inventory_hash = ''h''\<rparr>"

definition sample_start_frame :: wire_frame where
  "sample_start_frame = wire_frame_new (Msg_Start \<lparr>sf_job_id = ''job'', sf_start_after_ms = 500\<rparr>)"

text \<open>Ready at once, started by the controller, one heartbeat, then the engine's result.\<close>

definition sample_worker_ticks :: "worker_tick list" where
  "sample_worker_ticks =
     [idle_tick\<lparr>wt_readiness := Some full_readiness, wt_poll := WPoll_Frame sample_start_frame\<rparr>,
      idle_tick\<lparr>wt_now := 2 * 10 ^ 9\<rparr>,
      idle_tick\<lparr>wt_engine := Some (Engine_Done scenario_outcome_default
        (Some (gate_open full_readiness 0 0)))\<rparr>]"

lemma worker_keeps_protocol_witness:
  "\<exists>w w' fs said. worker_begin (\<lambda>_. Inr ()) sample_parse agent_policy_default (\<lambda>_ _. Inr ()) 0
       (agent_new (worker_hello ''0.2.0'' agent_policy_default))
       (Inr (Some (wire_frame_new (Msg_Prepare (sample_work ''https://example.com/''))))) = ([], Inr w)
     \<and> worker_loop (\<lambda>_. Inr ()) sample_build sample_worker_ticks w = (w', fs, Worker_Stops (Inr ()))
     \<and> speaks ''job'' ''a'' (Said_Hello, 0) fs = Some said \<and> fst said = Said_Goodbye"
proof -
  let ?p = "sample_work ''https://example.com/''"
  let ?machine = "agent_new (worker_hello ''0.2.0'' agent_policy_default)"
  let ?recv = "Inr (Some (wire_frame_new (Msg_Prepare ?p))) :: channel_error + wire_frame option"
  have p: "pf_job_id ?p = ''job''" "sh_agent_name (pf_shard ?p) = ''a''" "pf_heartbeat_interval_ms ?p = 1000"
    by (simp_all add: sample_work_def)
  obtain target where a: "authorize sample_parse agent_policy_default ?p = Inr target"
    using sample_authorized by blast
  have acc: "agent_accept ?machine (wire_frame_new (Msg_Prepare ?p))
      = (?machine\<lparr>am_job_id := Some ''job'', am_bound_agent_name := Some ''a'', am_phase := Agent_Preparing\<rparr>,
         Inr (Do_Prepare ?p))"
    by (simp add: agent_accept_def agent_new_def worker_hello_def p)
  obtain w where w: "worker_begin (\<lambda>_. Inr ()) sample_parse agent_policy_default (\<lambda>_ _. Inr ()) 0 ?machine ?recv
      = ([], Inr w)" and w': "w = \<lparr>wk_machine = ?machine\<lparr>am_job_id := Some ''job'', am_bound_agent_name := Some ''a'',
        am_phase := Agent_Preparing\<rparr>, wk_prepare = ?p, wk_sent_ready = False, wk_heartbeat_sequence = 0,
        wk_next_heartbeat = 10 ^ 9, wk_start = None\<rparr>"
    by (simp add: worker_begin_def acc a p from_millis_def)
  have "\<exists>w' fs. worker_loop (\<lambda>_. Inr ()) sample_build sample_worker_ticks w = (w', fs, Worker_Stops (Inr ()))"
    by (simp add: w' sample_worker_ticks_def worker_pass_def then_part_def ready_part_def beat_part_def finish_part_def
        control_part_def close_part_def idle_tick_def worker_send_def mark_ready_def require_phase_def
        agent_new_def p sample_start_frame_def agent_accept_def agent_heartbeat_def from_millis_def Let_def
        sample_build_def agent_finish_def)
  then obtain w' fs where r: "worker_loop (\<lambda>_. Inr ()) sample_build sample_worker_ticks w
      = (w', fs, Worker_Stops (Inr ()))" by blast
  then have "\<exists>said. speaks ''job'' ''a'' (Said_Hello, 0) fs = Some said \<and> fst said = Said_Goodbye"
    using worker_keeps_protocol [OF w r] p by (auto simp: wire_frame_new_def)
  with w r show ?thesis by blast
qed

end
