(* ===== verification/Conversation.thy ===== *)
theory Conversation
  imports Worker
begin

section \<open>Controller and workers in conversation\<close>

text \<open>
  The composition of a distributed run: the controller's job state, one worker per agent, and between
  them two reliable ordered channels per agent. The steps are operations of the components, interleaved
  arbitrarily: a worker greets, takes its prepare frame, or makes a pass of its loop; the controller takes
  the next frame of some agent, or starts a cohort that is ready. A step in which an operation of either
  side returns an error raises \<open>cv_faulty\<close>. Nobody cancels: cancellation crosses frames in flight.
\<close>

datatype worker_stage = Stage_New | Stage_Greeted | Stage_Loop worker | Stage_Done

record conversation =
  cv_job :: controller_job
  cv_stage :: "string \<Rightarrow> worker_stage"
  cv_up :: "string \<Rightarrow> wire_frame list"
  cv_down :: "string \<Rightarrow> wire_frame list"
  cv_faulty :: bool

text \<open>The workers' surroundings: binary version, policies, URL parser, configuration, evidence, target.\<close>

record setting =
  se_version :: string
  se_policy :: "string \<Rightarrow> agent_policy"
  se_parse :: "string \<Rightarrow> string + url"
  se_configure :: "remote_target \<Rightarrow> agent_workload_plan \<Rightarrow> string + unit"
  se_send :: sender
  se_build :: builder
  se_protocol :: string
  se_inventory :: string

definition worker_machine :: "setting \<Rightarrow> string \<Rightarrow> agent_machine" where
  "worker_machine E a = agent_new (worker_hello (se_version E) (se_policy E a))"

text \<open>
  A pass in good surroundings: readiness is announced with all sessions live and the target every agent
  sees; the engine only ends after the start, without an error, and having recorded its start; the
  controller's frame, if one is read, is the next one on the channel.
\<close>

definition good_tick :: "setting \<Rightarrow> worker \<Rightarrow> wire_frame list \<Rightarrow> worker_tick \<Rightarrow> bool" where
  "good_tick E w incoming t \<longleftrightarrow>
     (\<forall>rd. wt_readiness t = Some rd \<longrightarrow>
        tr_live_workers rd = tr_requested_workers rd
        \<and> tr_requested_workers rd = sh_concurrency (pf_shard (wk_prepare w))
        \<and> tr_target_protocol_version rd = se_protocol E \<and> tr_tool_inventory_hash rd = se_inventory E)
     \<and> (\<forall>r. wt_engine t = Some r \<longrightarrow> wk_start w \<noteq> None \<and> (\<exists>o' timing. r = Engine_Done o' (Some timing)))
     \<and> (wt_poll t = WPoll_Elapsed \<or> incoming \<noteq> [] \<and> wt_poll t = WPoll_Frame (hd incoming))
     \<and> wt_gate_open t \<and> wt_close t = Inr ()"

definition unread :: "worker_tick \<Rightarrow> wire_frame list \<Rightarrow> wire_frame list" where
  "unread t incoming = (if wt_poll t = WPoll_Elapsed then incoming else tl incoming)"

definition fault :: "conversation \<Rightarrow> conversation" where
  "fault s = s\<lparr>cv_faulty := True\<rparr>"

definition after_begin :: "conversation \<Rightarrow> string \<Rightarrow> wire_frame list \<times> (worker_error + worker) \<Rightarrow> conversation" where
  "after_begin s a res =
     (case res of
        (out, Inl e) \<Rightarrow> fault s
      | (out, Inr w) \<Rightarrow> s\<lparr>cv_stage := (cv_stage s)(a := Stage_Loop w),
          cv_up := (cv_up s)(a := cv_up s a @ out), cv_down := (cv_down s)(a := tl (cv_down s a))\<rparr>)"

definition after_pass :: "conversation \<Rightarrow> string \<Rightarrow> worker_tick \<Rightarrow> worker_result \<Rightarrow> conversation" where
  "after_pass s a t res =
     (case res of
        (w, out, Worker_Continues) \<Rightarrow> s\<lparr>cv_stage := (cv_stage s)(a := Stage_Loop w),
          cv_up := (cv_up s)(a := cv_up s a @ out), cv_down := (cv_down s)(a := unread t (cv_down s a))\<rparr>
      | (w, out, Worker_Stops (Inr _)) \<Rightarrow> s\<lparr>cv_stage := (cv_stage s)(a := Stage_Done),
          cv_up := (cv_up s)(a := cv_up s a @ out)\<rparr>
      | (w, out, Worker_Stops (Inl e)) \<Rightarrow> fault s)"

definition after_accept :: "conversation \<Rightarrow> string \<Rightarrow> controller_job \<times> accept_result \<Rightarrow> conversation" where
  "after_accept s a res =
     (case res of
        (j, Inl e) \<Rightarrow> fault s
      | (j, Inr response) \<Rightarrow> s\<lparr>cv_job := j, cv_up := (cv_up s)(a := tl (cv_up s a)),
          cv_down := (cv_down s)(a := cv_down s a @ (case response of None \<Rightarrow> [] | Some f \<Rightarrow> [f]))\<rparr>)"

definition after_start ::
  "conversation \<Rightarrow> controller_job \<times> (controller_state_error + (string \<times> wire_frame) list) \<Rightarrow> conversation" where
  "after_start s res =
     (case res of
        (j, Inl e) \<Rightarrow> fault s
      | (j, Inr starts) \<Rightarrow> s\<lparr>cv_job := j, cv_down := (\<lambda>a. cv_down s a @ map snd (filter (\<lambda>m. fst m = a) starts))\<rparr>)"

inductive talk :: "setting \<Rightarrow> conversation \<Rightarrow> conversation \<Rightarrow> bool" for E where
  greet: "a \<in> dom (bt_get (cj_agents (cv_job s))) \<Longrightarrow> cv_stage s a = Stage_New \<Longrightarrow>
    talk E s (s\<lparr>cv_stage := (cv_stage s)(a := Stage_Greeted),
      cv_up := (cv_up s)(a := cv_up s a @ [agent_hello (worker_machine E a)])\<rparr>)"
| prepare: "cv_stage s a = Stage_Greeted \<Longrightarrow> cv_down s a \<noteq> [] \<Longrightarrow>
    talk E s (after_begin s a (worker_begin (se_send E) (se_parse E) (se_policy E a) (se_configure E) now
      (worker_machine E a) (Inr (Some (hd (cv_down s a))))))"
| pass: "cv_stage s a = Stage_Loop w \<Longrightarrow> good_tick E w (cv_down s a) t \<Longrightarrow>
    talk E s (after_pass s a t (worker_pass (se_send E) (se_build E) t w))"
| hear: "cv_up s a \<noteq> [] \<Longrightarrow>
    talk E s (after_accept s a (controller_accept (cv_job s) a (hd (cv_up s a))))"
| start: "all_ready (cv_job s) \<Longrightarrow> talk E s (after_start s (start_all (cv_job s) ms))"

definition curtain_up :: "controller_job \<Rightarrow> conversation" where
  "curtain_up j = \<lparr>cv_job = j, cv_stage = (\<lambda>_. Stage_New), cv_up = (\<lambda>_. []), cv_down = (\<lambda>_. []), cv_faulty = False\<rparr>"

text \<open>The surroundings in which a cohort can run at all.\<close>

definition good_setting :: "setting \<Rightarrow> bool" where
  "good_setting E \<longleftrightarrow> (\<forall>f. se_send E f = Inr ()) \<and> se_protocol E \<noteq> [] \<and> se_inventory E \<noteq> []
     \<and> (\<forall>shard o' timing. \<exists>ev. se_build E shard o' timing = Inr ev \<and> evidence_of (sh_agent_name shard) ev)"

text \<open>The worker of that name is willing and able to take the job.\<close>

definition admits :: "setting \<Rightarrow> string \<Rightarrow> prepare_frame \<Rightarrow> bool" where
  "admits E a p \<longleftrightarrow> (\<exists>target. authorize (se_parse E) (se_policy E a) p = Inr target
     \<and> se_configure E target (pf_plan p) = Inr ())"

subsection \<open>A worker's pass\<close>

text \<open>A frame the controller has no reason to refuse: readiness at full strength for the target all agents see.\<close>

definition full_frame :: "setting \<Rightarrow> prepare_frame \<Rightarrow> wire_frame \<Rightarrow> bool" where
  "full_frame E p f \<longleftrightarrow>
     (case wf_message f of
        Msg_Ready r \<Rightarrow> rf_live_workers r = rf_requested_workers r
          \<and> rf_requested_workers r = sh_concurrency (pf_shard p)
          \<and> rf_target_protocol_version r = se_protocol E \<and> rf_tool_inventory_hash r = se_inventory E
      | Msg_Cancelled _ \<Rightarrow> False
      | _ \<Rightarrow> True)"

abbreviation start_frame_of :: "string \<Rightarrow> u64 \<Rightarrow> wire_frame" where
  "start_frame_of job ms \<equiv> wire_frame_new (Msg_Start \<lparr>sf_job_id = job, sf_start_after_ms = ms\<rparr>)"

lemma good_ready_part:
  assumes "\<And>f. se_send E f = Inr ()" and w: "worker_ok w" and "good_tick E w incoming t"
  shows "\<exists>w' out. ready_part (se_send E) t w = (w', out, Worker_Continues) \<and> wk_start w' = wk_start w
     \<and> wk_prepare w' = wk_prepare w \<and> list_all (full_frame E (wk_prepare w)) out
     \<and> (wk_sent_ready w \<longrightarrow> w' = w \<and> out = [])"
proof (cases "wk_sent_ready w \<or> wt_readiness t = None")
  case False
  then obtain rd where rd: "wt_readiness t = Some rd" "\<not> wk_sent_ready w" by auto
  have "am_phase (wk_machine w) = Agent_Preparing" using w rd by (simp add: worker_ok_def)
  then show ?thesis
    using w rd assms(1,3) by (simp add: ready_part_def mark_ready_def require_phase_def then_send worker_ok_def
        good_tick_def full_frame_def)
qed (auto simp: ready_part_def split: option.splits)

lemma good_beat_part:
  assumes "\<And>f. se_send E f = Inr ()" and w: "worker_ok w"
  shows "\<exists>w' out. beat_part (se_send E) t w = (w', out, Worker_Continues) \<and> wk_start w' = wk_start w
     \<and> wk_prepare w' = wk_prepare w \<and> wk_sent_ready w' = wk_sent_ready w
     \<and> list_all (full_frame E (wk_prepare w)) out"
proof -
  have "am_phase (wk_machine w) \<in> {Agent_Preparing, Agent_Ready, Agent_Running}"
    using w by (auto simp: worker_ok_def)
  then show ?thesis
    using w assms(1) by (simp add: beat_part_def agent_heartbeat_def Let_def then_send worker_ok_def full_frame_def)
qed

lemma good_finish_part:
  assumes "\<And>f. se_send E f = Inr ()" and w: "worker_ok w" and t: "wt_engine t \<noteq> None \<longrightarrow> wk_start w \<noteq> None"
    and e: "\<And>r. wt_engine t = Some r \<Longrightarrow> \<exists>o' timing. r = Engine_Done o' (Some timing)" and "wt_close t = Inr ()"
    and build: "\<And>shard o' timing. \<exists>ev. se_build E shard o' timing = Inr ev \<and> evidence_of (sh_agent_name shard) ev"
  shows "if wt_engine t = None then finish_part (se_send E) (se_build E) t w = (w, [], Worker_Continues)
     else \<exists>w' f. finish_part (se_send E) (se_build E) t w = (w', [f], Worker_Stops (Inr ())) \<and> full_frame E (wk_prepare w) f"
proof (cases "wt_engine t")
  case None
  then show ?thesis by (simp add: finish_part_def)
next
  case (Some r)
  obtain o' timing where r: "r = Engine_Done o' (Some timing)" using e [OF Some] by blast
  have st: "wk_start w \<noteq> None" using t Some by blast
  then have phase: "am_phase (wk_machine w) = Agent_Running" using w by (auto simp: worker_ok_def split: if_splits)
  obtain ev where "se_build E (pf_shard (wk_prepare w)) o' timing = Inr ev"
    "evidence_of (sh_agent_name (pf_shard (wk_prepare w))) ev" using build by blast
  then show ?thesis
    using Some r w phase assms(1,5) by (simp add: finish_part_def agent_finish_def require_phase_def then_send
        close_part_def worker_ok_def full_frame_def)
qed

lemma good_control_part:
  assumes w: "worker_ok w" and t: "good_tick E w incoming t"
    and "incoming = [] \<or> (\<exists>ms. incoming = [start_frame_of (pf_job_id (wk_prepare w)) ms] \<and> wk_sent_ready w \<and> wk_start w = None)"
  shows "\<exists>w'. control_part (se_send E) t w = (w', [], Worker_Continues) \<and> wk_prepare w' = wk_prepare w
     \<and> (wk_start w' = None \<longleftrightarrow> wk_start w = None \<and> unread t incoming = incoming)
     \<and> (unread t incoming = [] \<or> unread t incoming = incoming)"
proof (cases "wt_poll t = WPoll_Elapsed")
  case True
  then show ?thesis by (simp add: control_part_def unread_def)
next
  case False
  then obtain ms where i: "incoming = [start_frame_of (pf_job_id (wk_prepare w)) ms]"
    "wt_poll t = WPoll_Frame (start_frame_of (pf_job_id (wk_prepare w)) ms)" "wk_sent_ready w" "wk_start w = None"
    using assms(2,3) by (auto simp: good_tick_def)
  have "am_phase (wk_machine w) = Agent_Ready" using w i by (simp add: worker_ok_def)
  then show ?thesis
    using w i t by (simp add: control_part_def agent_accept_def worker_ok_def good_tick_def unread_def)
qed

text \<open>
  A pass in good surroundings continues, having read the start frame if it was there, or ends with the
  result; it never fails.
\<close>

lemma good_pass:
  assumes send: "\<And>f. se_send E f = Inr ()" and w: "worker_ok w" and t: "good_tick E w incoming t"
    and i: "incoming = [] \<or> (\<exists>ms. incoming = [start_frame_of (pf_job_id (wk_prepare w)) ms] \<and> wk_sent_ready w \<and> wk_start w = None)"
    and build: "\<And>shard o' timing. \<exists>ev. se_build E shard o' timing = Inr ev \<and> evidence_of (sh_agent_name shard) ev"
  shows "\<exists>w' out status. worker_pass (se_send E) (se_build E) t w = (w', out, status)
     \<and> list_all (full_frame E (wk_prepare w)) out
     \<and> (status = Worker_Continues \<and> (wk_start w' = None \<longleftrightarrow> wk_start w = None \<and> unread t incoming = incoming)
          \<and> (unread t incoming = [] \<or> unread t incoming = incoming)
        \<or> status = Worker_Stops (Inr ()) \<and> wk_start w \<noteq> None)"
proof -
  obtain w1 out1 where 1: "ready_part (se_send E) t w = (w1, out1, Worker_Continues)" "wk_start w1 = wk_start w"
    "wk_prepare w1 = wk_prepare w" "list_all (full_frame E (wk_prepare w)) out1" "wk_sent_ready w \<longrightarrow> w1 = w"
    using good_ready_part [OF send w t] by blast
  have ok1: "worker_ok w1" using ready_part_ok [of "se_send E" t] w 1(1) by (fastforce simp: part_ok_def speech_ok_def)
  obtain w2 out2 where 2: "beat_part (se_send E) t w1 = (w2, out2, Worker_Continues)" "wk_start w2 = wk_start w1"
    "wk_prepare w2 = wk_prepare w1" "wk_sent_ready w2 = wk_sent_ready w1" "list_all (full_frame E (wk_prepare w1)) out2"
    using good_beat_part [OF send ok1] by blast
  have ok2: "worker_ok w2" using beat_part_ok [of "se_send E" t] ok1 2(1) by (fastforce simp: part_ok_def speech_ok_def)
  have t2: "good_tick E w2 incoming t" using t by (simp add: good_tick_def 1 2)
  have i2: "incoming = [] \<or> (\<exists>ms. incoming = [start_frame_of (pf_job_id (wk_prepare w2)) ms] \<and> wk_sent_ready w2 \<and> wk_start w2 = None)"
    using i 1(2,3,5) 2(2,3,4) by auto
  have fin: "if wt_engine t = None then finish_part (se_send E) (se_build E) t w2 = (w2, [], Worker_Continues)
     else \<exists>w' f. finish_part (se_send E) (se_build E) t w2 = (w', [f], Worker_Stops (Inr ())) \<and> full_frame E (wk_prepare w2) f"
    by (rule good_finish_part [OF send ok2 _ _ _ build]) (use t2 in \<open>auto simp: good_tick_def\<close>)
  show ?thesis
  proof (cases "wt_engine t")
    case None
    from good_control_part [OF ok2 t2 i2] obtain w3 where
      w3: "control_part (se_send E) t w2 = (w3, [], Worker_Continues) \<and> wk_prepare w3 = wk_prepare w2
        \<and> (wk_start w3 = None \<longleftrightarrow> wk_start w2 = None \<and> unread t incoming = incoming)
        \<and> (unread t incoming = [] \<or> unread t incoming = incoming)" ..
    then have "worker_pass (se_send E) (se_build E) t w = (w3, out1 @ out2, Worker_Continues)"
      using fin None by (simp add: worker_pass_def then_part_def 1(1) 2(1))
    moreover have "list_all (full_frame E (wk_prepare w)) (out1 @ out2)" using 1(3,4) 2(5) by simp
    moreover have "wk_start w2 = wk_start w" using 1(2) 2(2) by simp
    ultimately show ?thesis using w3 by auto
  next
    case (Some r)
    then have "wk_start w \<noteq> None" using t by (auto simp: good_tick_def)
    moreover obtain w3 f where w3: "finish_part (se_send E) (se_build E) t w2 = (w3, [f], Worker_Stops (Inr ()))"
      "full_frame E (wk_prepare w2) f" using fin Some by auto
    moreover have "worker_pass (se_send E) (se_build E) t w = (w3, out1 @ out2 @ [f], Worker_Stops (Inr ()))"
      using w3(1) by (simp add: worker_pass_def then_part_def 1(1) 2(1))
    moreover have "list_all (full_frame E (wk_prepare w)) (out1 @ out2 @ [f])"
      using 1(3,4) 2(3,5) w3(2) by simp
    ultimately show ?thesis by blast
  qed
qed

subsection \<open>How far an agent's two sides can be apart\<close>

text \<open>
  The invariant of one agent: the controller's phase, the worker's stage and the frames in flight fit
  together. What the worker has said beyond what the controller has heard is exactly what is in flight.
\<close>

definition in_loop :: "prepare_frame \<Rightarrow> worker \<Rightarrow> said \<Rightarrow> wire_frame list \<Rightarrow> bool" where
  "in_loop p w heard up \<longleftrightarrow> worker_ok w \<and> wk_prepare w = p
     \<and> (\<exists>n. speaks (pf_job_id p) (sh_agent_name (pf_shard p)) (heard, n) up = Some (spoken w))"

definition last_words :: "prepare_frame \<Rightarrow> wire_frame list \<Rightarrow> bool" where
  "last_words p up \<longleftrightarrow> (\<exists>n m. speaks (pf_job_id p) (sh_agent_name (pf_shard p)) (Said_Ready, n) up = Some (Said_Goodbye, m))"

definition phases_fit ::
  "setting \<Rightarrow> string \<Rightarrow> prepare_frame \<Rightarrow> controller_agent_phase \<Rightarrow> worker_stage \<Rightarrow> wire_frame list \<Rightarrow> wire_frame list \<Rightarrow> bool"
where
  "phases_fit E a p phase stage up down \<longleftrightarrow>
     (case phase of
        Ctl_AwaitingHello \<Rightarrow> down = [] \<and> (stage = Stage_New \<and> up = []
          \<or> stage = Stage_Greeted \<and> up = [agent_hello (worker_machine E a)])
      | Ctl_Preparing \<Rightarrow> stage = Stage_Greeted \<and> up = [] \<and> down = [wire_frame_new (Msg_Prepare p)]
          \<or> (\<exists>w. stage = Stage_Loop w \<and> in_loop p w Said_Hello up \<and> wk_start w = None \<and> down = [])
      | Ctl_Ready \<Rightarrow> \<exists>w. stage = Stage_Loop w \<and> in_loop p w Said_Ready up \<and> wk_start w = None \<and> down = []
      | Ctl_Running \<Rightarrow> (\<exists>w. stage = Stage_Loop w \<and> in_loop p w Said_Ready up
            \<and> (wk_start w = None \<and> (\<exists>ms. down = [start_frame_of (pf_job_id p) ms]) \<or> wk_start w \<noteq> None \<and> down = []))
          \<or> stage = Stage_Done \<and> down = [] \<and> last_words p up
      | Ctl_Finished \<Rightarrow> stage = Stage_Done \<and> up = [] \<and> down = []
      | _ \<Rightarrow> False)"

definition fits ::
  "setting \<Rightarrow> string \<Rightarrow> string \<Rightarrow> controller_agent \<Rightarrow> worker_stage \<Rightarrow> wire_frame list \<Rightarrow> wire_frame list \<Rightarrow> bool" where
  "fits E job a st stage up down \<longleftrightarrow>
     pf_job_id (ca_prepare st) = job \<and> sh_agent_name (pf_shard (ca_prepare st)) = a
     \<and> admits E a (ca_prepare st)
     \<and> list_all (full_frame E (ca_prepare st)) up
     \<and> phases_fit E a (ca_prepare st) (ca_phase st) stage up down"

definition signature_ok :: "setting \<Rightarrow> ready_signature option \<Rightarrow> bool" where
  "signature_ok E sig \<longleftrightarrow> sig = None \<or> sig = Some (se_protocol E, se_inventory E)"

definition party_ok ::
  "setting \<Rightarrow> string \<Rightarrow> string \<Rightarrow> controller_agent option \<Rightarrow> worker_stage \<Rightarrow> wire_frame list \<Rightarrow> wire_frame list \<Rightarrow> bool"
where
  "party_ok E job a x stage up down \<longleftrightarrow>
     (case x of None \<Rightarrow> stage = Stage_New \<and> up = [] \<and> down = [] | Some st \<Rightarrow> fits E job a st stage up down)"

lemma party_ok_simps [simp]:
  "party_ok E job a None stage up down \<longleftrightarrow> stage = Stage_New \<and> up = [] \<and> down = []"
  "party_ok E job a (Some st) stage up down \<longleftrightarrow> fits E job a st stage up down"
  by (simp_all add: party_ok_def)

definition conversation_inv :: "setting \<Rightarrow> conversation \<Rightarrow> bool" where
  "conversation_inv E s \<longleftrightarrow> \<not> cv_faulty s \<and> bt_wf (cj_agents (cv_job s)) \<and> signature_ok E (cj_ready_signature (cv_job s))
     \<and> (\<forall>a. party_ok E (cj_job_id (cv_job s)) a (bt_get (cj_agents (cv_job s)) a) (cv_stage s a) (cv_up s a) (cv_down s a))"

subsection \<open>What is in flight\<close>

lemma speaks_goodbye [simp]:
  "speaks job a (Said_Goodbye, n) fs = Some s \<longleftrightarrow> fs = [] \<and> s = (Said_Goodbye, n)"
  by (cases fs; cases "wf_message (hd fs)") auto

lemma speaks_ready: "speaks job a (Said_Ready, n) fs = Some (s, m) \<Longrightarrow> s \<noteq> Said_Hello"
proof (induction fs arbitrary: n)
  case (Cons f fs)
  then show ?case
    by (cases "wf_message f") (auto split: if_splits)
qed simp

lemma spoken_stage [simp]: "fst (spoken w) \<noteq> Said_Goodbye"
  by (simp add: spoken_def)

lemma in_loop_ready: "in_loop p w Said_Ready up \<Longrightarrow> wk_sent_ready w"
  using speaks_ready by (fastforce simp: in_loop_def spoken_def split: if_splits)

lemma in_loop_append:
  assumes "in_loop p w heard up" "worker_ok w'" "wk_prepare w' = p" "worker_speaks w (spoken w) out = Some (spoken w')"
  shows "in_loop p w' heard (up @ out)"
proof -
  obtain n where n: "speaks (pf_job_id p) (sh_agent_name (pf_shard p)) (heard, n) up = Some (spoken w)"
    and "wk_prepare w = p" using assms(1) by (auto simp: in_loop_def)
  then have "speaks (pf_job_id p) (sh_agent_name (pf_shard p)) (heard, n) (up @ out) = Some (spoken w')"
    using assms(4) by (simp add: speaks_append worker_speaks_def)
  then show ?thesis using assms(2,3) by (auto simp: in_loop_def)
qed

text \<open>The head of what is in flight, as the controller will see it.\<close>

lemma in_loop_head:
  assumes "in_loop p w heard (f # fs)" "full_frame E p f"
  shows "wf_protocol f = WIRE_PROTOCOL \<and>
     ((\<exists>b. wf_message f = Msg_Heartbeat b \<and> bf_job_id b = pf_job_id p \<and> in_loop p w heard fs)
      \<or> (\<exists>r. wf_message f = Msg_Ready r \<and> heard = Said_Hello \<and> rf_job_id r = pf_job_id p
           \<and> rf_agent_name r = sh_agent_name (pf_shard p) \<and> in_loop p w Said_Ready fs))"
proof -
  obtain n where n: "speaks (pf_job_id p) (sh_agent_name (pf_shard p)) (heard, n) (f # fs) = Some (spoken w)"
    and w: "worker_ok w" "wk_prepare w = p" using assms(1) by (auto simp: in_loop_def)
  have nb: "speaks (pf_job_id p) (sh_agent_name (pf_shard p)) (Said_Goodbye, n) fs \<noteq> Some (spoken w)"
    using spoken_stage [of w] by (cases "spoken w") auto
  show ?thesis
    using n nb w assms(2)
    by (cases "wf_message f") (auto simp: in_loop_def full_frame_def split: if_splits)
qed

lemma done_head:
  assumes "last_words p (f # fs)" "full_frame E p f"
  shows "wf_protocol f = WIRE_PROTOCOL \<and>
     ((\<exists>b. wf_message f = Msg_Heartbeat b \<and> bf_job_id b = pf_job_id p \<and> last_words p fs)
      \<or> (\<exists>r. wf_message f = Msg_Finished r \<and> ff_job_id r = pf_job_id p
           \<and> evidence_of (sh_agent_name (pf_shard p)) (ff_evidence r) \<and> fs = []))"
proof -
  obtain n m where "speaks (pf_job_id p) (sh_agent_name (pf_shard p)) (Said_Ready, n) (f # fs) = Some (Said_Goodbye, m)"
    using assms(1) by (auto simp: last_words_def)
  then show ?thesis
    using assms(2) by (cases "wf_message f") (auto simp: full_frame_def last_words_def split: if_splits)
qed

subsection \<open>Nothing is refused\<close>

lemma admitsD:
  assumes "admits E a p"
  obtains target where "authorize (se_parse E) (se_policy E a) p = Inr target" "se_configure E target (pf_plan p) = Inr ()"
    "ap_concurrency (pf_plan p) \<le> pol_max_concurrency (se_policy E a)"
    "ap_concurrency (pf_plan p) = sh_concurrency (pf_shard p)"
  using assms by (auto simp: admits_def authorize_def check_work_Inr_iff result_iffs split: prod.splits)

text \<open>The controller hears the next frame of an agent.\<close>

lemma hear_fits:
  assumes fits: "fits E job a st stage (f # up) down" and sig: "signature_ok E sig" and E: "good_setting E"
  shows "wf_protocol f = WIRE_PROTOCOL
     \<and> (\<exists>st' sig' response. accept_message job a sig st (wf_message f) = ((st', sig'), Inr response)
          \<and> signature_ok E sig'
          \<and> fits E job a st' stage up (down @ (case response of None \<Rightarrow> [] | Some r \<Rightarrow> [r])))"
proof -
  let ?p = "ca_prepare st"
  have p: "pf_job_id ?p = job" "sh_agent_name (pf_shard ?p) = a" "admits E a ?p" "full_frame E ?p f"
    "list_all (full_frame E ?p) up" and phase: "phases_fit E a ?p (ca_phase st) stage (f # up) down"
    using fits by (simp_all add: fits_def)
  obtain target where t: "ap_concurrency (pf_plan ?p) \<le> pol_max_concurrency (se_policy E a)"
    "ap_concurrency (pf_plan ?p) = sh_concurrency (pf_shard ?p)" using admitsD [OF p(3)] by blast
  have t': "\<not> pol_max_concurrency (se_policy E a) < ap_concurrency (pf_plan ?p)" using t(1) by (simp add: not_less)
  show ?thesis
  proof (cases "ca_phase st")
    case Ctl_AwaitingHello
    have scenario: "ap_scenario (pf_plan ?p) \<in> {Scenario_Sustained, Scenario_Pattern}"
      by (cases "ap_scenario (pf_plan ?p)") simp_all
    have "f = agent_hello (worker_machine E a)" "up = []" "down = []" "stage = Stage_Greeted"
      using phase Ctl_AwaitingHello by (simp_all add: phases_fit_def)
    then show ?thesis
      using Ctl_AwaitingHello scenario t' p sig
      by (auto simp: agent_hello_def worker_machine_def agent_new_def worker_hello_def accept_message_def on_hello_def
          validate_hello_def fits_def phases_fit_def)
  next
    case Ctl_Preparing
    then obtain w where w: "stage = Stage_Loop w" "in_loop ?p w Said_Hello (f # up)" "wk_start w = None" "down = []"
      using phase by (auto simp: phases_fit_def)
    from in_loop_head [OF w(2) p(4)] show ?thesis
    proof (elim conjE disjE exE)
      fix r
      assume r: "wf_protocol f = WIRE_PROTOCOL" "wf_message f = Msg_Ready r" "rf_job_id r = pf_job_id ?p"
        "rf_agent_name r = sh_agent_name (pf_shard ?p)" "in_loop ?p w Said_Ready up"
      have "rf_live_workers r = rf_requested_workers r" "rf_requested_workers r = sh_concurrency (pf_shard ?p)"
        "rf_target_protocol_version r = se_protocol E" "rf_tool_inventory_hash r = se_inventory E"
        using p(4) r(2) by (simp_all add: full_frame_def)
      then show ?thesis
        using Ctl_Preparing r w p sig E
        by (auto simp: accept_message_def on_ready_def fits_def phases_fit_def signature_ok_def good_setting_def)
    qed (use Ctl_Preparing w p sig in \<open>auto simp: accept_message_def fits_def phases_fit_def\<close>)
  next
    case Ctl_Ready
    then obtain w where w: "stage = Stage_Loop w" "in_loop ?p w Said_Ready (f # up)" "wk_start w = None" "down = []"
      using phase by (auto simp: phases_fit_def)
    from in_loop_head [OF w(2) p(4)] show ?thesis
      using Ctl_Ready w p sig by (auto simp: accept_message_def fits_def phases_fit_def)
  next
    case Ctl_Running
    show ?thesis
    proof (cases stage)
      case (Stage_Loop w)
      then have w: "in_loop ?p w Said_Ready (f # up)" "wk_start w = None \<and> (\<exists>ms. down = [start_frame_of (pf_job_id ?p) ms])
          \<or> wk_start w \<noteq> None \<and> down = []"
        using phase Ctl_Running by (auto simp: phases_fit_def)
      from in_loop_head [OF w(1) p(4)] show ?thesis
        using Ctl_Running Stage_Loop w(2) p sig by (auto simp: accept_message_def fits_def phases_fit_def)
    next
      case Stage_Done
      then have s: "down = []" "last_words ?p (f # up)"
        using phase Ctl_Running by (simp_all add: phases_fit_def)
      from done_head [OF s(2) p(4)] show ?thesis
        using Ctl_Running Stage_Done s(1) p sig
        by (auto simp: accept_message_def on_finished_def fits_def phases_fit_def)
    qed (use phase Ctl_Running in \<open>simp_all add: phases_fit_def\<close>)
  qed (use phase in \<open>simp_all add: phases_fit_def\<close>)
qed

text \<open>A worker makes a pass of its loop.\<close>

lemma pass_fits:
  assumes fits: "fits E job a st (Stage_Loop w) up down" and t: "good_tick E w down t" and E: "good_setting E"
  shows "\<exists>w' out status. worker_pass (se_send E) (se_build E) t w = (w', out, status)
     \<and> (status = Worker_Continues \<and> fits E job a st (Stage_Loop w') (up @ out) (unread t down)
        \<or> status = Worker_Stops (Inr ()) \<and> fits E job a st Stage_Done (up @ out) down)"
proof -
  let ?p = "ca_prepare st"
  have p: "pf_job_id ?p = job" "sh_agent_name (pf_shard ?p) = a" "admits E a ?p" "list_all (full_frame E ?p) up"
    and phase: "phases_fit E a ?p (ca_phase st) (Stage_Loop w) up down"
    using fits by (simp_all add: fits_def)
  have ph: "ca_phase st \<in> {Ctl_Preparing, Ctl_Ready, Ctl_Running}"
    using phase by (cases "ca_phase st") (simp_all add: phases_fit_def)
  define heard where "heard = (if ca_phase st = Ctl_Preparing then Said_Hello else Said_Ready)"
  have l: "in_loop ?p w heard up" and start: "ca_phase st \<noteq> Ctl_Running \<Longrightarrow> wk_start w = None \<and> down = []"
    and running: "ca_phase st = Ctl_Running \<Longrightarrow> wk_start w = None \<and> (\<exists>ms. down = [start_frame_of (pf_job_id ?p) ms])
       \<or> wk_start w \<noteq> None \<and> down = []"
    using phase ph by (auto simp: phases_fit_def heard_def)
  have w: "worker_ok w" "wk_prepare w = ?p" using l by (simp_all add: in_loop_def)
  have i: "down = [] \<or> (\<exists>ms. down = [start_frame_of (pf_job_id (wk_prepare w)) ms] \<and> wk_sent_ready w \<and> wk_start w = None)"
  proof (cases "ca_phase st = Ctl_Running")
    case True
    then show ?thesis using running [OF True] in_loop_ready [of ?p w up] l w(2) by (auto simp: heard_def)
  qed (use start in simp)
  have send: "\<And>f. se_send E f = Inr ()"
    and build: "\<And>shard o' timing. \<exists>ev. se_build E shard o' timing = Inr ev \<and> evidence_of (sh_agent_name shard) ev"
    using E by (simp_all add: good_setting_def)
  from good_pass [OF send w(1) t i build] obtain w' out status where
    g: "worker_pass (se_send E) (se_build E) t w = (w', out, status) \<and> list_all (full_frame E (wk_prepare w)) out
      \<and> (status = Worker_Continues \<and> (wk_start w' = None \<longleftrightarrow> wk_start w = None \<and> unread t down = down)
          \<and> (unread t down = [] \<or> unread t down = down)
        \<or> status = Worker_Stops (Inr ()) \<and> wk_start w \<noteq> None)" (is "_ \<and> _ \<and> ?c") by (elim exE)
  then have r: "worker_pass (se_send E) (se_build E) t w = (w', out, status)" "list_all (full_frame E ?p) out"
    and c: ?c using w(2) by simp_all
  have speech: "speech_ok w (w', out, status)"
    using worker_pass_ok [of "se_send E" "se_build E" t] w(1) r(1) unfolding part_ok_def by metis
  have full: "list_all (full_frame E ?p) (up @ out)" using p(4) r(2) by simp
  from c show ?thesis
  proof
    assume c: "status = Worker_Continues \<and> (wk_start w' = None \<longleftrightarrow> wk_start w = None \<and> unread t down = down)
          \<and> (unread t down = [] \<or> unread t down = down)"
    then have "in_loop ?p w' heard (up @ out)"
      using in_loop_append [OF l] speech w by (simp add: speech_ok_def)
    moreover have "ca_phase st \<noteq> Ctl_Running \<longrightarrow> wk_start w' = None \<and> unread t down = []"
      using c start by auto
    moreover have "(wk_start w' = None
       \<and> (\<exists>ms. unread t down = [start_frame_of (pf_job_id ?p) ms]) \<or> wk_start w' \<noteq> None \<and> unread t down = [])"
      if "ca_phase st = Ctl_Running" using c running [OF that] by auto
    ultimately have "phases_fit E a ?p (ca_phase st) (Stage_Loop w') (up @ out) (unread t down)"
      using ph by (auto simp: phases_fit_def heard_def)
    then have "fits E job a st (Stage_Loop w') (up @ out) (unread t down)" using p full by (simp add: fits_def)
    then show ?thesis using r(1) c by blast
  next
    assume c: "status = Worker_Stops (Inr ()) \<and> wk_start w \<noteq> None"
    have run: "ca_phase st = Ctl_Running" by (rule ccontr) (use c start in auto)
    obtain s where s: "worker_speaks w (spoken w) out = Some s" "fst s = Said_Goodbye"
      using speech c by (auto simp: speech_ok_def)
    obtain n where "speaks job a (Said_Ready, n) up = Some (spoken w)"
      using l run p by (auto simp: in_loop_def heard_def)
    then have "speaks job a (Said_Ready, n) (up @ out) = Some (Said_Goodbye, snd s)"
      using s w p by (cases s) (simp add: speaks_append worker_speaks_def)
    then have "last_words ?p (up @ out)" using p by (auto simp: last_words_def)
    moreover have "down = []" using running [OF run] c by simp
    ultimately have "fits E job a st Stage_Done (up @ out) down"
      using p full run by (auto simp: fits_def phases_fit_def)
    then show ?thesis using r(1) c by blast
  qed
qed

lemma begin_fits:
  assumes fits: "fits E job a st Stage_Greeted up down" and "down \<noteq> []" and E: "good_setting E"
  shows "\<exists>w. worker_begin (se_send E) (se_parse E) (se_policy E a) (se_configure E) now (worker_machine E a)
        (Inr (Some (hd down))) = ([], Inr w) \<and> fits E job a st (Stage_Loop w) up (tl down)"
proof -
  let ?p = "ca_prepare st"
  have p: "pf_job_id ?p = job" "sh_agent_name (pf_shard ?p) = a" "admits E a ?p"
    and phase: "phases_fit E a ?p (ca_phase st) Stage_Greeted up down"
    using fits by (simp_all add: fits_def)
  have d: "ca_phase st = Ctl_Preparing" "up = []" "down = [wire_frame_new (Msg_Prepare ?p)]"
    using phase assms(2) by (cases "ca_phase st"; simp add: phases_fit_def)+
  obtain target where t: "authorize (se_parse E) (se_policy E a) ?p = Inr target"
    "se_configure E target (pf_plan ?p) = Inr ()" using admitsD [OF p(3)] by blast
  have acc: "agent_accept (worker_machine E a) (wire_frame_new (Msg_Prepare ?p))
      = ((worker_machine E a)\<lparr>am_job_id := Some job, am_bound_agent_name := Some a, am_phase := Agent_Preparing\<rparr>,
         Inr (Do_Prepare ?p))"
    by (simp add: agent_accept_def worker_machine_def agent_new_def worker_hello_def p)
  obtain w where b: "worker_begin (se_send E) (se_parse E) (se_policy E a) (se_configure E) now (worker_machine E a)
        (Inr (Some (hd down))) = ([], Inr w)"
    by (simp add: worker_begin_def d(3) acc t)
  obtain p' where w: "Inr (Some (hd down)) = (Inr (Some (wire_frame_new (Msg_Prepare p'))) :: channel_error + wire_frame option)"
    "wk_prepare w = p'" "worker_ok w" "spoken w = (Said_Hello, 0)" "wk_start w = None"
    using worker_begin_loop [OF b [unfolded worker_machine_def]] by metis
  then have "p' = ?p" by (simp add: d(3) wire_frame_new_def)
  then have "in_loop ?p w Said_Hello up" using w by (simp add: in_loop_def d(2))
  then have "fits E job a st (Stage_Loop w) up (tl down)"
    using fits w(5) d by (simp add: fits_def phases_fit_def)
  then show ?thesis using b by blast
qed

lemma conversation_inv_party:
  "conversation_inv E s \<Longrightarrow>
     party_ok E (cj_job_id (cv_job s)) a (bt_get (cj_agents (cv_job s)) a) (cv_stage s a) (cv_up s a) (cv_down s a)"
  by (simp add: conversation_inv_def)

lemma conversation_inv_agent:
  assumes "conversation_inv E s" "bt_get (cj_agents (cv_job s)) a = Some st"
  shows "fits E (cj_job_id (cv_job s)) a st (cv_stage s a) (cv_up s a) (cv_down s a)"
  using conversation_inv_party [OF assms(1), of a] assms(2) by simp

lemma conversation_inv_member:
  assumes "conversation_inv E s" "cv_stage s a \<noteq> Stage_New \<or> cv_up s a \<noteq> []"
  obtains st where "bt_get (cj_agents (cv_job s)) a = Some st"
  using conversation_inv_party [OF assms(1), of a] assms(2)
  by (cases "bt_get (cj_agents (cv_job s)) a") auto

text \<open>An agent's part of the state may change, the others' stays.\<close>

lemma conversation_inv_update:
  assumes "conversation_inv E s" "bt_get (cj_agents (cv_job s)) a = Some st"
    and "fits E (cj_job_id (cv_job s)) a st stage up down"
  shows "conversation_inv E (s\<lparr>cv_stage := (cv_stage s)(a := stage), cv_up := (cv_up s)(a := up),
    cv_down := (cv_down s)(a := down)\<rparr>)"
  using assms by (simp add: conversation_inv_def)

lemma conversation_inv_hear:
  assumes inv: "conversation_inv E s" and E: "good_setting E" and up: "cv_up s a \<noteq> []"
  shows "conversation_inv E (after_accept s a (controller_accept (cv_job s) a (hd (cv_up s a))))"
proof -
  obtain st where st: "bt_get (cj_agents (cv_job s)) a = Some st"
    using conversation_inv_member [OF inv] up by blast
  obtain f fs where f: "cv_up s a = f # fs" using up by (cases "cv_up s a") auto
  have "fits E (cj_job_id (cv_job s)) a st (cv_stage s a) (f # fs) (cv_down s a)"
    using conversation_inv_agent [OF inv st] f by simp
  moreover have "signature_ok E (cj_ready_signature (cv_job s))" using inv by (simp add: conversation_inv_def)
  ultimately obtain st' sig' response where h: "wf_protocol f = WIRE_PROTOCOL"
    "accept_message (cj_job_id (cv_job s)) a (cj_ready_signature (cv_job s)) st (wf_message f) = ((st', sig'), Inr response)"
    "signature_ok E sig'" "fits E (cj_job_id (cv_job s)) a st' (cv_stage s a) fs
       (cv_down s a @ (case response of None \<Rightarrow> [] | Some r \<Rightarrow> [r]))"
    using hear_fits E by blast
  then have "controller_accept (cv_job s) a f = ((cv_job s)\<lparr>cj_agents := bt_adjust a (\<lambda>_. st') (cj_agents (cv_job s)),
      cj_ready_signature := sig'\<rparr>, Inr response)"
    using st by (simp add: controller_accept_def)
  then show ?thesis
    using inv h st f by (simp add: after_accept_def conversation_inv_def)
qed

lemma starts_of:
  "bt_wf m \<Longrightarrow> map snd (filter (\<lambda>x. fst x = a) (map (\<lambda>(name, _). (name, f)) m))
     = (case bt_get m a of None \<Rightarrow> [] | Some _ \<Rightarrow> [f])"
proof (induction m)
  case (Cons x m)
  obtain k v where x: "x = (k, v)" by (cases x)
  have "bt_get m k = None" using Cons.prems by (force simp: x bt_wf_Cons map_of_eq_None_iff)
  moreover have "map snd (filter (\<lambda>x. fst x = a) (map (\<lambda>(name, _). (name, f)) m))
      = (case bt_get m a of None \<Rightarrow> [] | Some _ \<Rightarrow> [f])" using Cons by (simp add: x bt_wf_Cons)
  ultimately show ?case by (cases "a = k") (simp_all add: x)
qed simp

lemma conversation_inv_start:
  assumes inv: "conversation_inv E s" and ready: "all_ready (cv_job s)"
  shows "conversation_inv E (after_start s (start_all (cv_job s) ms))"
proof -
  let ?agents = "cj_agents (cv_job s)" and ?f = "start_frame_of (cj_job_id (cv_job s)) ms"
  have wf: "bt_wf ?agents" using inv by (simp add: conversation_inv_def)
  have "fits E (cj_job_id (cv_job s)) a (st\<lparr>ca_phase := Ctl_Running\<rparr>) (cv_stage s a) (cv_up s a) (cv_down s a @ [?f])"
    if st: "bt_get ?agents a = Some st" for a st
  proof -
    have "(a, st) \<in> set ?agents" using st bt_wf_get_mem [OF wf] by blast
    then have "ca_phase st = Ctl_Ready" using ready by (auto simp: all_ready_def list_all_iff)
    then show ?thesis
      using conversation_inv_agent [OF inv st] by (auto simp: fits_def phases_fit_def)
  qed
  then have "party_ok E (cj_job_id (cv_job s)) a (map_option (\<lambda>st. st\<lparr>ca_phase := Ctl_Running\<rparr>) (bt_get ?agents a))
      (cv_stage s a) (cv_up s a) (cv_down s a @ (case bt_get ?agents a of None \<Rightarrow> [] | Some _ \<Rightarrow> [?f]))" for a
    using conversation_inv_party [OF inv, of a] by (cases "bt_get ?agents a") auto
  then show ?thesis
    using inv ready starts_of [OF wf, of _ ?f] by (simp add: conversation_inv_def start_all_def after_start_def)
qed

lemma talk_inv:
  assumes E: "good_setting E" and "talk E s s'" and inv: "conversation_inv E s"
  shows "conversation_inv E s'"
  using assms(2)
proof cases
  case (greet a)
  then obtain st where st: "bt_get (cj_agents (cv_job s)) a = Some st" by blast
  have fits: "fits E (cj_job_id (cv_job s)) a st Stage_New (cv_up s a) (cv_down s a)"
    using conversation_inv_agent [OF inv st] greet by simp
  then have phase: "ca_phase st = Ctl_AwaitingHello" "cv_up s a = []"
    by (cases "ca_phase st"; simp add: fits_def phases_fit_def)+
  have "fits E (cj_job_id (cv_job s)) a st Stage_Greeted (cv_up s a @ [agent_hello (worker_machine E a)]) (cv_down s a)"
    using fits phase by (simp add: fits_def phases_fit_def full_frame_def agent_hello_def)
  from conversation_inv_update [OF inv st this] greet show ?thesis by simp
next
  case (prepare a now)
  obtain st where st: "bt_get (cj_agents (cv_job s)) a = Some st"
    using conversation_inv_member [OF inv, of a] prepare by auto
  have "fits E (cj_job_id (cv_job s)) a st Stage_Greeted (cv_up s a) (cv_down s a)"
    using conversation_inv_agent [OF inv st] prepare by simp
  from begin_fits [OF this _ E, of now] prepare obtain w where
    w: "worker_begin (se_send E) (se_parse E) (se_policy E a) (se_configure E) now (worker_machine E a)
        (Inr (Some (hd (cv_down s a)))) = ([], Inr w)"
    "fits E (cj_job_id (cv_job s)) a st (Stage_Loop w) (cv_up s a) (tl (cv_down s a))" by blast
  from conversation_inv_update [OF inv st w(2)] show ?thesis by (simp add: prepare(1) w(1) after_begin_def)
next
  case (pass a w t)
  obtain st where st: "bt_get (cj_agents (cv_job s)) a = Some st"
    using conversation_inv_member [OF inv, of a] pass by auto
  have fits: "fits E (cj_job_id (cv_job s)) a st (Stage_Loop w) (cv_up s a) (cv_down s a)"
    using conversation_inv_agent [OF inv st] pass by simp
  from pass_fits [OF fits pass(3) E] obtain w' out status where
    r: "worker_pass (se_send E) (se_build E) t w = (w', out, status)"
    and c: "status = Worker_Continues \<and> fits E (cj_job_id (cv_job s)) a st (Stage_Loop w') (cv_up s a @ out) (unread t (cv_down s a))
        \<or> status = Worker_Stops (Inr ()) \<and> fits E (cj_job_id (cv_job s)) a st Stage_Done (cv_up s a @ out) (cv_down s a)" by blast
  from c show ?thesis
  proof (elim disjE conjE)
    assume status: "status = Worker_Stops (Inr ())"
      and "fits E (cj_job_id (cv_job s)) a st Stage_Done (cv_up s a @ out) (cv_down s a)"
    from conversation_inv_update [OF inv st this(2)] status show ?thesis by (simp add: pass(1) r after_pass_def)
  next
    assume status: "status = Worker_Continues"
      and "fits E (cj_job_id (cv_job s)) a st (Stage_Loop w') (cv_up s a @ out) (unread t (cv_down s a))"
    from conversation_inv_update [OF inv st this(2)] status show ?thesis by (simp add: pass(1) r after_pass_def)
  qed
next
  case (hear a)
  then show ?thesis using conversation_inv_hear [OF inv E] by simp
next
  case (start ms)
  then show ?thesis using conversation_inv_start [OF inv] by simp
qed

subsection \<open>Reachable conversations\<close>

lemma talk_job:
  "talk E s s' \<Longrightarrow> cv_job s' = cv_job s \<or> (\<exists>e. cv_job s' = ctl_apply (cv_job s) e)"
proof (induction rule: talk.cases)
  case (prepare s a now)
  then show ?case by (auto simp: after_begin_def fault_def split: prod.splits sum.splits)
next
  case (pass s a w t)
  then show ?case by (auto simp: after_pass_def fault_def split: prod.splits sum.splits worker_status.splits)
next
  case (hear s a)
  have "cv_job s' = cv_job s \<or> cv_job s' = ctl_apply (cv_job s) (Ctl_Frame a (hd (cv_up s a)))"
    by (auto simp: hear after_accept_def fault_def split: prod.splits sum.splits)
  then show ?case using hear by blast
next
  case (start s ms)
  have "cv_job s' = cv_job s \<or> cv_job s' = ctl_apply (cv_job s) (Ctl_Start ms)"
    by (auto simp: start after_start_def fault_def split: prod.splits sum.splits)
  then show ?case using start by blast
qed simp

definition talk_inv_of :: "setting \<Rightarrow> prepare_frame list \<Rightarrow> conversation \<Rightarrow> bool" where
  "talk_inv_of E prepares s \<longleftrightarrow> conversation_inv E s \<and> ctl_reachable prepares (cv_job s)"

lemma talk_inv_step:
  assumes "good_setting E" "talk_inv_of E prepares s" "talk E s s'"
  shows "talk_inv_of E prepares s'"
  using talk_job [OF assms(3)] talk_inv [OF assms(1,3)] assms(2)
  by (auto simp: talk_inv_of_def intro: ctl_reachable.step)

lemma curtain_up_inv:
  assumes new: "controller_new prepares = Inr j"
    and admits: "\<forall>p \<in> set prepares. admits E (sh_agent_name (pf_shard p)) p"
  shows "talk_inv_of E prepares (curtain_up j)"
proof -
  have j: "job_inv j" using new by (rule controller_new_inv)
  have "cj_ready_signature j = None"
    using new by (cases prepares) (auto simp: controller_new_def and_then_Inr_iff simp del: try_fold.simps)
  moreover have "party_ok E (cj_job_id j) a (bt_get (cj_agents j) a) Stage_New [] []" for a
  proof (cases "bt_get (cj_agents j) a")
    case (Some st)
    obtain p where p: "p \<in> set prepares" "st = controller_agent_new p" "a = sh_agent_name (pf_shard p)"
      using controller_new_agents [OF new Some] by blast
    have "agent_ok (cj_job_id j) a (cj_ready_signature j) st"
      using j Some by (simp add: job_inv_def job_agents_ok_def)
    then show ?thesis
      using p admits Some by (simp add: fits_def phases_fit_def agent_ok_def controller_agent_new_def)
  qed simp
  ultimately show ?thesis
    using j new by (simp add: talk_inv_of_def conversation_inv_def curtain_up_def job_inv_def signature_ok_def
        ctl_reachable.init)
qed

lemma talk_reachable_inv:
  assumes "good_setting E" "talk_inv_of E prepares s" "(talk E)\<^sup>*\<^sup>* s s'"
  shows "talk_inv_of E prepares s'"
  using assms(3,2) by (induction rule: rtranclp_induct) (auto intro: talk_inv_step [OF assms(1)])

subsection \<open>Progress\<close>

text \<open>The operations an agent still needs, given where its two sides are.\<close>

fun distance :: "controller_agent_phase \<Rightarrow> worker_stage \<Rightarrow> nat" where
  "distance Ctl_AwaitingHello Stage_New = 9"
| "distance Ctl_AwaitingHello _ = 8"
| "distance Ctl_Preparing Stage_Greeted = 7"
| "distance Ctl_Preparing (Stage_Loop w) = (if wk_sent_ready w then 5 else 6)"
| "distance Ctl_Ready _ = 4"
| "distance Ctl_Running (Stage_Loop w) = (if wk_start w = None then 3 else 2)"
| "distance Ctl_Running _ = 1"
| "distance _ _ = 0"

definition names_of :: "conversation \<Rightarrow> string set" where
  "names_of s = dom (bt_get (cj_agents (cv_job s)))"

definition agent_distance :: "conversation \<Rightarrow> string \<Rightarrow> nat" where
  "agent_distance s a = (case bt_get (cj_agents (cv_job s)) a of None \<Rightarrow> 0
     | Some st \<Rightarrow> distance (ca_phase st) (cv_stage s a))"

definition total_distance :: "conversation \<Rightarrow> nat" where
  "total_distance s = sum (agent_distance s) (names_of s)"

definition total_flight :: "conversation \<Rightarrow> nat" where
  "total_flight s = sum (\<lambda>a. length (cv_up s a)) (names_of s)"

lemma finite_names [simp]: "finite (names_of s)"
  by (simp add: names_of_def finite_dom_map_of)

lemma total_less:
  assumes "names_of s' = names_of s" "a \<in> names_of s" "agent_distance s' a < agent_distance s a"
    and "\<And>b. b \<noteq> a \<Longrightarrow> agent_distance s' b = agent_distance s b"
  shows "total_distance s' < total_distance s"
  unfolding total_distance_def assms(1)
proof (rule sum_strict_mono_ex1)
  show "\<forall>b \<in> names_of s. agent_distance s' b \<le> agent_distance s b"
    using assms(3,4) by (metis less_imp_le order_refl)
qed (use assms(2,3) in auto)

lemma idle_good [simp]:
  "good_tick E w incoming idle_tick"
  by (simp add: good_tick_def idle_tick_def)

definition strong :: "setting \<Rightarrow> worker \<Rightarrow> traffic_readiness" where
  "strong E w = \<lparr>tr_live_workers = sh_concurrency (pf_shard (wk_prepare w)),
     tr_requested_workers = sh_concurrency (pf_shard (wk_prepare w)),
     tr_target_protocol_version = se_protocol E, tr_tool_inventory_hash = se_inventory E\<rparr>"

lemma announcing_pass:
  assumes send: "\<And>f. se_send E f = Inr ()" and w: "worker_ok w" "\<not> wk_sent_ready w"
  shows "\<exists>w' out. worker_pass (se_send E) (se_build E) (idle_tick\<lparr>wt_readiness := Some (strong E w)\<rparr>) w
     = (w', out, Worker_Continues) \<and> wk_sent_ready w'"
proof -
  have "am_phase (wk_machine w) = Agent_Preparing" using w by (simp add: worker_ok_def)
  then show ?thesis
    using w send by (simp add: worker_pass_def then_part_def ready_part_def beat_part_def finish_part_def control_part_def
        idle_tick_def worker_send_def mark_ready_def require_phase_def agent_heartbeat_def worker_ok_def Let_def)
qed

lemma finishing_pass:
  assumes send: "\<And>f. se_send E f = Inr ()" and w: "worker_ok w" "wk_start w \<noteq> None"
    and build: "\<And>shard o' timing. \<exists>ev. se_build E shard o' timing = Inr ev \<and> evidence_of (sh_agent_name shard) ev"
  shows "\<exists>w' out. worker_pass (se_send E) (se_build E)
       (idle_tick\<lparr>wt_engine := Some (Engine_Done scenario_outcome_default (Some (gate_open (strong E w) 0 0)))\<rparr>) w
     = (w', out, Worker_Stops (Inr ()))"
proof -
  have ph: "am_phase (wk_machine w) = Agent_Running" "wk_sent_ready w" using w by (auto simp: worker_ok_def split: if_splits)
  obtain ev where "se_build E (pf_shard (wk_prepare w)) scenario_outcome_default (gate_open (strong E w) 0 0) = Inr ev"
    "evidence_of (sh_agent_name (pf_shard (wk_prepare w))) ev" using build by blast
  then show ?thesis
    using w ph send by (simp add: worker_pass_def then_part_def ready_part_def beat_part_def finish_part_def
        idle_tick_def worker_send_def agent_finish_def require_phase_def agent_heartbeat_def worker_ok_def Let_def
        close_part_def)
qed

text \<open>Hearing a frame never takes an agent back, and takes the frame out of the air.\<close>

lemma distance_mono:
  "ctl.stays_or_moves p q \<Longrightarrow> phases_fit E a pr p stage up down \<Longrightarrow> phases_fit E a pr' q stage up' down' \<Longrightarrow>
     distance q stage \<le> distance p stage"
  by (cases p; cases q; cases stage) (auto simp: phases_fit_def ctl.stays_or_moves_def ctl_edge_iff controller_terminal_def)

lemma hear_progress:
  assumes inv: "conversation_inv E s" and E: "good_setting E" and up: "cv_up s a \<noteq> []"
  shows "\<exists>s'. talk E s s' \<and> total_distance s' \<le> total_distance s \<and> total_flight s' < total_flight s"
proof -
  let ?s' = "after_accept s a (controller_accept (cv_job s) a (hd (cv_up s a)))"
  obtain st where st: "bt_get (cj_agents (cv_job s)) a = Some st"
    using conversation_inv_member [OF inv] up by blast
  obtain f fs where f: "cv_up s a = f # fs" using up by (cases "cv_up s a") auto
  have fits: "fits E (cj_job_id (cv_job s)) a st (cv_stage s a) (f # fs) (cv_down s a)"
    using conversation_inv_agent [OF inv st] f by simp
  moreover have "signature_ok E (cj_ready_signature (cv_job s))" using inv by (simp add: conversation_inv_def)
  ultimately obtain st' sig' response where h: "wf_protocol f = WIRE_PROTOCOL"
    "accept_message (cj_job_id (cv_job s)) a (cj_ready_signature (cv_job s)) st (wf_message f) = ((st', sig'), Inr response)"
    and fits': "fits E (cj_job_id (cv_job s)) a st' (cv_stage s a) fs
       (cv_down s a @ (case response of None \<Rightarrow> [] | Some r \<Rightarrow> [r]))"
    using hear_fits E by blast
  have "agent_step (cj_job_id (cv_job s)) a (st, cj_ready_signature (cv_job s)) (st', sig')"
    using accept_message_step [of "cj_job_id (cv_job s)" a "cj_ready_signature (cv_job s)" st "wf_message f"] h(2) by simp
  then have "ctl.stays_or_moves (ca_phase st) (ca_phase st')" by (rule agent_step_moves)
  then have d: "distance (ca_phase st') (cv_stage s a) \<le> distance (ca_phase st) (cv_stage s a)"
    using distance_mono fits fits' unfolding fits_def by blast
  have s': "?s' = s\<lparr>cv_job := (cv_job s)\<lparr>cj_agents := bt_adjust a (\<lambda>_. st') (cj_agents (cv_job s)), cj_ready_signature := sig'\<rparr>,
      cv_up := (cv_up s)(a := fs), cv_down := (cv_down s)(a := cv_down s a @ (case response of None \<Rightarrow> [] | Some r \<Rightarrow> [r]))\<rparr>"
    using h st f by (simp add: controller_accept_def after_accept_def)
  have names: "names_of ?s' = names_of s" using st by (auto simp: names_of_def s')
  have "agent_distance ?s' b \<le> agent_distance s b" for b
    using d st by (cases "b = a"; cases "bt_get (cj_agents (cv_job s)) b") (simp_all add: agent_distance_def s')
  then have "total_distance ?s' \<le> total_distance s"
    unfolding total_distance_def names by (rule sum_mono)
  moreover have a: "a \<in> names_of s" using st by (auto simp: names_of_def)
  have "total_flight ?s' < total_flight s"
    unfolding total_flight_def names
  proof (rule sum_strict_mono_ex1)
    show "\<forall>b \<in> names_of s. length (cv_up ?s' b) \<le> length (cv_up s b)" unfolding s' by (simp add: f)
    show "\<exists>b \<in> names_of s. length (cv_up ?s' b) < length (cv_up s b)" using a
      unfolding s' by (intro bexI [of _ a]) (simp_all add: f)
  qed simp
  ultimately show ?thesis using talk.hear [OF up] by blast
qed

text \<open>With nothing left to hear, a cohort that is ready is started, and otherwise some worker has work to do.\<close>

lemma start_progress:
  assumes inv: "conversation_inv E s" and ready: "all_ready (cv_job s)" and ne: "names_of s \<noteq> {}"
  shows "\<exists>s'. talk E s s' \<and> total_distance s' < total_distance s"
proof -
  let ?s' = "after_start s (start_all (cv_job s) 0)"
  have wf: "bt_wf (cj_agents (cv_job s))" using inv by (simp add: conversation_inv_def)
  have names: "names_of ?s' = names_of s"
    using ready by (auto simp: names_of_def after_start_def start_all_def)
  have "agent_distance ?s' a < agent_distance s a" if "a \<in> names_of s" for a
  proof -
    obtain st where st: "bt_get (cj_agents (cv_job s)) a = Some st" using \<open>a \<in> names_of s\<close> by (auto simp: names_of_def)
    have "ca_phase st = Ctl_Ready" by (rule all_ready_get [OF wf ready st])
    then show ?thesis using ready st by (cases "cv_stage s a") (simp_all add: agent_distance_def after_start_def start_all_def)
  qed
  then have "total_distance ?s' < total_distance s"
    unfolding total_distance_def names using ne by (intro sum_strict_mono) auto
  then show ?thesis using talk.start [OF ready] by blast
qed

lemma stage_progress:
  assumes st: "bt_get (cj_agents (cv_job s)) a = Some st" and t: "talk E s s'"
    and s': "cv_job s' = cv_job s" "\<And>b. b \<noteq> a \<Longrightarrow> cv_stage s' b = cv_stage s b"
    and d: "distance (ca_phase st) (cv_stage s' a) < distance (ca_phase st) (cv_stage s a)"
  shows "\<exists>s'. talk E s s' \<and> total_distance s' < total_distance s"
proof -
  have "total_distance s' < total_distance s"
    by (rule total_less [of s' s a]) (use st s' d in \<open>auto simp: names_of_def agent_distance_def split: option.splits\<close>)
  then show ?thesis using t by blast
qed

definition all_finished :: "conversation \<Rightarrow> bool" where
  "all_finished s \<longleftrightarrow> list_all (\<lambda>(_, st). ca_phase st = Ctl_Finished) (cj_agents (cv_job s))"

lemma worker_progress:
  assumes inv: "conversation_inv E s" and E: "good_setting E" and st: "bt_get (cj_agents (cv_job s)) a = Some st"
    and up: "cv_up s a = []" and phase: "ca_phase st \<notin> {Ctl_Ready, Ctl_Finished}"
  shows "\<exists>s'. talk E s s' \<and> total_distance s' < total_distance s"
proof -
  have fits: "fits E (cj_job_id (cv_job s)) a st (cv_stage s a) [] (cv_down s a)"
    using conversation_inv_agent [OF inv st] up by simp
  let ?p = "ca_prepare st"
  have fit: "phases_fit E a ?p (ca_phase st) (cv_stage s a) [] (cv_down s a)" using fits by (simp add: fits_def)
  have send: "\<And>f. se_send E f = Inr ()"
    and build: "\<And>shard o' timing. \<exists>ev. se_build E shard o' timing = Inr ev \<and> evidence_of (sh_agent_name shard) ev"
    using E by (simp_all add: good_setting_def)
  note step = stage_progress [OF st]
  show ?thesis
  proof (cases "ca_phase st")
    case Ctl_AwaitingHello
    then have "cv_stage s a = Stage_New" using fit by (simp add: phases_fit_def)
    with st Ctl_AwaitingHello show ?thesis by (intro step [OF talk.greet [of a s]]) (auto simp: dom_def)
  next
    case Ctl_Preparing
    show ?thesis
    proof (cases "cv_stage s a")
      case Stage_Greeted
      then have d: "cv_down s a \<noteq> []" using fit Ctl_Preparing by (simp add: phases_fit_def)
      obtain w where w: "worker_begin (se_send E) (se_parse E) (se_policy E a) (se_configure E) 0 (worker_machine E a)
          (Inr (Some (hd (cv_down s a)))) = ([], Inr w)"
        and ok: "phases_fit E a ?p Ctl_Preparing (Stage_Loop w) [] (tl (cv_down s a))"
        using begin_fits [OF fits [unfolded Stage_Greeted] d E, of 0] Ctl_Preparing by (auto simp: fits_def)
      from w Stage_Greeted Ctl_Preparing show ?thesis
        by (intro step [OF talk.prepare [OF Stage_Greeted d, of E 0]]) (auto simp: after_begin_def)
    next
      case (Stage_Loop w)
      then have l: "in_loop ?p w Said_Hello []" using fit Ctl_Preparing by (simp add: phases_fit_def)
      then have w: "worker_ok w" "\<not> wk_sent_ready w" by (auto simp: in_loop_def spoken_def split: if_splits)
      obtain w' out where r: "worker_pass (se_send E) (se_build E) (idle_tick\<lparr>wt_readiness := Some (strong E w)\<rparr>) w
          = (w', out, Worker_Continues)" "wk_sent_ready w'" using announcing_pass [OF send w] by blast
      have "good_tick E w (cv_down s a) (idle_tick\<lparr>wt_readiness := Some (strong E w)\<rparr>)"
        by (simp add: good_tick_def idle_tick_def strong_def)
      note step' = step [OF talk.pass [where s = s, OF Stage_Loop this]]
        from r w Stage_Loop Ctl_Preparing show ?thesis by (intro step') (auto simp: after_pass_def)
    qed (use fit Ctl_Preparing in \<open>simp_all add: phases_fit_def\<close>)
  next
    case Ctl_Running
    show ?thesis
    proof (cases "cv_stage s a")
      case (Stage_Loop w)
      then have l: "in_loop ?p w Said_Ready []" and d: "wk_start w = None \<and>
          (\<exists>ms. cv_down s a = [start_frame_of (pf_job_id ?p) ms]) \<or> wk_start w \<noteq> None \<and> cv_down s a = []"
        using fit Ctl_Running by (auto simp: phases_fit_def)
      have w: "worker_ok w" "wk_prepare w = ?p" using l by (auto simp: in_loop_def)
      from d show ?thesis
      proof (elim disjE conjE exE)
        fix ms
        assume n: "wk_start w = None" and down: "cv_down s a = [start_frame_of (pf_job_id ?p) ms]"
        let ?t = "idle_tick\<lparr>wt_poll := WPoll_Frame (start_frame_of (pf_job_id ?p) ms)\<rparr>"
        have t: "good_tick E w (cv_down s a) ?t" and u: "unread ?t (cv_down s a) = []"
          by (simp_all add: good_tick_def idle_tick_def down unread_def)
        have "cv_down s a = [] \<or> (\<exists>ms. cv_down s a = [start_frame_of (pf_job_id (wk_prepare w)) ms] \<and> wk_sent_ready w \<and> wk_start w = None)"
          using n w(2) in_loop_ready [OF l] unfolding down by auto
        from good_pass [OF send w(1) t this build] n u down obtain w' out where
          r: "worker_pass (se_send E) (se_build E) ?t w = (w', out, Worker_Continues)" "wk_start w' \<noteq> None"
          by (elim exE conjE disjE) simp_all
        note step' = step [OF talk.pass [where s = s, OF Stage_Loop t]]
          from r n Stage_Loop Ctl_Running show ?thesis by (intro step') (auto simp: after_pass_def)
      next
        assume n: "wk_start w \<noteq> None"
        let ?t = "idle_tick\<lparr>wt_engine := Some (Engine_Done scenario_outcome_default (Some (gate_open (strong E w) 0 0)))\<rparr>"
        obtain w' out where r: "worker_pass (se_send E) (se_build E) ?t w = (w', out, Worker_Stops (Inr ()))"
          using finishing_pass [OF send w(1) n build] by blast
        have "good_tick E w (cv_down s a) ?t" using n by (simp add: good_tick_def idle_tick_def)
        note step' = step [OF talk.pass [where s = s, OF Stage_Loop this]]
          from r n Stage_Loop Ctl_Running show ?thesis by (intro step') (auto simp: after_pass_def)
      qed
    qed (use fit Ctl_Running in \<open>simp_all add: phases_fit_def last_words_def\<close>)
  qed (use phase fit in \<open>simp_all add: phases_fit_def\<close>)
qed

lemma talk_progress:
  assumes E: "good_setting E" and inv: "talk_inv_of E prepares s" and unfinished: "\<not> all_finished s"
  shows "\<exists>s'. talk E s s' \<and> (total_distance s' < total_distance s
     \<or> total_distance s' \<le> total_distance s \<and> total_flight s' < total_flight s)"
proof -
  have c: "conversation_inv E s" and j: "job_inv (cv_job s)"
    using inv by (auto simp: talk_inv_of_def intro: ctl_reachable_inv)
  have wf: "bt_wf (cj_agents (cv_job s))" using j by (simp add: job_inv_def)
  show ?thesis
  proof (cases "\<exists>a. cv_up s a \<noteq> []")
    case True
    then show ?thesis using hear_progress [OF c E] by blast
  next
    case quiet: False
    show ?thesis
    proof (cases "\<exists>a st. bt_get (cj_agents (cv_job s)) a = Some st \<and> ca_phase st \<notin> {Ctl_Ready, Ctl_Finished}")
      case True
      then show ?thesis using worker_progress [OF c E] quiet by blast
    next
      case False
      obtain a st where a: "(a, st) \<in> set (cj_agents (cv_job s))" "ca_phase st \<noteq> Ctl_Finished"
        using unfinished by (auto simp: all_finished_def list_all_iff)
      then have st: "bt_get (cj_agents (cv_job s)) a = Some st" "ca_phase st = Ctl_Ready"
        using False bt_wf_get_mem [OF wf] by auto
      have "ca_phase st' = Ctl_Ready" if "(b, st') \<in> set (cj_agents (cv_job s))" for b st'
      proof -
        have "bt_get (cj_agents (cv_job s)) b = Some st'" using that bt_wf_get_mem [OF wf] by blast
        then show ?thesis
          using False j st unfolding job_inv_def start_barrier_def
          by (metis before_start_def insertCI insertE released_def singletonD)
      qed
      then have "all_ready (cv_job s)" by (auto simp: all_ready_def list_all_iff)
      moreover have "names_of s \<noteq> {}" using st by (auto simp: names_of_def)
      ultimately show ?thesis using start_progress [OF c] by blast
    qed
  qed
qed

lemma talk_completes:
  assumes E: "good_setting E" and "talk_inv_of E prepares s"
  shows "\<exists>s'. (talk E)\<^sup>*\<^sup>* s s' \<and> talk_inv_of E prepares s' \<and> all_finished s'"
  using assms(2)
proof (induction s rule: wf_induct_rule [OF wf_measures [of "[total_distance, total_flight]"]])
  case (1 s)
  show ?case
  proof (cases "all_finished s")
    case True
    then show ?thesis using 1(2) by blast
  next
    case False
    from talk_progress [OF E 1(2) False] obtain s1 where s1: "talk E s s1"
      "total_distance s1 < total_distance s \<or> total_distance s1 \<le> total_distance s \<and> total_flight s1 < total_flight s"
      by blast
    then have "(s1, s) \<in> measures [total_distance, total_flight]" by (auto simp: le_less)
    from 1(1) [OF this talk_inv_step [OF E 1(2) s1(1)]] s1(1) show ?thesis
      by (meson converse_rtranclp_into_rtranclp)
  qed
qed

subsection \<open>Properties\<close>

text \<open>
  C2. The two state machines agree on the protocol. Take any cohort whose workers admit their jobs, in
  surroundings where channels deliver, targets look alike and nobody cancels, and interleave the
  components arbitrarily. Then no operation of either side ever returns an error, no agent is marked
  failed, and the controller's phase, the worker's stage and the frames in flight always fit: in
  particular every frame that reaches either side is one it expects.
\<close>

theorem conversation_never_refused:
  assumes "good_setting E" and "controller_new prepares = Inr j"
    and "\<forall>p \<in> set prepares. admits E (sh_agent_name (pf_shard p)) p" and "(talk E)\<^sup>*\<^sup>* (curtain_up j) s"
  shows "\<not> cv_faulty s \<and> \<not> has_failure (cv_job s)
     \<and> (\<forall>a st. bt_get (cj_agents (cv_job s)) a = Some st \<longrightarrow>
          phases_fit E a (ca_prepare st) (ca_phase st) (cv_stage s a) (cv_up s a) (cv_down s a))"
proof -
  have inv: "talk_inv_of E prepares s"
    using talk_reachable_inv [OF assms(1) curtain_up_inv [OF assms(2,3)] assms(4)] .
  then have c: "conversation_inv E s" and j: "job_inv (cv_job s)"
    by (auto simp: talk_inv_of_def intro: ctl_reachable_inv)
  have fit: "phases_fit E a (ca_prepare st) (ca_phase st) (cv_stage s a) (cv_up s a) (cv_down s a)"
    if "bt_get (cj_agents (cv_job s)) a = Some st" for a st
    using conversation_inv_agent [OF c that] by (simp add: fits_def)
  have "ca_phase st \<noteq> Ctl_Failed" if "(a, st) \<in> set (cj_agents (cv_job s))" for a st
    using fit [OF job_inv_get(1) [OF j that]] by (auto simp: phases_fit_def)
  then have "\<not> has_failure (cv_job s)" by (auto simp: has_failure_def list_ex_iff)
  with c fit show ?thesis by (simp add: conversation_inv_def)
qed

text \<open>
  C3. And they cannot deadlock: from every point of such a conversation the run can still be completed.
  Some continuation ends with every worker done and every agent finished, with the final evidence of
  exactly the planned agents in name order; no reachable state is a dead end.
\<close>

theorem conversation_always_completes:
  assumes "good_setting E" and "controller_new prepares = Inr j"
    and "\<forall>p \<in> set prepares. admits E (sh_agent_name (pf_shard p)) p" and "(talk E)\<^sup>*\<^sup>* (curtain_up j) s"
  shows "\<exists>s' evs. (talk E)\<^sup>*\<^sup>* s s' \<and> \<not> cv_faulty s' \<and> controller_is_terminal (cv_job s')
     \<and> final_evidence (cv_job s') = Inr evs \<and> map ev_agent_name evs = sort (map prepare_name prepares)
     \<and> (\<forall>p \<in> set prepares. cv_stage s' (prepare_name p) = Stage_Done)"
proof -
  have inv: "talk_inv_of E prepares s"
    using talk_reachable_inv [OF assms(1) curtain_up_inv [OF assms(2,3)] assms(4)] .
  obtain s' where s': "(talk E)\<^sup>*\<^sup>* s s'" "talk_inv_of E prepares s'" "all_finished s'"
    using talk_completes [OF assms(1) inv] by blast
  have c: "conversation_inv E s'" and r: "ctl_reachable prepares (cv_job s')"
    using s'(2) by (simp_all add: talk_inv_of_def)
  have j: "job_inv (cv_job s')" using r by (rule ctl_reachable_inv)
  obtain evs where evs: "final_evidence (cv_job s') = Inr evs"
    using final_evidence_total [OF j] s'(3) by (auto simp: all_finished_def)
  have keys: "bt_keys (cj_agents (cv_job s')) = sort (map prepare_name prepares)"
    using ctl_reachable_keys [OF r] by blast
  have "controller_is_terminal (cv_job s')"
    using s'(3) by (auto simp: controller_is_terminal_def all_finished_def list_all_iff controller_terminal_def)
  moreover have "cv_stage s' (prepare_name p) = Stage_Done" if "p \<in> set prepares" for p
  proof -
    have "prepare_name p \<in> set (bt_keys (cj_agents (cv_job s')))" using that by (simp add: keys)
    then obtain st where st: "(prepare_name p, st) \<in> set (cj_agents (cv_job s'))" by auto
    then have "ca_phase st = Ctl_Finished" using s'(3) by (auto simp: all_finished_def list_all_iff)
    then show ?thesis
      using conversation_inv_agent [OF c job_inv_get(1) [OF j st]] by (simp add: fits_def phases_fit_def)
  qed
  ultimately show ?thesis
    using s'(1) c evs final_evidence_names(1) [OF j evs] keys by (auto simp: conversation_inv_def)
qed

subsection \<open>A conversation of two workers\<close>

definition sample_setting :: setting where
  "sample_setting = \<lparr>se_version = ''0.2.0'', se_policy = (\<lambda>_. agent_policy_default), se_parse = sample_parse,
     se_configure = (\<lambda>_ _. Inr ()), se_send = (\<lambda>_. Inr ()), se_build = sample_build, se_protocol = ''p'',
     se_inventory = ''h''\<rparr>"

definition pair_work :: "string \<Rightarrow> u32 \<Rightarrow> prepare_frame" where
  "pair_work name index = (sample_work ''https://example.com/'')\<lparr>pf_shard :=
     \<lparr>sh_agent_name = name, sh_index = index, sh_agent_count = 2, sh_concurrency = 2\<rparr>\<rparr>"

lemma sample_good: "good_setting sample_setting"
  by (simp add: good_setting_def sample_setting_def sample_build_def)

lemma pair_admitted:
  assumes "name \<noteq> []" "index < 2"
  shows "admits sample_setting name (pair_work name index)"
proof -
  have "check_work agent_policy_default (pair_work name index) = Inr ()"
    using sample_work_checked [of "''https://example.com/''"] assms
    by (simp add: check_work_Inr_iff pair_work_def sample_work_def)
  moreover have "\<exists>r. check_target sample_parse agent_policy_default (pf_target (pair_work name index)) = Inr r"
    using sample_authorized by (auto simp: authorize_def and_then_Inr_iff pair_work_def)
  ultimately show ?thesis by (auto simp: admits_def sample_setting_def authorize_def)
qed

lemma pair_job: "\<exists>j. controller_new [pair_work ''a'' 0, pair_work ''b'' 1] = Inr j"
  by (simp add: controller_new_def insert_prepare_def pair_work_def sample_work_def Let_def)

lemma pair_greets:
  assumes "controller_new [pair_work ''a'' 0, pair_work ''b'' 1] = Inr j"
  shows "\<exists>s. talk sample_setting (curtain_up j) s \<and> cv_stage s ''a'' = Stage_Greeted"
proof -
  have "''a'' \<in> set (bt_keys (cj_agents j))"
    using assms by (auto simp: controller_new_def insert_prepare_def pair_work_def sample_work_def Let_def)
  then have "''a'' \<in> dom (bt_get (cj_agents j))" by (simp add: dom_map_of_conv_image_fst)
  then show ?thesis
    using talk.greet [of "''a''" "curtain_up j" sample_setting] by (fastforce simp: curtain_up_def)
qed

lemma conversation_never_refused_witness:
  "\<exists>j s. controller_new [pair_work ''a'' 0, pair_work ''b'' 1] = Inr j
     \<and> talk sample_setting (curtain_up j) s \<and> cv_stage s ''a'' = Stage_Greeted \<and> \<not> cv_faulty s"
proof -
  obtain j where j: "controller_new [pair_work ''a'' 0, pair_work ''b'' 1] = Inr j" using pair_job by blast
  obtain s where s: "talk sample_setting (curtain_up j) s" "cv_stage s ''a'' = Stage_Greeted"
    using pair_greets [OF j] by blast
  have "\<forall>p \<in> set [pair_work ''a'' 0, pair_work ''b'' 1]. admits sample_setting (sh_agent_name (pf_shard p)) p"
    using pair_admitted [of "''a''" 0] pair_admitted [of "''b''" 1] by (simp add: pair_work_def)
  from conversation_never_refused [OF sample_good j this, of s] r_into_rtranclp [of "talk sample_setting", OF s(1)] s j
  show ?thesis by blast
qed

lemma conversation_always_completes_witness:
  "\<exists>j s s' evs. controller_new [pair_work ''a'' 0, pair_work ''b'' 1] = Inr j
     \<and> talk sample_setting (curtain_up j) s \<and> (talk sample_setting)\<^sup>*\<^sup>* s s'
     \<and> final_evidence (cv_job s') = Inr evs \<and> map ev_agent_name evs = [''a'', ''b'']"
proof -
  obtain j where j: "controller_new [pair_work ''a'' 0, pair_work ''b'' 1] = Inr j" using pair_job by blast
  obtain s where s: "talk sample_setting (curtain_up j) s" using pair_greets [OF j] by blast
  have a: "\<forall>p \<in> set [pair_work ''a'' 0, pair_work ''b'' 1]. admits sample_setting (sh_agent_name (pf_shard p)) p"
    using pair_admitted [of "''a''" 0] pair_admitted [of "''b''" 1] by (simp add: pair_work_def)
  have "sort (map prepare_name [pair_work ''a'' 0, pair_work ''b'' 1]) = [''a'', ''b'']"
    by (simp add: pair_work_def)
  with conversation_always_completes [OF sample_good j a, of s] r_into_rtranclp [of "talk sample_setting", OF s]
  obtain s' evs where "(talk sample_setting)\<^sup>*\<^sup>* s s'" "final_evidence (cv_job s') = Inr evs"
    "map ev_agent_name evs = [''a'', ''b'']" by metis
  with s j show ?thesis by (intro exI conjI)
qed

end
