(* ===== verification/Jsonrpc.thy ===== *)
theory Jsonrpc
  imports Wire Net Evidence
begin

section \<open>JSON-RPC envelopes and MCP messages\<close>

text \<open>
  \<open>crates/protocol/src/jsonrpc.rs\<close>, the response types of \<open>mcp.rs\<close> and \<open>crates/core/src/version.rs\<close>.
  The JSON text itself is \<open>serde_json\<close>'s: a parsed document is a \<open>json\<close> value whose top-level members
  are in document order, repeated keys included. The derived \<open>Deserialize\<close> implementations are written
  out: a struct is read from an object by field name, or, as \<open>serde\<close> also allows for a \<open>Value\<close>,
  from an array by position. Which decoding error is reported is not modelled beyond its kind.
\<close>

subsection \<open>Reading JSON values\<close>

datatype de_error =
    De_Syntax string
  | De_InvalidType
  | De_Length
  | De_Missing string
  | De_Duplicate string
  | De_Custom string

definition decimal_value :: "string \<Rightarrow> nat" where
  "decimal_value = foldl (\<lambda>n c. 10 * n + (byte_of c - 48)) 0"

definition is_digits :: "string \<Rightarrow> bool" where
  "is_digits t \<longleftrightarrow> t \<noteq> [] \<and> list_all is_ascii_digit t"

text \<open>\<open>Value::as_u64\<close>, and the deserializer of \<open>i64\<close>: a number written without fraction or exponent.\<close>

definition json_as_u64 :: "json \<Rightarrow> u64 option" where
  "json_as_u64 j =
     (case j of
        JNumber t \<Rightarrow> if is_digits t \<and> decimal_value t < 2 ^ 64 then Some (of_nat (decimal_value t)) else None
      | _ \<Rightarrow> None)"

definition json_as_i64 :: "json \<Rightarrow> int option" where
  "json_as_i64 j =
     (case j of
        JNumber t \<Rightarrow>
          if is_digits t \<and> decimal_value t < 2 ^ 63 then Some (int (decimal_value t))
          else if t \<noteq> [] \<and> hd t = CHR ''-'' \<and> is_digits (tl t)
            \<and> 0 < decimal_value (tl t) \<and> decimal_value (tl t) \<le> 2 ^ 63
          then Some (- int (decimal_value (tl t)))
          else None
      | _ \<Rightarrow> None)"

definition json_str :: "json \<Rightarrow> string option" where
  "json_str j = (case j of JString s \<Rightarrow> Some s | _ \<Rightarrow> None)"

definition json_array :: "json \<Rightarrow> json list option" where
  "json_array j = (case j of JArray xs \<Rightarrow> Some xs | _ \<Rightarrow> None)"

definition json_object :: "json \<Rightarrow> (string \<times> json) list option" where
  "json_object j = (case j of JObject ms \<Rightarrow> Some ms | _ \<Rightarrow> None)"

text \<open>\<open>Value::get\<close> with a string index.\<close>

definition json_get :: "json \<Rightarrow> string \<Rightarrow> json option" where
  "json_get j k = (case j of JObject ms \<Rightarrow> map_of ms k | _ \<Rightarrow> None)"

subsection \<open>Derived deserializers\<close>

definition de_fields :: "string list \<Rightarrow> json \<Rightarrow> de_error + (string \<Rightarrow> json option)" where
  "de_fields names j =
     (case j of
        JObject ms \<Rightarrow> Inr (map_of ms)
      | JArray xs \<Rightarrow> if length names < length xs then Inl De_Length else Inr (map_of (zip names xs))
      | _ \<Rightarrow> Inl De_InvalidType)"

definition de_required :: "string \<Rightarrow> (json \<Rightarrow> de_error + 'a) \<Rightarrow> (string \<Rightarrow> json option) \<Rightarrow> de_error + 'a" where
  "de_required k dec get = (case get k of None \<Rightarrow> Inl (De_Missing k) | Some v \<Rightarrow> dec v)"

definition de_default :: "string \<Rightarrow> 'a \<Rightarrow> (json \<Rightarrow> de_error + 'a) \<Rightarrow> (string \<Rightarrow> json option) \<Rightarrow> de_error + 'a" where
  "de_default k d dec get = (case get k of None \<Rightarrow> Inr d | Some v \<Rightarrow> dec v)"

definition de_string :: "json \<Rightarrow> de_error + string" where
  "de_string j = ok_or De_InvalidType (json_str j)"

definition de_bool :: "json \<Rightarrow> de_error + bool" where
  "de_bool j = (case j of JBool b \<Rightarrow> Inr b | _ \<Rightarrow> Inl De_InvalidType)"

definition de_i64 :: "json \<Rightarrow> de_error + int" where
  "de_i64 j = ok_or De_InvalidType (json_as_i64 j)"

definition de_list :: "(json \<Rightarrow> de_error + 'a) \<Rightarrow> json \<Rightarrow> de_error + 'a list" where
  "de_list dec j = and_then (ok_or De_InvalidType (json_array j)) (traverse dec)"

definition de_option :: "(json \<Rightarrow> de_error + 'a) \<Rightarrow> json \<Rightarrow> de_error + 'a option" where
  "de_option dec j = (if j = JNull then Inr None else and_then (dec j) (\<lambda>a. Inr (Some a)))"

subsection \<open>The response envelope\<close>

definition JSONRPC_VERSION :: string where
  "JSONRPC_VERSION = ''2.0''"

record error_object =
  eo_code :: int
  eo_message :: string
  eo_data :: "json option"

definition de_error_object :: "json \<Rightarrow> de_error + error_object" where
  "de_error_object j =
     and_then (de_fields [''code'', ''message'', ''data''] j) (\<lambda>get.
     and_then (de_required ''code'' de_i64 get) (\<lambda>code.
     and_then (de_required ''message'' de_string get) (\<lambda>message.
     and_then (de_default ''data'' None (de_option Inr) get) (\<lambda>data.
     Inr \<lparr>eo_code = code, eo_message = message, eo_data = data\<rparr>))))"

datatype response_payload = Payload_Ok json | Payload_Err error_object

record response_envelope =
  re_jsonrpc :: string
  re_id :: json
  re_payload :: response_payload

text \<open>The one member with this name; the map that \<open>serde(flatten)\<close> fills keeps the last of several.\<close>

definition de_unique :: "string \<Rightarrow> (string \<times> json) list \<Rightarrow> de_error + json" where
  "de_unique k ms =
     (case filter (\<lambda>m. fst m = k) ms of
        [] \<Rightarrow> Inl (De_Missing k)
      | [m] \<Rightarrow> Inr (snd m)
      | _ \<Rightarrow> Inl (De_Duplicate k))"

definition last_member :: "string \<Rightarrow> (string \<times> json) list \<Rightarrow> json option" where
  "last_member k ms = map_of (rev ms) k"

definition de_envelope :: "json \<Rightarrow> de_error + response_envelope" where
  "de_envelope j =
     and_then (ok_or De_InvalidType (json_object j)) (\<lambda>ms.
     and_then (and_then (de_unique ''jsonrpc'' ms) de_string) (\<lambda>jsonrpc.
     and_then (de_unique ''id'' ms) (\<lambda>ident.
     and_then (case (last_member ''result'' ms, last_member ''error'' ms) of
         (Some result, None) \<Rightarrow> Inr (Payload_Ok result)
       | (None, Some err) \<Rightarrow> and_then (de_error_object err) (\<lambda>e. Inr (Payload_Err e))
       | (Some _, Some _) \<Rightarrow> Inl (De_Custom ''JSON-RPC response cannot contain both `result` and `error`'')
       | (None, None) \<Rightarrow> Inl (De_Custom ''JSON-RPC response requires exactly one of `result` or `error`''))
       (\<lambda>payload.
     Inr \<lparr>re_jsonrpc = jsonrpc, re_id = ident, re_payload = payload\<rparr>))))"

text \<open>\<open>OutgoingRequest\<close> and \<open>OutgoingNotification\<close> as the objects they serialize to.\<close>

definition show_u64 :: "u64 \<Rightarrow> string" where
  "show_u64 n = show_base 10 (unat n)"

definition outgoing_request :: "u64 \<Rightarrow> string \<Rightarrow> json \<Rightarrow> json" where
  "outgoing_request ident method params =
     JObject [(''jsonrpc'', JString JSONRPC_VERSION), (''id'', JNumber (show_u64 ident)),
       (''method'', JString method), (''params'', params)]"

definition outgoing_notification :: "string \<Rightarrow> json \<Rightarrow> json" where
  "outgoing_notification method params =
     JObject [(''jsonrpc'', JString JSONRPC_VERSION), (''method'', JString method), (''params'', params)]"

subsection \<open>Protocol revisions\<close>

datatype protocol_version = V2025_03_26 | V2025_06_18 | V2025_11_25 | V2026_07_28

definition DEFAULT_ADVERTISED :: protocol_version where
  "DEFAULT_ADVERTISED = V2025_11_25"

definition SUPPORTED_versions :: "protocol_version list" where
  "SUPPORTED_versions = [V2025_03_26, V2025_06_18, V2025_11_25]"

definition ALL_versions :: "protocol_version list" where
  "ALL_versions = [V2025_03_26, V2025_06_18, V2025_11_25, V2026_07_28]"

fun version_as_str :: "protocol_version \<Rightarrow> string" where
  "version_as_str V2025_03_26 = ''2025-03-26''"
| "version_as_str V2025_06_18 = ''2025-06-18''"
| "version_as_str V2025_11_25 = ''2025-11-25''"
| "version_as_str V2026_07_28 = ''2026-07-28''"

fun is_stateless :: "protocol_version \<Rightarrow> bool" where
  "is_stateless V2026_07_28 = True"
| "is_stateless _ = False"

definition version_parse :: "string \<Rightarrow> protocol_version option" where
  "version_parse s = find (\<lambda>v. version_as_str v = s) ALL_versions"

lemma version_parse_iff: "version_parse s = Some v \<longleftrightarrow> version_as_str v = s"
proof -
  have "version_as_str V2025_03_26 = ''2025-03-26''" by simp
  then show ?thesis by (cases v) (auto simp: version_parse_def ALL_versions_def)
qed

lemma version_parse_as_str [simp]: "version_parse (version_as_str v) = Some v"
  by (simp add: version_parse_iff)

subsection \<open>Results of MCP methods\<close>

datatype content =
    Content_Text string
  | Content_Image string string
  | Content_Raw json

definition de_content :: "json \<Rightarrow> de_error + content" where
  "de_content j =
     and_then (ok_or (De_Custom ''MCP content block must be an object'') (json_object j)) (\<lambda>ms.
     let text_of = (\<lambda>k. Option.bind (map_of ms k) json_str) in
     and_then (ok_or (De_Custom ''MCP content block requires string field `type`'') (text_of ''type''))
       (\<lambda>content_type.
     if content_type = ''text'' then
       and_then (ok_or (De_Custom ''MCP text content requires string field `text`'') (text_of ''text''))
         (\<lambda>body. Inr (if length ms = 2 then Content_Text body else Content_Raw j))
     else if content_type = ''image'' then
       and_then (ok_or (De_Custom ''MCP image content requires string field `data`'') (text_of ''data''))
         (\<lambda>bytes.
       and_then (ok_or (De_Custom ''MCP image content requires string field `mimeType`'')
           (text_of ''mimeType'')) (\<lambda>mime_type.
       Inr (if length ms = 3 then Content_Image bytes mime_type else Content_Raw j)))
     else Inr (Content_Raw j)))"

record call_tool_result =
  ct_meta :: "json option"
  ct_content :: "content list"
  ct_is_error :: bool
  ct_structured_content :: "json option"

definition de_call_tool_result :: "json \<Rightarrow> de_error + call_tool_result" where
  "de_call_tool_result j =
     and_then (de_fields [''_meta'', ''content'', ''isError'', ''structuredContent''] j) (\<lambda>get.
     and_then (de_default ''_meta'' None (de_option Inr) get) (\<lambda>meta.
     and_then (de_required ''content'' (de_list de_content) get) (\<lambda>contents.
     and_then (de_default ''isError'' False de_bool get) (\<lambda>is_error.
     and_then (de_default ''structuredContent'' None (de_option Inr) get) (\<lambda>structured.
     Inr \<lparr>ct_meta = meta, ct_content = contents, ct_is_error = is_error,
          ct_structured_content = structured\<rparr>)))))"

record input_required_result =
  ir_meta :: "json option"
  ir_input_requests :: "(string \<times> json) list option"
  ir_request_state :: "string option"
  ir_result_type :: string

definition de_input_required_result :: "json \<Rightarrow> de_error + input_required_result" where
  "de_input_required_result j =
     and_then (de_fields [''_meta'', ''inputRequests'', ''requestState'', ''resultType''] j) (\<lambda>get.
     and_then (de_default ''_meta'' None (de_option Inr) get) (\<lambda>meta.
     and_then (de_default ''inputRequests'' None
       (de_option (\<lambda>v. ok_or De_InvalidType (json_object v))) get) (\<lambda>requests.
     and_then (de_default ''requestState'' None (de_option de_string) get) (\<lambda>state.
     and_then (de_required ''resultType'' de_string get) (\<lambda>result_type.
     Inr \<lparr>ir_meta = meta, ir_input_requests = requests, ir_request_state = state,
          ir_result_type = result_type\<rparr>)))))"

datatype tool_call_round = Round_Complete call_tool_result | Round_InputRequired input_required_result

definition de_tool_call_round :: "json \<Rightarrow> de_error + tool_call_round" where
  "de_tool_call_round j =
     (let result_type = Option.bind (json_get j ''resultType'') json_str in
      if result_type = Some ''input_required'' then
        and_then (de_input_required_result j) (\<lambda>input.
        if ir_request_state input = None \<and> ir_input_requests input = None
        then Inl (De_Custom ''input_required result needs requestState or inputRequests'')
        else Inr (Round_InputRequired input))
      else if result_type \<in> {None, Some ''complete''} then
        and_then (de_call_tool_result j) (\<lambda>r. Inr (Round_Complete r))
      else Inl (De_Custom (''unsupported tools/call resultType `'' @ the result_type @ ''`'')))"

record tool =
  tl_name :: string
  tl_description :: "string option"
  tl_input_schema :: json
  tl_output_schema :: "json option"

definition de_tool :: "json \<Rightarrow> de_error + tool" where
  "de_tool j =
     and_then (de_fields [''name'', ''description'', ''inputSchema'', ''outputSchema''] j) (\<lambda>get.
     and_then (de_required ''name'' de_string get) (\<lambda>name.
     and_then (de_default ''description'' None (de_option de_string) get) (\<lambda>description.
     and_then (de_default ''inputSchema'' JNull Inr get) (\<lambda>input_schema.
     and_then (de_default ''outputSchema'' None (de_option Inr) get) (\<lambda>output_schema.
     Inr \<lparr>tl_name = name, tl_description = description, tl_input_schema = input_schema,
          tl_output_schema = output_schema\<rparr>)))))"

definition de_list_tools_result :: "json \<Rightarrow> de_error + tool list" where
  "de_list_tools_result j =
     and_then (de_fields [''tools''] j) (de_required ''tools'' (de_list de_tool))"

text \<open>The server's identity is read for its shape only, as are the capabilities.\<close>

definition de_server_info :: "json \<Rightarrow> de_error + string \<times> string" where
  "de_server_info j =
     and_then (de_fields [''name'', ''version''] j) (\<lambda>get.
     and_then (de_required ''name'' de_string get) (\<lambda>name.
     and_then (de_required ''version'' de_string get) (\<lambda>version. Inr (name, version))))"

definition de_initialize_result :: "json \<Rightarrow> de_error + string" where
  "de_initialize_result j =
     and_then (de_fields [''protocolVersion'', ''capabilities'', ''serverInfo''] j) (\<lambda>get.
     and_then (de_required ''protocolVersion'' de_string get) (\<lambda>version.
     and_then (de_default ''capabilities'' JNull Inr get) (\<lambda>_.
     and_then (de_default ''serverInfo'' None (de_option de_server_info) get) (\<lambda>_.
     Inr version))))"

definition de_discover_result :: "json \<Rightarrow> de_error + string list" where
  "de_discover_result j =
     and_then (de_fields [''supportedVersions'', ''capabilities'', ''resultType'', ''_meta''] j) (\<lambda>get.
     and_then (de_required ''supportedVersions'' (de_list de_string) get) (\<lambda>versions.
     and_then (de_default ''capabilities'' JNull Inr get) (\<lambda>_.
     and_then (de_default ''resultType'' None (de_option de_string) get) (\<lambda>_.
     and_then (de_default ''_meta'' JNull Inr get) (\<lambda>_. Inr versions)))))"

end
