(* ===== verification/Session.thy ===== *)
theory Session
  imports Jsonrpc Host_Guard
begin

section \<open>The MCP session\<close>

text \<open>
  \<open>Session\<close> of \<open>crates/protocol/src/session/\<close> (\<open>mod.rs\<close>, \<open>request.rs\<close>, \<open>lifecycle.rs\<close>,
  \<open>connection.rs\<close>, \<open>strict.rs\<close>, \<open>version.rs\<close>) and the policy of \<open>schema.rs\<close>. A session drives a
  \<open>Box<dyn Transport>\<close>: the trait is the interface here too, a record of its operations on the
  transport's state. An \<open>async\<close> operation returns \<open>None\<close> when it has no answer before its caller
  drops it (a timeout elapses, or a cancellation wins the \<open>select!\<close>); the state is then what the
  operation had done before it waited. JSON text and JSON Schema validation are library code: \<open>show\<close>
  and \<open>parse\<close>, and the compiled validator, which lists the violated locations.
\<close>

record 't session_api =
  api_request :: "'t \<Rightarrow> string \<Rightarrow> 't \<times> (transport_error + string) option"
  api_notify :: "'t \<Rightarrow> string \<Rightarrow> 't \<times> (transport_error + unit) option"
  api_raw_send :: "'t \<Rightarrow> u8 list \<Rightarrow> 't \<times> (transport_error + unit) option"
  api_set_protocol_version :: "'t \<Rightarrow> string \<Rightarrow> 't"
  api_shutdown :: "'t \<Rightarrow> (transport_error + unit) option"
  api_show :: "json \<Rightarrow> string"
  api_parse :: "string \<Rightarrow> string + json"
  api_show_duration :: "duration \<Rightarrow> string"
  api_show_de :: "de_error \<Rightarrow> string"
  api_compile :: "json \<Rightarrow> (json \<Rightarrow> (string \<times> string) list) option"
  api_client_version :: string

subsection \<open>Errors\<close>

datatype session_error =
    SE_Io string
  | SE_Json de_error
  | SE_ResponseShape de_error
  | SE_Server error_object
  | SE_Transport transport_error
  | SE_IdMismatch u64 u64
  | SE_InvalidResponseId u64 json
  | SE_MismatchedSuccess u64 json json
  | SE_MismatchedError u64 json error_object
  | SE_InvalidJsonRpcVersion string
  | SE_StartupTimeout duration
  | SE_SchemaViolation string string
  | SE_UnsupportedProtocolVersion string string
  | SE_AdditionalInputRequired
  | SE_InvalidInputResponses

definition show_i64 :: "int \<Rightarrow> string" where
  "show_i64 n = (if n < 0 then ''-'' @ show_base 10 (nat (- n)) else show_base 10 (nat n))"

definition show_error_object :: "error_object \<Rightarrow> string" where
  "show_error_object e = ''JSON-RPC error '' @ show_i64 (eo_code e) @ '': '' @ eo_message e"

fun show_transport_error :: "'t session_api \<Rightarrow> transport_error \<Rightarrow> string" where
  "show_transport_error A (TE_Io e) = ''io: '' @ e"
| "show_transport_error A (TE_Http e) = ''http: '' @ e"
| "show_transport_error A TE_Closed = ''connection closed''"
| "show_transport_error A (TE_Timeout d) = ''timeout after '' @ api_show_duration A d"
| "show_transport_error A (TE_Other e) = e"

fun show_session_error :: "'t session_api \<Rightarrow> session_error \<Rightarrow> string" where
  "show_session_error A (SE_Io e) = ''io: '' @ e"
| "show_session_error A (SE_Json e) = ''json: '' @ api_show_de A e"
| "show_session_error A (SE_ResponseShape e) = ''response shape: '' @ api_show_de A e"
| "show_session_error A (SE_Server e) = show_error_object e"
| "show_session_error A (SE_Transport e) = ''transport: '' @ show_transport_error A e"
| "show_session_error A (SE_IdMismatch expected got) =
     ''id mismatch: sent '' @ show_u64 expected @ '', got '' @ show_u64 got"
| "show_session_error A (SE_InvalidResponseId expected got) =
     ''id mismatch: sent '' @ show_u64 expected @ '', got '' @ api_show A got"
| "show_session_error A (SE_MismatchedSuccess expected got _) =
     ''id mismatch: sent '' @ show_u64 expected @ '', got '' @ api_show A got @ '' (success response)''"
| "show_session_error A (SE_MismatchedError expected got e) =
     ''id mismatch: sent '' @ show_u64 expected @ '', got '' @ api_show A got @ '' ('' @ show_error_object e @ '')''"
| "show_session_error A (SE_InvalidJsonRpcVersion got) =
     ''invalid JSON-RPC response version `'' @ got @ ''` (expected `2.0`)''"
| "show_session_error A (SE_StartupTimeout d) =
     ''server did not respond to initialize within '' @ api_show_duration A d"
| "show_session_error A (SE_SchemaViolation tool_name summary) =
     ''schema violation for tool `'' @ tool_name @ ''`: '' @ summary"
| "show_session_error A (SE_UnsupportedProtocolVersion got advertised) =
     ''server negotiated unsupported protocol version `'' @ got @ ''` (client advertised `'' @ advertised @ ''`)''"
| "show_session_error A SE_AdditionalInputRequired =
     ''tool call requires an additional input round; use call_tool_round''"
| "show_session_error A SE_InvalidInputResponses = ''tools/call inputResponses must be a JSON object''"

subsection \<open>State\<close>

record stateless_meta =
  stm_version :: protocol_version
  stm_client_name :: string
  stm_client_version :: string
  stm_capabilities :: json

record 't session =
  ss_transport :: 't
  ss_next_id :: u64
  ss_server_protocol_version :: string
  ss_advertised_version :: protocol_version
  ss_negotiated_version :: "protocol_version option"
  ss_stateless :: "stateless_meta option"
  ss_tool_schemas :: "(string \<Rightarrow> json option) option"
  ss_tool_output_schemas :: "(string \<Rightarrow> json option) option"

type_synonym ('t, 'a) session_result = "'t session \<times> (session_error + 'a) option"

text \<open>The next operation on the session, unless the first failed or never answered.\<close>

definition await_then :: "('t, 'a) session_result \<Rightarrow> ('a \<Rightarrow> 't session \<Rightarrow> ('t, 'b) session_result) \<Rightarrow> ('t, 'b) session_result" where
  "await_then r f =
     (case r of
        (s, None) \<Rightarrow> (s, None)
      | (s, Some (Inl e)) \<Rightarrow> (s, Some (Inl e))
      | (s, Some (Inr a)) \<Rightarrow> f a s)"

subsection \<open>Requests\<close>

definition response_shape_error :: "string \<Rightarrow> string \<Rightarrow> session_error" where
  "response_shape_error method detail =
     SE_ResponseShape (De_Custom (''stateless 2026-07-28 `'' @ method @ ''` result '' @ detail))"

definition check_result_type :: "string \<Rightarrow> json option \<Rightarrow> session_error + unit" where
  "check_result_type method field =
     (case field of
        Some (JString result_type) \<Rightarrow>
          if result_type = ''complete'' \<or> method = ''tools/call'' \<and> result_type = ''input_required'' then Inr ()
          else Inl (response_shape_error method
            (''has unsupported `resultType` value `'' @ result_type @ ''`''))
      | Some _ \<Rightarrow> Inl (response_shape_error method ''field `resultType` must be the string `complete`'')
      | None \<Rightarrow>
          if method = ''tools/call'' then Inr ()
          else Inl (response_shape_error method ''is missing required field `resultType`''))"

definition check_ttl_ms :: "string \<Rightarrow> json option \<Rightarrow> session_error + unit" where
  "check_ttl_ms method field =
     (case field of
        Some v \<Rightarrow> fail_if (json_as_u64 v = None)
          (response_shape_error method ''field `ttlMs` must be a non-negative integer'')
      | None \<Rightarrow> Inl (response_shape_error method ''is missing required field `ttlMs`''))"

definition check_cache_scope :: "string \<Rightarrow> json option \<Rightarrow> session_error + unit" where
  "check_cache_scope method field =
     (case field of
        Some (JString scope) \<Rightarrow> fail_if (scope \<notin> {''private'', ''public''})
          (response_shape_error method (''has unsupported `cacheScope` value `'' @ scope @ ''`''))
      | Some _ \<Rightarrow> Inl (response_shape_error method
          ''field `cacheScope` must be the string `private` or `public`'')
      | None \<Rightarrow> Inl (response_shape_error method ''is missing required field `cacheScope`''))"

definition validate_final_stateless_result :: "string \<Rightarrow> json \<Rightarrow> session_error + unit" where
  "validate_final_stateless_result method result =
     and_then (ok_or (response_shape_error method ''must be an object'') (json_object result)) (\<lambda>ms.
     and_then (check_result_type method (map_of ms ''resultType'')) (\<lambda>_.
     if method \<in> {''server/discover'', ''tools/list''} then
       and_then (check_ttl_ms method (map_of ms ''ttlMs'')) (\<lambda>_.
       check_cache_scope method (map_of ms ''cacheScope''))
     else Inr ()))"

text \<open>\<open>WithMeta\<close>: the parameters' members, then \<open>_meta\<close>; only map-shaped parameters can be flattened.\<close>

definition with_meta :: "json \<Rightarrow> stateless_meta \<Rightarrow> de_error + json" where
  "with_meta params meta =
     (case params of
        JObject ms \<Rightarrow> Inr (JObject (ms @ [(''_meta'', JObject
          [(''io.modelcontextprotocol/protocolVersion'', JString (version_as_str (stm_version meta))),
           (''io.modelcontextprotocol/clientInfo'', JObject
             [(''name'', JString (stm_client_name meta)), (''version'', JString (stm_client_version meta))]),
           (''io.modelcontextprotocol/clientCapabilities'', stm_capabilities meta)])]))
      | _ \<Rightarrow> Inl (De_Custom ''can only flatten structs and maps''))"

definition request_body :: "'t session \<Rightarrow> u64 \<Rightarrow> string \<Rightarrow> json \<Rightarrow> de_error + json" where
  "request_body s ident method params =
     (case ss_stateless s of
        Some meta \<Rightarrow> and_then (with_meta params meta) (\<lambda>p. Inr (outgoing_request ident method p))
      | None \<Rightarrow> Inr (outgoing_request ident method params))"

text \<open>What \<open>request\<close> makes of the body that came back for the id it sent.\<close>

definition read_response ::
  "'t session_api \<Rightarrow> (json \<Rightarrow> de_error + 'r) \<Rightarrow> string \<Rightarrow> u64 \<Rightarrow> stateless_meta option \<Rightarrow> string \<Rightarrow> session_error + 'r" where
  "read_response A dec method ident stateless body =
     and_then (map_err (\<lambda>e. SE_Json (De_Syntax e)) (api_parse A body)) (\<lambda>v.
     and_then (map_err SE_Json (de_envelope v)) (\<lambda>env.
     if re_jsonrpc env \<noteq> JSONRPC_VERSION then Inl (SE_InvalidJsonRpcVersion (re_jsonrpc env))
     else if json_as_u64 (re_id env) \<noteq> Some ident then
       Inl (case re_payload env of
              Payload_Ok result \<Rightarrow> SE_MismatchedSuccess ident (re_id env) result
            | Payload_Err e \<Rightarrow> SE_MismatchedError ident (re_id env) e)
     else case re_payload env of
         Payload_Ok result \<Rightarrow>
           and_then (if map_option stm_version stateless = Some V2026_07_28
               then validate_final_stateless_result method result else Inr ()) (\<lambda>_.
           map_err SE_ResponseShape (dec result))
       | Payload_Err e \<Rightarrow> Inl (SE_Server e)))"

definition session_request ::
  "'t session_api \<Rightarrow> (json \<Rightarrow> de_error + 'r) \<Rightarrow> string \<Rightarrow> json \<Rightarrow> 't session \<Rightarrow> ('t, 'r) session_result" where
  "session_request A dec method params s =
     (let ident = ss_next_id s; s1 = s\<lparr>ss_next_id := ident + 1\<rparr> in
      case request_body s1 ident method params of
        Inl e \<Rightarrow> (s1, Some (Inl (SE_Json e)))
      | Inr body \<Rightarrow>
          (case api_request A (ss_transport s1) (api_show A body) of
             (t, r) \<Rightarrow> (s1\<lparr>ss_transport := t\<rparr>,
               map_option (\<lambda>answer. and_then (map_err SE_Transport answer)
                 (read_response A dec method ident (ss_stateless s1))) r)))"

definition session_notify :: "'t session_api \<Rightarrow> string \<Rightarrow> json \<Rightarrow> 't session \<Rightarrow> ('t, unit) session_result" where
  "session_notify A method params s =
     (case api_notify A (ss_transport s) (api_show A (outgoing_notification method params)) of
        (t, r) \<Rightarrow> (s\<lparr>ss_transport := t\<rparr>, map_option (map_err SE_Transport) r))"

definition session_raw_send :: "'t session_api \<Rightarrow> u8 list \<Rightarrow> 't session \<Rightarrow> ('t, unit) session_result" where
  "session_raw_send A bytes s =
     (case api_raw_send A (ss_transport s) bytes of
        (t, r) \<Rightarrow> (s\<lparr>ss_transport := t\<rparr>, map_option (map_err SE_Transport) r))"

definition list_tools :: "'t session_api \<Rightarrow> 't session \<Rightarrow> ('t, tool list) session_result" where
  "list_tools A = session_request A de_list_tools_result ''tools/list'' (JObject [])"

subsection \<open>Strict schema validation\<close>

record schema_violation =
  sv_path :: string
  sv_message :: string

datatype validation_site = Tool_Call_Args | Tool_Call_Result

datatype schema_policy = Policy_Fail | Policy_Warn | Policy_Ignore

fun replace_pair :: "char \<Rightarrow> char \<Rightarrow> string \<Rightarrow> string \<Rightarrow> string" where
  "replace_pair a b r (x # y # s) =
     (if x = a \<and> y = b then r @ replace_pair a b r s else x # replace_pair a b r (y # s))"
| "replace_pair a b r s = s"

fun split_on :: "char \<Rightarrow> string \<Rightarrow> string list" where
  "split_on c [] = [[]]"
| "split_on c (x # s) =
     (if x = c then [] # split_on c s
      else case split_on c s of [] \<Rightarrow> [[x]] | t # ts \<Rightarrow> (x # t) # ts)"

definition push_segment :: "string \<Rightarrow> string \<Rightarrow> string" where
  "push_segment path raw =
     (let segment = replace_pair (CHR ''~'') (CHR ''0'') ''~''
        (replace_pair (CHR ''~'') (CHR ''1'') ''/'' raw)
      in if list_all is_ascii_digit segment then path @ ''['' @ segment @ '']''
         else path @ (if path = [] then [] else ''.'') @ segment)"

definition pointer_to_path :: "string \<Rightarrow> string" where
  "pointer_to_path pointer =
     (if pointer = [] then ''<root>''
      else foldl push_segment [] (split_on (CHR ''/'') (dropWhile (\<lambda>c. c = CHR ''/'') pointer)))"

definition schema_validate :: "'t session_api \<Rightarrow> json \<Rightarrow> json \<Rightarrow> schema_violation list" where
  "schema_validate A schema instanc =
     (case api_compile A schema of
        None \<Rightarrow> [\<lparr>sv_path = ''<schema>'', sv_message = ''schema is invalid or contains a non-local reference''\<rparr>]
      | Some errors \<Rightarrow> map (\<lambda>(pointer, keyword). \<lparr>sv_path = pointer_to_path pointer,
          sv_message = ''does not satisfy JSON Schema keyword at '' @ keyword\<rparr>) (take 128 (errors instanc)))"

definition classify_schema_violation :: "validation_site \<Rightarrow> schema_violation list \<Rightarrow> schema_policy" where
  "classify_schema_violation site violations =
     (if violations = [] then Policy_Ignore
      else case site of Tool_Call_Args \<Rightarrow> Policy_Fail | Tool_Call_Result \<Rightarrow> Policy_Warn)"

fun join_with :: "string \<Rightarrow> string list \<Rightarrow> string" where
  "join_with sep [] = []"
| "join_with sep [s] = s"
| "join_with sep (s # ss) = s @ sep @ join_with sep ss"

definition summarize_violations :: "schema_violation list \<Rightarrow> string" where
  "summarize_violations vs = join_with ''; '' (map (\<lambda>v. sv_path v @ '': '' @ sv_message v) (take 3 vs))"

text \<open>The warning of the \<open>Warn\<close> arm goes to the log.\<close>

definition apply_policy :: "validation_site \<Rightarrow> string \<Rightarrow> schema_violation list \<Rightarrow> session_error + unit" where
  "apply_policy site tool_name violations =
     (case classify_schema_violation site violations of
        Policy_Fail \<Rightarrow> Inl (SE_SchemaViolation tool_name (summarize_violations violations))
      | Policy_Warn \<Rightarrow> Inr ()
      | Policy_Ignore \<Rightarrow> Inr ())"

definition check_args :: "'t session_api \<Rightarrow> (string \<Rightarrow> json option) \<Rightarrow> string \<Rightarrow> json \<Rightarrow> session_error + unit" where
  "check_args A schemas tool_name arguments =
     (case schemas tool_name of
        None \<Rightarrow> Inr ()
      | Some input_schema \<Rightarrow> apply_policy Tool_Call_Args tool_name (schema_validate A input_schema arguments))"

definition check_result ::
  "'t session_api \<Rightarrow> (string \<Rightarrow> json option) \<Rightarrow> string \<Rightarrow> call_tool_result \<Rightarrow> session_error + unit" where
  "check_result A schemas tool_name result =
     (case schemas tool_name of
        None \<Rightarrow> Inr ()
      | Some output_schema \<Rightarrow> apply_policy Tool_Call_Result tool_name
          (case ct_structured_content result of
             Some cont \<Rightarrow> schema_validate A output_schema cont
           | None \<Rightarrow> [\<lparr>sv_path = ''<root>'', sv_message =
               ''tool advertises `outputSchema` but result carries no `structuredContent`''\<rparr>]))"

subsection \<open>Tool calls\<close>

text \<open>\<open>CallToolParams\<close>: absent options are skipped.\<close>

definition call_tool_params :: "string \<Rightarrow> json \<Rightarrow> string option \<Rightarrow> json option \<Rightarrow> json" where
  "call_tool_params name arguments request_state input_responses =
     JObject ([(''name'', JString name), (''arguments'', arguments)]
       @ (case request_state of None \<Rightarrow> [] | Some st \<Rightarrow> [(''requestState'', JString st)])
       @ (case input_responses of None \<Rightarrow> [] | Some v \<Rightarrow> [(''inputResponses'', v)]))"

definition call_tool_round ::
  "'t session_api \<Rightarrow> string \<Rightarrow> json \<Rightarrow> string option \<Rightarrow> json option \<Rightarrow> 't session \<Rightarrow> ('t, tool_call_round) session_result" where
  "call_tool_round A name arguments request_state input_responses s =
     (case input_responses of
        Some v \<Rightarrow>
          if json_object v = None then (s, Some (Inl SE_InvalidInputResponses))
          else session_request A de_tool_call_round ''tools/call''
            (call_tool_params name arguments request_state input_responses) s
      | None \<Rightarrow> session_request A de_tool_call_round ''tools/call''
          (call_tool_params name arguments request_state input_responses) s)"

definition call_tool :: "'t session_api \<Rightarrow> string \<Rightarrow> json \<Rightarrow> 't session \<Rightarrow> ('t, call_tool_result) session_result" where
  "call_tool A name arguments s =
     (case (case ss_tool_schemas s of None \<Rightarrow> Inr () | Some schemas \<Rightarrow> check_args A schemas name arguments) of
        Inl e \<Rightarrow> (s, Some (Inl e))
      | Inr _ \<Rightarrow>
          await_then (call_tool_round A name arguments None None s) (\<lambda>r s'.
            (s', Some (case r of
               Round_InputRequired _ \<Rightarrow> Inl SE_AdditionalInputRequired
             | Round_Complete result \<Rightarrow>
                 and_then (case ss_tool_output_schemas s' of
                     None \<Rightarrow> Inr () | Some schemas \<Rightarrow> check_result A schemas name result)
                   (\<lambda>_. Inr result)))))"

definition set_strict_tool_schemas :: "(string \<Rightarrow> json option) \<Rightarrow> 't session \<Rightarrow> 't session" where
  "set_strict_tool_schemas schemas s = s\<lparr>ss_tool_schemas := Some schemas\<rparr>"

definition set_strict_tool_output_schemas :: "(string \<Rightarrow> json option) \<Rightarrow> 't session \<Rightarrow> 't session" where
  "set_strict_tool_output_schemas schemas s = s\<lparr>ss_tool_output_schemas := Some schemas\<rparr>"

subsection \<open>Startup and shutdown\<close>

definition FAILED_STARTUP_SHUTDOWN_TIMEOUT :: duration where
  "FAILED_STARTUP_SHUTDOWN_TIMEOUT = 20 * 10 ^ 9"

definition session_shutdown :: "'t session_api \<Rightarrow> 't session \<Rightarrow> (session_error + unit) option" where
  "session_shutdown A s = map_option (map_err SE_Transport) (api_shutdown A (ss_transport s))"

definition cleanup_failed_startup :: "'t session_api \<Rightarrow> 't session \<Rightarrow> session_error \<Rightarrow> session_error" where
  "cleanup_failed_startup A s startup_error =
     (case session_shutdown A s of
        Some (Inr _) \<Rightarrow> startup_error
      | Some (Inl cleanup_error) \<Rightarrow> SE_Transport (TE_Other (''session startup failed ('' @
          show_session_error A startup_error @ ''); startup teardown failed ('' @
          show_session_error A cleanup_error @ '')''))
      | None \<Rightarrow> SE_Transport (TE_Other (''session startup failed ('' @
          show_session_error A startup_error @ ''); startup teardown exceeded '' @
          api_show_duration A FAILED_STARTUP_SHUTDOWN_TIMEOUT)))"

definition client_info :: "'t session_api \<Rightarrow> json" where
  "client_info A = JObject [(''name'', JString ''mcp-loadtest''), (''version'', JString (api_client_version A))]"

definition initialize_params :: "'t session_api \<Rightarrow> protocol_version \<Rightarrow> json" where
  "initialize_params A v = JObject [(''protocolVersion'', JString (version_as_str v)),
     (''capabilities'', JObject []), (''clientInfo'', client_info A)]"

definition set_transport_version :: "'t session_api \<Rightarrow> string \<Rightarrow> 't session \<Rightarrow> 't session" where
  "set_transport_version A v s = s\<lparr>ss_transport := api_set_protocol_version A (ss_transport s) v\<rparr>"

definition session_initialize :: "'t session_api \<Rightarrow> 't session \<Rightarrow> ('t, unit) session_result" where
  "session_initialize A s =
     await_then (session_request A de_initialize_result ''initialize''
         (initialize_params A (ss_advertised_version s)) s) (\<lambda>version s1.
       session_notify A ''notifications/initialized'' (JObject [])
         (set_transport_version A version
           (s1\<lparr>ss_server_protocol_version := version, ss_negotiated_version := version_parse version\<rparr>)))"

definition accept_discovery :: "string list \<Rightarrow> 't session \<Rightarrow> ('t, unit) session_result" where
  "accept_discovery supported_versions s =
     (let advertised = ss_advertised_version s in
      if version_as_str advertised \<notin> set supported_versions
      then (s, Some (Inl (SE_UnsupportedProtocolVersion (join_with '','' supported_versions)
        (version_as_str advertised))))
      else (s\<lparr>ss_server_protocol_version := version_as_str advertised,
              ss_negotiated_version := Some advertised\<rparr>, Some (Inr ())))"

definition offers_version :: "error_object \<Rightarrow> protocol_version \<Rightarrow> bool" where
  "offers_version e v =
     (case Option.bind (Option.bind (eo_data e) (\<lambda>d. json_get d ''supported'')) json_array of
        None \<Rightarrow> False
      | Some versions \<Rightarrow> list_ex (\<lambda>x. json_str x = Some (version_as_str v)) versions)"

definition session_discover :: "'t session_api \<Rightarrow> 't session \<Rightarrow> ('t, unit) session_result" where
  "session_discover A s =
     (let probe = session_request A de_discover_result ''server/discover'' (JObject []) in
      case probe s of
        (s1, Some (Inr versions)) \<Rightarrow> accept_discovery versions s1
      | (s1, Some (Inl (SE_Server e))) \<Rightarrow>
          if eo_code e = - 32022 then
            if offers_version e (ss_advertised_version s1) then await_then (probe s1) accept_discovery
            else (s1, Some (Inl (SE_Server e)))
          else (s1, Some (Inl (SE_Server e)))
      | (s1, Some (Inl e)) \<Rightarrow> (s1, Some (Inl e))
      | (s1, None) \<Rightarrow> (s1, None))"

definition finish_startup :: "'t session_api \<Rightarrow> duration \<Rightarrow> ('t, unit) session_result \<Rightarrow> session_error + 't session" where
  "finish_startup A startup_timeout r =
     (case r of
        (s, Some (Inr _)) \<Rightarrow> Inr s
      | (s, Some (Inl e)) \<Rightarrow> Inl (cleanup_failed_startup A s e)
      | (s, None) \<Rightarrow> Inl (cleanup_failed_startup A s (SE_StartupTimeout startup_timeout)))"

definition from_transport_with_version ::
  "'t session_api \<Rightarrow> 't \<Rightarrow> duration \<Rightarrow> protocol_version \<Rightarrow> session_error + 't session" where
  "from_transport_with_version A t startup_timeout advertised =
     finish_startup A startup_timeout (session_initialize A
       \<lparr>ss_transport = t, ss_next_id = 1, ss_server_protocol_version = [],
        ss_advertised_version = advertised, ss_negotiated_version = None, ss_stateless = None,
        ss_tool_schemas = None, ss_tool_output_schemas = None\<rparr>)"

definition stateless_session :: "'t session_api \<Rightarrow> 't \<Rightarrow> protocol_version \<Rightarrow> 't session" where
  "stateless_session A t v = set_transport_version A (version_as_str v)
     \<lparr>ss_transport = t, ss_next_id = 1, ss_server_protocol_version = version_as_str v,
      ss_advertised_version = v, ss_negotiated_version = None,
      ss_stateless = Some \<lparr>stm_version = v, stm_client_name = ''mcp-loadtest'',
        stm_client_version = api_client_version A, stm_capabilities = JObject []\<rparr>,
      ss_tool_schemas = None, ss_tool_output_schemas = None\<rparr>"

definition from_transport_stateless ::
  "'t session_api \<Rightarrow> 't \<Rightarrow> duration \<Rightarrow> protocol_version \<Rightarrow> session_error + 't session" where
  "from_transport_stateless A t startup_timeout v =
     finish_startup A startup_timeout (session_discover A (stateless_session A t v))"

text \<open>The fallback on the same transport, whose requests keep counting from the probe's.\<close>

definition legacy_session :: "'t session_api \<Rightarrow> 't session \<Rightarrow> 't session" where
  "legacy_session A s = set_transport_version A (version_as_str V2025_11_25)
     (s\<lparr>ss_stateless := None, ss_advertised_version := V2025_11_25,
        ss_negotiated_version := None, ss_server_protocol_version := []\<rparr>)"

text \<open>The probe's own budget decides only how long it waits, like the startup timeout.\<close>

definition from_transport_auto :: "'t session_api \<Rightarrow> 't \<Rightarrow> duration \<Rightarrow> session_error + 't session" where
  "from_transport_auto A t startup_timeout =
     (let legacy = (\<lambda>s. finish_startup A startup_timeout (session_initialize A (legacy_session A s)))
      in case session_discover A (stateless_session A t V2026_07_28) of
           (s, Some (Inr _)) \<Rightarrow> Inr s
         | (s, Some (Inl (SE_Server e))) \<Rightarrow>
             if - 32022 \<le> eo_code e \<and> eo_code e \<le> - 32020
             then Inl (cleanup_failed_startup A s (SE_Server e))
             else legacy s
         | (s, None) \<Rightarrow> legacy s
         | (s, Some (Inl e)) \<Rightarrow> Inl (cleanup_failed_startup A s e))"

subsection \<open>A response answers one request\<close>

lemmas session_result_splits = prod.splits option.splits sum.splits if_splits

lemma read_response_accepts:
  "read_response A dec method ident stateless body = Inr r \<longleftrightarrow>
     (\<exists>v env result. api_parse A body = Inr v \<and> de_envelope v = Inr env \<and> re_jsonrpc env = JSONRPC_VERSION
        \<and> json_as_u64 (re_id env) = Some ident \<and> re_payload env = Payload_Ok result \<and> dec result = Inr r
        \<and> (map_option stm_version stateless = Some V2026_07_28 \<longrightarrow>
             validate_final_stateless_result method result = Inr ()))"
proof (cases "api_parse A body")
  case (Inr v)
  show ?thesis
  proof (cases "de_envelope v")
    case env: (Inr env)
    then show ?thesis using Inr
      by (cases "re_payload env") (auto simp: read_response_def result_iffs map_err_Inr_iff)
  qed (use Inr in \<open>simp add: read_response_def\<close>)
qed (simp add: read_response_def)

lemma read_response_own_id:
  assumes "read_response A dec method i st body = Inr r" "read_response A dec' method' j st' body = Inr r'"
  shows "i = j"
proof -
  obtain v env where "api_parse A body = Inr v" "de_envelope v = Inr env" "json_as_u64 (re_id env) = Some i"
    using assms(1) by (auto simp: read_response_accepts)
  then show ?thesis using assms(2) by (auto simp: read_response_accepts)
qed

text \<open>The text a tool call sends, and what the transport answers to it.\<close>

definition call_request :: "'t session_api \<Rightarrow> string \<Rightarrow> json \<Rightarrow> 't session \<Rightarrow> de_error + json" where
  "call_request A name arguments s = request_body s (ss_next_id s) ''tools/call''
     (call_tool_params name arguments None None)"

definition call_answer :: "'t session_api \<Rightarrow> string \<Rightarrow> json \<Rightarrow> 't session \<Rightarrow> (transport_error + string) option" where
  "call_answer A name arguments s =
     (case call_request A name arguments s of
        Inl _ \<Rightarrow> None
      | Inr body \<Rightarrow> snd (api_request A (ss_transport s) (api_show A body)))"

lemma request_body_next_id [simp]: "request_body (s\<lparr>ss_next_id := n\<rparr>) = request_body s"
  by (auto simp: request_body_def fun_eq_iff split: option.splits)

lemma call_tool_params_object [simp]: "\<exists>ms. call_tool_params name arguments st resp = JObject ms"
  by (auto simp: call_tool_params_def)

lemma call_tool_Inr:
  assumes "call_tool A name arguments s = (s', Some (Inr r))"
  shows "\<exists>body. call_answer A name arguments s = Some (Inr body)
     \<and> read_response A de_tool_call_round ''tools/call'' (ss_next_id s) (ss_stateless s) body = Inr (Round_Complete r)"
  using assms
  by (force simp: call_tool_def await_then_def call_tool_round_def session_request_def call_answer_def
      call_request_def Let_def result_iffs map_err_Inr_iff
      split: session_result_splits tool_call_round.splits)

lemma call_tool_next_id:
  assumes "call_tool A name arguments s = (s', r)"
  shows "ss_next_id s' = ss_next_id s + 1 \<or> (\<exists>e. r = Some (Inl e)) \<and> s' = s"
  using assms
  by (auto simp: call_tool_def await_then_def call_tool_round_def session_request_def Let_def
      split: session_result_splits)

text \<open>A session's tool calls one after another: what each was answered, and what it made of it.\<close>

type_synonym call_log = "((transport_error + string) option \<times> (session_error + call_tool_result) option) list"

primrec call_tools :: "'t session_api \<Rightarrow> (string \<times> json) list \<Rightarrow> 't session \<Rightarrow> call_log" where
  "call_tools A [] s = []"
| "call_tools A (c # cs) s =
     (case call_tool A (fst c) (snd c) s of
        (s', r) \<Rightarrow> (call_answer A (fst c) (snd c) s, r) # call_tools A cs s')"

definition answers_call :: "'t session_api \<Rightarrow> u64 \<Rightarrow> string \<Rightarrow> call_tool_result \<Rightarrow> bool" where
  "answers_call A ident body r \<longleftrightarrow>
     (\<exists>v env result. api_parse A body = Inr v \<and> de_envelope v = Inr env \<and> re_jsonrpc env = JSONRPC_VERSION
        \<and> json_as_u64 (re_id env) = Some ident \<and> re_payload env = Payload_Ok result
        \<and> de_tool_call_round result = Inr (Round_Complete r))"

lemma answers_call_id: "answers_call A i body r \<Longrightarrow> answers_call A j body r' \<Longrightarrow> i = j"
  by (auto simp: answers_call_def)

lemma call_tool_accepts:
  assumes "call_tool A name arguments s = (s', Some (Inr r))"
  shows "\<exists>body. call_answer A name arguments s = Some (Inr body) \<and> answers_call A (ss_next_id s) body r"
  using call_tool_Inr [OF assms] by (auto simp: answers_call_def read_response_accepts)

lemma call_tools_accepts:
  assumes "k < length cs" "call_tools A cs s ! k = (a, Some (Inr r))"
  shows "\<exists>j \<le> k. \<exists>body. a = Some (Inr body) \<and> answers_call A (ss_next_id s + of_nat j) body r"
  using assms
proof (induction cs arbitrary: s k)
  case (Cons c cs)
  obtain s' r0 where c: "call_tool A (fst c) (snd c) s = (s', r0)" by fastforce
  show ?case
  proof (cases k)
    case 0
    with Cons.prems c call_tool_accepts [of A "fst c" "snd c" s s' r] show ?thesis by simp
  next
    case (Suc k')
    obtain j body where j: "j \<le> k'" "a = Some (Inr body)" "answers_call A (ss_next_id s' + of_nat j) body r"
      using Cons.IH [of k' s'] Cons.prems Suc c by auto
    have "ss_next_id s' + of_nat j = ss_next_id s + of_nat (Suc j) \<or> ss_next_id s' + of_nat j = ss_next_id s + of_nat j"
      using call_tool_next_id [OF c] by auto
    then show ?thesis using j Suc by (metis Suc_le_mono le_Suc_eq)
  qed
qed simp

lemma call_tools_distinct:
  assumes "k < l" "l < length cs" "length cs \<le> 2 ^ 64"
    and "call_tools A cs s ! k = (a, Some (Inr r))" "call_tools A cs s ! l = (a', Some (Inr r'))"
  shows "a \<noteq> a'"
  using assms
proof (induction cs arbitrary: s k l)
  case (Cons c cs)
  obtain s' r0 where c: "call_tool A (fst c) (snd c) s = (s', r0)" by fastforce
  obtain l' where l: "l = Suc l'" using Cons.prems(1) by (cases l) auto
  show ?case
  proof (cases k)
    case 0
    have first: "call_tool A (fst c) (snd c) s = (s', Some (Inr r))"
      "call_answer A (fst c) (snd c) s = a" using Cons.prems(4) c 0 by auto
    obtain body where body: "a = Some (Inr body)" "answers_call A (ss_next_id s) body r"
      using call_tool_accepts [OF first(1)] first(2) by auto
    have later: "call_tools A cs s' ! l' = (a', Some (Inr r'))" using Cons.prems(5) c l by simp
    obtain j body' where j: "j \<le> l'" "a' = Some (Inr body')" "answers_call A (ss_next_id s' + of_nat j) body' r'"
      using call_tools_accepts [OF _ later] Cons.prems(2) l by auto
    have "ss_next_id s' = ss_next_id s + 1" using call_tool_next_id [OF first(1)] by simp
    moreover have "of_nat (Suc j) \<noteq> (0 :: u64)"
    proof
      assume "of_nat (Suc j) = (0 :: u64)"
      then have "unat (of_nat (Suc j) :: u64) = 0" by simp
      then have "Suc j mod 2 ^ 64 = 0" by (simp only: unat_of_nat) simp
      moreover have "Suc j < 2 ^ 64" using j(1) l Cons.prems(2,3) by simp
      ultimately show False by simp
    qed
    ultimately have "ss_next_id s' + of_nat j \<noteq> ss_next_id s" by (simp add: add.assoc)
    then show ?thesis using answers_call_id body j by blast
  next
    case (Suc k')
    then show ?thesis using Cons.IH [of k' l' s'] Cons.prems c l by simp
  qed
qed simp

subsection \<open>The session after its startup\<close>

text \<open>
  \<open>HttpTransport::set_protocol_version\<close> keeps the version it sends as a header in an \<open>Option\<close>: a
  version that \<open>HeaderValue::from_str\<close> does not accept leaves what was there.
\<close>

definition http_set_protocol_version :: "(string \<Rightarrow> bool) \<Rightarrow> string option \<Rightarrow> string \<Rightarrow> string option" where
  "http_set_protocol_version header_value protocol_version version =
     (if header_value version then Some version else protocol_version)"

text \<open>
  A transport's header, whichever transport it is. The HTTP transport sets it as above and keeps it
  between calls; a wire without headers has the trait's default, which does nothing: there no version
  is accepted and no header is ever set.
\<close>

definition announces :: "'t session_api \<Rightarrow> ('t \<Rightarrow> string option) \<Rightarrow> (string \<Rightarrow> bool) \<Rightarrow> bool" where
  "announces A header header_value \<longleftrightarrow>
     (\<forall>t v. header (api_set_protocol_version A t v) = http_set_protocol_version header_value (header t) v)
     \<and> (\<forall>t body. header (fst (api_request A t body)) = header t)
     \<and> (\<forall>t body. header (fst (api_notify A t body)) = header t)"

lemma announces_default:
  "api_set_protocol_version A = (\<lambda>t v. t) \<Longrightarrow> announces A (\<lambda>_. None) (\<lambda>_. False)"
  by (simp add: announces_def http_set_protocol_version_def)

text \<open>
  What the session knows of the revision it speaks: the raw string and its typed form agree, a
  transport whose header can hold the string sends it, and a stateless session speaks the revision it
  pinned.
\<close>

definition speaks_version :: "('t \<Rightarrow> string option) \<Rightarrow> (string \<Rightarrow> bool) \<Rightarrow> 't session \<Rightarrow> bool" where
  "speaks_version header header_value s \<longleftrightarrow>
     (header_value (ss_server_protocol_version s) \<longrightarrow>
        header (ss_transport s) = Some (ss_server_protocol_version s))
     \<and> ss_negotiated_version s = version_parse (ss_server_protocol_version s)
     \<and> (\<forall>meta. ss_stateless s = Some meta \<longrightarrow>
          stm_version meta = ss_advertised_version s \<and> ss_negotiated_version s = Some (stm_version meta))"

lemma session_request_keeps:
  assumes "announces A header header_value" "session_request A dec method params s = (s', r)"
  shows "\<exists>t. s' = s\<lparr>ss_transport := t, ss_next_id := ss_next_id s + 1\<rparr> \<and> header t = header (ss_transport s)"
proof (cases "request_body s (ss_next_id s) method params")
  case (Inl e)
  then show ?thesis using assms(2)
    by (auto simp: session_request_def Let_def intro!: exI [of _ "ss_transport s"])
next
  case (Inr body)
  obtain t r' where t: "api_request A (ss_transport s) (api_show A body) = (t, r')" by fastforce
  moreover have "header t = header (ss_transport s)"
    using assms(1) t by (simp add: announces_def) (metis fst_conv)
  ultimately show ?thesis using Inr assms(2)
    by (auto simp: session_request_def Let_def intro!: exI [of _ t])
qed

lemma session_notify_keeps:
  assumes "announces A header header_value" "session_notify A method params s = (s', r)"
  shows "\<exists>t. s' = s\<lparr>ss_transport := t\<rparr> \<and> header t = header (ss_transport s)"
proof -
  let ?body = "api_show A (outgoing_notification method params)"
  obtain t r' where t: "api_notify A (ss_transport s) ?body = (t, r')" by fastforce
  moreover have "header t = header (ss_transport s)"
    using assms(1) t by (simp add: announces_def) (metis fst_conv)
  ultimately show ?thesis using assms(2) by (auto simp: session_notify_def)
qed

lemma session_initialize_speaks:
  assumes "announces A header header_value" "session_initialize A s = (s', Some (Inr u))" "ss_stateless s = None"
  shows "speaks_version header header_value s'"
    "header (ss_transport s') = http_set_protocol_version header_value (header (ss_transport s)) (ss_server_protocol_version s')"
proof -
  obtain s1 version where 1: "session_request A de_initialize_result ''initialize''
      (initialize_params A (ss_advertised_version s)) s = (s1, Some (Inr version))"
    and n: "session_notify A ''notifications/initialized'' (JObject []) (set_transport_version A version
      (s1\<lparr>ss_server_protocol_version := version, ss_negotiated_version := version_parse version\<rparr>)) = (s', Some (Inr u))"
    using assms(2) by (auto simp: session_initialize_def await_then_def split: session_result_splits)
  have "header (api_set_protocol_version A t version) = http_set_protocol_version header_value (header t) version" for t
    using assms(1) by (simp add: announces_def)
  then show "speaks_version header header_value s'"
    "header (ss_transport s') = http_set_protocol_version header_value (header (ss_transport s)) (ss_server_protocol_version s')"
    using session_request_keeps [OF assms(1) 1] session_notify_keeps [OF assms(1) n] assms(3)
    by (auto simp: speaks_version_def set_transport_version_def http_set_protocol_version_def)
qed

lemma session_discover_speaks:
  assumes "announces A header header_value" "session_discover A s = (s', Some (Inr u))"
    and "ss_stateless s = Some meta" "stm_version meta = ss_advertised_version s"
    and "header_value (version_as_str (ss_advertised_version s)) \<Longrightarrow>
       header (ss_transport s) = Some (version_as_str (ss_advertised_version s))"
  shows "speaks_version header header_value s'"
proof -
  let ?probe = "session_request A de_discover_result ''server/discover'' (JObject [])"
  let ?pinned = "\<lambda>s1. ss_stateless s1 = Some meta \<and> ss_advertised_version s1 = ss_advertised_version s
     \<and> header (ss_transport s1) = header (ss_transport s)"
  have step: "?probe s1 = (s2, r) \<Longrightarrow> ?pinned s1 \<Longrightarrow> ?pinned s2" for s1 s2 r
    by (drule session_request_keeps [OF assms(1)]) auto
  have "\<exists>s1 versions. ?pinned s1 \<and> accept_discovery versions s1 = (s', Some (Inr u))"
    using assms(2,3) unfolding session_discover_def await_then_def Let_def
    by (auto split: session_result_splits session_error.splits dest!: step)
  then obtain s1 versions where "?pinned s1" "accept_discovery versions s1 = (s', Some (Inr u))" by blast
  then show ?thesis
    using assms(4,5)
    by (auto simp: accept_discovery_def speaks_version_def Let_def split: if_splits)
qed

lemma finish_startup_Inr: "finish_startup A d r = Inr s \<Longrightarrow> \<exists>u. r = (s, Some (Inr u))"
  by (auto simp: finish_startup_def split: session_result_splits)

lemma stateless_session_pinned:
  assumes "announces A header header_value" "session_discover A (stateless_session A t v) = (s, Some (Inr u))"
  shows "speaks_version header header_value s"
  using assms(1)
  by (intro session_discover_speaks [OF assms])
    (auto simp: stateless_session_def set_transport_version_def announces_def http_set_protocol_version_def)

lemma legacy_session_stateful [simp]: "ss_stateless (legacy_session A s) = None"
  by (simp add: legacy_session_def set_transport_version_def)

text \<open>
  After the fallback of \<open>from_transport_auto\<close>, a version that cannot be a header does not clear the
  header: the requests go on announcing the revision that was offered.
\<close>

lemma fallback_keeps_offered_header:
  assumes "announces A header header_value" "session_initialize A (legacy_session A s0) = (s, Some (Inr u))"
    and "header_value ''2025-11-25''" "\<not> header_value (ss_server_protocol_version s)"
  shows "header (ss_transport s) = Some ''2025-11-25''"
proof -
  have "header (ss_transport (legacy_session A s0)) = Some ''2025-11-25''"
    using assms(1,3) by (simp add: legacy_session_def set_transport_version_def announces_def http_set_protocol_version_def)
  then show ?thesis
    using session_initialize_speaks(2) [OF assms(1,2)] assms(4) by (simp add: http_set_protocol_version_def)
qed

lemma from_transport_auto_cases:
  assumes "from_transport_auto A t d = Inr s"
  shows "(\<exists>u. session_discover A (stateless_session A t V2026_07_28) = (s, Some (Inr u)))
     \<or> (\<exists>s0 u. session_initialize A (legacy_session A s0) = (s, Some (Inr u)))"
  using assms unfolding from_transport_auto_def Let_def
  by (auto dest!: finish_startup_Inr split: session_result_splits session_error.splits)

subsection \<open>Properties\<close>

text \<open>
  C29. A response answers one request. In a session's tool calls, every result handed to the workload
  comes from a response body that is a JSON-RPC 2.0 success envelope carrying the id of that very
  request, and no body is accepted twice: a duplicated, stale or reordered response of the server is
  never counted as the answer to another call, for as long as the 64-bit id does not wrap around.
\<close>

theorem tool_answers_never_reused:
  assumes "length cs \<le> 2 ^ 64"
  shows "(\<forall>k < length cs. \<forall>a r. call_tools A cs s ! k = (a, Some (Inr r)) \<longrightarrow>
       (\<exists>j \<le> k. \<exists>body. a = Some (Inr body) \<and> answers_call A (ss_next_id s + of_nat j) body r))
     \<and> (\<forall>l < length cs. \<forall>k < l. \<forall>a r a' r'. call_tools A cs s ! k = (a, Some (Inr r)) \<longrightarrow>
          call_tools A cs s ! l = (a', Some (Inr r')) \<longrightarrow> a \<noteq> a')"
  using call_tools_accepts [of _ cs A s] call_tools_distinct [of _ _ cs A s] assms by blast

text \<open>
  C30. Strict validation is exactly a check in front: a session with registered schemas answers a tool
  call as it would without them, except that arguments which violate the tool's advertised input
  schema are rejected before anything is sent, the id and the transport untouched. Violations on the
  result's side change nothing, and an unregistered tool is never validated.
\<close>

theorem strict_validation_is_a_precheck:
  "call_tool A name arguments (s\<lparr>ss_tool_schemas := Some schemas, ss_tool_output_schemas := outs\<rparr>) =
     (let violations = (case schemas name of None \<Rightarrow> [] | Some schema \<Rightarrow> schema_validate A schema arguments) in
      if violations \<noteq> []
      then (s\<lparr>ss_tool_schemas := Some schemas, ss_tool_output_schemas := outs\<rparr>,
        Some (Inl (SE_SchemaViolation name (summarize_violations violations))))
      else (case call_tool A name arguments (s\<lparr>ss_tool_schemas := None, ss_tool_output_schemas := None\<rparr>) of
        (s', r) \<Rightarrow> (s'\<lparr>ss_tool_schemas := Some schemas, ss_tool_output_schemas := outs\<rparr>, r)))"
proof -
  have result: "check_result A outs' name r = Inr ()" for outs' r
    by (auto simp: check_result_def apply_policy_def classify_schema_violation_def split: option.splits)
  have body: "request_body (s\<lparr>ss_tool_schemas := a, ss_tool_output_schemas := b\<rparr>) = request_body s" for a b
    by (auto simp: request_body_def fun_eq_iff split: option.splits)
  show ?thesis
    by (auto simp: call_tool_def await_then_def call_tool_round_def session_request_def check_args_def
        apply_policy_def classify_schema_violation_def Let_def body result
        split: session_result_splits tool_call_round.splits)
qed

text \<open>A transport that always answers with the success envelope of request 1.\<close>

definition echo_over :: "('t \<Rightarrow> string \<Rightarrow> 't) \<Rightarrow> 't session_api" where
  "echo_over set_version = \<lparr>api_request = (\<lambda>t body. (t, Some (Inr ''first''))), api_notify = (\<lambda>t body. (t, Some (Inr ()))),
     api_raw_send = (\<lambda>t bytes. (t, Some (Inr ()))), api_set_protocol_version = set_version,
     api_shutdown = (\<lambda>t. Some (Inr ())), api_show = (\<lambda>j. ''body''),
     api_parse = (\<lambda>text. Inr (JObject [(''jsonrpc'', JString ''2.0''), (''id'', JNumber ''1''),
       (''result'', JObject [(''content'', JArray []), (''protocolVersion'', JString ''2025-06-18'')])])),
     api_show_duration = (\<lambda>d. []), api_show_de = (\<lambda>e. []), api_compile = (\<lambda>schema. None),
     api_client_version = ''0.1.0''\<rparr>"

lemma echo_over_simps [simp]:
  "api_request (echo_over f) t body = (t, Some (Inr ''first''))" "api_notify (echo_over f) t body = (t, Some (Inr ()))"
  "api_raw_send (echo_over f) t bytes = (t, Some (Inr ()))" "api_set_protocol_version (echo_over f) = f"
  "api_shutdown (echo_over f) t = Some (Inr ())" "api_compile (echo_over f) schema = None"
  by (simp_all add: echo_over_def)

abbreviation echo_api :: "string session_api" where
  "echo_api \<equiv> echo_over (\<lambda>t v. v)"

definition echo_session :: "string session" where
  "echo_session = \<lparr>ss_transport = [], ss_next_id = 1, ss_server_protocol_version = [],
     ss_advertised_version = V2025_11_25, ss_negotiated_version = None, ss_stateless = None,
     ss_tool_schemas = None, ss_tool_output_schemas = None\<rparr>"

lemma decimal_one [simp]: "json_as_u64 (JNumber ''1'') = Some 1"
  by (simp add: json_as_u64_def is_digits_def decimal_value_def is_ascii_digit_def)

lemma echo_reads:
  "read_response (echo_over f) dec method i None body =
     (if i = 1 then map_err SE_ResponseShape (dec (JObject [(''content'', JArray []),
        (''protocolVersion'', JString ''2025-06-18'')]))
      else Inl (SE_MismatchedSuccess i (JNumber ''1'') (JObject [(''content'', JArray []),
        (''protocolVersion'', JString ''2025-06-18'')])))"
  by (simp add: read_response_def echo_over_def de_envelope_def json_object_def de_unique_def de_string_def
      json_str_def last_member_def JSONRPC_VERSION_def eq_commute [of 1 i])

definition empty_result :: call_tool_result where
  "empty_result = \<lparr>ct_meta = None, ct_content = [], ct_is_error = False, ct_structured_content = None\<rparr>"

lemma echo_round: "de_tool_call_round (JObject [(''content'', JArray []), (''protocolVersion'', v)])
    = Inr (Round_Complete empty_result)"
  by (simp add: de_tool_call_round_def json_get_def de_call_tool_result_def de_fields_def de_default_def
      de_required_def de_list_def json_array_def empty_result_def)

lemma echo_request:
  "ss_stateless s = None \<Longrightarrow> session_request (echo_over f) dec method params s =
     (s\<lparr>ss_next_id := ss_next_id s + 1\<rparr>, Some (read_response (echo_over f) dec method (ss_next_id s) None ''first''))"
  by (simp add: session_request_def request_body_def Let_def)

lemma echo_call:
  assumes "ss_stateless s = None" "ss_tool_schemas s = None" "ss_tool_output_schemas s = None"
  shows "\<exists>r. call_tool echo_api n a s = (s\<lparr>ss_next_id := ss_next_id s + 1\<rparr>, Some r)
     \<and> (ss_next_id s = 1 \<longrightarrow> r = Inr empty_result) \<and> call_answer echo_api n a s = Some (Inr ''first'')"
proof -
  have "call_answer echo_api n a s = Some (Inr ''first'')"
    using assms by (simp add: call_answer_def call_request_def request_body_def)
  then show ?thesis
    using assms
    by (auto simp: call_tool_def call_tool_round_def await_then_def echo_request echo_reads echo_round)
qed

lemma tool_answers_never_reused_witness:
  "\<exists>e. call_tools echo_api [(''echo'', JObject []), (''echo'', JObject [])] echo_session =
     [(Some (Inr ''first''), Some (Inr empty_result)), (Some (Inr ''first''), Some (Inl e))]"
proof -
  define cs where "cs = [(''echo'', JObject []), (''echo'', JObject [])]"
  let ?second = "echo_session\<lparr>ss_next_id := ss_next_id echo_session + 1\<rparr>"
  obtain r where "call_tool echo_api ''echo'' (JObject []) ?second = (?second\<lparr>ss_next_id := ss_next_id ?second + 1\<rparr>, Some r)"
    "call_answer echo_api ''echo'' (JObject []) ?second = Some (Inr ''first'')"
    using echo_call [of ?second "''echo''" "JObject []"] by (auto simp: echo_session_def)
  then have log: "call_tools echo_api cs echo_session
      = [(Some (Inr ''first''), Some (Inr empty_result)), (Some (Inr ''first''), Some r)]"
    using echo_call [of echo_session "''echo''" "JObject []"] by (auto simp: cs_def echo_session_def)
  have len: "length cs = 2" by (simp add: cs_def)
  then have "length cs \<le> 2 ^ 64" by simp
  from tool_answers_never_reused [OF this, of echo_api echo_session, THEN conjunct2, THEN spec, of 1]
  have "r \<noteq> Inr r'" for r' by (auto simp: len log)
  then obtain e where "r = Inl e" by (cases r) auto
  then show ?thesis using log by (simp add: cs_def)
qed

text \<open>
  C37. A session that starts knows the revision it speaks. Whichever way it is constructed, the typed
  form of the version is the parse of the string the server settled on (none for an unknown revision,
  which only strict mode gates); a transport that carries the version in a header announces that very
  string, whenever it can be a header value; and a stateless session speaks the revision it pinned. The
  transports without such a header are covered too: nothing is asked of a header they do not have.
\<close>

theorem started_session_agrees_on_version:
  assumes "announces A header header_value"
    and "from_transport_with_version A t d v = Inr s \<or> from_transport_stateless A t d v = Inr s
      \<or> from_transport_auto A t d = Inr s"
  shows "(header_value (ss_server_protocol_version s) \<longrightarrow>
        header (ss_transport s) = Some (ss_server_protocol_version s))
     \<and> ss_negotiated_version s = version_parse (ss_server_protocol_version s)
     \<and> (\<forall>meta. ss_stateless s = Some meta \<longrightarrow>
          stm_version meta = ss_advertised_version s \<and> ss_negotiated_version s = Some (stm_version meta))"
proof -
  have "speaks_version header header_value s"
    using assms(2)
  proof (elim disjE)
    assume "from_transport_with_version A t d v = Inr s"
    then show ?thesis unfolding from_transport_with_version_def
      by (auto dest!: finish_startup_Inr intro: session_initialize_speaks(1) [OF assms(1)])
  next
    assume "from_transport_stateless A t d v = Inr s"
    then show ?thesis unfolding from_transport_stateless_def
      by (auto dest!: finish_startup_Inr intro: stateless_session_pinned [OF assms(1)])
  next
    assume "from_transport_auto A t d = Inr s"
    then show ?thesis
      by (auto dest!: from_transport_auto_cases intro: stateless_session_pinned [OF assms(1)]
          session_initialize_speaks(1) [OF assms(1)])
  qed
  then show ?thesis unfolding speaks_version_def .
qed

text \<open>The documented rule for a header value: visible ASCII, blanks and tabs.\<close>

definition visible_ascii :: "string \<Rightarrow> bool" where
  "visible_ascii = list_all (\<lambda>c. of_char c = (9 :: nat) \<or> 32 \<le> (of_char c :: nat) \<and> (of_char c :: nat) < 127)"

lemma started_session_agrees_on_version_witness:
  "\<exists>s. from_transport_with_version (echo_over (http_set_protocol_version visible_ascii)) None 1 V2025_11_25 = Inr s
     \<and> ss_transport s = Some ''2025-06-18'' \<and> ss_negotiated_version s = Some V2025_06_18"
proof -
  let ?A = "echo_over (http_set_protocol_version visible_ascii)"
  have http: "announces ?A id visible_ascii" by (simp add: announces_def)
  have dec: "de_initialize_result (JObject [(''content'', JArray []), (''protocolVersion'', JString v)]) = Inr v" for v
    by (simp add: de_initialize_result_def de_fields_def de_required_def de_default_def de_string_def json_str_def)
  obtain s where s: "from_transport_with_version ?A None 1 V2025_11_25 = Inr s"
    "ss_server_protocol_version s = ''2025-06-18''"
    by (simp add: from_transport_with_version_def session_initialize_def await_then_def echo_request echo_reads
        dec finish_startup_def session_notify_def set_transport_version_def)
  have "version_parse ''2025-06-18'' = Some V2025_06_18" by (simp add: version_parse_iff)
  moreover have "visible_ascii ''2025-06-18''" by (simp add: visible_ascii_def)
  ultimately show ?thesis
    using started_session_agrees_on_version [OF http disjI1 [OF s(1)]] s by auto
qed

end
