(* ===== verification/Workload.thy ===== *)
theory Workload
  imports Session Thresholds "HOL-Library.Multiset"
begin

section \<open>Generating load\<close>

text \<open>
  The pattern executor, the sustained loop and the session pool of
  \<open>crates/engine/src/scenario/\<close> (\<open>mod.rs\<close>, \<open>pattern/\<close>, \<open>sustained.rs\<close>, \<open>pool.rs\<close>, \<open>teardown.rs\<close>).
  What the code reads from its surroundings is an argument: at each step whether the run has been
  cancelled, the clock, and the recording thread (a \<open>step_tick\<close>), the generator of random numbers
  behind \<open>choose_weighted\<close>, the order in which spawned tasks are joined. The metrics recorder is
  shared, so a worker's effect on it is the list of the calls it makes, as \<open>rec_event\<close>s of the
  recorder's model; \<open>u64\<close> counters of a run wrap like the code's in a release build.
\<close>

subsection \<open>Errors of a call\<close>

definition is_standard_code :: "int \<Rightarrow> bool" where
  "is_standard_code code \<longleftrightarrow> code = - 32700 \<or> - 32603 \<le> code \<and> code \<le> - 32600"

fun classify_error :: "session_error \<Rightarrow> call_outcome" where
  "classify_error (SE_Server e) =
     (if is_standard_code (eo_code e) then Outcome_ProtocolError else Outcome_ServerError)"
| "classify_error (SE_Json _) = Outcome_Malformed"
| "classify_error (SE_ResponseShape _) = Outcome_Malformed"
| "classify_error (SE_IdMismatch _ _) = Outcome_Malformed"
| "classify_error (SE_InvalidResponseId _ _) = Outcome_Malformed"
| "classify_error (SE_MismatchedSuccess _ _ _) = Outcome_Malformed"
| "classify_error (SE_MismatchedError _ _ _) = Outcome_Malformed"
| "classify_error (SE_Io _) = Outcome_Disconnected"
| "classify_error (SE_Transport TE_Closed) = Outcome_Disconnected"
| "classify_error (SE_Transport (TE_Io _)) = Outcome_Disconnected"
| "classify_error (SE_Transport (TE_Timeout _)) = Outcome_Timeout"
| "classify_error (SE_StartupTimeout _) = Outcome_Timeout"
| "classify_error (SE_Transport (TE_Http _)) = Outcome_ServerError"
| "classify_error (SE_Transport (TE_Other _)) = Outcome_ServerError"
| "classify_error (SE_SchemaViolation _ _) = Outcome_ProtocolError"
| "classify_error (SE_InvalidJsonRpcVersion _) = Outcome_ProtocolError"
| "classify_error (SE_UnsupportedProtocolVersion _ _) = Outcome_ProtocolError"
| "classify_error SE_AdditionalInputRequired = Outcome_ServerError"
| "classify_error SE_InvalidInputResponses = Outcome_ServerError"

definition is_logical_tool_error :: "call_tool_result \<Rightarrow> bool" where
  "is_logical_tool_error r = ct_is_error r"

fun is_terminal_error :: "session_error \<Rightarrow> bool" where
  "is_terminal_error (SE_Transport TE_Closed) = True"
| "is_terminal_error (SE_Transport (TE_Io _)) = True"
| "is_terminal_error (SE_Io _) = True"
| "is_terminal_error (SE_StartupTimeout _) = True"
| "is_terminal_error _ = False"

subsection \<open>Patterns\<close>

datatype error_behavior = Behave_Continue | Behave_Abort

record pattern_step =
  pst_tool :: string
  pst_args :: json

record call_pattern =
  cp_name :: string
  cp_weight :: f64
  cp_think_time :: duration
  cp_on_step_error :: error_behavior
  cp_steps :: "pattern_step list"

definition single_call :: "string \<Rightarrow> json \<Rightarrow> call_pattern" where
  "single_call tool_name arguments = \<lparr>cp_name = ''single:'' @ tool_name, cp_weight = F64_Fin 1, cp_think_time = 0,
     cp_on_step_error = Behave_Continue, cp_steps = [\<lparr>pst_tool = tool_name, pst_args = arguments\<rparr>]\<rparr>"

record step_stats =
  stt_attempted :: u64
  stt_succeeded :: u64
  stt_errors :: u64
  stt_terminal :: bool

definition step_stats_default :: step_stats where
  "step_stats_default = \<lparr>stt_attempted = 0, stt_succeeded = 0, stt_errors = 0, stt_terminal = False\<rparr>"

text \<open>The index \<open>choose_weighted\<close> picks, if the weights allow one; \<open>f64::max\<close> drops a NaN.\<close>

type_synonym 'g chooser = "'g \<Rightarrow> f64 list \<Rightarrow> 'g \<times> nat option"

definition floor_weight :: "f64 \<Rightarrow> f64" where
  "floor_weight w = (if f64_lt (F64_Fin 0) w then w else F64_Fin 0)"

definition pick_pattern :: "'g chooser \<Rightarrow> call_pattern list \<Rightarrow> 'g \<Rightarrow> 'g \<times> call_pattern option" where
  "pick_pattern sel patterns g =
     (if patterns = [] then (g, None)
      else case sel g (map (\<lambda>p. floor_weight (cp_weight p)) patterns) of
        (g', i) \<Rightarrow> (g', map_option (\<lambda>i. patterns ! i) i))"

text \<open>
  What a step meets: cancellation seen before it, during its think time, or before its call is first
  polled (a call that never answers is ended by the cancellation), the call's duration, and the
  recorder's reading of thread and clock.
\<close>

record step_tick =
  et_cancelled :: bool
  et_cancelled_thinking :: bool
  et_dropped :: bool
  et_elapsed :: duration
  et_thread :: u64
  et_now :: nat

definition step_event :: "step_tick \<Rightarrow> pattern_step \<Rightarrow> call_outcome \<Rightarrow> rec_event" where
  "step_event t step oc = Rec_Tool (et_thread t) (et_now t) (pst_tool step) (et_elapsed t) oc"

type_synonym 't step_result = "'t session \<times> step_stats \<times> rec_event list"

text \<open>The call's part of the loop body: the tally, what is recorded, and whether the loop goes on.\<close>

definition step_call ::
  "'t session_api \<Rightarrow> call_pattern \<Rightarrow> step_tick \<Rightarrow> pattern_step \<Rightarrow> 't session \<Rightarrow> step_stats
     \<Rightarrow> 't session \<times> step_stats \<times> call_outcome \<times> bool" where
  "step_call A p t step s stats =
     (let stats1 = stats\<lparr>stt_attempted := stt_attempted stats + 1\<rparr>;
          failed = stats1\<lparr>stt_errors := stt_errors stats1 + 1\<rparr> in
      case (if et_dropped t then (s, None) else call_tool A (pst_tool step) (pst_args step) s) of
        (s', None) \<Rightarrow> (s', failed, Outcome_Cancelled, False)
      | (s', Some (Inr result)) \<Rightarrow>
          if is_logical_tool_error result
          then (s', failed, Outcome_ServerError, cp_on_step_error p \<noteq> Behave_Abort)
          else (s', stats1\<lparr>stt_succeeded := stt_succeeded stats1 + 1\<rparr>, Outcome_Success, True)
      | (s', Some (Inl err)) \<Rightarrow>
          if is_terminal_error err
          then (s', failed\<lparr>stt_terminal := True\<rparr>, classify_error err, False)
          else (s', failed, classify_error err, cp_on_step_error p \<noteq> Behave_Abort))"

fun run_steps ::
  "'t session_api \<Rightarrow> call_pattern \<Rightarrow> (nat \<Rightarrow> step_tick) \<Rightarrow> nat \<Rightarrow> pattern_step list \<Rightarrow> 't session \<Rightarrow> step_stats
     \<Rightarrow> 't step_result" where
  "run_steps A p ticks idx [] s stats = (s, stats, [])"
| "run_steps A p ticks idx (step # steps) s stats =
     (let t = ticks idx in
      if et_cancelled t \<or> 0 < idx \<and> cp_think_time p \<noteq> 0 \<and> et_cancelled_thinking t then (s, stats, [])
      else case step_call A p t step s stats of
        (s', stats', oc, goes_on) \<Rightarrow>
          if goes_on
          then (case run_steps A p ticks (idx + 1) steps s' stats' of
            (s'', stats'', es) \<Rightarrow> (s'', stats'', step_event t step oc # es))
          else (s', stats', [step_event t step oc]))"

definition execute_pattern ::
  "'t session_api \<Rightarrow> 'g chooser \<Rightarrow> call_pattern list \<Rightarrow> (nat \<Rightarrow> step_tick) \<Rightarrow> 't session \<Rightarrow> 'g
     \<Rightarrow> 'g \<times> 't step_result" where
  "execute_pattern A sel patterns ticks s g =
     (case pick_pattern sel patterns g of
        (g', None) \<Rightarrow> (g', s, step_stats_default, [])
      | (g', Some p) \<Rightarrow> (g', run_steps A p ticks 0 (cp_steps p) s step_stats_default))"

subsection \<open>The sustained loop\<close>

text \<open>What an iteration of the loop meets; without more of them the loop is still running.\<close>

record loop_tick =
  lt_cancelled :: bool
  lt_now :: nat
  lt_steps :: "nat \<Rightarrow> step_tick"

record tally3 =
  tw_calls :: u64
  tw_successes :: u64
  tw_errors :: u64

definition tally3_add :: "tally3 \<Rightarrow> step_stats \<Rightarrow> tally3" where
  "tally3_add c st = \<lparr>tw_calls = tw_calls c + stt_attempted st, tw_successes = tw_successes c + stt_succeeded st,
     tw_errors = tw_errors c + stt_errors st\<rparr>"

text \<open>The UTF-8 bytes of the dash in the notes.\<close>

definition em_dash :: string where
  "em_dash = [CHR 0xE2, CHR 0x80, CHR 0x94]"

definition terminal_note :: "u64 \<Rightarrow> string" where
  "terminal_note calls = ''sustained: terminal error after '' @ show_u64 calls @ '' calls (transport closed)''"

text \<open>The final tally with the note of the exit that was taken, or None.\<close>

fun sustained_loop ::
  "'t session_api \<Rightarrow> 'g chooser \<Rightarrow> nat \<Rightarrow> call_pattern list \<Rightarrow> loop_tick list \<Rightarrow> 't session \<Rightarrow> 'g \<Rightarrow> tally3
     \<Rightarrow> 't session \<times> (tally3 \<times> string list) option \<times> rec_event list" where
  "sustained_loop A sel deadline patterns [] s g c = (s, None, [])"
| "sustained_loop A sel deadline patterns (t # ts) s g c =
     (if lt_cancelled t then (s, Some (c, [''sustained: cancelled via ctx.cancel_token'']), [])
      else if deadline \<le> lt_now t then (s, Some (c, []), [])
      else case execute_pattern A sel patterns (lt_steps t) s g of
        (g', s', stats, es) \<Rightarrow>
          let c' = tally3_add c stats in
          if stt_attempted stats = 0
          then (s', Some (c', [''sustained: pattern picker returned no candidate'']), es)
          else if stt_terminal stats then (s', Some (c', [terminal_note (tw_calls c')]), es)
          else (case sustained_loop A sel deadline patterns ts s' g' c' of
            (s'', r, es') \<Rightarrow> (s'', r, es @ es')))"

definition drive_until_deadline ::
  "'t session_api \<Rightarrow> 'g chooser \<Rightarrow> nat \<Rightarrow> call_pattern list \<Rightarrow> loop_tick list \<Rightarrow> 't session \<Rightarrow> 'g
     \<Rightarrow> 't session \<times> scenario_outcome option \<times> rec_event list" where
  "drive_until_deadline A sel deadline patterns ts s g =
     (if patterns = []
      then (s, Some (scenario_outcome_default\<lparr>so_notes := [''sustained: empty patterns list '' @ em_dash @ '' nothing to drive'']\<rparr>), [])
      else case sustained_loop A sel deadline patterns ts s g \<lparr>tw_calls = 0, tw_successes = 0, tw_errors = 0\<rparr> of
        (s', r, es) \<Rightarrow> (s', map_option (\<lambda>(c, notes). scenario_outcome_default\<lparr>so_total_calls := tw_calls c,
          so_successful_calls := tw_successes c, so_error_count := tw_errors c, so_notes := notes\<rparr>) r, es))"

subsection \<open>Teardown\<close>

definition saturating_plus :: "'a::len word \<Rightarrow> 'a word \<Rightarrow> 'a word" where
  "saturating_plus a b = (case checked_add a b of None \<Rightarrow> - 1 | Some c \<Rightarrow> c)"

definition SCENARIO_SHUTDOWN_TIMEOUT :: duration where
  "SCENARIO_SHUTDOWN_TIMEOUT = 20 * 10 ^ 9"

definition add_note :: "string \<Rightarrow> scenario_outcome \<Rightarrow> scenario_outcome" where
  "add_note note out = out\<lparr>so_notes := so_notes out @ [note]\<rparr>"

definition record_shutdown ::
  "'t session_api \<Rightarrow> (session_error + unit) option \<Rightarrow> string \<Rightarrow> scenario_outcome \<Rightarrow> scenario_outcome" where
  "record_shutdown A shutdown ctx out =
     (let failed = out\<lparr>so_teardown_failure_count := saturating_plus (so_teardown_failure_count out) 1\<rparr> in
      case shutdown of
        Some (Inr _) \<Rightarrow> out
      | Some (Inl e) \<Rightarrow> add_note (ctx @ '': teardown failed: '' @ show_session_error A e) failed
      | None \<Rightarrow> add_note (ctx @ '': teardown exceeded '' @
          api_show_duration A SCENARIO_SHUTDOWN_TIMEOUT) failed)"

definition shutdown_session ::
  "'t session_api \<Rightarrow> 't session \<Rightarrow> string \<Rightarrow> scenario_outcome \<Rightarrow> scenario_outcome" where
  "shutdown_session A s ctx out = record_shutdown A (session_shutdown A s) ctx out"

subsection \<open>The session pool\<close>

text \<open>
  What \<open>drive_pooled\<close> meets: the spawned sessions in the order they are joined, the coordinator's
  answer at the start gate (none without one; an error as its text), two readings of the clock, and the
  order in which worker tasks are joined. A task that fails to join carries the error's text.
\<close>

datatype 't spawned = Spawn_Session "'t session" | Spawn_Error session_error | Spawn_Failed string

type_synonym worker_end = "string + scenario_outcome"

record 't pool_env =
  pe_factory :: bool
  pe_cancelled :: bool
  pe_spawned :: "(u32 \<times> 't spawned) list"
  pe_gate :: "(string + nat) option"
  pe_now :: nat
  pe_later :: nat
  pe_wait_cancelled :: bool
  pe_joined :: "(u32 \<times> worker_end) list \<Rightarrow> (u32 \<times> worker_end) list"
  pe_thread :: u64

definition show_u32 :: "u32 \<Rightarrow> string" where
  "show_u32 n = show_base 10 (unat n)"

definition spawn_step ::
  "'t session_api \<Rightarrow> u64 \<Rightarrow> (u32 \<times> 't session) list \<times> scenario_outcome \<times> rec_event list \<Rightarrow> u32 \<times> 't spawned
     \<Rightarrow> (u32 \<times> 't session) list \<times> scenario_outcome \<times> rec_event list" where
  "spawn_step A th st item =
     (case st of (sessions, out, es) \<Rightarrow>
      let failed = out\<lparr>so_error_count := so_error_count out + 1\<rparr> in
      case item of
        (idx, Spawn_Session s) \<Rightarrow> (sessions @ [(idx, s)], out, es)
      | (idx, Spawn_Error e) \<Rightarrow> (sessions, add_note (''pool: worker '' @ show_u32 idx @ '' failed to spawn: ''
          @ show_session_error A e) failed, es @ [Rec_Call th 0 (classify_error e)])
      | (_, Spawn_Failed e) \<Rightarrow> (sessions, add_note (''pool: spawn task failed: '' @ e) failed,
          es @ [Rec_Call th 0 Outcome_Crash]))"

text \<open>The sums are the plain additions of the code.\<close>

definition merge_worker_outcome :: "scenario_outcome \<Rightarrow> u32 \<Rightarrow> scenario_outcome \<Rightarrow> scenario_outcome" where
  "merge_worker_outcome into idx part =
     (let merged = \<lparr>so_total_calls = so_total_calls into + so_total_calls part,
        so_successful_calls = so_successful_calls into + so_successful_calls part,
        so_hang_count = so_hang_count into + so_hang_count part,
        so_deadlock_count = so_deadlock_count into + so_deadlock_count part,
        so_error_count = so_error_count into + so_error_count part,
        so_divergence_count = so_divergence_count into + so_divergence_count part,
        so_incomplete_worker_count = so_incomplete_worker_count into + so_incomplete_worker_count part,
        so_teardown_failure_count = so_teardown_failure_count into + so_teardown_failure_count part,
        so_notes = so_notes into @ map (\<lambda>n. ''worker '' @ show_u32 idx @ '': '' @ n) (so_notes part),
        so_hung_for_ms = so_hung_for_ms into @ so_hung_for_ms part\<rparr>
      in if so_total_calls part = 0
         then add_note (''pool: worker '' @ show_u32 idx @ '' completed without exercising a call'')
           (merged\<lparr>so_incomplete_worker_count := so_incomplete_worker_count merged + 1\<rparr>)
         else merged)"

definition join_step ::
  "u64 \<Rightarrow> scenario_outcome \<times> rec_event list \<Rightarrow> u32 \<times> worker_end \<Rightarrow> scenario_outcome \<times> rec_event list" where
  "join_step th st item =
     (case st of (out, es) \<Rightarrow> case item of
        (idx, Inr worker) \<Rightarrow> (merge_worker_outcome out idx worker, es)
      | (_, Inl e) \<Rightarrow> (add_note (''pool: worker task failed: '' @ e)
          (out\<lparr>so_error_count := so_error_count out + 1,
               so_incomplete_worker_count := so_incomplete_worker_count out + 1\<rparr>),
          es @ [Rec_Call th 0 Outcome_Crash]))"

definition abandon_pool ::
  "'t session_api \<Rightarrow> (u32 \<times> 't session) list \<Rightarrow> string \<Rightarrow> string \<Rightarrow> scenario_outcome \<Rightarrow> scenario_outcome" where
  "abandon_pool A sessions note suffix out =
     fold (\<lambda>(idx, s). shutdown_session A s (''pool worker '' @ show_u32 idx @ suffix)) sessions
       (add_note note (out\<lparr>so_incomplete_worker_count :=
          saturating_plus (so_incomplete_worker_count out) (of_nat (length sessions))\<rparr>))"

text \<open>
  A worker: its index, the traffic's start and its session, to the calls it records and how its task
  ends, or None while it runs. The result is the merged outcome and, per task, what was recorded.
\<close>

type_synonym 't pool_worker = "u32 \<Rightarrow> nat \<Rightarrow> 't session \<Rightarrow> rec_event list \<times> worker_end option"

definition run_workers ::
  "'t pool_env \<Rightarrow> u32 \<Rightarrow> nat \<Rightarrow> 't pool_worker \<Rightarrow> (u32 \<times> 't session) list \<Rightarrow> scenario_outcome \<Rightarrow> rec_event list
     \<Rightarrow> (scenario_outcome \<times> rec_event list list) option" where
  "run_workers env requested start per_worker sessions out es =
     (let results = map (\<lambda>(idx, s). (idx, per_worker idx start s)) sessions in
      if list_ex (\<lambda>(idx, es, r). r = None) results then None
      else case foldl (join_step (pe_thread env)) (out, es)
          (pe_joined env (map (\<lambda>(idx, es, r). (idx, the r)) results)) of
        (out', es') \<Rightarrow> Some (add_note (''pool: '' @ show_base 10 (length sessions) @ '' workers (''
          @ show_u32 requested @ '' requested)'') out', es' # map (\<lambda>(idx, es, r). es) results))"

definition drive_pooled ::
  "'t session_api \<Rightarrow> 't pool_env \<Rightarrow> u32 \<Rightarrow> 't pool_worker \<Rightarrow> (scenario_outcome \<times> rec_event list list) option" where
  "drive_pooled A env requested per_worker =
     (let nothing = (\<lambda>n note. Some (add_note note
          (scenario_outcome_default\<lparr>so_incomplete_worker_count := n\<rparr>), [])) in
      if \<not> pe_factory env then nothing (ucast requested) (''pool: no session_factory on RunContext '' @ em_dash
        @ '' nothing driven (callers should take their sequential fallback path instead)'')
      else if requested = 0 then nothing 0 (''pool: 0 workers requested '' @ em_dash @ '' nothing driven'')
      else if pe_cancelled env then nothing (ucast requested) ''pool: cancelled before any session was spawned''
      else case foldl (spawn_step A (pe_thread env)) ([], scenario_outcome_default, []) (pe_spawned env) of
        (sessions, out0, es) \<Rightarrow>
          let out = out0\<lparr>so_incomplete_worker_count := saturating_sub (ucast requested) (of_nat (length sessions))\<rparr>;
              ordered = sort_key fst sessions in
          if sessions = [] then Some (add_note (''pool: all '' @ show_u32 requested @ '' session spawns failed ''
            @ em_dash @ '' nothing driven'') out, [es])
          else (case (case pe_gate env of None \<Rightarrow> Inr (pe_now env) | Some answer \<Rightarrow> answer) of
              Inl error \<Rightarrow> Some (abandon_pool A ordered (''pool: traffic start gate failed: '' @ error)
                '' before traffic start'' out, [es])
            | Inr start \<Rightarrow>
                if pe_later env < start \<and> pe_wait_cancelled env
                then Some (abandon_pool A ordered ''pool: cancelled while waiting for coordinated traffic start''
                  '' before cancelled traffic start'' out, [es])
                else run_workers env requested start per_worker ordered out es))"

subsection \<open>The sustained scenario\<close>

definition sustained_worker ::
  "'t session_api \<Rightarrow> 'g chooser \<Rightarrow> (u32 \<Rightarrow> loop_tick list) \<Rightarrow> (u32 \<Rightarrow> 'g) \<Rightarrow> duration \<Rightarrow> call_pattern list
     \<Rightarrow> 't pool_worker" where
  "sustained_worker A sel ticks seed d patterns idx start s =
     (case drive_until_deadline A sel (start + d) patterns (ticks idx) s (seed idx) of
        (s', r, es) \<Rightarrow> (es, map_option (\<lambda>out. Inr (shutdown_session A s' ''sustained pooled worker'' out)) r))"

definition drive_pooled_patterns ::
  "'t session_api \<Rightarrow> 'g chooser \<Rightarrow> (u32 \<Rightarrow> loop_tick list) \<Rightarrow> (u32 \<Rightarrow> 'g) \<Rightarrow> 't pool_env \<Rightarrow> u32 \<Rightarrow> duration
     \<Rightarrow> call_pattern list \<Rightarrow> (scenario_outcome \<times> rec_event list list) option" where
  "drive_pooled_patterns A sel ticks seed env workers d patterns =
     drive_pooled A env workers (sustained_worker A sel ticks seed d patterns)"

text \<open>The sequential path, on the one session the orchestrator connected.\<close>

definition run_loop ::
  "'t session_api \<Rightarrow> 'g chooser \<Rightarrow> loop_tick list \<Rightarrow> 'g \<Rightarrow> 't pool_env \<Rightarrow> u32 \<Rightarrow> duration \<Rightarrow> call_pattern list
     \<Rightarrow> 't session \<Rightarrow> (scenario_outcome \<times> rec_event list list) option" where
  "run_loop A sel ticks g env workers d patterns s =
     (let halted = (\<lambda>note. Some (scenario_outcome_default\<lparr>so_incomplete_worker_count := 1, so_notes := [note]\<rparr>, [])) in
      case (case pe_gate env of None \<Rightarrow> Inr (pe_now env) | Some answer \<Rightarrow> answer) of
        Inl error \<Rightarrow> halted (''sustained: traffic start gate failed: '' @ error)
      | Inr start \<Rightarrow>
          if pe_later env < start \<and> pe_wait_cancelled env
          then halted ''sustained: cancelled while waiting for coordinated traffic start''
          else (case drive_until_deadline A sel (start + d) patterns ticks s g of
            (s', r, es) \<Rightarrow> map_option (\<lambda>out.
              (if 1 < workers then out\<lparr>so_notes := (''sustained: sequential on one session; concurrent=''
                  @ show_u32 workers @ '' requested but not multiplexed on this path (pooled execution needs a ''
                  @ ''session_factory on the RunContext; Run::execute attaches one automatically)'') # so_notes out\<rparr>
               else out, [es])) r))"

definition invalid_plan :: "string \<Rightarrow> scenario_outcome" where
  "invalid_plan message = scenario_outcome_default\<lparr>so_error_count := 1,
     so_notes := [''sustained: invalid plan '' @ em_dash @ '' '' @ message]\<rparr>"

definition run_patterns ::
  "'t session_api \<Rightarrow> 'g chooser \<Rightarrow> (u32 \<Rightarrow> loop_tick list) \<Rightarrow> (u32 \<Rightarrow> 'g) \<Rightarrow> 't pool_env \<Rightarrow> u32 \<Rightarrow> duration
     \<Rightarrow> call_pattern list \<Rightarrow> 't session \<Rightarrow> (scenario_outcome \<times> rec_event list list) option" where
  "run_patterns A sel ticks seed env concurrent d patterns s =
     (if concurrent = 0 then Some (invalid_plan ''concurrent must be >= 1'', [])
      else if d = 0 then Some (invalid_plan ''duration must be > 0'', [])
      else if 1 < concurrent \<and> pe_factory env then drive_pooled_patterns A sel ticks seed env concurrent d patterns
      else run_loop A sel (ticks 0) (seed 0) env concurrent d patterns s)"

subsection \<open>What is recorded is what is counted\<close>

abbreviation is_call :: "rec_event \<Rightarrow> bool" where
  "is_call e \<equiv> event_tool e \<noteq> None"

definition calls_in :: "rec_event list \<Rightarrow> nat" where
  "calls_in es = length (filter is_call es)"

definition successes_in :: "rec_event list \<Rightarrow> nat" where
  "successes_in es = length (filter (\<lambda>e. event_outcome e = Outcome_Success) es)"

definition failures_in :: "rec_event list \<Rightarrow> nat" where
  "failures_in es = length (filter (\<lambda>e. event_outcome e \<noteq> Outcome_Success) es)"

lemma counts_in_simps [simp]:
  "calls_in [] = 0" "successes_in [] = 0" "failures_in [] = 0"
  "calls_in (es @ es') = calls_in es + calls_in es'"
  "successes_in (es @ es') = successes_in es + successes_in es'"
  "failures_in (es @ es') = failures_in es + failures_in es'"
  by (simp_all add: calls_in_def successes_in_def failures_in_def)

lemma counts_in_event [simp]:
  "calls_in (e # es) = (if is_call e then 1 else 0) + calls_in es"
  "successes_in (e # es) = (if event_outcome e = Outcome_Success then 1 else 0) + successes_in es"
  "failures_in (e # es) = (if event_outcome e = Outcome_Success then 0 else 1) + failures_in es"
  by (simp_all add: calls_in_def successes_in_def failures_in_def)

lemma counts_in_concat:
  "calls_in (concat ess) = sum_list (map calls_in ess)"
  "successes_in (concat ess) = sum_list (map successes_in ess)"
  "failures_in (concat ess) = sum_list (map failures_in ess)"
  by (induction ess) simp_all

lemma length_filter_mset: "length (filter P xs) = size (filter_mset P (mset xs))"
  by (metis mset_filter size_mset)

lemma counts_in_mset:
  assumes "mset es = mset es'"
  shows "calls_in es = calls_in es'" "successes_in es = successes_in es'" "failures_in es = failures_in es'"
  by (simp_all only: calls_in_def successes_in_def failures_in_def length_filter_mset assms)

lemma successes_failures: "successes_in es + failures_in es = length es"
  by (induction es) auto

lemma classify_error_failure [simp]: "classify_error e \<noteq> Outcome_Success"
  by (cases e rule: classify_error.cases) simp_all

lemma step_event_simps [simp]:
  "event_outcome (step_event t step oc) = oc" "event_tool (step_event t step oc) = Some (pst_tool step)"
  by (simp_all add: step_event_def)

lemma step_call_counts:
  assumes "step_call A p t step s stats = (s', stats', oc, goes_on)"
  shows "stt_attempted stats' = stt_attempted stats + 1"
    and "stt_succeeded stats' = stt_succeeded stats + (if oc = Outcome_Success then 1 else 0)"
    and "stt_errors stats' = stt_errors stats + (if oc = Outcome_Success then 0 else 1)"
  using assms by (auto simp: step_call_def Let_def split: session_result_splits)

lemma run_steps_counts:
  assumes "run_steps A p ticks idx steps s stats = (s', stats', es)"
  shows "stt_attempted stats' = stt_attempted stats + of_nat (calls_in es)
     \<and> stt_succeeded stats' = stt_succeeded stats + of_nat (successes_in es)
     \<and> stt_errors stats' = stt_errors stats + of_nat (failures_in es)"
  using assms
proof (induction steps arbitrary: idx s stats s' stats' es)
  case (Cons step steps)
  let ?t = "ticks idx"
  obtain s1 stats1 oc goes_on where c: "step_call A p ?t step s stats = (s1, stats1, oc, goes_on)"
    by (cases "step_call A p ?t step s stats") auto
  note n = step_call_counts [OF c]
  obtain s2 stats2 es2 where r: "run_steps A p ticks (idx + 1) steps s1 stats1 = (s2, stats2, es2)"
    by (cases "run_steps A p ticks (idx + 1) steps s1 stats1") auto
  show ?case using Cons.IH [OF r] Cons.prems c r n
    by (auto simp: Let_def split: if_splits)
qed simp

lemma execute_pattern_counts:
  assumes "execute_pattern A sel patterns ticks s g = (g', s', stats, es)"
  shows "stt_attempted stats = of_nat (calls_in es) \<and> stt_succeeded stats = of_nat (successes_in es)
     \<and> stt_errors stats = of_nat (failures_in es)"
  using assms by (auto simp: execute_pattern_def step_stats_default_def split: prod.splits option.splits
      dest!: run_steps_counts)

lemma sustained_loop_counts:
  assumes "sustained_loop A sel deadline patterns ts s g c = (s', Some (c', notes), es)"
  shows "tw_calls c' = tw_calls c + of_nat (calls_in es)
     \<and> tw_successes c' = tw_successes c + of_nat (successes_in es)
     \<and> tw_errors c' = tw_errors c + of_nat (failures_in es)"
  using assms
proof (induction ts arbitrary: s g c es)
  case (Cons t ts)
  obtain g1 s1 stats es1 where x: "execute_pattern A sel patterns (lt_steps t) s g = (g1, s1, stats, es1)"
    by (cases "execute_pattern A sel patterns (lt_steps t) s g") auto
  note n = execute_pattern_counts [OF x]
  obtain s2 r es2 where rest: "sustained_loop A sel deadline patterns ts s1 g1 (tally3_add c stats) = (s2, r, es2)"
    by (cases "sustained_loop A sel deadline patterns ts s1 g1 (tally3_add c stats)") auto
  show ?case using Cons.IH [of s1 g1 "tally3_add c stats" es2] Cons.prems x rest n
    by (auto simp: Let_def tally3_add_def split: if_splits)
qed simp

text \<open>An outcome that counts exactly what was recorded, and reports no hang, deadlock or divergence.\<close>

definition accounts :: "rec_event list \<Rightarrow> scenario_outcome \<Rightarrow> bool" where
  "accounts es out \<longleftrightarrow>
     so_total_calls out = of_nat (calls_in es) \<and> so_successful_calls out = of_nat (successes_in es)
     \<and> so_error_count out = of_nat (failures_in es)
     \<and> so_hang_count out = 0 \<and> so_deadlock_count out = 0 \<and> so_divergence_count out = 0"

lemma drive_until_deadline_accounts:
  assumes "drive_until_deadline A sel deadline patterns ts s g = (s', Some out, es)"
  shows "accounts es out \<and> so_incomplete_worker_count out = 0 \<and> so_teardown_failure_count out = 0"
proof (cases "patterns = []")
  case False
  obtain s1 r es1 where l: "sustained_loop A sel deadline patterns ts s g \<lparr>tw_calls = 0, tw_successes = 0, tw_errors = 0\<rparr> = (s1, r, es1)"
    by (cases "sustained_loop A sel deadline patterns ts s g \<lparr>tw_calls = 0, tw_successes = 0, tw_errors = 0\<rparr>") auto
  then obtain c msgs where r: "r = Some (c, msgs)" "es = es1" and out: "out = scenario_outcome_default\<lparr>so_total_calls := tw_calls c,
      so_successful_calls := tw_successes c, so_error_count := tw_errors c, so_notes := msgs\<rparr>"
    using assms False by (auto simp: drive_until_deadline_def)
  show ?thesis using sustained_loop_counts [OF l [unfolded r(1)]] out r(2)
    by (simp add: accounts_def scenario_outcome_default_def)
qed (use assms in \<open>auto simp: drive_until_deadline_def accounts_def scenario_outcome_default_def\<close>)

subsection \<open>The pool's sums\<close>

lemma add_note_simps [simp]:
  "so_total_calls (add_note n out) = so_total_calls out" "so_successful_calls (add_note n out) = so_successful_calls out"
  "so_error_count (add_note n out) = so_error_count out" "so_hang_count (add_note n out) = so_hang_count out"
  "so_deadlock_count (add_note n out) = so_deadlock_count out"
  "so_divergence_count (add_note n out) = so_divergence_count out"
  "so_incomplete_worker_count (add_note n out) = so_incomplete_worker_count out"
  "so_teardown_failure_count (add_note n out) = so_teardown_failure_count out"
  by (simp_all add: add_note_def)

lemma accounts_add_note [simp]: "accounts es (add_note n out) = accounts es out"
  by (simp add: accounts_def)

lemma accounts_incomplete [simp]:
  "accounts es (out\<lparr>so_incomplete_worker_count := n\<rparr>) = accounts es out"
  "accounts es (out\<lparr>so_teardown_failure_count := n\<rparr>) = accounts es out"
  by (simp_all add: accounts_def)

lemma accounts_notes [simp]: "accounts es (out\<lparr>so_notes := ns\<rparr>) = accounts es out"
  by (simp add: accounts_def)

lemma accounts_default [simp]: "accounts [] scenario_outcome_default"
  by (simp add: accounts_def scenario_outcome_default_def)

lemma accounts_shutdown [simp]: "accounts es (shutdown_session A s ctx out) = accounts es out"
  by (simp add: shutdown_session_def record_shutdown_def Let_def split: option.split sum.split)

lemma accounts_abandon [simp]: "accounts es (abandon_pool A sessions note suffix out) = accounts es out"
proof -
  have "accounts es (fold (\<lambda>(idx, s). shutdown_session A s (ctx idx)) sessions o1) = accounts es o1" for ctx o1
    by (induction sessions arbitrary: o1) (auto split: prod.split)
  from this [of "\<lambda>idx. ''pool worker '' @ show_u32 idx @ suffix"] show ?thesis
    by (simp add: abandon_pool_def)
qed

lemma accounts_failure:
  "accounts es out \<Longrightarrow> oc \<noteq> Outcome_Success \<Longrightarrow>
     accounts (es @ [Rec_Call th d oc]) (out\<lparr>so_error_count := so_error_count out + 1\<rparr>)"
  by (simp add: accounts_def add.commute)

lemma accounts_merge:
  assumes "accounts es out" "accounts es' w"
  shows "accounts (es @ es') (merge_worker_outcome out idx w)"
  using assms by (simp add: accounts_def merge_worker_outcome_def Let_def)

text \<open>The sessions that spawned, in the order they were joined.\<close>

definition live_sessions :: "(u32 \<times> 't spawned) list \<Rightarrow> (u32 \<times> 't session) list" where
  "live_sessions = List.map_filter (\<lambda>(idx, r). case r of Spawn_Session s \<Rightarrow> Some (idx, s) | _ \<Rightarrow> None)"

lemma live_sessions_simps [simp]:
  "live_sessions [] = []"
  "live_sessions ((idx, Spawn_Session s) # xs) = (idx, s) # live_sessions xs"
  "live_sessions ((idx, Spawn_Error e) # xs) = live_sessions xs"
  "live_sessions ((idx, Spawn_Failed m) # xs) = live_sessions xs"
  by (simp_all add: live_sessions_def map_filter_simps)


lemma live_sessions_mem: "(idx, s) \<in> set (live_sessions xs) \<longleftrightarrow> (idx, Spawn_Session s) \<in> set xs"
proof (induction xs)
  case (Cons x xs)
  obtain i r where "x = (i, r)" by fastforce
  then show ?case using Cons by (cases r) auto
qed simp

lemma spawn_fold:
  assumes "foldl (spawn_step A th) (ss, out, es) xs = (ss', out', es')" "accounts es out"
  shows "ss' = ss @ live_sessions xs \<and> accounts es' out' \<and> calls_in es' = calls_in es
     \<and> so_incomplete_worker_count out' = so_incomplete_worker_count out
     \<and> so_teardown_failure_count out' = so_teardown_failure_count out"
  using assms
proof (induction xs arbitrary: ss out es)
  case (Cons x xs)
  obtain i r where x: "x = (i, r)" by fastforce
  show ?case
  proof (cases r)
    case (Spawn_Session s)
    then show ?thesis using Cons.IH [of "ss @ [(i, s)]" out es] Cons.prems x by (simp add: spawn_step_def)
  next
    case (Spawn_Error e)
    let ?out = "add_note (''pool: worker '' @ show_u32 i @ '' failed to spawn: '' @ show_session_error A e)
      (out\<lparr>so_error_count := so_error_count out + 1\<rparr>)"
    have "accounts (es @ [Rec_Call th 0 (classify_error e)]) ?out"
      using accounts_failure [OF Cons.prems(2)] by simp
    then show ?thesis using Cons.IH [of ss ?out "es @ [Rec_Call th 0 (classify_error e)]"] Cons.prems(1) x Spawn_Error
      by (simp add: spawn_step_def)
  next
    case (Spawn_Failed m)
    let ?out = "add_note (''pool: spawn task failed: '' @ m) (out\<lparr>so_error_count := so_error_count out + 1\<rparr>)"
    have "accounts (es @ [Rec_Call th 0 Outcome_Crash]) ?out"
      using accounts_failure [OF Cons.prems(2)] by simp
    then show ?thesis using Cons.IH [of ss ?out "es @ [Rec_Call th 0 Outcome_Crash]"] Cons.prems(1) x Spawn_Failed
      by (simp add: spawn_step_def)
  qed
qed simp

text \<open>The join loop over workers that all end with an outcome.\<close>

definition deficit :: "scenario_outcome \<Rightarrow> nat" where
  "deficit w = (if so_total_calls w = 0 then 1 else 0)"

lemma join_step_Inr [simp]: "join_step th (out, es) (i, Inr w) = (merge_worker_outcome out i w, es)"
  by (simp add: join_step_def)

lemma join_fold:
  assumes "foldl (join_step th) (out, es) (map (\<lambda>(i, w). (i, Inr w)) ws) = (out', es')"
  shows "es' = es
     \<and> so_total_calls out' = so_total_calls out + sum_list (map (so_total_calls \<circ> snd) ws)
     \<and> so_successful_calls out' = so_successful_calls out + sum_list (map (so_successful_calls \<circ> snd) ws)
     \<and> so_error_count out' = so_error_count out + sum_list (map (so_error_count \<circ> snd) ws)
     \<and> so_hang_count out' = so_hang_count out + sum_list (map (so_hang_count \<circ> snd) ws)
     \<and> so_deadlock_count out' = so_deadlock_count out + sum_list (map (so_deadlock_count \<circ> snd) ws)
     \<and> so_divergence_count out' = so_divergence_count out + sum_list (map (so_divergence_count \<circ> snd) ws)
     \<and> so_incomplete_worker_count out' = so_incomplete_worker_count out
          + sum_list (map (so_incomplete_worker_count \<circ> snd) ws) + of_nat (sum_list (map (deficit \<circ> snd) ws))
     \<and> so_teardown_failure_count out' = so_teardown_failure_count out
          + sum_list (map (so_teardown_failure_count \<circ> snd) ws)"
  using assms
proof (induction ws arbitrary: out)
  case (Cons x ws)
  obtain i w where x: "x = (i, w)" by fastforce
  have step: "foldl (join_step th) (merge_worker_outcome out i w, es) (map (\<lambda>(i, w). (i, Inr w)) ws) = (out', es')"
    using Cons.prems x by simp
  show ?case using Cons.IH [OF step] x
    by (simp add: merge_worker_outcome_def Let_def deficit_def algebra_simps)
qed simp

lemma sum_list_mset: "mset xs = mset ys \<Longrightarrow> sum_list (map f xs) = (sum_list (map f ys) :: 'b::comm_monoid_add)"
  by (metis mset_map sum_mset_sum_list)

lemma mset_map_inverse:
  assumes "mset ys = mset (map f xs)" "\<And>x. g (f x) = x"
  shows "ys = map f (map g ys) \<and> mset (map g ys) = mset xs"
proof
  have "y \<in> set ys \<Longrightarrow> f (g y) = y" for y
    using mset_eq_setD [OF assms(1)] assms(2) by auto
  then show "ys = map f (map g ys)" by (simp add: map_idI)
  have "mset (map g ys) = image_mset g (image_mset f (mset xs))" using assms(1) by simp
  then show "mset (map g ys) = mset xs" by (simp add: assms(2) multiset.map_comp comp_def)
qed

lemma accounts_sums:
  assumes "list_all (\<lambda>(es, w). accounts es w) ews"
  shows "sum_list (map (so_total_calls \<circ> snd) ews) = of_nat (calls_in (concat (map fst ews)))
     \<and> sum_list (map (so_successful_calls \<circ> snd) ews) = of_nat (successes_in (concat (map fst ews)))
     \<and> sum_list (map (so_error_count \<circ> snd) ews) = of_nat (failures_in (concat (map fst ews)))
     \<and> sum_list (map (so_hang_count \<circ> snd) ews) = 0 \<and> sum_list (map (so_deadlock_count \<circ> snd) ews) = 0
     \<and> sum_list (map (so_divergence_count \<circ> snd) ews) = 0"
  using assms by (induction ews) (auto simp: accounts_def)

text \<open>A worker whose task always ends, and whose outcome counts what it recorded.\<close>

definition reliable_worker :: "'t pool_worker \<Rightarrow> bool" where
  "reliable_worker pw \<longleftrightarrow> (\<forall>i start s es r. pw i start s = (es, Some r) \<longrightarrow>
     (\<exists>w. r = Inr w \<and> accounts es w \<and> so_incomplete_worker_count w = 0))"

lemma run_workers_sums:
  fixes pw :: "'t pool_worker"
  assumes run: "run_workers env requested start pw ss out es = Some (out', streams)"
    and perm: "\<And>xs. mset (pe_joined env xs) = mset xs"
    and ends: "\<forall>i s es r. pw i start s = (es, Some r) \<longrightarrow> (\<exists>w. r = Inr w)"
  shows "\<exists>ews n o1. map (\<lambda>(i, s). pw i start s) ss = map (\<lambda>(wes, w). (wes, Some (Inr w))) ews
     \<and> streams = es # map fst ews \<and> out' = add_note n o1
     \<and> so_total_calls o1 = so_total_calls out + sum_list (map (so_total_calls \<circ> snd) ews)
     \<and> so_successful_calls o1 = so_successful_calls out + sum_list (map (so_successful_calls \<circ> snd) ews)
     \<and> so_error_count o1 = so_error_count out + sum_list (map (so_error_count \<circ> snd) ews)
     \<and> so_hang_count o1 = so_hang_count out + sum_list (map (so_hang_count \<circ> snd) ews)
     \<and> so_deadlock_count o1 = so_deadlock_count out + sum_list (map (so_deadlock_count \<circ> snd) ews)
     \<and> so_divergence_count o1 = so_divergence_count out + sum_list (map (so_divergence_count \<circ> snd) ews)
     \<and> so_incomplete_worker_count o1 = so_incomplete_worker_count out
          + sum_list (map (so_incomplete_worker_count \<circ> snd) ews) + of_nat (sum_list (map (deficit \<circ> snd) ews))
     \<and> so_teardown_failure_count o1 = so_teardown_failure_count out
          + sum_list (map (so_teardown_failure_count \<circ> snd) ews)"
proof -
  define ews where "ews = map (\<lambda>(i, s). (fst (pw i start s), projr (the (snd (pw i start s))))) ss"
  have ended: "\<exists>wes w. pw i start s = (wes, Some (Inr w))" if "(i, s) \<in> set ss" for i s
  proof -
    have "snd (pw i start s) \<noteq> None"
      using run that by (auto simp: run_workers_def list_ex_iff Let_def split: if_splits)
    then obtain wes r where "pw i start s = (wes, Some r)" by (cases "pw i start s") auto
    then show ?thesis using ends by blast
  qed
  have map_ews: "map (\<lambda>(i, s). pw i start s) ss = map (\<lambda>(wes, w). (wes, Some (Inr w))) ews"
    using ended by (force simp: ews_def)
  let ?inr = "\<lambda>(i :: u32, w :: scenario_outcome). (i, Inr w :: worker_end)"
  let ?ws = "zip (map fst ss) (map snd ews)"
  have len: "length ews = length ss" by (simp add: ews_def)
  have got: "snd (pw i start s) = Some (Inr (projr (the (snd (pw i start s)))))" if "(i, s) \<in> set ss" for i s
    using ended [OF that] by force
  have "map (\<lambda>(idx, es, r). (idx, the r)) (map (\<lambda>(idx, s). (idx, pw idx start s)) ss)
      = map (\<lambda>(i, s). (i, the (snd (pw i start s)))) ss" by (simp add: case_prod_unfold comp_def)
  also have "\<dots> = map (\<lambda>(i, s). (i, Inr (projr (the (snd (pw i start s)))))) ss"
    using got by (auto intro!: map_cong) (metis option.sel)
  also have "\<dots> = map ?inr ?ws"
    by (simp add: ews_def case_prod_unfold comp_def zip_map_map zip_same_conv_map)
  finally have joined_ends: "map (\<lambda>(idx, es, r). (idx, the r)) (map (\<lambda>(idx, s). (idx, pw idx start s)) ss) = map ?inr ?ws" .
  then have joined: "mset (pe_joined env (map (\<lambda>(idx, es, r). (idx, the r)) (map (\<lambda>(idx, s). (idx, pw idx start s)) ss)))
      = mset (map ?inr ?ws)" using perm joined_ends by simp
  have inv: "(\<lambda>(i, r). (i, projr r)) (?inr x) = x" for x by (cases x) simp
  obtain ws where ws: "pe_joined env (map (\<lambda>(idx, es, r). (idx, the r)) (map (\<lambda>(idx, s). (idx, pw idx start s)) ss)) = map ?inr ws"
    "mset ws = mset ?ws" using mset_map_inverse [OF joined inv] by blast
  have sums: "sum_list (map (h \<circ> snd) ws) = sum_list (map (h \<circ> snd) ews)" for h :: "scenario_outcome \<Rightarrow> 'n::comm_monoid_add"
  proof -
    have "sum_list (map (h \<circ> snd) ?ws) = sum_list (map h (map snd ?ws))" by (simp add: comp_def)
    also have "map snd ?ws = map snd ews" using len by simp
    finally show ?thesis using sum_list_mset [OF ws(2), of "h \<circ> snd"] by (simp add: comp_def)
  qed
  obtain o1 es1 where j: "foldl (join_step (pe_thread env)) (out, es) (map ?inr ws) = (o1, es1)" by fastforce
  note J = join_fold [OF j, unfolded sums]
  have "streams = es # map fst ews" "\<exists>n. out' = add_note n o1"
    using run j J ws(1) by (auto simp: run_workers_def Let_def ews_def split: if_splits prod.splits)
  then show ?thesis using map_ews J by blast
qed

lemma run_workers_result:
  fixes pw :: "'t pool_worker"
  assumes run: "run_workers env requested start pw ss out es = Some (out', streams)"
    and perm: "\<And>xs. mset (pe_joined env xs) = mset xs" and pw: "reliable_worker pw" and acc: "accounts es out"
  shows "\<exists>ews. map (\<lambda>(i, s). pw i start s) ss = map (\<lambda>(wes, w). (wes, Some (Inr w))) ews
     \<and> streams = es # map fst ews \<and> accounts (concat streams) out'
     \<and> so_incomplete_worker_count out' = so_incomplete_worker_count out + of_nat (sum_list (map (deficit \<circ> snd) ews))
     \<and> so_teardown_failure_count out' = so_teardown_failure_count out
          + sum_list (map (so_teardown_failure_count \<circ> snd) ews)"
proof -
  have "\<forall>i s es r. pw i start s = (es, Some r) \<longrightarrow> (\<exists>w. r = Inr w)"
    using pw unfolding reliable_worker_def by blast
  from run_workers_sums [OF run perm this] obtain ews n o1
    where E: "map (\<lambda>(i, s). pw i start s) ss = map (\<lambda>(wes, w). (wes, Some (Inr w))) ews"
      "streams = es # map fst ews" "out' = add_note n o1" and J:
      "so_total_calls o1 = so_total_calls out + sum_list (map (so_total_calls \<circ> snd) ews)"
      "so_successful_calls o1 = so_successful_calls out + sum_list (map (so_successful_calls \<circ> snd) ews)"
      "so_error_count o1 = so_error_count out + sum_list (map (so_error_count \<circ> snd) ews)"
      "so_hang_count o1 = so_hang_count out + sum_list (map (so_hang_count \<circ> snd) ews)"
      "so_deadlock_count o1 = so_deadlock_count out + sum_list (map (so_deadlock_count \<circ> snd) ews)"
      "so_divergence_count o1 = so_divergence_count out + sum_list (map (so_divergence_count \<circ> snd) ews)"
      "so_incomplete_worker_count o1 = so_incomplete_worker_count out
          + sum_list (map (so_incomplete_worker_count \<circ> snd) ews) + of_nat (sum_list (map (deficit \<circ> snd) ews))"
      "so_teardown_failure_count o1 = so_teardown_failure_count out
          + sum_list (map (so_teardown_failure_count \<circ> snd) ews)" by blast
  have each: "accounts wes w \<and> so_incomplete_worker_count w = 0" if "(wes, w) \<in> set ews" for wes w
  proof -
    have "(wes, Some (Inr w)) \<in> set (map (\<lambda>(i, s). pw i start s) ss)" using that by (force simp: E(1))
    then obtain i s where "pw i start s = (wes, Some (Inr w))" by force
    then show ?thesis using pw unfolding reliable_worker_def by fastforce
  qed
  have all: "list_all (\<lambda>(wes, w). accounts wes w) ews" "list_all (\<lambda>(wes, w). so_incomplete_worker_count w = 0) ews"
    using each by (force simp: list_all_iff)+
  have "so_incomplete_worker_count o1 = so_incomplete_worker_count out + of_nat (sum_list (map (deficit \<circ> snd) ews))"
    using J all(2) by (simp add: list_all_iff case_prod_unfold cong: map_cong)
  moreover have "accounts (concat streams) o1"
    using J acc accounts_sums [OF all(1)] E(2) by (simp add: accounts_def)
  ultimately show ?thesis using E J by auto
qed

text \<open>Every way a pool or a single session ends counts what was recorded.\<close>

lemma reliable_sustained: "reliable_worker (sustained_worker A sel ticks seed d patterns)"
proof -
  have "so_incomplete_worker_count (shutdown_session A s ctx out) = so_incomplete_worker_count out" for s ctx out
    by (simp add: shutdown_session_def record_shutdown_def Let_def split: option.split sum.split)
  then show ?thesis
    by (auto simp: reliable_worker_def sustained_worker_def split: prod.splits dest!: drive_until_deadline_accounts)
qed

lemma drive_pooled_accounts:
  assumes run: "drive_pooled A env requested pw = Some (out, streams)"
    and perm: "\<And>xs. mset (pe_joined env xs) = mset xs" and pw: "reliable_worker pw"
  shows "accounts (concat streams) out"
proof -
  obtain ss o0 es where sp: "foldl (spawn_step A (pe_thread env)) ([], scenario_outcome_default, []) (pe_spawned env) = (ss, o0, es)"
    by (cases "foldl (spawn_step A (pe_thread env)) ([], scenario_outcome_default, []) (pe_spawned env)") auto
  let ?o1 = "o0\<lparr>so_incomplete_worker_count := saturating_sub (ucast requested) (of_nat (length ss))\<rparr>"
  have acc: "accounts es o0" using spawn_fold [OF sp accounts_default] by simp
  have rw: "accounts (concat streams) out" if "run_workers env requested start pw (sort_key fst ss) ?o1 es = Some (out, streams)" for start
    using run_workers_result [OF that perm pw] acc by auto
  show ?thesis using run sp acc rw
    by (auto simp: drive_pooled_def Let_def split: if_splits option.splits sum.splits)
qed

lemma run_loop_accounts:
  assumes "run_loop A sel ticks g env workers d patterns s = Some (out, streams)"
  shows "accounts (concat streams) out"
  using assms
  by (auto simp: run_loop_def Let_def split: if_splits option.splits sum.splits prod.splits
      dest!: drive_until_deadline_accounts)

lemma run_patterns_accounts:
  assumes "run_patterns A sel ticks seed env concurrent d patterns s = Some (out, streams)"
    and "concurrent \<noteq> 0" "d \<noteq> 0" and perm: "\<And>xs. mset (pe_joined env xs) = mset xs"
  shows "accounts (concat streams) out"
  using assms drive_pooled_accounts [OF _ perm reliable_sustained] run_loop_accounts
  by (fastforce simp: run_patterns_def drive_pooled_patterns_def split: if_splits)

lemma count_list_successes: "count_list (map event_outcome es) Outcome_Success = successes_in es"
  by (induction es) auto

lemma unat_of_nat_u64: "n < 2 ^ 64 \<Longrightarrow> unat (of_nat n :: u64) = n"
  by (simp add: unat_of_nat take_bit_nat_eq_self)

lemma filter_length_bounds: "calls_in es \<le> length es" "successes_in es \<le> length es" "failures_in es \<le> length es"
  by (simp_all add: calls_in_def successes_in_def failures_in_def)

subsection \<open>The counts of a run\<close>

lemma accounts_matches_recorder:
  assumes acc: "accounts es out" and H: "hdr_contract H" and len: "length es < 2 ^ 64"
  shows "\<exists>r0 r m. recorder_new H t0 = Some r0 \<and> recorder_run H r0 es = Some r \<and> recorder_snapshot H now r = Some m
     \<and> so_successful_calls out = oc_success (sm_outcomes m)
     \<and> unat (so_successful_calls out) + unat (so_error_count out) = unat (ts_total_requests (sm_throughput m))
     \<and> unat (so_total_calls out) = length (filter (\<lambda>e. event_tool e \<noteq> None) es)
     \<and> so_hang_count out = 0 \<and> so_deadlock_count out = 0 \<and> so_divergence_count out = 0"
proof -
  have out: "unat (so_total_calls out) = calls_in es" "unat (so_successful_calls out) = successes_in es"
    "unat (so_error_count out) = failures_in es" "so_hang_count out = 0" "so_deadlock_count out = 0" "so_divergence_count out = 0"
    using acc filter_length_bounds [of es] len by (simp_all add: accounts_def unat_of_nat_u64)
  obtain r0 r where r: "recorder_new H t0 = Some r0" "recorder_run H r0 es = Some r" "recorder_inv H es r"
    using recorder_run_inv [OF H len] by blast
  then have t: "tally H (map event_outcome es) (rec_outcomes r) (rec_latency r)" by (simp add: recorder_inv_def)
  then obtain h where h: "sharded_merged H (rec_latency r) = Some h"
    using tally_merged [OF H t] len by auto
  define m where "m = metrics_of H now (rec_start r) (rec_outcomes r) h"
  have m: "recorder_snapshot H now r = Some m" using h by (simp add: recorder_snapshot_def m_def)
  have "unat (count_of (rec_outcomes r) Outcome_Success) = successes_in es"
    using t count_list_successes [of es] by (metis tally_def)
  then have "so_successful_calls out = oc_success (sm_outcomes m)"
    using out(2) by (simp add: m_def metrics_of_def Let_def word_unat_eq_iff)
  moreover have "unat (ts_total_requests (sm_throughput m)) = length es"
    using tally_total [OF t] len by (simp add: m_def metrics_of_def Let_def)
  ultimately show ?thesis using r m out successes_failures [of es] by (auto simp: calls_in_def)
qed

text \<open>
  C11. What a sustained scenario reports is what the recorder saw. However many workers run, whatever
  fails to spawn, is cut short or cancelled, and in whatever order the workers' calls reach the shared
  recorder, the reported successes are the recorder's successes, successes and errors together are all
  it recorded, and the reported total is the number of calls it filed under a tool.
\<close>

theorem sustained_outcome_matches_recorder:
  assumes run: "run_patterns A sel ticks seed env concurrent d patterns s = Some (out, streams)"
    and plan: "concurrent \<noteq> 0" "d \<noteq> 0"
    and perm: "\<And>xs. mset (pe_joined env xs) = mset xs"
    and H: "hdr_contract H" and order: "mset es = mset (concat streams)" and len: "length es < 2 ^ 64"
  shows "\<exists>r0 r m. recorder_new H t0 = Some r0 \<and> recorder_run H r0 es = Some r \<and> recorder_snapshot H now r = Some m
     \<and> so_successful_calls out = oc_success (sm_outcomes m)
     \<and> unat (so_successful_calls out) + unat (so_error_count out) = unat (ts_total_requests (sm_throughput m))
     \<and> unat (so_total_calls out) = length (filter (\<lambda>e. event_tool e \<noteq> None) es)
     \<and> so_hang_count out = 0 \<and> so_deadlock_count out = 0 \<and> so_divergence_count out = 0"
proof -
  have "accounts es out"
    using run_patterns_accounts [OF run plan perm] counts_in_mset [OF order] by (simp add: accounts_def)
  from accounts_matches_recorder [OF this H len] show ?thesis .
qed

subsection \<open>What a passed run shows\<close>

text \<open>A pool that made a call got past the start gate.\<close>

lemma drive_pooled_started:
  assumes run: "drive_pooled A env requested pw = Some (out, streams)" and calls: "so_total_calls out \<noteq> 0"
    and perm: "\<And>xs. mset (pe_joined env xs) = mset xs" and pw: "reliable_worker pw"
  shows "\<exists>start ews. map (\<lambda>(i, s). pw i start s) (sort_key fst (live_sessions (pe_spawned env)))
        = map (\<lambda>(wes, w). (wes, Some (Inr w))) ews
     \<and> set (map fst ews) \<subseteq> set streams
     \<and> so_incomplete_worker_count out
        = saturating_sub (ucast requested) (of_nat (length ews)) + of_nat (sum_list (map (deficit \<circ> snd) ews))
     \<and> so_teardown_failure_count out = sum_list (map (so_teardown_failure_count \<circ> snd) ews)"
proof -
  obtain ss o0 es where sp: "foldl (spawn_step A (pe_thread env)) ([], scenario_outcome_default, []) (pe_spawned env) = (ss, o0, es)"
    by (cases "foldl (spawn_step A (pe_thread env)) ([], scenario_outcome_default, []) (pe_spawned env)") auto
  note S = spawn_fold [OF sp accounts_default]
  let ?o1 = "o0\<lparr>so_incomplete_worker_count := saturating_sub (ucast requested) (of_nat (length ss))\<rparr>"
  have none: "so_total_calls out = 0" if "accounts es out" using that S by (simp add: accounts_def)
  have "\<exists>start. run_workers env requested start pw (sort_key fst ss) ?o1 es = Some (out, streams)"
    using run sp calls none S
    by (auto simp: drive_pooled_def Let_def scenario_outcome_default_def add_note_def
        split: if_splits option.splits sum.splits)
  then obtain start where rw: "run_workers env requested start pw (sort_key fst ss) ?o1 es = Some (out, streams)" by blast
  have "accounts es ?o1" using S by simp
  from run_workers_result [OF rw perm pw this] obtain ews where
    E: "map (\<lambda>(i, s). pw i start s) (sort_key fst ss) = map (\<lambda>(wes, w). (wes, Some (Inr w))) ews"
      "streams = es # map fst ews"
      "so_incomplete_worker_count out = so_incomplete_worker_count ?o1 + of_nat (sum_list (map (deficit \<circ> snd) ews))"
      "so_teardown_failure_count out = so_teardown_failure_count ?o1 + sum_list (map (so_teardown_failure_count \<circ> snd) ews)"
    by blast
  have "length ews = length ss" using arg_cong [OF E(1), of length] by simp
  moreover have "so_teardown_failure_count o0 = 0" using S by (simp add: scenario_outcome_default_def)
  ultimately show ?thesis using E S by (intro exI [of _ start] exI [of _ ews]) auto
qed

lemma deficit_sum_le: "sum_list (map (deficit \<circ> snd) ews) \<le> length ews"
  by (induction ews) (auto simp: deficit_def)

lemma live_sessions_length:
  "length (live_sessions xs) \<le> length xs"
  "length (live_sessions xs) = length xs \<Longrightarrow> list_all (\<lambda>(idx, r). \<exists>s. r = Spawn_Session s) xs"
proof -
  show le: "length (live_sessions xs) \<le> length xs" for xs :: "(u32 \<times> 't spawned) list"
  proof (induction xs)
    case (Cons x xs)
    obtain i r where "x = (i, r)" by fastforce
    then show ?case using Cons by (cases r) auto
  qed simp
  show "length (live_sessions xs) = length xs \<Longrightarrow> list_all (\<lambda>(idx, r). \<exists>s. r = Spawn_Session s) xs"
  proof (induction xs)
    case (Cons x xs)
    obtain i r where "x = (i, r)" by fastforce
    then show ?case using Cons le [of xs] by (cases r) auto
  qed simp
qed

lemma sum_words_zero:
  fixes f :: "'a \<Rightarrow> u64"
  assumes "\<forall>x \<in> set xs. unat (f x) \<le> 1" "length xs < 2 ^ 64" "sum_list (map f xs) = 0"
  shows "\<forall>x \<in> set xs. f x = 0"
proof -
  have le: "sum_list (map (unat \<circ> f) xs) \<le> length xs" using assms(1) by (induction xs) auto
  have "sum_list (map f xs) = of_nat (sum_list (map (unat \<circ> f) xs))" by (induction xs) simp_all
  then have "sum_list (map (unat \<circ> f) xs) = 0"
    using unat_of_nat_u64 [OF le_less_trans [OF le assms(2)]] assms(3) by simp
  then show ?thesis by (simp add: unat_eq_zero)
qed

text \<open>No worker is missing, idle or left open when the two failure counts are zero.\<close>

lemma complete_pool:
  assumes "length (live_sessions xs) = length ews" "length xs = unat (requested :: u32)"
    and "saturating_sub (ucast requested) (of_nat (length ews)) + of_nat (sum_list (map (deficit \<circ> snd) ews)) = (0 :: u64)"
  shows "length ews = length xs \<and> (\<forall>(wes, w) \<in> set ews. so_total_calls w \<noteq> 0)"
proof -
  let ?req = "ucast requested :: u64"
  have req: "unat ?req = length xs" "length xs < 2 ^ 32"
    using assms(2) unsigned_less [of requested, where 'a = nat] by (simp_all add: unsigned_ucast_eq take_bit_nat_eq_self)
  have n: "length ews \<le> length xs" using live_sessions_length(1) [of xs] assms(1) by simp
  then have ews: "unat (of_nat (length ews) :: u64) = length ews" using req(2) by (intro unat_of_nat_u64) simp
  have sub: "unat (saturating_sub ?req (of_nat (length ews))) = length xs - length ews"
    using req ews by (simp add: unat_saturating_sub)
  let ?d = "sum_list (map (deficit \<circ> snd) ews)"
  have d: "?d < 2 ^ 32" using deficit_sum_le [of ews] n req(2) by simp
  have "unat (saturating_sub ?req (of_nat (length ews)) + of_nat ?d) = (length xs - length ews) + ?d"
    using sub d req(2) unat_of_nat_u64 [of ?d] by (subst unat_word_ariths) simp
  then have zero: "length xs - length ews = 0" "?d = 0" using assms(3) by simp_all
  have "deficit (snd e) = 0" if "e \<in> set ews" for e using zero(2) that by (auto simp: comp_def)
  then show ?thesis using n zero(1) by (fastforce simp: deficit_def split: if_splits)
qed

lemma accounts_of_session:
  assumes "drive_until_deadline A sel deadline patterns ts s g = (s', Some w, es)" "so_total_calls w \<noteq> 0"
  shows "0 < calls_in es"
  using drive_until_deadline_accounts [OF assms(1)] assms(2) by (auto simp: accounts_def intro!: Nat.gr0I)

lemma shutdown_teardown:
  assumes "so_teardown_failure_count out = 0"
  shows "unat (so_teardown_failure_count (shutdown_session A s ctx out)) \<le> 1"
    "so_teardown_failure_count (shutdown_session A s ctx out) = 0 \<longleftrightarrow> session_shutdown A s = Some (Inr ())"
    "so_total_calls (shutdown_session A s ctx out) = so_total_calls out"
  using assms by (auto simp: shutdown_session_def record_shutdown_def Let_def saturating_plus_def checked_add_def
      split: option.split sum.split)

lemma nth_of_map_eq:
  assumes "map f xs = map g ys" "x \<in> set xs"
  shows "\<exists>y \<in> set ys. f x = g y"
  using assms by (metis imageE imageI set_map)

text \<open>
  C23. A passed report of a pooled run shows that every requested worker did its part. Where each of the
  workers asked for is spawned once, a report that passes on the pool's outcome means that every one
  of them got its own session, made at least one call whose record is among the streams, and shut its
  session down cleanly: a worker that failed to spawn, never ran, never called or hung at teardown
  cannot be hidden by the traffic of the others.
\<close>

theorem passed_pool_ran_every_worker:
  assumes run: "run_patterns A sel ticks seed env workers d patterns s0 = Some (out, streams)"
    and pool: "1 < workers" "d \<noteq> 0" "pe_factory env"
    and perm: "\<And>xs. mset (pe_joined env xs) = mset xs"
    and spawned: "mset (map fst (pe_spawned env)) = mset (map of_nat [0..<unat workers])"
    and report: "passed r" "rp_scenario_outcome r = out"
    and idx: "idx < workers"
  shows "\<exists>s start s' w es. (idx, Spawn_Session s) \<in> set (pe_spawned env)
     \<and> drive_until_deadline A sel (start + d) patterns (ticks idx) s (seed idx) = (s', Some w, es)
     \<and> es \<in> set streams \<and> 0 < length (filter (\<lambda>e. event_tool e \<noteq> None) es)
     \<and> session_shutdown A s' = Some (Inr ())"
proof -
  let ?pw = "sustained_worker A sel ticks seed d patterns"
  have drive: "drive_pooled A env workers ?pw = Some (out, streams)"
    using run pool by (simp add: run_patterns_def drive_pooled_patterns_def word_less_nat_alt split: if_splits)
  have calls: "so_total_calls out \<noteq> 0" "so_incomplete_worker_count out = 0" "so_teardown_failure_count out = 0"
    using report by (auto simp: passed_def Let_def)
  obtain start ews where
    E: "map (\<lambda>(i, s). ?pw i start s) (sort_key fst (live_sessions (pe_spawned env)))
        = map (\<lambda>(wes, w). (wes, Some (Inr w))) ews" "set (map fst ews) \<subseteq> set streams"
      "so_incomplete_worker_count out
        = saturating_sub (ucast workers) (of_nat (length ews)) + of_nat (sum_list (map (deficit \<circ> snd) ews))"
      "so_teardown_failure_count out = sum_list (map (so_teardown_failure_count \<circ> snd) ews)"
    using drive_pooled_started [OF drive calls(1) perm reliable_sustained] by blast
  have len: "length (live_sessions (pe_spawned env)) = length ews" using arg_cong [OF E(1), of length] by simp
  have n: "length (pe_spawned env) = unat workers" using arg_cong [OF spawned, of size] by simp
  have all: "length ews = length (pe_spawned env)" "\<forall>(wes, w) \<in> set ews. so_total_calls w \<noteq> 0"
    using complete_pool [OF len n] E(3) calls(2) by simp_all
  have "of_nat (unat idx) \<in> set (map of_nat [0..<unat workers] :: u32 list)"
    using idx by (auto simp: word_less_nat_alt image_iff intro!: bexI [of _ "unat idx"])
  then have "idx \<in> set (map fst (pe_spawned env))" using mset_eq_setD [OF spawned] by simp
  then obtain s where s: "(idx, Spawn_Session s) \<in> set (pe_spawned env)"
    using live_sessions_length(2) [of "pe_spawned env"] len all(1) by (auto simp: list_all_iff)
  then have live: "(idx, s) \<in> set (sort_key fst (live_sessions (pe_spawned env)))" by (simp add: live_sessions_mem)
  have ended: "\<exists>es s' w0. drive_until_deadline A sel (start + d) patterns (ticks i) sx (seed i) = (s', Some w0, es)
      \<and> wes = es \<and> w = shutdown_session A s' ''sustained pooled worker'' w0"
    if "?pw i start sx = (wes, Some (Inr w))" for i sx wes w
    using that by (auto simp: sustained_worker_def split: prod.splits)
  have sane: "so_teardown_failure_count w0 = 0"
    if "drive_until_deadline A sel (start + d) patterns (ticks i) sx (seed i) = (s', Some w0, es)" for i sx s' w0 es
    using drive_until_deadline_accounts [OF that] by simp
  have "unat (so_teardown_failure_count w) \<le> 1" if mem: "(wes, w) \<in> set ews" for wes w
  proof -
    obtain i sx where "?pw i start sx = (wes, Some (Inr w))"
      using nth_of_map_eq [OF E(1) [symmetric] mem] by auto
    then show ?thesis using ended sane shutdown_teardown(1) by metis
  qed
  then have clean: "\<forall>x \<in> set ews. (so_teardown_failure_count \<circ> snd) x = 0"
    using E(4) calls(3) all(1) n unsigned_less [of workers, where 'a = nat] by (intro sum_words_zero) (auto simp: comp_def)
  obtain wes w where w: "(wes, w) \<in> set ews" "?pw idx start s = (wes, Some (Inr w))"
    using nth_of_map_eq [OF E(1) live] by auto
  obtain es s' w0 where d: "drive_until_deadline A sel (start + d) patterns (ticks idx) s (seed idx) = (s', Some w0, es)"
    "wes = es" "w = shutdown_session A s' ''sustained pooled worker'' w0"
    using ended [OF w(2)] by blast
  have "so_teardown_failure_count w = 0" "so_total_calls w \<noteq> 0" using clean all(2) w(1) by auto
  then have "session_shutdown A s' = Some (Inr ())" "so_total_calls w0 \<noteq> 0"
    by (simp_all add: d(3) shutdown_teardown(2,3) [OF sane [OF d(1)]])
  moreover have "es \<in> set streams" using E(2) w(1) d(2) by force
  ultimately show ?thesis using s d(1) accounts_of_session [OF d(1)] by (fastforce simp: calls_in_def)
qed

subsection \<open>A run of two workers\<close>

definition calm_tick :: step_tick where
  "calm_tick = \<lparr>et_cancelled = False, et_cancelled_thinking = False, et_dropped = False, et_elapsed = 0,
     et_thread = 0, et_now = 0\<rparr>"

text \<open>One iteration before the deadline of 5, then the deadline.\<close>

definition two_ticks :: "loop_tick list" where
  "two_ticks = [\<lparr>lt_cancelled = False, lt_now = 0, lt_steps = \<lambda>_. calm_tick\<rparr>,
     \<lparr>lt_cancelled = False, lt_now = 5, lt_steps = \<lambda>_. calm_tick\<rparr>]"

definition first_pattern :: "unit chooser" where
  "first_pattern g ws = (g, Some 0)"

abbreviation echo_patterns :: "call_pattern list" where
  "echo_patterns \<equiv> [single_call ''echo'' (JObject [])]"

definition echo_event :: rec_event where
  "echo_event = Rec_Tool 0 0 ''echo'' 0 Outcome_Success"

definition one_call :: scenario_outcome where
  "one_call = scenario_outcome_default\<lparr>so_total_calls := 1, so_successful_calls := 1\<rparr>"

lemma echo_drive:
  "\<exists>s'. drive_until_deadline echo_api first_pattern 5 echo_patterns two_ticks echo_session () = (s', Some one_call, [echo_event])"
proof -
  have call: "call_tool echo_api ''echo'' (JObject []) echo_session = (echo_session\<lparr>ss_next_id := 2\<rparr>, Some (Inr empty_result))"
    using echo_call [of echo_session "''echo''" "JObject []"] by (auto simp: echo_session_def)
  have "step_call echo_api (single_call ''echo'' (JObject [])) calm_tick \<lparr>pst_tool = ''echo'', pst_args = JObject []\<rparr> echo_session step_stats_default
      = (echo_session\<lparr>ss_next_id := 2\<rparr>, \<lparr>stt_attempted = 1, stt_succeeded = 1, stt_errors = 0, stt_terminal = False\<rparr>, Outcome_Success, True)"
    by (simp add: step_call_def Let_def call calm_tick_def step_stats_default_def is_logical_tool_error_def empty_result_def)
  then have "execute_pattern echo_api first_pattern echo_patterns (\<lambda>_. calm_tick) echo_session ()
      = ((), echo_session\<lparr>ss_next_id := 2\<rparr>, \<lparr>stt_attempted = 1, stt_succeeded = 1, stt_errors = 0, stt_terminal = False\<rparr>, [echo_event])"
    by (simp add: execute_pattern_def pick_pattern_def first_pattern_def single_call_def Let_def step_event_def
        echo_event_def) (simp add: calm_tick_def)
  then show ?thesis
    by (simp add: drive_until_deadline_def two_ticks_def Let_def tally3_add_def one_call_def scenario_outcome_default_def)
qed

definition echo_env :: "(u32 \<times> string spawned) list \<Rightarrow> string pool_env" where
  "echo_env spawned = \<lparr>pe_factory = True, pe_cancelled = False, pe_spawned = spawned, pe_gate = None, pe_now = 0,
     pe_later = 0, pe_wait_cancelled = False, pe_joined = rev, pe_thread = 0\<rparr>"

lemma echo_worker:
  "sustained_worker echo_api first_pattern (\<lambda>_. two_ticks) (\<lambda>_. ()) 5 echo_patterns i 0 echo_session
     = ([echo_event], Some (Inr one_call))"
  using echo_drive
  by (auto simp: sustained_worker_def shutdown_session_def session_shutdown_def record_shutdown_def echo_over_def)

abbreviation echo_run ::
  "(u32 \<times> string spawned) list \<Rightarrow> (scenario_outcome \<times> rec_event list list) option" where
  "echo_run spawned \<equiv> run_patterns echo_api first_pattern (\<lambda>_. two_ticks) (\<lambda>_. ()) (echo_env spawned) 2 5
     echo_patterns echo_session"

lemma echo_env_simps [simp]:
  "pe_factory (echo_env sp) = True" "pe_cancelled (echo_env sp) = False" "pe_spawned (echo_env sp) = sp"
  "pe_gate (echo_env sp) = None" "pe_now (echo_env sp) = 0" "pe_later (echo_env sp) = 0"
  "pe_wait_cancelled (echo_env sp) = False" "pe_joined (echo_env sp) = rev" "pe_thread (echo_env sp) = 0"
  by (simp_all add: echo_env_def)

lemma echo_run_both:
  "\<exists>out. echo_run [(1, Spawn_Session echo_session), (0, Spawn_Session echo_session)]
     = Some (out, [[], [echo_event], [echo_event]])
     \<and> so_total_calls out = 2 \<and> so_successful_calls out = 2 \<and> so_error_count out = 0
     \<and> so_hang_count out = 0 \<and> so_deadlock_count out = 0
     \<and> so_divergence_count out = 0 \<and> so_incomplete_worker_count out = 0 \<and> so_teardown_failure_count out = 0"
  by (simp add: run_patterns_def drive_pooled_patterns_def drive_pooled_def Let_def spawn_step_def run_workers_def
      echo_worker)
   (simp add: merge_worker_outcome_def Let_def one_call_def scenario_outcome_default_def saturating_sub_def)

lemma echo_run_one:
  "\<exists>out. echo_run [(1, Spawn_Session echo_session), (0, Spawn_Failed ''panic'')]
     = Some (out, [[Rec_Call 0 0 Outcome_Crash], [echo_event]])"
  by (simp add: run_patterns_def drive_pooled_patterns_def drive_pooled_def Let_def spawn_step_def run_workers_def
      echo_worker)

lemma sustained_outcome_matches_recorder_witness:
  "\<exists>out streams r0 r m. echo_run [(1, Spawn_Session echo_session), (0, Spawn_Failed ''panic'')] = Some (out, streams)
     \<and> recorder_new exact_api 0 = Some r0
     \<and> recorder_run exact_api r0 [echo_event, Rec_Call 0 0 Outcome_Crash] = Some r
     \<and> recorder_snapshot exact_api 9 r = Some m
     \<and> so_successful_calls out = oc_success (sm_outcomes m)
     \<and> unat (so_successful_calls out) + unat (so_error_count out) = unat (ts_total_requests (sm_throughput m))
     \<and> unat (so_total_calls out) = 1"
proof -
  obtain out where run: "echo_run [(1, Spawn_Session echo_session), (0, Spawn_Failed ''panic'')]
      = Some (out, [[Rec_Call 0 0 Outcome_Crash], [echo_event]])" using echo_run_one by blast
  have perm: "mset (pe_joined (echo_env sp) xs) = mset xs" for sp and xs :: "(u32 \<times> worker_end) list" by simp
  have "mset [echo_event, Rec_Call 0 0 Outcome_Crash] = mset (concat [[Rec_Call 0 0 Outcome_Crash], [echo_event]])"
    "length [echo_event, Rec_Call 0 0 Outcome_Crash] < 2 ^ 64" by simp_all
  from sustained_outcome_matches_recorder [OF run _ _ perm exact_hdr_contract this, of 0 9] run show ?thesis
    by (auto simp: echo_event_def)
qed

definition two_worker_report :: "scenario_outcome \<Rightarrow> report" where
  "two_worker_report out = (sample_report \<lparr>sm_latency = latency_stats_default,
     sm_throughput = \<lparr>ts_total_requests = 2, ts_successful_requests = 2, ts_requests_per_sec = F64_Fin 1\<rparr>,
     sm_outcomes = outcome_counts_default\<lparr>oc_success := 2\<rparr>\<rparr>)\<lparr>rp_scenario_outcome := out\<rparr>"

lemma passed_pool_ran_every_worker_witness:
  "\<exists>out streams start s' w es. echo_run [(1, Spawn_Session echo_session), (0, Spawn_Session echo_session)] = Some (out, streams)
     \<and> passed (two_worker_report out)
     \<and> drive_until_deadline echo_api first_pattern (start + 5) echo_patterns two_ticks echo_session () = (s', Some w, es)
     \<and> es \<in> set streams \<and> session_shutdown echo_api s' = Some (Inr ())"
proof -
  obtain out where run: "echo_run [(1, Spawn_Session echo_session), (0, Spawn_Session echo_session)]
      = Some (out, [[], [echo_event], [echo_event]])"
    and out: "so_total_calls out = 2" "so_successful_calls out = 2" "so_error_count out = 0"
      "so_hang_count out = 0" "so_deadlock_count out = 0" "so_divergence_count out = 0"
      "so_incomplete_worker_count out = 0" "so_teardown_failure_count out = 0"
    using echo_run_both by blast
  have r: "passed (two_worker_report out)" "rp_scenario_outcome (two_worker_report out) = out"
    by (simp_all add: passed_def two_worker_report_def sample_report_def out hard_recorded_failure_def
        outcome_counts_default_def)
  have perm: "mset (pe_joined (echo_env sp) xs) = mset xs" for sp and xs :: "(u32 \<times> worker_end) list" by simp
  let ?sp = "[(1 :: u32, Spawn_Session echo_session), (0, Spawn_Session echo_session)]"
  have "mset (map fst (pe_spawned (echo_env ?sp))) = mset (map of_nat [0..<unat (2 :: u32)])"
    by (simp add: upt_rec)
  from passed_pool_ran_every_worker [OF run _ _ _ perm this r, of 0] run r obtain start s' w es where
    "es \<in> set [[], [echo_event], [echo_event]]" "drive_until_deadline echo_api first_pattern (start + 5) echo_patterns two_ticks echo_session () = (s', Some w, es)"
    "session_shutdown echo_api s' = Some (Inr ())" by auto
  then show ?thesis using run r by blast
qed

end
