(* ===== verification/Sse_Parser.thy ===== *)
theory Sse_Parser
  imports Channel Host_Guard
begin

section \<open>The event stream parser\<close>

text \<open>
  \<open>BoundedSseParser\<close> of \<open>crates/protocol/src/transport/sse/reader.rs\<close>: an incremental parser of
  server-sent events with bounds on a line, on an event's data and on its type. The HTTP body is a list
  of what \<open>stream.next()\<close> has returned so far: a chunk of bytes, a read error, or the end; when the list
  is used up the parser waits for more. Lengths are lengths of buffers in memory and do not overflow.
\<close>

subsection \<open>Data\<close>

definition MAX_SSE_EVENT_DATA_BYTES :: nat where
  "MAX_SSE_EVENT_DATA_BYTES = 16 * 1024 * 1024"

definition MAX_SSE_LINE_BYTES :: nat where
  "MAX_SSE_LINE_BYTES = MAX_SSE_EVENT_DATA_BYTES + 16"

definition MAX_EVENT_TYPE_BYTES :: nat where
  "MAX_EVENT_TYPE_BYTES = 1024"

definition UTF8_BOM :: bytes where
  "UTF8_BOM = [0xEF, 0xBB, 0xBF]"

datatype reader_terminal_error =
    RE_StreamRead
  | RE_EventDataLimit
  | RE_LineLimit
  | RE_EventTypeLimit
  | RE_EventDataUtf8
  | RE_EventTypeUtf8
  | RE_UnexpectedEof
  | RE_AggregateBudget
  | RE_AccountingOverflow

record bounded_event =
  be_event :: string
  be_data :: string

text \<open>The event under construction, the line under construction, and the parser around them.\<close>

record event_state =
  es_event_type :: string
  es_data :: bytes
  es_has_data :: bool

record line_state =
  ls_line :: bytes
  ls_skip_lf_after_cr :: bool
  ls_event :: event_state

datatype stream_item = Item_Chunk bytes | Item_Error | Item_End

record sse_parser =
  sp_stream :: "stream_item list"
  sp_chunk :: "bytes option"
  sp_chunk_offset :: nat
  sp_bom_prefix :: bytes
  sp_bom_resolved :: bool
  sp_eof :: bool
  sp_lines :: line_state

definition event_state_new :: event_state where
  "event_state_new = \<lparr>es_event_type = [], es_data = [], es_has_data = False\<rparr>"

definition line_state_new :: line_state where
  "line_state_new = \<lparr>ls_line = [], ls_skip_lf_after_cr = False, ls_event = event_state_new\<rparr>"

definition sse_parser_new :: "stream_item list \<Rightarrow> sse_parser" where
  "sse_parser_new stream = \<lparr>sp_stream = stream, sp_chunk = None, sp_chunk_offset = 0, sp_bom_prefix = [],
     sp_bom_resolved = False, sp_eof = False, sp_lines = line_state_new\<rparr>"

subsection \<open>Text\<close>

text \<open>The well-formed byte sequences of UTF-8 (table 3-7 of the Unicode standard).\<close>

definition is_cont :: "u8 \<Rightarrow> bool" where
  "is_cont b \<longleftrightarrow> 0x80 \<le> b \<and> b \<le> 0xBF"

fun utf8_valid :: "bytes \<Rightarrow> bool" where
  "utf8_valid [] = True"
| "utf8_valid (a # s) =
     (if a < 0x80 then utf8_valid s
      else if 0xC2 \<le> a \<and> a \<le> 0xDF then
        (case s of b # t \<Rightarrow> is_cont b \<and> utf8_valid t | _ \<Rightarrow> False)
      else if 0xE0 \<le> a \<and> a \<le> 0xEF then
        (case s of b # c # t \<Rightarrow> is_cont b \<and> is_cont c \<and> (a = 0xE0 \<longrightarrow> 0xA0 \<le> b) \<and> (a = 0xED \<longrightarrow> b \<le> 0x9F)
            \<and> utf8_valid t | _ \<Rightarrow> False)
      else if 0xF0 \<le> a \<and> a \<le> 0xF4 then
        (case s of b # c # d # t \<Rightarrow> is_cont b \<and> is_cont c \<and> is_cont d \<and> (a = 0xF0 \<longrightarrow> 0x90 \<le> b)
            \<and> (a = 0xF4 \<longrightarrow> b \<le> 0x8F) \<and> utf8_valid t | _ \<Rightarrow> False)
      else False)"

definition bytes_string :: "bytes \<Rightarrow> string" where
  "bytes_string = map (\<lambda>b. char_of (unat b))"

definition ascii_bytes :: "string \<Rightarrow> bytes" where
  "ascii_bytes = map (\<lambda>c. of_nat (byte_of c))"

definition from_utf8 :: "bytes \<Rightarrow> string option" where
  "from_utf8 bs = (if utf8_valid bs then Some (bytes_string bs) else None)"

subsection \<open>Lines\<close>

definition reset_event :: "event_state \<Rightarrow> event_state" where
  "reset_event s = s\<lparr>es_event_type := [], es_data := [], es_has_data := False\<rparr>"

definition COLON :: u8 where "COLON = 58"

definition SPACE :: u8 where "SPACE = 32"

text \<open>The field of a line, and its value without one leading space.\<close>

definition split_field :: "bytes \<Rightarrow> bytes \<times> bytes" where
  "split_field line =
     (let (field, value) = (case position_of COLON line of
         Some i \<Rightarrow> (take i line, drop (i + 1) line)
       | None \<Rightarrow> (line, []))
      in (field, case value of b # rest \<Rightarrow> if b = SPACE then rest else value | [] \<Rightarrow> value))"

type_synonym event_result = "reader_terminal_error + bounded_event option"

definition process_line :: "event_state \<Rightarrow> bytes \<Rightarrow> event_state \<times> event_result" where
  "process_line s line =
     (if line = [] then
        if \<not> es_has_data s then (reset_event s, Inr None)
        else case from_utf8 (es_data s) of
            None \<Rightarrow> (s\<lparr>es_data := []\<rparr>, Inl RE_EventDataUtf8)
          | Some data \<Rightarrow> (s\<lparr>es_event_type := [], es_data := [], es_has_data := False\<rparr>,
              Inr (Some \<lparr>be_event = (if es_event_type s = [] then ''message'' else es_event_type s), be_data = data\<rparr>))
      else if hd line = COLON then (s, Inr None)
      else case split_field line of (field, value) \<Rightarrow>
        if field = ascii_bytes ''event'' then
          if MAX_EVENT_TYPE_BYTES < length value then (s, Inl RE_EventTypeLimit)
          else (case from_utf8 value of
              None \<Rightarrow> (s, Inl RE_EventTypeUtf8)
            | Some t \<Rightarrow> (s\<lparr>es_event_type := t\<rparr>, Inr None))
        else if field = ascii_bytes ''data'' then
          if MAX_SSE_EVENT_DATA_BYTES < length (es_data s) + (if es_has_data s then 1 else 0) + length value
          then (s, Inl RE_EventDataLimit)
          else (s\<lparr>es_data := es_data s @ (if es_has_data s then [LF] else []) @ value, es_has_data := True\<rparr>, Inr None)
        else (s, Inr None))"

definition end_line :: "line_state \<Rightarrow> bool \<Rightarrow> line_state \<times> event_result" where
  "end_line s skip =
     (case process_line (ls_event s) (ls_line s) of
        (e, r) \<Rightarrow> (\<lparr>ls_line = [], ls_skip_lf_after_cr = skip, ls_event = e\<rparr>, r))"

definition is_eol :: "u8 \<Rightarrow> bool" where
  "is_eol b \<longleftrightarrow> b = CR \<or> b = LF"

definition process_wire_byte :: "line_state \<Rightarrow> u8 \<Rightarrow> line_state \<times> event_result" where
  "process_wire_byte s b =
     (let s1 = s\<lparr>ls_skip_lf_after_cr := False\<rparr> in
      if ls_skip_lf_after_cr s \<and> b = LF then (s1, Inr None)
      else if is_eol b then end_line s1 (b = CR)
      else if MAX_SSE_LINE_BYTES \<le> length (ls_line s1) then (s1, Inl RE_LineLimit)
      else (s1\<lparr>ls_line := ls_line s1 @ [b]\<rparr>, Inr None))"

text \<open>The first event that the bytes complete ends the replay.\<close>

fun replay_bom_prefix :: "line_state \<Rightarrow> bytes \<Rightarrow> line_state \<times> event_result" where
  "replay_bom_prefix s [] = (s, Inr None)"
| "replay_bom_prefix s (b # prefix) =
     (case process_wire_byte s b of
        (s', Inr None) \<Rightarrow> replay_bom_prefix s' prefix
      | (s', r) \<Rightarrow> (s', r))"

subsection \<open>Reading the stream\<close>

text \<open>
  What one turn of the loop of \<open>next_event\<close> does: go round, return, or wait for the stream. The offset
  never passes the end of the chunk, so the code's test for equality is the one for \<open>\<le>\<close>.
\<close>

datatype turn = Go_On | Return_With event_result | Await_Stream

definition turn_of :: "event_result \<Rightarrow> turn" where
  "turn_of r = (case r of Inr None \<Rightarrow> Go_On | _ \<Rightarrow> Return_With r)"

definition drop_chunk_if_done :: "bytes \<Rightarrow> sse_parser \<Rightarrow> sse_parser" where
  "drop_chunk_if_done chunk p =
     (if sp_chunk_offset p = length chunk then p\<lparr>sp_chunk := None, sp_chunk_offset := 0\<rparr> else p)"

definition bom_turn :: "bytes \<Rightarrow> sse_parser \<Rightarrow> sse_parser \<times> turn" where
  "bom_turn chunk p =
     (let byte = chunk ! sp_chunk_offset p;
          prefix = sp_bom_prefix p @ [byte];
          p1 = p\<lparr>sp_chunk_offset := sp_chunk_offset p + 1, sp_bom_prefix := prefix\<rparr> in
      if byte \<noteq> UTF8_BOM ! (length prefix - 1) then
        (case replay_bom_prefix (sp_lines p1) prefix of
          (s, r) \<Rightarrow>
            let p2 = p1\<lparr>sp_bom_resolved := True, sp_bom_prefix := [], sp_lines := s\<rparr> in
            case r of Inr None \<Rightarrow> (drop_chunk_if_done chunk p2, Go_On) | _ \<Rightarrow> (p2, Return_With r))
      else if length prefix = length UTF8_BOM
      then (drop_chunk_if_done chunk (p1\<lparr>sp_bom_prefix := [], sp_bom_resolved := True\<rparr>), Go_On)
      else (drop_chunk_if_done chunk p1, Go_On))"

definition segment_turn :: "bytes \<Rightarrow> sse_parser \<Rightarrow> sse_parser \<times> turn" where
  "segment_turn chunk p =
     (let remaining = drop (sp_chunk_offset p) chunk;
          ls = sp_lines p;
          segment = takeWhile (\<lambda>b. \<not> is_eol b) remaining;
          ls' = ls\<lparr>ls_line := ls_line ls @ segment\<rparr>;
          off = sp_chunk_offset p + length segment in
      if MAX_SSE_LINE_BYTES < length (ls_line ls) + length segment then (p, Return_With (Inl RE_LineLimit))
      else if length segment < length remaining
      then (case end_line ls' (chunk ! off = CR) of
          (s, r) \<Rightarrow> (drop_chunk_if_done chunk (p\<lparr>sp_lines := s, sp_chunk_offset := off + 1\<rparr>), turn_of r))
      else (p\<lparr>sp_lines := ls', sp_chunk := None, sp_chunk_offset := 0\<rparr>, Go_On))"

definition chunk_turn :: "bytes \<Rightarrow> sse_parser \<Rightarrow> sse_parser \<times> turn" where
  "chunk_turn chunk p =
     (let p1 = p\<lparr>sp_lines := (sp_lines p)\<lparr>ls_skip_lf_after_cr := False\<rparr>\<rparr> in
      if ls_skip_lf_after_cr (sp_lines p) \<and> chunk ! sp_chunk_offset p = LF
      then (drop_chunk_if_done chunk (p1\<lparr>sp_chunk_offset := sp_chunk_offset p + 1\<rparr>), Go_On)
      else segment_turn chunk p1)"

definition eof_turn :: "sse_parser \<Rightarrow> sse_parser \<times> turn" where
  "eof_turn p =
     (let (s, r) = (if sp_bom_resolved p then (sp_lines p, Inr None)
                    else replay_bom_prefix (sp_lines p) (sp_bom_prefix p));
          p1 = p\<lparr>sp_bom_resolved := True, sp_bom_prefix := (if sp_bom_resolved p then sp_bom_prefix p else []), sp_lines := s\<rparr> in
      if r \<noteq> Inr None then (p1, Return_With r)
      else
        let (e, r2) = (if ls_line s = [] then (ls_event s, Inr None) else process_line (ls_event s) (ls_line s));
            s2 = s\<lparr>ls_line := [], ls_event := e\<rparr> in
        if r2 \<noteq> Inr None then (p1\<lparr>sp_lines := s2\<rparr>, Return_With r2)
        else (case process_line e [] of
            (e3, r3) \<Rightarrow> (p1\<lparr>sp_lines := s2\<lparr>ls_event := e3\<rparr>\<rparr>, Return_With r3)))"

definition next_turn :: "sse_parser \<Rightarrow> sse_parser \<times> turn" where
  "next_turn p =
     (case sp_chunk p of
        Some chunk \<Rightarrow>
          if length chunk \<le> sp_chunk_offset p then (p\<lparr>sp_chunk := None, sp_chunk_offset := 0\<rparr>, Go_On)
          else if \<not> sp_bom_resolved p then bom_turn chunk p
          else chunk_turn chunk p
      | None \<Rightarrow>
          if sp_eof p then eof_turn p
          else case sp_stream p of
            [] \<Rightarrow> (p, Await_Stream)
          | Item_Chunk bs # rest \<Rightarrow> (p\<lparr>sp_stream := rest, sp_chunk := Some bs, sp_chunk_offset := 0\<rparr>, Go_On)
          | Item_Error # rest \<Rightarrow> (p\<lparr>sp_stream := rest\<rparr>, Return_With (Inl RE_StreamRead))
          | Item_End # rest \<Rightarrow> (p\<lparr>sp_stream := rest, sp_eof := True\<rparr>, Go_On))"

text \<open>Each turn uses up input: what is left to read, counted so that a byte moved into the line counts less.\<close>

fun item_size :: "stream_item \<Rightarrow> nat" where
  "item_size (Item_Chunk bs) = 3 * length bs + 2"
| "item_size _ = 1"

definition has_data_bit :: "line_state \<Rightarrow> nat" where
  "has_data_bit s = (if es_has_data (ls_event s) then 1 else 0)"

definition work_left :: "sse_parser \<Rightarrow> nat" where
  "work_left p = sum_list (map item_size (sp_stream p))
     + (case sp_chunk p of None \<Rightarrow> 0 | Some c \<Rightarrow> 3 * (length c - sp_chunk_offset p) + 1)
     + length (sp_bom_prefix p) + length (ls_line (sp_lines p)) + has_data_bit (sp_lines p)"

lemma process_line_bit:
  assumes "process_line s line = (s', r)"
  shows "(if es_has_data s' then 1 else 0) \<le> (if es_has_data s then 1 else 0) + (if line = [] then 0 else 1 :: nat)"
    "r = Inr (Some ev) \<Longrightarrow> line = [] \<and> es_has_data s \<and> \<not> es_has_data s'"
  using assms by (auto simp: process_line_def reset_event_def split_def split: if_splits option.splits)

lemma end_line_work:
  assumes "end_line s b = (s', r)"
  shows "length (ls_line s') + has_data_bit s' \<le> length (ls_line s) + has_data_bit s"
    "r = Inr (Some ev) \<Longrightarrow> ls_line s' = [] \<and> has_data_bit s' = 0"
  using assms process_line_bit [of "ls_event s" "ls_line s"]
  by (auto simp: end_line_def has_data_bit_def Suc_le_eq split: prod.splits if_splits)

lemma process_wire_byte_work:
  assumes "process_wire_byte s b = (s', r)"
  shows "length (ls_line s') + has_data_bit s' \<le> length (ls_line s) + has_data_bit s + 1"
  using assms end_line_work(1) [of "s\<lparr>ls_skip_lf_after_cr := False\<rparr>" "b = CR" s' r]
  by (auto simp: process_wire_byte_def Let_def has_data_bit_def split: if_splits)

lemma replay_work:
  "replay_bom_prefix s bs = (s', r) \<Longrightarrow>
     length (ls_line s') + has_data_bit s' \<le> length (ls_line s) + has_data_bit s + length bs"
proof (induction bs arbitrary: s)
  case (Cons b bs)
  obtain s1 r1 where b: "process_wire_byte s b = (s1, r1)" by fastforce
  show ?case using Cons.IH [of s1] Cons.prems b process_wire_byte_work [OF b]
    by (auto split: sum.splits option.splits)
qed simp

lemma drop_chunk_work:
  assumes "sp_chunk p = Some c" "sp_chunk_offset p \<le> length c"
  shows "work_left (drop_chunk_if_done c p) \<le> work_left p"
  using assms by (auto simp: drop_chunk_if_done_def work_left_def)

lemma turn_of_simps [simp]:
  "turn_of (Inr None) = Go_On" "turn_of (Inr (Some ev)) = Return_With (Inr (Some ev))"
  "turn_of (Inl e) = Return_With (Inl e)"
  by (simp_all add: turn_of_def)

lemma drop_chunk_less:
  assumes "work_left q < w" "sp_chunk q = Some c" "sp_chunk_offset q \<le> length c"
  shows "work_left (drop_chunk_if_done c q) < w"
  using drop_chunk_work [OF assms(2,3)] assms(1) by simp

lemma bom_turn_work:
  assumes "bom_turn c p = (p', t)" "sp_chunk p = Some c" "sp_chunk_offset p < length c"
  shows "work_left p' < work_left p"
proof -
  let ?off = "sp_chunk_offset p" and ?prefix = "sp_bom_prefix p @ [c ! sp_chunk_offset p]"
  let ?p1 = "p\<lparr>sp_chunk_offset := ?off + 1, sp_bom_prefix := ?prefix\<rparr>"
  obtain s r where r: "replay_bom_prefix (sp_lines p) ?prefix = (s, r)" by fastforce
  let ?p2 = "?p1\<lparr>sp_bom_resolved := True, sp_bom_prefix := [], sp_lines := s\<rparr>"
  and ?p3 = "?p1\<lparr>sp_bom_prefix := [], sp_bom_resolved := True\<rparr>"
  have less: "work_left ?p1 < work_left p" "work_left ?p2 < work_left p" "work_left ?p3 < work_left p"
    using assms(2,3) replay_work [OF r] by (simp_all add: work_left_def)
  have dropped: "work_left (drop_chunk_if_done c q) < work_left p" if "q \<in> {?p1, ?p2, ?p3}" for q
    by (rule drop_chunk_less) (use that less assms(2,3) in auto)
  consider "p' \<in> {?p1, ?p2, ?p3}" | q where "q \<in> {?p1, ?p2, ?p3}" "p' = drop_chunk_if_done c q"
    using assms(1) r by (auto simp: bom_turn_def Let_def split: if_splits sum.splits option.splits)
  then show ?thesis using less dropped by cases auto
qed

lemma segment_turn_work:
  assumes "segment_turn c p = (p', t)" "sp_chunk p = Some c" "sp_chunk_offset p < length c"
    and "t = Go_On \<or> t = Return_With (Inr (Some ev))"
  shows "work_left p' < work_left p"
proof -
  define remaining where "remaining = drop (sp_chunk_offset p) c"
  define seg where "seg = takeWhile (\<lambda>b. \<not> is_eol b) remaining"
  define ls where "ls = (sp_lines p)\<lparr>ls_line := ls_line (sp_lines p) @ seg\<rparr>"
  define off where "off = sp_chunk_offset p + length seg"
  have seg: "length seg \<le> length remaining" unfolding seg_def by (rule length_takeWhile_le)
  have len: "length remaining = length c - sp_chunk_offset p" by (simp add: remaining_def)
  obtain s r where e: "end_line ls (c ! off = CR) = (s, r)" by fastforce
  have w: "length (ls_line s) + has_data_bit s \<le> length (ls_line (sp_lines p)) + length seg + has_data_bit (sp_lines p)"
    using end_line_work(1) [OF e] by (simp add: has_data_bit_def ls_def)
  have step: "(p', t) = (if MAX_SSE_LINE_BYTES < length (ls_line (sp_lines p)) + length seg then (p, Return_With (Inl RE_LineLimit))
      else if length seg < length remaining
      then (drop_chunk_if_done c (p\<lparr>sp_lines := s, sp_chunk_offset := off + 1\<rparr>), turn_of r)
      else (p\<lparr>sp_lines := ls, sp_chunk := None, sp_chunk_offset := 0\<rparr>, Go_On))"
    using assms(1) e unfolding segment_turn_def Let_def
    by (simp add: remaining_def [symmetric] seg_def [symmetric] ls_def [symmetric] off_def [symmetric] cong: if_cong)
  consider "length seg < length remaining" "p' = drop_chunk_if_done c (p\<lparr>sp_lines := s, sp_chunk_offset := off + 1\<rparr>)"
    | "length seg = length remaining" "p' = p\<lparr>sp_lines := ls, sp_chunk := None, sp_chunk_offset := 0\<rparr>"
    using step assms(4) seg by (auto split: if_splits)
  then show ?thesis
  proof cases
    case 1
    have "work_left (p\<lparr>sp_lines := s, sp_chunk_offset := off + 1\<rparr>) < work_left p"
      using assms(2,3) w 1(1) len by (simp add: work_left_def off_def)
    then show ?thesis unfolding 1(2) using assms(2,3) 1(1) len by (intro drop_chunk_less) (simp_all add: off_def)
  next
    case 2
    then show ?thesis using assms(2,3) len by (simp add: work_left_def has_data_bit_def ls_def)
  qed
qed

lemma chunk_turn_work:
  assumes "chunk_turn c p = (p', t)" "sp_chunk p = Some c" "sp_chunk_offset p < length c"
    and "t = Go_On \<or> t = Return_With (Inr (Some ev))"
  shows "work_left p' < work_left p"
proof -
  let ?p1 = "p\<lparr>sp_lines := (sp_lines p)\<lparr>ls_skip_lf_after_cr := False\<rparr>\<rparr>"
  have same: "work_left ?p1 = work_left p" using assms(2) by (simp add: work_left_def has_data_bit_def)
  have "work_left (?p1\<lparr>sp_chunk_offset := sp_chunk_offset p + 1\<rparr>) < work_left p"
    using assms(2,3) by (simp add: work_left_def has_data_bit_def)
  then have "work_left (drop_chunk_if_done c (?p1\<lparr>sp_chunk_offset := sp_chunk_offset p + 1\<rparr>)) < work_left p"
    using assms(2,3) by (intro drop_chunk_less) simp_all
  then show ?thesis
    using assms(1) segment_turn_work [of c ?p1 p' t, OF _ _ _ assms(4)] assms(2,3) same
    by (auto simp: chunk_turn_def Let_def split: if_splits)
qed

lemma replay_event:
  "replay_bom_prefix s bs = (s', Inr (Some ev)) \<Longrightarrow> bs \<noteq> [] \<and> ls_line s' = [] \<and> has_data_bit s' = 0"
proof (induction bs arbitrary: s)
  case (Cons b bs)
  obtain s1 r1 where b: "process_wire_byte s b = (s1, r1)" by fastforce
  have "r1 = Inr (Some ev) \<Longrightarrow> ls_line s1 = [] \<and> has_data_bit s1 = 0" for ev
    using b end_line_work(2) [of "s\<lparr>ls_skip_lf_after_cr := False\<rparr>" "b = CR" s1 r1]
    by (auto simp: process_wire_byte_def Let_def split: if_splits)
  then show ?case using Cons.IH [of s1] Cons.prems b by (auto split: sum.splits option.splits)
qed simp

lemma eof_turn_returns: "eof_turn p \<noteq> (p', Go_On)" "eof_turn p \<noteq> (p', Await_Stream)"
  by (auto simp: eof_turn_def Let_def split_def split: if_splits)

lemma eof_turn_work:
  assumes "eof_turn p = (p', Return_With (Inr (Some ev)))" "sp_chunk p = None"
  shows "work_left p' < work_left p"
proof -
  obtain s r where r: "(if sp_bom_resolved p then (sp_lines p, Inr None) else replay_bom_prefix (sp_lines p) (sp_bom_prefix p)) = (s, r)"
    by fastforce
  obtain e r2 where r2: "(if ls_line s = [] then (ls_event s, Inr None) else process_line (ls_event s) (ls_line s)) = (e, r2)"
    by fastforce
  obtain e3 r3 where r3: "process_line e [] = (e3, r3)" by fastforce
  have sw: "length (ls_line s) + has_data_bit s \<le> length (ls_line (sp_lines p)) + has_data_bit (sp_lines p)
      + (if sp_bom_resolved p then 0 else length (sp_bom_prefix p))"
    using r replay_work [of "sp_lines p" "sp_bom_prefix p" s r] by (auto split: if_splits)
  have ew: "(if es_has_data e then 1 else 0) \<le> length (ls_line s) + has_data_bit s"
    using r2 process_line_bit(1) [of "ls_event s" "ls_line s" e r2]
    by (cases "ls_line s") (auto simp: has_data_bit_def split: if_splits)
  have none: "r2 \<noteq> Inr (Some ev)" for ev
    using r2 process_line_bit(2) [of "ls_event s" "ls_line s" e r2 ev] by (auto split: if_splits)
  let ?p1 = "p\<lparr>sp_bom_resolved := True, sp_bom_prefix := (if sp_bom_resolved p then sp_bom_prefix p else []), sp_lines := s\<rparr>"
  and ?s2 = "s\<lparr>ls_line := [], ls_event := e\<rparr>"
  have step: "eof_turn p = (if r \<noteq> Inr None then (?p1, Return_With r)
      else if r2 \<noteq> Inr None then (?p1\<lparr>sp_lines := ?s2\<rparr>, Return_With r2)
      else (?p1\<lparr>sp_lines := ?s2\<lparr>ls_event := e3\<rparr>\<rparr>, Return_With r3))"
    using r r2 r3 by (simp add: eof_turn_def Let_def cong: if_cong)
  show ?thesis
  proof (cases "r = Inr None")
    case False
    then have "\<not> sp_bom_resolved p" "r = Inr (Some ev)" "p' = ?p1" using r step assms(1) by (auto split: if_splits)
    then show ?thesis using r assms(2) replay_event [of "sp_lines p" "sp_bom_prefix p" s ev] by (simp add: work_left_def)
  next
    case True
    then have e3: "r3 = Inr (Some ev)" "p' = ?p1\<lparr>sp_lines := ?s2\<lparr>ls_event := e3\<rparr>\<rparr>"
      using step assms(1) none by (auto split: if_splits)
    then have "es_has_data e" "\<not> es_has_data e3" using process_line_bit(2) [OF r3] by auto
    then show ?thesis using e3(2) ew sw assms(2) by (auto simp: work_left_def has_data_bit_def split: if_splits)
  qed
qed

lemma next_turn_work:
  assumes "next_turn p = (p', t)" "t = Go_On \<or> t = Return_With (Inr (Some ev))"
  shows "work_left p' < work_left p"
proof (cases "sp_chunk p")
  case None
  then show ?thesis
    using assms eof_turn_work [of p p' ev] eof_turn_returns(1) [of p p']
    by (auto simp: next_turn_def work_left_def has_data_bit_def split: if_splits list.splits stream_item.splits)
next
  case (Some c)
  then show ?thesis
    using assms bom_turn_work [of c p p' t] chunk_turn_work [of c p p' t ev]
    by (auto simp: next_turn_def split: if_splits) (simp_all add: work_left_def)
qed

text \<open>\<open>next_event\<close>: the parser it leaves and what it returns, or None while the stream has nothing more.\<close>

function next_event :: "sse_parser \<Rightarrow> sse_parser \<times> event_result option" where
  "next_event p =
     (case next_turn p of
        (p', Go_On) \<Rightarrow> next_event p'
      | (p', Return_With r) \<Rightarrow> (p', Some r)
      | (p', Await_Stream) \<Rightarrow> (p', None))"
  by pat_completeness auto
termination
  by (relation "measure work_left") (auto dest!: next_turn_work [OF sym])

subsection \<open>The events of a stream\<close>

text \<open>
  Calling \<open>next_event\<close> until it has no event to return: the events, and how the reading ended.
\<close>

datatype sse_end = Still_Open | Failed_With reader_terminal_error | Closed_At_Eof

declare next_event.simps [simp del]

lemma next_event_work:
  "next_event p = (p', Some (Inr (Some ev))) \<Longrightarrow> work_left p' < work_left p"
proof (induction p rule: next_event.induct)
  case (1 p)
  obtain q t where n: "next_turn p = (q, t)" by fastforce
  show ?case
  proof (cases t)
    case Go_On
    then have "next_event q = (p', Some (Inr (Some ev)))" using 1(2) n by (simp add: next_event.simps [of p])
    from 1(1) [OF n [symmetric] Go_On this] show ?thesis using next_turn_work [OF n] Go_On by fastforce
  next
    case (Return_With r)
    then show ?thesis using 1(2) n next_turn_work [OF n] by (auto simp: next_event.simps [of p])
  next
    case Await_Stream
    then show ?thesis using 1(2) n by (simp add: next_event.simps [of p])
  qed
qed

function sse_events :: "sse_parser \<Rightarrow> bounded_event list \<times> sse_end" where
  "sse_events p =
     (case next_event p of
        (p', None) \<Rightarrow> ([], Still_Open)
      | (p', Some (Inl e)) \<Rightarrow> ([], Failed_With e)
      | (p', Some (Inr None)) \<Rightarrow> ([], Closed_At_Eof)
      | (p', Some (Inr (Some ev))) \<Rightarrow> (case sse_events p' of (evs, fin) \<Rightarrow> (ev # evs, fin)))"
  by pat_completeness auto
termination
  by (relation "measure work_left") (auto dest!: next_event_work [OF sym])

declare sse_events.simps [simp del]

subsection \<open>The reference: the lines of the whole text\<close>

text \<open>The bytes that have arrived, and what ends them.\<close>

datatype ending = Fin_Open | Fin_Error | Fin_End

fun stream_bytes :: "stream_item list \<Rightarrow> bytes" where
  "stream_bytes (Item_Chunk bs # items) = bs @ stream_bytes items"
| "stream_bytes _ = []"

fun stream_fin :: "stream_item list \<Rightarrow> ending" where
  "stream_fin (Item_Chunk bs # items) = stream_fin items"
| "stream_fin (Item_Error # items) = Fin_Error"
| "stream_fin (Item_End # items) = Fin_End"
| "stream_fin [] = Fin_Open"

definition strip_bom :: "bytes \<Rightarrow> bytes" where
  "strip_bom bs = (if take 3 bs = UTF8_BOM then drop 3 bs else bs)"

text \<open>The complete lines after an unfinished one, each ended by CR, LF or CRLF, and the unfinished rest.\<close>

fun split_lines :: "bytes \<Rightarrow> bytes \<Rightarrow> bytes list \<times> bytes" where
  "split_lines line [] = ([], line)"
| "split_lines line (b # bs) =
     (if is_eol b
      then (case split_lines [] (if b = CR \<and> bs \<noteq> [] \<and> hd bs = LF then tl bs else bs) of (ls, r) \<Rightarrow> (line # ls, r))
      else split_lines (line @ [b]) bs)"

fun run_lines :: "event_state \<Rightarrow> bytes list \<Rightarrow> bounded_event list \<times> (reader_terminal_error + event_state)" where
  "run_lines s [] = ([], Inr s)"
| "run_lines s (l # ls) =
     (if MAX_SSE_LINE_BYTES < length l then ([], Inl RE_LineLimit)
      else case process_line s l of
        (s', Inl e) \<Rightarrow> ([], Inl e)
      | (s', Inr None) \<Rightarrow> run_lines s' ls
      | (s', Inr (Some ev)) \<Rightarrow> (case run_lines s' ls of (evs, r) \<Rightarrow> (ev # evs, r)))"

text \<open>What follows the events of a part of the text.\<close>

definition continue_with ::
  "bounded_event list \<times> (reader_terminal_error + 's) \<Rightarrow> ('s \<Rightarrow> bounded_event list \<times> sse_end)
     \<Rightarrow> bounded_event list \<times> sse_end" where
  "continue_with x k =
     (case x of
        (evs, Inl e) \<Rightarrow> (evs, Failed_With e)
      | (evs, Inr s) \<Rightarrow> (case k s of (evs', fin) \<Rightarrow> (evs @ evs', fin)))"

definition at_end :: "event_state \<Rightarrow> bytes \<Rightarrow> ending \<Rightarrow> bounded_event list \<times> sse_end" where
  "at_end s line fin =
     (case fin of
        Fin_Open \<Rightarrow> ([], Still_Open)
      | Fin_Error \<Rightarrow> ([], Failed_With RE_StreamRead)
      | Fin_End \<Rightarrow> continue_with (run_lines s (if line = [] then [[]] else [line, []])) (\<lambda>_. ([], Closed_At_Eof)))"

definition text_events :: "event_state \<Rightarrow> bytes \<Rightarrow> bytes \<Rightarrow> ending \<Rightarrow> bounded_event list \<times> sse_end" where
  "text_events s line bs fin =
     (case split_lines line bs of (ls, rest) \<Rightarrow>
        continue_with (run_lines s ls) (\<lambda>s'.
          if MAX_SSE_LINE_BYTES < length rest then ([], Failed_With RE_LineLimit) else at_end s' rest fin))"

definition sse_reference :: "bytes \<Rightarrow> ending \<Rightarrow> bounded_event list \<times> sse_end" where
  "sse_reference bs fin = text_events event_state_new [] (strip_bom bs) fin"

subsection \<open>The parser against the reference\<close>

text \<open>The bytes fed one by one.\<close>

fun run_bytes :: "line_state \<Rightarrow> bytes \<Rightarrow> bounded_event list \<times> (reader_terminal_error + line_state)" where
  "run_bytes s [] = ([], Inr s)"
| "run_bytes s (b # bs) =
     (case process_wire_byte s b of
        (s', Inl e) \<Rightarrow> ([], Inl e)
      | (s', Inr None) \<Rightarrow> run_bytes s' bs
      | (s', Inr (Some ev)) \<Rightarrow> (case run_bytes s' bs of (evs, r) \<Rightarrow> (ev # evs, r)))"

definition meaning :: "line_state \<Rightarrow> bytes \<Rightarrow> ending \<Rightarrow> bounded_event list \<times> sse_end" where
  "meaning s bs fin = continue_with (run_bytes s bs) (\<lambda>s'. at_end (ls_event s') (ls_line s') fin)"

lemma continue_with_simps [simp]:
  "continue_with ([], Inl e) k = ([], Failed_With e)" "continue_with ([], Inr s) k = k s"
  "continue_with (case x of (evs, r) \<Rightarrow> (ev # evs, r)) k = (case continue_with x k of (evs, fin) \<Rightarrow> (ev # evs, fin))"
  by (auto simp: continue_with_def split: prod.split sum.split)

lemma meaning_Nil [simp]: "meaning s [] fin = at_end (ls_event s) (ls_line s) fin"
  by (simp add: meaning_def)

lemma meaning_Cons:
  "meaning s (b # bs) fin =
     (case process_wire_byte s b of
        (s', Inl e) \<Rightarrow> ([], Failed_With e)
      | (s', Inr None) \<Rightarrow> meaning s' bs fin
      | (s', Inr (Some ev)) \<Rightarrow> (case meaning s' bs fin of (evs, e) \<Rightarrow> (ev # evs, e)))"
  by (simp add: meaning_def split: prod.split sum.split option.split)

lemma meaning_skip:
  assumes "bs = [] \<or> hd bs \<noteq> LF"
  shows "meaning s bs fin = meaning (s\<lparr>ls_skip_lf_after_cr := False\<rparr>) bs fin"
  using assms by (cases bs) (simp_all add: meaning_Cons process_wire_byte_def Let_def)

lemma meaning_skipped_LF:
  "ls_skip_lf_after_cr s \<Longrightarrow> meaning s (LF # bs) fin = meaning (s\<lparr>ls_skip_lf_after_cr := False\<rparr>) bs fin"
  by (simp add: meaning_Cons process_wire_byte_def Let_def)

lemma split_lines_long:
  "split_lines line bs = (ls, r) \<Longrightarrow> (case ls of [] \<Rightarrow> length line \<le> length r | l # _ \<Rightarrow> length line \<le> length l)"
proof (induction line bs arbitrary: ls r rule: split_lines.induct)
  case (2 line b bs)
  show ?case
  proof (cases "is_eol b")
    case False
    then have "split_lines (line @ [b]) bs = (ls, r)" using 2(3) by simp
    then show ?thesis using 2(2) [OF False] by (fastforce split: list.splits)
  qed (use 2(3) in \<open>auto split: prod.splits\<close>)
qed simp

lemma text_events_long:
  assumes "MAX_SSE_LINE_BYTES < length line"
  shows "text_events s line bs fin = ([], Failed_With RE_LineLimit)"
proof -
  obtain ls r where "split_lines line bs = (ls, r)" by fastforce
  then show ?thesis using split_lines_long [of line bs ls r] assms
    by (cases ls) (auto simp: text_events_def)
qed

lemma text_events_Nil: "length line \<le> MAX_SSE_LINE_BYTES \<Longrightarrow> text_events s line [] fin = at_end s line fin"
  by (simp add: text_events_def)

lemma text_events_eol:
  assumes "is_eol b" "length line \<le> MAX_SSE_LINE_BYTES"
  shows "text_events s line (b # bs) fin =
     (case process_line s line of
        (s', Inl e) \<Rightarrow> ([], Failed_With e)
      | (s', Inr None) \<Rightarrow> text_events s' [] (if b = CR \<and> bs \<noteq> [] \<and> hd bs = LF then tl bs else bs) fin
      | (s', Inr (Some ev)) \<Rightarrow> (case text_events s' [] (if b = CR \<and> bs \<noteq> [] \<and> hd bs = LF then tl bs else bs) fin of
          (evs, e) \<Rightarrow> (ev # evs, e)))"
  using assms by (auto simp: text_events_def split: prod.split sum.split option.split)

lemma text_events_more:
  "\<not> is_eol b \<Longrightarrow> text_events s line (b # bs) fin = text_events s (line @ [b]) bs fin"
  by (simp add: text_events_def)

lemma LF_not_CR [simp]: "LF \<noteq> CR" "CR \<noteq> LF"
  by (simp_all add: LF_def CR_def)

lemma wire_byte_eol:
  assumes "is_eol b" "\<not> ls_skip_lf_after_cr s"
  shows "process_wire_byte s b = end_line s (b = CR)"
  using assms by (cases s) (simp add: process_wire_byte_def Let_def)

lemma wire_byte_more:
  assumes "\<not> is_eol b" "\<not> ls_skip_lf_after_cr s"
  shows "process_wire_byte s b = (if MAX_SSE_LINE_BYTES \<le> length (ls_line s) then (s, Inl RE_LineLimit)
     else (s\<lparr>ls_line := ls_line s @ [b]\<rparr>, Inr None))"
  using assms by (cases s) (simp add: process_wire_byte_def Let_def)

lemma meaning_after_cr:
  "meaning \<lparr>ls_line = [], ls_skip_lf_after_cr = skip, ls_event = e\<rparr> bs fin
   = meaning \<lparr>ls_line = [], ls_skip_lf_after_cr = False, ls_event = e\<rparr>
       (if skip \<and> bs \<noteq> [] \<and> hd bs = LF then tl bs else bs) fin"
proof (cases "skip \<and> bs \<noteq> [] \<and> hd bs = LF")
  case True
  then obtain bs' where "bs = LF # bs'" by (cases bs) auto
  then show ?thesis using True meaning_skipped_LF by simp
next
  case False
  then show ?thesis
    using meaning_skip [of bs "\<lparr>ls_line = [], ls_skip_lf_after_cr = skip, ls_event = e\<rparr>" fin] by (cases skip) auto
qed

lemma meaning_text:
  assumes "\<not> ls_skip_lf_after_cr s" "length (ls_line s) \<le> MAX_SSE_LINE_BYTES"
  shows "meaning s bs fin = text_events (ls_event s) (ls_line s) bs fin"
  using assms
proof (induction "ls_line s" bs arbitrary: s rule: split_lines.induct)
  case 1
  then show ?case by (simp add: text_events_Nil)
next
  case (2 b bs)
  show ?case
  proof (cases "is_eol b")
    case True
    define bs' where "bs' = (if b = CR \<and> bs \<noteq> [] \<and> hd bs = LF then tl bs else bs)"
    define skip where "skip = (b = CR)"
    have IH: "meaning \<lparr>ls_line = [], ls_skip_lf_after_cr = skip, ls_event = e\<rparr> bs fin = text_events e [] bs' fin" for e
    proof -
      have "meaning \<lparr>ls_line = [], ls_skip_lf_after_cr = False, ls_event = e\<rparr> bs' fin = text_events e [] bs' fin"
        using 2(1) [OF True, of "\<lparr>ls_line = [], ls_skip_lf_after_cr = False, ls_event = e\<rparr>"]
        unfolding bs'_def by simp
      moreover have "(if skip \<and> bs \<noteq> [] \<and> hd bs = LF then tl bs else bs) = bs'" by (simp add: bs'_def skip_def)
      ultimately show ?thesis by (simp only: meaning_after_cr [of skip])
    qed
    note te = text_events_eol [OF True 2(4), where bs = bs and fin = fin, folded bs'_def]
    show ?thesis
      unfolding meaning_Cons wire_byte_eol [OF True 2(3)] te skip_def [symmetric]
      by (simp add: end_line_def IH split: prod.split sum.split option.split)
  next
    case False
    show ?thesis
    proof (cases "MAX_SSE_LINE_BYTES \<le> length (ls_line s)")
      case True
      then show ?thesis
        by (simp add: meaning_Cons wire_byte_more [OF False 2(3)] text_events_more [OF False] text_events_long)
    next
      case short: False
      have "meaning (s\<lparr>ls_line := ls_line s @ [b]\<rparr>) bs fin = text_events (ls_event s) (ls_line s @ [b]) bs fin"
        using 2(2) [OF False, of "s\<lparr>ls_line := ls_line s @ [b]\<rparr>"] 2(3) short by simp
      then show ?thesis
        using short by (simp add: meaning_Cons wire_byte_more [OF False 2(3)] text_events_more [OF False])
    qed
  qed
qed

lemma run_segment:
  assumes "list_all (\<lambda>b. \<not> is_eol b) seg" "\<not> ls_skip_lf_after_cr s" "length (ls_line s) \<le> MAX_SSE_LINE_BYTES"
  shows "meaning s (seg @ bs) fin =
     (if MAX_SSE_LINE_BYTES < length (ls_line s) + length seg then ([], Failed_With RE_LineLimit)
      else meaning (s\<lparr>ls_line := ls_line s @ seg\<rparr>) bs fin)"
  using assms
proof (induction seg arbitrary: s)
  case (Cons b seg)
  show ?case
  proof (cases "MAX_SSE_LINE_BYTES \<le> length (ls_line s)")
    case True
    then show ?thesis using Cons.prems by (simp add: meaning_Cons wire_byte_more)
  next
    case False
    have "meaning s ((b # seg) @ bs) fin = meaning (s\<lparr>ls_line := ls_line s @ [b]\<rparr>) (seg @ bs) fin"
      using False Cons.prems by (simp add: meaning_Cons wire_byte_more)
    then show ?thesis using Cons.IH [of "s\<lparr>ls_line := ls_line s @ [b]\<rparr>"] Cons.prems False by simp
  qed
qed simp

text \<open>The text and the ending that a parser has before it, and what they mean.\<close>

definition rest_of :: "sse_parser \<Rightarrow> bytes" where
  "rest_of p = (case sp_chunk p of None \<Rightarrow> [] | Some c \<Rightarrow> drop (sp_chunk_offset p) c)
     @ (if sp_eof p then [] else stream_bytes (sp_stream p))"

definition fin_of :: "sse_parser \<Rightarrow> ending" where
  "fin_of p = (if sp_eof p then Fin_End else stream_fin (sp_stream p))"

definition parser_meaning :: "sse_parser \<Rightarrow> bounded_event list \<times> sse_end" where
  "parser_meaning p = meaning (sp_lines p)
     (if sp_bom_resolved p then rest_of p else strip_bom (sp_bom_prefix p @ rest_of p)) (fin_of p)"

definition parser_ok :: "sse_parser \<Rightarrow> bool" where
  "parser_ok p \<longleftrightarrow> length (ls_line (sp_lines p)) \<le> MAX_SSE_LINE_BYTES
     \<and> (\<not> sp_bom_resolved p \<longrightarrow> sp_lines p = line_state_new
          \<and> sp_bom_prefix p \<in> {[], take 1 UTF8_BOM, take 2 UTF8_BOM})"

lemma parser_ok_new: "parser_ok (sse_parser_new items)"
  by (simp add: parser_ok_def sse_parser_new_def line_state_new_def)

lemma parser_meaning_new:
  "parser_meaning (sse_parser_new items) = sse_reference (stream_bytes items) (stream_fin items)"
  by (simp add: parser_meaning_def sse_parser_new_def rest_of_def fin_of_def sse_reference_def
      line_state_new_def meaning_text)

lemma rest_of_lines [simp]: "rest_of (p\<lparr>sp_lines := s\<rparr>) = rest_of p" "fin_of (p\<lparr>sp_lines := s\<rparr>) = fin_of p"
  by (simp_all add: rest_of_def fin_of_def split: option.split)

lemma rest_of_drop_chunk:
  "sp_chunk p = Some c \<Longrightarrow> rest_of (drop_chunk_if_done c p) = rest_of p"
  by (auto simp: drop_chunk_if_done_def rest_of_def)

lemma drop_chunk_simps [simp]:
  "sp_lines (drop_chunk_if_done c p) = sp_lines p" "sp_bom_resolved (drop_chunk_if_done c p) = sp_bom_resolved p"
  "sp_bom_prefix (drop_chunk_if_done c p) = sp_bom_prefix p" "fin_of (drop_chunk_if_done c p) = fin_of p"
  by (simp_all add: drop_chunk_if_done_def fin_of_def)

lemma drop_chunk_meaning:
  assumes "sp_chunk p = Some c"
  shows "parser_meaning (drop_chunk_if_done c p) = parser_meaning p" "parser_ok (drop_chunk_if_done c p) = parser_ok p"
  using rest_of_drop_chunk [OF assms] by (simp_all add: parser_meaning_def parser_ok_def)

text \<open>What one result of a turn must leave.\<close>

definition turn_correct :: "sse_parser \<Rightarrow> sse_parser \<times> turn \<Rightarrow> bool" where
  "turn_correct p x \<longleftrightarrow>
     (case x of
        (p', Go_On) \<Rightarrow> parser_ok p' \<and> parser_meaning p = parser_meaning p'
      | (p', Await_Stream) \<Rightarrow> parser_meaning p = ([], Still_Open)
      | (p', Return_With (Inl e)) \<Rightarrow> parser_meaning p = ([], Failed_With e)
      | (p', Return_With (Inr None)) \<Rightarrow> parser_meaning p = ([], Closed_At_Eof)
      | (p', Return_With (Inr (Some ev))) \<Rightarrow> parser_ok p'
          \<and> parser_meaning p = (case parser_meaning p' of (evs, e) \<Rightarrow> (ev # evs, e)))"

text \<open>Bytes before any data line are replayed without an event.\<close>

lemma replay_quiet:
  assumes "\<not> es_has_data (ls_event s)" "length (ls_line s) + length bs \<le> 3"
  shows "\<exists>s'. replay_bom_prefix s bs = (s', Inr None) \<and> meaning s (bs @ rest) fin = meaning s' rest fin
    \<and> length (ls_line s') \<le> 3 \<and> \<not> es_has_data (ls_event s')"
  using assms
proof (induction bs arbitrary: s)
  case (Cons b bs)
  have field: "split_field line = (f, v) \<Longrightarrow> length f \<le> length line" for line f v
    by (auto simp: split_field_def Let_def split: option.splits)
  have line: "\<exists>e. process_line (ls_event s) (ls_line s) = (e, Inr None) \<and> \<not> es_has_data e"
    using Cons.prems field [of "ls_line s"]
    by (auto simp: process_line_def reset_event_def ascii_bytes_def split: prod.split if_splits)
  have "\<exists>s1. process_wire_byte s b = (s1, Inr None) \<and> \<not> es_has_data (ls_event s1)
      \<and> length (ls_line s1) + length bs \<le> 3"
    using line Cons.prems
    by (auto simp: process_wire_byte_def Let_def end_line_def MAX_SSE_LINE_BYTES_def MAX_SSE_EVENT_DATA_BYTES_def)
  then obtain s1 where s1: "process_wire_byte s b = (s1, Inr None)" "\<not> es_has_data (ls_event s1)"
    "length (ls_line s1) + length bs \<le> 3" by blast
  show ?case using Cons.IH [OF s1(2,3)] s1(1) by (simp add: meaning_Cons)
qed simp

lemma end_line_line [simp]: "end_line s b = (s', r) \<Longrightarrow> ls_line s' = []"
  by (auto simp: end_line_def split: prod.splits)

lemma segment_turn_correct:
  assumes "sp_chunk p = Some c" "sp_chunk_offset p < length c" "sp_bom_resolved p" "parser_ok p"
    and "\<not> ls_skip_lf_after_cr (sp_lines p)"
  shows "turn_correct p (segment_turn c p)"
proof -
  define tail where "tail = (if sp_eof p then [] else stream_bytes (sp_stream p))"
  define remaining where "remaining = drop (sp_chunk_offset p) c"
  define seg where "seg = takeWhile (\<lambda>b. \<not> is_eol b) remaining"
  define ls where "ls = (sp_lines p)\<lparr>ls_line := ls_line (sp_lines p) @ seg\<rparr>"
  define off where "off = sp_chunk_offset p + length seg"
  have rest: "rest_of p = seg @ drop (length seg) remaining @ tail"
    using takeWhile_dropWhile_id [of "\<lambda>b. \<not> is_eol b" remaining] assms(1)
    by (simp add: rest_of_def remaining_def tail_def seg_def dropWhile_eq_drop flip: append_assoc)
  have seg_no_eol: "list_all (\<lambda>b. \<not> is_eol b) seg"
    unfolding seg_def list_all_iff by (auto dest: set_takeWhileD)
  have long: "parser_meaning p = (if MAX_SSE_LINE_BYTES < length (ls_line (sp_lines p)) + length seg
      then ([], Failed_With RE_LineLimit) else meaning ls (drop (length seg) remaining @ tail) (fin_of p))"
    using run_segment [OF seg_no_eol assms(5), of "drop (length seg) remaining @ tail" "fin_of p"] assms(3,4)
    by (simp add: parser_meaning_def rest ls_def parser_ok_def)
  obtain s r where e: "end_line ls (c ! off = CR) = (s, r)" by fastforce
  have step: "segment_turn c p = (if MAX_SSE_LINE_BYTES < length (ls_line (sp_lines p)) + length seg
      then (p, Return_With (Inl RE_LineLimit))
      else if length seg < length remaining
      then (drop_chunk_if_done c (p\<lparr>sp_lines := s, sp_chunk_offset := off + 1\<rparr>), turn_of r)
      else (p\<lparr>sp_lines := ls, sp_chunk := None, sp_chunk_offset := 0\<rparr>, Go_On))"
    using e unfolding segment_turn_def Let_def
    by (simp add: remaining_def [symmetric] seg_def [symmetric] ls_def [symmetric] off_def [symmetric] cong: if_cong)
  have parts: "remaining = seg @ dropWhile (\<lambda>b. \<not> is_eol b) remaining" by (simp add: seg_def)
  have "length seg < length remaining \<or> seg = remaining"
    using arg_cong [OF parts, of length] parts by (cases "dropWhile (\<lambda>b. \<not> is_eol b) remaining") simp_all
  then consider "MAX_SSE_LINE_BYTES < length (ls_line (sp_lines p)) + length seg"
    | "length (ls_line ls) \<le> MAX_SSE_LINE_BYTES" "length seg < length remaining"
    | "length (ls_line ls) \<le> MAX_SSE_LINE_BYTES" "seg = remaining"
    by (fastforce simp: ls_def)
  then show ?thesis
  proof cases
    case 1
    then show ?thesis using step long by (simp add: turn_correct_def)
  next
    case 2
    have off: "off < length c" "drop (length seg) remaining = drop off c" "remaining ! length seg = c ! off"
      using 2(2) assms(2) by (simp_all add: remaining_def off_def add.commute)
    have b: "drop (length seg) remaining = c ! off # drop (off + 1) c"
      using off(1,2) Cons_nth_drop_Suc [of off c] by simp
    have eol: "is_eol (c ! off)"
      using 2(2) nth_length_takeWhile [of "\<lambda>b. \<not> is_eol b" remaining] off(3) by (simp add: seg_def)
    have m: "parser_meaning p = meaning ls (c ! off # drop (off + 1) c @ tail) (fin_of p)"
      using 2 long b by (simp add: ls_def)
    let ?q = "p\<lparr>sp_lines := s, sp_chunk_offset := off + 1\<rparr>"
    have q: "parser_meaning ?q = meaning s (drop (off + 1) c @ tail) (fin_of p)" "parser_ok ?q"
      using assms(1,3,4) e by (simp_all add: parser_meaning_def rest_of_def tail_def fin_of_def parser_ok_def)
    have "process_wire_byte ls (c ! off) = (s, r)"
      using wire_byte_eol [OF eol, of ls] assms(5) e by (simp add: ls_def)
    then have "parser_meaning p = (case r of Inl e \<Rightarrow> ([], Failed_With e) | Inr None \<Rightarrow> parser_meaning ?q
      | Inr (Some ev) \<Rightarrow> (case parser_meaning ?q of (evs, e) \<Rightarrow> (ev # evs, e)))"
      using m q(1) by (simp add: meaning_Cons split: sum.split option.split)
    moreover have "segment_turn c p = (drop_chunk_if_done c ?q, turn_of r)" using step 2 by (simp add: ls_def)
    ultimately show ?thesis
      using q(2) drop_chunk_meaning [of ?q c] assms(1)
      by (auto simp: turn_correct_def turn_of_def split: sum.split option.split)
  next
    case 3
    let ?q = "p\<lparr>sp_lines := ls, sp_chunk := None, sp_chunk_offset := 0\<rparr>"
    have "parser_meaning p = meaning ls tail (fin_of p)" using 3 long by (simp add: ls_def)
    moreover have "parser_meaning ?q = meaning ls tail (fin_of p)" "parser_ok ?q"
      using assms(3,4) 3(1) by (simp_all add: parser_meaning_def rest_of_def tail_def fin_of_def parser_ok_def)
    moreover have "segment_turn c p = (?q, Go_On)" using step 3 by (simp add: ls_def)
    ultimately show ?thesis by (simp add: turn_correct_def)
  qed
qed

lemma chunk_turn_correct:
  assumes "sp_chunk p = Some c" "sp_chunk_offset p < length c" "sp_bom_resolved p" "parser_ok p"
  shows "turn_correct p (chunk_turn c p)"
proof -
  let ?b = "c ! sp_chunk_offset p"
  let ?p1 = "p\<lparr>sp_lines := (sp_lines p)\<lparr>ls_skip_lf_after_cr := False\<rparr>\<rparr>"
  have rest: "rest_of p = ?b # drop (sp_chunk_offset p + 1) c @ (if sp_eof p then [] else stream_bytes (sp_stream p))"
    using assms(1,2) by (simp add: rest_of_def Cons_nth_drop_Suc flip: append_Cons)
  show ?thesis
  proof (cases "ls_skip_lf_after_cr (sp_lines p) \<and> ?b = LF")
    case True
    let ?q = "?p1\<lparr>sp_chunk_offset := sp_chunk_offset p + 1\<rparr>"
    have "parser_meaning p = parser_meaning ?q"
      using True assms(1,3) meaning_skipped_LF
      by (simp add: parser_meaning_def rest) (simp add: rest_of_def fin_of_def)
    moreover have "parser_ok ?q" using assms(3,4) by (simp add: parser_ok_def)
    ultimately show ?thesis using True drop_chunk_meaning [of ?q c] assms(1)
      by (simp add: chunk_turn_def Let_def turn_correct_def)
  next
    case False
    have same: "parser_meaning ?p1 = parser_meaning p"
    proof (cases "ls_skip_lf_after_cr (sp_lines p)")
      case True
      then show ?thesis using False assms(3) meaning_skip [of "rest_of p" "sp_lines p"] rest
        by (simp add: parser_meaning_def)
    next
      case False
      then have "(sp_lines p)\<lparr>ls_skip_lf_after_cr := False\<rparr> = sp_lines p" by simp
      then show ?thesis by (simp add: parser_meaning_def)
    qed
    have "parser_ok ?p1" using assms(3,4) by (simp add: parser_ok_def)
    then have "turn_correct ?p1 (segment_turn c ?p1)"
      using assms(1-3) by (intro segment_turn_correct) simp_all
    moreover have "chunk_turn c p = segment_turn c ?p1" using False by (auto simp: chunk_turn_def Let_def)
    ultimately show ?thesis by (simp only: turn_correct_def same)
  qed
qed

lemma strip_bom_prefix:
  "prefix \<in> {[], take 1 UTF8_BOM, take 2 UTF8_BOM} \<Longrightarrow> strip_bom prefix = prefix"
  "prefix \<in> {[], take 1 UTF8_BOM, take 2 UTF8_BOM} \<Longrightarrow> b \<noteq> UTF8_BOM ! length prefix \<Longrightarrow>
     strip_bom (prefix @ b # rest) = prefix @ b # rest"
  "strip_bom (UTF8_BOM @ rest) = rest"
  by (auto simp: strip_bom_def UTF8_BOM_def numeral_2_eq_2 numeral_3_eq_3)

lemma bom_turn_correct:
  assumes "sp_chunk p = Some c" "sp_chunk_offset p < length c" "\<not> sp_bom_resolved p" "parser_ok p"
  shows "turn_correct p (bom_turn c p)"
proof -
  let ?b = "c ! sp_chunk_offset p" and ?prefix = "sp_bom_prefix p @ [c ! sp_chunk_offset p]"
  let ?p1 = "p\<lparr>sp_chunk_offset := sp_chunk_offset p + 1, sp_bom_prefix := ?prefix\<rparr>"
  define tail where "tail = drop (sp_chunk_offset p + 1) c @ (if sp_eof p then [] else stream_bytes (sp_stream p))"
  have rest: "rest_of p = ?b # tail"
    using assms(1,2) by (simp add: rest_of_def tail_def Cons_nth_drop_Suc flip: append_Cons)
  have new: "sp_lines p = line_state_new" and pre: "sp_bom_prefix p \<in> {[], take 1 UTF8_BOM, take 2 UTF8_BOM}"
    using assms(3,4) by (simp_all add: parser_ok_def)
  have len: "length ?prefix \<le> 3" using pre by (auto simp: UTF8_BOM_def)
  have m: "parser_meaning p = meaning line_state_new (strip_bom (?prefix @ tail)) (fin_of p)"
    using assms(3) new by (simp add: parser_meaning_def rest)
  have upd: "rest_of (?p1\<lparr>sp_bom_resolved := x, sp_bom_prefix := y, sp_lines := z\<rparr>) = tail"
    "fin_of (?p1\<lparr>sp_bom_resolved := x, sp_bom_prefix := y, sp_lines := z\<rparr>) = fin_of p"
    "rest_of ?p1 = tail" "fin_of ?p1 = fin_of p" for x y z
    using assms(1) by (simp_all add: rest_of_def fin_of_def tail_def)
  show ?thesis
  proof (cases "?b \<noteq> UTF8_BOM ! length (sp_bom_prefix p)")
    case True
    have "\<exists>s'. replay_bom_prefix line_state_new ?prefix = (s', Inr None)
        \<and> meaning line_state_new (?prefix @ tail) (fin_of p) = meaning s' tail (fin_of p)
        \<and> length (ls_line s') \<le> 3 \<and> \<not> es_has_data (ls_event s')"
      using len by (intro replay_quiet) (simp_all add: line_state_new_def event_state_new_def)
    then obtain s' where s': "replay_bom_prefix line_state_new ?prefix = (s', Inr None)"
      "meaning line_state_new (?prefix @ tail) (fin_of p) = meaning s' tail (fin_of p)" "length (ls_line s') \<le> 3"
      by blast
    let ?q = "?p1\<lparr>sp_bom_resolved := True, sp_bom_prefix := [], sp_lines := s'\<rparr>"
    have "parser_meaning p = parser_meaning ?q"
      using m s'(2) strip_bom_prefix(2) [OF pre True] upd(1,2) by (simp add: parser_meaning_def)
    moreover have "parser_ok ?q"
      using s'(3) by (simp add: parser_ok_def MAX_SSE_LINE_BYTES_def MAX_SSE_EVENT_DATA_BYTES_def)
    moreover have "bom_turn c p = (drop_chunk_if_done c ?q, Go_On)"
      using True s'(1) new by (simp add: bom_turn_def Let_def)
    ultimately show ?thesis using drop_chunk_meaning [of ?q c] assms(1) by (simp add: turn_correct_def)
  next
    case same: False
    show ?thesis
    proof (cases "length ?prefix = 3")
      case True
      let ?q = "?p1\<lparr>sp_bom_prefix := [], sp_bom_resolved := True\<rparr>"
      have "?prefix = UTF8_BOM" using True same pre by (auto simp: UTF8_BOM_def numeral_2_eq_2)
      then have "parser_meaning p = parser_meaning ?q"
        using m strip_bom_prefix(3) new upd(1,2) [where z = "sp_lines p"] assms(1)
        by (simp add: parser_meaning_def) (simp add: rest_of_def fin_of_def tail_def)
      moreover have "parser_ok ?q" using assms(4) by (simp add: parser_ok_def)
      moreover have "bom_turn c p = (drop_chunk_if_done c ?q, Go_On)"
        using same True by (simp add: bom_turn_def Let_def UTF8_BOM_def)
      ultimately show ?thesis using drop_chunk_meaning [of ?q c] assms(1) by (simp add: turn_correct_def)
    next
      case False
      have "?prefix \<in> {[], take 1 UTF8_BOM, take 2 UTF8_BOM}"
        using False same pre by (auto simp: UTF8_BOM_def numeral_2_eq_2)
      then have "parser_ok ?p1" using new by (simp add: parser_ok_def line_state_new_def)
      moreover have "parser_meaning p = parser_meaning ?p1"
        using m assms(3) new upd(3,4) by (simp add: parser_meaning_def)
      moreover have "bom_turn c p = (drop_chunk_if_done c ?p1, Go_On)"
        using same False by (simp add: bom_turn_def Let_def UTF8_BOM_def)
      ultimately show ?thesis using drop_chunk_meaning [of ?p1 c] assms(1) by (simp add: turn_correct_def)
    qed
  qed
qed

lemma eof_turn_correct:
  assumes "sp_chunk p = None" "sp_eof p" "parser_ok p"
  shows "turn_correct p (eof_turn p)"
proof -
  define s where "s = (if sp_bom_resolved p then sp_lines p else fst (replay_bom_prefix (sp_lines p) (sp_bom_prefix p)))"
  have rest: "rest_of p = []" "fin_of p = Fin_End" using assms by (simp_all add: rest_of_def fin_of_def)
  have s: "(if sp_bom_resolved p then (sp_lines p, Inr None) else replay_bom_prefix (sp_lines p) (sp_bom_prefix p)) = (s, Inr None)
     \<and> parser_meaning p = at_end (ls_event s) (ls_line s) Fin_End \<and> length (ls_line s) \<le> MAX_SSE_LINE_BYTES"
  proof (cases "sp_bom_resolved p")
    case True
    then show ?thesis using assms(3) rest by (simp add: s_def parser_meaning_def parser_ok_def)
  next
    case False
    have new: "sp_lines p = line_state_new" and pre: "sp_bom_prefix p \<in> {[], take 1 UTF8_BOM, take 2 UTF8_BOM}"
      using assms(3) False by (simp_all add: parser_ok_def)
    have len: "length (sp_bom_prefix p) \<le> 3" using pre by (auto simp: UTF8_BOM_def)
    have "\<exists>s'. replay_bom_prefix line_state_new (sp_bom_prefix p) = (s', Inr None)
        \<and> meaning line_state_new (sp_bom_prefix p @ []) Fin_End = meaning s' [] Fin_End
        \<and> length (ls_line s') \<le> 3 \<and> \<not> es_has_data (ls_event s')"
      using len by (intro replay_quiet) (simp_all add: line_state_new_def event_state_new_def)
    then show ?thesis using False new rest strip_bom_prefix(1) [OF pre]
      by (auto simp: s_def parser_meaning_def MAX_SSE_LINE_BYTES_def MAX_SSE_EVENT_DATA_BYTES_def)
  qed
  obtain e r2 where r2: "(if ls_line s = [] then (ls_event s, Inr None) else process_line (ls_event s) (ls_line s)) = (e, r2)"
    by fastforce
  obtain e3 r3 where r3: "process_line e [] = (e3, r3)" by fastforce
  define p1 where "p1 = p\<lparr>sp_bom_resolved := True, sp_bom_prefix := (if sp_bom_resolved p then sp_bom_prefix p else []), sp_lines := s\<rparr>"
  define s2 where "s2 = s\<lparr>ls_line := [], ls_event := e\<rparr>"
  have step: "eof_turn p = (if r2 \<noteq> Inr None then (p1\<lparr>sp_lines := s2\<rparr>, Return_With r2)
      else (p1\<lparr>sp_lines := s2\<lparr>ls_event := e3\<rparr>\<rparr>, Return_With r3))"
    using conjunct1 [OF s] r2 r3 by (simp add: eof_turn_def Let_def p1_def s2_def)
  have quiet: "r2 \<noteq> Inr (Some ev)" for ev
    using r2 process_line_bit(2) [of "ls_event s" "ls_line s" e r2 ev] by (auto split: if_splits)
  have m: "parser_meaning p = (case r2 of Inl er \<Rightarrow> ([], Failed_With er)
      | Inr _ \<Rightarrow> continue_with (run_lines e [[]]) (\<lambda>_. ([], Closed_At_Eof)))"
    using s r2 quiet by (auto simp: at_end_def split: sum.splits option.splits if_splits)
  let ?q = "p1\<lparr>sp_lines := s2\<lparr>ls_event := e3\<rparr>\<rparr>"
  have q: "parser_ok ?q" "parser_meaning ?q = at_end e3 [] Fin_End"
    using assms(1,2) by (simp_all add: parser_ok_def parser_meaning_def rest_of_def fin_of_def p1_def s2_def)
  have quiet3: "at_end e3 [] Fin_End = ([], Closed_At_Eof)" if "r3 = Inr (Some ev)" for ev
    using process_line_bit(2) [OF r3 that] by (simp add: at_end_def process_line_def)
  show ?thesis
  proof (cases r2)
    case (Inl er)
    then show ?thesis using step m by (simp add: turn_correct_def)
  next
    case (Inr o2)
    then have "r2 = Inr None" using quiet by (cases o2) auto
    then show ?thesis using step m r3 q quiet3
      by (auto simp: turn_correct_def continue_with_def split: sum.split option.split)
  qed
qed

lemma stalled_meaning:
  assumes "parser_ok p" "rest_of p = []" "fin_of p \<noteq> Fin_End"
  shows "parser_meaning p = ([], if fin_of p = Fin_Open then Still_Open else Failed_With RE_StreamRead)"
proof -
  have fin: "at_end e line (fin_of p) = ([], if fin_of p = Fin_Open then Still_Open else Failed_With RE_StreamRead)" for e line
    using assms(3) by (cases "fin_of p") (simp_all add: at_end_def)
  show ?thesis
  proof (cases "sp_bom_resolved p")
    case True
    then show ?thesis using assms(2) fin by (simp add: parser_meaning_def)
  next
    case False
    have pre: "sp_bom_prefix p \<in> {[], take 1 UTF8_BOM, take 2 UTF8_BOM}" "sp_lines p = line_state_new"
      using assms(1) False by (simp_all add: parser_ok_def)
    have "\<exists>s'. replay_bom_prefix line_state_new (sp_bom_prefix p) = (s', Inr None)
        \<and> meaning line_state_new (sp_bom_prefix p @ []) (fin_of p) = meaning s' [] (fin_of p)
        \<and> length (ls_line s') \<le> 3 \<and> \<not> es_has_data (ls_event s')"
      using pre(1) by (intro replay_quiet) (auto simp: line_state_new_def event_state_new_def UTF8_BOM_def)
    then show ?thesis using assms(2) False pre fin strip_bom_prefix(1) [OF pre(1)]
      by (auto simp: parser_meaning_def)
  qed
qed

lemma next_turn_correct: "parser_ok p \<Longrightarrow> turn_correct p (next_turn p)"
proof (cases "sp_chunk p")
  case None
  assume ok: "parser_ok p"
  show ?thesis
  proof (cases "sp_eof p")
    case True
    then show ?thesis using eof_turn_correct [OF None True ok] None by (simp add: next_turn_def)
  next
    case False
    have rest: "rest_of p = stream_bytes (sp_stream p)" "fin_of p = stream_fin (sp_stream p)"
      using None False by (simp_all add: rest_of_def fin_of_def)
    show ?thesis
    proof (cases "sp_stream p")
      case Nil
      then show ?thesis using None False stalled_meaning [OF ok] rest by (simp add: next_turn_def turn_correct_def)
    next
      case (Cons item items)
      then show ?thesis using None False stalled_meaning [OF ok] rest ok
        by (cases item) (simp_all add: next_turn_def turn_correct_def parser_ok_def parser_meaning_def rest_of_def fin_of_def)
    qed
  qed
next
  case (Some c)
  assume ok: "parser_ok p"
  show ?thesis
  proof (cases "length c \<le> sp_chunk_offset p")
    case True
    then show ?thesis using Some ok
      by (simp add: next_turn_def turn_correct_def parser_ok_def parser_meaning_def rest_of_def fin_of_def)
  next
    case False
    then show ?thesis using Some ok bom_turn_correct [of p c] chunk_turn_correct [of p c]
      by (simp add: next_turn_def)
  qed
qed

lemma next_event_correct:
  assumes "parser_ok p" "next_event p = (p', r)"
  shows "case r of
      None \<Rightarrow> parser_meaning p = ([], Still_Open)
    | Some (Inl e) \<Rightarrow> parser_meaning p = ([], Failed_With e)
    | Some (Inr None) \<Rightarrow> parser_meaning p = ([], Closed_At_Eof)
    | Some (Inr (Some ev)) \<Rightarrow> parser_ok p' \<and> parser_meaning p = (case parser_meaning p' of (evs, e) \<Rightarrow> (ev # evs, e))"
  using assms
proof (induction p rule: next_event.induct)
  case (1 p)
  obtain q t where n: "next_turn p = (q, t)" by fastforce
  have c: "turn_correct p (q, t)" using next_turn_correct [OF 1(2)] n by simp
  show ?case
  proof (cases t)
    case Go_On
    then have "next_event q = (p', r)" "parser_ok q" "parser_meaning p = parser_meaning q"
      using 1(3) n c by (simp_all add: next_event.simps [of p] turn_correct_def)
    then show ?thesis using 1(1) [OF n [symmetric] Go_On] by (simp only:)
  qed (use 1(3) n c in \<open>auto simp: next_event.simps [of p] turn_correct_def split: sum.splits option.splits\<close>)
qed

lemma sse_events_correct: "parser_ok p \<Longrightarrow> sse_events p = parser_meaning p"
proof (induction p rule: sse_events.induct)
  case (1 p)
  obtain q r where n: "next_event p = (q, r)" by fastforce
  note c = next_event_correct [OF 1(2) n]
  show ?case
  proof (cases r)
    case None
    then show ?thesis using n c by (simp add: sse_events.simps [of p])
  next
    case (Some x)
    show ?thesis
    proof (cases x)
      case (Inl e)
      then show ?thesis using n c Some by (simp add: sse_events.simps [of p])
    next
      case (Inr o')
      show ?thesis
      proof (cases o')
        case None
        then show ?thesis using n c Some Inr by (simp add: sse_events.simps [of p])
      next
        case ev: (Some ev)
        then have "sse_events q = parser_meaning q" using 1(1) [OF n [symmetric]] c Some Inr by simp
        then show ?thesis using n c Some Inr ev by (simp add: sse_events.simps [of p])
      qed
    qed
  qed
qed

subsection \<open>Bounds\<close>

definition event_ok :: "event_state \<Rightarrow> bool" where
  "event_ok s \<longleftrightarrow> length (es_data s) \<le> MAX_SSE_EVENT_DATA_BYTES \<and> length (es_event_type s) \<le> MAX_EVENT_TYPE_BYTES"

lemma from_utf8_length: "from_utf8 bs = Some t \<Longrightarrow> length t = length bs"
  by (auto simp: from_utf8_def bytes_string_def split: if_splits)

lemma process_line_bounds:
  assumes "process_line s line = (s', r)" "event_ok s"
  shows "r = Inr x \<Longrightarrow> event_ok s'"
    "r = Inr (Some ev) \<Longrightarrow> length (be_data ev) \<le> MAX_SSE_EVENT_DATA_BYTES \<and> length (be_event ev) \<le> MAX_EVENT_TYPE_BYTES"
  using assms
  by (auto simp: process_line_def reset_event_def event_ok_def split_def from_utf8_length MAX_EVENT_TYPE_BYTES_def
      split: if_splits option.splits)

lemma run_lines_bounds:
  "run_lines s ls = (evs, r) \<Longrightarrow> event_ok s \<Longrightarrow>
     list_all (\<lambda>ev. length (be_data ev) \<le> MAX_SSE_EVENT_DATA_BYTES \<and> length (be_event ev) \<le> MAX_EVENT_TYPE_BYTES) evs
     \<and> (\<forall>s'. r = Inr s' \<longrightarrow> event_ok s')"
proof (induction ls arbitrary: s evs)
  case (Cons l ls)
  obtain s1 r1 where l: "process_line s l = (s1, r1)" by fastforce
  show ?case using Cons.IH [of s1] Cons.prems l process_line_bounds [OF l]
    by (auto split: if_splits sum.splits option.splits prod.splits)
qed auto

lemma continue_with_events:
  assumes "list_all P (fst x)" "\<And>s. snd x = Inr s \<Longrightarrow> list_all P (fst (k s))"
  shows "list_all P (fst (continue_with x k))"
proof -
  obtain evs r where x: "x = (evs, r)" by fastforce
  show ?thesis
  proof (cases r)
    case (Inr s)
    then have "list_all P (fst (k s))" using assms(2) x by simp
    then show ?thesis using assms(1) x Inr by (cases "k s") (simp add: continue_with_def)
  qed (use assms(1) x in \<open>simp add: continue_with_def\<close>)
qed

lemma at_end_bounds:
  "event_ok s \<Longrightarrow> list_all (\<lambda>ev. length (be_data ev) \<le> MAX_SSE_EVENT_DATA_BYTES \<and> length (be_event ev) \<le> MAX_EVENT_TYPE_BYTES) (fst (at_end s line fin))"
  using run_lines_bounds [of s "if line = [] then [[]] else [line, []]"]
  by (cases fin; cases "run_lines s (if line = [] then [[]] else [line, []])")
    (auto simp only: at_end_def ending.case fst_conv list.pred_inject intro!: continue_with_events)

lemma sse_reference_bounds:
  "list_all (\<lambda>ev. length (be_data ev) \<le> MAX_SSE_EVENT_DATA_BYTES \<and> length (be_event ev) \<le> MAX_EVENT_TYPE_BYTES)
     (fst (sse_reference bs fin))"
proof -
  have new: "event_ok event_state_new" by (simp add: event_ok_def event_state_new_def)
  obtain ls rest where s: "split_lines [] (strip_bom bs) = (ls, rest)" by fastforce
  obtain evs r where r: "run_lines event_state_new ls = (evs, r)" by fastforce
  show ?thesis
    unfolding sse_reference_def text_events_def s prod.case
    by (rule continue_with_events) (use run_lines_bounds [OF r new] r at_end_bounds in auto)
qed

text \<open>
  C24. The incremental parser of server-sent events reads the text, not the chunks. However the network
  cuts the body into chunks, down to a byte order mark, a CRLF pair or a UTF-8 sequence split between
  two of them, calling \<open>next_event\<close> until it has no more yields the events of the reference, which
  strips one byte order mark and processes the text line by line; it ends in the same way, with the same
  error where a limit or the encoding is violated; and no event exceeds the bounds on data and type.
\<close>

theorem sse_events_match_reference:
  "sse_events (sse_parser_new items) = sse_reference (stream_bytes items) (stream_fin items)
   \<and> list_all (\<lambda>ev. length (be_data ev) \<le> MAX_SSE_EVENT_DATA_BYTES \<and> length (be_event ev) \<le> MAX_EVENT_TYPE_BYTES)
       (fst (sse_events (sse_parser_new items)))"
  using sse_events_correct [OF parser_ok_new] sse_reference_bounds by (simp add: parser_meaning_new)

end
