(* ===== verification/Config.thy ===== *)
theory Config
  imports Agent_Policy Thresholds Jsonrpc
begin

section \<open>The run configuration\<close>

text \<open>
  \<open>crates/core/src/config/\<close>: the schema (\<open>mod.rs\<close>), the reading of \<open>[server.auth]\<close> from its flat
  form, and the semantic checks of \<open>validate.rs\<close>. TOML and the \<open>url\<close> crate are third-party code: a
  document is the value of the schema it is read to, and \<open>Url::parse\<close> is a parameter. An \<open>Invalid\<close>
  error is its text. \<open>is_http_token\<close>, \<open>is_portable_env_name\<close> and \<open>is_managed_remote_header\<close> are the
  functions of the worker policy's theory, which the two crates write alike.
\<close>

subsection \<open>Schema\<close>

datatype oauth_flow = Flow_AuthorizationCode | Flow_ClientCredentials

datatype oauth_registration =
    Reg_PreRegistered string "string option" token_endpoint_auth_method
  | Reg_ClientIdMetadata string
  | Reg_Dynamic "string option"

record auth_config =
  au_flow :: oauth_flow
  au_registration :: oauth_registration
  au_scopes :: "string list"
  au_offline_access :: bool
  au_max_step_up_retries :: u8

record server_config =
  srv_command :: "string option"
  srv_args :: "string list"
  srv_env :: "(string, string) btree"
  srv_working_dir :: "string option"
  srv_url :: "string option"
  srv_transport :: string
  srv_startup_timeout :: duration
  srv_allowed_hosts :: "string list"
  srv_protocol_version :: "string option"
  srv_headers_from_env :: "(string, string) btree"
  srv_auth :: "auth_config option"

record scenario_config =
  sc_kind :: string
  sc_params :: json

record distributed_agent_config =
  da_name :: string
  da_ssh_host :: string
  da_ssh_port :: "u16 option"
  da_identity_file :: "string option"
  da_known_hosts_file :: "string option"

record distributed_config =
  di_require_all_agents :: bool
  di_connect_timeout :: duration
  di_ready_timeout :: duration
  di_heartbeat_timeout :: duration
  di_start_lead :: duration
  di_agents :: "distributed_agent_config list"

record otlp_output_config =
  ot_endpoint :: string
  ot_headers_from_env :: "(string, string) btree"
  ot_timeout :: duration
  ot_fail_on_error :: bool
  ot_allowed_hosts :: "string list"
  ot_max_attempts :: u8

record history_output_config =
  hi_series :: string
  hi_directory :: string
  hi_window :: u64
  hi_min_samples :: u64
  hi_require_history :: bool
  hi_max_p99_regression_pct :: f64
  hi_max_error_rate_regression_pp :: f64
  hi_max_rps_drop_pct :: "f64 option"
  hi_deadlock_zero_tolerance :: bool

record output_config =
  out_report_dir :: string
  out_formats :: "string list"
  out_otlp :: "otlp_output_config option"
  out_history :: "history_output_config option"

record config =
  cfg_server :: server_config
  cfg_scenario :: scenario_config
  cfg_thresholds :: thresholds_config
  cfg_output :: output_config
  cfg_strict :: bool
  cfg_distributed :: "distributed_config option"

definition resolved_protocol_version :: "server_config \<Rightarrow> protocol_version" where
  "resolved_protocol_version s =
     (case Option.bind (case srv_protocol_version s of Some v \<Rightarrow> if v \<noteq> ''auto'' then Some v else None | None \<Rightarrow> None)
         version_parse of
        Some v \<Rightarrow> v
      | None \<Rightarrow> DEFAULT_ADVERTISED)"

subsection \<open>Reading the authentication block\<close>

record auth_config_wire =
  aw_flow :: oauth_flow
  aw_registration :: string
  aw_client_id :: "string option"
  aw_client_secret_env :: "string option"
  aw_token_endpoint_auth_method :: "token_endpoint_auth_method option"
  aw_client_id_metadata_url :: "string option"
  aw_client_name :: "string option"
  aw_scopes :: "string list"
  aw_offline_access :: bool
  aw_max_step_up_retries :: u8
  aw_unknown :: "string list"

definition registration_of_wire :: "auth_config_wire \<Rightarrow> string + oauth_registration" where
  "registration_of_wire w =
     (if aw_registration w = ''pre_registered'' then
        if aw_client_id_metadata_url w \<noteq> None \<or> aw_client_name w \<noteq> None
        then Inl ''server.auth pre_registered does not accept client_id_metadata_url or client_name''
        else and_then (ok_or ''server.auth.client_id is required for pre_registered'' (aw_client_id w)) (\<lambda>client_id.
          Inr (Reg_PreRegistered client_id (aw_client_secret_env w)
            (case aw_token_endpoint_auth_method w of Some m \<Rightarrow> m | None \<Rightarrow> Auth_Auto)))
      else if aw_registration w = ''client_id_metadata'' then
        if aw_client_id w \<noteq> None \<or> aw_client_secret_env w \<noteq> None
          \<or> aw_token_endpoint_auth_method w \<noteq> None \<or> aw_client_name w \<noteq> None
        then Inl ''server.auth client_id_metadata accepts only client_id_metadata_url''
        else and_then (ok_or ''server.auth.client_id_metadata_url is required'' (aw_client_id_metadata_url w)) (\<lambda>url.
          Inr (Reg_ClientIdMetadata url))
      else if aw_registration w = ''dynamic'' then
        if aw_client_id w \<noteq> None \<or> aw_client_secret_env w \<noteq> None
          \<or> aw_token_endpoint_auth_method w \<noteq> None \<or> aw_client_id_metadata_url w \<noteq> None
        then Inl ''server.auth dynamic registration accepts only client_name''
        else Inr (Reg_Dynamic (aw_client_name w))
      else Inl (''server.auth.registration: unknown value `'' @ aw_registration w @ ''`''))"

definition auth_of_wire :: "auth_config_wire \<Rightarrow> string + auth_config" where
  "auth_of_wire w =
     (case aw_unknown w of
        name # _ \<Rightarrow> Inl (''unknown field `'' @ name @ ''` in server.auth configuration'')
      | [] \<Rightarrow> and_then (registration_of_wire w) (\<lambda>registration.
          Inr \<lparr>au_flow = aw_flow w, au_registration = registration, au_scopes = aw_scopes w,
            au_offline_access = aw_offline_access w, au_max_step_up_retries = aw_max_step_up_retries w\<rparr>))"

subsection \<open>Text\<close>

text \<open>The characters of a UTF-8 string, each as its bytes; \<open>str::trim\<close> drops white space at both ends.\<close>

fun char_units :: "string \<Rightarrow> string list" where
  "char_units [] = []"
| "char_units (a # s) =
     (let n = (if byte_of a < 192 then 0 else if byte_of a < 224 then 1 else if byte_of a < 240 then 2 else 3)
      in (a # take n s) # char_units (drop n s))"

definition is_space_unit :: "string \<Rightarrow> bool" where
  "is_space_unit u \<longleftrightarrow> (case utf8_chars u of [c] \<Rightarrow> is_whitespace_char c | _ \<Rightarrow> False)"

definition str_trim :: "string \<Rightarrow> string" where
  "str_trim s = concat (rev (dropWhile is_space_unit (rev (dropWhile is_space_unit (char_units s)))))"

definition has_whitespace :: "string \<Rightarrow> bool" where
  "has_whitespace s \<longleftrightarrow> list_ex is_whitespace_char (utf8_chars s)"

fun contains_text :: "string \<Rightarrow> string \<Rightarrow> bool" where
  "contains_text pat [] \<longleftrightarrow> pat = []"
| "contains_text pat (c # s) \<longleftrightarrow> starts_with pat (c # s) \<or> contains_text pat s"

definition bare_host :: "string \<Rightarrow> bool" where
  "bare_host host \<longleftrightarrow> \<not> (host = [] \<or> contains_text ''://'' host \<or> CHR ''/'' \<in> set host \<or> CHR '':'' \<in> set host
     \<or> has_whitespace host)"

definition to_ascii_uppercase :: "string \<Rightarrow> string" where
  "to_ascii_uppercase = map (\<lambda>c. if is_ascii_lower c then char_of (byte_of c - 32) else c)"

text \<open>\<open>str::parse::<u8>\<close>: decimal digits, with an optional plus sign.\<close>

definition parse_u8 :: "string \<Rightarrow> nat option" where
  "parse_u8 s = (let t = (if s \<noteq> [] \<and> hd s = CHR ''+'' then tl s else s)
     in if is_digits t \<and> decimal_value t < 256 then Some (decimal_value t) else None)"

definition device_number :: "string \<Rightarrow> string \<Rightarrow> bool" where
  "device_number prefix stem \<longleftrightarrow> starts_with prefix stem
     \<and> (case parse_u8 (drop (length prefix) stem) of Some n \<Rightarrow> 1 \<le> n \<and> n \<le> 9 | None \<Rightarrow> False)"

definition portable_series_name :: "string \<Rightarrow> bool" where
  "portable_series_name value \<longleftrightarrow> value \<noteq> [] \<and> length value \<le> 64
     \<and> is_ascii_alphanumeric (hd value)
     \<and> list_all (\<lambda>c. is_ascii_alphanumeric c \<or> c \<in> {CHR ''.'', CHR ''_'', CHR ''-''}) (tl value)
     \<and> (let stem = to_ascii_uppercase (hd (split_on CHR ''.'' value)) in
          stem \<notin> {''CON'', ''PRN'', ''AUX'', ''NUL''} \<and> \<not> device_number ''COM'' stem \<and> \<not> device_number ''LPT'' stem)"

subsection \<open>Validation\<close>

type_synonym checked = "message + unit"

definition invalid_if :: "bool \<Rightarrow> string \<Rightarrow> checked" where
  "invalid_if c text = fail_if c [Txt text]"

fun join_text :: "string \<Rightarrow> string list \<Rightarrow> string" where
  "join_text sep [] = []"
| "join_text sep [x] = x"
| "join_text sep (x # xs) = x @ sep @ join_text sep xs"

definition KNOWN_TRANSPORTS :: "string list" where
  "KNOWN_TRANSPORTS = [''stdio'', ''http'', ''sse'', ''ws'']"

definition KNOWN_SCENARIOS :: "string list" where
  "KNOWN_SCENARIOS = [''sustained'', ''deadlock_probe'', ''cold_start'', ''ramp'', ''soak'', ''spike'', ''fuzzer'',
     ''race_check'', ''pattern'', ''version_matrix'']"

definition OUTPUT_FORMATS :: "string list" where
  "OUTPUT_FORMATS = [''terminal'', ''markdown'', ''json'', ''html'', ''junit'', ''prometheus'']"

text \<open>Members inserted one by one into a set; a repeated one is an error.\<close>

definition insert_fresh :: "('a \<Rightarrow> message) \<Rightarrow> 'a list \<Rightarrow> 'a \<Rightarrow> message + 'a list" where
  "insert_fresh err seen x = (if x \<in> set seen then Inl (err x) else Inr (x # seen))"

definition validate_remote_endpoint :: "(string \<Rightarrow> string + url) \<Rightarrow> string \<Rightarrow> string \<Rightarrow> bool \<Rightarrow> string + url" where
  "validate_remote_endpoint parse raw transport has_remote_headers =
     (case parse raw of
        Inl _ \<Rightarrow> Inl ''remote endpoint is not a valid absolute URL''
      | Inr u \<Rightarrow>
          let web = transport \<in> {''http'', ''sse''};
              scheme_is_valid = (if web then url_scheme u \<in> {''http'', ''https''}
                else transport = ''ws'' \<and> url_scheme u \<in> {''ws'', ''wss''}) in
          and_then (fail_if (\<not> scheme_is_valid)
            (if web then ''remote endpoint scheme must be http:// or https://''
             else if transport = ''ws'' then ''remote endpoint scheme must be ws:// or wss://''
             else ''remote endpoint transport is unsupported'')) (\<lambda>_.
          and_then (fail_if (case url_host_str u of None \<Rightarrow> True | Some h \<Rightarrow> h = [])
            ''remote endpoint must include a host'') (\<lambda>_.
          and_then (fail_if (url_username u \<noteq> [] \<or> url_password u \<noteq> None)
            ''remote endpoint URL userinfo is forbidden'') (\<lambda>_.
          and_then (fail_if (url_fragment u \<noteq> None) ''remote endpoint URL fragments are forbidden'') (\<lambda>_.
          let tls_scheme = (if web then ''https'' else ''wss'') in
          and_then (fail_if (has_remote_headers \<and> url_scheme u \<noteq> tls_scheme)
            (''server.headers_from_env requires the '' @ tls_scheme @ '':// scheme'')) (\<lambda>_.
          Inr u))))))"

definition validate_https_or_loopback_url :: "(string \<Rightarrow> string + url) \<Rightarrow> string \<Rightarrow> string \<Rightarrow> checked" where
  "validate_https_or_loopback_url parse raw field =
     (case parse raw of
        Inl error \<Rightarrow> Inl [Txt (field @ '': invalid URL: '' @ error)]
      | Inr u \<Rightarrow>
          let loopback = (case url_host_str u of
            None \<Rightarrow> False
          | Some host \<Rightarrow> eq_ignore_ascii_case host ''localhost''
              \<or> (case ip_parse host of Some ip \<Rightarrow> ip_is_loopback ip | None \<Rightarrow> False)) in
          and_then (invalid_if (url_scheme u \<noteq> ''https'' \<and> \<not> (url_scheme u = ''http'' \<and> loopback))
            (field @ '': must use HTTPS (HTTP is allowed only for loopback test fixtures)'')) (\<lambda>_.
          invalid_if (url_username u \<noteq> [] \<or> url_password u \<noteq> None \<or> url_fragment u \<noteq> None)
            (field @ '': userinfo and fragments are not allowed'')))"

definition validate_remote_headers :: "config \<Rightarrow> checked" where
  "validate_remote_headers cfg =
     (let s = cfg_server cfg in
      and_then (invalid_if (srv_headers_from_env s \<noteq> [] \<and> srv_transport s = ''stdio'')
        ''server.headers_from_env is only supported for http, sse, and ws transports'') (\<lambda>_.
      and_then (try_fold (\<lambda>names (name, env_name).
          and_then (invalid_if (\<not> is_http_token name)
            (''server.headers_from_env: `'' @ name @ ''` is not a valid HTTP header name'')) (\<lambda>_.
          and_then (invalid_if (is_managed_remote_header (to_ascii_lowercase name))
            (''server.headers_from_env: `'' @ name @ ''` is managed by mcp-loadtest and cannot be overridden'')) (\<lambda>_.
          and_then (insert_fresh (\<lambda>_. [Txt (''server.headers_from_env: duplicate header name `'' @ name
            @ ''` (header names are case-insensitive)'')]) names (to_ascii_lowercase name)) (\<lambda>names'.
          and_then (invalid_if (\<not> is_portable_env_name env_name)
            (''server.headers_from_env: `'' @ env_name @ ''` is not a portable environment-variable name'')) (\<lambda>_.
          Inr names')))))
        [] (srv_headers_from_env s)) (\<lambda>_. Inr ())))"

definition validate_header_environment_map :: "(string, string) btree \<Rightarrow> string \<Rightarrow> checked" where
  "validate_header_environment_map headers field =
     and_then (try_fold (\<lambda>names (name, env_name).
         and_then (invalid_if (\<not> is_http_token name \<or> is_managed_remote_header (to_ascii_lowercase name))
           (field @ '': invalid or managed HTTP header name `'' @ name @ ''`'')) (\<lambda>_.
         and_then (insert_fresh (\<lambda>_. [Txt (field @ '': duplicate header name `'' @ name @ ''`'')])
           names (to_ascii_lowercase name)) (\<lambda>names'.
         and_then (invalid_if (\<not> is_portable_env_name env_name)
           (field @ '': `'' @ env_name @ ''` is not a portable environment-variable name'')) (\<lambda>_.
         Inr names'))))
       [] headers) (\<lambda>_. Inr ())"

definition validate_bare_host :: "string \<Rightarrow> string \<Rightarrow> checked" where
  "validate_bare_host field host =
     invalid_if (\<not> bare_host host) (field @ '': `'' @ host @ ''` must be a bare hostname'')"

definition client_credentials_registration :: checked where
  "client_credentials_registration =
     Inl [Txt ''server.auth.client_credentials requires registration = \"pre_registered\"'']"

definition validate_auth :: "(string \<Rightarrow> string + url) \<Rightarrow> config \<Rightarrow> checked" where
  "validate_auth parse cfg =
     (case srv_auth (cfg_server cfg) of
        None \<Rightarrow> Inr ()
      | Some auth \<Rightarrow>
          and_then (invalid_if (srv_transport (cfg_server cfg) \<notin> {''http'', ''sse''})
            ''server.auth is supported only for http and sse transports'') (\<lambda>_.
          and_then (invalid_if (list_ex (\<lambda>(name, _). eq_ignore_ascii_case name ''authorization'')
              (srv_headers_from_env (cfg_server cfg)))
            ''server.auth is mutually exclusive with server.headers_from_env.Authorization'') (\<lambda>_.
          and_then (invalid_if (3 < au_max_step_up_retries auth)
            ''server.auth.max_step_up_retries: must be in 0..=3'') (\<lambda>_.
          and_then (try_fold (\<lambda>scopes scope.
              and_then (invalid_if (scope = [] \<or> has_whitespace scope)
                (''server.auth.scopes: `'' @ scope @ ''` must be a non-empty OAuth scope without whitespace'')) (\<lambda>_.
              insert_fresh (\<lambda>_. [Txt (''server.auth.scopes: duplicate scope `'' @ scope @ ''`'')]) scopes scope))
            [] (au_scopes auth)) (\<lambda>_.
          case au_registration auth of
            Reg_PreRegistered client_id client_secret_env _ \<Rightarrow>
              and_then (invalid_if (str_trim client_id = []) ''server.auth.client_id: must not be empty'') (\<lambda>_.
              and_then (case client_secret_env of
                  Some env_name \<Rightarrow> invalid_if (\<not> is_portable_env_name env_name) (''server.auth.client_secret_env: `''
                    @ env_name @ ''` is not a portable environment-variable name'')
                | None \<Rightarrow> Inr ()) (\<lambda>_.
              invalid_if (au_flow auth = Flow_ClientCredentials \<and> client_secret_env = None)
                ''server.auth.client_credentials requires client_secret_env''))
          | Reg_ClientIdMetadata client_id_metadata_url \<Rightarrow>
              if au_flow auth = Flow_ClientCredentials then client_credentials_registration
              else validate_https_or_loopback_url parse client_id_metadata_url ''server.auth.client_id_metadata_url''
          | Reg_Dynamic client_name \<Rightarrow>
              if au_flow auth = Flow_ClientCredentials then client_credentials_registration
              else invalid_if (case client_name of Some name \<Rightarrow> str_trim name = [] | None \<Rightarrow> False)
                ''server.auth.client_name: must not be empty when provided'')))))"

definition show_nat :: "nat \<Rightarrow> string" where
  "show_nat = show_base 10"

definition all_checked :: "('a \<Rightarrow> checked) \<Rightarrow> 'a list \<Rightarrow> checked" where
  "all_checked f xs = try_fold (\<lambda>_ x. f x) () xs"

definition positive_percentage :: "f64 \<Rightarrow> bool" where
  "positive_percentage v \<longleftrightarrow> f64_is_finite v \<and> \<not> f64_le v (F64_Fin 0)"

definition validate_otlp :: "(string \<Rightarrow> string + url) \<Rightarrow> otlp_output_config \<Rightarrow> checked" where
  "validate_otlp parse otlp =
     and_then (invalid_if (ot_timeout otlp = 0) ''output.otlp.timeout: must be > 0'') (\<lambda>_.
     and_then (invalid_if (\<not> (1 \<le> ot_max_attempts otlp \<and> ot_max_attempts otlp \<le> 10))
       ''output.otlp.max_attempts: must be in 1..=10'') (\<lambda>_.
     and_then (validate_https_or_loopback_url parse (ot_endpoint otlp) ''output.otlp.endpoint'') (\<lambda>_.
     case parse (ot_endpoint otlp) of
       Inl error \<Rightarrow> Inl [Txt (''output.otlp.endpoint: '' @ error)]
     | Inr u \<Rightarrow>
         and_then (invalid_if (url_scheme u \<noteq> ''https'' \<and> ot_headers_from_env otlp \<noteq> [])
           ''output.otlp.headers_from_env requires an HTTPS endpoint'') (\<lambda>_.
         and_then (validate_header_environment_map (ot_headers_from_env otlp) ''output.otlp.headers_from_env'') (\<lambda>_.
         all_checked (validate_bare_host ''output.otlp.allowed_hosts'') (ot_allowed_hosts otlp))))))"

definition validate_history :: "history_output_config \<Rightarrow> checked" where
  "validate_history h =
     and_then (invalid_if (\<not> portable_series_name (hi_series h))
       ''output.history.series: use 1..=64 ASCII letters, digits, `.`, `_`, or `-`'') (\<lambda>_.
     and_then (invalid_if (hi_window h = 0) ''output.history.window: must be > 0'') (\<lambda>_.
     and_then (invalid_if (hi_min_samples h = 0 \<or> hi_window h < hi_min_samples h)
       ''output.history.min_samples: must be in 1..=window'') (\<lambda>_.
     and_then (all_checked (\<lambda>(field, value). invalid_if (\<not> positive_percentage value)
         (''output.history.'' @ field @ '': must be finite and > 0''))
       [(''max_p99_regression_pct'', hi_max_p99_regression_pct h),
        (''max_error_rate_regression_pp'', hi_max_error_rate_regression_pp h)]) (\<lambda>_.
     invalid_if (case hi_max_rps_drop_pct h of Some v \<Rightarrow> \<not> positive_percentage v | None \<Rightarrow> False)
       ''output.history.max_rps_drop_pct: must be finite and > 0''))))"

definition validate_output :: "(string \<Rightarrow> string + url) \<Rightarrow> config \<Rightarrow> checked" where
  "validate_output parse cfg =
     and_then (try_fold (\<lambda>seen format.
         and_then (invalid_if (format \<notin> set OUTPUT_FORMATS) (''output.formats: unknown format `'' @ format
           @ ''` (expected one of: '' @ join_text '', '' OUTPUT_FORMATS @ '')'')) (\<lambda>_.
         insert_fresh (\<lambda>_. [Txt (''output.formats: duplicate format `'' @ format @ ''`'')]) seen format))
       [] (out_formats (cfg_output cfg))) (\<lambda>_.
     and_then (case out_otlp (cfg_output cfg) of None \<Rightarrow> Inr () | Some otlp \<Rightarrow> validate_otlp parse otlp) (\<lambda>_.
     case out_history (cfg_output cfg) of None \<Rightarrow> Inr () | Some h \<Rightarrow> validate_history h))"

text \<open>The inventory of agents: distinct names and distinct destinations.\<close>

definition check_agent ::
  "string list \<times> (string \<times> u16 option) list \<Rightarrow> distributed_agent_config
     \<Rightarrow> message + string list \<times> (string \<times> u16 option) list" where
  "check_agent seen agent =
     (case seen of (names, hosts) \<Rightarrow>
      let name = str_trim (da_name agent); host = str_trim (da_ssh_host agent) in
      and_then (invalid_if (name = []) ''distributed.agents.name: must not be empty'') (\<lambda>_.
      and_then (invalid_if (host = [] \<or> starts_with ''-'' host \<or> has_whitespace host) (''distributed agent `'' @ name
        @ ''`: ssh_host must be a non-empty OpenSSH destination without whitespace'')) (\<lambda>_.
      and_then (insert_fresh (\<lambda>_. [Txt (''distributed.agents: duplicate agent name `'' @ name @ ''`'')]) names name) (\<lambda>names'.
      and_then (insert_fresh (\<lambda>_. [Txt (''distributed.agents: duplicate SSH destination `'' @ host @ ''`'')])
        hosts (host, da_ssh_port agent)) (\<lambda>hosts'.
      Inr (names', hosts'))))))"

definition validate_distributed :: "config \<Rightarrow> checked" where
  "validate_distributed cfg =
     (case cfg_distributed cfg of
        None \<Rightarrow> Inr ()
      | Some d \<Rightarrow>
          and_then (invalid_if (\<not> di_require_all_agents d)
            ''distributed.require_all_agents: v0.2 requires true (partial clusters fail closed)'') (\<lambda>_.
          and_then (invalid_if (length (di_agents d) < 2) ''distributed.agents: at least 2 agents are required'') (\<lambda>_.
          and_then (all_checked (\<lambda>(field, value). invalid_if (value = 0) (''distributed.'' @ field @ '': must be > 0''))
            [(''connect_timeout'', di_connect_timeout d), (''ready_timeout'', di_ready_timeout d),
             (''heartbeat_timeout'', di_heartbeat_timeout d), (''start_lead'', di_start_lead d)]) (\<lambda>_.
          and_then (try_fold check_agent ([], []) (di_agents d)) (\<lambda>_.
          and_then (invalid_if (srv_transport (cfg_server cfg) \<notin> {''http'', ''sse'', ''ws''})
            ''distributed runs require server.transport = \"http\", \"sse\", or \"ws\"; remote stdio is unsupported'') (\<lambda>_.
          and_then (invalid_if (sc_kind (cfg_scenario cfg) \<notin> {''sustained'', ''pattern''})
            (''distributed runs support scenario.type = \"sustained\" or \"pattern\", got `''
              @ sc_kind (cfg_scenario cfg) @ ''`'')) (\<lambda>_.
          let concurrency = (case Option.bind (json_get (sc_params (cfg_scenario cfg)) ''concurrent'') json_as_u64 of
            Some n \<Rightarrow> n | None \<Rightarrow> 10) in
          and_then (invalid_if (unat concurrency < length (di_agents d))
            (''scenario.concurrent: distributed runs require at least one slot per agent (''
              @ show_nat (length (di_agents d)) @ '' agents, got '' @ show_nat (unat concurrency) @ '')'')) (\<lambda>_.
          and_then (invalid_if (th_memory_growth_mb (cfg_thresholds cfg) \<noteq> None
              \<or> th_rss_leak_mb_per_sec (cfg_thresholds cfg) \<noteq> None)
            ''distributed runs do not support process memory thresholds; worker processes do not own the remote MCP server'') (\<lambda>_.
          case srv_auth (cfg_server cfg) of
            None \<Rightarrow> Inr ()
          | Some auth \<Rightarrow>
              and_then (invalid_if (au_flow auth \<noteq> Flow_ClientCredentials)
                ''distributed OAuth requires flow = \"client_credentials\"; interactive authorization_code runs must execute locally'') (\<lambda>_.
              invalid_if (au_offline_access auth)
                ''distributed client_credentials OAuth does not support offline_access''))))))))))"

definition validate_protocol_version :: "server_config \<Rightarrow> checked" where
  "validate_protocol_version s =
     (case srv_protocol_version s of
        None \<Rightarrow> Inr ()
      | Some v \<Rightarrow>
          if v = ''auto'' then Inr ()
          else case version_parse v of
            None \<Rightarrow> Inl [Txt (''server.protocol_version: unsupported revision `'' @ v @ ''` (expected \"auto\" or one of: ''
              @ join_text '', '' (map version_as_str ALL_versions) @ '')'')]
          | Some parsed \<Rightarrow> invalid_if (is_stateless parsed \<and> srv_transport s \<in> {''sse'', ''ws''})
              (''server.protocol_version: `'' @ v @ ''` (stateless) is not supported on the `'' @ srv_transport s
                @ ''` transport '' @ [CHR 0xE2, CHR 0x80, CHR 0x94] @ '' use \"stdio\" or \"http\" (ADR 0019)''))"

definition validate_thresholds :: "thresholds_config \<Rightarrow> checked" where
  "validate_thresholds t =
     and_then (case th_error_rate t of
         Some rate \<Rightarrow> fail_if (\<not> (f64_le (F64_Fin 0) rate \<and> f64_le rate (F64_Fin 1)))
           [Txt ''thresholds.error_rate: must be in [0.0, 1.0], got '', Txt_f64 rate]
       | None \<Rightarrow> Inr ()) (\<lambda>_.
     and_then (case th_memory_growth_mb t of
         Some growth \<Rightarrow> fail_if (\<not> f64_is_finite growth \<or> f64_lt growth (F64_Fin 0))
           [Txt ''thresholds.memory_growth_mb: must be finite and >= 0, got '', Txt_f64 growth]
       | None \<Rightarrow> Inr ()) (\<lambda>_.
     and_then (case th_rss_leak_mb_per_sec t of
         Some slope \<Rightarrow> fail_if (\<not> f64_is_finite slope \<or> f64_lt slope (F64_Fin 0))
           [Txt ''thresholds.rss_leak_mb_per_sec: must be finite and >= 0, got '', Txt_f64 slope]
       | None \<Rightarrow> Inr ()) (\<lambda>_.
     case th_hang_timeout t of
       Some d \<Rightarrow> invalid_if (d = 0) ''thresholds.hang_timeout: must be > 0''
     | None \<Rightarrow> Inr ())))"

text \<open>A remote transport without a URL is refused before its URL is read.\<close>

definition validate :: "(string \<Rightarrow> string + url) \<Rightarrow> config \<Rightarrow> checked" where
  "validate parse cfg =
     (let s = cfg_server cfg; transport = srv_transport s; remote = transport \<in> {''http'', ''sse'', ''ws''} in
      and_then (invalid_if (transport \<notin> set KNOWN_TRANSPORTS) (''server.transport: unknown transport `'' @ transport
        @ ''` (expected one of: '' @ join_text '', '' KNOWN_TRANSPORTS @ '')'')) (\<lambda>_.
      and_then (invalid_if (transport = ''stdio'' \<and> srv_command s = None)
        ''server.command is required when transport = \"stdio\"'') (\<lambda>_.
      and_then (invalid_if (remote \<and> srv_url s = None)
        (''server.url is required when transport = \"'' @ transport @ ''\"'')) (\<lambda>_.
      and_then (all_checked (\<lambda>e. invalid_if (\<not> bare_host e) (''allowed_hosts entry `'' @ e
        @ ''` must be a bare hostname (no scheme/port/path)'')) (srv_allowed_hosts s)) (\<lambda>_.
      and_then (validate_remote_headers cfg) (\<lambda>_.
      and_then (validate_auth parse cfg) (\<lambda>_.
      and_then (validate_protocol_version s) (\<lambda>_.
      and_then (case (remote, srv_url s) of
          (True, Some raw_url) \<Rightarrow>
            (case validate_remote_endpoint parse raw_url transport (srv_headers_from_env s \<noteq> []) of
               Inl text \<Rightarrow> Inl [Txt (''server.url: '' @ text)]
             | Inr _ \<Rightarrow> Inr ())
        | _ \<Rightarrow> Inr ()) (\<lambda>_.
      and_then (invalid_if (sc_kind (cfg_scenario cfg) \<notin> set KNOWN_SCENARIOS) (''scenario.type: unknown scenario `''
        @ sc_kind (cfg_scenario cfg) @ ''` (expected one of: '' @ join_text '', '' KNOWN_SCENARIOS @ '')'')) (\<lambda>_.
      and_then (validate_thresholds (cfg_thresholds cfg)) (\<lambda>_.
      and_then (validate_distributed cfg) (\<lambda>_.
      validate_output parse cfg))))))))))))"

subsection \<open>What validation establishes\<close>

lemma invalid_if_Inr [simp]: "invalid_if c text = Inr u \<longleftrightarrow> \<not> c"
  by (simp add: invalid_if_def fail_if_def)

lemma validate_Inr:
  assumes "validate parse cfg = Inr ()"
  shows "validate_remote_headers cfg = Inr ()" "validate_auth parse cfg = Inr ()" "validate_distributed cfg = Inr ()"
    and "srv_transport (cfg_server cfg) \<in> {''http'', ''sse'', ''ws''} \<Longrightarrow>
      \<exists>raw u. srv_url (cfg_server cfg) = Some raw
        \<and> validate_remote_endpoint parse raw (srv_transport (cfg_server cfg)) (srv_headers_from_env (cfg_server cfg) \<noteq> []) = Inr u"
  using assms unfolding validate_def Let_def and_then_Inr_iff
  by (auto split: option.splits sum.splits bool.splits)

lemma validate_remote_endpoint_Inr:
  "validate_remote_endpoint parse raw transport has_headers = Inr u \<longleftrightarrow>
     parse raw = Inr u
     \<and> (transport \<in> {''http'', ''sse''} \<and> url_scheme u \<in> {''http'', ''https''} \<or> transport = ''ws'' \<and> url_scheme u \<in> {''ws'', ''wss''})
     \<and> (\<exists>h. url_host_str u = Some h \<and> h \<noteq> []) \<and> url_username u = [] \<and> url_password u = None \<and> url_fragment u = None
     \<and> (has_headers \<longrightarrow> url_scheme u \<in> {''https'', ''wss''})"
  by (auto simp: validate_remote_endpoint_def Let_def and_then_Inr_iff fail_if_Inr_iff split: sum.splits option.splits)

lemma try_fold_pointwise:
  assumes "try_fold f s xs = Inr s'" "\<And>s x s'. f s x = Inr s' \<Longrightarrow> P x"
  shows "\<forall>x \<in> set xs. P x"
  using assms(1) by (induction xs arbitrary: s) (auto simp: and_then_Inr_iff dest: assms(2))

lemma validate_remote_headers_Inr:
  assumes "validate_remote_headers cfg = Inr ()"
  shows "\<forall>(name, env_name) \<in> set (srv_headers_from_env (cfg_server cfg)).
     is_http_token name \<and> \<not> is_managed_remote_header name \<and> is_portable_env_name env_name"
proof -
  obtain names where "try_fold (\<lambda>names (name, env_name).
          and_then (invalid_if (\<not> is_http_token name)
            (''server.headers_from_env: `'' @ name @ ''` is not a valid HTTP header name'')) (\<lambda>_.
          and_then (invalid_if (is_managed_remote_header (to_ascii_lowercase name))
            (''server.headers_from_env: `'' @ name @ ''` is managed by mcp-loadtest and cannot be overridden'')) (\<lambda>_.
          and_then (insert_fresh (\<lambda>_. [Txt (''server.headers_from_env: duplicate header name `'' @ name
            @ ''` (header names are case-insensitive)'')]) names (to_ascii_lowercase name)) (\<lambda>names'.
          and_then (invalid_if (\<not> is_portable_env_name env_name)
            (''server.headers_from_env: `'' @ env_name @ ''` is not a portable environment-variable name'')) (\<lambda>_.
          Inr names'))))) [] (srv_headers_from_env (cfg_server cfg)) = Inr names"
    using assms unfolding validate_remote_headers_def Let_def and_then_Inr_iff by blast
  then show ?thesis by (rule try_fold_pointwise) (auto simp: and_then_Inr_iff)
qed

lemma validate_auth_Inr:
  assumes "validate_auth parse cfg = Inr ()" "srv_auth (cfg_server cfg) = Some auth"
  shows "srv_transport (cfg_server cfg) \<in> {''http'', ''sse''}" "au_max_step_up_retries auth \<le> 3"
    "\<forall>scope \<in> set (au_scopes auth). scope \<noteq> [] \<and> \<not> has_whitespace scope"
    "au_registration auth = Reg_PreRegistered client_id (Some env_name) m \<Longrightarrow>
       str_trim client_id \<noteq> [] \<and> is_portable_env_name env_name"
proof -
  show "srv_transport (cfg_server cfg) \<in> {''http'', ''sse''}" "au_max_step_up_retries auth \<le> 3"
    using assms unfolding validate_auth_def and_then_Inr_iff by (auto simp: and_then_Inr_iff not_less)
  have "\<exists>s. try_fold (\<lambda>scopes scope.
              and_then (invalid_if (scope = [] \<or> has_whitespace scope)
                (''server.auth.scopes: `'' @ scope @ ''` must be a non-empty OAuth scope without whitespace'')) (\<lambda>_.
              insert_fresh (\<lambda>_. [Txt (''server.auth.scopes: duplicate scope `'' @ scope @ ''`'')]) scopes scope))
            [] (au_scopes auth) = Inr s"
    using assms unfolding validate_auth_def by (auto simp: and_then_Inr_iff)
  then show "\<forall>scope \<in> set (au_scopes auth). scope \<noteq> [] \<and> \<not> has_whitespace scope"
    by (elim exE) (erule try_fold_pointwise, auto simp: and_then_Inr_iff)
  show "au_registration auth = Reg_PreRegistered client_id (Some env_name) m \<Longrightarrow>
       str_trim client_id \<noteq> [] \<and> is_portable_env_name env_name"
    using assms unfolding validate_auth_def by (auto simp: and_then_Inr_iff)
qed

lemma validate_distributed_Inr:
  assumes "validate_distributed cfg = Inr ()" "cfg_distributed cfg = Some d"
  shows "2 \<le> length (di_agents d)" "srv_transport (cfg_server cfg) \<in> {''http'', ''sse'', ''ws''}"
    "0 < di_heartbeat_timeout d" "di_require_all_agents d"
    "srv_auth (cfg_server cfg) = Some auth \<Longrightarrow> au_flow auth = Flow_ClientCredentials \<and> \<not> au_offline_access auth"
  using assms unfolding validate_distributed_def by (auto simp: and_then_Inr_iff Let_def all_checked_def)

end
