(* ===== verification/Sse_Transport.thy ===== *)
theory Sse_Transport
  imports Sse_Parser Config "HOL-Library.Multiset"
begin

section \<open>The SSE transport\<close>

text \<open>
  \<open>SseTransport\<close> of \<open>crates/protocol/src/transport/sse.rs\<close> and the reader task of \<open>sse/reader.rs\<close>: the
  handshake, the task that parses the stream and forwards its messages under a budget of bytes, and the
  requests that take them. The task and the requests run concurrently; a schedule is a list of steps,
  each between two points where the code may be suspended. The HTTP client, the resolver, \<open>Url\<close>, JSON
  text and the capacity of a \<open>String\<close> are parameters. The stream of a connection is the list of all it
  will deliver: a reader that waits for a chunk is one that is not scheduled.
\<close>

subsection \<open>Constants\<close>

definition INBOUND_BYTE_BUDGET :: nat where
  "INBOUND_BYTE_BUDGET = 32 * 1024 * 1024"

definition READER_CHANNEL_CAP :: nat where
  "READER_CHANNEL_CAP = 64"

definition MAX_PENDING_FRAMES :: nat where
  "MAX_PENDING_FRAMES = 256"

definition DEFAULT_RECV_TIMEOUT :: duration where
  "DEFAULT_RECV_TIMEOUT = 60 * 10 ^ 9"

definition ENDPOINT_HANDSHAKE_TIMEOUT :: duration where
  "ENDPOINT_HANDSHAKE_TIMEOUT = 10 * 10 ^ 9"

subsection \<open>Terminal errors\<close>

fun show_reader_error :: "reader_terminal_error \<Rightarrow> string" where
  "show_reader_error RE_StreamRead = ''sse stream read/parse failure''"
| "show_reader_error RE_EventDataLimit = ''sse event data exceeds '' @ show_nat MAX_SSE_EVENT_DATA_BYTES @ ''-byte limit''"
| "show_reader_error RE_LineLimit = ''sse line exceeds '' @ show_nat MAX_SSE_LINE_BYTES @ ''-byte limit''"
| "show_reader_error RE_EventTypeLimit = ''sse event type exceeds '' @ show_nat MAX_EVENT_TYPE_BYTES @ ''-byte limit''"
| "show_reader_error RE_EventDataUtf8 = ''sse event data is not valid UTF-8''"
| "show_reader_error RE_EventTypeUtf8 = ''sse event type is not valid UTF-8''"
| "show_reader_error RE_UnexpectedEof = ''sse peer stream closed unexpectedly''"
| "show_reader_error RE_AggregateBudget = ''sse inbound frames exceed '' @ show_nat INBOUND_BYTE_BUDGET @ ''-byte aggregate budget''"
| "show_reader_error RE_AccountingOverflow = ''sse inbound frame accounting overflow''"

definition reader_transport_error :: "reader_terminal_error \<Rightarrow> transport_error" where
  "reader_transport_error e = TE_Other (show_reader_error e)"

subsection \<open>Frames and their identifiers\<close>

record inbound_frame =
  if_data :: string
  if_charge :: nat

text \<open>
  What the code takes from its platform: \<open>String::capacity\<close>, \<open>size_of::<InboundFrame>()\<close>, and the reading
  of a JSON text. Values that \<open>serde_json\<close> holds equal are equal here.
\<close>

record sse_env =
  se_capacity :: "string \<Rightarrow> nat"
  se_frame_size :: nat
  se_json :: "string \<Rightarrow> json option"

definition env_contract :: "sse_env \<Rightarrow> bool" where
  "env_contract E \<longleftrightarrow> (\<forall>s. length s \<le> se_capacity E s)"

definition inbound_frame_charge :: "sse_env \<Rightarrow> string \<Rightarrow> reader_terminal_error + nat" where
  "inbound_frame_charge E text =
     (let retained_bytes = max (min (se_capacity E text + se_frame_size E) (2 ^ 64 - 1)) 1 in
      if retained_bytes < 2 ^ 32 then Inr retained_bytes else Inl RE_AccountingOverflow)"

text \<open>The identifier of a frame: absent when the text is no \<open>IdProbe\<close>, or the member is missing or null.\<close>

definition id_probe :: "json \<Rightarrow> json option" where
  "id_probe j =
     (case j of
        JObject ms \<Rightarrow> (case de_unique ''id'' ms of Inr v \<Rightarrow> Some v | Inl _ \<Rightarrow> None)
      | JArray [v] \<Rightarrow> Some v
      | _ \<Rightarrow> None)"

definition extract_id :: "sse_env \<Rightarrow> string \<Rightarrow> json option" where
  "extract_id E frame = Option.bind (se_json E frame) (\<lambda>j. Option.bind (id_probe j) (\<lambda>v. if v = JNull then None else Some v))"

subsection \<open>The connection that the reader and the requests share\<close>

text \<open>
  The task parses, holds a frame or its last report until the channel has room for it, or has ended and
  dropped its sender. A frame in the channel, in the buffer or in the hands of the task keeps its permit.
\<close>

datatype reader_state = Rd_Parse | Rd_Send inbound_frame | Rd_Report transport_error | Rd_Done

record sse_conn =
  sc_parser :: sse_parser
  sc_reader :: reader_state
  sc_incoming :: "(transport_error + inbound_frame) list"
  sc_budget :: nat
  sc_terminal_error :: "reader_terminal_error option"
  sc_cancelled :: bool
  sc_pending :: "inbound_frame list"

definition sse_conn_new :: "sse_parser \<Rightarrow> sse_conn" where
  "sse_conn_new p = \<lparr>sc_parser = p, sc_reader = Rd_Parse, sc_incoming = [], sc_budget = INBOUND_BYTE_BUDGET,
     sc_terminal_error = None, sc_cancelled = False, sc_pending = []\<rparr>"

definition release :: "inbound_frame \<Rightarrow> sse_conn \<Rightarrow> sse_conn" where
  "release f c = c\<lparr>sc_budget := sc_budget c + if_charge f\<rparr>"

definition fail_if_reader_failed :: "sse_conn \<Rightarrow> transport_error + unit" where
  "fail_if_reader_failed c =
     (case sc_terminal_error c of Some e \<Rightarrow> Inl (reader_transport_error e) | None \<Rightarrow> Inr ())"

subsection \<open>The reader task\<close>

definition reader_fail :: "reader_terminal_error \<Rightarrow> transport_error \<Rightarrow> sse_conn \<Rightarrow> sse_conn" where
  "reader_fail e report c = c\<lparr>sc_terminal_error := Some e, sc_reader := Rd_Report report\<rparr>"

definition reader_event :: "sse_env \<Rightarrow> bounded_event \<Rightarrow> sse_conn \<Rightarrow> sse_conn" where
  "reader_event E ev c =
     (if be_event ev = ''message'' then
        (case inbound_frame_charge E (be_data ev) of
           Inl e \<Rightarrow> reader_fail e (reader_transport_error e) c
         | Inr charge \<Rightarrow>
             if charge \<le> sc_budget c
             then c\<lparr>sc_budget := sc_budget c - charge,
               sc_reader := Rd_Send \<lparr>if_data = be_data ev, if_charge = charge\<rparr>\<rparr>
             else reader_fail RE_AggregateBudget (reader_transport_error RE_AggregateBudget) c)
      else c)"

definition reader_turn :: "sse_env \<Rightarrow> sse_conn \<Rightarrow> sse_conn" where
  "reader_turn E c =
     (case next_event (sc_parser c) of
        (p, None) \<Rightarrow> c\<lparr>sc_parser := p\<rparr>
      | (p, Some (Inl e)) \<Rightarrow> reader_fail e (reader_transport_error e) (c\<lparr>sc_parser := p\<rparr>)
      | (p, Some (Inr None)) \<Rightarrow>
          if sc_cancelled c then c\<lparr>sc_parser := p, sc_reader := Rd_Done\<rparr>
          else reader_fail RE_UnexpectedEof TE_Closed (c\<lparr>sc_parser := p\<rparr>)
      | (p, Some (Inr (Some ev))) \<Rightarrow> reader_event E ev (c\<lparr>sc_parser := p\<rparr>))"

definition has_room :: "sse_conn \<Rightarrow> bool" where
  "has_room c \<longleftrightarrow> length (sc_incoming c) < READER_CHANNEL_CAP"

text \<open>One step of the task; \<open>stop\<close> is the choice of \<open>select!\<close> when it is also cancelled.\<close>

definition reader_step :: "sse_env \<Rightarrow> bool \<Rightarrow> sse_conn \<Rightarrow> sse_conn" where
  "reader_step E stop c =
     (case sc_reader c of
        Rd_Parse \<Rightarrow> if stop \<and> sc_cancelled c then c\<lparr>sc_reader := Rd_Done\<rparr> else reader_turn E c
      | Rd_Send f \<Rightarrow>
          if stop \<and> sc_cancelled c then release f (c\<lparr>sc_reader := Rd_Done\<rparr>)
          else if has_room c then c\<lparr>sc_incoming := sc_incoming c @ [Inr f], sc_reader := Rd_Parse\<rparr> else c
      | Rd_Report e \<Rightarrow>
          if stop \<and> sc_cancelled c then c\<lparr>sc_reader := Rd_Done\<rparr>
          else if has_room c then c\<lparr>sc_incoming := sc_incoming c @ [Inl e], sc_reader := Rd_Done\<rparr> else c
      | Rd_Done \<Rightarrow> c)"

subsection \<open>Requests\<close>

text \<open>What a POST comes to: the client's error, or the status of the response.\<close>

definition post_outcome :: "string + nat \<Rightarrow> transport_error + unit" where
  "post_outcome r =
     (case r of
        Inl e \<Rightarrow> Inl (TE_Http (''sse post: '' @ e))
      | Inr status \<Rightarrow> if 200 \<le> status \<and> status < 300 then Inr () else Inl (TE_Http (''sse post: status '' @ show_nat status)))"

type_synonym answer = "transport_error + string"

text \<open>Hand a frame to the caller, unless the reader has failed meanwhile.\<close>

definition deliver :: "inbound_frame \<Rightarrow> sse_conn \<Rightarrow> sse_conn \<times> answer" where
  "deliver f c = (release f c, and_then (fail_if_reader_failed c) (\<lambda>_. Inr (if_data f)))"

definition pending_position :: "sse_env \<Rightarrow> json option \<Rightarrow> sse_conn \<Rightarrow> nat option" where
  "pending_position E expected_id c =
     (let skipped = takeWhile (\<lambda>f. extract_id E (if_data f) \<noteq> expected_id) (sc_pending c) in
      if length skipped < length (sc_pending c) then Some (length skipped) else None)"

definition remove_pending :: "nat \<Rightarrow> sse_conn \<Rightarrow> sse_conn" where
  "remove_pending idx c = c\<lparr>sc_pending := take idx (sc_pending c) @ drop (Suc idx) (sc_pending c)\<rparr>"

text \<open>The part of \<open>request\<close> before it waits: an answer, or none yet.\<close>

definition request_begin :: "sse_env \<Rightarrow> json option \<Rightarrow> string + nat \<Rightarrow> sse_conn \<Rightarrow> sse_conn \<times> answer option" where
  "request_begin E expected_id posted c =
     (case post_outcome posted of
        Inl e \<Rightarrow> (c, Some (Inl e))
      | Inr _ \<Rightarrow>
          (case pending_position E expected_id c of
             None \<Rightarrow> (c, None)
           | Some idx \<Rightarrow>
               (case fail_if_reader_failed c of
                  Inl e \<Rightarrow> (c, Some (Inl e))
                | Inr _ \<Rightarrow> (case deliver (sc_pending c ! idx) (remove_pending idx c) of (c', a) \<Rightarrow> (c', Some a)))))"

definition pending_overflow :: transport_error where
  "pending_overflow = TE_Other (''sse transport: pending id-mismatch buffer hit '' @ show_nat MAX_PENDING_FRAMES
     @ '' frames without matching response '' @ [CHR 0xE2, CHR 0x80, CHR 0x94]
     @ '' server is misbehaving (flooding notifications?)'')"

text \<open>One receive of the waiting loop; none is made while the channel is empty and still open.\<close>

definition request_receive :: "sse_env \<Rightarrow> json option \<Rightarrow> sse_conn \<Rightarrow> sse_conn \<times> answer option" where
  "request_receive E expected_id c =
     (case sc_incoming c of
        [] \<Rightarrow> (c, if sc_reader c = Rd_Done then Some (Inl TE_Closed) else None)
      | Inl e # rest \<Rightarrow> (c\<lparr>sc_incoming := rest\<rparr>, Some (Inl e))
      | Inr f # rest \<Rightarrow>
          let c' = c\<lparr>sc_incoming := rest\<rparr> in
          if extract_id E (if_data f) = expected_id then (case deliver f c' of (c'', a) \<Rightarrow> (c'', Some a))
          else if MAX_PENDING_FRAMES \<le> length (sc_pending c) then (release f c', Some (Inl pending_overflow))
          else (c'\<lparr>sc_pending := sc_pending c @ [f]\<rparr>, None))"

subsection \<open>Schedules\<close>

text \<open>
  The caller of the transport has at most one request at a time. A request may be dropped where it waits,
  and its deadline passes only when its receive has found the channel empty and open.
\<close>

datatype caller = Caller_Idle | Caller_Waiting "json option"

record sse_run =
  sr_conn :: sse_conn
  sr_caller :: caller
  sr_answers :: "(json option \<times> answer) list"

datatype sse_label = L_Reader bool | L_Request "json option" "string + nat" | L_Receive | L_Timeout | L_Drop | L_Cancel

definition sse_run_new :: "sse_parser \<Rightarrow> sse_run" where
  "sse_run_new p = \<lparr>sr_conn = sse_conn_new p, sr_caller = Caller_Idle, sr_answers = []\<rparr>"

fun settle :: "json option \<Rightarrow> sse_conn \<times> answer option \<Rightarrow> sse_run \<Rightarrow> sse_run" where
  "settle i (c, None) s = s\<lparr>sr_conn := c, sr_caller := Caller_Waiting i\<rparr>"
| "settle i (c, Some a) s = s\<lparr>sr_conn := c, sr_caller := Caller_Idle, sr_answers := sr_answers s @ [(i, a)]\<rparr>"

definition channel_quiet :: "sse_conn \<Rightarrow> bool" where
  "channel_quiet c \<longleftrightarrow> sc_incoming c = [] \<and> sc_reader c \<noteq> Rd_Done"

definition waited :: "(json option \<Rightarrow> sse_run) \<Rightarrow> sse_run \<Rightarrow> sse_run" where
  "waited k s = (case sr_caller s of Caller_Idle \<Rightarrow> s | Caller_Waiting i \<Rightarrow> k i)"

fun sse_step :: "sse_env \<Rightarrow> sse_run \<Rightarrow> sse_label \<Rightarrow> sse_run" where
  "sse_step E s (L_Reader stop) = s\<lparr>sr_conn := reader_step E stop (sr_conn s)\<rparr>"
| "sse_step E s (L_Request i posted) =
     (if sr_caller s = Caller_Idle then settle i (request_begin E i posted (sr_conn s)) s else s)"
| "sse_step E s L_Receive = waited (\<lambda>i. settle i (request_receive E i (sr_conn s)) s) s"
| "sse_step E s L_Timeout = waited (\<lambda>i. if channel_quiet (sr_conn s)
     then settle i (sr_conn s, Some (Inl (TE_Timeout DEFAULT_RECV_TIMEOUT))) s else s) s"
| "sse_step E s L_Drop = s\<lparr>sr_caller := Caller_Idle\<rparr>"
| "sse_step E s L_Cancel = s\<lparr>sr_conn := (sr_conn s)\<lparr>sc_cancelled := True\<rparr>\<rparr>"

definition sse_steps :: "sse_env \<Rightarrow> sse_run \<Rightarrow> sse_label list \<Rightarrow> sse_run" where
  "sse_steps E s ls = foldl (sse_step E) s ls"

subsection \<open>What the connection holds\<close>

definition reader_frames :: "sse_conn \<Rightarrow> inbound_frame list" where
  "reader_frames c = (case sc_reader c of Rd_Send f \<Rightarrow> [f] | _ \<Rightarrow> [])"

definition channel_frames :: "(transport_error + inbound_frame) list \<Rightarrow> inbound_frame list" where
  "channel_frames xs = concat (map (\<lambda>x. case x of Inr f \<Rightarrow> [f] | Inl _ \<Rightarrow> []) xs)"

definition held_frames :: "sse_conn \<Rightarrow> inbound_frame multiset" where
  "held_frames c = mset (channel_frames (sc_incoming c)) + mset (sc_pending c) + mset (reader_frames c)"

definition message_texts :: "bounded_event list \<Rightarrow> string list" where
  "message_texts evs = map be_data (filter (\<lambda>ev. be_event ev = ''message'') evs)"

definition reading :: "sse_conn \<Rightarrow> bool" where
  "reading c \<longleftrightarrow> sc_reader c = Rd_Parse \<or> (\<exists>f. sc_reader c = Rd_Send f)"

definition unread :: "sse_conn \<Rightarrow> string multiset" where
  "unread c = (if reading c then mset (message_texts (fst (sse_events (sc_parser c)))) else {#})"

definition answered :: "(json option \<times> answer) list \<Rightarrow> string multiset" where
  "answered as = mset (concat (map (\<lambda>(_, a). case a of Inr t \<Rightarrow> [t] | Inl _ \<Rightarrow> []) as))"

lemma channel_frames_simps [simp]:
  "channel_frames [] = []" "channel_frames (Inr f # xs) = f # channel_frames xs"
  "channel_frames (Inl e # xs) = channel_frames xs" "channel_frames (xs @ ys) = channel_frames xs @ channel_frames ys"
  by (simp_all add: channel_frames_def)

lemma reader_frames_simps [simp]:
  "sc_reader c = Rd_Parse \<Longrightarrow> reader_frames c = []" "sc_reader c = Rd_Send f \<Longrightarrow> reader_frames c = [f]"
  "sc_reader c = Rd_Report e \<Longrightarrow> reader_frames c = []" "sc_reader c = Rd_Done \<Longrightarrow> reader_frames c = []"
  by (simp_all add: reader_frames_def)

lemma message_texts_simps [simp]:
  "message_texts [] = []"
  "message_texts (ev # evs) = (if be_event ev = ''message'' then be_data ev # message_texts evs else message_texts evs)"
  by (simp_all add: message_texts_def)

lemma answered_simps [simp]:
  "answered [] = {#}" "answered (as @ [(i, Inr t)]) = add_mset t (answered as)"
  "answered (as @ [(i, Inl e)]) = answered as"
  by (simp_all add: answered_def)

lemma release_simps [simp]:
  "sc_incoming (release f c) = sc_incoming c" "sc_pending (release f c) = sc_pending c"
  "sc_reader (release f c) = sc_reader c" "sc_budget (release f c) = sc_budget c + if_charge f"
  "sc_parser (release f c) = sc_parser c" "sc_terminal_error (release f c) = sc_terminal_error c"
  "sc_cancelled (release f c) = sc_cancelled c"
  by (simp_all add: release_def)

lemma frame_charge_covers:
  assumes "env_contract E" "inbound_frame_charge E t = Inr n"
  shows "length t \<le> n"
proof -
  have "length t \<le> se_capacity E t" using assms(1) by (simp add: env_contract_def)
  moreover have "se_capacity E t + se_frame_size E \<le> n"
    using assms(2) by (auto simp: inbound_frame_charge_def Let_def max_def min_def split: if_splits)
  ultimately show ?thesis by linarith
qed

subsection \<open>Invariants of a schedule\<close>

definition conn_inv :: "sse_env \<Rightarrow> sse_conn \<Rightarrow> bool" where
  "conn_inv E c \<longleftrightarrow> sc_budget c + sum_mset (image_mset if_charge (held_frames c)) = INBOUND_BYTE_BUDGET
     \<and> (\<forall>f \<in># held_frames c. inbound_frame_charge E (if_data f) = Inr (if_charge f))
     \<and> length (sc_incoming c) \<le> READER_CHANNEL_CAP \<and> length (sc_pending c) \<le> MAX_PENDING_FRAMES
     \<and> (\<not> reading c \<longrightarrow> \<not> sc_cancelled c \<longrightarrow> sc_terminal_error c \<noteq> None)"

lemma pending_position_Some:
  assumes "pending_position E i c = Some n"
  shows "n < length (sc_pending c)" "extract_id E (if_data (sc_pending c ! n)) = i"
    "mset (sc_pending c) = add_mset (sc_pending c ! n) (mset (sc_pending (remove_pending n c)))"
proof -
  let ?P = "\<lambda>f. extract_id E (if_data f) \<noteq> i"
  have n: "n = length (takeWhile ?P (sc_pending c))" "n < length (sc_pending c)"
    using assms by (auto simp: pending_position_def Let_def split: if_splits)
  show "n < length (sc_pending c)" by (rule n(2))
  show "extract_id E (if_data (sc_pending c ! n)) = i" using nth_length_takeWhile [of ?P "sc_pending c"] n by simp
  have "mset (sc_pending c) = mset (take n (sc_pending c) @ sc_pending c ! n # drop (Suc n) (sc_pending c))"
    by (rule arg_cong [OF id_take_nth_drop [OF n(2)]])
  then show "mset (sc_pending c) = add_mset (sc_pending c ! n) (mset (sc_pending (remove_pending n c)))"
    by (simp add: remove_pending_def)
qed

lemma chunk_turns_go: "bom_turn c q \<noteq> (r, Await_Stream)" "chunk_turn c q \<noteq> (r, Await_Stream)"
  by (auto simp: bom_turn_def chunk_turn_def segment_turn_def turn_of_def Let_def
      split: option.splits if_splits prod.splits sum.splits)

lemma next_turn_waits:
  assumes w: "next_turn q = (r, Await_Stream)"
  shows "r = q"
proof (cases "sp_chunk q")
  case None
  have eof: "\<not> sp_eof q" using w eof_turn_returns(2) [of q r] None by (auto simp: next_turn_def)
  show ?thesis
  proof (cases "sp_stream q")
    case (Cons item items)
    then show ?thesis using w None eof by (cases item) (simp_all add: next_turn_def)
  qed (use w None eof in \<open>simp add: next_turn_def\<close>)
next
  case (Some c)
  then show ?thesis using w chunk_turns_go by (simp add: next_turn_def split: if_splits)
qed

lemma next_event_waits: "next_event q = (q', None) \<Longrightarrow> next_event q' = (q', None)"
proof (induction q rule: next_event.induct)
  case (1 q)
  obtain r t where n: "next_turn q = (r, t)" by fastforce
  show ?case
  proof (cases t)
    case Go_On
    then have "next_event r = (q', None)" using 1(2) n by (simp add: next_event.simps [of q])
    then show ?thesis using 1(1) [OF n [symmetric] Go_On] by simp
  next
    case Await_Stream
    have "r = q" using n Await_Stream by (simp add: next_turn_waits)
    then have q: "next_event q = (q, None)" using n Await_Stream by (subst next_event.simps) simp
    then have "q' = q" using 1(2) by simp
    then show ?thesis using q by simp
  qed (use 1(2) n in \<open>simp add: next_event.simps [of q]\<close>)
qed

lemma sse_events_next:
  assumes "next_event q = (q', Some (Inr (Some ev)))"
  shows "fst (sse_events q) = ev # fst (sse_events q')"
  by (subst sse_events.simps) (simp add: assms split_beta)

lemma sse_events_waits:
  assumes "next_event q = (q', None)"
  shows "fst (sse_events q') = []" "fst (sse_events q) = []"
  by (subst sse_events.simps, simp add: assms next_event_waits [OF assms])+

text \<open>What is held and what is still to be read; a step loses some of it or none.\<close>

definition at_hand :: "sse_conn \<Rightarrow> string multiset" where
  "at_hand c = image_mset if_data (held_frames c) + unread c"

lemmas conn_defs = conn_inv_def at_hand_def held_frames_def unread_def reading_def

lemma reader_fail_keeps:
  assumes "conn_inv E c" "sc_reader c = Rd_Parse"
  shows "conn_inv E (reader_fail e r (c\<lparr>sc_parser := p\<rparr>))" "at_hand (reader_fail e r (c\<lparr>sc_parser := p\<rparr>)) \<subseteq># at_hand c"
  using assms by (simp_all add: conn_defs reader_fail_def)

lemma reader_event_keeps:
  assumes "conn_inv E c" "sc_reader c = Rd_Parse" "next_event (sc_parser c) = (p, Some (Inr (Some ev)))"
  shows "conn_inv E (reader_event E ev (c\<lparr>sc_parser := p\<rparr>))" "at_hand (reader_event E ev (c\<lparr>sc_parser := p\<rparr>)) \<subseteq># at_hand c"
proof -
  have "conn_inv E (reader_event E ev (c\<lparr>sc_parser := p\<rparr>)) \<and> at_hand (reader_event E ev (c\<lparr>sc_parser := p\<rparr>)) \<subseteq># at_hand c"
  proof (cases "be_event ev = ''message''")
    case False
    then show ?thesis using assms sse_events_next [OF assms(3)] by (simp add: conn_defs reader_event_def)
  next
    case msg: True
    show ?thesis
    proof (cases "inbound_frame_charge E (be_data ev)")
      case (Inl e)
      then show ?thesis using msg reader_fail_keeps [OF assms(1,2)] by (simp add: reader_event_def)
    next
      case (Inr n)
      show ?thesis
      proof (cases "n \<le> sc_budget c")
        case True
        then show ?thesis using msg Inr assms sse_events_next [OF assms(3)] by (auto simp: conn_defs reader_event_def)
      next
        case False
        then show ?thesis using msg Inr reader_fail_keeps [OF assms(1,2)] by (simp add: reader_event_def)
      qed
    qed
  qed
  then show "conn_inv E (reader_event E ev (c\<lparr>sc_parser := p\<rparr>))" "at_hand (reader_event E ev (c\<lparr>sc_parser := p\<rparr>)) \<subseteq># at_hand c"
    by auto
qed

lemma reader_step_keeps:
  assumes "conn_inv E c"
  shows "conn_inv E (reader_step E stop c) \<and> at_hand (reader_step E stop c) \<subseteq># at_hand c"
proof (cases "stop \<and> sc_cancelled c \<or> sc_reader c = Rd_Done")
  case True
  then show ?thesis using assms
    by (cases "sc_reader c") (auto simp: reader_step_def conn_defs)
next
  case False
  show ?thesis
  proof (cases "sc_reader c")
    case Rd_Parse
    obtain p r where n: "next_event (sc_parser c) = (p, r)" by fastforce
    then have step: "reader_step E stop c = reader_turn E c" using False Rd_Parse by (auto simp: reader_step_def)
    consider "r = None" | e where "r = Some (Inl e)" | "r = Some (Inr None)" | ev where "r = Some (Inr (Some ev))"
      by (metis not_None_eq sum.exhaust)
    then show ?thesis
    proof cases
      case 1
      then show ?thesis using n assms Rd_Parse sse_events_waits by (simp add: step reader_turn_def conn_defs)
    next
      case 2
      then show ?thesis using n reader_fail_keeps [OF assms Rd_Parse] by (simp add: step reader_turn_def)
    next
      case 3
      then show ?thesis using n assms Rd_Parse reader_fail_keeps [OF assms Rd_Parse]
        by (simp add: step reader_turn_def) (simp add: conn_defs)
    next
      case 4
      then show ?thesis using n reader_event_keeps [OF assms Rd_Parse] by (simp add: step reader_turn_def)
    qed
  qed (use False assms in \<open>auto simp: reader_step_def conn_defs has_room_def\<close>)
qed

lemma deliver_keeps:
  assumes "conn_inv E c" "c' = c\<lparr>sc_incoming := xs, sc_pending := ys\<rparr>" "held_frames c = add_mset f (held_frames c')"
    "length xs \<le> READER_CHANNEL_CAP" "length ys \<le> MAX_PENDING_FRAMES"
  shows "conn_inv E (release f c')" "at_hand c = add_mset (if_data f) (at_hand (release f c'))"
proof -
  have held: "held_frames (release f c') = held_frames c'" by (simp add: held_frames_def reader_frames_def)
  have same: "reading (release f c') = reading c" "sc_parser c' = sc_parser c" "sc_parser (release f c') = sc_parser c"
    "sc_cancelled (release f c') = sc_cancelled c" "sc_terminal_error (release f c') = sc_terminal_error c"
    "sc_budget (release f c') = sc_budget c + if_charge f" "sc_incoming (release f c') = xs" "sc_pending (release f c') = ys"
    by (simp_all add: assms(2) reading_def)
  show "conn_inv E (release f c')"
    using assms(1,3-5) unfolding conn_inv_def held same by auto
  show "at_hand c = add_mset (if_data f) (at_hand (release f c'))"
    using assms(3) by (simp add: at_hand_def held unread_def same)
qed

text \<open>A request's answer: the frame it hands over leaves the connection, or nothing is handed over.\<close>

definition answers_from :: "sse_env \<Rightarrow> json option \<Rightarrow> sse_conn \<Rightarrow> sse_conn \<times> answer option \<Rightarrow> bool" where
  "answers_from E i c r \<longleftrightarrow> (case r of (c', a) \<Rightarrow> conn_inv E c'
     \<and> (case a of
          Some (Inr t) \<Rightarrow> add_mset t (at_hand c') \<subseteq># at_hand c \<and> extract_id E t = i \<and> sc_terminal_error c = None
        | _ \<Rightarrow> at_hand c' \<subseteq># at_hand c)
     \<and> sc_terminal_error c' = sc_terminal_error c \<and> sc_reader c' = sc_reader c \<and> sc_cancelled c' = sc_cancelled c
     \<and> sc_parser c' = sc_parser c)"

lemma deliver_answers:
  assumes "conn_inv E c" "c' = c\<lparr>sc_incoming := xs, sc_pending := ys\<rparr>" "held_frames c = add_mset f (held_frames c')"
    "length xs \<le> READER_CHANNEL_CAP" "length ys \<le> MAX_PENDING_FRAMES" "extract_id E (if_data f) = i"
  shows "answers_from E i c (case deliver f c' of (c'', a) \<Rightarrow> (c'', Some a))"
  using deliver_keeps [OF assms(1-5)] assms(2,6)
  by (auto simp: answers_from_def deliver_def fail_if_reader_failed_def split: option.splits)

lemma request_begin_answers:
  assumes "conn_inv E c"
  shows "answers_from E i c (request_begin E i posted c)"
proof (cases "post_outcome posted")
  case posted: (Inr u)
  show ?thesis
  proof (cases "pending_position E i c")
    case (Some n)
    note P = pending_position_Some [OF Some]
    have c': "remove_pending n c = c\<lparr>sc_incoming := sc_incoming c, sc_pending := sc_pending (remove_pending n c)\<rparr>"
      by (simp add: remove_pending_def)
    have "held_frames c = add_mset (sc_pending c ! n) (held_frames (remove_pending n c))"
      using P(3) by (simp add: held_frames_def reader_frames_def) (simp add: remove_pending_def)
    moreover have "length (sc_pending (remove_pending n c)) \<le> length (sc_pending c)"
      by (simp add: remove_pending_def min_def)
    ultimately have "answers_from E i c (case deliver (sc_pending c ! n) (remove_pending n c) of (c'', a) \<Rightarrow> (c'', Some a))"
      using assms P(2) by (intro deliver_answers [OF assms c']) (auto simp: conn_inv_def)
    moreover have "answers_from E i c (c, Some (Inl e))" for e using assms by (simp add: answers_from_def)
    ultimately show ?thesis using posted Some by (simp add: request_begin_def split: sum.split)
  qed (use assms posted in \<open>simp add: request_begin_def answers_from_def\<close>)
qed (use assms in \<open>simp add: request_begin_def answers_from_def\<close>)

lemma request_receive_answers:
  assumes "conn_inv E c"
  shows "answers_from E i c (request_receive E i c)"
proof (cases "sc_incoming c")
  case Nil
  then show ?thesis using assms by (simp add: request_receive_def answers_from_def)
next
  case (Cons x rest)
  show ?thesis
  proof (cases x)
    case (Inl e)
    then show ?thesis using assms Cons by (simp add: request_receive_def answers_from_def conn_defs reader_frames_def)
  next
    case (Inr f)
    let ?c = "c\<lparr>sc_incoming := rest\<rparr>"
    have c': "?c = c\<lparr>sc_incoming := rest, sc_pending := sc_pending c\<rparr>" by simp
    have held: "held_frames c = add_mset f (held_frames ?c)"
      using Cons Inr by (simp add: held_frames_def reader_frames_def)
    have len: "length rest \<le> READER_CHANNEL_CAP" "length (sc_pending c) \<le> MAX_PENDING_FRAMES"
      using assms Cons by (simp_all add: conn_inv_def)
    note keeps = deliver_keeps [OF assms c' held len]
    consider "extract_id E (if_data f) = i" | "extract_id E (if_data f) \<noteq> i" "MAX_PENDING_FRAMES \<le> length (sc_pending c)"
      | "extract_id E (if_data f) \<noteq> i" "length (sc_pending c) < MAX_PENDING_FRAMES" by linarith
    then show ?thesis
    proof cases
      case 1
      then show ?thesis using deliver_answers [OF assms c' held len 1] Cons Inr by (simp add: request_receive_def)
    next
      case 2
      then show ?thesis using keeps Cons Inr by (simp add: request_receive_def answers_from_def)
    next
      case 3
      let ?d = "?c\<lparr>sc_pending := sc_pending c @ [f]\<rparr>"
      have same: "held_frames ?d = held_frames c" using held by (simp add: held_frames_def reader_frames_def)
      have rest: "reading ?d = reading c" "unread ?d = unread c" by (simp_all add: reading_def unread_def)
      have "conn_inv E ?d" using assms 3(2) len(1) unfolding conn_inv_def same rest by simp
      moreover have "at_hand ?d = at_hand c" by (simp add: at_hand_def same rest)
      ultimately show ?thesis using 3 Cons Inr by (simp add: request_receive_def answers_from_def Let_def)
    qed
  qed
qed

definition run_inv :: "sse_env \<Rightarrow> sse_parser \<Rightarrow> sse_run \<Rightarrow> bool" where
  "run_inv E p s \<longleftrightarrow> conn_inv E (sr_conn s)
     \<and> answered (sr_answers s) + at_hand (sr_conn s) \<subseteq># mset (message_texts (fst (sse_events p)))
     \<and> (\<forall>(i, a) \<in> set (sr_answers s). \<forall>t. a = Inr t \<longrightarrow> extract_id E t = i)"

lemma run_inv_new: "run_inv E p (sse_run_new p)"
  by (simp add: run_inv_def sse_run_new_def sse_conn_new_def conn_defs)

lemma at_hand_shrinks: "as + h \<subseteq># (M :: 'a multiset) \<Longrightarrow> h' \<subseteq># h \<Longrightarrow> as + h' \<subseteq># M"
  by (meson subset_mset.add_left_mono subset_mset.order_trans)

lemma run_inv_conn:
  assumes "run_inv E p s" "conn_inv E c" "at_hand c \<subseteq># at_hand (sr_conn s)" "sr_answers s' = sr_answers s" "sr_conn s' = c"
  shows "run_inv E p s'"
  using assms at_hand_shrinks [OF _ assms(3)] by (simp add: run_inv_def)

lemma settle_inv:
  assumes "run_inv E p s" "answers_from E i (sr_conn s) r"
  shows "run_inv E p (settle i r s)"
proof -
  obtain c a where r: "r = (c, a)" by (cases r)
  show ?thesis
  proof (cases "\<exists>t. a = Some (Inr t)")
    case True
    then obtain t where t: "a = Some (Inr t)" by blast
    then have f: "conn_inv E c" "add_mset t (at_hand c) \<subseteq># at_hand (sr_conn s)" "extract_id E t = i"
      using assms(2) r by (simp_all add: answers_from_def)
    have "answered (sr_answers s) + add_mset t (at_hand c) \<subseteq># mset (message_texts (fst (sse_events p)))"
      by (rule at_hand_shrinks [OF _ f(2)]) (use assms(1) in \<open>simp add: run_inv_def\<close>)
    then show ?thesis using assms(1) f(1,3) t r by (auto simp: run_inv_def)
  next
    case False
    then have f: "conn_inv E c" "at_hand c \<subseteq># at_hand (sr_conn s)"
      using assms(2) r by (auto simp: answers_from_def split: option.splits sum.splits)
    have "answered (sr_answers s) + at_hand c \<subseteq># mset (message_texts (fst (sse_events p)))"
      by (rule at_hand_shrinks [OF _ f(2)]) (use assms(1) in \<open>simp add: run_inv_def\<close>)
    moreover have "a = None \<or> (\<exists>e. a = Some (Inl e))" using False by (metis not_None_eq sum.exhaust)
    ultimately show ?thesis using assms(1) f(1) r by (elim disjE exE) (simp_all add: run_inv_def)
  qed
qed

lemma cancel_keeps:
  "conn_inv E c \<Longrightarrow> conn_inv E (c\<lparr>sc_cancelled := True\<rparr>) \<and> at_hand (c\<lparr>sc_cancelled := True\<rparr>) = at_hand c"
  by (simp add: conn_defs reader_frames_def)

lemma sse_step_inv: "run_inv E p s \<Longrightarrow> run_inv E p (sse_step E s l)"
proof (cases l)
  case (L_Reader stop)
  assume inv: "run_inv E p s"
  then have "conn_inv E (sr_conn s)" by (simp add: run_inv_def)
  from reader_step_keeps [OF this] show ?thesis
    using L_Reader by (intro run_inv_conn [OF inv]) auto
next
  case (L_Request i posted)
  assume inv: "run_inv E p s"
  then have "conn_inv E (sr_conn s)" by (simp add: run_inv_def)
  then show ?thesis using L_Request inv settle_inv [OF inv request_begin_answers] by simp
next
  case L_Receive
  assume inv: "run_inv E p s"
  then have "conn_inv E (sr_conn s)" by (simp add: run_inv_def)
  then show ?thesis using L_Receive inv settle_inv [OF inv request_receive_answers]
    by (simp add: waited_def split: caller.split)
next
  case L_Timeout
  assume inv: "run_inv E p s"
  then have "answers_from E i (sr_conn s) (sr_conn s, Some (Inl e))" for i e
    by (simp add: run_inv_def answers_from_def)
  then show ?thesis using L_Timeout inv settle_inv [OF inv] by (simp add: waited_def del: settle.simps split: caller.split)
next
  case L_Drop
  assume inv: "run_inv E p s"
  then show ?thesis using L_Drop by (simp add: run_inv_def)
next
  case L_Cancel
  assume inv: "run_inv E p s"
  then have "conn_inv E (sr_conn s)" by (simp add: run_inv_def)
  from cancel_keeps [OF this] show ?thesis using L_Cancel by (intro run_inv_conn [OF inv]) auto
qed

lemma sse_steps_inv: "run_inv E p s \<Longrightarrow> run_inv E p (sse_steps E s ls)"
  by (induction ls arbitrary: s) (simp_all add: sse_steps_def sse_step_inv)

lemma sse_steps_simps [simp]:
  "sse_steps E s [] = s" "sse_steps E s (l # ls) = sse_steps E (sse_step E s l) ls"
  "sse_steps E s (ls @ ls') = sse_steps E (sse_steps E s ls) ls'"
  by (simp_all add: sse_steps_def)

subsection \<open>After the reader has failed\<close>

lemma reader_step_failed:
  "sc_terminal_error c \<noteq> None \<Longrightarrow> sc_terminal_error (reader_step E stop c) \<noteq> None"
  by (auto simp: reader_step_def reader_turn_def reader_event_def reader_fail_def
      split: reader_state.splits prod.splits option.splits sum.splits)

definition answers_fail :: "(json option \<times> answer) list \<Rightarrow> bool" where
  "answers_fail as \<longleftrightarrow> list_all (\<lambda>(_, a). \<exists>e. a = Inl e) as"

lemma settle_failed:
  assumes "answers_from E i (sr_conn s) r" "sc_terminal_error (sr_conn s) \<noteq> None"
  shows "sc_terminal_error (sr_conn (settle i r s)) \<noteq> None
    \<and> (\<exists>new. sr_answers (settle i r s) = sr_answers s @ new \<and> answers_fail new)"
proof -
  obtain c a where r: "r = (c, a)" by (cases r)
  have "a = None \<or> (\<exists>e. a = Some (Inl e))" "sc_terminal_error c \<noteq> None"
    using assms r by (auto simp: answers_from_def split: option.splits sum.splits)
  then show ?thesis using r by (auto simp: answers_fail_def)
qed

lemma sse_step_failed:
  assumes "run_inv E p s" "sc_terminal_error (sr_conn s) \<noteq> None"
  shows "sc_terminal_error (sr_conn (sse_step E s l)) \<noteq> None
    \<and> (\<exists>new. sr_answers (sse_step E s l) = sr_answers s @ new \<and> answers_fail new)"
proof -
  have inv: "conn_inv E (sr_conn s)" using assms(1) by (simp add: run_inv_def)
  have none: "answers_fail []" by (simp add: answers_fail_def)
  have stop: "answers_from E i (sr_conn s) (sr_conn s, Some (Inl e))" for i e
    using inv by (simp add: answers_from_def)
  note F = settle_failed [OF _ assms(2)]
  show ?thesis
  proof (cases l)
    case (L_Reader stop)
    then show ?thesis using reader_step_failed [OF assms(2)] none by auto
  next
    case (L_Request i posted)
    then show ?thesis using F [OF request_begin_answers [OF inv]] assms(2) none by auto
  next
    case L_Receive
    then show ?thesis using F [OF request_receive_answers [OF inv]] assms(2) none
      by (auto simp: waited_def split: caller.split)
  next
    case L_Timeout
    then show ?thesis using F [OF stop] assms(2) none by (auto simp: waited_def simp del: settle.simps split: caller.split)
  qed (use assms(2) none in auto)
qed

lemma sse_steps_failed:
  assumes "run_inv E p s" "sc_terminal_error (sr_conn s) \<noteq> None"
  shows "\<exists>new. sr_answers (sse_steps E s ls) = sr_answers s @ new \<and> answers_fail new"
  using assms
proof (induction ls arbitrary: s)
  case (Cons l ls)
  obtain new where 1: "sr_answers (sse_step E s l) = sr_answers s @ new" "answers_fail new"
    "sc_terminal_error (sr_conn (sse_step E s l)) \<noteq> None"
    using sse_step_failed [OF Cons.prems] by blast
  from Cons.IH [OF sse_step_inv [OF Cons.prems(1)] 1(3)] obtain new'
    where "sr_answers (sse_steps E (sse_step E s l) ls) = sr_answers (sse_step E s l) @ new'" "answers_fail new'" by blast
  then show ?case using 1 by (intro exI [of _ "new @ new'"]) (simp add: answers_fail_def)
qed (simp add: answers_fail_def)

text \<open>A request that waits when the task has ended is answered within the frames that are left.\<close>

lemma request_receive_shrinks:
  assumes "sc_reader c = Rd_Done" "request_receive E i c = (c', None)"
  shows "length (sc_incoming c') < length (sc_incoming c)" "sc_reader c' = Rd_Done"
  using assms by (auto simp: request_receive_def deliver_def Let_def split: list.splits sum.splits if_splits)

lemma request_receive_timeless:
  assumes "request_receive E i c = (c', Some (Inl e))" "Inl (TE_Timeout d) \<notin> set (sc_incoming c)"
  shows "e \<noteq> TE_Timeout d"
  using assms
  by (auto simp: request_receive_def deliver_def Let_def fail_if_reader_failed_def reader_transport_error_def
      pending_overflow_def split: list.splits sum.splits if_splits option.splits)

lemma closed_receives:
  assumes "sr_caller s = Caller_Waiting i" "sc_reader (sr_conn s) = Rd_Done" "length (sc_incoming (sr_conn s)) < n"
  shows "\<exists>a s'. sse_steps E s (replicate n L_Receive) = s' \<and> sr_caller s' = Caller_Idle \<and> sr_answers s' = sr_answers s @ [(i, a)]"
  using assms
proof (induction n arbitrary: s)
  case (Suc n)
  obtain c a where r: "request_receive E i (sr_conn s) = (c, a)" by fastforce
  have step: "sse_step E s L_Receive = settle i (c, a) s" using Suc.prems(1) r by (simp add: waited_def)
  show ?case
  proof (cases a)
    case None
    then have "sr_caller (settle i (c, a) s) = Caller_Waiting i" "sc_reader (sr_conn (settle i (c, a) s)) = Rd_Done"
      "length (sc_incoming (sr_conn (settle i (c, a) s))) < n"
      using request_receive_shrinks [OF Suc.prems(2), of E i c] r Suc.prems(3) by auto
    from Suc.IH [OF this] show ?thesis using None step by simp
  next
    case (Some b)
    have idle: "sse_steps E s' (replicate n L_Receive) = s'" if "sr_caller s' = Caller_Idle" for s'
      using that by (induction n) (simp_all add: waited_def)
    show ?thesis using idle [of "settle i (c, a) s"] Some step by simp
  qed
qed simp

subsection \<open>The handshake\<close>

text \<open>
  What \<open>connect_with_headers\<close> takes from the \<open>url\<close> and \<open>reqwest\<close> crates and the resolver. Building a
  client and sending the GET may fail with an error of theirs; a response is its status, the reason and
  the content type, where it is text.
\<close>

record http_head =
  hh_status :: nat
  hh_reason :: "string option"
  hh_content_type :: "string option"

record connect_env =
  ce_parse :: "string \<Rightarrow> string + url"
  ce_join :: "url \<Rightarrow> string \<Rightarrow> url option"
  ce_resolve :: resolver
  ce_client :: "url \<Rightarrow> socket_addr list \<Rightarrow> transport_error + unit"
  ce_get :: "url \<Rightarrow> socket_addr list \<Rightarrow> string + http_head"

definition same_origin :: "url \<Rightarrow> url \<Rightarrow> bool" where
  "same_origin left right \<longleftrightarrow> url_scheme left = url_scheme right \<and> url_host_str left = url_host_str right
     \<and> url_port_or_known_default left = url_port_or_known_default right"

definition check_handshake :: "http_head \<Rightarrow> transport_error + unit" where
  "check_handshake h =
     and_then (fail_if (\<not> (200 \<le> hh_status h \<and> hh_status h < 300))
       (TE_Http (''sse handshake: '' @ show_nat (hh_status h) @ '' '' @ (case hh_reason h of Some r \<Rightarrow> r | None \<Rightarrow> [])))) (\<lambda>_.
     let ctype = to_ascii_lowercase (case hh_content_type h of Some t \<Rightarrow> t | None \<Rightarrow> []) in
     fail_if (\<not> contains_text ''text/event-stream'' ctype)
       (TE_Http (''sse handshake: unexpected content-type `'' @ ctype @ ''`'')))"

text \<open>The events up to the first \<open>endpoint\<close>; the time is up when the stream has nothing more by then.\<close>

function await_endpoint :: "sse_parser \<Rightarrow> transport_error + sse_parser \<times> string" where
  "await_endpoint p =
     (case next_event p of
        (p', None) \<Rightarrow> Inl (TE_Timeout ENDPOINT_HANDSHAKE_TIMEOUT)
      | (p', Some (Inl e)) \<Rightarrow> Inl (reader_transport_error e)
      | (p', Some (Inr None)) \<Rightarrow> Inl TE_Closed
      | (p', Some (Inr (Some ev))) \<Rightarrow>
          if be_event ev = ''endpoint'' then Inr (p', be_data ev) else await_endpoint p')"
  by pat_completeness auto
termination
  by (relation "measure work_left") (auto dest!: next_event_work [OF sym])

declare await_endpoint.simps [simp del]

record sse_transport =
  tr_sse_addrs :: "socket_addr list"
  tr_post_url :: url
  tr_post_addrs :: "socket_addr list"
  tr_run :: sse_run

definition vet_endpoint :: "connect_env \<Rightarrow> host_guard \<Rightarrow> bool \<Rightarrow> url \<Rightarrow> string \<Rightarrow> transport_error + url \<times> socket_addr list" where
  "vet_endpoint C g has_headers sse_url endpoint =
     and_then (ok_or (TE_Other ''invalid SSE endpoint URL'') (ce_join C sse_url (str_trim endpoint))) (\<lambda>joined.
     and_then (map_err TE_Other (validate_remote_endpoint (ce_parse C) (url_display joined) ''sse'' has_headers)) (\<lambda>post_url.
     and_then (fail_if (has_headers \<and> \<not> same_origin sse_url post_url)
       (TE_Other ''sse endpoint changed origin; refusing to forward secret-backed remote headers'')) (\<lambda>_.
     and_then (resolve_and_check_with post_url g (ce_resolve C)) (\<lambda>post_addrs.
     and_then (ce_client C post_url post_addrs) (\<lambda>_.
     Inr (post_url, post_addrs))))))"

definition sse_connect ::
  "connect_env \<Rightarrow> string \<Rightarrow> host_guard \<Rightarrow> bool \<Rightarrow> stream_item list \<Rightarrow> transport_error + url \<times> sse_transport" where
  "sse_connect C raw g has_headers items =
     and_then (map_err TE_Other (validate_remote_endpoint (ce_parse C) raw ''sse'' has_headers)) (\<lambda>sse_url.
     and_then (resolve_and_check_with sse_url g (ce_resolve C)) (\<lambda>sse_addrs.
     and_then (ce_client C sse_url sse_addrs) (\<lambda>_.
     and_then (case ce_get C sse_url sse_addrs of
         Inl e \<Rightarrow> Inl (TE_Http (''sse handshake: '' @ e)) | Inr h \<Rightarrow> check_handshake h) (\<lambda>_.
     and_then (await_endpoint (sse_parser_new items)) (\<lambda>(parser, endpoint).
     and_then (vet_endpoint C g has_headers sse_url endpoint) (\<lambda>(post_url, post_addrs).
     Inr (sse_url, \<lparr>tr_sse_addrs = sse_addrs, tr_post_url = post_url, tr_post_addrs = post_addrs,
       tr_run = sse_run_new parser\<rparr>)))))))"

subsection \<open>Shutdown\<close>

text \<open>How the task's join comes out, first after the cancellation and then, when the time is up, after the abort.\<close>

datatype joined = Joined_Ok | Joined_Panic string | Joined_Cancelled string | Joined_Late

definition first_join :: "joined \<Rightarrow> string list" where
  "first_join j =
     (case j of
        Joined_Ok \<Rightarrow> []
      | Joined_Panic e \<Rightarrow> [''reader task failed: '' @ e]
      | Joined_Cancelled e \<Rightarrow> [''reader task failed: '' @ e]
      | Joined_Late \<Rightarrow> [''reader task join exceeded 5s''])"

definition second_join :: "joined \<Rightarrow> string list" where
  "second_join j =
     (case j of
        Joined_Ok \<Rightarrow> []
      | Joined_Cancelled _ \<Rightarrow> []
      | Joined_Panic e \<Rightarrow> [''reader task abort failed: '' @ e]
      | Joined_Late \<Rightarrow> [''reader task abort confirmation exceeded 5s''])"

definition sse_shutdown :: "joined \<Rightarrow> joined \<Rightarrow> sse_conn \<Rightarrow> transport_error + unit" where
  "sse_shutdown j1 j2 c =
     (let failures = first_join j1 @ (if j1 = Joined_Late then second_join j2 else [])
            @ (case sc_terminal_error c of Some e \<Rightarrow> [''reader terminal failure: '' @ show_reader_error e] | None \<Rightarrow> [])
      in fail_if (failures \<noteq> []) (TE_Other (''SSE shutdown incomplete: '' @ join_text ''; '' failures)))"

subsection \<open>Properties\<close>

text \<open>
  C13. A server cannot make the transport hold more than its budget. Whatever the stream brings and
  however the reader, the caller and the cancellation interleave, the free budget and the charges of the
  frames in the channel, in the buffer and in the reader's hands add up to 32 MiB, so the text they hold
  is never more than that; the channel has at most 64 entries and the buffer at most 256 frames.
\<close>

theorem sse_inbound_bounded:
  assumes "env_contract E" and c: "c = sr_conn (sse_steps E (sse_run_new p) ls)"
  shows "sc_budget c + sum_mset (image_mset if_charge (held_frames c)) = INBOUND_BYTE_BUDGET
    \<and> sum_mset (image_mset (\<lambda>f. length (if_data f)) (held_frames c)) \<le> INBOUND_BYTE_BUDGET
    \<and> length (sc_incoming c) \<le> READER_CHANNEL_CAP \<and> length (sc_pending c) \<le> MAX_PENDING_FRAMES"
proof -
  have inv: "conn_inv E c" using sse_steps_inv [OF run_inv_new, of E p ls] c by (simp add: run_inv_def)
  have "sum_mset (image_mset (\<lambda>f. length (if_data f)) (held_frames c)) \<le> sum_mset (image_mset if_charge (held_frames c))"
    using inv frame_charge_covers [OF assms(1)] by (intro sum_mset_mono) (auto simp: conn_inv_def)
  with inv show ?thesis by (auto simp: conn_inv_def)
qed

text \<open>
  C12. A request is answered with the server's own message for it, or with an error. Under every schedule
  the text a request returns carries the identifier of the request, and the texts returned, together
  with those still held, are messages of the stream (the data of its \<open>message\<close> events), each of them
  counted once: no message is returned twice, altered or made up.
\<close>

theorem sse_answers_are_messages:
  assumes s: "s = sse_steps E (sse_run_new p) ls"
  shows "answered (sr_answers s) + image_mset if_data (held_frames (sr_conn s)) \<subseteq># mset (message_texts (fst (sse_events p)))
    \<and> (\<forall>(i, a) \<in> set (sr_answers s). \<forall>t. a = Inr t \<longrightarrow> extract_id E t = i)"
proof -
  have inv: "run_inv E p s" using sse_steps_inv [OF run_inv_new, of E p ls] s by simp
  then have "answered (sr_answers s) + at_hand (sr_conn s) \<subseteq># mset (message_texts (fst (sse_events p)))"
    by (simp add: run_inv_def)
  from at_hand_shrinks [OF this, of "image_mset if_data (held_frames (sr_conn s))"] inv
  show ?thesis by (simp add: at_hand_def run_inv_def)
qed

text \<open>
  A failure of the reader is final and never hidden. Once the stream has ended, failed or broken a
  limit, no request succeeds any more, not even one whose answer had arrived before; and a request that
  waits when the task has then ended is answered, with an error, within one receive more than the channel
  has entries: it does not wait for its timeout of a minute.
\<close>

theorem sse_reader_failure_is_final:
  assumes s: "s = sse_steps E (sse_run_new p) ls" and failed: "sc_terminal_error (sr_conn s) \<noteq> None"
  shows "(\<exists>new. sr_answers (sse_steps E s ls') = sr_answers s @ new \<and> answers_fail new)
    \<and> (sc_reader (sr_conn s) = Rd_Done \<longrightarrow> sr_caller s = Caller_Waiting i \<longrightarrow>
        (\<exists>e. sr_answers (sse_steps E s (replicate (Suc (length (sc_incoming (sr_conn s)))) L_Receive)) = sr_answers s @ [(i, Inl e)]))"
proof (intro conjI impI)
  have inv: "run_inv E p s" using sse_steps_inv [OF run_inv_new, of E p ls] s by simp
  show "\<exists>new. sr_answers (sse_steps E s ls') = sr_answers s @ new \<and> answers_fail new"
    using sse_steps_failed [OF inv failed] .
  assume d: "sc_reader (sr_conn s) = Rd_Done" "sr_caller s = Caller_Waiting i"
  let ?n = "Suc (length (sc_incoming (sr_conn s)))"
  obtain a where a: "sr_answers (sse_steps E s (replicate ?n L_Receive)) = sr_answers s @ [(i, a)]"
    using closed_receives [OF d(2,1), of ?n E] by blast
  moreover obtain new where "sr_answers (sse_steps E s (replicate ?n L_Receive)) = sr_answers s @ new" "answers_fail new"
    using sse_steps_failed [OF inv failed] by blast
  ultimately have "answers_fail [(i, a)]" by (metis same_append_eq)
  then show "\<exists>e. sr_answers (sse_steps E s (replicate ?n L_Receive)) = sr_answers s @ [(i, Inl e)]"
    using a by (auto simp: answers_fail_def)
qed

lemma ended_reader_failed:
  assumes "s = sse_steps E (sse_run_new p) ls" "\<not> reading (sr_conn s)" "\<not> sc_cancelled (sr_conn s)"
  shows "sc_terminal_error (sr_conn s) \<noteq> None"
  using sse_steps_inv [OF run_inv_new, of E p ls] assms by (simp add: run_inv_def conn_inv_def)

text \<open>
  C14. The handshake confines the secrets and the sockets. When a transport is connected with secret
  headers, both of its URLs are HTTPS and of one origin, whatever endpoint the server named; and in any
  case both are http or https URLs without userinfo or fragment, and every address that is dialled for
  them is outside the private, loopback, link-local, unspecified and broadcast ranges unless its host is
  on the operator's list.
\<close>

theorem sse_connect_confined:
  assumes "sse_connect C raw (guard_from_hosts hosts) has_headers items = Inr (sse_url, t)"
  shows "(has_headers \<longrightarrow> url_scheme sse_url = ''https'' \<and> same_origin sse_url (tr_post_url t))
    \<and> (\<forall>(u, addrs) \<in> {(sse_url, tr_sse_addrs t), (tr_post_url t, tr_post_addrs t)}.
         url_scheme u \<in> {''http'', ''https''} \<and> url_username u = [] \<and> url_password u = None \<and> url_fragment u = None
         \<and> addrs \<noteq> [] \<and> ((\<exists>h. url_host u = Some h \<and> (\<exists>listed \<in> set hosts. eq_ignore_ascii_case listed (host_string h)))
              \<or> (\<forall>sa \<in> set addrs. \<not> is_blocked_ip (sa_ip sa))))"
proof -
  obtain p endpoint where c: "validate_remote_endpoint (ce_parse C) raw ''sse'' has_headers = Inr sse_url"
    "resolve_and_check_with sse_url (guard_from_hosts hosts) (ce_resolve C) = Inr (tr_sse_addrs t)"
    "vet_endpoint C (guard_from_hosts hosts) has_headers sse_url endpoint = Inr (tr_post_url t, tr_post_addrs t)"
    using assms by (auto simp: sse_connect_def and_then_Inr_iff map_err_Inr_iff)
  have "\<exists>joined :: url. validate_remote_endpoint (ce_parse C) (url_display joined) ''sse'' has_headers = Inr (tr_post_url t)
      \<and> (has_headers \<longrightarrow> same_origin sse_url (tr_post_url t))
      \<and> resolve_and_check_with (tr_post_url t) (guard_from_hosts hosts) (ce_resolve C) = Inr (tr_post_addrs t)"
    using c(3) unfolding vet_endpoint_def by (auto simp: and_then_Inr_iff map_err_Inr_iff fail_if_Inr_iff)
  then obtain joined :: url where v: "validate_remote_endpoint (ce_parse C) (url_display joined) ''sse'' has_headers = Inr (tr_post_url t)"
    "has_headers \<longrightarrow> same_origin sse_url (tr_post_url t)"
    "resolve_and_check_with (tr_post_url t) (guard_from_hosts hosts) (ce_resolve C) = Inr (tr_post_addrs t)"
    by blast
  have vetted: "addrs \<noteq> [] \<and> ((\<exists>h. url_host u = Some h \<and> (\<exists>listed \<in> set hosts. eq_ignore_ascii_case listed (host_string h)))
      \<or> (\<forall>sa \<in> set addrs. \<not> is_blocked_ip (sa_ip sa)))"
    if "resolve_and_check_with u (guard_from_hosts hosts) (ce_resolve C) = Inr addrs" for u addrs
    using resolve_and_check_Inr [OF that]
    by (metis host_allowed_from_hosts guard_from_hosts_def host_guard.select_convs(1) map_is_Nil_conv)
  show ?thesis
    using c(1) v(1,2) vetted [OF c(2)] vetted [OF v(3)] by (auto simp: validate_remote_endpoint_Inr)
qed

subsection \<open>One answer\<close>

definition sample_sse_env :: sse_env where
  "sample_sse_env = \<lparr>se_capacity = length, se_frame_size = 56, se_json = (\<lambda>_. Some (JObject [(''id'', JNumber ''1'')]))\<rparr>"

definition sample_body :: bytes where
  "sample_body = [100, 97, 116, 97, 58, 120, 10, 10]"

definition sample_parser :: sse_parser where
  "sample_parser = sse_parser_new [Item_Chunk sample_body]"

definition sample_parsed :: sse_parser where
  "sample_parsed = \<lparr>sp_stream = [], sp_chunk = None, sp_chunk_offset = 0, sp_bom_prefix = [], sp_bom_resolved = True,
     sp_eof = False, sp_lines = line_state_new\<rparr>"

lemma next_event_goes: "next_turn p = (p', Go_On) \<Longrightarrow> next_event p = next_event p'"
  by (subst next_event.simps) simp

lemma next_event_returns: "next_turn p = (p', Return_With r) \<Longrightarrow> next_event p = (p', Some r)"
  by (subst next_event.simps) simp

lemma sample_limits: "0 < MAX_SSE_LINE_BYTES" "\<not> MAX_SSE_LINE_BYTES < 6" "0 < MAX_SSE_EVENT_DATA_BYTES"
  by (simp_all add: MAX_SSE_LINE_BYTES_def MAX_SSE_EVENT_DATA_BYTES_def)

definition sample_at :: "nat \<Rightarrow> bytes \<Rightarrow> bytes \<Rightarrow> bool \<Rightarrow> sse_parser" where
  "sample_at off line text started = \<lparr>sp_stream = [], sp_chunk = Some sample_body, sp_chunk_offset = off, sp_bom_prefix = [],
     sp_bom_resolved = started, sp_eof = False, sp_lines = \<lparr>ls_line = line, ls_skip_lf_after_cr = False,
       ls_event = event_state_new\<lparr>es_data := text, es_has_data := text \<noteq> []\<rparr>\<rparr>\<rparr>"

lemma sample_char: "char_of (120 :: nat) = CHR ''x''"
  by code_simp

lemma sample_lines:
  "process_wire_byte line_state_new 100 = (line_state_new\<lparr>ls_line := [100]\<rparr>, Inr None)"
  "process_line event_state_new [100, 97, 116, 97, 58, 120] = (event_state_new\<lparr>es_data := [120], es_has_data := True\<rparr>, Inr None)"
  "process_line (event_state_new\<lparr>es_data := [120], es_has_data := True\<rparr>) []
     = (event_state_new, Inr (Some \<lparr>be_event = ''message'', be_data = ''x''\<rparr>))"
  by (simp_all add: process_wire_byte_def line_state_new_def is_eol_def CR_def LF_def process_line_def split_field_def
      position_of_def COLON_def SPACE_def ascii_bytes_def sample_limits event_state_new_def from_utf8_def bytes_string_def
      sample_char Let_def)

lemma sample_segments:
  "takeWhile (\<lambda>b. \<not> is_eol b) (drop 1 sample_body) = [97, 116, 97, 58, 120]"
  "takeWhile (\<lambda>b. \<not> is_eol b) (drop 7 sample_body) = []"
  "sample_body ! 0 = 100" "sample_body ! 1 = 97" "sample_body ! 6 = 10" "sample_body ! 7 = 10" "length sample_body = 8"
  by (simp_all add: sample_body_def is_eol_def CR_def LF_def)

lemma sample_turn_first: "next_turn sample_parser = (sample_at 0 [] [] False, Go_On)"
  by (simp add: next_turn_def sample_parser_def sse_parser_new_def sample_at_def line_state_new_def event_state_new_def)

lemma sample_turn_bom: "next_turn (sample_at 0 [] [] False) = (sample_at 1 [100] [] True, Go_On)"
proof -
  have new: "sp_lines (sample_at 0 [] [] False) = line_state_new"
    by (simp add: sample_at_def line_state_new_def event_state_new_def)
  have at: "sp_chunk (sample_at 0 [] [] False) = Some sample_body" "sp_chunk_offset (sample_at 0 [] [] False) = 0"
    "\<not> sp_bom_resolved (sample_at 0 [] [] False)" "sp_bom_prefix (sample_at 0 [] [] False) = []" by (simp_all add: sample_at_def)
  show ?thesis
    by (simp add: at next_turn_def bom_turn_def sample_segments drop_chunk_if_done_def Let_def
        UTF8_BOM_def new sample_lines) (simp add: sample_at_def line_state_new_def event_state_new_def)
qed

lemma sample_turn_data: "next_turn (sample_at 1 [100] [] True) = (sample_at 7 [] [120] True, Go_On)"
  by (simp add: next_turn_def chunk_turn_def segment_turn_def Let_def sample_segments [simplified] sample_limits sample_at_def end_line_def
      drop_chunk_if_done_def LF_def CR_def sample_lines [unfolded event_state_new_def] event_state_new_def)
    (simp add: MAX_SSE_LINE_BYTES_def sample_body_def)

lemma sample_turn_end: "next_turn (sample_at 7 [] [120] True)
    = (sample_parsed, Return_With (Inr (Some \<lparr>be_event = ''message'', be_data = ''x''\<rparr>)))"
  by (simp add: next_turn_def chunk_turn_def segment_turn_def Let_def sample_segments [simplified] sample_limits sample_at_def end_line_def
      drop_chunk_if_done_def LF_def CR_def sample_lines(3) [unfolded event_state_new_def, simplified]
      event_state_new_def sample_parsed_def
      line_state_new_def)

lemma sample_next: "next_event sample_parser = (sample_parsed, Some (Inr (Some \<lparr>be_event = ''message'', be_data = ''x''\<rparr>)))"
  using next_event_goes [OF sample_turn_first] next_event_goes [OF sample_turn_bom] next_event_goes [OF sample_turn_data]
    next_event_returns [OF sample_turn_end] by simp

definition sample_schedule :: "sse_label list" where
  "sample_schedule = [L_Request (Some (JNumber ''1'')) (Inr 202), L_Reader False, L_Reader False, L_Receive]"

lemma sample_extract: "extract_id sample_sse_env t = Some (JNumber ''1'')"
  by (simp add: extract_id_def sample_sse_env_def id_probe_def de_unique_def)

lemma sample_charge: "inbound_frame_charge sample_sse_env ''x'' = Inr 57"
  by (simp add: inbound_frame_charge_def sample_sse_env_def)

lemma sample_answer:
  "sr_answers (sse_steps sample_sse_env (sse_run_new sample_parser) sample_schedule) = [(Some (JNumber ''1''), Inr ''x'')]"
  by (simp add: sample_schedule_def sse_run_new_def sse_conn_new_def request_begin_def post_outcome_def pending_position_def
      reader_step_def reader_turn_def sample_next reader_event_def sample_charge has_room_def waited_def request_receive_def
      sample_extract deliver_def fail_if_reader_failed_def INBOUND_BYTE_BUDGET_def READER_CHANNEL_CAP_def)

lemma sse_answers_are_messages_witness:
  "let s = sse_steps sample_sse_env (sse_run_new sample_parser) sample_schedule in
   sr_answers s = [(Some (JNumber ''1''), Inr ''x'')]
   \<and> answered (sr_answers s) + image_mset if_data (held_frames (sr_conn s))
       \<subseteq># mset (message_texts (fst (sse_events sample_parser)))"
  using sse_answers_are_messages [OF refl, of sample_sse_env sample_parser sample_schedule] sample_answer
  unfolding Let_def by blast

lemma sse_inbound_bounded_witness:
  "sc_budget (sr_conn (sse_steps sample_sse_env (sse_run_new sample_parser) sample_schedule)) \<le> INBOUND_BYTE_BUDGET"
proof -
  have "env_contract sample_sse_env" by (simp add: env_contract_def sample_sse_env_def)
  from sse_inbound_bounded [OF this refl, of sample_parser sample_schedule] show ?thesis by linarith
qed

text \<open>A stream that ends: the reader has failed and the request that waits is told so.\<close>

definition sample_ended :: sse_run where
  "sample_ended = sse_steps sample_sse_env (sse_run_new (sse_parser_new [Item_End]))
     [L_Reader False, L_Request None (Inr 200), L_Reader False]"

lemma sample_eof: "\<exists>q. next_event (sse_parser_new [Item_End]) = (q, Some (Inr None))"
proof -
  let ?q = "(sse_parser_new [Item_End])\<lparr>sp_stream := [], sp_eof := True\<rparr>"
  have "next_turn (sse_parser_new [Item_End]) = (?q, Go_On)" by (simp add: next_turn_def sse_parser_new_def)
  moreover have "\<exists>r. next_turn ?q = (r, Return_With (Inr None))"
    by (simp add: next_turn_def eof_turn_def sse_parser_new_def line_state_new_def event_state_new_def process_line_def reset_event_def)
  ultimately show ?thesis using next_event_goes next_event_returns by metis
qed

lemma sample_ended_facts:
  "sc_terminal_error (sr_conn sample_ended) = Some RE_UnexpectedEof" "sc_reader (sr_conn sample_ended) = Rd_Done"
  "sr_caller sample_ended = Caller_Waiting None" "sr_answers sample_ended = []"
proof -
  obtain q where q: "next_event (sse_parser_new [Item_End]) = (q, Some (Inr None))" using sample_eof by blast
  show "sc_terminal_error (sr_conn sample_ended) = Some RE_UnexpectedEof" "sc_reader (sr_conn sample_ended) = Rd_Done"
    "sr_caller sample_ended = Caller_Waiting None" "sr_answers sample_ended = []"
    by (simp_all add: sample_ended_def sse_run_new_def sse_conn_new_def reader_step_def reader_turn_def q reader_fail_def
        request_begin_def post_outcome_def pending_position_def has_room_def READER_CHANNEL_CAP_def)
qed

lemma sse_reader_failure_is_final_witness:
  "(\<exists>new. sr_answers (sse_steps sample_sse_env sample_ended [L_Receive, L_Receive]) = new \<and> answers_fail new)
   \<and> (\<exists>e. sr_answers (sse_steps sample_sse_env sample_ended
        (replicate (Suc (length (sc_incoming (sr_conn sample_ended)))) L_Receive)) = [(None, Inl e)])"
  using sse_reader_failure_is_final [OF sample_ended_def, of "[L_Receive, L_Receive]" None] sample_ended_facts
  by (simp del: sse_steps_simps replicate.simps)

subsection \<open>A handshake\<close>

definition hello_body :: bytes where
  "hello_body = [101, 118, 101, 110, 116, 58, 101, 110, 100, 112, 111, 105, 110, 116, 10, 100, 97, 116, 97, 58, 47, 10, 10]"

definition hello_at :: "nat \<Rightarrow> bytes \<Rightarrow> string \<Rightarrow> bytes \<Rightarrow> bool \<Rightarrow> sse_parser" where
  "hello_at off line kind text started = \<lparr>sp_stream = [], sp_chunk = Some hello_body, sp_chunk_offset = off, sp_bom_prefix = [],
     sp_bom_resolved = started, sp_eof = False, sp_lines = \<lparr>ls_line = line, ls_skip_lf_after_cr = False,
       ls_event = \<lparr>es_event_type = kind, es_data = text, es_has_data = text \<noteq> []\<rparr>\<rparr>\<rparr>"

lemma hello_chars: "bytes_string [101, 110, 100, 112, 111, 105, 110, 116] = ''endpoint''" "bytes_string [47] = ''/''"
  by code_simp+

lemma hello_lines:
  "process_wire_byte line_state_new 101 = (line_state_new\<lparr>ls_line := [101]\<rparr>, Inr None)"
  "process_line event_state_new [101, 118, 101, 110, 116, 58, 101, 110, 100, 112, 111, 105, 110, 116]
     = (event_state_new\<lparr>es_event_type := ''endpoint''\<rparr>, Inr None)"
  "process_line (event_state_new\<lparr>es_event_type := ''endpoint''\<rparr>) [100, 97, 116, 97, 58, 47]
     = (event_state_new\<lparr>es_event_type := ''endpoint'', es_data := [47], es_has_data := True\<rparr>, Inr None)"
  "process_line (event_state_new\<lparr>es_event_type := ''endpoint'', es_data := [47], es_has_data := True\<rparr>) []
     = (event_state_new, Inr (Some \<lparr>be_event = ''endpoint'', be_data = ''/''\<rparr>))"
  by (simp_all add: process_wire_byte_def line_state_new_def is_eol_def CR_def LF_def process_line_def split_field_def
      position_of_def COLON_def SPACE_def ascii_bytes_def sample_limits event_state_new_def from_utf8_def hello_chars
      Let_def MAX_EVENT_TYPE_BYTES_def)

lemma hello_segments:
  "takeWhile (\<lambda>b. \<not> is_eol b) (drop 1 hello_body) = [118, 101, 110, 116, 58, 101, 110, 100, 112, 111, 105, 110, 116]"
  "takeWhile (\<lambda>b. \<not> is_eol b) (drop 15 hello_body) = [100, 97, 116, 97, 58, 47]"
  "takeWhile (\<lambda>b. \<not> is_eol b) (drop 22 hello_body) = []"
  "hello_body ! 0 = 101" "hello_body ! 1 = 118" "hello_body ! 15 = 100" "hello_body ! 22 = 10" "length hello_body = 23"
  by (simp_all add: hello_body_def is_eol_def CR_def LF_def)

lemma hello_turn_first: "next_turn (sse_parser_new [Item_Chunk hello_body]) = (hello_at 0 [] [] [] False, Go_On)"
  by (simp add: next_turn_def sse_parser_new_def hello_at_def line_state_new_def event_state_new_def)

lemma hello_turn_bom: "next_turn (hello_at 0 [] [] [] False) = (hello_at 1 [101] [] [] True, Go_On)"
proof -
  have at: "sp_chunk (hello_at 0 [] [] [] False) = Some hello_body" "sp_chunk_offset (hello_at 0 [] [] [] False) = 0"
    "\<not> sp_bom_resolved (hello_at 0 [] [] [] False)" "sp_bom_prefix (hello_at 0 [] [] [] False) = []"
    "sp_lines (hello_at 0 [] [] [] False) = line_state_new"
    by (simp_all add: hello_at_def line_state_new_def event_state_new_def)
  show ?thesis
    by (simp add: at next_turn_def bom_turn_def hello_segments drop_chunk_if_done_def Let_def UTF8_BOM_def hello_lines)
      (simp add: hello_at_def line_state_new_def event_state_new_def)
qed

lemmas hello_line_steps = hello_lines(2-4) [unfolded event_state_new_def, simplified]

lemma hello_turns:
  "next_turn (hello_at 1 [101] [] [] True) = (hello_at 15 [] ''endpoint'' [] True, Go_On)"
  "next_turn (hello_at 15 [] ''endpoint'' [] True) = (hello_at 22 [] ''endpoint'' [47] True, Go_On)"
  "next_turn (hello_at 22 [] ''endpoint'' [47] True)
     = (sample_parsed, Return_With (Inr (Some \<lparr>be_event = ''endpoint'', be_data = ''/''\<rparr>)))"
  by (simp_all add: next_turn_def chunk_turn_def segment_turn_def Let_def hello_segments [simplified] sample_limits hello_at_def
      end_line_def drop_chunk_if_done_def LF_def CR_def hello_line_steps event_state_new_def sample_parsed_def line_state_new_def)
    (simp_all add: MAX_SSE_LINE_BYTES_def hello_body_def)

lemma hello_endpoint: "await_endpoint (sse_parser_new [Item_Chunk hello_body]) = Inr (sample_parsed, ''/'')"
proof -
  have "next_event (sse_parser_new [Item_Chunk hello_body])
      = (sample_parsed, Some (Inr (Some \<lparr>be_event = ''endpoint'', be_data = ''/''\<rparr>)))"
    using next_event_goes [OF hello_turn_first] next_event_goes [OF hello_turn_bom] next_event_goes [OF hello_turns(1)]
      next_event_goes [OF hello_turns(2)] next_event_returns [OF hello_turns(3)] by simp
  then show ?thesis by (subst await_endpoint.simps) simp
qed

definition hello_env :: connect_env where
  "hello_env = \<lparr>ce_parse = (\<lambda>_. Inr (sample_url (Host_Domain ''example.com'') ''example.com'')),
     ce_join = (\<lambda>u _. Some u), ce_resolve = (\<lambda>_ port. Inr [\<lparr>sa_ip = V4 (Ipv4 93 184 216 34), sa_port = port\<rparr>]),
     ce_client = (\<lambda>_ _. Inr ()),
     ce_get = (\<lambda>_ _. Inr \<lparr>hh_status = 200, hh_reason = None, hh_content_type = Some ''text/event-stream''\<rparr>)\<rparr>"

lemma hello_resolved: "\<exists>addrs. resolve_and_check_with (sample_url (Host_Domain ''example.com'') ''example.com'')
    (guard_from_hosts []) (ce_resolve hello_env) = Inr addrs"
  by (simp add: resolve_and_check_with_def check_url_def check_listed_def guard_from_hosts_def check_resolved_def
      host_allowed_def v4_is_unspecified_def v4_is_broadcast_def v4_broadcast_def hello_env_def)

lemma hello_connected: "\<exists>t. sse_connect hello_env ''https://example.com/'' (guard_from_hosts []) True [Item_Chunk hello_body]
    = Inr (sample_url (Host_Domain ''example.com'') ''example.com'', t)"
proof -
  obtain addrs where a: "resolve_and_check_with (sample_url (Host_Domain ''example.com'') ''example.com'')
      (guard_from_hosts []) (ce_resolve hello_env) = Inr addrs" using hello_resolved by blast
  have v: "validate_remote_endpoint (ce_parse hello_env) raw ''sse'' True
      = Inr (sample_url (Host_Domain ''example.com'') ''example.com'')" for raw
    by (simp add: validate_remote_endpoint_Inr hello_env_def)
  have h: "check_handshake \<lparr>hh_status = 200, hh_reason = None, hh_content_type = Some ''text/event-stream''\<rparr> = Inr ()"
    by code_simp
  show ?thesis
    by (simp add: sse_connect_def vet_endpoint_def v a map_err_def hello_endpoint same_origin_def h)
      (simp add: hello_env_def h)
qed

lemma sse_connect_confined_witness:
  "\<exists>t. sse_connect hello_env ''https://example.com/'' (guard_from_hosts []) True [Item_Chunk hello_body]
       = Inr (sample_url (Host_Domain ''example.com'') ''example.com'', t)
     \<and> same_origin (sample_url (Host_Domain ''example.com'') ''example.com'') (tr_post_url t)
     \<and> (\<forall>sa \<in> set (tr_post_addrs t). \<not> is_blocked_ip (sa_ip sa))"
proof -
  obtain t where t: "sse_connect hello_env ''https://example.com/'' (guard_from_hosts []) True [Item_Chunk hello_body]
      = Inr (sample_url (Host_Domain ''example.com'') ''example.com'', t)" using hello_connected by blast
  from sse_connect_confined [OF t] t show ?thesis by (intro exI [of _ t]) auto
qed

end
