(* ===== verification/Plan_Config.thy ===== *)
theory Plan_Config
  imports Config Workload Shard Controller_Run
begin

section \<open>From a configuration to the plans of the workers\<close>

text \<open>
  The pattern section of a scenario (\<open>cmd_run/patterns.rs\<close> of \<open>crates/mcp-loadtest-cli/src\<close>, with the
  helpers of \<open>cmd_run/params.rs\<close>), the normalization into plans (\<open>distributed/mod.rs\<close>), and the prepare
  frames that \<open>run_controller\<close> makes of them (\<open>distributed/controller.rs\<close>). An \<open>anyhow\<close> error is its
  chain of texts, the context added last first. The duration syntax of \<open>humantime\<close> is a parameter, as
  are the job's identifier and the digest of the configuration. A \<open>Value\<close> is a \<open>json\<close> value whose
  numbers are decimal texts.
\<close>

subsection \<open>Errors and numbers\<close>

type_synonym 'a anyhow = "string list + 'a"

definition bail :: "string \<Rightarrow> 'a anyhow" where
  "bail text = Inl [text]"

definition require :: "string \<Rightarrow> 'a option \<Rightarrow> 'a anyhow" where
  "require text x = ok_or [text] x"

definition with_context :: "string \<Rightarrow> 'a anyhow \<Rightarrow> 'a anyhow" where
  "with_context text r = map_err (\<lambda>chain. text # chain) r"

definition pow10 :: "int \<Rightarrow> rat" where
  "pow10 n = (if 0 \<le> n then 10 ^ nat n else 1 / 10 ^ nat (- n))"

text \<open>The value of a JSON number's text: sign, digits, fraction and exponent.\<close>

definition exponent_value :: "string \<Rightarrow> int" where
  "exponent_value t =
     (case t of
        [] \<Rightarrow> 0
      | _ # s \<Rightarrow>
          if s \<noteq> [] \<and> hd s = CHR ''-'' then - int (decimal_value (tl s))
          else if s \<noteq> [] \<and> hd s = CHR ''+'' then int (decimal_value (tl s))
          else int (decimal_value s))"

definition number_value :: "string \<Rightarrow> rat" where
  "number_value t =
     (let neg = (t \<noteq> [] \<and> hd t = CHR ''-''); u = (if neg then tl t else t);
          whole = takeWhile is_ascii_digit u; r = dropWhile is_ascii_digit u;
          point = (r \<noteq> [] \<and> hd r = CHR ''.''); v = (if point then tl r else r);
          fraction = (if point then takeWhile is_ascii_digit v else []);
          tail = (if point then dropWhile is_ascii_digit v else v);
          q = of_nat (decimal_value (whole @ fraction)) * pow10 (exponent_value tail - int (length fraction))
      in if neg then - q else q)"

definition json_as_f64 :: "json \<Rightarrow> f64 option" where
  "json_as_f64 j = (case j of JNumber t \<Rightarrow> Some (f64_round (number_value t)) | _ \<Rightarrow> None)"

type_synonym duration_syntax = "string \<Rightarrow> string + duration"

definition parse_dur_str :: "duration_syntax \<Rightarrow> string \<Rightarrow> duration anyhow" where
  "parse_dur_str dur s = with_context (''parsing duration \"'' @ s @ ''\"'')
     (case dur s of Inl e \<Rightarrow> bail e | Inr d \<Rightarrow> Inr d)"

definition parse_dur_field :: "duration_syntax \<Rightarrow> json option \<Rightarrow> duration \<Rightarrow> duration anyhow" where
  "parse_dur_field dur v d =
     (case v of
        Some (JString s) \<Rightarrow> parse_dur_str dur s
      | None \<Rightarrow> Inr d
      | _ \<Rightarrow> bail (''duration must be a string like '' @ [CHR 0x27] @ ''60s'' @ [CHR 0x27]))"

subsection \<open>Patterns\<close>

definition indexed :: "string \<Rightarrow> nat \<Rightarrow> string" where
  "indexed path idx = path @ ''['' @ show_nat idx @ '']''"

definition parse_step :: "string \<Rightarrow> string \<Rightarrow> json \<Rightarrow> pattern_step anyhow" where
  "parse_step path preferred_tool_key v =
     and_then (require (path @ '' must be an object'') (json_object v)) (\<lambda>obj.
     let fallback_key = (if preferred_tool_key = ''tool'' then ''name'' else ''tool'');
         named = (case map_of obj preferred_tool_key of Some t \<Rightarrow> Some t | None \<Rightarrow> map_of obj fallback_key) in
     and_then (require (path @ ''.'' @ preferred_tool_key @ '' (string) is required'') (Option.bind named json_str)) (\<lambda>tool.
     Inr \<lparr>pst_tool = tool, pst_args = (case map_of obj ''args'' of Some args \<Rightarrow> args | None \<Rightarrow> JObject [])\<rparr>))"

definition parse_steps :: "string \<Rightarrow> json \<Rightarrow> pattern_step list anyhow" where
  "parse_steps path v =
     and_then (require (path @ '' must be an array'') (json_array v)) (\<lambda>arr.
     and_then (fail_if (arr = []) [path @ '' must not be empty'']) (\<lambda>_.
     traverse (\<lambda>(idx, item). parse_step (indexed path idx) ''tool'' item) (enumerate 0 arr)))"

definition parse_error_behavior :: "nat \<Rightarrow> json option \<Rightarrow> error_behavior anyhow" where
  "parse_error_behavior idx v =
     (let path = indexed ''scenario.patterns'' idx in
      case v of
        None \<Rightarrow> Inr Behave_Continue
      | Some (JString s) \<Rightarrow>
          if s = ''continue'' then Inr Behave_Continue
          else if s = ''abort'' then Inr Behave_Abort
          else bail (path @ ''.on_step_error must be `continue` or `abort`, got `'' @ s @ ''`'')
      | Some _ \<Rightarrow> bail (path @ ''.on_step_error must be a string''))"

definition parse_pattern :: "duration_syntax \<Rightarrow> nat \<Rightarrow> json \<Rightarrow> call_pattern anyhow" where
  "parse_pattern dur idx item =
     (let path = indexed ''scenario.patterns'' idx in
      and_then (require (path @ '' must be an object'') (json_object item)) (\<lambda>obj.
      let name = (case Option.bind (map_of obj ''name'') json_str of
        Some s \<Rightarrow> s | None \<Rightarrow> ''pattern-'' @ show_nat (idx + 1)) in
      and_then (case map_of obj ''weight'' of
          Some v \<Rightarrow> require (path @ ''.weight must be a number'') (json_as_f64 v)
        | None \<Rightarrow> Inr (F64_Fin 1)) (\<lambda>weight.
      and_then (with_context (''parsing '' @ path @ ''.think_time'')
        (parse_dur_field dur (map_of obj ''think_time'') 0)) (\<lambda>think_time.
      and_then (parse_error_behavior idx (map_of obj ''on_step_error'')) (\<lambda>on_step_error.
      and_then (case map_of obj ''steps'' of
          Some steps \<Rightarrow> parse_steps (path @ ''.steps'') steps
        | None \<Rightarrow>
            if map_of obj ''tool'' \<noteq> None
            then and_then (parse_step path ''tool'' item) (\<lambda>step. Inr [step])
            else bail (path @ ''.steps is required'')) (\<lambda>steps.
      Inr \<lparr>cp_name = name, cp_weight = weight, cp_think_time = think_time, cp_on_step_error = on_step_error,
        cp_steps = steps\<rparr>))))))"

definition selectable :: "call_pattern \<Rightarrow> bool" where
  "selectable p \<longleftrightarrow> f64_is_finite (cp_weight p) \<and> f64_lt (F64_Fin 0) (cp_weight p)"

definition require_selectable_pattern :: "call_pattern list \<Rightarrow> unit anyhow" where
  "require_selectable_pattern patterns =
     (if list_ex selectable patterns then Inr ()
      else bail ''scenario.patterns must contain at least one finite positive weight'')"

definition parse_pattern_array :: "duration_syntax \<Rightarrow> json \<Rightarrow> call_pattern list anyhow" where
  "parse_pattern_array dur v =
     and_then (require ''scenario.patterns must be an array'' (json_array v)) (\<lambda>arr.
     and_then (fail_if (arr = []) [''scenario.patterns must not be empty'']) (\<lambda>_.
     and_then (traverse (\<lambda>(idx, item). parse_pattern dur idx item) (enumerate 0 arr)) (\<lambda>patterns.
     and_then (require_selectable_pattern patterns) (\<lambda>_. Inr patterns))))"

definition parse_tool_call :: "nat \<Rightarrow> json \<Rightarrow> call_pattern anyhow" where
  "parse_tool_call idx item =
     and_then (parse_step (indexed ''scenario.tool_call'' idx) ''name'' item) (\<lambda>step.
     Inr \<lparr>cp_name = ''tool:'' @ pst_tool step,
       cp_weight = (case Option.bind (json_get item ''weight'') json_as_f64 of Some w \<Rightarrow> w | None \<Rightarrow> F64_Fin 1),
       cp_think_time = 0, cp_on_step_error = Behave_Continue, cp_steps = [step]\<rparr>)"

definition parse_tool_call_array :: "json \<Rightarrow> call_pattern list anyhow" where
  "parse_tool_call_array v =
     and_then (require ''scenario.tool_call must be an array'' (json_array v)) (\<lambda>arr.
     and_then (fail_if (arr = []) [''scenario.tool_call must not be empty'']) (\<lambda>_.
     and_then (traverse (\<lambda>(idx, item). parse_tool_call idx item) (enumerate 0 arr)) (\<lambda>patterns.
     and_then (require_selectable_pattern patterns) (\<lambda>_. Inr patterns))))"

definition parse_patterns :: "duration_syntax \<Rightarrow> json \<Rightarrow> call_pattern list anyhow" where
  "parse_patterns dur params =
     (case json_get params ''patterns'' of
        Some v \<Rightarrow> parse_pattern_array dur v
      | None \<Rightarrow>
          case (case json_get params ''tool_call'' of Some v \<Rightarrow> Some v | None \<Rightarrow> json_get params ''tool_calls'') of
            Some v \<Rightarrow> parse_tool_call_array v
          | None \<Rightarrow>
              case Option.bind (json_get params ''tool'') json_str of
                Some tool \<Rightarrow> Inr [single_call tool
                  (case json_get params ''args'' of Some args \<Rightarrow> args | None \<Rightarrow> JObject [])]
              | None \<Rightarrow> bail (''scenario.patterns is required (or provide scenario.tool + scenario.args for ''
                  @ ''a single-step pattern)''))"

subsection \<open>Plans\<close>

definition DEFAULT_DISTRIBUTED_SEED :: u64 where
  "DEFAULT_DISTRIBUTED_SEED = 0x4D43504C4F414432"

definition scenario_field :: "string \<Rightarrow> string" where
  "scenario_field name = ''scenario.'' @ name"

definition u32_param :: "config \<Rightarrow> string \<Rightarrow> u32 \<Rightarrow> u32 anyhow" where
  "u32_param cfg name d =
     (case json_get (sc_params (cfg_scenario cfg)) name of
        Some value \<Rightarrow> require (scenario_field name @ '' must be an integer in 1..=u32::MAX'')
          (case json_as_u64 value of
             Some n \<Rightarrow> if unat n < 2 ^ 32 \<and> 0 < n then Some (ucast n) else None
           | None \<Rightarrow> None)
      | None \<Rightarrow> Inr d)"

definition duration_param :: "duration_syntax \<Rightarrow> config \<Rightarrow> string \<Rightarrow> string \<Rightarrow> duration anyhow" where
  "duration_param dur cfg name d =
     (let raw = (case Option.bind (json_get (sc_params (cfg_scenario cfg)) name) json_str of Some s \<Rightarrow> s | None \<Rightarrow> d) in
      and_then (with_context (''parsing '' @ scenario_field name)
        (case dur raw of Inl e \<Rightarrow> bail e | Inr v \<Rightarrow> Inr v)) (\<lambda>v.
      and_then (fail_if (v = 0) [scenario_field name @ '' must be > 0'']) (\<lambda>_. Inr v)))"

text \<open>\<open>u64::try_from\<close> of a duration's milliseconds.\<close>

definition millis_of :: "string \<Rightarrow> duration \<Rightarrow> u64 anyhow" where
  "millis_of text d = (if d div 10 ^ 6 < 2 ^ 64 then Inr (of_nat (d div 10 ^ 6)) else bail text)"

fun policy_of_behavior :: "error_behavior \<Rightarrow> pattern_error_policy" where
  "policy_of_behavior Behave_Continue = On_Error_Continue"
| "policy_of_behavior Behave_Abort = On_Error_Abort"

definition normalize_step :: "pattern_step \<Rightarrow> pattern_step_plan anyhow" where
  "normalize_step step =
     (if pst_tool step = [] \<or> \<not> json_is_object (pst_args step)
      then bail ''distributed pattern steps require a tool and object args''
      else Inr \<lparr>st_tool = pst_tool step, st_args = pst_args step\<rparr>)"

definition normalize_pattern :: "call_pattern \<Rightarrow> pattern_plan anyhow" where
  "normalize_pattern p =
     and_then (fail_if (\<not> f64_is_finite (cp_weight p) \<or> f64_le (cp_weight p) (F64_Fin 0))
       [''distributed patterns require finite positive weights'']) (\<lambda>_.
     and_then (millis_of ''pattern think_time is too large'' (cp_think_time p)) (\<lambda>think_time_ms.
     and_then (traverse normalize_step (cp_steps p)) (\<lambda>steps.
     Inr \<lparr>pat_name = cp_name p, pat_weight = cp_weight p, pat_think_time_ms = think_time_ms,
       pat_on_step_error = policy_of_behavior (cp_on_step_error p), pat_steps = steps\<rparr>)))"

definition workload_plan_of :: "duration_syntax \<Rightarrow> config \<Rightarrow> workload_plan anyhow" where
  "workload_plan_of dur cfg =
     (let params = sc_params (cfg_scenario cfg); kind = sc_kind (cfg_scenario cfg) in
      and_then (if kind = ''sustained'' then Inr Scenario_Sustained
        else if kind = ''pattern'' then Inr Scenario_Pattern
        else bail (''scenario `'' @ kind @ ''` is not distributable'')) (\<lambda>scenario.
      and_then (u32_param cfg ''concurrent'' 10) (\<lambda>concurrency.
      and_then (duration_param dur cfg ''duration'' ''60s'') (\<lambda>duration.
      and_then (millis_of ''scenario.duration is too large for distributed execution'' duration) (\<lambda>duration_ms.
      and_then (and_then (parse_patterns dur params) (traverse normalize_pattern)) (\<lambda>patterns.
      and_then (case json_get params ''seed'' of
          Some value \<Rightarrow> require ''scenario.seed must be an unsigned integer'' (json_as_u64 value)
        | None \<Rightarrow> Inr DEFAULT_DISTRIBUTED_SEED) (\<lambda>seed.
      Inr \<lparr>wp_scenario = scenario, wp_global_concurrency = concurrency, wp_duration_ms = duration_ms,
        wp_patterns = patterns, wp_seed = seed\<rparr>)))))))"

definition normalize_client_credentials :: "auth_config \<Rightarrow> remote_client_credentials_auth anyhow" where
  "normalize_client_credentials auth =
     and_then (fail_if (au_flow auth \<noteq> Flow_ClientCredentials)
       [''distributed OAuth supports only client_credentials'']) (\<lambda>_.
     case au_registration auth of
       Reg_PreRegistered client_id client_secret_env m \<Rightarrow>
         and_then (require ''distributed OAuth requires client_secret_env'' client_secret_env) (\<lambda>env_name.
         Inr \<lparr>ra_client_id = client_id, ra_client_secret_env = env_name, ra_token_endpoint_auth_method = m,
           ra_scopes = au_scopes auth, ra_offline_access = au_offline_access auth,
           ra_max_step_up_retries = au_max_step_up_retries auth\<rparr>)
     | _ \<Rightarrow> bail ''distributed client_credentials requires pre_registered OAuth'')"

definition remote_transport_of :: "string \<Rightarrow> remote_transport anyhow" where
  "remote_transport_of transport =
     (if transport = ''http'' then Inr Transport_Http
      else if transport = ''sse'' then Inr Transport_Sse
      else if transport = ''ws'' then Inr Transport_Ws
      else bail (''transport `'' @ transport @ ''` is not distributable''))"

definition remote_target_of :: "config \<Rightarrow> remote_target anyhow" where
  "remote_target_of cfg =
     (let s = cfg_server cfg in
      and_then (remote_transport_of (srv_transport s)) (\<lambda>transport.
      and_then (require ''distributed remote target requires server.url'' (srv_url s)) (\<lambda>url.
      and_then (millis_of ''server.startup_timeout is too large'' (srv_startup_timeout s)) (\<lambda>startup_timeout_ms.
      and_then (case srv_auth s of
          None \<Rightarrow> Inr None
        | Some auth \<Rightarrow> and_then (normalize_client_credentials auth) (\<lambda>a. Inr (Some a))) (\<lambda>auth.
      Inr \<lparr>rt_transport = transport, rt_url = url, rt_startup_timeout_ms = startup_timeout_ms,
        rt_protocol_version = srv_protocol_version s, rt_headers_from_env = srv_headers_from_env s,
        rt_allowed_hosts = srv_allowed_hosts s, rt_strict_validation = cfg_strict cfg, rt_auth = auth\<rparr>)))))"

text \<open>\<open>Duration::div_f64(3.0)\<close>: the quotient in binary, rounded half to even to a nanosecond.\<close>

definition third_of :: "duration \<Rightarrow> duration" where
  "third_of d =
     (case f64_div (as_secs_f64 d) (F64_Fin 3) of
        F64_Fin secs \<Rightarrow> nat (round_half_even (secs * 10 ^ 9))
      | _ \<Rightarrow> 0)"

fun show_shard_error :: "shard_error \<Rightarrow> string" where
  "show_shard_error EmptyAgents = ''at least one distributed agent is required''"
| "show_shard_error (DuplicateAgent name) = ''duplicate distributed agent name `'' @ name @ ''`''"
| "show_shard_error (InvalidAgentName name) = ''invalid distributed agent name `'' @ name @ ''`''"
| "show_shard_error (InsufficientConcurrency global agents) = ''global concurrency '' @ show_nat (unat global)
     @ '' is smaller than active agent count '' @ show_nat agents @ ''; every agent must receive at least one worker''"
| "show_shard_error TooManyAgents = ''too many active agents''"

text \<open>The job's prepare frames, in the order of the shards.\<close>

definition prepare_frames ::
  "duration_syntax \<Rightarrow> (config \<Rightarrow> string anyhow) \<Rightarrow> string \<Rightarrow> config \<Rightarrow> prepare_frame list anyhow" where
  "prepare_frames dur config_digest job_id cfg =
     and_then (require ''distributed controller requires [distributed]'' (cfg_distributed cfg)) (\<lambda>d.
     and_then (workload_plan_of dur cfg) (\<lambda>plan.
     and_then (remote_target_of cfg) (\<lambda>target.
     and_then (config_digest cfg) (\<lambda>digest.
     and_then (map_err (\<lambda>e. [show_shard_error e])
       (plan_shards (wp_global_concurrency plan) (map da_name (di_agents d)))) (\<lambda>shards.
     and_then (millis_of ''duration is too large'' (max (third_of (di_heartbeat_timeout d)) (250 * 10 ^ 6))) (\<lambda>heartbeat.
     Inr (map (\<lambda>shard. \<lparr>pf_job_id = job_id, pf_config_digest = digest, pf_target = target,
       pf_plan = for_shard plan shard, pf_shard = shard, pf_heartbeat_interval_ms = heartbeat\<rparr>) shards)))))))"

subsection \<open>The plans of a valid configuration\<close>

lemma require_Inr [simp]: "require text x = Inr a \<longleftrightarrow> x = Some a"
  by (simp add: require_def ok_or_Inr_iff)

lemma bail_Inr [simp]: "bail text = Inr a \<longleftrightarrow> False"
  by (simp add: bail_def)

lemma millis_of_Inr: "millis_of text d = Inr ms \<longleftrightarrow> unat ms = d div 10 ^ 6"
proof -
  have "ms = of_nat n \<longleftrightarrow> unat ms = n" if "n < 2 ^ 64" for n
    using that by (auto simp: unat_of_nat take_bit_nat_eq_self)
  then show ?thesis
    using unsigned_less [of ms, where 'a = nat] by (auto simp: millis_of_def)
qed

lemma traverse_set: "traverse f xs = Inr ys \<Longrightarrow> y \<in> set ys \<Longrightarrow> \<exists>x \<in> set xs. f x = Inr y"
  by (induction xs arbitrary: ys) (auto simp: and_then_Inr_iff)

lemma traverse_length: "traverse f xs = Inr ys \<Longrightarrow> length ys = length xs"
  by (metis length_map traverse_Inr_iff)

lemma parse_steps_nonempty [simp]: "parse_steps path v = Inr [] \<longleftrightarrow> False"
  by (auto simp: parse_steps_def and_then_Inr_iff fail_if_Inr_iff dest: traverse_length)

lemma parse_pattern_steps: "parse_pattern dur idx item = Inr p \<Longrightarrow> cp_steps p \<noteq> []"
  by (auto simp: parse_pattern_def and_then_Inr_iff Let_def split: option.splits if_splits)

lemma parse_patterns_ok:
  assumes "parse_patterns dur params = Inr ps"
  shows "ps \<noteq> [] \<and> (\<forall>p \<in> set ps. cp_steps p \<noteq> [])"
proof -
  have pat: "ps \<noteq> [] \<and> (\<forall>p \<in> set ps. cp_steps p \<noteq> [])" if "parse_pattern_array dur v = Inr ps" for v
    using that parse_pattern_steps
    by (fastforce simp: parse_pattern_array_def and_then_Inr_iff fail_if_Inr_iff dest: traverse_length traverse_set)
  have call: "ps \<noteq> [] \<and> (\<forall>p \<in> set ps. cp_steps p \<noteq> [])" if "parse_tool_call_array v = Inr ps" for v
    using that
    by (fastforce simp: parse_tool_call_array_def parse_tool_call_def and_then_Inr_iff fail_if_Inr_iff
        dest: traverse_length traverse_set)
  show ?thesis
    using assms pat call by (auto simp: parse_patterns_def single_call_def split: option.splits)
qed

lemma normalize_pattern_ok:
  assumes "normalize_pattern p = Inr q" "cp_steps p \<noteq> []"
  shows "\<not> pattern_invalid q"
proof -
  obtain steps where s: "traverse normalize_step (cp_steps p) = Inr steps" "pat_steps q = steps"
    and w: "pat_weight q = cp_weight p" "f64_is_finite (cp_weight p)" "\<not> f64_le (cp_weight p) (F64_Fin 0)"
    using assms(1) by (auto simp: normalize_pattern_def and_then_Inr_iff fail_if_Inr_iff)
  have "steps \<noteq> []" using traverse_length [OF s(1)] assms(2) by auto
  moreover have "st_tool step \<noteq> [] \<and> json_is_object (st_args step)" if "step \<in> set steps" for step
    using traverse_set [OF s(1) that] by (auto simp: normalize_step_def split: if_splits)
  ultimately show ?thesis using s(2) w by (auto simp: pattern_invalid_def list_ex_iff)
qed

lemma workload_plan_ok:
  assumes "workload_plan_of dur cfg = Inr plan"
  shows "wp_patterns plan \<noteq> [] \<and> \<not> list_ex pattern_invalid (wp_patterns plan)"
proof -
  obtain ps where ps: "parse_patterns dur (sc_params (cfg_scenario cfg)) = Inr ps"
    "traverse normalize_pattern ps = Inr (wp_patterns plan)"
    using assms by (auto simp: workload_plan_of_def and_then_Inr_iff Let_def)
  note ok = parse_patterns_ok [OF ps(1)]
  have "wp_patterns plan \<noteq> []" using traverse_length [OF ps(2)] ok by auto
  moreover have "\<not> pattern_invalid q" if "q \<in> set (wp_patterns plan)" for q
    using traverse_set [OF ps(2) that] ok normalize_pattern_ok by blast
  ultimately show ?thesis by (auto simp: list_ex_iff)
qed

text \<open>The frames, part by part.\<close>

lemma prepare_frames_Inr:
  assumes "prepare_frames dur config_digest job_id cfg = Inr fs"
  shows "\<exists>d plan target digest shards heartbeat. cfg_distributed cfg = Some d \<and> workload_plan_of dur cfg = Inr plan
     \<and> remote_target_of cfg = Inr target \<and> config_digest cfg = Inr digest
     \<and> plan_shards (wp_global_concurrency plan) (map da_name (di_agents d)) = Inr shards \<and> 250 \<le> unat heartbeat
     \<and> fs = map (\<lambda>shard. \<lparr>pf_job_id = job_id, pf_config_digest = digest, pf_target = target,
          pf_plan = for_shard plan shard, pf_shard = shard, pf_heartbeat_interval_ms = heartbeat\<rparr>) shards"
proof -
  have ms: "250 \<le> max a (250 * 10 ^ 6) div 10 ^ 6" for a :: nat by simp
  obtain d where d: "cfg_distributed cfg = Some d"
    using assms unfolding prepare_frames_def and_then_Inr_iff require_Inr by blast
  obtain plan target digest shards heartbeat where p: "workload_plan_of dur cfg = Inr plan"
    "remote_target_of cfg = Inr target" "config_digest cfg = Inr digest"
    "map_err (\<lambda>e. [show_shard_error e]) (plan_shards (wp_global_concurrency plan) (map da_name (di_agents d))) = Inr shards"
    "unat (heartbeat :: u64) = max (third_of (di_heartbeat_timeout d)) (250 * 10 ^ 6) div 10 ^ 6"
    "fs = map (\<lambda>shard. \<lparr>pf_job_id = job_id, pf_config_digest = digest, pf_target = target,
          pf_plan = for_shard plan shard, pf_shard = shard, pf_heartbeat_interval_ms = heartbeat\<rparr>) shards"
    using assms d unfolding prepare_frames_def and_then_Inr_iff require_Inr millis_of_Inr by auto
  have "plan_shards (wp_global_concurrency plan) (map da_name (di_agents d)) = Inr shards"
    using p(4) by (auto simp: map_err_def split: sum.splits)
  then show ?thesis using d p ms by (intro exI conjI) auto
qed

subsection \<open>What a worker may still refuse\<close>

text \<open>
  The refusals that are the worker operator's decision about a well-formed frame, with their reasons. A
  duration or timeout below a millisecond is refused because the frame carries whole milliseconds.
\<close>

fun limit_refusal :: "agent_policy \<Rightarrow> prepare_frame \<Rightarrow> policy_error \<Rightarrow> bool" where
  "limit_refusal p f (Pol_Concurrency n m) \<longleftrightarrow> pol_max_concurrency p < ap_concurrency (pf_plan f)"
| "limit_refusal p f (Pol_Duration n m) \<longleftrightarrow> ap_duration_ms (pf_plan f) = 0
     \<or> pol_max_duration p < from_millis (ap_duration_ms (pf_plan f))"
| "limit_refusal p f (Pol_StartupTimeout n m) \<longleftrightarrow> rt_startup_timeout_ms (pf_target f) = 0
     \<or> pol_max_startup_timeout p < from_millis (rt_startup_timeout_ms (pf_target f))"
| "limit_refusal p f Pol_PlaintextDenied \<longleftrightarrow> \<not> pol_allow_plaintext p"
| "limit_refusal p f Pol_CredentialOverPlaintext \<longleftrightarrow> rt_auth (pf_target f) \<noteq> None \<and> rt_headers_from_env (pf_target f) = []"
| "limit_refusal p f (Pol_HostDenied h) \<longleftrightarrow> pol_allowed_target_hosts p \<noteq> {} \<and> h \<notin> pol_allowed_target_hosts p"
| "limit_refusal p f (Pol_RestrictedAddress h) \<longleftrightarrow> h \<notin> pol_allowed_target_hosts p"
| "limit_refusal p f Pol_InvalidClientId \<longleftrightarrow> rt_auth (pf_target f) \<noteq> None"
| "limit_refusal p f Pol_OfflineAccess \<longleftrightarrow>
     (\<exists>a \<in> set_option (rt_auth (pf_target f)). \<exists>s \<in> set (ra_scopes a). eq_ignore_ascii_case s OFFLINE_ACCESS)"
| "limit_refusal p f (Pol_InvalidScope s) \<longleftrightarrow>
     (\<exists>a \<in> set_option (rt_auth (pf_target f)). s \<in> set (ra_scopes a) \<and> \<not> scope_text_ok s)"
| "limit_refusal p f e \<longleftrightarrow> False"

lemma frame_work_refusal:
  assumes frames: "prepare_frames dur config_digest job_id cfg = Inr fs" and f: "f \<in> set fs"
    and refused: "check_work p f = Inl e"
  shows "limit_refusal p f e"
proof -
  obtain d plan target digest shards heartbeat where P0: "cfg_distributed cfg = Some d"
    and P: "workload_plan_of dur cfg = Inr plan" and P1: "remote_target_of cfg = Inr target" "config_digest cfg = Inr digest"
    and P2: "plan_shards (wp_global_concurrency plan) (map da_name (di_agents d)) = Inr shards" "250 \<le> unat (heartbeat :: u64)"
    and P3: "fs = map (\<lambda>shard. \<lparr>pf_job_id = job_id, pf_config_digest = digest, pf_target = target,
          pf_plan = for_shard plan shard, pf_shard = shard, pf_heartbeat_interval_ms = heartbeat\<rparr>) shards"
    using prepare_frames_Inr [OF frames] by (elim exE conjE) (rule that; assumption)
  note P = P P2 P3
  obtain s where s: "s \<in> set shards" "pf_shard f = s" "pf_plan f = for_shard plan s" "pf_heartbeat_interval_ms f = heartbeat"
    using f P(4) by auto
  note F = plan_shards_facts [OF P(2)]
  have conc: "1 \<le> unat (sh_concurrency s)" and count: "unat (sh_agent_count s) = length (di_agents d)"
    using F s(1) by auto
  have "unat (sh_index s) \<in> set (map (unat \<circ> sh_index) shards)" using s(1) by auto
  then have index: "unat (sh_index s) < length (di_agents d)" using F by simp
  have "sh_agent_name s \<in> set (map sh_agent_name shards)" using s(1) by simp
  then have "sh_agent_name s \<in> set (map da_name (di_agents d))" using F by simp
  then have name: "sh_agent_name s \<noteq> []"
    using P(2) by (auto simp: plan_shards_Inr_iff list_all_iff is_portable_name_def)
  have "sh_agent_count s \<noteq> 0" "\<not> sh_agent_count s \<le> sh_index s" "heartbeat \<noteq> 0" "sh_concurrency s \<noteq> 0"
    using count index conc P(3) by (auto simp: word_le_nat_alt)
  moreover have "ap_concurrency (pf_plan f) = sh_concurrency s" "ap_patterns (pf_plan f) = wp_patterns plan"
    using s(3) by (simp_all add: for_shard_def)
  ultimately show ?thesis
    using refused s(2,4) name workload_plan_ok [OF P(1)]
    by (auto simp: check_work_def Let_def and_then_Inl_iff fail_if_Inl_iff)
qed

lemma remote_target_Inr:
  assumes "remote_target_of cfg = Inr t"
  shows "srv_url (cfg_server cfg) = Some (rt_url t)" "rt_headers_from_env t = srv_headers_from_env (cfg_server cfg)"
    "transport_name (rt_transport t) = srv_transport (cfg_server cfg)"
    "rt_auth t = Some a \<Longrightarrow> \<exists>auth client_id env_name m. srv_auth (cfg_server cfg) = Some auth
       \<and> au_registration auth = Reg_PreRegistered client_id (Some env_name) m \<and> ra_client_id a = client_id
       \<and> ra_client_secret_env a = env_name \<and> ra_scopes a = au_scopes auth
       \<and> ra_offline_access a = au_offline_access auth \<and> ra_max_step_up_retries a = au_max_step_up_retries auth"
  using assms
  by (auto simp: remote_target_of_def remote_transport_of_def normalize_client_credentials_def Let_def and_then_Inr_iff
      split: option.splits if_splits oauth_registration.splits)

lemma scopes_refused:
  "try_fold check_scope () ss = Inl x \<Longrightarrow> \<exists>s \<in> set ss. \<not> scope_text_ok s \<and> x = Pol_InvalidScope s"
  by (induction ss) (auto simp: and_then_Inl_iff check_scope_def fail_if_Inl_iff)

lemma frame_target_refusal:
  assumes valid: "validate parse cfg = Inr ()" and d: "cfg_distributed cfg = Some d"
    and t: "remote_target_of cfg = Inr (pf_target f)" and refused: "check_target parse p (pf_target f) = Inl e"
  shows "limit_refusal p f e"
proof -
  note V = validate_Inr [OF valid] and D = validate_distributed_Inr [OF validate_Inr(3) [OF valid] d]
  note T = remote_target_Inr [OF t]
  obtain u where u: "parse (rt_url (pf_target f)) = Inr u" "url_username u = []" "url_password u = None" "url_fragment u = None"
    "validate_scheme (rt_transport (pf_target f)) (url_scheme u) = Inr ()" "url_host_str u \<noteq> None"
    "rt_headers_from_env (pf_target f) \<noteq> [] \<longrightarrow> url_scheme u \<in> {''https'', ''wss''}"
  proof -
    obtain raw u where r: "srv_url (cfg_server cfg) = Some raw"
      "validate_remote_endpoint parse raw (srv_transport (cfg_server cfg)) (srv_headers_from_env (cfg_server cfg) \<noteq> []) = Inr u"
      using V(4) [OF D(2)] by blast
    show thesis
      by (rule that [of u]; cases "rt_transport (pf_target f)")
        (use r T(1-3) in \<open>auto simp: validate_remote_endpoint_Inr validate_scheme_def\<close>)
  qed
  have headers: "validate_header_refs (pf_target f) = Inr ()"
    using validate_remote_headers_Inr [OF V(1)] T(2) by (simp add: validate_header_refs_iff)
  have auth: "limit_refusal p f e" if a: "rt_auth (pf_target f) = Some a" "validate_remote_auth a = Inl e" for a
  proof -
    obtain auth client_id env_name m where A: "srv_auth (cfg_server cfg) = Some auth"
      "au_registration auth = Reg_PreRegistered client_id (Some env_name) m" "ra_client_id a = client_id"
      "ra_client_secret_env a = env_name" "ra_scopes a = au_scopes auth" "ra_offline_access a = au_offline_access auth"
      "ra_max_step_up_retries a = au_max_step_up_retries auth" using T(4) [OF a(1)] by blast
    have "is_portable_env_name (ra_client_secret_env a)" "\<not> ra_offline_access a" "ra_max_step_up_retries a \<le> 3"
      using validate_auth_Inr(2,4) [OF V(2) A(1)] A D(5) [OF A(1)] by auto
    then show ?thesis
      using a scopes_refused by (fastforce simp: validate_remote_auth_def and_then_Inl_iff fail_if_Inl_iff not_less list_ex_iff)
  qed
  from refused consider (timeout) n m where "e = Pol_StartupTimeout n m" "rt_startup_timeout_ms (pf_target f) = 0
        \<or> pol_max_startup_timeout p < from_millis (rt_startup_timeout_ms (pf_target f))"
    | (plain) "e = Pol_PlaintextDenied" "\<not> pol_allow_plaintext p"
    | (credential) "e = Pol_CredentialOverPlaintext" "url_scheme u \<notin> {''https'', ''wss''}"
        "rt_headers_from_env (pf_target f) \<noteq> [] \<or> rt_auth (pf_target f) \<noteq> None"
    | (denied) h where "e = Pol_HostDenied h" "pol_allowed_target_hosts p \<noteq> {}" "h \<notin> pol_allowed_target_hosts p"
    | (restricted) h where "e = Pol_RestrictedAddress h" "h \<notin> pol_allowed_target_hosts p"
    | (auth) a where "rt_auth (pf_target f) = Some a" "validate_remote_auth a = Inl e"
    unfolding check_target_def Let_def and_then_Inl_iff
    by (elim disjE exE conjE) (use u headers in \<open>auto simp: fail_if_Inl_iff fail_if_Inr_iff ok_or_Inl_iff
        split: option.splits if_splits\<close>)
  then show ?thesis
    using u(7) auth by cases auto
qed

subsection \<open>Which valid configurations become frames\<close>

lemma check_agent_names:
  assumes "try_fold check_agent s xs = Inr s'" "distinct (fst s)"
  shows "distinct (fst s') \<and> set (fst s') = set (fst s) \<union> (str_trim \<circ> da_name) ` set xs
    \<and> distinct (map (str_trim \<circ> da_name) xs) \<and> (\<forall>x \<in> set xs. str_trim (da_name x) \<notin> set (fst s))"
  using assms
proof (induction xs arbitrary: s)
  case (Cons x xs)
  obtain n h where s: "s = (n, h)" by (cases s)
  obtain h' where c: "check_agent s x = Inr (str_trim (da_name x) # n, h')" "str_trim (da_name x) \<notin> set n"
    using Cons.prems(1) unfolding s
    by (auto simp: check_agent_def Let_def and_then_Inr_iff insert_fresh_def split: if_splits)
  have "try_fold check_agent (str_trim (da_name x) # n, h') xs = Inr s'" using Cons.prems(1) c(1) by simp
  from Cons.IH [OF this] c(2) Cons.prems(2) show ?case by (auto simp: s)
qed simp

lemma portable_agents_distinct:
  assumes "validate_distributed cfg = Inr ()" "cfg_distributed cfg = Some d"
  shows "distinct (map da_name (di_agents d))"
proof -
  obtain s where "try_fold check_agent ([], []) (di_agents d) = Inr s"
    using assms unfolding validate_distributed_def by (auto simp: and_then_Inr_iff)
  from check_agent_names [OF this] have "distinct (map str_trim (map da_name (di_agents d)))" by simp
  then show ?thesis by (auto simp: distinct_map dest: inj_on_imageI2)
qed

lemma unat_ucast_u32: "unat (x :: u64) < 4294967296 \<Longrightarrow> unat (ucast x :: u32) = unat x"
  by (simp add: unsigned_ucast_eq take_bit_nat_eq_self)

lemma valid_concurrency:
  assumes "validate_distributed cfg = Inr ()" "cfg_distributed cfg = Some d" "workload_plan_of dur cfg = Inr plan"
  shows "length (di_agents d) \<le> unat (wp_global_concurrency plan)"
proof -
  let ?v = "json_get (sc_params (cfg_scenario cfg)) ''concurrent''"
  have l: "length (di_agents d) \<le> unat (case Option.bind ?v json_as_u64 of Some n \<Rightarrow> n | None \<Rightarrow> (10 :: u64))"
    using assms(1,2) unfolding validate_distributed_def by (auto simp: and_then_Inr_iff Let_def not_less)
  have "u32_param cfg ''concurrent'' 10 = Inr (wp_global_concurrency plan)"
    using assms(3) unfolding workload_plan_of_def by (auto simp: and_then_Inr_iff Let_def)
  then show ?thesis
    using l by (cases ?v) (auto simp: u32_param_def unat_ucast_u32 dest!: sym [of _ "wp_global_concurrency plan"]
        split: option.splits if_splits)
qed

definition plannable :: "distributed_config \<Rightarrow> bool" where
  "plannable d \<longleftrightarrow> list_all (is_portable_name \<circ> da_name) (di_agents d) \<and> length (di_agents d) < 2 ^ 32
     \<and> max (third_of (di_heartbeat_timeout d)) (250 * 10 ^ 6) div 10 ^ 6 < 2 ^ 64"

lemma prepare_frames_some:
  assumes "cfg_distributed cfg = Some d" "workload_plan_of dur cfg = Inr plan" "remote_target_of cfg = Inr target"
    "config_digest cfg = Inr digest"
  shows "(\<exists>fs. prepare_frames dur config_digest job_id cfg = Inr fs) \<longleftrightarrow>
     (\<exists>shards. plan_shards (wp_global_concurrency plan) (map da_name (di_agents d)) = Inr shards)
     \<and> max (third_of (di_heartbeat_timeout d)) (250 * 10 ^ 6) div 10 ^ 6 < 2 ^ 64"
proof -
  have "(\<exists>ms. millis_of t x = Inr ms) \<longleftrightarrow> x div 10 ^ 6 < 2 ^ 64" for t x by (simp add: millis_of_def)
  then show ?thesis
    unfolding prepare_frames_def using assms by (simp add: and_then_Inr_iff map_err_Inr_iff) blast
qed

text \<open>
  C16. Of the configurations \<open>validate\<close> accepts and whose workload and target are normalized, the
  controller makes prepare frames exactly when every agent's name is portable (\<open>validate\<close> asks only that
  it is not blank), fewer than \<open>2 ^ 32\<close> agents are named and a third of the heartbeat timeout fits 64 bits of
  milliseconds: duplicate names and too few slots for the agents, which the planner also refuses, do not
  get past \<open>validate\<close>.
\<close>

theorem valid_config_planned_iff:
  assumes valid: "validate parse cfg = Inr ()" and d: "cfg_distributed cfg = Some d"
    and plan: "workload_plan_of dur cfg = Inr plan" and target: "remote_target_of cfg = Inr target"
    and digest: "config_digest cfg = Inr digest"
  shows "(\<exists>fs. prepare_frames dur config_digest job_id cfg = Inr fs) \<longleftrightarrow> plannable d"
proof -
  note V = validate_Inr(3) [OF valid]
  have facts: "distinct (map da_name (di_agents d))" "length (di_agents d) \<le> unat (wp_global_concurrency plan)"
    "di_agents d \<noteq> []"
    using portable_agents_distinct [OF V d] valid_concurrency [OF V d plan] validate_distributed_Inr(1) [OF V d] by auto
  let ?names = "map da_name (di_agents d)"
  have "\<exists>names. bs_wf names \<and> set names = set ?names \<and> length names = length ?names"
    using facts(1) by (intro exI [of _ "sort ?names"]) (simp add: bs_wf_def strict_sorted_iff)
  then have "(\<exists>shards. plan_shards (wp_global_concurrency plan) ?names = Inr shards) \<longleftrightarrow>
      list_all (is_portable_name \<circ> da_name) (di_agents d) \<and> length (di_agents d) < 2 ^ 32"
    unfolding plan_shards_Inr_iff using facts by (auto simp: list.pred_map)
  then show ?thesis
    using prepare_frames_some [where config_digest = config_digest, OF d plan target digest, of job_id] by (auto simp: plannable_def)
qed

text \<open>
  C15. Whatever a worker refuses of a frame that the controller prepared from a valid configuration is a
  limit its operator set, a credential that would travel in clear text, a duration or timeout that is less
  than a millisecond, or a detail of OAuth client credentials that only the worker checks. In particular
  the shard, the heartbeat interval, the patterns, the URL and its scheme, the headers and the environment
  names of the frame are all accepted.
\<close>

theorem prepared_frame_refused_by_limits_only:
  assumes valid: "validate parse cfg = Inr ()" and frames: "prepare_frames dur config_digest job_id cfg = Inr fs"
    and f: "f \<in> set fs" and refused: "authorize parse p f = Inl e"
  shows "limit_refusal p f e"
proof -
  obtain d plan target digest shards heartbeat where P: "cfg_distributed cfg = Some d" "workload_plan_of dur cfg = Inr plan"
    "remote_target_of cfg = Inr target" "config_digest cfg = Inr digest"
    "plan_shards (wp_global_concurrency plan) (map da_name (di_agents d)) = Inr shards" "250 \<le> unat (heartbeat :: u64)"
    "fs = map (\<lambda>shard. \<lparr>pf_job_id = job_id, pf_config_digest = digest, pf_target = target,
          pf_plan = for_shard plan shard, pf_shard = shard, pf_heartbeat_interval_ms = heartbeat\<rparr>) shards"
    using prepare_frames_Inr [OF frames] by (elim exE conjE) (rule that; assumption)
  have "remote_target_of cfg = Inr (pf_target f)" using f P(3,7) by auto
  then show ?thesis
    using refused frame_work_refusal [OF frames f] frame_target_refusal [OF valid P(1)]
    by (auto simp: authorize_def and_then_Inl_iff)
qed

subsection \<open>A configuration that is planned\<close>

definition sample_agent :: "string \<Rightarrow> distributed_agent_config" where
  "sample_agent name = \<lparr>da_name = name, da_ssh_host = [hd name], da_ssh_port = None, da_identity_file = None,
     da_known_hosts_file = None\<rparr>"

definition sample_inventory :: "string list \<Rightarrow> distributed_config" where
  "sample_inventory names = \<lparr>di_require_all_agents = True, di_connect_timeout = 10 ^ 9, di_ready_timeout = 10 ^ 9,
     di_heartbeat_timeout = 15 * 10 ^ 9, di_start_lead = 10 ^ 9, di_agents = map sample_agent names\<rparr>"

definition sample_config :: "string list \<Rightarrow> config" where
  "sample_config names =
     \<lparr>cfg_server = \<lparr>srv_command = None, srv_args = [], srv_env = [], srv_working_dir = None,
        srv_url = Some ''https://example.com'', srv_transport = ''http'', srv_startup_timeout = 10 ^ 9,
        srv_allowed_hosts = [], srv_protocol_version = None, srv_headers_from_env = [], srv_auth = None\<rparr>,
      cfg_scenario = \<lparr>sc_kind = ''sustained'', sc_params = JObject [(''tool'', JString ''echo'')]\<rparr>,
      cfg_thresholds = \<lparr>th_p50_latency = None, th_p95_latency = None, th_p99_latency = None, th_p999_latency = None,
        th_error_rate = None, th_hang_timeout = None, th_memory_growth_mb = None, th_rss_leak_mb_per_sec = None,
        th_tool_slos = []\<rparr>,
      cfg_output = \<lparr>out_report_dir = ''reports'', out_formats = [''json''], out_otlp = None, out_history = None\<rparr>,
      cfg_strict = True, cfg_distributed = Some (sample_inventory names)\<rparr>"

definition sample_duration :: duration_syntax where
  "sample_duration s = (if s = ''60s'' then Inr (60 * 10 ^ 9) else Inl ''expected a duration'')"

definition sample_config_parse :: "string \<Rightarrow> string + url" where
  "sample_config_parse s = Inr (sample_url (Host_Domain ''example.com'') ''example.com'')"

lemmas sample_config_defs = sample_config_def sample_inventory_def sample_agent_def sample_config_parse_def

lemma sample_config_distributed:
  "validate_distributed (sample_config names) = Inr () \<longleftrightarrow>
     2 \<le> length names \<and> length names \<le> 10 \<and> (\<exists>s. try_fold check_agent ([], []) (map sample_agent names) = Inr s)"
  by (auto simp: validate_distributed_def sample_config_def sample_inventory_def and_then_Inr_iff all_checked_def json_get_def
      not_less)

lemma sample_config_validate:
  "validate sample_config_parse (sample_config names) = Inr () \<longleftrightarrow> validate_distributed (sample_config names) = Inr ()"
  by (auto simp: validate_def Let_def and_then_Inr_iff sample_config_defs all_checked_def validate_remote_headers_def
      validate_auth_def validate_protocol_version_def validate_remote_endpoint_def validate_thresholds_def validate_output_def
      KNOWN_TRANSPORTS_def KNOWN_SCENARIOS_def OUTPUT_FORMATS_def insert_fresh_def fail_if_Inr_iff)

lemma check_agent_Inr:
  "check_agent (names, hosts) a = Inr s \<longleftrightarrow>
     str_trim (da_name a) \<noteq> [] \<and> str_trim (da_name a) \<notin> set names
     \<and> str_trim (da_ssh_host a) \<noteq> [] \<and> \<not> starts_with ''-'' (str_trim (da_ssh_host a))
     \<and> \<not> has_whitespace (str_trim (da_ssh_host a)) \<and> (str_trim (da_ssh_host a), da_ssh_port a) \<notin> set hosts
     \<and> s = (str_trim (da_name a) # names, (str_trim (da_ssh_host a), da_ssh_port a) # hosts)"
  by (auto simp: check_agent_def Let_def and_then_Inr_iff insert_fresh_def)

lemma ascii_units: "list_all (\<lambda>c. byte_of c < 128) s \<Longrightarrow> char_units s = map (\<lambda>c. [c]) s"
  by (induction s) simp_all

lemma sample_texts: "str_trim ''east'' = ''east''" "str_trim ''west'' = ''west''" "str_trim ''east 1'' = ''east 1''"
  "str_trim ''e'' = ''e''" "str_trim ''w'' = ''w''"
  by (simp_all add: str_trim_def ascii_units is_space_unit_def is_whitespace_char_def)

lemma sample_ssh_hosts: "\<not> has_whitespace ''e''" "\<not> has_whitespace ''w''"
  by (simp_all add: has_whitespace_def is_whitespace_char_def)

lemma sample_agents: "\<exists>s. try_fold check_agent ([], []) (map sample_agent [''east'', ''west'']) = Inr s"
  "\<exists>s. try_fold check_agent ([], []) (map sample_agent [''east 1'', ''west'']) = Inr s"
  by (simp_all add: and_then_Inr_iff check_agent_Inr sample_agent_def sample_texts sample_ssh_hosts starts_with_def)

lemma sample_config_valid: "validate sample_config_parse (sample_config [''east'', ''west'']) = Inr ()"
  unfolding sample_config_validate sample_config_distributed using sample_agents(1) by simp

lemma sample_config_spaced: "validate sample_config_parse (sample_config [''east 1'', ''west'']) = Inr ()"
  unfolding sample_config_validate sample_config_distributed using sample_agents(2) by simp

definition sample_plan :: workload_plan where
  "sample_plan = \<lparr>wp_scenario = Scenario_Sustained, wp_global_concurrency = 10, wp_duration_ms = 60000,
     wp_patterns = [\<lparr>pat_name = ''single:echo'', pat_weight = F64_Fin 1, pat_think_time_ms = 0,
       pat_on_step_error = On_Error_Continue, pat_steps = [\<lparr>st_tool = ''echo'', st_args = JObject []\<rparr>]\<rparr>],
     wp_seed = DEFAULT_DISTRIBUTED_SEED\<rparr>"

definition sample_target :: remote_target where
  "sample_target = \<lparr>rt_transport = Transport_Http, rt_url = ''https://example.com'', rt_startup_timeout_ms = 1000,
     rt_protocol_version = None, rt_headers_from_env = [], rt_allowed_hosts = [], rt_strict_validation = True, rt_auth = None\<rparr>"

lemma sample_plan_of: "workload_plan_of sample_duration (sample_config names) = Inr sample_plan"
  by (simp add: workload_plan_of_def sample_config_def sample_plan_def u32_param_def duration_param_def json_get_def
      json_str_def sample_duration_def with_context_def map_err_def millis_of_def parse_patterns_def single_call_def
      normalize_pattern_def normalize_step_def json_is_object_def)

lemma sample_target_of: "remote_target_of (sample_config names) = Inr sample_target"
  by (simp add: remote_target_of_def sample_config_def sample_target_def remote_transport_of_def millis_of_def require_def)

lemma sample_heartbeat: "third_of (15 * 10 ^ 9) = 5 * 10 ^ 9"
proof -
  have "f64_of_nat 15 = F64_Fin 15" "f64_round 15 = F64_Fin 15" "f64_round 5 = F64_Fin 5" "f64_of_nat 1000000000 = F64_Fin 1000000000"
    using f64_of_nat_small [of 15] f64_of_nat_small [of 5] f64_of_nat_small [of 1000000000] by (simp_all add: f64_of_nat_def)
  moreover have "round_half_even (5000000000 :: rat) = 5000000000" using round_half_even_int [of 5000000000] by simp
  ultimately show ?thesis by (simp add: third_of_def as_secs_f64_def)
qed

lemma sample_distributed: "cfg_distributed (sample_config names) = Some (sample_inventory names)"
  by (simp add: sample_config_def)

lemma plannable_sample: "plannable (sample_inventory names) \<longleftrightarrow> list_all is_portable_name names \<and> length names < 2 ^ 32"
  using sample_heartbeat by (simp add: plannable_def sample_inventory_def sample_agent_def list.pred_map comp_def)

lemma valid_config_planned_iff_witness:
  "(\<exists>fs. prepare_frames sample_duration (\<lambda>_. Inr ''digest'') ''job'' (sample_config [''east'', ''west'']) = Inr fs)
   \<and> \<not> (\<exists>fs. prepare_frames sample_duration (\<lambda>_. Inr ''digest'') ''job'' (sample_config [''east 1'', ''west'']) = Inr fs)"
proof -
  have "list_all is_portable_name [''east'', ''west'']" "\<not> list_all is_portable_name [''east 1'', ''west'']"
    by code_simp+
  then show ?thesis
    using valid_config_planned_iff [where config_digest = "\<lambda>_. Inr ''digest''", OF sample_config_valid sample_distributed
        sample_plan_of sample_target_of refl]
      valid_config_planned_iff [where config_digest = "\<lambda>_. Inr ''digest''", OF sample_config_spaced sample_distributed
        sample_plan_of sample_target_of refl] by (simp add: plannable_sample)
qed

lemma prepare_frames_nonempty: "prepare_frames dur config_digest job_id cfg = Inr fs \<Longrightarrow> fs \<noteq> []"
  by (auto dest!: prepare_frames_Inr arg_cong [of "enumerate _ _" _ length] simp: plan_shards_Inr_iff)

lemma sample_planned: "\<exists>fs. prepare_frames sample_duration (\<lambda>_. Inr ''digest'') ''job'' (sample_config [''east'', ''west'']) = Inr fs"
proof -
  have "\<exists>shards. plan_shards (wp_global_concurrency sample_plan) [''east'', ''west''] = Inr shards"
  proof -
    have "list_all is_portable_name [''east'', ''west'']" by code_simp
    moreover have "bs_wf (sort [''east'', ''west''])" by (simp add: bs_wf_def strict_sorted_iff)
    ultimately show ?thesis
      unfolding plan_shards_Inr_iff
      by (intro conjI exI [of _ "map (shard_of 10 2) (enumerate 0 (sort [''east'', ''west'']))"]
          exI [of _ "sort [''east'', ''west'']"]) (simp_all add: sample_plan_def)
  qed
  then show ?thesis
    unfolding prepare_frames_some [where config_digest = "\<lambda>_. Inr ''digest''", OF sample_distributed sample_plan_of
        sample_target_of refl]
    using sample_heartbeat by (simp add: sample_inventory_def sample_agent_def)
qed

lemma prepared_frame_refused_by_limits_only_witness:
  "\<exists>fs f e. prepare_frames sample_duration (\<lambda>_. Inr ''digest'') ''job'' (sample_config [''east'', ''west'']) = Inr fs
     \<and> f \<in> set fs \<and> authorize sample_config_parse (agent_policy_default\<lparr>pol_max_concurrency := 0\<rparr>) f = Inl e
     \<and> limit_refusal (agent_policy_default\<lparr>pol_max_concurrency := 0\<rparr>) f e"
proof -
  let ?p = "agent_policy_default\<lparr>pol_max_concurrency := 0\<rparr>"
  obtain fs where fs: "prepare_frames sample_duration (\<lambda>_. Inr ''digest'') ''job'' (sample_config [''east'', ''west'']) = Inr fs"
    using sample_planned by blast
  obtain f where f: "f \<in> set fs" using prepare_frames_nonempty [OF fs] by (cases fs) auto
  obtain e where e: "authorize sample_config_parse ?p f = Inl e"
  proof (cases "authorize sample_config_parse ?p f")
    case (Inr t)
    then show thesis
      by (auto simp: authorize_def check_work_def Let_def and_then_Inr_iff fail_if_Inr_iff word_neq_0_conv)
  qed (rule that)
  from prepared_frame_refused_by_limits_only [OF sample_config_valid fs f e] show ?thesis using fs f e by blast
qed

end
