(* ===== verification/Race_Detector.thy ===== *)
theory Race_Detector
  imports Wire "HOL-Library.Multiset" "HOL-Library.Product_Lexorder"
begin

section \<open>The race and non-determinism detector\<close>

text \<open>
  \<open>crates/engine/src/race_detector.rs\<close>: responses to the same call are grouped by a canonical text. The
  quoting of a string is \<open>serde_json\<close>'s, a parameter whose contract is the shape of a JSON string literal:
  it opens with a quote, its end can be read off it, and it determines the string. A number carries its
  text. The members of an object have distinct keys, in an order that does not matter.
\<close>

subsection \<open>Canonical texts\<close>

type_synonym quoter = "string \<Rightarrow> string"

fun separated :: "string list \<Rightarrow> string" where
  "separated [] = []"
| "separated (t # ts) = t @ concat (map (\<lambda>u. CHR '','' # u) ts)"

text \<open>The members by key: the map that they are collected into.\<close>

definition by_key :: "(string \<times> 'a) list \<Rightarrow> (string \<times> 'a) list" where
  "by_key ms = fold (\<lambda>(k, v). bt_insert k v) ms []"

definition member_text :: "quoter \<Rightarrow> string \<times> string \<Rightarrow> string" where
  "member_text q m = q (fst m) @ CHR '':'' # snd m"

fun write_canonical :: "quoter \<Rightarrow> json \<Rightarrow> string" where
  "write_canonical q JNull = ''null''"
| "write_canonical q (JBool b) = (if b then ''true'' else ''false'')"
| "write_canonical q (JNumber n) = n"
| "write_canonical q (JString s) = q s"
| "write_canonical q (JArray items) = CHR ''['' # separated (map (write_canonical q) items) @ '']''"
| "write_canonical q (JObject ms) =
     CHR ''{'' # separated (map (member_text q) (by_key (map (\<lambda>(k, v). (k, write_canonical q v)) ms))) @ ''}''"

subsection \<open>Groups\<close>

record divergence_report =
  dr_total_responses :: nat
  dr_unique_responses :: nat
  dr_samples :: "(nat \<times> string) list"
  dr_diverged :: bool

definition divergence_default :: divergence_report where
  "divergence_default = \<lparr>dr_total_responses = 0, dr_unique_responses = 0, dr_samples = [], dr_diverged = False\<rparr>"

definition count_group :: "string \<Rightarrow> (string, nat) btree \<Rightarrow> (string, nat) btree" where
  "count_group t groups = bt_insert t ((case bt_get groups t of Some n \<Rightarrow> n | None \<Rightarrow> 0) + 1) groups"

text \<open>The comparator of the sort: the larger count first, then the text.\<close>

definition sample_key :: "nat \<times> string \<Rightarrow> int \<times> string" where
  "sample_key s = (- int (fst s), snd s)"

definition race_analyze :: "quoter \<Rightarrow> json list \<Rightarrow> divergence_report" where
  "race_analyze q responses =
     (if responses = [] then divergence_default
      else
        let groups = fold (\<lambda>v. count_group (write_canonical q v)) responses [];
            samples = sort_key sample_key (map (\<lambda>(canon, count). (count, canon)) groups) in
        \<lparr>dr_total_responses = length responses, dr_unique_responses = length samples, dr_samples = samples,
         dr_diverged = 1 < length samples\<rparr>)"

subsection \<open>Values up to the order of members\<close>

fun canonical_value :: "json \<Rightarrow> json" where
  "canonical_value (JArray items) = JArray (map canonical_value items)"
| "canonical_value (JObject ms) = JObject (by_key (map (\<lambda>(k, v). (k, canonical_value v)) ms))"
| "canonical_value j = j"

definition number_text :: "string \<Rightarrow> bool" where
  "number_text n \<longleftrightarrow> n \<noteq> [] \<and> set n \<subseteq> set ''0123456789+-.eE''"

fun json_ok :: "json \<Rightarrow> bool" where
  "json_ok (JNumber n) = number_text n"
| "json_ok (JArray items) = list_all json_ok items"
| "json_ok (JObject ms) = list_all (\<lambda>(_, v). json_ok v) ms"
| "json_ok _ = True"

definition quote_contract :: "quoter \<Rightarrow> bool" where
  "quote_contract q \<longleftrightarrow> (\<forall>s. q s \<noteq> [] \<and> hd (q s) = CHR 0x22) \<and> (\<forall>s t x y. q s @ x = q t @ y \<longrightarrow> s = t \<and> x = y)"

subsection \<open>A canonical text determines its value\<close>

text \<open>The writer without the sorting, on values whose members are sorted already.\<close>

fun plain_text :: "quoter \<Rightarrow> json \<Rightarrow> string" where
  "plain_text q JNull = ''null''"
| "plain_text q (JBool b) = (if b then ''true'' else ''false'')"
| "plain_text q (JNumber n) = n"
| "plain_text q (JString s) = q s"
| "plain_text q (JArray items) = CHR ''['' # separated (map (plain_text q) items) @ '']''"
| "plain_text q (JObject ms) = CHR ''{'' # separated (map (\<lambda>(k, v). member_text q (k, plain_text q v)) ms) @ ''}''"

lemma bt_insert_map: "bt_insert k (f v) (map (\<lambda>(k, v). (k, f v)) m) = map (\<lambda>(k, v). (k, f v)) (bt_insert k v m)"
  by (induction k v m rule: bt_insert.induct) auto

lemma by_key_map: "by_key (map (\<lambda>(k, v). (k, f v)) ms) = map (\<lambda>(k, v). (k, f v)) (by_key ms)"
proof -
  have "fold (\<lambda>(k, v). bt_insert k v) (map (\<lambda>(k, v). (k, f v)) ms) (map (\<lambda>(k, v). (k, f v)) m)
      = map (\<lambda>(k, v). (k, f v)) (fold (\<lambda>(k, v). bt_insert k v) ms m)" for m
    by (induction ms arbitrary: m) (auto simp: bt_insert_map)
  from this [of "[]"] show ?thesis by (simp add: by_key_def)
qed

lemma set_by_key: "set (by_key ms) \<subseteq> set ms"
proof -
  have ins: "set (bt_insert k v m) \<subseteq> insert (k, v) (set m)" for k :: string and v :: 'a and m
    by (induction k v m rule: bt_insert.induct) auto
  have "set (fold (\<lambda>(k, v). bt_insert k v) ms m) \<subseteq> set ms \<union> set m" for m :: "(string \<times> 'a) list"
  proof (induction ms arbitrary: m)
    case (Cons kv ms)
    obtain k v where kv: "kv = (k, v)" by (cases kv)
    have "set (fold (\<lambda>(k, v). bt_insert k v) (kv # ms) m) \<subseteq> set ms \<union> set (bt_insert k v m)"
      using Cons.IH [of "bt_insert k v m"] by (simp add: kv)
    also have "\<dots> \<subseteq> set (kv # ms) \<union> set m" using ins [of k v m] by (auto simp: kv)
    finally show ?case .
  qed simp
  from this [of "[]"] show ?thesis by (simp add: by_key_def)
qed

lemma write_canonical_plain: "write_canonical q j = plain_text q (canonical_value j)"
proof (induction j)
  case (JArray items)
  then have eq: "map (write_canonical q) items = map (plain_text q \<circ> canonical_value) items" by simp
  show ?case by (simp only: canonical_value.simps write_canonical.simps plain_text.simps map_map eq)
next
  case (JObject ms)
  have "map (\<lambda>(k, v). (k, write_canonical q v)) ms
      = map (\<lambda>(k, v). (k, plain_text q v)) (map (\<lambda>(k, v). (k, canonical_value v)) ms)"
    using JObject by (auto simp: snds.simps)
  then have "by_key (map (\<lambda>(k, v). (k, write_canonical q v)) ms)
      = map (\<lambda>(k, v). (k, plain_text q v)) (by_key (map (\<lambda>(k, v). (k, canonical_value v)) ms))"
    by (simp only: by_key_map)
  then show ?case by (simp add: comp_def split_def)
qed simp_all

lemma canonical_ok: "json_ok j \<Longrightarrow> json_ok (canonical_value j)"
proof (induction j)
  case (JArray items)
  then show ?case by (auto simp: list_all_iff)
next
  case (JObject ms)
  have "json_ok v" if "(k, v) \<in> set (map (\<lambda>(k, v). (k, canonical_value v)) ms)" for k v
    using that JObject by (fastforce simp: list_all_iff snds.simps)
  then show ?case using set_by_key [of "map (\<lambda>(k, v). (k, canonical_value v)) ms"] by (fastforce simp: list_all_iff)
qed simp_all

lemma quote_head: "quote_contract q \<Longrightarrow> q t \<noteq> [] \<and> hd (q t) = CHR 0x22"
  by (simp add: quote_contract_def)

lemma quote_inj: "quote_contract q \<Longrightarrow> q t @ x = q u @ y \<Longrightarrow> t = u \<and> x = y"
  unfolding quote_contract_def by blast

text \<open>A text is self-delimiting where a character that no number has, or nothing, follows it.\<close>

definition ends_number :: "string \<Rightarrow> bool" where
  "ends_number x \<longleftrightarrow> x = [] \<or> hd x \<notin> set ''0123456789+-.eE''"

definition delimited :: "('a \<Rightarrow> string) \<Rightarrow> ('a \<Rightarrow> bool) \<Rightarrow> 'a \<Rightarrow> bool" where
  "delimited f ok a \<longleftrightarrow> (\<forall>b x y. ok b \<longrightarrow> ends_number x \<longrightarrow> ends_number y \<longrightarrow> f a @ x = f b @ y \<longrightarrow> a = b \<and> x = y)"

definition closing :: "char \<Rightarrow> bool" where
  "closing c \<longleftrightarrow> c = CHR '']'' \<or> c = CHR ''}''"

definition opens :: "('a \<Rightarrow> string) \<Rightarrow> ('a \<Rightarrow> bool) \<Rightarrow> bool" where
  "opens f ok \<longleftrightarrow> (\<forall>a. ok a \<longrightarrow> f a \<noteq> [] \<and> \<not> closing (hd (f a)))"

lemma number_prefix:
  assumes "set n \<subseteq> D" "set m \<subseteq> D" "x = [] \<or> hd x \<notin> D" "y = [] \<or> hd y \<notin> D" "n @ x = m @ y"
  shows "n = m \<and> x = y"
proof -
  have tw: "takeWhile (\<lambda>c. c \<in> D) (n @ x) = n" if "set n \<subseteq> D" "x = [] \<or> hd x \<notin> D" for n x :: "'a list"
    using that by (cases x) (auto simp: takeWhile_append2 subset_iff)
  from tw [OF assms(1,3)] tw [OF assms(2,4)] assms(5) show ?thesis by (metis same_append_eq)
qed

lemma ends_numberI [simp]: "ends_number (CHR '','' # x)" "closing c \<Longrightarrow> ends_number (c # x)" "ends_number (CHR '':'' # x)"
  by (auto simp: ends_number_def closing_def)

lemma separated_tail:
  assumes "\<forall>a \<in> set as. delimited f ok a" "list_all ok bs" "closing c"
    and "concat (map (\<lambda>u. CHR '','' # u) (map f as)) @ c # x = concat (map (\<lambda>u. CHR '','' # u) (map f bs)) @ c # y"
  shows "as = bs \<and> x = y"
  using assms
proof (induction as arbitrary: bs)
  case Nil
  then show ?case by (cases bs) (auto simp: closing_def)
next
  case (Cons a as)
  have c: "c \<noteq> CHR '',''" using Cons.prems(3) by (auto simp: closing_def)
  then obtain b bs' where bs: "bs = b # bs'" using Cons.prems(4) by (cases bs) auto
  let ?x = "concat (map (\<lambda>u. CHR '','' # u) (map f as)) @ c # x"
  let ?y = "concat (map (\<lambda>u. CHR '','' # u) (map f bs')) @ c # y"
  have ends: "ends_number ?x" "ends_number ?y" using Cons.prems(3) by (cases as; cases bs'; simp)+
  have "f a @ ?x = f b @ ?y" "ok b" using Cons.prems(2,4) by (auto simp: bs)
  with Cons.prems(1) ends have ab: "a = b" "?x = ?y" by (auto simp: delimited_def)
  from Cons.IH [of bs'] ab(2) Cons.prems(1-3) have "as = bs' \<and> x = y" by (simp add: bs)
  with ab(1) show ?case by (simp add: bs)
qed

lemma separated_inj:
  assumes "\<forall>a \<in> set as. delimited f ok a" "list_all ok as" "list_all ok bs" "closing c" "opens f ok"
    and "separated (map f as) @ c # x = separated (map f bs) @ c # y"
  shows "as = bs \<and> x = y"
proof (cases as)
  case Nil
  have "bs = []"
  proof (cases bs)
    case (Cons b bs')
    then have "f b \<noteq> []" "\<not> closing (hd (f b))" using assms(3,5) by (auto simp: opens_def)
    then show ?thesis using assms(4,6) Nil Cons by (cases "f b") auto
  qed simp
  then show ?thesis using Nil assms(6) by simp
next
  case as: (Cons a as')
  have "f a \<noteq> []" "\<not> closing (hd (f a))" using assms(2,5) as by (auto simp: opens_def)
  then obtain b bs' where bs: "bs = b # bs'" using assms(4,6) as by (cases bs; cases "f a") auto
  let ?x = "concat (map (\<lambda>u. CHR '','' # u) (map f as')) @ c # x"
  let ?y = "concat (map (\<lambda>u. CHR '','' # u) (map f bs')) @ c # y"
  have ends: "ends_number ?x" "ends_number ?y" using assms(4) by (cases as'; cases bs'; simp)+
  have "f a @ ?x = f b @ ?y" "ok b" using assms(3,6) by (auto simp: as bs)
  with assms(1) ends have ab: "a = b" "?x = ?y" by (auto simp: delimited_def as)
  have "as' = bs' \<and> x = y" using separated_tail [of as' f ok bs' c x y] ab(2) assms(1,3,4) by (simp add: as bs)
  with ab(1) show ?thesis by (simp add: as bs)
qed

lemma plain_text_opens:
  assumes "quote_contract q"
  shows "opens (plain_text q) json_ok" "opens (\<lambda>(k, v). member_text q (k, plain_text q v)) (\<lambda>(_, v). json_ok v)"
proof -
  have q: "q s \<noteq> [] \<and> \<not> closing (hd (q s))" for s
    using quote_head [OF assms] by (simp add: closing_def)
  have "plain_text q j \<noteq> [] \<and> \<not> closing (hd (plain_text q j))" if "json_ok j" for j
    using that q by (cases j) (auto simp: closing_def number_text_def dest: hd_in_set)
  then show "opens (plain_text q) json_ok" by (simp add: opens_def)
  show "opens (\<lambda>(k, v). member_text q (k, plain_text q v)) (\<lambda>(_, v). json_ok v)"
    using q by (auto simp: opens_def member_text_def)
qed

lemma member_delimited:
  assumes "quote_contract q" "delimited (plain_text q) json_ok v"
  shows "delimited (\<lambda>(k, v). member_text q (k, plain_text q v)) (\<lambda>(_, v). json_ok v) (k, v)"
  unfolding delimited_def
proof (intro allI impI)
  fix b x y
  assume b: "case b of (_, v) \<Rightarrow> json_ok v" "ends_number x" "ends_number y"
    and e: "(case (k, v) of (k, v) \<Rightarrow> member_text q (k, plain_text q v)) @ x = (case b of (k, v) \<Rightarrow> member_text q (k, plain_text q v)) @ y"
  obtain k' v' where kv: "b = (k', v')" by (cases b)
  have "q k @ CHR '':'' # plain_text q v @ x = q k' @ CHR '':'' # plain_text q v' @ y" using e by (simp add: kv member_text_def)
  from quote_inj [OF assms(1) this] have "k = k'" "plain_text q v @ x = plain_text q v' @ y" by simp_all
  with assms(2) b kv show "(k, v) = b \<and> x = y" by (auto simp: delimited_def)
qed

text \<open>The first character tells the kind of the value.\<close>

fun json_kind :: "json \<Rightarrow> nat" where
  "json_kind JNull = 0"
| "json_kind (JBool b) = 1"
| "json_kind (JNumber _) = 2"
| "json_kind (JString _) = 3"
| "json_kind (JArray _) = 4"
| "json_kind (JObject _) = 5"

definition head_kind :: "char \<Rightarrow> nat" where
  "head_kind c = (if c = CHR ''n'' then 0 else if c = CHR ''t'' \<or> c = CHR ''f'' then 1 else if c = CHR 0x22 then 3
     else if c = CHR ''['' then 4 else if c = CHR ''{'' then 5 else 2)"

lemma number_kind: "c \<in> set ''0123456789+-.eE'' \<Longrightarrow> head_kind c = 2"
  by (auto simp: head_kind_def)

lemma plain_text_kind:
  assumes "quote_contract q" "json_ok j"
  shows "plain_text q j \<noteq> [] \<and> head_kind (hd (plain_text q j)) = json_kind j"
proof (cases j)
  case (JNumber n)
  then have "n \<noteq> []" "hd n \<in> set ''0123456789+-.eE''"
    using assms(2) hd_in_set [of n] by (auto simp only: json_ok.simps number_text_def)
  then show ?thesis using JNumber number_kind by simp
qed (use quote_head [OF assms(1)] in \<open>simp_all add: head_kind_def\<close>)

lemma same_kind:
  assumes "quote_contract q" "json_ok j" "json_ok j'" "plain_text q j @ x = plain_text q j' @ y"
  shows "json_kind j = json_kind j'"
proof -
  have "hd (plain_text q j) = hd (plain_text q j')"
    using plain_text_kind [OF assms(1,2)] plain_text_kind [OF assms(1,3)] assms(4) by (metis hd_append2)
  then show ?thesis
    using plain_text_kind [OF assms(1,2)] plain_text_kind [OF assms(1,3)] by simp
qed

lemma kind_cases:
  "json_kind JNull = json_kind j \<longleftrightarrow> j = JNull"
  "json_kind (JBool b) = json_kind j \<longleftrightarrow> (\<exists>b'. j = JBool b')"
  "json_kind (JNumber n) = json_kind j \<longleftrightarrow> (\<exists>n'. j = JNumber n')"
  "json_kind (JString t) = json_kind j \<longleftrightarrow> (\<exists>t'. j = JString t')"
  "json_kind (JArray items) = json_kind j \<longleftrightarrow> (\<exists>items'. j = JArray items')"
  "json_kind (JObject ms) = json_kind j \<longleftrightarrow> (\<exists>ms'. j = JObject ms')"
  by (cases j; simp)+

lemma delimitedI:
  assumes "quote_contract q" "json_ok j"
    and "\<And>j' x y. json_ok j' \<Longrightarrow> json_kind j = json_kind j' \<Longrightarrow> ends_number x \<Longrightarrow> ends_number y
      \<Longrightarrow> plain_text q j @ x = plain_text q j' @ y \<Longrightarrow> j = j' \<and> x = y"
  shows "delimited (plain_text q) json_ok j"
  using assms same_kind [OF assms(1,2)] unfolding delimited_def by blast

lemma plain_text_delimited:
  assumes q: "quote_contract q"
  shows "json_ok j \<Longrightarrow> delimited (plain_text q) json_ok j"
proof (induction j)
  case (JNumber n)
  show ?case
  proof (rule delimitedI [OF q JNumber.prems])
    fix j x y
    assume "json_ok j" "json_kind (JNumber n) = json_kind j" "ends_number x" "ends_number y"
      and e: "plain_text q (JNumber n) @ x = plain_text q j @ y"
    then obtain m where m: "j = JNumber m" "number_text m" unfolding kind_cases by auto
    have "n = m \<and> x = y"
      by (rule number_prefix [where D = "set ''0123456789+-.eE''"])
        (use JNumber.prems m e \<open>ends_number x\<close> \<open>ends_number y\<close> in \<open>simp_all add: number_text_def ends_number_def\<close>)
    then show "JNumber n = j \<and> x = y" using m by simp
  qed
next
  case (JString t)
  show ?case
  proof (rule delimitedI [OF q JString.prems])
    fix j x y
    assume "json_kind (JString t) = json_kind j" and e: "plain_text q (JString t) @ x = plain_text q j @ y"
    then obtain u where j: "j = JString u" unfolding kind_cases by blast
    then have "q t @ x = q u @ y" using e by simp
    from quote_inj [OF q this] j show "JString t = j \<and> x = y" by simp
  qed
next
  case (JArray items)
  have items: "\<forall>a \<in> set items. delimited (plain_text q) json_ok a" using JArray by (simp add: list_all_iff)
  show ?case
  proof (rule delimitedI [OF q JArray.prems])
    fix j x y
    assume "json_ok j" "json_kind (JArray items) = json_kind j" and e: "plain_text q (JArray items) @ x = plain_text q j @ y"
    then obtain items' where j: "j = JArray items'" "list_all json_ok items'" unfolding kind_cases by auto
    then show "JArray items = j \<and> x = y"
      using e JArray.prems separated_inj [OF items, of items' "CHR '']''" x y] plain_text_opens(1) [OF q]
      by (simp add: closing_def)
  qed
next
  case (JObject ms)
  have items: "\<forall>m \<in> set ms. delimited (\<lambda>(k, v). member_text q (k, plain_text q v)) (\<lambda>(_, v). json_ok v) m"
    using JObject member_delimited [OF q] by (fastforce simp: list_all_iff snds.simps)
  show ?case
  proof (rule delimitedI [OF q JObject.prems])
    fix j x y
    assume "json_ok j" "json_kind (JObject ms) = json_kind j" and e: "plain_text q (JObject ms) @ x = plain_text q j @ y"
    then obtain ms' where j: "j = JObject ms'" "list_all (\<lambda>(_, v). json_ok v) ms'" unfolding kind_cases by auto
    then show "JObject ms = j \<and> x = y"
      using e JObject.prems separated_inj [OF items, of ms' "CHR ''}''" x y] plain_text_opens(2) [OF q]
      by (simp add: closing_def)
  qed
next
  case JNull
  show ?case by (rule delimitedI [OF q JNull]) (auto simp only: kind_cases plain_text.simps same_append_eq)
next
  case (JBool b)
  show ?case
    by (rule delimitedI [OF q JBool.prems]) (simp only: kind_cases, auto split: if_splits)
qed

lemma canonical_text_inj:
  assumes "quote_contract q" "json_ok v" "json_ok w"
  shows "write_canonical q v = write_canonical q w \<longleftrightarrow> canonical_value v = canonical_value w"
proof
  assume "write_canonical q v = write_canonical q w"
  then have "plain_text q (canonical_value v) @ [] = plain_text q (canonical_value w) @ []"
    by (simp add: write_canonical_plain)
  moreover have "delimited (plain_text q) json_ok (canonical_value v)" "json_ok (canonical_value w)"
    using plain_text_delimited [OF assms(1)] canonical_ok assms(2,3) by auto
  ultimately show "canonical_value v = canonical_value w" unfolding delimited_def by (metis ends_number_def)
qed (simp add: write_canonical_plain)

subsection \<open>The report\<close>

lemma count_group_wf: "bt_wf m \<Longrightarrow> bt_wf (count_group t m)"
  by (simp add: count_group_def)

definition group_size :: "(string, nat) btree \<Rightarrow> string \<Rightarrow> nat" where
  "group_size m t = (case bt_get m t of Some n \<Rightarrow> n | None \<Rightarrow> 0)"

lemma count_group_size: "count_group t m = bt_insert t (group_size m t + 1) m"
  by (simp add: count_group_def group_size_def)

lemma bt_insert_sum:
  "bt_wf m \<Longrightarrow> sum_list (map snd (bt_insert t n m)) + group_size m t = sum_list (map snd m) + n"
proof (induction t n m rule: bt_insert.induct)
  case (2 k v k' v' m)
  have "map_of m k = None" if "k < k' \<or> k = k'"
    using 2(2) that by (force simp: bt_wf_Cons map_of_eq_None_iff)
  with 2 show ?case by (auto simp: bt_wf_Cons group_size_def)
qed (simp add: group_size_def)

lemma groups_facts:
  fixes t :: "'a \<Rightarrow> string"
  assumes "bt_wf m" "\<forall>n \<in> snd ` set m. 0 < n" "g = fold (\<lambda>v. count_group (t v)) vs m"
  shows "bt_wf g \<and> (\<forall>n \<in> snd ` set g. 0 < n)
    \<and> (\<forall>c. group_size g c = group_size m c + length (filter (\<lambda>v. t v = c) vs))
    \<and> sum_list (map snd g) = sum_list (map snd m) + length vs"
  using assms
proof (induction vs arbitrary: m)
  case (Cons v vs)
  let ?m = "count_group (t v) m"
  have sub: "snd ` set (bt_insert k n m) \<subseteq> insert n (snd ` set m)" for k n
    by (induction k n m rule: bt_insert.induct) auto
  have wf: "bt_wf ?m" using Cons.prems(1) by (rule count_group_wf)
  have pos: "\<forall>n \<in> snd ` set ?m. 0 < n"
    using Cons.prems(2) unfolding count_group_size by (intro ballI) (drule subsetD [OF sub], auto)
  have "g = fold (\<lambda>v. count_group (t v)) vs ?m" using Cons.prems(3) by simp
  note ih = Cons.IH [OF wf pos this]
  have size: "group_size ?m c = group_size m c + (if t v = c then 1 else 0)" for c
    by (simp add: count_group_def group_size_def)
  have "sum_list (map snd ?m) = sum_list (map snd m) + 1"
    using bt_insert_sum [OF Cons.prems(1), of "t v" "group_size m (t v) + 1"] by (simp add: count_group_size)
  with ih show ?case by (simp add: size)
qed simp

lemma group_members:
  fixes t :: "'a \<Rightarrow> string"
  assumes "g = fold (\<lambda>v. count_group (t v)) vs []"
  shows "(c, n) \<in> set g \<longleftrightarrow> c \<in> t ` set vs \<and> n = length (filter (\<lambda>v. t v = c) vs)"
proof -
  have G: "bt_wf g" "\<forall>n \<in> snd ` set g. 0 < n" "group_size g c = length (filter (\<lambda>v. t v = c) vs)"
    using groups_facts [of "[]" g t vs] assms by (simp_all add: group_size_def)
  have ne: "filter (\<lambda>v. t v = c) vs \<noteq> [] \<longleftrightarrow> c \<in> t ` set vs" by (auto simp: filter_empty_conv)
  show ?thesis
  proof
    assume m: "(c, n) \<in> set g"
    then have "bt_get g c = Some n" "0 < n" using G(1,2) by (force simp: bt_wf_get_mem [symmetric])+
    then show "c \<in> t ` set vs \<and> n = length (filter (\<lambda>v. t v = c) vs)"
      using G(3) ne by (auto simp: group_size_def)
  next
    assume c: "c \<in> t ` set vs \<and> n = length (filter (\<lambda>v. t v = c) vs)"
    with ne G(3) have "0 < group_size g c" by simp
    then show "(c, n) \<in> set g" using c G(1,3) by (auto simp: group_size_def bt_wf_get_mem split: option.splits)
  qed
qed

lemma group_count:
  fixes t :: "'a \<Rightarrow> string"
  assumes "g = fold (\<lambda>v. count_group (t v)) vs []"
  shows "bt_wf g" "sum_list (map snd g) = length vs" "length g = card (t ` set vs)"
proof -
  show wf: "bt_wf g" and "sum_list (map snd g) = length vs"
    using groups_facts [of "[]" g t vs] assms by (simp_all add: group_size_def)
  have "set (map fst g) = t ` set vs" using group_members [OF assms] by force
  then show "length g = card (t ` set vs)"
    using bt_wf_distinct [OF wf] distinct_card [of "map fst g"] by simp
qed

lemma card_image_same:
  assumes "\<And>v w. v \<in> A \<Longrightarrow> w \<in> A \<Longrightarrow> f v = f w \<longleftrightarrow> g v = g w"
  shows "card (f ` A) = card (g ` A)"
proof -
  let ?P = "(\<lambda>v. (f v, g v)) ` A"
  have "inj_on fst ?P" "inj_on snd ?P" using assms by (auto simp: inj_on_def)
  then have "card (fst ` ?P) = card (snd ` ?P)" by (simp add: card_image)
  then show ?thesis by (simp add: image_image)
qed

lemma card_image_many: "finite A \<Longrightarrow> 1 < card (f ` A) \<longleftrightarrow> (\<exists>v \<in> A. \<exists>w \<in> A. f v \<noteq> f w)"
  using card_le_Suc0_iff_eq [of "f ` A"] by (auto simp: not_le [symmetric])

lemma sum_list_mset_eq: "mset xs = mset ys \<Longrightarrow> sum_list xs = sum_list (ys :: nat list)"
  by (metis sum_mset_sum_list)

lemma sample_key_inj: "inj_on sample_key A"
  by (rule inj_onI) (simp add: sample_key_def prod_eq_iff)

lemma samples_sorted:
  assumes "distinct (map snd xs)"
  shows "sorted_wrt (\<lambda>a b. fst b < fst a \<or> fst a = fst b \<and> snd a < snd b) (sort_key sample_key xs)"
proof -
  have "distinct xs" using assms by (simp add: distinct_map)
  then have "distinct (map sample_key (sort_key sample_key xs))"
    by (simp add: distinct_map sample_key_inj)
  then have "sorted_wrt (<) (map sample_key (sort_key sample_key xs))" by (simp add: strict_sorted_iff)
  then show ?thesis unfolding sorted_wrt_map
    by (rule sorted_wrt_mono_rel [rotated]) (auto simp: sample_key_def)
qed

lemma race_analyze_groups:
  assumes q: "quote_contract q" and ok: "list_all json_ok vs"
  shows "length (fold (\<lambda>v. count_group (write_canonical q v)) vs []) = card (canonical_value ` set vs)"
proof -
  have "write_canonical q v = write_canonical q w \<longleftrightarrow> canonical_value v = canonical_value w" if "v \<in> set vs" "w \<in> set vs" for v w
    using canonical_text_inj [OF q] ok that by (auto simp: list_all_iff)
  from card_image_same [OF this] group_count(3) [OF refl, of "write_canonical q" vs] show ?thesis by simp
qed

lemma race_analyze_diverged:
  assumes "quote_contract q" "list_all json_ok vs"
  shows "dr_diverged (race_analyze q vs) \<longleftrightarrow> (\<exists>v \<in> set vs. \<exists>w \<in> set vs. canonical_value v \<noteq> canonical_value w)"
  using race_analyze_groups [OF assms] card_image_many [of "set vs" canonical_value]
  by (simp add: race_analyze_def divergence_default_def Let_def)

text \<open>
  C38. The divergence report is exact. For responses whose texts are JSON, the counts of the groups add up
  to the number of responses, the distinct groups are the distinct values up to the order of object
  members, each group's count is the number of responses of its value, and the report says that the
  responses diverge exactly when two of them are different values; the groups come by count, largest
  first, and equal counts by text.
\<close>

theorem divergence_report_exact:
  assumes q: "quote_contract q" and ok: "list_all json_ok vs" and r: "r = race_analyze q vs"
  shows "dr_total_responses r = length vs \<and> sum_list (map fst (dr_samples r)) = length vs
    \<and> dr_unique_responses r = card (canonical_value ` set vs)
    \<and> (dr_diverged r \<longleftrightarrow> (\<exists>v \<in> set vs. \<exists>w \<in> set vs. canonical_value v \<noteq> canonical_value w))
    \<and> (\<forall>(n, t) \<in> set (dr_samples r). \<exists>v \<in> set vs. t = write_canonical q v
         \<and> n = length (filter (\<lambda>w. canonical_value w = canonical_value v) vs))
    \<and> sorted_wrt (\<lambda>a b. fst b < fst a \<or> fst a = fst b \<and> snd a < snd b) (dr_samples r)"
proof (cases "vs = []")
  case True
  then show ?thesis by (simp add: r race_analyze_def divergence_default_def)
next
  case False
  let ?t = "write_canonical q"
  define g where "g = fold (\<lambda>v. count_group (?t v)) vs []"
  define xs where "xs = map (\<lambda>(canon, count). (count, canon)) g"
  note G = group_count [OF g_def] group_members [OF g_def]
  have same: "?t v = ?t w \<longleftrightarrow> canonical_value v = canonical_value w" if "v \<in> set vs" "w \<in> set vs" for v w
    using canonical_text_inj [OF q] ok that by (auto simp: list_all_iff)
  have S: "dr_samples r = sort_key sample_key xs" "dr_total_responses r = length vs"
    "dr_unique_responses r = length g" "dr_diverged r \<longleftrightarrow> 1 < length g"
    using False by (simp_all add: r race_analyze_def Let_def g_def xs_def)
  have card: "length g = card (canonical_value ` set vs)" using race_analyze_groups [OF q ok] by (simp add: g_def)
  have "mset (map fst (dr_samples r)) = mset (map fst xs)" by (simp add: S(1))
  from sum_list_mset_eq [OF this] have sum: "sum_list (map fst (dr_samples r)) = length vs"
    using G(2) by (simp add: xs_def comp_def split_def)
  have members: "\<exists>v \<in> set vs. t = ?t v \<and> n = length (filter (\<lambda>w. canonical_value w = canonical_value v) vs)"
    if "(n, t) \<in> set (dr_samples r)" for n t
  proof -
    have "(t, n) \<in> set g" using that by (auto simp: S(1) xs_def)
    then obtain v where v: "v \<in> set vs" "t = ?t v" "n = length (filter (\<lambda>w. ?t w = ?t v) vs)" using G(4) by auto
    have "filter (\<lambda>w. ?t w = ?t v) vs = filter (\<lambda>w. canonical_value w = canonical_value v) vs"
      using same v(1) by (intro filter_cong) auto
    with v show ?thesis by auto
  qed
  have many: "dr_diverged r \<longleftrightarrow> (\<exists>v \<in> set vs. \<exists>w \<in> set vs. canonical_value v \<noteq> canonical_value w)"
    unfolding r by (rule race_analyze_diverged [OF q ok])
  have "distinct (map snd xs)" using bt_wf_distinct [OF G(1)] by (simp add: xs_def comp_def split_def)
  note sorted = samples_sorted [OF this, folded S(1)]
  have "\<forall>(n, t) \<in> set (dr_samples r). \<exists>v \<in> set vs. t = ?t v
      \<and> n = length (filter (\<lambda>w. canonical_value w = canonical_value v) vs)"
    using members by blast
  note all = S(2) sum S(3) [unfolded card] many this sorted
  show ?thesis by (intro conjI; rule all)
qed

subsection \<open>Two answers that differ in the order of members only\<close>

fun escape :: "string \<Rightarrow> string" where
  "escape [] = []"
| "escape (c # s) = (if c = CHR 0x22 \<or> c = CHR 0x5C then CHR 0x5C # c # escape s else c # escape s)"

definition simple_quote :: quoter where
  "simple_quote s = CHR 0x22 # escape s @ [CHR 0x22]"

lemma escape_inj: "escape s @ CHR 0x22 # x = escape t @ CHR 0x22 # y \<Longrightarrow> s = t \<and> x = y"
proof (induction s arbitrary: t)
  case Nil
  then show ?case by (cases t) (auto split: if_splits)
next
  case (Cons c s)
  then show ?case by (cases t) (auto split: if_splits)
qed

lemma simple_quote_contract: "quote_contract simple_quote"
  unfolding quote_contract_def
proof (rule conjI; intro allI impI)
  show "simple_quote u \<noteq> [] \<and> hd (simple_quote u) = CHR 0x22" for u by (simp add: simple_quote_def)
next
  fix u v x y
  assume "simple_quote u @ x = simple_quote v @ y"
  then have "escape u @ CHR 0x22 # x = escape v @ CHR 0x22 # y" by (simp add: simple_quote_def)
  then show "u = v \<and> x = y" by (rule escape_inj)
qed

definition sample_answers :: "json list" where
  "sample_answers = [JObject [(''a'', JNull), (''b'', JNumber ''1'')], JObject [(''b'', JNumber ''1''), (''a'', JNull)], JNumber ''2'']"

lemma divergence_report_exact_witness:
  "dr_unique_responses (race_analyze simple_quote sample_answers) = 2 \<and> dr_diverged (race_analyze simple_quote sample_answers)"
proof -
  have ok: "list_all json_ok sample_answers" by (simp add: sample_answers_def number_text_def)
  have card: "card (canonical_value ` set sample_answers) = 2" by (simp add: sample_answers_def by_key_def)
  then have "\<exists>v \<in> set sample_answers. \<exists>w \<in> set sample_answers. canonical_value v \<noteq> canonical_value w"
    using card_image_many [of "set sample_answers" canonical_value] by simp
  with divergence_report_exact [OF simple_quote_contract ok refl] card show ?thesis by simp
qed

end
