(* ===== verification/Breaking_Point.thy ===== *)
theory Breaking_Point
  imports Session Report
begin

section \<open>The breaking point of a ramp\<close>

text \<open>
  \<open>crates/engine/src/breaking_point.rs\<close>: the detector collects one sample per level of a ramp; the first
  sample over a budget is the breaking point.
\<close>

subsection \<open>Numbers in notes\<close>

text \<open>\<open>{:.k}\<close>: the exact value rounded to \<open>k\<close> decimals, ties to even.\<close>

definition pad_zeros :: "nat \<Rightarrow> string \<Rightarrow> string" where
  "pad_zeros k s = replicate (k - length s) CHR ''0'' @ s"

fun show_f64_fixed :: "nat \<Rightarrow> f64 \<Rightarrow> string" where
  "show_f64_fixed k F64_NaN = ''NaN''"
| "show_f64_fixed k (F64_Inf s) = (if s then ''-inf'' else ''inf'')"
| "show_f64_fixed k (F64_Fin q) =
     (let n = nat (round_half_even (\<bar>q\<bar> * 10 ^ k))
      in (if q < 0 then ''-'' else []) @ show_base 10 (n div 10 ^ k)
         @ (if k = 0 then [] else CHR ''.'' # pad_zeros k (show_base 10 (n mod 10 ^ k))))"

text \<open>\<open>Duration::as_millis\<close>.\<close>

definition as_millis :: "duration \<Rightarrow> nat" where
  "as_millis d = d div 1000000"

subsection \<open>The detector\<close>

record breaking_point_config =
  bc_max_p99_latency :: duration
  bc_max_error_rate :: f64
  bc_window_secs :: f64

record break_detector =
  bd_config :: breaking_point_config
  bd_samples :: "(u32 \<times> scenario_metrics) list"

record breaking_point_report =
  br_broke_at_concurrent :: "u32 option"
  br_last_known_good :: "u32 option"
  br_samples :: "(u32 \<times> scenario_metrics) list"
  br_trigger :: "string option"

definition detector_new :: "breaking_point_config \<Rightarrow> break_detector" where
  "detector_new cfg = \<lparr>bd_config = cfg, bd_samples = []\<rparr>"

definition observe :: "u32 \<Rightarrow> scenario_metrics \<Rightarrow> break_detector \<Rightarrow> break_detector" where
  "observe concurrent m det = det\<lparr>bd_samples := bd_samples det @ [(concurrent, m)]\<rparr>"

definition compute_error_rate :: "scenario_metrics \<Rightarrow> f64" where
  "compute_error_rate m =
     (let total = ts_total_requests (sm_throughput m)
      in if total = 0 then F64_Fin 0
         else f64_div (f64_of_nat (unat (saturating_sub total (ts_successful_requests (sm_throughput m)))))
                (f64_of_nat (unat total)))"

definition over_latency :: "breaking_point_config \<Rightarrow> scenario_metrics \<Rightarrow> bool" where
  "over_latency cfg m \<longleftrightarrow> 0 < ls_count (sm_latency m) \<and> bc_max_p99_latency cfg < ls_p99 (sm_latency m)"

definition latency_trigger :: "breaking_point_config \<Rightarrow> u32 \<Rightarrow> scenario_metrics \<Rightarrow> string" where
  "latency_trigger cfg c m = ''p99 latency '' @ show_base 10 (as_millis (ls_p99 (sm_latency m))) @ ''ms > ''
     @ show_base 10 (as_millis (bc_max_p99_latency cfg)) @ ''ms budget at concurrency='' @ show_base 10 (unat c)"

definition error_trigger :: "breaking_point_config \<Rightarrow> u32 \<Rightarrow> scenario_metrics \<Rightarrow> string" where
  "error_trigger cfg c m = ''error rate '' @ show_f64_fixed 2 (f64_mul (compute_error_rate m) (F64_Fin 100)) @ ''% > ''
     @ show_f64_fixed 2 (f64_mul (bc_max_error_rate cfg) (F64_Fin 100)) @ ''% budget at concurrency=''
     @ show_base 10 (unat c)"

fun scan_samples ::
  "breaking_point_config \<Rightarrow> (u32 \<times> scenario_metrics) list \<Rightarrow> u32 option \<Rightarrow> (u32 \<times> scenario_metrics) list
     \<Rightarrow> breaking_point_report" where
  "scan_samples cfg all good [] = \<lparr>br_broke_at_concurrent = None, br_last_known_good = good, br_samples = all,
     br_trigger = None\<rparr>"
| "scan_samples cfg all good ((c, m) # rest) =
     (let broke = (\<lambda>trigger. \<lparr>br_broke_at_concurrent = Some c, br_last_known_good = good, br_samples = all,
        br_trigger = Some trigger\<rparr>) in
      if over_latency cfg m then broke (latency_trigger cfg c m)
      else if f64_lt (bc_max_error_rate cfg) (compute_error_rate m) then broke (error_trigger cfg c m)
      else scan_samples cfg all (Some c) rest)"

definition breaking_point :: "break_detector \<Rightarrow> breaking_point_report" where
  "breaking_point det = scan_samples (bd_config det) (bd_samples det) None (bd_samples det)"

subsection \<open>The first violation\<close>

definition violates :: "breaking_point_config \<Rightarrow> scenario_metrics \<Rightarrow> bool" where
  "violates cfg m \<longleftrightarrow> over_latency cfg m \<or> f64_lt (bc_max_error_rate cfg) (compute_error_rate m)"

definition last_level :: "u32 option \<Rightarrow> (u32 \<times> scenario_metrics) list \<Rightarrow> u32 option" where
  "last_level good ms = (if ms = [] then good else Some (fst (last ms)))"

lemma last_level_simps [simp]:
  "last_level good [] = good" "last_level good ((c, m) # ms) = last_level (Some c) ms"
  by (simp_all add: last_level_def)

lemma scan_clean:
  "list_all (\<lambda>(c, m). \<not> violates cfg m) ms \<Longrightarrow> scan_samples cfg all good (ms @ rest) = scan_samples cfg all (last_level good ms) rest"
  by (induction ms arbitrary: good) (auto simp: violates_def Let_def)

lemma scan_violation:
  "violates cfg m \<Longrightarrow> br_broke_at_concurrent (scan_samples cfg all good ((c, m) # rest)) = Some c
     \<and> br_last_known_good (scan_samples cfg all good ((c, m) # rest)) = good"
  by (auto simp: violates_def Let_def)

lemma breaking_point_none:
  "br_broke_at_concurrent (breaking_point det) = None \<longleftrightarrow> list_all (\<lambda>(c, m). \<not> violates (bd_config det) m) (bd_samples det)"
proof -
  have "br_broke_at_concurrent (scan_samples cfg all good ms) = None \<longleftrightarrow> list_all (\<lambda>(c, m). \<not> violates cfg m) ms"
    for cfg all good ms
    by (induction ms arbitrary: good) (auto simp: violates_def Let_def split: if_splits)
  then show ?thesis by (simp add: breaking_point_def)
qed

lemma observe_breaks:
  assumes "list_all (\<lambda>(c, m). \<not> violates (bd_config det) m) (bd_samples det)"
  shows "br_broke_at_concurrent (breaking_point (observe c m det)) = (if violates (bd_config det) m then Some c else None)"
    and "violates (bd_config det) m \<Longrightarrow> br_last_known_good (breaking_point (observe c m det)) = last_level None (bd_samples det)"
  using scan_clean [OF assms, of "bd_samples det @ [(c, m)]" None "[(c, m)]"] scan_violation [of "bd_config det" m "bd_samples det @ [(c, m)]" "last_level None (bd_samples det)" c "[]"]
  by (auto simp: breaking_point_def observe_def violates_def Let_def)

end
