(* ===== verification/Stepped_Load.thy ===== *)
theory Stepped_Load
  imports Workload Breaking_Point
begin

section \<open>Load in steps: the ramp and the spike\<close>

text \<open>
  \<open>crates/engine/src/scenario/ramp.rs\<close>, \<open>ramp/pooled.rs\<close>, \<open>spike.rs\<close>, \<open>spike/pooled.rs\<close> and \<open>spike/phase.rs\<close>.
  Each step or phase drives one tool, over a pool of fresh sessions or, without a session factory, over
  the one session of the run. As in \<open>Workload\<close>, what the code reads from its surroundings is an argument:
  a \<open>call_tick\<close> holds what one round of a call loop reads. Waiting out the rest of a step changes nothing
  but the clock.
\<close>

subsection \<open>One call\<close>

record call_tick =
  kt_cancelled :: bool
  kt_now :: nat
  kt_dropped :: bool
  kt_elapsed :: duration
  kt_thread :: u64
  kt_recorded :: nat

datatype call_end = Call_Cancelled | Call_Done call_outcome | Call_Terminal session_error

definition timed_call ::
  "'t session_api \<Rightarrow> string \<Rightarrow> json \<Rightarrow> bool \<Rightarrow> 't session \<Rightarrow> 't session \<times> call_end" where
  "timed_call A tool arguments dropped s =
     (case (if dropped then (s, None) else call_tool A tool arguments s) of
        (s', None) \<Rightarrow> (s', Call_Cancelled)
      | (s', Some (Inr result)) \<Rightarrow>
          (s', Call_Done (if is_logical_tool_error result then Outcome_ServerError else Outcome_Success))
      | (s', Some (Inl err)) \<Rightarrow>
          (s', if is_terminal_error err then Call_Terminal err else Call_Done (classify_error err)))"

fun call_kind :: "call_end \<Rightarrow> call_outcome" where
  "call_kind Call_Cancelled = Outcome_Cancelled"
| "call_kind (Call_Done oc) = oc"
| "call_kind (Call_Terminal err) = classify_error err"

definition count_call :: "call_end \<Rightarrow> scenario_outcome \<Rightarrow> scenario_outcome" where
  "count_call r out =
     (let called = out\<lparr>so_total_calls := so_total_calls out + 1\<rparr> in
      if call_kind r = Outcome_Success
      then called\<lparr>so_successful_calls := so_successful_calls out + 1\<rparr>
      else called\<lparr>so_error_count := so_error_count out + 1\<rparr>)"

definition call_event :: "call_tick \<Rightarrow> string \<Rightarrow> call_end \<Rightarrow> rec_event" where
  "call_event t tool r = Rec_Tool (kt_thread t) (kt_recorded t) tool (kt_elapsed t) (call_kind r)"

text \<open>The same call in the recorder of the step: without the tool.\<close>

fun step_record :: "rec_event \<Rightarrow> rec_event" where
  "step_record (Rec_Tool th now tool d oc) = Rec_Call th d oc"
| "step_record (Rec_Call th d oc) = Rec_Call th d oc"

text \<open>The call loop of a pooled worker; without more rounds it is still running.\<close>

fun worker_call_loop ::
  "'t session_api \<Rightarrow> nat \<Rightarrow> string \<Rightarrow> json \<Rightarrow> call_tick list \<Rightarrow> 't session \<Rightarrow> scenario_outcome
     \<Rightarrow> 't session \<times> scenario_outcome option \<times> rec_event list" where
  "worker_call_loop A deadline tool arguments [] s out = (s, None, [])"
| "worker_call_loop A deadline tool arguments (t # ts) s out =
     (if kt_cancelled t then (s, Some (add_note ''cancelled via ctx.cancel_token'' out), [])
      else if deadline \<le> kt_now t then (s, Some out, [])
      else case timed_call A tool arguments (kt_dropped t) s of (s', r) \<Rightarrow>
        let out' = count_call r out; e = call_event t tool r in
        (case r of
           Call_Cancelled \<Rightarrow> (s', Some out', [e])
         | Call_Terminal err \<Rightarrow> (s', Some (add_note (''terminal error: '' @ show_session_error A err) out'), [e])
         | Call_Done _ \<Rightarrow> (case worker_call_loop A deadline tool arguments ts s' out' of
             (s'', fin, es) \<Rightarrow> (s'', fin, e # es))))"

definition stepped_worker ::
  "'t session_api \<Rightarrow> string \<Rightarrow> nat \<Rightarrow> string \<Rightarrow> json \<Rightarrow> (u32 \<Rightarrow> call_tick list) \<Rightarrow> 't pool_worker" where
  "stepped_worker A label deadline tool arguments calls idx start s =
     (case worker_call_loop A deadline tool arguments (calls idx) s scenario_outcome_default of
        (s', fin, es) \<Rightarrow> (es, map_option (\<lambda>out. Inr (shutdown_session A s' label out)) fin))"

text \<open>A step's outcome is added to the total, its notes behind a prefix.\<close>

definition merge_stepped :: "string \<Rightarrow> scenario_outcome \<Rightarrow> scenario_outcome \<Rightarrow> scenario_outcome" where
  "merge_stepped prefix into part =
     \<lparr>so_total_calls = so_total_calls into + so_total_calls part,
      so_successful_calls = so_successful_calls into + so_successful_calls part,
      so_hang_count = so_hang_count into + so_hang_count part,
      so_deadlock_count = so_deadlock_count into + so_deadlock_count part,
      so_error_count = so_error_count into + so_error_count part,
      so_divergence_count = so_divergence_count into + so_divergence_count part,
      so_incomplete_worker_count = so_incomplete_worker_count into + so_incomplete_worker_count part,
      so_teardown_failure_count = so_teardown_failure_count into + so_teardown_failure_count part,
      so_notes = so_notes into @ map (\<lambda>n. prefix @ n) (so_notes part),
      so_hung_for_ms = so_hung_for_ms into @ so_hung_for_ms part\<rparr>"

definition merge_step :: "u32 \<Rightarrow> scenario_outcome \<Rightarrow> scenario_outcome \<Rightarrow> scenario_outcome" where
  "merge_step concurrent = merge_stepped (''ramp[c='' @ show_u32 concurrent @ '']: '')"

definition merge_phase :: "string \<Rightarrow> scenario_outcome \<Rightarrow> scenario_outcome \<Rightarrow> scenario_outcome" where
  "merge_phase name = merge_stepped (''spike.'' @ name @ '': '')"

text \<open>Spawn failures count as errors without a call.\<close>

definition no_usable_sessions :: "scenario_outcome \<Rightarrow> bool" where
  "no_usable_sessions out \<longleftrightarrow> so_total_calls out = 0 \<and> 0 < so_error_count out"

subsection \<open>The ramp\<close>

record ramp =
  rp_from_concurrent :: u32
  rp_to_concurrent :: u32
  rp_step_duration :: duration
  rp_step_increment :: u32
  rp_tool :: string
  rp_args :: json
  rp_breaking_point :: "breaking_point_config option"

text \<open>The loop over the levels, for a step that says whether the ramp goes on; with the levels it entered.\<close>

fun ramp_levels ::
  "('k \<Rightarrow> u32 \<Rightarrow> 'st \<Rightarrow> ('st \<times> bool) option) \<Rightarrow> u32 \<Rightarrow> u32 \<Rightarrow> 'k list \<Rightarrow> u32 \<Rightarrow> 'st \<Rightarrow> ('st \<times> u32 list) option" where
  "ramp_levels step to inc [] concurrent st = (if to < concurrent then Some (st, []) else None)"
| "ramp_levels step to inc (t # ts) concurrent st =
     (if to < concurrent then Some (st, [])
      else case step t concurrent st of
        None \<Rightarrow> None
      | Some (st', goes_on) \<Rightarrow>
          if goes_on
          then map_option (\<lambda>(st'', levels). (st'', concurrent # levels))
            (ramp_levels step to inc ts (saturating_plus concurrent inc) st')
          else Some (st', [concurrent]))"

text \<open>
  What the loop carries: the outcome, the detector, whether it broke early; and, for the statements
  below, what each step recorded: first the pool for itself, then each worker.
\<close>

record ramp_state =
  ra_outcome :: scenario_outcome
  ra_detector :: "break_detector option"
  ra_early_break :: bool
  ra_steps :: "(u32 \<times> rec_event list list) list"

definition ramp_note :: "string \<Rightarrow> ramp_state \<Rightarrow> ramp_state" where
  "ramp_note n st = st\<lparr>ra_outcome := add_note n (ra_outcome st)\<rparr>"

definition show_level :: "u32 option \<Rightarrow> string" where
  "show_level l = (case l of None \<Rightarrow> ''None'' | Some c \<Rightarrow> ''Some('' @ show_u32 c @ '')'')"

text \<open>After a step the detector sees its snapshot; a breaking point ends the ramp.\<close>

definition watch_step :: "u32 \<Rightarrow> scenario_metrics option \<Rightarrow> ramp_state \<Rightarrow> (ramp_state \<times> bool) option" where
  "watch_step concurrent snapshot st =
     (case ra_detector st of
        None \<Rightarrow> Some (st, True)
      | Some det \<Rightarrow> (case snapshot of
          None \<Rightarrow> None
        | Some m \<Rightarrow>
            let det' = observe concurrent m det; report = breaking_point det'; st' = st\<lparr>ra_detector := Some det'\<rparr> in
            (case br_broke_at_concurrent report of
               None \<Rightarrow> Some (st', True)
             | Some broke_at \<Rightarrow> Some (ramp_note (''ramp: breaking point detected at concurrent='' @ show_u32 broke_at
                 @ ''; last_known_good='' @ show_level (br_last_known_good report) @ ''; ''
                 @ (case br_trigger report of Some trigger \<Rightarrow> trigger | None \<Rightarrow> ''unknown trigger''))
                 (st'\<lparr>ra_early_break := True\<rparr>), False))))"

definition finish_ramp :: "ramp_state \<Rightarrow> ramp_state" where
  "finish_ramp st =
     (if \<not> ra_early_break st \<and> ra_detector st \<noteq> None
      then ramp_note ''ramp: completed full ramp without breaking point'' st else st)"

definition ramp_start :: "ramp \<Rightarrow> string \<Rightarrow> ramp_state" where
  "ramp_start rp note = \<lparr>ra_outcome = add_note note scenario_outcome_default,
     ra_detector = map_option detector_new (rp_breaking_point rp), ra_early_break = False, ra_steps = []\<rparr>"

text \<open>What a pooled step meets; the order in which the calls of its workers reach its recorder is an argument.\<close>

record 't ramp_tick =
  rt_cancelled :: bool
  rt_now :: nat
  rt_pool :: "'t pool_env"
  rt_calls :: "u32 \<Rightarrow> call_tick list"
  rt_order :: "rec_event list list \<Rightarrow> rec_event list"
  rt_snapshot_at :: nat

definition snapshot_of :: "'h hdr_api \<Rightarrow> nat \<Rightarrow> nat \<Rightarrow> rec_event list \<Rightarrow> scenario_metrics option" where
  "snapshot_of H started now es =
     (case recorder_new H started of None \<Rightarrow> None | Some r \<Rightarrow>
       (case recorder_run H r es of None \<Rightarrow> None | Some r' \<Rightarrow> recorder_snapshot H now r'))"

definition ramp_worker :: "'t session_api \<Rightarrow> ramp \<Rightarrow> 't ramp_tick \<Rightarrow> 't pool_worker" where
  "ramp_worker A rp t = stepped_worker A ''ramp pooled worker'' (rt_now t + rp_step_duration rp) (rp_tool rp) (rp_args rp)
     (rt_calls t)"

definition ramp_pooled_step ::
  "'h hdr_api \<Rightarrow> 't session_api \<Rightarrow> ramp \<Rightarrow> 't ramp_tick \<Rightarrow> u32 \<Rightarrow> ramp_state \<Rightarrow> (ramp_state \<times> bool) option" where
  "ramp_pooled_step H A rp t concurrent st =
     (if rt_cancelled t then Some (ramp_note ''ramp: cancelled via ctx.cancel_token'' st, False)
      else case drive_pooled A (rt_pool t) concurrent (ramp_worker A rp t) of
        None \<Rightarrow> None
      | Some (part, streams) \<Rightarrow>
          let st' = st\<lparr>ra_outcome := merge_step concurrent (ra_outcome st) part,
                ra_steps := ra_steps st @ [(concurrent, streams)]\<rparr> in
          if no_usable_sessions part
          then Some (ramp_note (''ramp: step concurrent='' @ show_u32 concurrent
            @ '' drove no calls (all session spawns failed); aborting ramp'') st', False)
          else watch_step concurrent
            (snapshot_of H (rt_now t) (rt_snapshot_at t) (map step_record (rt_order t (tl streams)))) st')"

definition pooled_ramp_note :: string where
  "pooled_ramp_note = ''ramp: pooled '' @ em_dash @ '' each step spawns its declared concurrency as fresh sessions via ''
     @ ''the run's session factory; sessions are not reused across steps, and per-step ''
     @ ''spawn cost counts against step_duration''"

definition drive_ramp_pooled ::
  "'h hdr_api \<Rightarrow> 't session_api \<Rightarrow> ramp \<Rightarrow> 't ramp_tick list \<Rightarrow> (ramp_state \<times> u32 list) option" where
  "drive_ramp_pooled H A rp ts =
     map_option (\<lambda>(st, levels). (finish_ramp st, levels))
       (ramp_levels (ramp_pooled_step H A rp) (rp_to_concurrent rp) (rp_step_increment rp) ts (rp_from_concurrent rp)
         (ramp_start rp pooled_ramp_note))"

text \<open>The sequential fallback: a step makes up to as many calls as its level, on the one session.\<close>

fun ramp_calls ::
  "'t session_api \<Rightarrow> ramp \<Rightarrow> nat \<Rightarrow> u32 \<Rightarrow> call_tick list \<Rightarrow> u32 \<Rightarrow> 't session \<Rightarrow> scenario_outcome
     \<Rightarrow> 't session \<times> (scenario_outcome \<times> bool) option \<times> rec_event list" where
  "ramp_calls A rp deadline concurrent [] iters s out =
     (if iters < concurrent then (s, None, []) else (s, Some (out, False), []))"
| "ramp_calls A rp deadline concurrent (t # ts) iters s out =
     (if \<not> iters < concurrent \<or> deadline \<le> kt_now t \<or> kt_cancelled t then (s, Some (out, False), [])
      else case timed_call A (rp_tool rp) (rp_args rp) (kt_dropped t) s of (s', r) \<Rightarrow>
        let out' = count_call r out; e = call_event t (rp_tool rp) r in
        (case r of
           Call_Cancelled \<Rightarrow> (s', Some (out', True), [e])
         | Call_Terminal err \<Rightarrow> (s', Some (add_note (''ramp: terminal error at concurrent='' @ show_u32 concurrent
             @ '': '' @ show_session_error A err) out', True), [e])
         | Call_Done _ \<Rightarrow> (case ramp_calls A rp deadline concurrent ts (iters + 1) s' out' of
             (s'', fin, es) \<Rightarrow> (s'', fin, e # es))))"

record ramp_seq_tick =
  rq_cancelled :: bool
  rq_now :: nat
  rq_calls :: "call_tick list"
  rq_snapshot_at :: nat

definition ramp_sequential_step ::
  "'h hdr_api \<Rightarrow> 't session_api \<Rightarrow> ramp \<Rightarrow> ramp_seq_tick \<Rightarrow> u32 \<Rightarrow> 't session \<times> ramp_state
     \<Rightarrow> (('t session \<times> ramp_state) \<times> bool) option" where
  "ramp_sequential_step H A rp t concurrent ss =
     (case ss of (s, st) \<Rightarrow>
      if rq_cancelled t then Some ((s, ramp_note ''ramp: cancelled via ctx.cancel_token'' st), False)
      else case ramp_calls A rp (rq_now t + rp_step_duration rp) concurrent (rq_calls t) 0 s (ra_outcome st) of
        (s', None, es) \<Rightarrow> None
      | (s', Some (out, terminal), es) \<Rightarrow>
          map_option (\<lambda>(st', goes_on). ((s', st'), goes_on \<and> \<not> terminal))
            (watch_step concurrent (snapshot_of H (rq_now t) (rq_snapshot_at t) (map step_record es))
              (st\<lparr>ra_outcome := out, ra_steps := ra_steps st @ [(concurrent, [[], es])]\<rparr>)))"

definition drive_ramp ::
  "'h hdr_api \<Rightarrow> 't session_api \<Rightarrow> bool \<Rightarrow> 't ramp_tick list \<Rightarrow> ramp_seq_tick list \<Rightarrow> ramp \<Rightarrow> 't session
     \<Rightarrow> (ramp_state \<times> u32 list) option" where
  "drive_ramp H A factory ts qs rp s =
     (if rp_from_concurrent rp = 0 \<or> rp_to_concurrent rp < rp_from_concurrent rp \<or> rp_step_increment rp = 0
      then Some (\<lparr>ra_outcome = add_note (''ramp: invalid step plan from='' @ show_u32 (rp_from_concurrent rp) @ '' to=''
            @ show_u32 (rp_to_concurrent rp) @ '' step='' @ show_u32 (rp_step_increment rp) @ ''; nothing to drive'')
            scenario_outcome_default, ra_detector = None, ra_early_break = False, ra_steps = []\<rparr>, [])
      else if factory then drive_ramp_pooled H A rp ts
      else map_option (\<lambda>((s', st), levels). (finish_ramp st, levels))
        (ramp_levels (ramp_sequential_step H A rp) (rp_to_concurrent rp) (rp_step_increment rp) qs (rp_from_concurrent rp)
          (s, ramp_start rp (''ramp: sequential on one session; concurrent values are recorded as ''
            @ ''iterations-per-step, not multiplexed (pooled execution needs a ''
            @ ''session_factory on the RunContext; Run::execute attaches one ''
            @ ''automatically '' @ em_dash @ '' see module docs)''))))"

subsection \<open>The spike\<close>

record spike =
  sk_baseline_concurrent :: u32
  sk_spike_concurrent :: u32
  sk_warmup :: duration
  sk_spike_duration :: duration
  sk_cooldown :: duration
  sk_tool :: string
  sk_args :: json

definition push_summary :: "spike \<Rightarrow> scenario_outcome \<Rightarrow> scenario_outcome" where
  "push_summary sk out = add_note (''spike: peak='' @ show_u32 (sk_spike_concurrent sk)
     @ '' warmup='' @ show_base 10 (as_millis (sk_warmup sk)) @ ''ms spike='' @ show_base 10 (as_millis (sk_spike_duration sk))
     @ ''ms cooldown='' @ show_base 10 (as_millis (sk_cooldown sk)) @ ''ms'') out"

definition phase_summary ::
  "'t session_api \<Rightarrow> string \<Rightarrow> u64 \<Rightarrow> u64 \<Rightarrow> duration \<Rightarrow> string \<Rightarrow> u32 \<Rightarrow> string" where
  "phase_summary A name calls errors elapsed scale workers =
     ''spike.'' @ name @ '': ran '' @ show_u64 calls @ '' calls ('' @ show_u64 errors @ '' errors) in ''
     @ api_show_duration A elapsed @ '' at '' @ scale @ ''='' @ show_u32 workers"

record 't phase_tick =
  ft_cancelled :: bool
  ft_now :: nat
  ft_pool :: "'t pool_env"
  ft_calls :: "u32 \<Rightarrow> call_tick list"
  ft_elapsed :: duration

text \<open>A phase over a pool: the outcome, what was recorded, and whether the remaining phases are skipped.\<close>

definition spike_worker :: "'t session_api \<Rightarrow> spike \<Rightarrow> 't phase_tick \<Rightarrow> duration \<Rightarrow> 't pool_worker" where
  "spike_worker A sk t d = stepped_worker A ''spike pooled worker'' (ft_now t + d) (sk_tool sk) (sk_args sk) (ft_calls t)"

definition drive_phase_pooled ::
  "'t session_api \<Rightarrow> spike \<Rightarrow> 't phase_tick \<Rightarrow> string \<Rightarrow> u32 \<Rightarrow> duration \<Rightarrow> scenario_outcome
     \<Rightarrow> (scenario_outcome \<times> rec_event list list \<times> bool) option" where
  "drive_phase_pooled A sk t name workers d out =
     (case drive_pooled A (ft_pool t) workers (spike_worker A sk t d) of
        None \<Rightarrow> None
      | Some (part, streams) \<Rightarrow>
          let merged = add_note (phase_summary A name (so_total_calls part) (so_error_count part) (ft_elapsed t) ''workers'' workers)
                (merge_phase name out part) in
          if no_usable_sessions part
          then Some (add_note (''spike.'' @ name @ '': no usable sessions (all spawns failed); skipping remaining phases'') merged,
            streams, True)
          else Some (merged, streams, False))"

fun pooled_phases ::
  "'t session_api \<Rightarrow> spike \<Rightarrow> (string \<Rightarrow> 't phase_tick) \<Rightarrow> (string \<times> u32 \<times> duration) list \<Rightarrow> scenario_outcome
     \<Rightarrow> (scenario_outcome \<times> rec_event list list) option" where
  "pooled_phases A sk ticks [] out = Some (out, [])"
| "pooled_phases A sk ticks ((name, workers, d) # phases) out =
     (if d = 0 then pooled_phases A sk ticks phases (add_note (''spike.'' @ name @ '': skipped because duration is 0'') out)
      else if ft_cancelled (ticks name)
      then Some (add_note (''spike.'' @ name @ '': cancelled via ctx.cancel_token'') out, [])
      else case drive_phase_pooled A sk (ticks name) name workers d out of
        None \<Rightarrow> None
      | Some (out', streams, stop) \<Rightarrow>
          if stop then Some (out', streams)
          else map_option (\<lambda>(out'', streams'). (out'', streams @ streams')) (pooled_phases A sk ticks phases out'))"

definition spike_phases :: "spike \<Rightarrow> (string \<times> u32 \<times> duration) list" where
  "spike_phases sk = [(''warmup'', sk_baseline_concurrent sk, sk_warmup sk),
     (''spike'', sk_spike_concurrent sk, sk_spike_duration sk), (''cooldown'', sk_baseline_concurrent sk, sk_cooldown sk)]"

definition drive_pooled_phases ::
  "'t session_api \<Rightarrow> spike \<Rightarrow> (string \<Rightarrow> 't phase_tick) \<Rightarrow> scenario_outcome
     \<Rightarrow> (scenario_outcome \<times> rec_event list list) option" where
  "drive_pooled_phases A sk ticks out =
     map_option (\<lambda>(out', streams). (push_summary sk out', streams))
       (pooled_phases A sk ticks (spike_phases sk)
         (add_note (''spike: pooled '' @ em_dash @ '' each phase spawns its declared concurrency as fresh sessions via ''
            @ ''the run's session factory; spawn cost counts against the phase duration, and all ''
            @ ''of a phase's workers are joined before the next phase starts'') out))"

text \<open>
  A phase on the one session. A tick makes up to as many calls as the concurrency; the phase counts its
  calls and errors beside the outcome.
\<close>

datatype tick_end = Tick_Done | Tick_Break | Tick_Terminal

record phase_count =
  pc_outcome :: scenario_outcome
  pc_calls :: u64
  pc_errors :: u64

definition count_phase_call :: "call_end \<Rightarrow> phase_count \<Rightarrow> phase_count" where
  "count_phase_call r pc = \<lparr>pc_outcome = count_call r (pc_outcome pc), pc_calls = pc_calls pc + 1,
     pc_errors = (if call_kind r = Outcome_Success then pc_errors pc else pc_errors pc + 1)\<rparr>"

definition phase_note :: "string \<Rightarrow> phase_count \<Rightarrow> phase_count" where
  "phase_note n pc = pc\<lparr>pc_outcome := add_note n (pc_outcome pc)\<rparr>"

fun phase_calls ::
  "'t session_api \<Rightarrow> spike \<Rightarrow> string \<Rightarrow> nat \<Rightarrow> u32 \<Rightarrow> call_tick list \<Rightarrow> u32 \<Rightarrow> 't session \<Rightarrow> phase_count
     \<Rightarrow> 't session \<times> (tick_end \<times> phase_count) option \<times> rec_event list" where
  "phase_calls A sk name deadline concurrent [] iters s pc =
     (if iters < concurrent then (s, None, []) else (s, Some (Tick_Done, pc), []))"
| "phase_calls A sk name deadline concurrent (t # ts) iters s pc =
     (if \<not> iters < concurrent \<or> deadline \<le> kt_now t then (s, Some (Tick_Done, pc), [])
      else if kt_cancelled t then (s, Some (Tick_Break, pc), [])
      else case timed_call A (sk_tool sk) (sk_args sk) (kt_dropped t) s of (s', r) \<Rightarrow>
        let pc' = count_phase_call r pc; e = call_event t (sk_tool sk) r in
        (case r of
           Call_Cancelled \<Rightarrow> (s', Some (Tick_Break, pc'), [e])
         | Call_Terminal err \<Rightarrow> (s', Some (Tick_Terminal, phase_note (''spike.'' @ name @ '': terminal error after ''
             @ show_u64 (pc_calls pc') @ '' calls: '' @ show_session_error A err) pc'), [e])
         | Call_Done _ \<Rightarrow> (case phase_calls A sk name deadline concurrent ts (iters + 1) s' pc' of
             (s'', fin, es) \<Rightarrow> (s'', fin, e # es))))"

record phase_round =
  pr_now :: nat
  pr_cancelled :: bool
  pr_calls :: "call_tick list"
  pr_now_after :: nat
  pr_cancelled_after :: bool

fun phase_loop ::
  "'t session_api \<Rightarrow> spike \<Rightarrow> string \<Rightarrow> nat \<Rightarrow> u32 \<Rightarrow> phase_round list \<Rightarrow> 't session \<Rightarrow> phase_count
     \<Rightarrow> 't session \<times> (bool \<times> phase_count) option \<times> rec_event list" where
  "phase_loop A sk name deadline concurrent [] s pc = (s, None, [])"
| "phase_loop A sk name deadline concurrent (t # ts) s pc =
     (if deadline \<le> pr_now t then (s, Some (False, pc), [])
      else if pr_cancelled t
      then (s, Some (False, phase_note (''spike.'' @ name @ '': cancelled via ctx.cancel_token'') pc), [])
      else case phase_calls A sk name deadline concurrent (pr_calls t) 0 s pc of
        (s', None, es) \<Rightarrow> (s', None, es)
      | (s', Some (Tick_Terminal, pc'), es) \<Rightarrow> (s', Some (True, pc'), es)
      | (s', Some (Tick_Break, pc'), es) \<Rightarrow> (s', Some (False, pc'), es)
      | (s', Some (Tick_Done, pc'), es) \<Rightarrow>
          if deadline \<le> pr_now_after t \<or> pr_cancelled_after t then (s', Some (False, pc'), es)
          else (case phase_loop A sk name deadline concurrent ts s' pc' of
            (s'', fin, es') \<Rightarrow> (s'', fin, es @ es')))"

record phase_env =
  fe_started :: nat
  fe_rounds :: "phase_round list"
  fe_elapsed :: duration
  fe_cancelled_after :: bool

definition drive_phase ::
  "'t session_api \<Rightarrow> spike \<Rightarrow> phase_env \<Rightarrow> string \<Rightarrow> u32 \<Rightarrow> duration \<Rightarrow> 't session \<Rightarrow> scenario_outcome
     \<Rightarrow> 't session \<times> (bool \<times> scenario_outcome) option \<times> rec_event list" where
  "drive_phase A sk env name concurrent d s out =
     (case phase_loop A sk name (fe_started env + d) concurrent (fe_rounds env) s
         \<lparr>pc_outcome = out, pc_calls = 0, pc_errors = 0\<rparr> of
        (s', fin, es) \<Rightarrow> (s', map_option (\<lambda>(terminal, pc). (terminal,
          if terminal then pc_outcome pc
          else add_note (phase_summary A name (pc_calls pc) (pc_errors pc) (fe_elapsed env) ''iterations-per-tick'' concurrent)
            (pc_outcome pc))) fin, es))"

text \<open>The phases on the one session: a terminal error or a cancellation ends the scenario.\<close>

fun sequential_phases ::
  "'t session_api \<Rightarrow> spike \<Rightarrow> (string \<Rightarrow> phase_env) \<Rightarrow> (string \<times> u32 \<times> duration) list \<Rightarrow> 't session
     \<Rightarrow> scenario_outcome \<Rightarrow> (scenario_outcome \<times> rec_event list list) option" where
  "sequential_phases A sk env [] s out = Some (out, [])"
| "sequential_phases A sk env ((name, concurrent, d) # phases) s out =
     (case drive_phase A sk (env name) name concurrent d s out of
        (s', None, es) \<Rightarrow> None
      | (s', Some (terminal, out'), es) \<Rightarrow>
          if terminal \<or> fe_cancelled_after (env name) then Some (out', [es])
          else map_option (\<lambda>(out'', ess). (out'', es # ess)) (sequential_phases A sk env phases s' out'))"

definition drive_spike ::
  "'t session_api \<Rightarrow> bool \<Rightarrow> (string \<Rightarrow> 't phase_tick) \<Rightarrow> (string \<Rightarrow> phase_env) \<Rightarrow> spike \<Rightarrow> 't session
     \<Rightarrow> (scenario_outcome \<times> rec_event list list) option" where
  "drive_spike A factory ticks env sk s =
     (if sk_baseline_concurrent sk = 0 \<or> sk_spike_concurrent sk = 0
      then Some (add_note (''spike: invalid plan baseline='' @ show_u32 (sk_baseline_concurrent sk) @ '' peak=''
        @ show_u32 (sk_spike_concurrent sk) @ ''; concurrency must be >= 1'') scenario_outcome_default, [])
      else let out = (if sk_spike_concurrent sk < sk_baseline_concurrent sk
          then add_note (''spike: peak ('' @ show_u32 (sk_spike_concurrent sk) @ '') < baseline ('' @ show_u32 (sk_baseline_concurrent sk)
            @ '') '' @ em_dash @ '' running anyway, but the shape is inverted from the canonical Black-Friday pattern'')
            scenario_outcome_default
          else scenario_outcome_default) in
        if factory then drive_pooled_phases A sk ticks out
        else map_option (\<lambda>(out', ess). (push_summary sk out', ess))
          (sequential_phases A sk env (spike_phases sk) s
            (add_note (''spike: sequential on one session; baseline/peak concurrency is ''
              @ ''recorded as iterations-per-tick, not multiplexed (pooled execution ''
              @ ''needs a session_factory on the RunContext; Run::execute attaches ''
              @ ''one automatically '' @ em_dash @ '' see module docs)'') out)))"

subsection \<open>Calls and counts\<close>

lemma call_event_simps [simp]:
  "event_outcome (call_event t tool r) = call_kind r" "event_tool (call_event t tool r) = Some tool"
  by (simp_all add: call_event_def)

lemma accounts_call:
  "accounts es out \<Longrightarrow> accounts (es @ [call_event t tool r]) (count_call r out)"
  by (simp add: accounts_def count_call_def Let_def add.commute)

lemma count_call_simps [simp]:
  "so_incomplete_worker_count (count_call r out) = so_incomplete_worker_count out"
  "so_teardown_failure_count (count_call r out) = so_teardown_failure_count out"
  by (simp_all add: count_call_def Let_def)

lemma accounts_merge_stepped:
  assumes "accounts es out" "accounts es' part"
  shows "accounts (es @ es') (merge_stepped prefix out part)"
  using assms by (simp add: accounts_def merge_stepped_def)

lemma shutdown_incomplete [simp]:
  "so_incomplete_worker_count (shutdown_session A s ctx out) = so_incomplete_worker_count out"
  by (simp add: shutdown_session_def record_shutdown_def Let_def split: option.split sum.split)

text \<open>A call is never filed as an expected rejection.\<close>

definition plain_calls :: "rec_event list \<Rightarrow> bool" where
  "plain_calls es \<longleftrightarrow> list_all (\<lambda>e. is_call e \<and> event_outcome e \<noteq> Outcome_ExpectedRejection) es"

lemma plain_calls_simps [simp]:
  "plain_calls []" "plain_calls (e # es) = (is_call e \<and> event_outcome e \<noteq> Outcome_ExpectedRejection \<and> plain_calls es)"
  "plain_calls (es @ es') = (plain_calls es \<and> plain_calls es')"
  by (simp_all add: plain_calls_def)

lemma classify_error_plain [simp]: "classify_error e \<noteq> Outcome_ExpectedRejection"
  by (cases e rule: classify_error.cases) simp_all

lemma timed_call_plain: "timed_call A tool arguments dropped s = (s', r) \<Longrightarrow> call_kind r \<noteq> Outcome_ExpectedRejection"
  by (auto simp: timed_call_def split: prod.splits option.splits sum.splits if_splits)

lemma worker_call_loop_counts:
  assumes "worker_call_loop A deadline tool arguments ts s out = (s', fin, es)" "accounts es0 out"
  shows "plain_calls es \<and> (\<forall>out'. fin = Some out' \<longrightarrow> accounts (es0 @ es) out'
    \<and> so_incomplete_worker_count out' = so_incomplete_worker_count out)"
  using assms
proof (induction ts arbitrary: s out s' fin es es0)
  case (Cons t ts)
  obtain s1 r where c: "timed_call A tool arguments (kt_dropped t) s = (s1, r)" by fastforce
  obtain s2 end2 es2 where l: "worker_call_loop A deadline tool arguments ts s1 (count_call r out) = (s2, end2, es2)"
    by (cases "worker_call_loop A deadline tool arguments ts s1 (count_call r out)") auto
  note acc = accounts_call [OF Cons.prems(2), of t tool r]
  note ih = Cons.IH [OF l acc]
  show ?case using Cons.prems(1) c l ih acc Cons.prems(2) timed_call_plain [OF c]
    by (auto simp: Let_def split: if_splits call_end.splits)
qed simp

lemma stepped_worker_end:
  assumes "stepped_worker A label deadline tool arguments calls idx start s = (es, fin)"
  shows "plain_calls es \<and> (\<forall>r. fin = Some r \<longrightarrow> (\<exists>w. r = Inr w \<and> accounts es w \<and> so_incomplete_worker_count w = 0))"
proof -
  obtain s' end0 es0 where l: "worker_call_loop A deadline tool arguments (calls idx) s scenario_outcome_default = (s', end0, es0)"
    by (cases "worker_call_loop A deadline tool arguments (calls idx) s scenario_outcome_default") auto
  show ?thesis using assms worker_call_loop_counts [OF l accounts_default]
    by (cases end0) (auto simp: stepped_worker_def l, simp add: scenario_outcome_default_def)
qed

lemma reliable_stepped: "reliable_worker (stepped_worker A label deadline tool arguments calls)"
  using stepped_worker_end unfolding reliable_worker_def by blast

text \<open>What a pool records beside the pool's own events is what its workers record.\<close>

lemma drive_pooled_streams:
  assumes "drive_pooled A env requested pw = Some (out, streams)" "es \<in> set (tl streams)"
  shows "\<exists>idx start s r. pw idx start s = (es, r)"
  using assms
  by (auto simp: drive_pooled_def run_workers_def Let_def split: if_splits option.splits sum.splits prod.splits)
    (metis)+

subsection \<open>The levels of a ramp\<close>

lemma saturating_plus_cases:
  fixes c :: u32
  shows "unat c + unat inc < 2 ^ 32 \<Longrightarrow> unat (saturating_plus c inc) = unat c + unat inc"
    and "2 ^ 32 \<le> unat c + unat inc \<Longrightarrow> saturating_plus c inc = - 1"
  by (simp_all add: saturating_plus_def checked_add_def unat_word_ariths)

lemma ramp_levels_shape:
  fixes to :: u32
  assumes "ramp_levels step to inc ts c st = Some (st', levels)" "to < - 1"
  shows "map unat levels = map (\<lambda>i. unat c + i * unat inc) [0..<length levels] \<and> list_all (\<lambda>l. l \<le> to) levels"
  using assms(1)
proof (induction ts arbitrary: c st levels)
  case (Cons t ts)
  show ?case
  proof (cases "to < c \<or> (\<exists>st1. step t c st = Some (st1, False))")
    case True
    then show ?thesis using Cons.prems by (auto split: if_splits)
  next
    case False
    then obtain st1 rest where rest: "ramp_levels step to inc ts (saturating_plus c inc) st1 = Some (st', rest)"
      "levels = c # rest" using Cons.prems by (auto split: option.splits if_splits)
    note ih = Cons.IH [OF rest(1)]
    have step: "map unat rest = map (\<lambda>i. unat c + Suc i * unat inc) [0..<length rest]"
    proof (cases "unat c + unat inc < 2 ^ 32")
      case True
      then show ?thesis using ih saturating_plus_cases(1) by (simp add: algebra_simps)
    next
      case False
      then have "to < saturating_plus c inc" using assms(2) saturating_plus_cases(2) [of c inc] by simp
      then show ?thesis using rest(1) by (cases ts) auto
    qed
    have "map (\<lambda>i. unat c + i * unat inc) [0..<Suc (length rest)]
        = unat c # map (\<lambda>i. unat c + Suc i * unat inc) [0..<length rest]"
      by (simp add: upt_conv_Cons map_Suc_upt [symmetric] comp_def del: upt_Suc)
    then show ?thesis using step ih False rest(2) by (simp add: not_less)
  qed
qed (auto split: if_splits)

text \<open>An invariant of the steps, and what a step that ends the ramp leaves.\<close>

lemma ramp_levels_inv:
  assumes "ramp_levels step to inc ts c st = Some (st', levels)" "I st entered"
    and "\<forall>t \<in> set ts. \<forall>c st entered st'. step t c st = Some (st', True) \<longrightarrow> I st entered \<longrightarrow> I st' (entered @ [c])"
    and "\<forall>t \<in> set ts. \<forall>c st entered st'. step t c st = Some (st', False) \<longrightarrow> I st entered \<longrightarrow> F st' (entered @ [c])"
  shows "I st' (entered @ levels) \<or> F st' (entered @ levels)"
  using assms
proof (induction ts arbitrary: c st levels entered)
  case (Cons t ts)
  show ?case
  proof (cases "to < c")
    case False
    then obtain st1 go where s: "step t c st = Some (st1, go)" using Cons.prems(1) by (auto split: option.splits)
    show ?thesis
    proof (cases go)
      case True
      then obtain rest where rest: "ramp_levels step to inc ts (saturating_plus c inc) st1 = Some (st', rest)"
        "levels = c # rest" using Cons.prems(1) s False by auto
      have "I st1 (entered @ [c])" using Cons.prems(2,3) s True by simp
      from Cons.IH [OF rest(1) this] Cons.prems(3,4) show ?thesis by (simp add: rest(2))
    next
      case go: False
      then show ?thesis using Cons.prems(1,2,4) s False by auto
    qed
  qed (use Cons.prems in auto)
qed (auto split: if_splits)

lemma ramp_levels_end:
  fixes to :: u32
  assumes to: "to < - 1" and "unat to < unat c + length ts * unat inc"
    and "\<forall>t \<in> set ts. \<forall>c st. step t c st \<noteq> None"
  shows "ramp_levels step to inc ts c st \<noteq> None"
  using assms(2,3)
proof (induction ts arbitrary: c st)
  case (Cons t ts)
  obtain st1 go where s: "step t c st = Some (st1, go)" using Cons.prems(2) by fastforce
  have "ramp_levels step to inc ts (saturating_plus c inc) st1 \<noteq> None"
  proof (cases "unat c + unat inc < 2 ^ 32")
    case True
    then show ?thesis using Cons.prems saturating_plus_cases(1) [OF True] by (intro Cons.IH) auto
  next
    case False
    then have "to < saturating_plus c inc" using to saturating_plus_cases(2) [of c inc] by simp
    then show ?thesis by (cases ts) auto
  qed
  then show ?case using s by auto
qed (simp add: word_less_nat_alt)

lemma ramp_levels_stuck:
  assumes "\<forall>t \<in> set ts. \<forall>c st. \<exists>st'. step t c st = Some (st', True)"
  shows "ramp_levels step (- 1) inc ts c st = None"
  using assms
proof (induction ts arbitrary: c st)
  case (Cons t ts)
  then obtain st1 where "step t c st = Some (st1, True)" by fastforce
  then show ?case using Cons by simp
qed simp

subsection \<open>What the detector sees\<close>

text \<open>The sample of a step is the snapshot of a recorder that was given its workers' calls, and no others.\<close>

definition step_calls :: "rec_event list list \<Rightarrow> rec_event list" where
  "step_calls streams = concat (tl streams)"

definition failure_rate :: "rec_event list \<Rightarrow> f64" where
  "failure_rate es = (if es = [] then F64_Fin 0
     else f64_div (f64_of_nat (failures_in es)) (f64_of_nat (length es)))"

definition sample_of :: "rec_event list list \<Rightarrow> scenario_metrics \<Rightarrow> bool" where
  "sample_of streams m \<longleftrightarrow> (length (step_calls streams) < 2 ^ 64 \<longrightarrow>
     unat (ts_total_requests (sm_throughput m)) = length (step_calls streams)
     \<and> compute_error_rate m = failure_rate (step_calls streams))"

lemma step_record_outcome [simp]: "event_outcome (step_record e) = event_outcome e"
  by (cases e) simp_all

lemma successes_in_record [simp]: "successes_in (map step_record es) = successes_in es"
  by (induction es) auto

lemma plain_calls_mset: "mset es = mset es' \<Longrightarrow> plain_calls es = plain_calls es'"
  unfolding plain_calls_def list_all_iff by (metis mset_eq_setD)

lemma snapshot_counts:
  assumes H: "hdr_contract H" and len: "length es < 2 ^ 64" and plain: "plain_calls es"
    and m: "snapshot_of H started now (map step_record es) = Some m"
  shows "unat (ts_total_requests (sm_throughput m)) = length es"
    and "unat (ts_successful_requests (sm_throughput m)) = successes_in es"
proof -
  let ?es = "map step_record es"
  have len': "length ?es < 2 ^ 64" using len by simp
  obtain r0 r where r: "recorder_new H started = Some r0" "recorder_run H r0 ?es = Some r" "recorder_inv H ?es r"
    using recorder_run_inv [OF H len'] by blast
  then have t: "tally H (map event_outcome ?es) (rec_outcomes r) (rec_latency r)" by (simp add: recorder_inv_def)
  obtain h where h: "sharded_merged H (rec_latency r) = Some h" using tally_merged [OF H t] len' by auto
  have m': "m = metrics_of H now (rec_start r) (rec_outcomes r) h"
    using m r h by (simp add: snapshot_of_def recorder_snapshot_def)
  have count: "unat (count_of (rec_outcomes r) oc) = count_list (map event_outcome ?es) oc" for oc
    using t by (simp add: tally_def)
  show "unat (ts_total_requests (sm_throughput m)) = length es"
    using tally_total [OF t] len by (simp add: m' metrics_of_def Let_def)
  have "Outcome_ExpectedRejection \<notin> set (map event_outcome ?es)" using plain by (auto simp: plain_calls_def list_all_iff)
  then have "unat (count_of (rec_outcomes r) Outcome_ExpectedRejection) = 0"
    unfolding count by (simp only: count_list_0_iff not_False_eq_True)
  then have rejected: "oc_expected_rejection (rec_outcomes r) = 0" by (simp add: unat_eq_0)
  have "unat (oc_success (rec_outcomes r)) = successes_in es"
    using count [of Outcome_Success] count_list_successes [of ?es] by simp
  then show "unat (ts_successful_requests (sm_throughput m)) = successes_in es"
    by (simp add: m' metrics_of_def Let_def rejected)
qed

lemma saturating_sub_unat: "unat b \<le> unat a \<Longrightarrow> unat (saturating_sub a b) = unat a - unat b"
  by (simp add: saturating_sub_def unat_sub word_le_nat_alt)

lemma sample_of_snapshot:
  assumes "hdr_contract H" "mset es = mset (step_calls streams)" "plain_calls (step_calls streams)"
    "snapshot_of H started now (map step_record es) = Some m"
  shows "sample_of streams m"
  unfolding sample_of_def
proof
  assume "length (step_calls streams) < 2 ^ 64"
  then have len: "length es < 2 ^ 64" "length es = length (step_calls streams)"
    using mset_eq_length [OF assms(2)] by simp_all
  have "plain_calls es" using plain_calls_mset [OF assms(2)] assms(3) by simp
  note n = snapshot_counts [OF assms(1) len(1) this assms(4)]
  have "successes_in es \<le> length es" using filter_length_bounds by simp
  then have "unat (saturating_sub (ts_total_requests (sm_throughput m)) (ts_successful_requests (sm_throughput m))) = failures_in es"
    using n successes_failures [of es] saturating_sub_unat
      [of "ts_successful_requests (sm_throughput m)" "ts_total_requests (sm_throughput m)"] by simp
  moreover have "failures_in es = failures_in (step_calls streams)" using counts_in_mset(3) [OF assms(2)] .
  moreover have "ts_total_requests (sm_throughput m) = 0 \<longleftrightarrow> step_calls streams = []"
    using n(1) len(2) by (auto simp: unat_eq_0 [symmetric])
  ultimately show "unat (ts_total_requests (sm_throughput m)) = length (step_calls streams)
      \<and> compute_error_rate m = failure_rate (step_calls streams)"
    using n(1) len(2) by (simp add: compute_error_rate_def failure_rate_def Let_def)
qed

subsection \<open>A ramp over pools\<close>

definition ramp_events :: "ramp_state \<Rightarrow> rec_event list" where
  "ramp_events st = concat (concat (map snd (ra_steps st)))"

definition fair_tick :: "'t ramp_tick \<Rightarrow> bool" where
  "fair_tick t \<longleftrightarrow> (\<forall>xs. mset (pe_joined (rt_pool t) xs) = mset xs) \<and> (\<forall>xss. mset (rt_order t xss) = mset (concat xss))"

text \<open>The samples of the detector, step by step: every one below the budget, or the last one not.\<close>

definition watched :: "(u32 \<times> rec_event list list) list \<Rightarrow> (u32 \<times> scenario_metrics) list \<Rightarrow> bool" where
  "watched steps samples \<longleftrightarrow> list_all2 (\<lambda>(c, streams) (c', m). c = c' \<and> sample_of streams m) steps samples"

definition ramp_clean :: "breaking_point_config \<Rightarrow> ramp_state \<Rightarrow> u32 list \<Rightarrow> bool" where
  "ramp_clean cfg st entered \<longleftrightarrow> \<not> ra_early_break st
     \<and> (\<exists>pre. ra_detector st = Some \<lparr>bd_config = cfg, bd_samples = pre\<rparr>
          \<and> list_all (\<lambda>(c, m). \<not> violates cfg m) pre \<and> map fst pre = entered \<and> watched (ra_steps st) pre)"

definition ramp_ended :: "breaking_point_config \<Rightarrow> ramp_state \<Rightarrow> u32 list \<Rightarrow> bool" where
  "ramp_ended cfg st entered \<longleftrightarrow>
     (\<exists>pre c. list_all (\<lambda>(c, m). \<not> violates cfg m) pre \<and> entered = map fst pre @ [c]
          \<and> (if ra_early_break st
             then \<exists>m. ra_detector st = Some \<lparr>bd_config = cfg, bd_samples = pre @ [(c, m)]\<rparr> \<and> violates cfg m
               \<and> watched (ra_steps st) (pre @ [(c, m)])
             else ra_detector st = Some \<lparr>bd_config = cfg, bd_samples = pre\<rparr>
               \<and> watched (take (length pre) (ra_steps st)) pre))"

lemma ramp_note_simps [simp]:
  "ra_detector (ramp_note n st) = ra_detector st" "ra_early_break (ramp_note n st) = ra_early_break st"
  "ra_steps (ramp_note n st) = ra_steps st" "ra_outcome (ramp_note n st) = add_note n (ra_outcome st)"
  "ramp_events (ramp_note n st) = ramp_events st"
  by (simp_all add: ramp_note_def ramp_events_def)

lemma watched_length: "watched steps samples \<Longrightarrow> length samples = length steps"
  by (simp add: watched_def list_all2_lengthD)

lemma watched_snoc: "watched (steps @ [(c, streams)]) (samples @ [(c', m)]) \<longleftrightarrow> watched steps samples \<and> c = c' \<and> sample_of streams m"
proof -
  let ?P = "\<lambda>(c, streams) (c', m). c = c' \<and> sample_of streams m"
  have "list_all2 ?P (steps @ [(c, streams)]) (samples @ [(c', m)])
      = list_all2 ?P (rev (steps @ [(c, streams)])) (rev (samples @ [(c', m)]))" by (rule list_all2_rev [symmetric])
  then show ?thesis by (auto simp: watched_def list_all2_rev)
qed

lemma pooled_step_events:
  assumes "drive_pooled A env requested (stepped_worker A label deadline tool arguments calls) = Some (part, streams)"
    and "\<forall>xs. mset (pe_joined env xs) = mset xs"
  shows "accounts (concat streams) part" "plain_calls (step_calls streams)"
proof -
  show "accounts (concat streams) part" using drive_pooled_accounts [OF assms(1) _ reliable_stepped] assms(2) by simp
  have "plain_calls es" if "es \<in> set (tl streams)" for es
    using drive_pooled_streams [OF assms(1) that] stepped_worker_end by metis
  then show "plain_calls (step_calls streams)" by (auto simp: step_calls_def plain_calls_def list_all_iff)
qed

lemma watch_step_cases:
  assumes "watch_step c snapshot st = Some (st', go)" "ra_detector st = Some \<lparr>bd_config = cfg, bd_samples = pre\<rparr>"
    "list_all (\<lambda>(c, m). \<not> violates cfg m) pre"
  shows "\<exists>m. snapshot = Some m \<and> ra_detector st' = Some \<lparr>bd_config = cfg, bd_samples = pre @ [(c, m)]\<rparr>
     \<and> ra_steps st' = ra_steps st
     \<and> (if violates cfg m then \<not> go \<and> ra_early_break st' else go \<and> ra_early_break st' = ra_early_break st)"
proof -
  obtain m where m: "snapshot = Some m" using assms(1,2) by (auto simp: watch_step_def split: option.splits)
  let ?det = "\<lparr>bd_config = cfg, bd_samples = pre\<rparr>"
  have "br_broke_at_concurrent (breaking_point (observe c m ?det)) = (if violates cfg m then Some c else None)"
    using observe_breaks(1) [of ?det c m] assms(3) by simp
  then show ?thesis using assms(1,2) m
    by (auto simp: watch_step_def Let_def observe_def split: if_splits)
qed

lemma watch_step_outcome:
  "watch_step c snapshot st = Some (st', go) \<Longrightarrow> accounts es (ra_outcome st') = accounts es (ra_outcome st)
     \<and> ramp_events st' = ramp_events st"
  by (auto simp: watch_step_def Let_def ramp_events_def split: option.splits)

lemma ramp_pooled_step_counts:
  assumes s: "ramp_pooled_step H A rp t c st = Some (st', go)" and t: "\<forall>xs. mset (pe_joined (rt_pool t) xs) = mset xs"
    and acc: "accounts (ramp_events st) (ra_outcome st)"
  shows "accounts (ramp_events st') (ra_outcome st')"
proof (cases "rt_cancelled t")
  case True
  then show ?thesis using s acc by (auto simp: ramp_pooled_step_def)
next
  case False
  obtain part streams where p: "drive_pooled A (rt_pool t) c (ramp_worker A rp t) = Some (part, streams)"
    using s False by (auto simp: ramp_pooled_step_def split: option.splits)
  have "accounts (ramp_events st @ concat streams) (merge_step c (ra_outcome st) part)"
    unfolding merge_step_def using accounts_merge_stepped [OF acc pooled_step_events(1) [OF p [unfolded ramp_worker_def] t]] .
  then show ?thesis using s False p
    by (auto simp: ramp_pooled_step_def Let_def ramp_events_def split: if_splits dest!: watch_step_outcome)
qed

lemma ramp_pooled_step_inv:
  assumes s: "ramp_pooled_step H A rp t c st = Some (st', go)" and H: "hdr_contract H" and t: "fair_tick t"
    and inv: "ramp_clean cfg st entered"
  shows "if go then ramp_clean cfg st' (entered @ [c]) else ramp_ended cfg st' (entered @ [c])"
proof (cases "rt_cancelled t")
  case True
  then show ?thesis using s inv watched_length by (fastforce simp: ramp_pooled_step_def ramp_clean_def ramp_ended_def)
next
  case False
  obtain part streams where p: "drive_pooled A (rt_pool t) c (ramp_worker A rp t) = Some (part, streams)"
    using s False by (auto simp: ramp_pooled_step_def split: option.splits)
  note P = pooled_step_events [OF p [unfolded ramp_worker_def]]
  define st1 where "st1 = st\<lparr>ra_outcome := merge_step c (ra_outcome st) part,
    ra_steps := ra_steps st @ [(c, streams)]\<rparr>"
  obtain pre where pre: "ra_detector st = Some \<lparr>bd_config = cfg, bd_samples = pre\<rparr>" "list_all (\<lambda>(c, m). \<not> violates cfg m) pre"
    "map fst pre = entered" "watched (ra_steps st) pre" "\<not> ra_early_break st"
    using inv by (auto simp: ramp_clean_def)
  show ?thesis
  proof (cases "no_usable_sessions part")
    case True
    then obtain n where st': "st' = ramp_note n st1" "\<not> go"
      using s False p by (auto simp: ramp_pooled_step_def st1_def)
    have "ra_detector st1 = ra_detector st" "ra_early_break st1 = ra_early_break st" "take (length pre) (ra_steps st1) = ra_steps st"
      using watched_length [OF pre(4)] by (simp_all add: st1_def)
    then show ?thesis using st' pre by (auto simp: ramp_ended_def)
  next
    case usable: False
    have w: "watch_step c (snapshot_of H (rt_now t) (rt_snapshot_at t) (map step_record (rt_order t (tl streams)))) st1 = Some (st', go)"
      using s False p usable by (simp add: ramp_pooled_step_def st1_def Let_def)
    have det: "ra_detector st1 = Some \<lparr>bd_config = cfg, bd_samples = pre\<rparr>" using pre(1) by (simp add: st1_def)
    obtain m where m: "snapshot_of H (rt_now t) (rt_snapshot_at t) (map step_record (rt_order t (tl streams))) = Some m"
      "ra_detector st' = Some \<lparr>bd_config = cfg, bd_samples = pre @ [(c, m)]\<rparr>" "ra_steps st' = ra_steps st1"
      "if violates cfg m then \<not> go \<and> ra_early_break st' else go \<and> ra_early_break st' = ra_early_break st1"
      using watch_step_cases [OF w det pre(2)] by blast
    have "sample_of streams m"
      using sample_of_snapshot [OF H _ P(2) m(1)] t by (simp add: fair_tick_def step_calls_def)
    then have "watched (ra_steps st') (pre @ [(c, m)])" using pre(4) by (simp add: m(3) st1_def watched_snoc)
    moreover have "ra_early_break st1 = ra_early_break st" by (simp add: st1_def)
    ultimately show ?thesis using m(2,4) pre by (auto simp: ramp_clean_def ramp_ended_def split: if_splits)
  qed
qed

lemma ramp_start_simps [simp]:
  "ra_detector (ramp_start rp note) = map_option detector_new (rp_breaking_point rp)"
  "ra_early_break (ramp_start rp note) = False" "ra_steps (ramp_start rp note) = []"
  "accounts es (ra_outcome (ramp_start rp note)) = accounts es scenario_outcome_default"
  "ramp_events (ramp_start rp note) = []"
  by (simp_all add: ramp_start_def ramp_events_def)

lemma finish_ramp_simps [simp]:
  "ra_detector (finish_ramp st) = ra_detector st" "ra_early_break (finish_ramp st) = ra_early_break st"
  "ra_steps (finish_ramp st) = ra_steps st" "ramp_events (finish_ramp st) = ramp_events st"
  "accounts es (ra_outcome (finish_ramp st)) = accounts es (ra_outcome st)"
  by (simp_all add: finish_ramp_def)

lemma watched_exact:
  assumes "watched steps samples" "length (concat (concat (map snd steps))) < 2 ^ 64"
  shows "list_all2 (\<lambda>(c, streams) (c', m). c = c' \<and> unat (ts_total_requests (sm_throughput m)) = length (step_calls streams)
     \<and> compute_error_rate m = failure_rate (step_calls streams)) steps samples"
  using assms
proof (induction steps arbitrary: samples)
  case (Cons x steps)
  obtain c streams where x: "x = (c, streams)" by fastforce
  obtain c' m rest where samples: "samples = (c', m) # rest" using Cons.prems(1) by (cases samples) (auto simp: watched_def)
  have "length (step_calls streams) \<le> length (concat streams)" by (cases streams) (simp_all add: step_calls_def)
  then show ?case using Cons by (auto simp: x samples watched_def sample_of_def)
qed (simp add: watched_def)

lemma taken_length: "length (concat (concat (map snd (take k steps)))) \<le> length (concat (concat (map snd steps)))"
proof -
  have "concat (concat (map snd steps)) = concat (concat (map snd (take k steps))) @ concat (concat (map snd (drop k steps)))"
    by (metis append_take_drop_id concat_append map_append)
  then show ?thesis by simp
qed

lemma ramp_stopped:
  assumes "ramp_clean cfg st levels \<or> ramp_ended cfg st levels"
  shows "\<exists>pre samples. ra_detector st = Some \<lparr>bd_config = cfg, bd_samples = samples\<rparr>
     \<and> list_all (\<lambda>(c, m). \<not> violates cfg m) pre \<and> watched (take (length samples) (ra_steps st)) samples
     \<and> (if ra_early_break st then \<exists>c m. samples = pre @ [(c, m)] \<and> violates cfg m \<and> levels = map fst pre @ [c]
        else samples = pre \<and> (levels = map fst pre \<or> (\<exists>c. levels = map fst pre @ [c])))"
  using assms
proof
  assume "ramp_clean cfg st levels"
  then obtain pre where "\<not> ra_early_break st" "ra_detector st = Some \<lparr>bd_config = cfg, bd_samples = pre\<rparr>"
    "list_all (\<lambda>(c, m). \<not> violates cfg m) pre" "map fst pre = levels" "watched (ra_steps st) pre"
    unfolding ramp_clean_def by blast
  then show ?thesis using watched_length by (intro exI [of _ pre]) simp
next
  assume "ramp_ended cfg st levels"
  then obtain pre c where e: "list_all (\<lambda>(c, m). \<not> violates cfg m) pre" "levels = map fst pre @ [c]"
      "if ra_early_break st
       then \<exists>m. ra_detector st = Some \<lparr>bd_config = cfg, bd_samples = pre @ [(c, m)]\<rparr> \<and> violates cfg m
         \<and> watched (ra_steps st) (pre @ [(c, m)])
       else ra_detector st = Some \<lparr>bd_config = cfg, bd_samples = pre\<rparr> \<and> watched (take (length pre) (ra_steps st)) pre"
    unfolding ramp_ended_def by blast
  show ?thesis
  proof (cases "ra_early_break st")
    case True
    then obtain m where m: "ra_detector st = Some \<lparr>bd_config = cfg, bd_samples = pre @ [(c, m)]\<rparr>" "violates cfg m"
      "watched (ra_steps st) (pre @ [(c, m)])" using e(3) by auto
    show ?thesis
      by (intro exI [of _ pre] exI [of _ "pre @ [(c, m)]"]) (use m e True watched_length [OF m(3)] in simp)
  qed (use e in auto)
qed

text \<open>
  C17. A watched ramp climbs step by step and stops at the first level that breaks a budget. The levels it
  enters are the planned ones in their order and none is above the last planned level; each sample of the
  detector is the count and the error rate of exactly the calls that the workers of that level made, and
  no level before the last broke a budget. If the ramp broke early then the level it stopped at is the one
  whose sample breaks a budget, and the report names it as the breaking point and the level before it as
  the last good one; otherwise no sample breaks a budget, and at most the last level entered has none.
\<close>

theorem ramp_breaks_at_first_violation:
  assumes run: "drive_ramp_pooled H A rp ts = Some (st, levels)" and cfg: "rp_breaking_point rp = Some cfg"
    and H: "hdr_contract H" and fair: "\<forall>t \<in> set ts. fair_tick t" and to: "rp_to_concurrent rp < - 1"
    and len: "length (ramp_events st) < 2 ^ 64"
  shows "map unat levels = map (\<lambda>i. unat (rp_from_concurrent rp) + i * unat (rp_step_increment rp)) [0..<length levels]
     \<and> list_all (\<lambda>l. l \<le> rp_to_concurrent rp) levels
     \<and> (\<exists>det pre. ra_detector st = Some det \<and> list_all (\<lambda>(c, m). \<not> violates cfg m) pre
       \<and> list_all2 (\<lambda>(c, streams) (c', m). c = c' \<and> unat (ts_total_requests (sm_throughput m)) = length (step_calls streams)
            \<and> compute_error_rate m = failure_rate (step_calls streams))
          (take (length (bd_samples det)) (ra_steps st)) (bd_samples det)
       \<and> (if ra_early_break st
          then \<exists>c m. bd_samples det = pre @ [(c, m)] \<and> violates cfg m \<and> levels = map fst pre @ [c]
            \<and> br_broke_at_concurrent (breaking_point det) = Some c
            \<and> br_last_known_good (breaking_point det) = last_level None pre
          else bd_samples det = pre \<and> (levels = map fst pre \<or> (\<exists>c. levels = map fst pre @ [c]))))"
proof -
  obtain note0 st0 where r: "ramp_levels (ramp_pooled_step H A rp) (rp_to_concurrent rp) (rp_step_increment rp) ts (rp_from_concurrent rp)
      (ramp_start rp note0) = Some (st0, levels)" and st: "st = finish_ramp st0"
    using run by (auto simp: drive_ramp_pooled_def)
  note shape = ramp_levels_shape [OF r to]
  have "ramp_clean cfg (ramp_start rp note0) []"
    by (simp add: ramp_clean_def cfg detector_new_def watched_def)
  then have "ramp_clean cfg st0 ([] @ levels) \<or> ramp_ended cfg st0 ([] @ levels)"
    using ramp_pooled_step_inv [OF _ H] fair by (intro ramp_levels_inv [OF r]) (fastforce split: if_splits)+
  from ramp_stopped [OF this [unfolded append_Nil]] obtain pre samples where det: "ra_detector st = Some \<lparr>bd_config = cfg, bd_samples = samples\<rparr>"
      "list_all (\<lambda>(c, m). \<not> violates cfg m) pre" "watched (take (length samples) (ra_steps st)) samples"
    and ends: "if ra_early_break st
      then \<exists>c m. samples = pre @ [(c, m)] \<and> violates cfg m \<and> levels = map fst pre @ [c]
      else samples = pre \<and> (levels = map fst pre \<or> (\<exists>c. levels = map fst pre @ [c]))"
    unfolding st finish_ramp_simps by blast
  have "length (concat (concat (map snd (take k (ra_steps st))))) \<le> length (ramp_events st)" for k
    unfolding ramp_events_def using taken_length by blast
  note exact = watched_exact [OF det(3) le_less_trans [OF this len]]
  let ?det = "\<lparr>bd_config = cfg, bd_samples = samples\<rparr>"
  have "br_broke_at_concurrent (breaking_point ?det) = Some c \<and> br_last_known_good (breaking_point ?det) = last_level None pre"
    if "samples = pre @ [(c, m)]" "violates cfg m" for c m
    using observe_breaks [where det = "\<lparr>bd_config = cfg, bd_samples = pre\<rparr>" and c = c and m = m] det(2) that by (simp add: observe_def)
  then have "if ra_early_break st
      then \<exists>c m. bd_samples ?det = pre @ [(c, m)] \<and> violates cfg m \<and> levels = map fst pre @ [c]
        \<and> br_broke_at_concurrent (breaking_point ?det) = Some c
        \<and> br_last_known_good (breaking_point ?det) = last_level None pre
      else bd_samples ?det = pre \<and> (levels = map fst pre \<or> (\<exists>c. levels = map fst pre @ [c]))"
    using ends by (cases "ra_early_break st") auto
  with shape det(1,2) exact show ?thesis
    by (intro conjI exI [of _ ?det] exI [of _ pre]) simp_all
qed

subsection \<open>What steps and phases report is what was recorded\<close>

lemma ramp_calls_counts:
  assumes "ramp_calls A rp deadline concurrent ts iters s out = (s', fin, es)" "accounts es0 out"
  shows "\<forall>out' terminal. fin = Some (out', terminal) \<longrightarrow> accounts (es0 @ es) out'"
  using assms
proof (induction ts arbitrary: iters s out s' fin es es0)
  case (Cons t ts)
  obtain s1 r where c: "timed_call A (rp_tool rp) (rp_args rp) (kt_dropped t) s = (s1, r)" by fastforce
  obtain s2 fin2 es2 where l: "ramp_calls A rp deadline concurrent ts (iters + 1) s1 (count_call r out) = (s2, fin2, es2)"
    by (cases "ramp_calls A rp deadline concurrent ts (iters + 1) s1 (count_call r out)") auto
  note acc = accounts_call [OF Cons.prems(2), of t "rp_tool rp" r]
  show ?case using Cons.prems c l Cons.IH [OF l acc] acc
    by (auto simp: Let_def split: if_splits call_end.splits)
qed (auto split: if_splits)

lemma ramp_sequential_step_counts:
  assumes step: "ramp_sequential_step H A rp t c (s, st) = Some ((s', st'), go)" and acc: "accounts (ramp_events st) (ra_outcome st)"
  shows "accounts (ramp_events st') (ra_outcome st')"
proof (cases "rq_cancelled t")
  case True
  then show ?thesis using step acc by (auto simp: ramp_sequential_step_def)
next
  case False
  obtain s1 fin es where c: "ramp_calls A rp (rq_now t + rp_step_duration rp) c (rq_calls t) 0 s (ra_outcome st) = (s1, fin, es)"
    by (cases "ramp_calls A rp (rq_now t + rp_step_duration rp) c (rq_calls t) 0 s (ra_outcome st)") auto
  obtain out terminal where fin: "fin = Some (out, terminal)"
    using step False c by (auto simp: ramp_sequential_step_def split: option.splits)
  have "accounts (ramp_events st @ es) out" using ramp_calls_counts [OF c acc] fin by blast
  then show ?thesis using step False c fin
    by (auto simp: ramp_sequential_step_def ramp_events_def dest!: watch_step_outcome)
qed

lemma drive_ramp_accounts:
  assumes run: "drive_ramp H A factory ts qs rp s = Some (st, levels)"
    and perm: "\<forall>t \<in> set ts. \<forall>xs. mset (pe_joined (rt_pool t) xs) = mset xs"
  shows "accounts (ramp_events st) (ra_outcome st)"
proof (cases "rp_from_concurrent rp = 0 \<or> rp_to_concurrent rp < rp_from_concurrent rp \<or> rp_step_increment rp = 0")
  case True
  then show ?thesis using run by (auto simp: drive_ramp_def ramp_events_def)
next
  case plan: False
  show ?thesis
  proof (cases factory)
    case True
    then obtain note0 st0 where r: "ramp_levels (ramp_pooled_step H A rp) (rp_to_concurrent rp) (rp_step_increment rp) ts
        (rp_from_concurrent rp) (ramp_start rp note0) = Some (st0, levels)" "st = finish_ramp st0"
      using run plan by (auto simp: drive_ramp_def drive_ramp_pooled_def)
    let ?I = "\<lambda>st (levels :: u32 list). accounts (ramp_events st) (ra_outcome st)"
    have "?I st0 ([] @ levels) \<or> ?I st0 ([] @ levels)"
      by (rule ramp_levels_inv [OF r(1), where I = ?I and F = ?I])
        (use perm ramp_pooled_step_counts in \<open>simp, blast, blast\<close>)
    then show ?thesis by (simp add: r(2))
  next
    case False
    then obtain note0 s0 st0 where r: "ramp_levels (ramp_sequential_step H A rp) (rp_to_concurrent rp) (rp_step_increment rp) qs
        (rp_from_concurrent rp) (s, ramp_start rp note0) = Some ((s0, st0), levels)" "st = finish_ramp st0"
      using run plan by (auto simp: drive_ramp_def)
    let ?I = "\<lambda>(s, st) (levels :: u32 list). accounts (ramp_events st) (ra_outcome st)"
    have "?I (s0, st0) ([] @ levels) \<or> ?I (s0, st0) ([] @ levels)"
      by (rule ramp_levels_inv [OF r(1), where I = ?I and F = ?I])
        (use ramp_sequential_step_counts in auto)
    then show ?thesis by (simp add: r(2))
  qed
qed

lemma pooled_phases_counts:
  assumes "pooled_phases A sk ticks phases out = Some (out', streams)" "accounts es0 out"
    and "\<forall>name xs. mset (pe_joined (ft_pool (ticks name)) xs) = mset xs"
  shows "accounts (es0 @ concat streams) out'"
  using assms(1,2)
proof (induction phases arbitrary: out es0 streams)
  case (Cons phase phases)
  obtain name workers d where p: "phase = (name, workers, d)" by (cases phase)
  show ?case
  proof (cases "d = 0 \<or> ft_cancelled (ticks name)")
    case True
    then show ?thesis using Cons by (auto simp: p split: if_splits)
  next
    case False
    obtain part streams1 where d: "drive_pooled A (ft_pool (ticks name)) workers (spike_worker A sk (ticks name) d) = Some (part, streams1)"
      using Cons.prems(1) False by (auto simp: p drive_phase_pooled_def split: option.splits)
    have acc: "accounts (es0 @ concat streams1) (merge_phase name out part)"
      unfolding merge_phase_def using accounts_merge_stepped [OF Cons.prems(2) pooled_step_events(1) [OF d [unfolded spike_worker_def]]] assms(3) by blast
    obtain out1 stop where ph: "drive_phase_pooled A sk (ticks name) name workers d out = Some (out1, streams1, stop)"
      "accounts (es0 @ concat streams1) out1"
      using acc d by (cases "no_usable_sessions part") (auto simp: drive_phase_pooled_def Let_def)
    show ?thesis using Cons.prems(1) Cons.IH [OF _ ph(2)] ph False
      by (auto simp: p split: if_splits)
  qed
qed simp

lemma phase_calls_counts:
  assumes "phase_calls A sk name deadline concurrent ts iters s pc = (s', fin, es)" "accounts es0 (pc_outcome pc)"
  shows "\<forall>how pc'. fin = Some (how, pc') \<longrightarrow> accounts (es0 @ es) (pc_outcome pc')"
  using assms
proof (induction ts arbitrary: iters s pc s' fin es es0)
  case (Cons t ts)
  obtain s1 r where c: "timed_call A (sk_tool sk) (sk_args sk) (kt_dropped t) s = (s1, r)" by fastforce
  obtain s2 fin2 es2 where l: "phase_calls A sk name deadline concurrent ts (iters + 1) s1 (count_phase_call r pc) = (s2, fin2, es2)"
    by (cases "phase_calls A sk name deadline concurrent ts (iters + 1) s1 (count_phase_call r pc)") auto
  have acc: "accounts (es0 @ [call_event t (sk_tool sk) r]) (pc_outcome (count_phase_call r pc))"
    using accounts_call [OF Cons.prems(2)] by (simp add: count_phase_call_def)
  show ?case using Cons.prems c l Cons.IH [OF l acc] acc
    by (auto simp: Let_def phase_note_def split: if_splits call_end.splits)
qed (auto split: if_splits)

lemma phase_loop_counts:
  assumes "phase_loop A sk name deadline concurrent ts s pc = (s', fin, es)" "accounts es0 (pc_outcome pc)"
  shows "\<forall>terminal pc'. fin = Some (terminal, pc') \<longrightarrow> accounts (es0 @ es) (pc_outcome pc')"
  using assms
proof (induction ts arbitrary: s pc s' fin es es0)
  case (Cons t ts)
  obtain s1 fin1 es1 where c: "phase_calls A sk name deadline concurrent (pr_calls t) 0 s pc = (s1, fin1, es1)"
    by (cases "phase_calls A sk name deadline concurrent (pr_calls t) 0 s pc") auto
  note acc = phase_calls_counts [OF c Cons.prems(2)]
  show ?case
  proof (cases "\<exists>pc1. fin1 = Some (Tick_Done, pc1)")
    case True
    then obtain pc1 where pc1: "fin1 = Some (Tick_Done, pc1)" by blast
    obtain s2 fin2 es2 where l: "phase_loop A sk name deadline concurrent ts s1 pc1 = (s2, fin2, es2)"
      by (cases "phase_loop A sk name deadline concurrent ts s1 pc1") auto
    have "accounts (es0 @ es1) (pc_outcome pc1)" using acc pc1 by blast
    from Cons.IH [OF l this] show ?thesis using Cons.prems c l pc1 acc
      by (auto simp: phase_note_def split: if_splits)
  next
    case False
    then show ?thesis using Cons.prems c acc
      by (auto simp: phase_note_def split: if_splits option.splits prod.splits tick_end.splits)
  qed
qed simp

lemma drive_phase_counts:
  assumes "drive_phase A sk env name concurrent d s out = (s', Some (terminal, out'), es)" "accounts es0 out"
  shows "accounts (es0 @ es) out'"
  using assms phase_loop_counts [of A sk name "fe_started env + d" concurrent "fe_rounds env" s
      "\<lparr>pc_outcome = out, pc_calls = 0, pc_errors = 0\<rparr>"]
  by (fastforce simp: drive_phase_def split: prod.splits option.splits)

lemma sequential_phases_counts:
  assumes "sequential_phases A sk env phases s out = Some (out', ess)" "accounts es0 out"
  shows "accounts (es0 @ concat ess) out'"
  using assms
proof (induction phases arbitrary: s out es0 ess)
  case (Cons phase phases)
  obtain name concurrent d where p: "phase = (name, concurrent, d)" by (cases phase)
  obtain s1 terminal out1 es where d: "drive_phase A sk (env name) name concurrent d s out = (s1, Some (terminal, out1), es)"
    using Cons.prems(1) by (auto simp: p split: prod.splits option.splits)
  note acc = drive_phase_counts [OF d Cons.prems(2)]
  show ?case using Cons.prems(1) d acc Cons.IH [OF _ acc] by (auto simp: p split: if_splits)
qed simp

lemma drive_spike_accounts:
  assumes run: "drive_spike A factory ticks env sk s = Some (out, streams)"
    and perm: "\<forall>name xs. mset (pe_joined (ft_pool (ticks name)) xs) = mset xs"
  shows "accounts (concat streams) out"
proof -
  have "\<exists>out0 out1. accounts [] out0 \<and> out = push_summary sk out1
      \<and> (pooled_phases A sk ticks (spike_phases sk) out0 = Some (out1, streams)
        \<or> sequential_phases A sk env (spike_phases sk) s out0 = Some (out1, streams))"
    if "\<not> (sk_baseline_concurrent sk = 0 \<or> sk_spike_concurrent sk = 0)"
    using run that by (fastforce simp: drive_spike_def drive_pooled_phases_def Let_def split: if_splits)
  moreover have "accounts es (push_summary sk o1) = accounts es o1" for es o1 by (simp add: push_summary_def)
  ultimately show ?thesis
    using run pooled_phases_counts [OF _ _ perm, where ?es0.0 = "[]"] sequential_phases_counts [where ?es0.0 = "[]"]
    by (cases "sk_baseline_concurrent sk = 0 \<or> sk_spike_concurrent sk = 0") (auto simp: drive_spike_def)
qed

text \<open>
  C18. What a stepped scenario reports is what the recorder saw. Whether a ramp or a spike, over pools or on
  the one session, however many calls fail, are cancelled or never made because sessions do not spawn, and
  in whatever order the calls of a pool's workers reach the shared recorder: the reported successes are
  the recorder's successes, successes and errors together are all it recorded, the reported total is the
  number of calls it filed under a tool, and no hang, deadlock or divergence is made up.
\<close>

theorem stepped_outcome_matches_recorder:
  assumes run: "(\<exists>st levels. drive_ramp H A factory ts qs rp s = Some (st, levels) \<and> out = ra_outcome st \<and> events = ramp_events st)
      \<or> (\<exists>streams. drive_spike A factory ticks env sk s = Some (out, streams) \<and> events = concat streams)"
    and perm: "\<forall>t \<in> set ts. \<forall>xs. mset (pe_joined (rt_pool t) xs) = mset xs"
      "\<forall>name xs. mset (pe_joined (ft_pool (ticks name)) xs) = mset xs"
    and H: "hdr_contract H" and order: "mset es = mset events" and len: "length es < 2 ^ 64"
  shows "\<exists>r0 r m. recorder_new H t0 = Some r0 \<and> recorder_run H r0 es = Some r \<and> recorder_snapshot H now r = Some m
     \<and> so_successful_calls out = oc_success (sm_outcomes m)
     \<and> unat (so_successful_calls out) + unat (so_error_count out) = unat (ts_total_requests (sm_throughput m))
     \<and> unat (so_total_calls out) = length (filter (\<lambda>e. event_tool e \<noteq> None) es)
     \<and> so_hang_count out = 0 \<and> so_deadlock_count out = 0 \<and> so_divergence_count out = 0"
proof -
  have "accounts events out"
    using run drive_ramp_accounts [OF _ perm(1)] drive_spike_accounts [OF _ perm(2)] by blast
  then have "accounts es out" using counts_in_mset [OF order] by (simp add: accounts_def)
  from accounts_matches_recorder [OF this H len] show ?thesis .
qed

text \<open>The rounds that a ramp takes; at the largest planned level it takes no end of them.\<close>

lemma drive_ramp_returns:
  assumes "rp_to_concurrent rp < - 1" "rp_step_increment rp \<noteq> 0"
    and "(unat (rp_to_concurrent rp) - unat (rp_from_concurrent rp)) div unat (rp_step_increment rp) < length ts"
    and "\<forall>t \<in> set ts. \<forall>c st. ramp_pooled_step H A rp t c st \<noteq> None"
  shows "drive_ramp_pooled H A rp ts \<noteq> None"
proof -
  have "0 < unat (rp_step_increment rp)" using assms(2) by (simp add: unat_gt_0)
  then have "unat (rp_to_concurrent rp) - unat (rp_from_concurrent rp) < length ts * unat (rp_step_increment rp)"
    using assms(3) by (simp add: div_less_iff_less_mult)
  then have "unat (rp_to_concurrent rp) < unat (rp_from_concurrent rp) + length ts * unat (rp_step_increment rp)" by linarith
  from ramp_levels_end [OF assms(1) this assms(4)] show ?thesis by (simp add: drive_ramp_pooled_def)
qed

lemma drive_ramp_at_max_never_returns:
  assumes "rp_to_concurrent rp = - 1" "\<forall>t \<in> set ts. \<forall>c st. \<exists>st'. ramp_pooled_step H A rp t c st = Some (st', True)"
  shows "drive_ramp_pooled H A rp ts = None"
  using ramp_levels_stuck [OF assms(2)] by (simp add: drive_ramp_pooled_def assms(1))

text \<open>A watched ramp that was cancelled before its first step says that it was completed.\<close>

lemma cancelled_ramp_claims_completion:
  assumes "rt_cancelled t" "rp_from_concurrent rp \<le> rp_to_concurrent rp" "rp_breaking_point rp = Some cfg"
  shows "\<exists>st levels. drive_ramp_pooled H A rp (t # ts) = Some (st, levels) \<and> so_total_calls (ra_outcome st) = 0
     \<and> ''ramp: completed full ramp without breaking point'' \<in> set (so_notes (ra_outcome st))"
  using assms by (simp add: drive_ramp_pooled_def ramp_pooled_step_def finish_ramp_def not_less [symmetric])
    (simp add: ramp_note_def add_note_def ramp_start_def scenario_outcome_default_def)

subsection \<open>A ramp that breaks at its first level\<close>

text \<open>The one call of the first level is dropped by a cancellation; the budget allows no error.\<close>

definition dropped_tick :: call_tick where
  "dropped_tick = \<lparr>kt_cancelled = False, kt_now = 0, kt_dropped = True, kt_elapsed = 0, kt_thread = 0, kt_recorded = 0\<rparr>"

definition no_errors :: breaking_point_config where
  "no_errors = \<lparr>bc_max_p99_latency = 10 ^ 9, bc_max_error_rate = F64_Fin 0, bc_window_secs = F64_Fin 1\<rparr>"

definition small_ramp :: ramp where
  "small_ramp = \<lparr>rp_from_concurrent = 1, rp_to_concurrent = 2, rp_step_duration = 5, rp_step_increment = 1,
     rp_tool = ''echo'', rp_args = JObject [], rp_breaking_point = Some no_errors\<rparr>"

definition small_tick :: "string ramp_tick" where
  "small_tick = \<lparr>rt_cancelled = False, rt_now = 0, rt_pool = echo_env [(0, Spawn_Session echo_session)],
     rt_calls = \<lambda>_. [dropped_tick], rt_order = concat, rt_snapshot_at = 5\<rparr>"

definition dropped_event :: rec_event where
  "dropped_event = Rec_Tool 0 0 ''echo'' 0 Outcome_Cancelled"

definition one_drop :: scenario_outcome where
  "one_drop = scenario_outcome_default\<lparr>so_total_calls := 1, so_error_count := 1\<rparr>"

lemma dropped_worker:
  "stepped_worker echo_api label 5 ''echo'' (JObject []) (\<lambda>_. [dropped_tick]) i 0 echo_session = ([dropped_event], Some (Inr one_drop))"
  by (simp add: stepped_worker_def dropped_tick_def timed_call_def Let_def count_call_def call_event_def dropped_event_def
      one_drop_def shutdown_session_def session_shutdown_def record_shutdown_def echo_over_def scenario_outcome_default_def)

lemma dropped_pool:
  "\<exists>part. drive_pooled echo_api (rt_pool small_tick) 1 (ramp_worker echo_api small_ramp small_tick)
     = Some (part, [[], [dropped_event]]) \<and> so_total_calls part = 1 \<and> so_error_count part = 1"
  by (simp add: drive_pooled_def Let_def spawn_step_def run_workers_def small_tick_def small_ramp_def ramp_worker_def dropped_worker)
   (simp add: merge_worker_outcome_def Let_def one_drop_def scenario_outcome_default_def)

lemma snapshot_exists:
  assumes H: "hdr_contract H" and len: "length es < 2 ^ 64"
  shows "\<exists>m. snapshot_of H started now es = Some m"
proof -
  obtain r0 r where r: "recorder_new H started = Some r0" "recorder_run H r0 es = Some r" "recorder_inv H es r"
    using recorder_run_inv [OF H len] by blast
  then have t: "tally H (map event_outcome es) (rec_outcomes r) (rec_latency r)" by (simp add: recorder_inv_def)
  obtain h where "sharded_merged H (rec_latency r) = Some h" using tally_merged [OF H t] len by auto
  then show ?thesis using r by (simp add: snapshot_of_def recorder_snapshot_def)
qed

lemma small_ramp_breaks:
  "\<exists>st. drive_ramp_pooled exact_api echo_api small_ramp [small_tick] = Some (st, [1])
     \<and> ra_early_break st \<and> ramp_events st = [dropped_event]"
proof -
  obtain part where p: "drive_pooled echo_api (rt_pool small_tick) 1 (ramp_worker echo_api small_ramp small_tick) = Some (part, [[], [dropped_event]])"
    "so_total_calls part = 1" using dropped_pool by blast
  obtain m where m: "snapshot_of exact_api 0 5 [step_record dropped_event] = Some m"
    using snapshot_exists [OF exact_hdr_contract] by fastforce
  have plain: "plain_calls [dropped_event]" "step_calls [[], [dropped_event]] = [dropped_event]"
    by (simp_all add: dropped_event_def step_calls_def)
  have "sample_of [[], [dropped_event]] m"
    by (rule sample_of_snapshot [OF exact_hdr_contract, of "[dropped_event]"]) (use m plain in simp_all)
  then have "compute_error_rate m = F64_Fin 1"
    using plain by (simp add: sample_of_def failure_rate_def dropped_event_def f64_of_nat_def)
  then have v: "violates no_errors m" by (simp add: violates_def no_errors_def)
  have tick: "\<not> rt_cancelled small_tick" "rt_now small_tick = 0" "rt_order small_tick = concat" "rt_snapshot_at small_tick = 5"
    by (simp_all add: small_tick_def)
  have ramp: "rp_from_concurrent small_ramp = 1" "rp_to_concurrent small_ramp = 2" "rp_step_duration small_ramp = 5"
    "rp_tool small_ramp = ''echo''" "rp_args small_ramp = JObject []" "rp_breaking_point small_ramp = Some no_errors"
    by (simp_all add: small_ramp_def)
  have watch: "\<exists>st'. watch_step 1 (Some m) st = Some (st', False) \<and> ra_early_break st' \<and> ramp_events st' = ramp_events st"
    if "ra_detector st = Some (detector_new no_errors)" for st
    using observe_breaks(1) [of "detector_new no_errors" 1 m] v that
    by (simp add: watch_step_def Let_def detector_new_def ramp_events_def)
  define st0 where "st0 = ramp_start small_ramp pooled_ramp_note"
  define st1 where "st1 = st0\<lparr>ra_outcome := merge_step 1 (ra_outcome st0) part,
    ra_steps := ra_steps st0 @ [(1, [[], [dropped_event]])]\<rparr>"
  have "ra_detector st1 = Some (detector_new no_errors)" "ramp_events st1 = [dropped_event]"
    by (simp_all add: st1_def st0_def ramp ramp_events_def)
  then obtain st' where st': "watch_step 1 (Some m) st1 = Some (st', False)" "ra_early_break st'" "ramp_events st' = [dropped_event]"
    using watch [of st1] by auto
  have "\<not> no_usable_sessions part" using p(2) by (simp add: no_usable_sessions_def)
  then have "ramp_pooled_step exact_api echo_api small_ramp small_tick 1 st0 = Some (st', False)"
    using p(1) m st'(1) by (simp add: ramp_pooled_step_def tick ramp Let_def st1_def)
  then show ?thesis using st'(2,3) by (simp add: drive_ramp_pooled_def ramp st0_def)
qed

lemma small_tick_fair: "fair_tick small_tick"
  by (simp add: fair_tick_def small_tick_def)

lemma ramp_breaks_at_first_violation_witness:
  "\<exists>st det. drive_ramp_pooled exact_api echo_api small_ramp [small_tick] = Some (st, [1]) \<and> ra_early_break st
     \<and> ra_detector st = Some det \<and> br_broke_at_concurrent (breaking_point det) = Some 1
     \<and> br_last_known_good (breaking_point det) = None"
proof -
  obtain st where r: "drive_ramp_pooled exact_api echo_api small_ramp [small_tick] = Some (st, [1])"
    "ra_early_break st" "ramp_events st = [dropped_event]" using small_ramp_breaks by blast
  have plan: "rp_breaking_point small_ramp = Some no_errors" "rp_to_concurrent small_ramp < - 1" "length (ramp_events st) < 2 ^ 64"
    by (simp_all add: small_ramp_def r(3))
  from ramp_breaks_at_first_violation [OF r(1) plan(1) exact_hdr_contract _ plan(2,3)] small_tick_fair r
  show ?thesis by auto
qed

lemma stepped_outcome_matches_recorder_witness:
  "\<exists>st r0 r m. drive_ramp exact_api echo_api True [small_tick] [] small_ramp echo_session = Some (st, [1])
     \<and> recorder_new exact_api 0 = Some r0 \<and> recorder_run exact_api r0 [dropped_event] = Some r
     \<and> recorder_snapshot exact_api 9 r = Some m
     \<and> unat (so_successful_calls (ra_outcome st)) + unat (so_error_count (ra_outcome st)) = unat (ts_total_requests (sm_throughput m))
     \<and> unat (so_total_calls (ra_outcome st)) = 1"
proof -
  obtain st where r: "drive_ramp exact_api echo_api True [small_tick] [] small_ramp echo_session = Some (st, [1])"
    "ramp_events st = [dropped_event]"
    using small_ramp_breaks by (auto simp: drive_ramp_def) (simp add: small_ramp_def)
  have perm: "\<forall>t \<in> set [small_tick]. \<forall>xs. mset (pe_joined (rt_pool t) xs) = mset xs"
    using small_tick_fair by (simp add: fair_tick_def)
  have spike_perm: "\<forall>name xs. mset (pe_joined (ft_pool ((\<lambda>_. \<lparr>ft_cancelled = False, ft_now = 0, ft_pool = rt_pool small_tick,
      ft_calls = rt_calls small_tick, ft_elapsed = 0\<rparr>) name)) xs) = mset xs"
    using small_tick_fair by (simp add: fair_tick_def)
  have "\<exists>st' levels. drive_ramp exact_api echo_api True [small_tick] [] small_ramp echo_session = Some (st', levels)
      \<and> ra_outcome st = ra_outcome st' \<and> [dropped_event] = ramp_events st'" using r by metis
  from stepped_outcome_matches_recorder [OF disjI1 [OF this] perm spike_perm exact_hdr_contract refl, of 0 9] r(1)
  show ?thesis by (auto simp: dropped_event_def)
qed

end
