(* ===== verification/Hang_Probes.thy ===== *)
theory Hang_Probes
  imports Workload Race_Detector Breaking_Point
begin

section \<open>The hang watchdog and the scenarios built on it\<close>

text \<open>
  \<open>crates/protocol/src/hang_detector.rs\<close> and, of \<open>crates/engine/src/scenario/\<close>, \<open>deadlock_probe.rs\<close>,
  \<open>race_check.rs\<close> and \<open>cold_start.rs\<close>. Which branch of a \<open>select!\<close> wins and what the clock then reads are
  arguments (a \<open>watch\<close>); a call that never answers is the None of the session's model.
\<close>

subsection \<open>The watchdog\<close>

datatype hang_outcome =
    Hang_Ok call_tool_result duration
  | Hang_Slow call_tool_result duration
  | Hang_Deadlock duration
  | Hang_Err session_error

text \<open>
  The reading of the clock where the call's branch is taken, within the threshold and within the grace
  period; None where the timer's branch is taken.
\<close>

record watch =
  wt_first :: "duration option"
  wt_grace :: "duration option"
  wt_hung_for :: duration

definition DURATION_MAX :: duration where
  "DURATION_MAX = 2 ^ 64 * 10 ^ 9 - 1"

definition deadlock_threshold :: "duration \<Rightarrow> duration \<Rightarrow> duration" where
  "deadlock_threshold hang grace = min (hang + grace) DURATION_MAX"

definition hang_late :: "(session_error + call_tool_result) \<Rightarrow> duration \<Rightarrow> duration \<Rightarrow> hang_outcome" where
  "hang_late answer limit d =
     (case answer of
        Inl e \<Rightarrow> Hang_Err e
      | Inr result \<Rightarrow> if limit \<le> d then Hang_Deadlock d else Hang_Slow result d)"

definition hang_detect ::
  "(session_error + call_tool_result) option \<Rightarrow> duration \<Rightarrow> duration \<Rightarrow> watch \<Rightarrow> hang_outcome" where
  "hang_detect call hang grace w =
     (let limit = deadlock_threshold hang grace in
      case (call, wt_first w) of
        (Some answer, Some d) \<Rightarrow>
          (case answer of
             Inr result \<Rightarrow> if d < hang then Hang_Ok result d else hang_late answer limit d
           | Inl e \<Rightarrow> Hang_Err e)
      | _ \<Rightarrow>
          (case (call, wt_grace w) of
             (Some answer, Some d) \<Rightarrow> hang_late answer limit d
           | _ \<Rightarrow> Hang_Deadlock (wt_hung_for w)))"

subsection \<open>The deadlock probe\<close>

record probe_tick =
  bt_cancelled :: bool
  bt_watch :: watch
  bt_elapsed :: duration
  bt_thread :: u64
  bt_recorded :: nat

definition probe_event :: "probe_tick \<Rightarrow> string \<Rightarrow> duration \<Rightarrow> call_outcome \<Rightarrow> rec_event" where
  "probe_event t tool d oc = Rec_Tool (bt_thread t) (bt_recorded t) tool d oc"

definition call_label :: "string \<Rightarrow> u32 \<Rightarrow> string" where
  "call_label tool iter = ''tool='' @ tool @ '' iter='' @ show_u32 iter"

definition hung_note :: "duration \<Rightarrow> string" where
  "hung_note d = '' hung_for='' @ show_base 10 (as_millis d) @ ''ms''"

definition drive_one ::
  "'t session_api \<Rightarrow> u32 \<Rightarrow> string \<Rightarrow> json \<Rightarrow> duration \<Rightarrow> duration \<Rightarrow> probe_tick \<Rightarrow> 't session
     \<Rightarrow> 't session \<times> scenario_outcome \<times> rec_event list" where
  "drive_one A iter tool arguments hang grace t s =
     (if bt_cancelled t
      then (s, add_note (''cancelled before iter='' @ show_u32 iter) (scenario_outcome_default\<lparr>so_error_count := 1\<rparr>),
        [probe_event t tool 0 Outcome_Cancelled])
      else case call_tool A tool arguments s of (s', r) \<Rightarrow>
        let out = scenario_outcome_default\<lparr>so_total_calls := 1\<rparr> in
        (case hang_detect r hang grace (bt_watch t) of
           Hang_Ok result d \<Rightarrow>
             if is_logical_tool_error result
             then (s', out\<lparr>so_error_count := 1\<rparr>, [probe_event t tool d Outcome_ServerError])
             else (s', out\<lparr>so_successful_calls := 1\<rparr>, [probe_event t tool d Outcome_Success])
         | Hang_Slow result d \<Rightarrow>
             let slow = add_note (''slow response: '' @ call_label tool iter @ '' took='' @ show_base 10 (as_millis d) @ ''ms'')
               (out\<lparr>so_hang_count := 1\<rparr>) in
             if is_logical_tool_error result
             then (s', slow\<lparr>so_error_count := 1\<rparr>, [probe_event t tool d Outcome_ServerError])
             else (s', slow, [probe_event t tool d Outcome_Hang])
         | Hang_Deadlock d \<Rightarrow>
             (s', add_note (''deadlock detected: '' @ call_label tool iter @ hung_note d)
               (out\<lparr>so_deadlock_count := 1, so_hung_for_ms := [of_nat (as_millis d)]\<rparr>), [probe_event t tool d Outcome_Deadlock])
         | Hang_Err e \<Rightarrow>
             (s', add_note (''error: '' @ call_label tool iter @ '' err='' @ show_session_error A e) (out\<lparr>so_error_count := 1\<rparr>),
               [probe_event t tool 0 (classify_error e)])))"

record deadlock_probe =
  dp_concurrent :: u32
  dp_hang_threshold :: duration
  dp_grace_period :: duration
  dp_tool :: string
  dp_args :: json

definition invalid_probe :: "string \<Rightarrow> string \<Rightarrow> scenario_outcome" where
  "invalid_probe name message = scenario_outcome_default\<lparr>so_error_count := 1,
     so_notes := [name @ '': invalid plan '' @ em_dash @ '' '' @ message]\<rparr>"

definition needs_factory :: string where
  "needs_factory = ''a session_factory is required for synchronized concurrent calls (Run::execute attaches one automatically)''"

definition probe_worker ::
  "'t session_api \<Rightarrow> deadlock_probe \<Rightarrow> (u32 \<Rightarrow> probe_tick) \<Rightarrow> 't pool_worker" where
  "probe_worker A dp ticks iter start s =
     (case drive_one A iter (dp_tool dp) (dp_args dp) (dp_hang_threshold dp) (dp_grace_period dp) (ticks iter) s of
        (s', out, es) \<Rightarrow> (es, Some (Inr (shutdown_session A s' (''deadlock_probe worker '' @ show_u32 iter) out))))"

definition drive_deadlock_probe ::
  "'t session_api \<Rightarrow> deadlock_probe \<Rightarrow> (u32 \<Rightarrow> probe_tick) \<Rightarrow> 't pool_env \<Rightarrow> 't session
     \<Rightarrow> (scenario_outcome \<times> rec_event list list) option" where
  "drive_deadlock_probe A dp ticks env s =
     (if dp_concurrent dp = 0 then Some (invalid_probe ''deadlock_probe'' ''concurrent must be >= 1'', [])
      else if dp_hang_threshold dp = 0 then Some (invalid_probe ''deadlock_probe'' ''hang_threshold must be > 0'', [])
      else if dp_concurrent dp = 1
      then (case drive_one A 0 (dp_tool dp) (dp_args dp) (dp_hang_threshold dp) (dp_grace_period dp) (ticks 0) s of
        (s', out, es) \<Rightarrow> Some (out, [es]))
      else if \<not> pe_factory env then Some (invalid_probe ''deadlock_probe'' needs_factory, [])
      else drive_pooled A env (dp_concurrent dp) (probe_worker A dp ticks))"

subsection \<open>The race check\<close>

definition opt_json :: "json option \<Rightarrow> json" where
  "opt_json v = (case v of None \<Rightarrow> JNull | Some j \<Rightarrow> j)"

fun content_to_value :: "content \<Rightarrow> json" where
  "content_to_value (Content_Text t) = JObject [(''type'', JString ''text''), (''text'', JString t)]"
| "content_to_value (Content_Image d mime) =
     JObject [(''type'', JString ''image''), (''data'', JString d), (''mimeType'', JString mime)]"
| "content_to_value (Content_Raw v) = v"

definition call_tool_result_to_value :: "call_tool_result \<Rightarrow> json" where
  "call_tool_result_to_value r = JObject [(''_meta'', opt_json (ct_meta r)),
     (''content'', JArray (map content_to_value (ct_content r))), (''isError'', JBool (ct_is_error r)),
     (''structuredContent'', opt_json (ct_structured_content r))]"

text \<open>A worker's call, with the response it hands to the collector.\<close>

definition race_call ::
  "'t session_api \<Rightarrow> u32 \<Rightarrow> string \<Rightarrow> json \<Rightarrow> duration \<Rightarrow> duration \<Rightarrow> probe_tick \<Rightarrow> 't session
     \<Rightarrow> 't session \<times> scenario_outcome \<times> rec_event list \<times> json option" where
  "race_call A iter tool arguments hang grace t s =
     (if bt_cancelled t
      then (s, add_note (''cancelled before synchronized call iter='' @ show_u32 iter)
        (scenario_outcome_default\<lparr>so_error_count := 1\<rparr>), [], None)
      else case call_tool A tool arguments s of (s', r) \<Rightarrow>
        let out = scenario_outcome_default\<lparr>so_total_calls := 1\<rparr> in
        (case hang_detect r hang grace (bt_watch t) of
           Hang_Ok result d \<Rightarrow>
             if is_logical_tool_error result
             then (s', out\<lparr>so_error_count := 1\<rparr>, [probe_event t tool d Outcome_ServerError],
               Some (call_tool_result_to_value result))
             else (s', out\<lparr>so_successful_calls := 1\<rparr>, [probe_event t tool d Outcome_Success],
               Some (call_tool_result_to_value result))
         | Hang_Slow result d \<Rightarrow>
             if is_logical_tool_error result
             then (s', out\<lparr>so_hang_count := 1, so_error_count := 1\<rparr>, [probe_event t tool d Outcome_ServerError],
               Some (call_tool_result_to_value result))
             else (s', out\<lparr>so_hang_count := 1\<rparr>, [probe_event t tool d Outcome_Hang],
               Some (call_tool_result_to_value result))
         | Hang_Deadlock d \<Rightarrow>
             (s', add_note (''deadlock: '' @ call_label tool iter @ hung_note d)
               (out\<lparr>so_deadlock_count := 1, so_hung_for_ms := [of_nat (as_millis d)]\<rparr>), [probe_event t tool d Outcome_Deadlock], None)
         | Hang_Err e \<Rightarrow>
             (s', add_note (''error: '' @ call_label tool iter @ '' err='' @ show_session_error A e) (out\<lparr>so_error_count := 1\<rparr>),
               [probe_event t tool (bt_elapsed t) (classify_error e)], None)))"

record race_check =
  rc_concurrent :: u32
  rc_tool :: string
  rc_args :: json

text \<open>The thresholds of the run's context, the rounds of the workers, the order in which responses arrive.\<close>

record race_env =
  re_hang_threshold :: duration
  re_grace_period :: duration
  re_ticks :: "u32 \<Rightarrow> probe_tick"
  re_arrival :: "json list \<Rightarrow> json list"

definition race_worker_call ::
  "'t session_api \<Rightarrow> race_check \<Rightarrow> race_env \<Rightarrow> u32 \<Rightarrow> 't session \<Rightarrow> 't session \<times> scenario_outcome \<times> rec_event list \<times> json option" where
  "race_worker_call A rc renv iter s =
     race_call A iter (rc_tool rc) (rc_args rc) (re_hang_threshold renv) (re_grace_period renv) (re_ticks renv iter) s"

definition race_worker :: "'t session_api \<Rightarrow> race_check \<Rightarrow> race_env \<Rightarrow> 't pool_worker" where
  "race_worker A rc renv iter start s =
     (case race_worker_call A rc renv iter s of (s', out, es, _) \<Rightarrow>
        (es, Some (Inr (shutdown_session A s' ((if bt_cancelled (re_ticks renv iter)
            then ''race_check cancelled worker '' else ''race_check worker '') @ show_u32 iter) out))))"

text \<open>The sessions whose workers the pool starts.\<close>

definition pool_sessions :: "'t pool_env \<Rightarrow> u32 \<Rightarrow> (u32 \<times> 't session) list" where
  "pool_sessions env requested =
     (if \<not> pe_factory env \<or> requested = 0 \<or> pe_cancelled env then []
      else case (case pe_gate env of None \<Rightarrow> Inr (pe_now env) | Some answer \<Rightarrow> answer) of
        Inl error \<Rightarrow> []
      | Inr start \<Rightarrow> if pe_later env < start \<and> pe_wait_cancelled env then []
          else sort_key fst (live_sessions (pe_spawned env)))"

definition collected :: "'t session_api \<Rightarrow> race_check \<Rightarrow> race_env \<Rightarrow> 't pool_env \<Rightarrow> json list" where
  "collected A rc renv env = re_arrival renv
     (List.map_filter (\<lambda>(iter, s). snd (snd (snd (race_worker_call A rc renv iter s)))) (pool_sessions env (rc_concurrent rc)))"

text \<open>A text of at most 200 bytes as it is, a longer one cut after 200 characters.\<close>

definition char_starts :: "string \<Rightarrow> nat list" where
  "char_starts s = filter (\<lambda>i. \<not> (0x80 \<le> (of_char (s ! i) :: nat) \<and> (of_char (s ! i) :: nat) < 0xC0)) [0..<length s]"

definition preview :: "string \<Rightarrow> nat \<Rightarrow> string" where
  "preview s m =
     (if length s \<le> m then s
      else take (if m < length (char_starts s) then char_starts s ! m else length s) s @ ''...'')"

definition push_divergence_notes :: "string \<Rightarrow> divergence_report \<Rightarrow> scenario_outcome \<Rightarrow> scenario_outcome" where
  "push_divergence_notes tool report out =
     (let headed = add_note (''divergence detected: tool='' @ tool @ '' total='' @ show_base 10 (dr_total_responses report)
            @ '' unique='' @ show_base 10 (dr_unique_responses report)) out;
          shown = fold (\<lambda>(i, count, canonical). add_note (''  group #'' @ show_base 10 (i + 1) @ '': occurrences=''
            @ show_base 10 count @ '' canonical='' @ preview canonical 200)) (enumerate 0 (take 3 (dr_samples report))) headed in
      if 3 < length (dr_samples report)
      then add_note (''  ... '' @ show_base 10 (length (dr_samples report) - 3) @ '' more group(s) omitted'') shown
      else shown)"

definition race_verdict :: "quoter \<Rightarrow> race_check \<Rightarrow> json list \<Rightarrow> scenario_outcome \<Rightarrow> scenario_outcome" where
  "race_verdict q rc responses out =
     (if length responses \<noteq> unat (rc_concurrent rc)
      then add_note (''race_check inconclusive: received '' @ show_base 10 (length responses) @ ''/'' @ show_u32 (rc_concurrent rc)
          @ '' comparable responses'')
        (out\<lparr>so_error_count := max (so_error_count out) (of_nat (unat (rc_concurrent rc) - length responses))\<rparr>)
      else let report = race_analyze q responses in
        if dr_diverged report
        then push_divergence_notes (rc_tool rc) report (out\<lparr>so_divergence_count := so_divergence_count out + 1\<rparr>)
        else out)"

definition drive_race_check ::
  "quoter \<Rightarrow> 't session_api \<Rightarrow> race_check \<Rightarrow> race_env \<Rightarrow> 't pool_env \<Rightarrow> (scenario_outcome \<times> rec_event list list) option" where
  "drive_race_check q A rc renv env =
     (if rc_concurrent rc < 2 then Some (invalid_probe ''race_check'' ''concurrent must be >= 2 to compare responses'', [])
      else if \<not> pe_factory env then Some (invalid_probe ''race_check'' needs_factory, [])
      else map_option (\<lambda>(out, streams). (race_verdict q rc (collected A rc renv env) out, streams))
        (drive_pooled A env (rc_concurrent rc) (race_worker A rc renv)))"

subsection \<open>The watchdog goes by the clock\<close>

text \<open>A timer never fires early, and the clock does not run backwards.\<close>

definition watch_ok :: "duration \<Rightarrow> duration \<Rightarrow> watch \<Rightarrow> bool" where
  "watch_ok hang grace w \<longleftrightarrow> (\<forall>d. wt_grace w = Some d \<longrightarrow> hang \<le> d) \<and> hang + grace \<le> wt_hung_for w"

text \<open>
  The watchdog goes by the clock and hides nothing. A call is reported as answered in time only with
  its own result and after less than the threshold, as slow only with its own result and between the
  threshold and the threshold plus the grace period, as deadlocked only when at least that much time has
  passed, even if an answer was there at last, and as failed only with its own error. So an answer that
  came within the threshold is never called a hang, and one over the budget never a success.
\<close>

theorem hang_detect_by_the_clock:
  assumes "watch_ok hang grace w" "hang_detect call hang grace w = outcome"
  shows "case outcome of
       Hang_Ok result d \<Rightarrow> call = Some (Inr result) \<and> wt_first w = Some d \<and> d < hang
     | Hang_Slow result d \<Rightarrow> call = Some (Inr result) \<and> hang \<le> d \<and> d < deadlock_threshold hang grace
     | Hang_Deadlock d \<Rightarrow> deadlock_threshold hang grace \<le> d \<and> (\<forall>d'. call \<noteq> None \<and> wt_first w = Some d' \<longrightarrow> d = d')
     | Hang_Err e \<Rightarrow> call = Some (Inl e)"
  using assms
  by (auto simp: hang_detect_def hang_late_def watch_ok_def deadlock_threshold_def Let_def
      split: option.splits sum.splits if_splits)

lemma hang_detect_by_the_clock_witness:
  "watch_ok 5 10 \<lparr>wt_first = Some 16, wt_grace = None, wt_hung_for = 15\<rparr>
     \<and> (case hang_detect (Some (Inr empty_result)) 5 10 \<lparr>wt_first = Some 16, wt_grace = None, wt_hung_for = 15\<rparr> of
          Hang_Deadlock d \<Rightarrow> deadlock_threshold 5 10 \<le> d \<and> d = 16 | _ \<Rightarrow> False)"
proof -
  have w: "watch_ok 5 10 \<lparr>wt_first = Some 16, wt_grace = None, wt_hung_for = 15\<rparr>" by (simp add: watch_ok_def)
  have d: "hang_detect (Some (Inr empty_result)) 5 10 \<lparr>wt_first = Some 16, wt_grace = None, wt_hung_for = 15\<rparr> = Hang_Deadlock 16"
    by (simp add: hang_detect_def hang_late_def deadlock_threshold_def DURATION_MAX_def)
  show ?thesis using hang_detect_by_the_clock [OF w d] w d by simp
qed

subsection \<open>A race check that concludes has compared every answer\<close>

lemma race_worker_ends:
  "\<exists>es w. race_worker A rc renv iter start s = (es, Some (Inr w)) \<and> so_divergence_count w = 0"
proof -
  have "so_divergence_count (fst (snd (race_worker_call A rc renv iter s))) = 0"
    by (simp add: race_worker_call_def race_call_def Let_def scenario_outcome_default_def
        split: prod.splits hang_outcome.splits)
  moreover have "so_divergence_count (shutdown_session A s ctx out) = so_divergence_count out" for s ctx out
    by (simp add: shutdown_session_def record_shutdown_def Let_def split: option.split sum.split)
  ultimately show ?thesis by (auto simp: race_worker_def split: prod.splits)
qed

lemma foldl_preserves: "P st \<Longrightarrow> (\<And>st x. x \<in> set xs \<Longrightarrow> P st \<Longrightarrow> P (f st x)) \<Longrightarrow> P (foldl f st xs)"
  by (induction xs arbitrary: st) auto

lemma abandon_divergence: "so_divergence_count (abandon_pool A sessions note suffix out) = so_divergence_count out"
proof -
  have "so_divergence_count (shutdown_session A s ctx out) = so_divergence_count out" for s ctx out
    by (simp add: shutdown_session_def record_shutdown_def Let_def split: option.split sum.split)
  then have "so_divergence_count (fold (\<lambda>(idx, s). shutdown_session A s (ctx idx)) sessions o1) = so_divergence_count o1" for ctx o1
    by (induction sessions arbitrary: o1) (auto split: prod.split)
  from this [of "\<lambda>idx. ''pool worker '' @ show_u32 idx @ suffix"] show ?thesis by (simp add: abandon_pool_def)
qed

lemma drive_pooled_divergence:
  assumes run: "drive_pooled A env requested pw = Some (out, streams)"
    and perm: "\<And>xs. mset (pe_joined env xs) = mset xs"
    and pw: "\<And>iter start s. \<exists>es w. pw iter start s = (es, Some (Inr w)) \<and> so_divergence_count w = 0"
  shows "so_divergence_count out = 0"
proof -
  obtain ss o0 es where sp: "foldl (spawn_step A (pe_thread env)) ([], scenario_outcome_default, []) (pe_spawned env) = (ss, o0, es)"
    by (cases "foldl (spawn_step A (pe_thread env)) ([], scenario_outcome_default, []) (pe_spawned env)") auto
  have "accounts es o0" using spawn_fold [OF sp accounts_default] by simp
  then have o0: "so_divergence_count o0 = 0" by (simp add: accounts_def)
  have joined: "so_divergence_count out1 = 0"
    if r: "run_workers env requested start pw ss' o1 es1 = Some (out1, streams1)" and o1: "so_divergence_count o1 = 0"
    for start ss' o1 es1 out1 streams1
  proof -
    let ?ends = "map (\<lambda>(idx, es, r). (idx, the r)) (map (\<lambda>(idx, s). (idx, pw idx start s)) ss')"
    have item: "\<exists>i w. x = (i, Inr w) \<and> so_divergence_count w = 0" if "x \<in> set (pe_joined env ?ends)" for x
    proof -
      have "x \<in> set ?ends" using that mset_eq_setD [OF perm] by metis
      then obtain i s where x: "x = (i, the (snd (pw i start s)))" by (auto simp: case_prod_beta)
      obtain wes w where "pw i start s = (wes, Some (Inr w))" "so_divergence_count w = 0" using pw by blast
      then show ?thesis by (simp add: x)
    qed
    have "so_divergence_count (fst (foldl (join_step (pe_thread env)) (o1, es1) (pe_joined env ?ends))) = 0"
      by (rule foldl_preserves) (use o1 item in \<open>force simp: merge_worker_outcome_def Let_def\<close>)+
    then show ?thesis using r by (auto simp: run_workers_def Let_def split: if_splits prod.splits)
  qed
  show ?thesis using run sp o0 joined
    by (auto simp: drive_pooled_def Let_def abandon_divergence scenario_outcome_default_def
        split: if_splits option.splits sum.splits)
qed

lemma length_map_filter_le: "length (List.map_filter f xs) \<le> length xs"
  by (induction xs) (simp_all add: map_filter_simps split: option.split)

lemma map_filter_full: "length (List.map_filter f xs) = length xs \<Longrightarrow> \<forall>x \<in> set xs. f x \<noteq> None"
proof (induction xs)
  case (Cons x xs)
  then show ?case using length_map_filter_le [of f xs] by (auto simp: map_filter_simps split: option.splits)
qed simp

lemma live_length: "length (live_sessions xs) \<le> length xs"
  unfolding live_sessions_def by (rule length_map_filter_le)

lemma live_full: "length (live_sessions xs) = length xs \<Longrightarrow> \<forall>(iter, r) \<in> set xs. \<exists>s. r = Spawn_Session s"
  unfolding live_sessions_def by (drule map_filter_full) (force split: spawned.splits)

lemma pool_sessions_le: "length (pool_sessions env requested) \<le> length (live_sessions (pe_spawned env))"
  by (auto simp: pool_sessions_def split: option.split sum.split)

lemma squeeze:
  fixes a b c d :: nat
  assumes "a \<le> b" "b \<le> c" "c \<le> d" "a = d"
  shows "a = b" "b = c" "c = d"
  using assms by linarith+

lemma collected_full:
  assumes arrival: "\<And>xs. mset (re_arrival renv xs) = mset xs"
    and spawned: "length (pe_spawned env) = unat (rc_concurrent rc)" and all: "length (collected A rc renv env) = unat (rc_concurrent rc)"
  shows "\<forall>(iter, r) \<in> set (pe_spawned env). \<exists>s v. r = Spawn_Session s
     \<and> snd (snd (snd (race_worker_call A rc renv iter s))) = Some v"
proof -
  let ?f = "\<lambda>(iter, s). snd (snd (snd (race_worker_call A rc renv iter s)))"
  let ?ss = "pool_sessions env (rc_concurrent rc)"
  have "length (collected A rc renv env) = length (List.map_filter ?f ?ss)"
    unfolding collected_def by (rule mset_eq_length [OF arrival])
  then have "length (List.map_filter ?f ?ss) = length (pe_spawned env)" using all spawned by simp
  note len = squeeze [OF length_map_filter_le pool_sessions_le live_length this]
  show ?thesis
  proof (intro ballI)
    fix x assume x: "x \<in> set (pe_spawned env)"
    obtain iter r where ir: "x = (iter, r)" by (cases x)
    obtain s where s: "r = Spawn_Session s" using live_full [OF len(3)] x ir by force
    have "?ss = sort_key fst (live_sessions (pe_spawned env))"
      using len(2) x len(3) by (auto simp: pool_sessions_def split: option.splits sum.splits if_splits)
    then have "(iter, s) \<in> set ?ss" using x ir s by (simp add: live_sessions_mem)
    then show "case x of (iter, r) \<Rightarrow> \<exists>s v. r = Spawn_Session s
        \<and> snd (snd (snd (race_worker_call A rc renv iter s))) = Some v"
      using map_filter_full [OF len(1)] ir s by auto
  qed
qed

lemma push_divergence_count [simp]:
  "so_divergence_count (push_divergence_notes tool report out) = so_divergence_count out"
  "so_error_count (push_divergence_notes tool report out) = so_error_count out"
proof -
  have "so_divergence_count (fold (\<lambda>(i, c, t). add_note (g i c t)) xs o1) = so_divergence_count o1
      \<and> so_error_count (fold (\<lambda>(i, c, t). add_note (g i c t)) xs o1) = so_error_count o1"
    for g :: "nat \<Rightarrow> nat \<Rightarrow> string \<Rightarrow> string" and xs o1 by (induction xs arbitrary: o1) (auto split: prod.split)
  then show "so_divergence_count (push_divergence_notes tool report out) = so_divergence_count out"
    "so_error_count (push_divergence_notes tool report out) = so_error_count out"
    by (simp_all add: push_divergence_notes_def Let_def)
qed

text \<open>
  C22. A race check cannot be inconclusive and look clean. When it reports no error, every one of the
  sessions it asked for was spawned and its call answered; and then it reports a divergence exactly when
  two of those answers, content, error flag, structured content and metadata, are different values, in
  whatever order they arrived. Without all the answers it reports an error and never a divergence.
\<close>

theorem race_check_conclusive:
  assumes run: "drive_race_check q A rc renv env = Some (out, streams)" "2 \<le> rc_concurrent rc" "pe_factory env"
    and joined: "\<And>xs. mset (pe_joined env xs) = mset xs" and arrival: "\<And>xs. mset (re_arrival renv xs) = mset xs"
    and spawned: "length (pe_spawned env) = unat (rc_concurrent rc)"
    and q: "quote_contract q" and ok: "list_all json_ok (collected A rc renv env)"
  shows "(so_error_count out = 0 \<longrightarrow> length (collected A rc renv env) = unat (rc_concurrent rc)
        \<and> (\<forall>(iter, r) \<in> set (pe_spawned env). \<exists>s v. r = Spawn_Session s
             \<and> snd (snd (snd (race_worker_call A rc renv iter s))) = Some v))
     \<and> (so_divergence_count out \<noteq> 0 \<longleftrightarrow> length (collected A rc renv env) = unat (rc_concurrent rc)
        \<and> (\<exists>v \<in> set (collected A rc renv env). \<exists>w \<in> set (collected A rc renv env). canonical_value v \<noteq> canonical_value w))"
proof -
  let ?vs = "collected A rc renv env"
  obtain out0 where o: "drive_pooled A env (rc_concurrent rc) (race_worker A rc renv) = Some (out0, streams)"
    "out = race_verdict q rc ?vs out0"
    using run(1,3) leD [OF run(2)] by (auto simp: drive_race_check_def)
  have none: "so_divergence_count out0 = 0" by (rule drive_pooled_divergence [OF o(1) joined race_worker_ends])
  have "length ?vs = length (List.map_filter (\<lambda>(iter, s). snd (snd (snd (race_worker_call A rc renv iter s))))
      (pool_sessions env (rc_concurrent rc)))"
    unfolding collected_def by (rule mset_eq_length [OF arrival])
  also have "\<dots> \<le> length (pe_spawned env)"
    by (rule le_trans [OF length_map_filter_le le_trans [OF pool_sessions_le live_length]])
  finally have le: "length ?vs \<le> unat (rc_concurrent rc)" using spawned by simp
  show ?thesis
  proof (cases "length ?vs = unat (rc_concurrent rc)")
    case True
    have "dr_diverged (race_analyze q ?vs) \<longleftrightarrow> (\<exists>v \<in> set ?vs. \<exists>w \<in> set ?vs. canonical_value v \<noteq> canonical_value w)"
      using race_analyze_diverged [OF q ok] .
    moreover have "so_divergence_count out \<noteq> 0 \<longleftrightarrow> dr_diverged (race_analyze q ?vs)"
      using none True by (simp add: o(2) race_verdict_def Let_def)
    ultimately show ?thesis using True collected_full [OF arrival spawned True] by blast
  next
    case False
    let ?missing = "of_nat (unat (rc_concurrent rc) - length ?vs) :: u64"
    have "0 < unat (rc_concurrent rc) - length ?vs" "unat (rc_concurrent rc) - length ?vs < 2 ^ 64"
      using False le unsigned_less [of "rc_concurrent rc", where 'a = nat] by (simp_all add: less_imp_diff_less)
    then have "?missing \<noteq> 0" using unat_of_nat_u64 by (metis less_irrefl unat_0)
    moreover have "?missing \<le> so_error_count out" using False o(2) by (simp add: race_verdict_def)
    ultimately have "so_error_count out \<noteq> 0" by auto
    then show ?thesis using False none o(2) by (simp add: race_verdict_def)
  qed
qed

subsection \<open>A clean deadlock probe\<close>

lemma spawn_all:
  "\<forall>(i, r) \<in> set xs. \<exists>s. r = Spawn_Session s \<Longrightarrow>
     foldl (spawn_step A th) (ss, out, es) xs = (ss @ live_sessions xs, out, es)"
  by (induction xs arbitrary: ss) (auto simp: spawn_step_def)

lemma sum_u32_zero:
  fixes f :: "'a \<Rightarrow> u32"
  assumes "\<forall>x \<in> set xs. unat (f x) \<le> 1" "length xs < 2 ^ 32" "sum_list (map f xs) = 0"
  shows "\<forall>x \<in> set xs. f x = 0"
proof -
  have le: "sum_list (map (unat \<circ> f) xs) \<le> length xs" using assms(1) by (induction xs) auto
  have "sum_list (map f xs) = of_nat (sum_list (map (unat \<circ> f) xs))" by (induction xs) simp_all
  moreover have "unat (of_nat n :: u32) = n" if "n < 2 ^ 32" for n using that by (simp add: unsigned_of_nat take_bit_nat_eq_self)
  ultimately have "sum_list (map (unat \<circ> f) xs) = 0" using le_less_trans [OF le assms(2)] assms(3) by (metis unat_0)
  then show ?thesis by (simp add: unat_eq_zero)
qed

text \<open>What the counters of a pool that made a call say of its workers.\<close>

lemma drive_pooled_workers:
  assumes run: "drive_pooled A env requested pw = Some (out, streams)" and calls: "so_total_calls out \<noteq> 0"
    and perm: "\<And>xs. mset (pe_joined env xs) = mset xs"
    and ends: "\<forall>i start s es r. pw i start s = (es, Some r) \<longrightarrow> (\<exists>w. r = Inr w \<and> so_incomplete_worker_count w = 0)"
    and n: "length (pe_spawned env) = unat requested" and complete: "so_incomplete_worker_count out = 0"
  shows "\<exists>start ews. map (\<lambda>(i, s). pw i start s) (sort_key fst (live_sessions (pe_spawned env)))
        = map (\<lambda>(wes, w). (wes, Some (Inr w))) ews
     \<and> length ews = unat requested \<and> (\<forall>(i, r) \<in> set (pe_spawned env). \<exists>s. r = Spawn_Session s)
     \<and> (\<forall>(wes, w) \<in> set ews. so_total_calls w \<noteq> 0)
     \<and> so_error_count out = sum_list (map (so_error_count \<circ> snd) ews)
     \<and> so_hang_count out = sum_list (map (so_hang_count \<circ> snd) ews)
     \<and> so_deadlock_count out = sum_list (map (so_deadlock_count \<circ> snd) ews)"
proof -
  obtain ss o0 es where sp: "foldl (spawn_step A (pe_thread env)) ([], scenario_outcome_default, []) (pe_spawned env) = (ss, o0, es)"
    by (cases "foldl (spawn_step A (pe_thread env)) ([], scenario_outcome_default, []) (pe_spawned env)") auto
  note S = spawn_fold [OF sp accounts_default]
  let ?o1 = "o0\<lparr>so_incomplete_worker_count := saturating_sub (ucast requested) (of_nat (length ss))\<rparr>"
  have none: "so_total_calls out = 0" if "accounts es out" using that S by (simp add: accounts_def)
  have "\<exists>start. run_workers env requested start pw (sort_key fst ss) ?o1 es = Some (out, streams)"
    using run sp calls none S
    by (auto simp: drive_pooled_def Let_def scenario_outcome_default_def add_note_def
        split: if_splits option.splits sum.splits)
  then obtain start where rw: "run_workers env requested start pw (sort_key fst ss) ?o1 es = Some (out, streams)" by blast
  have "\<forall>i s es r. pw i start s = (es, Some r) \<longrightarrow> (\<exists>w. r = Inr w)" using ends by blast
  from run_workers_sums [OF rw perm this] obtain ews note1 o1 where
    E: "map (\<lambda>(i, s). pw i start s) (sort_key fst ss) = map (\<lambda>(wes, w). (wes, Some (Inr w))) ews" "out = add_note note1 o1"
      "so_error_count o1 = so_error_count ?o1 + sum_list (map (so_error_count \<circ> snd) ews)"
      "so_hang_count o1 = so_hang_count ?o1 + sum_list (map (so_hang_count \<circ> snd) ews)"
      "so_deadlock_count o1 = so_deadlock_count ?o1 + sum_list (map (so_deadlock_count \<circ> snd) ews)"
      "so_incomplete_worker_count o1 = so_incomplete_worker_count ?o1
         + sum_list (map (so_incomplete_worker_count \<circ> snd) ews) + of_nat (sum_list (map (deficit \<circ> snd) ews))"
    by blast
  have len: "length ews = length ss" using arg_cong [OF E(1), of length] by simp
  have "so_incomplete_worker_count w = 0" if "(wes, w) \<in> set ews" for wes w
  proof -
    have "(wes, Some (Inr w)) \<in> set (map (\<lambda>(i, s). pw i start s) (sort_key fst ss))" using that by (force simp: E(1))
    then obtain i s where "pw i start s = (wes, Some (Inr w))" by force
    then show ?thesis using ends by fastforce
  qed
  then have "\<forall>x \<in> set ews. (so_incomplete_worker_count \<circ> snd) x = 0" by auto
  then have "sum_list (map (so_incomplete_worker_count \<circ> snd) ews) = 0" by (induction ews) simp_all
  then have "saturating_sub (ucast requested) (of_nat (length ews)) + of_nat (sum_list (map (deficit \<circ> snd) ews)) = (0 :: u64)"
    using complete E(2,6) len by simp
  note full = complete_pool [OF _ n this]
  have live: "length (live_sessions (pe_spawned env)) = length ews" using S len by simp
  have all: "\<forall>(i, r) \<in> set (pe_spawned env). \<exists>s. r = Spawn_Session s" using live_full full [OF live] live by simp
  have "o0 = scenario_outcome_default" using spawn_all [OF all] sp by auto
  then show ?thesis using E full [OF live] all n S by (auto simp: scenario_outcome_default_def)
qed

lemma hang_detect_ok:
  "hang_detect call hang grace w = Hang_Ok result d \<Longrightarrow> call = Some (Inr result) \<and> wt_first w = Some d \<and> d < hang"
  by (auto simp: hang_detect_def hang_late_def Let_def split: option.splits sum.splits if_splits)

lemma drive_one_counts:
  assumes "drive_one A iter tool arguments hang grace t s = (s', w, es)"
  shows "unat (so_error_count w) \<le> 1" "unat (so_hang_count w) \<le> 1" "unat (so_deadlock_count w) \<le> 1"
    and "so_incomplete_worker_count w = 0"
    and "so_error_count w = 0 \<Longrightarrow> so_hang_count w = 0 \<Longrightarrow> so_deadlock_count w = 0 \<Longrightarrow>
      \<exists>result d. call_tool A tool arguments s = (s', Some (Inr result)) \<and> \<not> is_logical_tool_error result
        \<and> wt_first (bt_watch t) = Some d \<and> d < hang"
  using assms
  by (auto simp: drive_one_def Let_def scenario_outcome_default_def split: if_splits prod.splits hang_outcome.splits
      dest: hang_detect_ok)

lemma shutdown_counts [simp]:
  "so_error_count (shutdown_session A s ctx out) = so_error_count out"
  "so_hang_count (shutdown_session A s ctx out) = so_hang_count out"
  "so_deadlock_count (shutdown_session A s ctx out) = so_deadlock_count out"
  by (simp_all add: shutdown_session_def record_shutdown_def Let_def split: option.split sum.split)

text \<open>
  C21. A deadlock probe that comes out clean has seen every call return in time. When the counters that a
  passed report requires to be zero are zero and some call was made, every session the probe asked for was
  spawned, and the one call on it returned the tool's own result, not a tool error, before the hang
  threshold had passed.
\<close>

theorem clean_probe_answered_in_time:
  assumes run: "drive_deadlock_probe A dp ticks env s = Some (out, streams)" "2 \<le> dp_concurrent dp"
    and joined: "\<And>xs. mset (pe_joined env xs) = mset xs" and spawned: "length (pe_spawned env) = unat (dp_concurrent dp)"
    and clean: "so_total_calls out \<noteq> 0" "so_error_count out = 0" "so_hang_count out = 0" "so_deadlock_count out = 0"
      "so_incomplete_worker_count out = 0"
  shows "\<forall>(iter, r) \<in> set (pe_spawned env). \<exists>s s' result d. r = Spawn_Session s
     \<and> call_tool A (dp_tool dp) (dp_args dp) s = (s', Some (Inr result)) \<and> \<not> is_logical_tool_error result
     \<and> wt_first (bt_watch (ticks iter)) = Some d \<and> d < dp_hang_threshold dp"
proof -
  have two: "dp_concurrent dp \<noteq> 0" "dp_concurrent dp \<noteq> 1" using run(2) by (auto simp: word_le_nat_alt)
  have pooled: "drive_pooled A env (dp_concurrent dp) (probe_worker A dp ticks) = Some (out, streams)"
    using run(1) clean(2) two by (auto simp: drive_deadlock_probe_def invalid_probe_def split: if_splits)
  have ends: "\<forall>i start s es r. probe_worker A dp ticks i start s = (es, Some r) \<longrightarrow> (\<exists>w. r = Inr w \<and> so_incomplete_worker_count w = 0)"
    by (auto simp: probe_worker_def split: prod.splits dest!: drive_one_counts(4))
      (simp add: shutdown_session_def record_shutdown_def Let_def split: option.split sum.split)
  obtain start ews where E: "map (\<lambda>(i, s). probe_worker A dp ticks i start s) (sort_key fst (live_sessions (pe_spawned env)))
        = map (\<lambda>(wes, w). (wes, Some (Inr w))) ews" "length ews = unat (dp_concurrent dp)"
      "\<forall>(i, r) \<in> set (pe_spawned env). \<exists>s. r = Spawn_Session s"
      "so_error_count out = sum_list (map (so_error_count \<circ> snd) ews)"
      "so_hang_count out = sum_list (map (so_hang_count \<circ> snd) ews)"
      "so_deadlock_count out = sum_list (map (so_deadlock_count \<circ> snd) ews)"
    using drive_pooled_workers [OF pooled clean(1) joined ends spawned clean(5)] by blast
  have worker: "\<exists>i s s' w0. w = shutdown_session A s' (''deadlock_probe worker '' @ show_u32 i) w0
      \<and> drive_one A i (dp_tool dp) (dp_args dp) (dp_hang_threshold dp) (dp_grace_period dp) (ticks i) s = (s', w0, wes)"
    if mem: "(wes, w) \<in> set ews" for wes w
  proof -
    obtain i s where "probe_worker A dp ticks i start s = (wes, Some (Inr w))"
      using nth_of_map_eq [OF E(1) [symmetric] mem] by auto
    then show ?thesis by (force simp: probe_worker_def split: prod.splits)
  qed
  have n: "length ews < 2 ^ 32" "length ews < 2 ^ 64" using E(2) unsigned_less [of "dp_concurrent dp", where 'a = nat] by simp_all
  have bounds: "\<forall>x \<in> set ews. unat ((so_error_count \<circ> snd) x) \<le> 1 \<and> unat ((so_hang_count \<circ> snd) x) \<le> 1
      \<and> unat ((so_deadlock_count \<circ> snd) x) \<le> 1"
    using worker drive_one_counts(1-3) by (fastforce simp: comp_def)
  have zero: "\<forall>x \<in> set ews. (so_error_count \<circ> snd) x = 0" "\<forall>x \<in> set ews. (so_hang_count \<circ> snd) x = 0"
      "\<forall>x \<in> set ews. (so_deadlock_count \<circ> snd) x = 0"
    using sum_words_zero [OF _ n(2)] sum_u32_zero [OF _ n(1)] bounds E(4-6) clean(2-4) by metis+
  show ?thesis
  proof (intro ballI)
    fix x assume x: "x \<in> set (pe_spawned env)"
    obtain iter s where s: "x = (iter, Spawn_Session s)" using E(3) x by (cases x) auto
    then have "(iter, s) \<in> set (sort_key fst (live_sessions (pe_spawned env)))" using x by (simp add: live_sessions_mem)
    then obtain wes w where w: "(wes, w) \<in> set ews" "probe_worker A dp ticks iter start s = (wes, Some (Inr w))"
      using nth_of_map_eq [OF E(1)] by force
    then obtain s' w0 where d: "drive_one A iter (dp_tool dp) (dp_args dp) (dp_hang_threshold dp) (dp_grace_period dp) (ticks iter) s
        = (s', w0, wes)" "so_error_count w0 = so_error_count w" "so_hang_count w0 = so_hang_count w" "so_deadlock_count w0 = so_deadlock_count w"
      by (auto simp: probe_worker_def split: prod.splits)
    have "so_error_count w0 = 0" "so_hang_count w0 = 0" "so_deadlock_count w0 = 0" using d w(1) zero by auto
    from drive_one_counts(5) [OF d(1) this] show "case x of (iter, r) \<Rightarrow> \<exists>s s' result d. r = Spawn_Session s
        \<and> call_tool A (dp_tool dp) (dp_args dp) s = (s', Some (Inr result)) \<and> \<not> is_logical_tool_error result
        \<and> wt_first (bt_watch (ticks iter)) = Some d \<and> d < dp_hang_threshold dp"
      using s by blast
  qed
qed

subsection \<open>Two sessions that answer at once\<close>

definition prompt_tick :: probe_tick where
  "prompt_tick = \<lparr>bt_cancelled = False, bt_watch = \<lparr>wt_first = Some 1, wt_grace = None, wt_hung_for = 15\<rparr>, bt_elapsed = 1,
     bt_thread = 0, bt_recorded = 0\<rparr>"

definition small_probe :: deadlock_probe where
  "small_probe = \<lparr>dp_concurrent = 2, dp_hang_threshold = 5, dp_grace_period = 10, dp_tool = ''echo'', dp_args = JObject []\<rparr>"

abbreviation two_sessions :: "string pool_env" where
  "two_sessions \<equiv> echo_env [(1, Spawn_Session echo_session), (0, Spawn_Session echo_session)]"

lemma echo_answers: "call_tool echo_api ''echo'' (JObject []) echo_session = (echo_session\<lparr>ss_next_id := 2\<rparr>, Some (Inr empty_result))"
  using echo_call [of echo_session "''echo''" "JObject []"] by (auto simp: echo_session_def)

lemma prompt_watch: "hang_detect (Some (Inr empty_result)) 5 10 (bt_watch prompt_tick) = Hang_Ok empty_result 1"
  by (simp add: hang_detect_def prompt_tick_def)

lemma prompt_simps [simp]: "\<not> bt_cancelled prompt_tick" "\<not> is_logical_tool_error empty_result"
  by (simp_all add: prompt_tick_def is_logical_tool_error_def empty_result_def)

lemma echo_closes: "shutdown_session echo_api s ctx out = out"
  by (simp add: shutdown_session_def session_shutdown_def record_shutdown_def echo_over_def)

lemma prompt_probe: "probe_worker echo_api small_probe (\<lambda>_. prompt_tick) i 0 echo_session
    = ([probe_event prompt_tick ''echo'' 1 Outcome_Success], Some (Inr one_call))"
  by (simp add: probe_worker_def drive_one_def small_probe_def echo_answers prompt_watch echo_closes Let_def one_call_def)

lemma clean_probe_answered_in_time_witness:
  "\<exists>out streams s' result d. drive_deadlock_probe echo_api small_probe (\<lambda>_. prompt_tick) two_sessions echo_session = Some (out, streams)
     \<and> so_total_calls out = 2 \<and> so_error_count out = 0
     \<and> call_tool echo_api ''echo'' (JObject []) echo_session = (s', Some (Inr result))
     \<and> wt_first (bt_watch prompt_tick) = Some d \<and> d < 5"
proof -
  have c: "dp_concurrent small_probe = 2" "dp_hang_threshold small_probe = 5" by (simp_all add: small_probe_def)
  obtain out streams where run0: "drive_pooled echo_api two_sessions 2 (probe_worker echo_api small_probe (\<lambda>_. prompt_tick)) = Some (out, streams)"
    and out: "so_total_calls out = 2" "so_error_count out = 0" "so_hang_count out = 0" "so_deadlock_count out = 0"
      "so_incomplete_worker_count out = 0"
    by (simp add: drive_pooled_def Let_def spawn_step_def run_workers_def prompt_probe)
     (simp add: merge_worker_outcome_def Let_def one_call_def scenario_outcome_default_def saturating_sub_def)
  then have run: "drive_deadlock_probe echo_api small_probe (\<lambda>_. prompt_tick) two_sessions echo_session = Some (out, streams)"
    by (simp add: drive_deadlock_probe_def c)
  have sp: "2 \<le> dp_concurrent small_probe" "length (pe_spawned two_sessions) = unat (dp_concurrent small_probe)"
    by (simp_all add: small_probe_def)
  have perm: "mset (pe_joined two_sessions xs) = mset xs" for xs by simp
  have "so_total_calls out \<noteq> 0" using out(1) by simp
  from clean_probe_answered_in_time [OF run sp(1) perm sp(2) this out(2-5)] run out(1,2)
  show ?thesis by (auto simp: small_probe_def)
qed

definition small_race :: race_check where
  "small_race = \<lparr>rc_concurrent = 2, rc_tool = ''echo'', rc_args = JObject []\<rparr>"

definition small_race_env :: race_env where
  "small_race_env = \<lparr>re_hang_threshold = 5, re_grace_period = 10, re_ticks = \<lambda>_. prompt_tick, re_arrival = rev\<rparr>"

lemma prompt_race_call: "race_worker_call echo_api small_race small_race_env i echo_session
    = (echo_session\<lparr>ss_next_id := 2\<rparr>, one_call, [probe_event prompt_tick ''echo'' 1 Outcome_Success],
       Some (call_tool_result_to_value empty_result))"
  by (simp add: race_worker_call_def race_call_def small_race_def small_race_env_def echo_answers prompt_watch Let_def one_call_def)

lemma prompt_race: "race_worker echo_api small_race small_race_env i 0 echo_session
    = ([probe_event prompt_tick ''echo'' 1 Outcome_Success], Some (Inr one_call))"
  by (simp add: race_worker_def prompt_race_call echo_closes)

lemma small_collected: "collected echo_api small_race small_race_env two_sessions
    = [call_tool_result_to_value empty_result, call_tool_result_to_value empty_result]"
  by (simp add: collected_def pool_sessions_def small_race_env_def [THEN arg_cong [where f = re_arrival]] prompt_race_call small_race_def [THEN arg_cong [where f = rc_concurrent]])

lemma race_check_conclusive_witness:
  "\<exists>out streams. drive_race_check simple_quote echo_api small_race small_race_env two_sessions = Some (out, streams)
     \<and> so_error_count out = 0 \<and> so_divergence_count out = 0
     \<and> length (collected echo_api small_race small_race_env two_sessions) = 2"
proof -
  have c: "rc_concurrent small_race = 2" by (simp add: small_race_def)
  obtain out0 streams where run0: "drive_pooled echo_api two_sessions 2 (race_worker echo_api small_race small_race_env) = Some (out0, streams)"
    and out0: "so_error_count out0 = 0"
    by (simp add: drive_pooled_def Let_def spawn_step_def run_workers_def prompt_race)
     (simp add: merge_worker_outcome_def Let_def one_call_def scenario_outcome_default_def)
  then obtain out where run: "drive_race_check simple_quote echo_api small_race small_race_env two_sessions = Some (out, streams)"
    and out: "so_error_count out = 0"
    by (auto simp: drive_race_check_def c race_verdict_def small_collected Let_def)
  have ok: "list_all json_ok (collected echo_api small_race small_race_env two_sessions)"
    unfolding small_collected by (simp add: call_tool_result_to_value_def empty_result_def opt_json_def)
  have perm: "mset (pe_joined two_sessions xs) = mset xs" for xs by simp
  have arrival: "mset (re_arrival small_race_env xs) = mset xs" for xs by (simp add: small_race_env_def)
  have sp: "2 \<le> rc_concurrent small_race" "pe_factory two_sessions" "length (pe_spawned two_sessions) = unat (rc_concurrent small_race)"
    by (simp_all add: c)
  from race_check_conclusive [OF run sp(1,2) perm arrival sp(3) simple_quote_contract ok] run out
  show ?thesis by (auto simp: c small_collected)
qed

subsection \<open>Cold starts\<close>

text \<open>\<open>cold_start.rs\<close>. What an iteration meets: the spawned session, or None if it is cancelled first.\<close>

definition HANDSHAKE_METRIC :: string where
  "HANDSHAKE_METRIC = ''cold_start:handshake''"

record cold_start =
  cs_iterations :: u32
  cs_warmup :: bool
  cs_tool :: string
  cs_args :: json

record 't cold_tick =
  ot_cancelled :: bool
  ot_spawned :: "(session_error + 't session) option"
  ot_handshake :: duration
  ot_probe :: probe_tick

text \<open>The first call of a session: the outcome, what would be recorded, and whether the error is terminal.\<close>

definition cold_call ::
  "'t session_api \<Rightarrow> cold_start \<Rightarrow> duration \<Rightarrow> duration \<Rightarrow> u32 \<Rightarrow> probe_tick \<Rightarrow> 't session \<Rightarrow> scenario_outcome
     \<Rightarrow> 't session \<times> scenario_outcome \<times> rec_event \<times> bool" where
  "cold_call A cs hang grace iter t s out0 =
     (case call_tool A (cs_tool cs) (cs_args cs) s of (s', r) \<Rightarrow>
      let out = out0\<lparr>so_total_calls := so_total_calls out0 + 1\<rparr>;
          failed = out\<lparr>so_error_count := so_error_count out + 1\<rparr> in
      (case hang_detect r hang grace (bt_watch t) of
         Hang_Ok result d \<Rightarrow>
           if is_logical_tool_error result then (s', failed, probe_event t (cs_tool cs) d Outcome_ServerError, False)
           else (s', out\<lparr>so_successful_calls := so_successful_calls out + 1\<rparr>, probe_event t (cs_tool cs) d Outcome_Success, False)
       | Hang_Slow result d \<Rightarrow>
           let noted = add_note (''slow first call: '' @ call_label (cs_tool cs) iter @ '' took='' @ show_base 10 (as_millis d) @ ''ms'') in
           if is_logical_tool_error result then (s', noted failed, probe_event t (cs_tool cs) d Outcome_ServerError, False)
           else (s', noted (out\<lparr>so_hang_count := so_hang_count out + 1\<rparr>), probe_event t (cs_tool cs) d Outcome_Hang, False)
       | Hang_Deadlock d \<Rightarrow>
           (s', add_note (''deadlock on first call: '' @ call_label (cs_tool cs) iter @ hung_note d)
             (out\<lparr>so_deadlock_count := so_deadlock_count out + 1, so_hung_for_ms := so_hung_for_ms out @ [of_nat (as_millis d)]\<rparr>),
             probe_event t (cs_tool cs) d Outcome_Deadlock, False)
       | Hang_Err e \<Rightarrow>
           (s', add_note (''error: '' @ call_label (cs_tool cs) iter @ '' err='' @ show_session_error A e) failed,
             probe_event t (cs_tool cs) 0 (classify_error e), is_terminal_error e)))"

definition measured :: "cold_start \<Rightarrow> u32 \<Rightarrow> rec_event \<Rightarrow> rec_event list" where
  "measured cs iter e = (if cs_warmup cs \<and> iter = 0 then [] else [e])"

fun cold_loop ::
  "'t session_api \<Rightarrow> cold_start \<Rightarrow> duration \<Rightarrow> duration \<Rightarrow> 't cold_tick list \<Rightarrow> u32 \<Rightarrow> scenario_outcome
     \<Rightarrow> (scenario_outcome \<times> rec_event list) option" where
  "cold_loop A cs hang grace [] iter out = (if iter < cs_iterations cs then None else Some (out, []))"
| "cold_loop A cs hang grace (t # ts) iter out =
     (if \<not> iter < cs_iterations cs then Some (out, [])
      else if ot_cancelled t then Some (add_note (''cancelled before iter='' @ show_u32 iter) out, [])
      else case ot_spawned t of
        None \<Rightarrow> Some (add_note (''cancelled during spawn iter='' @ show_u32 iter) out, [])
      | Some (Inl e) \<Rightarrow>
          let failed = add_note (''spawn failed: iter='' @ show_u32 iter @ '' err='' @ show_session_error A e)
                (out\<lparr>so_error_count := so_error_count out + 1\<rparr>);
              es = measured cs iter (probe_event (ot_probe t) HANDSHAKE_METRIC (ot_handshake t) (classify_error e)) in
          if is_terminal_error e
          then Some (add_note (''terminal spawn error '' @ em_dash @ '' stopping at iter='' @ show_u32 iter) failed, es)
          else map_option (\<lambda>(out', es'). (out', es @ es')) (cold_loop A cs hang grace ts (iter + 1) failed)
      | Some (Inr s) \<Rightarrow>
          (case cold_call A cs hang grace iter (ot_probe t) s out of
             (s', called, e, terminal) \<Rightarrow>
               let closed = shutdown_session A s' (''cold_start iter='' @ show_u32 iter) called;
                   es = measured cs iter (probe_event (ot_probe t) HANDSHAKE_METRIC (ot_handshake t) Outcome_Success)
                     @ measured cs iter e in
               if terminal
               then Some (add_note (''terminal call error '' @ em_dash @ '' stopping at iter='' @ show_u32 iter) closed, es)
               else map_option (\<lambda>(out', es'). (out', es @ es')) (cold_loop A cs hang grace ts (iter + 1) closed)))"

definition cold_validation_error :: "cold_start \<Rightarrow> string option" where
  "cold_validation_error cs =
     (if cs_warmup cs \<and> cs_iterations cs < 2
      then Some (''cold_start: invalid configuration '' @ em_dash @ '' iterations must be >= 2 when warmup=true; ''
        @ ''the warm-up iteration is excluded from measured evidence'')
      else None)"

definition drive_cold_start ::
  "'t session_api \<Rightarrow> cold_start \<Rightarrow> bool \<Rightarrow> duration \<Rightarrow> duration \<Rightarrow> 't cold_tick list \<Rightarrow> (scenario_outcome \<times> rec_event list) option" where
  "drive_cold_start A cs factory hang grace ts =
     (case cold_validation_error cs of
        Some message \<Rightarrow> Some (add_note message (scenario_outcome_default\<lparr>so_error_count := 1\<rparr>), [])
      | None \<Rightarrow>
          if \<not> factory
          then Some (add_note (''cold_start: skipped '' @ em_dash @ '' RunContext has no session_factory (attach one via ''
            @ ''RunContext::with_session_factory; Run::execute does this automatically)'') scenario_outcome_default, [])
          else cold_loop A cs hang grace ts 0
            (if cs_warmup cs \<and> 0 < cs_iterations cs
             then add_note ''warmup=true: iteration 0 runs but its samples are excluded from metrics'' scenario_outcome_default
             else scenario_outcome_default))"

lemma cold_call_counts:
  assumes "cold_call A cs hang grace iter t s out = (s', out', e, terminal)"
  shows "so_total_calls out' = so_total_calls out + 1" "event_tool e = Some (cs_tool cs)"
    and "so_successful_calls out' = so_successful_calls out + (if event_outcome e = Outcome_Success then 1 else 0)"
  using assms
  by (auto simp: cold_call_def Let_def probe_event_def split: if_splits prod.splits hang_outcome.splits)

text \<open>The warm-up iteration leaves nothing in the recorder.\<close>

lemma warmup_unrecorded:
  assumes "cold_loop A cs hang grace (t # ts) 0 out = Some (out', es)" "cs_warmup cs"
  shows "es = [] \<or> (\<exists>out1. cold_loop A cs hang grace ts 1 out1 = Some (out', es))"
  using assms by (auto simp: measured_def Let_def split: if_splits option.splits sum.splits prod.splits)

text \<open>Beyond the warm-up, a successful call of the tool is a recorded one.\<close>

lemma cold_loop_successes:
  assumes "cold_loop A cs hang grace ts iter out = Some (out', es)" "0 < iter \<or> \<not> cs_warmup cs" "cs_tool cs \<noteq> HANDSHAKE_METRIC"
    "unat iter + length ts < 2 ^ 32"
  shows "so_successful_calls out' = so_successful_calls out
     + of_nat (length (filter (\<lambda>e. event_tool e = Some (cs_tool cs) \<and> event_outcome e = Outcome_Success) es))"
  using assms
proof (induction ts arbitrary: iter out es)
  case (Cons t ts)
  have later: "0 < iter + 1 \<or> \<not> cs_warmup cs" "unat (iter + 1) + length ts < 2 ^ 32"
    using Cons.prems(4) by (simp_all add: unat_word_ariths word_gt_0 unat_eq_0 [symmetric] del: unat_eq_0)
  have m: "measured cs iter e = [e]" for e using Cons.prems(2) by (auto simp: measured_def)
  have closed: "so_successful_calls (shutdown_session A s ctx o1) = so_successful_calls o1" for s ctx o1
    by (simp add: shutdown_session_def record_shutdown_def Let_def split: option.split sum.split)
  note ih = Cons.IH [OF _ later(1) Cons.prems(3) later(2)]
  show ?case
  proof (cases "\<exists>s. ot_spawned t = Some (Inr s) \<and> iter < cs_iterations cs \<and> \<not> ot_cancelled t")
    case True
    then obtain s where s: "ot_spawned t = Some (Inr s)" "iter < cs_iterations cs" "\<not> ot_cancelled t" by blast
    obtain s' called e terminal where c: "cold_call A cs hang grace iter (ot_probe t) s out = (s', called, e, terminal)"
      by (cases "cold_call A cs hang grace iter (ot_probe t) s out") auto
    note n = cold_call_counts [OF c]
    show ?thesis using Cons.prems(1,3) s c n ih
      by (auto simp: m closed Let_def probe_event_def split: if_splits)
  next
    case False
    then show ?thesis using Cons.prems(1,3) ih
      by (auto simp: m Let_def probe_event_def split: if_splits option.splits sum.splits)
  qed
qed (auto split: if_splits)

end
