(* ===== verification/Fuzzer.thy ===== *)
theory Fuzzer
  imports Hang_Probes
begin

section \<open>The protocol fuzzer\<close>

text \<open>
  \<open>crates/engine/src/scenario/fuzzer.rs\<close> with its modules \<open>payloads\<close>, \<open>classify\<close> and \<open>raw\<close>, and the
  report of \<open>crates/core/src/fuzz_report.rs\<close>. The random generator is an argument; a task that panics or
  waits for a write that never completes is None.
\<close>

subsection \<open>The report\<close>

datatype fuzz_class =
    FC_Accepted | FC_ProtocolError | FC_ServerError | FC_ParseError | FC_Deadlock | FC_Disconnected | FC_Other

fun class_rank :: "fuzz_class \<Rightarrow> nat" where
  "class_rank FC_Accepted = 0"
| "class_rank FC_ProtocolError = 1"
| "class_rank FC_ServerError = 2"
| "class_rank FC_ParseError = 3"
| "class_rank FC_Deadlock = 4"
| "class_rank FC_Disconnected = 5"
| "class_rank FC_Other = 6"

text \<open>The derived order is the order of declaration.\<close>

instantiation fuzz_class :: linorder
begin

definition less_eq_fuzz_class :: "fuzz_class \<Rightarrow> fuzz_class \<Rightarrow> bool" where
  "less_eq_fuzz_class a b \<longleftrightarrow> class_rank a \<le> class_rank b"

definition less_fuzz_class :: "fuzz_class \<Rightarrow> fuzz_class \<Rightarrow> bool" where
  "less_fuzz_class a b \<longleftrightarrow> class_rank a < class_rank b"

instance
proof
  fix x y z :: fuzz_class
  show "(x < y) = (x \<le> y \<and> \<not> y \<le> x)" by (simp add: less_fuzz_class_def less_eq_fuzz_class_def less_le_not_le)
  show "x \<le> x" by (simp add: less_eq_fuzz_class_def)
  show "x \<le> y \<Longrightarrow> y \<le> z \<Longrightarrow> x \<le> z" by (simp add: less_eq_fuzz_class_def)
  show "x \<le> y \<Longrightarrow> y \<le> x \<Longrightarrow> x = y" by (cases x; cases y) (simp_all add: less_eq_fuzz_class_def)
  show "x \<le> y \<or> y \<le> x" by (auto simp: less_eq_fuzz_class_def)
qed

end

definition is_expected_rejection_code :: "int \<Rightarrow> bool" where
  "is_expected_rejection_code code \<longleftrightarrow> code \<in> {-32700, -32600, -32601, -32602}"

record fuzz_finding =
  ff_payload :: string
  ff_class :: fuzz_class
  ff_code :: "int option"
  ff_note :: string

record fuzz_report =
  fr_total :: u64
  fr_by_class :: "(fuzz_class, u64) btree"
  fr_by_code :: "(int, u64) btree"
  fr_findings :: "fuzz_finding list"

definition bump_key :: "'k::linorder \<Rightarrow> ('k, u64) btree \<Rightarrow> ('k, u64) btree" where
  "bump_key k m = bt_insert k ((case bt_get m k of Some n \<Rightarrow> n | None \<Rightarrow> 0) + 1) m"

definition from_findings :: "fuzz_finding list \<Rightarrow> nat \<Rightarrow> fuzz_report" where
  "from_findings findings max_findings =
     (case fold (\<lambda>f (by_class, by_code). (bump_key (ff_class f) by_class,
          case ff_code f of Some code \<Rightarrow> bump_key code by_code | None \<Rightarrow> by_code)) findings ([], []) of
        (by_class, by_code) \<Rightarrow> \<lparr>fr_total = of_nat (length findings), fr_by_class = by_class, fr_by_code = by_code,
          fr_findings = take max_findings findings\<rparr>)"

definition report_count :: "fuzz_report \<Rightarrow> fuzz_class \<Rightarrow> u64" where
  "report_count r c = (case bt_get (fr_by_class r) c of Some n \<Rightarrow> n | None \<Rightarrow> 0)"

definition has_critical :: "fuzz_report \<Rightarrow> bool" where
  "has_critical r \<longleftrightarrow> 0 < report_count r FC_Deadlock \<or> 0 < report_count r FC_Disconnected \<or> 0 < report_count r FC_ParseError"

subsection \<open>Payloads\<close>

datatype fuzz_payload =
    EmptyBody | EmptyObject | InvalidJson | MissingJsonRpcVersion | WrongJsonRpcVersion | UnknownMethod
  | NumericMethod | MissingId | DuplicateId | GiantPayload | ControlChars | Nested | NullParams | StringParams

fun payload_label :: "fuzz_payload \<Rightarrow> string" where
  "payload_label EmptyBody = ''EmptyBody''"
| "payload_label EmptyObject = ''EmptyObject''"
| "payload_label InvalidJson = ''InvalidJson''"
| "payload_label MissingJsonRpcVersion = ''MissingJsonRpcVersion''"
| "payload_label WrongJsonRpcVersion = ''WrongJsonRpcVersion''"
| "payload_label UnknownMethod = ''UnknownMethod''"
| "payload_label NumericMethod = ''NumericMethod''"
| "payload_label MissingId = ''MissingId''"
| "payload_label DuplicateId = ''DuplicateId''"
| "payload_label GiantPayload = ''GiantPayload''"
| "payload_label ControlChars = ''ControlChars''"
| "payload_label Nested = ''Nested''"
| "payload_label NullParams = ''NullParams''"
| "payload_label StringParams = ''StringParams''"

definition requires_raw_transport :: "fuzz_payload \<Rightarrow> bool" where
  "requires_raw_transport p \<longleftrightarrow> p \<in> {EmptyBody, EmptyObject, InvalidJson, MissingJsonRpcVersion, WrongJsonRpcVersion,
     MissingId, DuplicateId}"

definition all_payloads :: "fuzz_payload list" where
  "all_payloads = [EmptyBody, EmptyObject, InvalidJson, MissingJsonRpcVersion, WrongJsonRpcVersion, UnknownMethod,
     NumericMethod, MissingId, DuplicateId, GiantPayload, ControlChars, Nested, NullParams, StringParams]"

definition exercisable :: "fuzz_payload list" where
  "exercisable = filter (\<lambda>p. \<not> requires_raw_transport p) all_payloads"

primrec nested_object :: "nat \<Rightarrow> json" where
  "nested_object 0 = JString ''leaf''"
| "nested_object (Suc depth) = JObject [(''x'', nested_object depth)]"

definition GIANT_PAYLOAD :: json where
  "GIANT_PAYLOAD = JObject [(''payload'', JString (replicate (1024 * 1024) CHR ''A''))]"

fun to_call_args :: "fuzz_payload \<Rightarrow> (string \<times> json) option" where
  "to_call_args UnknownMethod = Some (''totally_unknown_tool_xyz'', JObject [])"
| "to_call_args NumericMethod = Some (''42'', JObject [])"
| "to_call_args GiantPayload = Some (''echo'', GIANT_PAYLOAD)"
| "to_call_args ControlChars = Some (''ec'' @ [CHR 0x00] @ ''ho'' @ [CHR 0x07, CHR 0x0C], JObject [])"
| "to_call_args Nested = Some (''echo'', nested_object 100)"
| "to_call_args NullParams = Some (''echo'', JNull)"
| "to_call_args StringParams = Some (''echo'', JString ''string-not-object'')"
| "to_call_args _ = None"

definition frame_bytes :: "string \<Rightarrow> u8 list" where
  "frame_bytes frame = map (\<lambda>c. of_nat (of_char c)) frame"

definition quoted :: "string \<Rightarrow> string" where
  "quoted s = [CHR 0x22] @ s @ [CHR 0x22]"

definition tools_list_frame :: "string list \<Rightarrow> string" where
  "tools_list_frame members = ''{'' @ concat (map (\<lambda>m. m @ '','') members)
     @ quoted ''method'' @ '':'' @ quoted ''tools/list'' @ ''}''"

fun raw_bytes :: "fuzz_payload \<Rightarrow> u8 list option" where
  "raw_bytes EmptyBody = Some (frame_bytes [])"
| "raw_bytes EmptyObject = Some (frame_bytes ''{}'')"
| "raw_bytes InvalidJson = Some (frame_bytes ''{not json'')"
| "raw_bytes MissingJsonRpcVersion = Some (frame_bytes (tools_list_frame [quoted ''id'' @ '':1'']))"
| "raw_bytes WrongJsonRpcVersion =
     Some (frame_bytes (tools_list_frame [quoted ''jsonrpc'' @ '':'' @ quoted ''3.0'', quoted ''id'' @ '':1'']))"
| "raw_bytes MissingId = Some (frame_bytes (tools_list_frame [quoted ''jsonrpc'' @ '':'' @ quoted ''2.0'']))"
| "raw_bytes DuplicateId =
     (let one = frame_bytes (tools_list_frame [quoted ''jsonrpc'' @ '':'' @ quoted ''2.0'', quoted ''id'' @ '':1''])
      in Some (one @ [0x0A] @ one))"
| "raw_bytes _ = None"

subsection \<open>Classification\<close>

definition is_expected_tool_rejection :: "call_tool_result \<Rightarrow> bool" where
  "is_expected_tool_rejection result = ct_is_error result"

fun classify_err :: "'t session_api \<Rightarrow> session_error \<Rightarrow> fuzz_class \<times> int option \<times> string" where
  "classify_err A (SE_Server e) =
     (if is_expected_rejection_code (eo_code e) then FC_ProtocolError else FC_ServerError, Some (eo_code e),
      ''server error '' @ show_i64 (eo_code e) @ '': '' @ eo_message e)"
| "classify_err A (SE_Json e) = (FC_ParseError, None, ''client-side json parse failed: '' @ api_show_de A e)"
| "classify_err A (SE_ResponseShape e) = (FC_ParseError, None, ''MCP response shape error: '' @ api_show_de A e)"
| "classify_err A (SE_IdMismatch expected got) = (FC_ParseError, None,
     ''response id mismatch: expected '' @ show_u64 expected @ '', got '' @ show_u64 got)"
| "classify_err A (SE_InvalidResponseId expected got) = (FC_ParseError, None,
     ''response id mismatch: expected '' @ show_u64 expected @ '', got '' @ api_show A got)"
| "classify_err A (SE_MismatchedSuccess expected got _) = (FC_ParseError, None,
     ''success response id mismatch: expected '' @ show_u64 expected @ '', got '' @ api_show A got)"
| "classify_err A (SE_MismatchedError expected got e) = (FC_ParseError, Some (eo_code e),
     ''error response id mismatch: expected '' @ show_u64 expected @ '', got '' @ api_show A got
       @ ''; code '' @ show_i64 (eo_code e))"
| "classify_err A (SE_InvalidJsonRpcVersion got) = (FC_ParseError, None,
     ''invalid JSON-RPC response version `'' @ got @ ''`'')"
| "classify_err A (SE_Transport e) = (FC_Disconnected, None,
     ''transport / io error: '' @ show_session_error A (SE_Transport e))"
| "classify_err A (SE_Io e) = (FC_Disconnected, None, ''transport / io error: '' @ show_session_error A (SE_Io e))"
| "classify_err A (SE_StartupTimeout d) = (FC_Disconnected, None,
     ''startup timeout: '' @ show_session_error A (SE_StartupTimeout d))"
| "classify_err A (SE_SchemaViolation tool_name summary) = (FC_Other, None,
     ''rejected client-side by strict validation: '' @ show_session_error A (SE_SchemaViolation tool_name summary))"
| "classify_err A (SE_UnsupportedProtocolVersion got advertised) = (FC_Other, None,
     ''unsupported protocol version negotiated: '' @ show_session_error A (SE_UnsupportedProtocolVersion got advertised))"
| "classify_err A err = (FC_ServerError, None, ''unclassified session error: '' @ show_session_error A err)"

fun session_error_code :: "session_error \<Rightarrow> int option" where
  "session_error_code (SE_Server e) = Some (eo_code e)"
| "session_error_code (SE_MismatchedError _ _ e) = Some (eo_code e)"
| "session_error_code _ = None"

definition rejected_note :: "error_object \<Rightarrow> string" where
  "rejected_note e = ''server explicitly rejected raw malformed frame with JSON-RPC code '' @ show_i64 (eo_code e)"

definition unexpected_note :: "error_object \<Rightarrow> string" where
  "unexpected_note e = ''server returned unexpected JSON-RPC error '' @ show_i64 (eo_code e) @ '' after raw payload: '' @ eo_message e"

definition probe_disconnected :: "session_error \<Rightarrow> bool" where
  "probe_disconnected err =
     (case err of
        SE_Transport TE_Closed \<Rightarrow> True | SE_Transport (TE_Io _) \<Rightarrow> True | SE_Transport (TE_Timeout _) \<Rightarrow> True
      | SE_Io _ \<Rightarrow> True | SE_StartupTimeout _ \<Rightarrow> True | _ \<Rightarrow> False)"

text \<open>The duration is zero on every branch.\<close>

definition classify_probe_err :: "'t session_api \<Rightarrow> session_error \<Rightarrow> fuzz_class \<times> call_outcome \<times> duration \<times> string" where
  "classify_probe_err A err =
     (let shown = show_session_error A err in
      if probe_disconnected err
      then (FC_Disconnected, Outcome_Disconnected, 0, ''server closed the connection after raw payload (likely crashed): '' @ shown)
      else case err of
        SE_MismatchedError _ _ e \<Rightarrow>
          if is_expected_rejection_code (eo_code e) then (FC_ProtocolError, Outcome_ExpectedRejection, 0, rejected_note e)
          else (FC_ServerError, Outcome_ServerError, 0, unexpected_note e)
      | SE_MismatchedSuccess _ _ _ \<Rightarrow> (FC_Accepted, Outcome_Malformed, 0,
          ''server accepted raw malformed frame and returned a success result: '' @ shown)
      | SE_ResponseShape _ \<Rightarrow> (FC_Accepted, Outcome_Malformed, 0,
          ''server accepted raw malformed frame and returned a success result: '' @ shown)
      | SE_Server e \<Rightarrow>
          if is_expected_rejection_code (eo_code e) then (FC_ProtocolError, Outcome_ExpectedRejection, 0, rejected_note e)
          else (FC_ServerError, Outcome_ServerError, 0, unexpected_note e)
      | SE_IdMismatch _ _ \<Rightarrow> (FC_Other, Outcome_Malformed, 0, ''ambiguous mismatched response after raw malformed frame: '' @ shown)
      | SE_InvalidResponseId _ _ \<Rightarrow> (FC_Other, Outcome_Malformed, 0, ''ambiguous mismatched response after raw malformed frame: '' @ shown)
      | SE_Json _ \<Rightarrow> (FC_ParseError, Outcome_Malformed, 0, ''server emitted malformed JSON after raw fuzz payload: '' @ shown)
      | SE_InvalidJsonRpcVersion _ \<Rightarrow> (FC_ParseError, Outcome_Malformed, 0,
          ''server emitted a non-2.0 JSON-RPC response after raw fuzz payload: '' @ shown)
      | _ \<Rightarrow> (FC_Other, Outcome_ServerError, 0, ''unexpected probe failure after raw malformed frame: '' @ shown))"

subsection \<open>The driver\<close>

record fuzz_ctx =
  fc_hang_threshold :: duration
  fc_grace_period :: duration
  fc_factory :: bool

text \<open>
  What one iteration meets: cancellation, the watchdog's clock, whether the liveness probe ran out of its
  budget, what the factory spawns, and the recorder's thread.
\<close>

record 't fuzz_tick =
  fk_cancelled :: bool
  fk_watch :: watch
  fk_probe_late :: bool
  fk_spawn :: "session_error + 't session"
  fk_thread :: u64

record 't fuzz_state =
  fs_session :: "'t session"
  fs_out :: scenario_outcome
  fs_events :: "rec_event list"
  fs_findings :: "fuzz_finding list"

definition push_probe ::
  "fuzz_payload \<Rightarrow> 't fuzz_tick \<Rightarrow> duration \<Rightarrow> call_outcome \<Rightarrow> fuzz_class \<Rightarrow> int option \<Rightarrow> string
     \<Rightarrow> 't fuzz_state \<Rightarrow> 't fuzz_state" where
  "push_probe p t d oc cls code note st = st\<lparr>fs_events := fs_events st @ [Rec_Call (fk_thread t) d oc],
     fs_findings := fs_findings st @ [\<lparr>ff_payload = payload_label p, ff_class = cls, ff_code = code, ff_note = note\<rparr>]\<rparr>"

definition map_out :: "(scenario_outcome \<Rightarrow> scenario_outcome) \<Rightarrow> 't fuzz_state \<Rightarrow> 't fuzz_state" where
  "map_out f st = st\<lparr>fs_out := f (fs_out st)\<rparr>"

definition count_success :: "scenario_outcome \<Rightarrow> scenario_outcome" where
  "count_success out = out\<lparr>so_successful_calls := so_successful_calls out + 1\<rparr>"

definition count_error :: "scenario_outcome \<Rightarrow> scenario_outcome" where
  "count_error out = out\<lparr>so_error_count := so_error_count out + 1\<rparr>"

definition count_hang :: "scenario_outcome \<Rightarrow> scenario_outcome" where
  "count_hang out = out\<lparr>so_hang_count := so_hang_count out + 1\<rparr>"

definition count_deadlock :: "scenario_outcome \<Rightarrow> scenario_outcome" where
  "count_deadlock out = out\<lparr>so_deadlock_count := so_deadlock_count out + 1\<rparr>"

definition count_attempt :: "scenario_outcome \<Rightarrow> scenario_outcome" where
  "count_attempt out = out\<lparr>so_total_calls := so_total_calls out + 1\<rparr>"

definition show_ms :: "duration \<Rightarrow> string" where
  "show_ms d = show_base 10 (as_millis d) @ ''ms''"

definition record_completed_probe ::
  "fuzz_payload \<Rightarrow> 't fuzz_tick \<Rightarrow> call_tool_result \<Rightarrow> duration \<Rightarrow> bool \<Rightarrow> 't fuzz_state \<Rightarrow> 't fuzz_state" where
  "record_completed_probe p t result d slow st =
     (let st1 = if slow then map_out count_hang st else st in
      if is_expected_tool_rejection result
      then push_probe p t d Outcome_ExpectedRejection FC_ProtocolError None
        (''server rejected malformed tools/call via isError=true in '' @ show_ms d @ (if slow then '' (slow)'' else []))
        (map_out count_success st1)
      else push_probe p t d (if slow then Outcome_Hang else Outcome_Malformed) FC_Accepted None
        (''server accepted malformed input in '' @ show_ms d
          @ (if slow then '' (slow; input validation may be too permissive)''
             else '' (suspicious '' @ em_dash @ '' input validation may be too permissive)''))
        (map_out count_error st1))"

definition class_outcome :: "fuzz_class \<Rightarrow> call_outcome" where
  "class_outcome cls = (case cls of FC_ProtocolError \<Rightarrow> Outcome_ExpectedRejection | FC_ServerError \<Rightarrow> Outcome_ServerError
     | FC_ParseError \<Rightarrow> Outcome_Malformed | FC_Disconnected \<Rightarrow> Outcome_Disconnected | _ \<Rightarrow> Outcome_ServerError)"

text \<open>A payload sent through \<open>tools/call\<close>, and whether the loop stops.\<close>

definition typed_probe ::
  "'t session_api \<Rightarrow> fuzz_ctx \<Rightarrow> nat \<Rightarrow> fuzz_payload \<Rightarrow> string \<Rightarrow> json \<Rightarrow> 't fuzz_tick \<Rightarrow> 't fuzz_state
     \<Rightarrow> 't fuzz_state \<times> bool" where
  "typed_probe A C iter p tool arguments t st =
     (case call_tool A tool arguments (fs_session st) of (s', r) \<Rightarrow>
      let st1 = map_out count_attempt (st\<lparr>fs_session := s'\<rparr>) in
      case hang_detect r (fc_hang_threshold C) (fc_grace_period C) (fk_watch t) of
        Hang_Ok result d \<Rightarrow> (record_completed_probe p t result d False st1, False)
      | Hang_Slow result d \<Rightarrow> (record_completed_probe p t result d True st1, False)
      | Hang_Deadlock d \<Rightarrow>
          (map_out (add_note (''fuzzer: stopping after deadlock at iter='' @ show_base 10 iter))
            (push_probe p t d Outcome_Deadlock FC_Deadlock None
              (''deadlock on payload='' @ payload_label p @ '': hung_for='' @ show_ms d) (map_out count_deadlock st1)), True)
      | Hang_Err e \<Rightarrow>
          (case classify_err A e of (cls, code, note) \<Rightarrow>
           let st2 = push_probe p t 0 (class_outcome cls) cls code note
                 (map_out (if cls = FC_ProtocolError then count_success else count_error) st1) in
           if cls = FC_Disconnected
           then (map_out (add_note (''fuzzer: stopping after transport closed at iter='' @ show_base 10 iter)) st2, True)
           else (st2, False)))"

text \<open>How a raw frame is judged: by the write, then by one request that must be answered within the budget.\<close>

definition raw_judgement ::
  "'t session_api \<Rightarrow> fuzz_ctx \<Rightarrow> u8 list \<Rightarrow> 't fuzz_tick \<Rightarrow> 't session
     \<Rightarrow> ('t session \<times> fuzz_class \<times> call_outcome \<times> duration \<times> int option \<times> string) option" where
  "raw_judgement A C bytes t s =
     (case session_raw_send A bytes s of
        (s1, None) \<Rightarrow> None
      | (s1, Some (Inl e)) \<Rightarrow> Some (s1, FC_Disconnected, Outcome_Disconnected, 0, None,
          ''raw send failed (server gone before the write completed): '' @ show_session_error A e)
      | (s1, Some (Inr _)) \<Rightarrow>
          let budget = fc_hang_threshold C + fc_grace_period C in
          if DURATION_MAX < budget then None
          else (case list_tools A s1 of (s2, r) \<Rightarrow>
            (case (if fk_probe_late t then None else r) of
               None \<Rightarrow> Some (s2, FC_Deadlock, Outcome_Deadlock, budget, None,
                 ''server stopped responding after raw payload (no reply within '' @ show_ms budget @ '' '' @ em_dash
                   @ '' likely wedged on malformed framing)'')
             | Some (Inr _) \<Rightarrow> Some (s2, FC_ProtocolError, Outcome_Success, 0, None,
                 ''server survived raw malformed frame and kept serving (healthy)'')
             | Some (Inl e) \<Rightarrow> (case classify_probe_err A e of (cls, kind, d, note) \<Rightarrow>
                 Some (s2, cls, kind, d, session_error_code e, note)))))"

definition respawn :: "'t session_api \<Rightarrow> nat \<Rightarrow> 't fuzz_tick \<Rightarrow> 't fuzz_state \<Rightarrow> 't fuzz_state \<times> bool" where
  "respawn A iter t st =
     (case fk_spawn t of
        Inr fresh \<Rightarrow> (st\<lparr>fs_session := fresh,
          fs_out := shutdown_session A (fs_session st) (''fuzzer poisoned session iter='' @ show_base 10 iter) (fs_out st)\<rparr>, False)
      | Inl e \<Rightarrow> (map_out (add_note (''fuzzer: could not respawn after raw payload at iter='' @ show_base 10 iter @ '' (''
          @ show_session_error A e @ ''); stopping'') \<circ> count_error) st, True))"

definition handle_raw_payload ::
  "'t session_api \<Rightarrow> fuzz_ctx \<Rightarrow> nat \<Rightarrow> fuzz_payload \<Rightarrow> 't fuzz_tick \<Rightarrow> 't fuzz_state \<Rightarrow> ('t fuzz_state \<times> bool) option" where
  "handle_raw_payload A C iter p t st =
     (case raw_bytes p of
        None \<Rightarrow> Some (st, False)
      | Some bytes \<Rightarrow>
          (case raw_judgement A C bytes t (fs_session st) of
             None \<Rightarrow> None
           | Some (s', cls, kind, d, code, note) \<Rightarrow>
               let st1 = map_out count_attempt (st\<lparr>fs_session := s'\<rparr>);
                   st2 = map_out (if cls = FC_Deadlock
                      then (\<lambda>out. (count_deadlock out)\<lparr>so_hung_for_ms := so_hung_for_ms out @ [of_nat (as_millis d)]\<rparr>)
                      else if kind = Outcome_Success \<or> kind = Outcome_ExpectedRejection then count_success
                      else count_error) st1 in
               Some (respawn A iter t (push_probe p t d kind cls code note st2))))"

definition skip_raw :: "fuzz_payload \<Rightarrow> 't fuzz_state \<Rightarrow> 't fuzz_state" where
  "skip_raw p st = st\<lparr>fs_findings := fs_findings st @ [\<lparr>ff_payload = payload_label p, ff_class = FC_Other, ff_code = None,
     ff_note = ''skipped: raw-byte payload needs a session factory to recover the poisoned connection (none attached)''\<rparr>]\<rparr>"

definition fuzz_step ::
  "'t session_api \<Rightarrow> fuzz_ctx \<Rightarrow> nat \<Rightarrow> fuzz_payload \<Rightarrow> 't fuzz_tick \<Rightarrow> 't fuzz_state \<Rightarrow> ('t fuzz_state \<times> bool) option" where
  "fuzz_step A C iter p t st =
     (case to_call_args p of
        None \<Rightarrow> if fc_factory C then handle_raw_payload A C iter p t st else Some (skip_raw p st, False)
      | Some (tool, arguments) \<Rightarrow> Some (typed_probe A C iter p tool arguments t st))"

text \<open>The index \<open>choose\<close> draws below the length it is given.\<close>

type_synonym 'g picker = "'g \<Rightarrow> nat \<Rightarrow> 'g \<times> nat"

primrec fuzz_loop ::
  "'t session_api \<Rightarrow> fuzz_ctx \<Rightarrow> 'g picker \<Rightarrow> fuzz_payload list \<Rightarrow> (nat \<Rightarrow> 't fuzz_tick) \<Rightarrow> nat list \<Rightarrow> 'g
     \<Rightarrow> 't fuzz_state \<Rightarrow> 't fuzz_state option" where
  "fuzz_loop A C pick pool ticks [] g st = Some st"
| "fuzz_loop A C pick pool ticks (iter # iters) g st =
     (if fk_cancelled (ticks iter)
      then Some (map_out (add_note (''cancelled before iter='' @ show_base 10 iter)) st)
      else case pick g (length pool) of (g', i) \<Rightarrow>
        (case fuzz_step A C iter (pool ! i) (ticks iter) st of
           None \<Rightarrow> None
         | Some (st', stop) \<Rightarrow> if stop then Some st' else fuzz_loop A C pick pool ticks iters g' st'))"

fun show_class :: "fuzz_class \<Rightarrow> string" where
  "show_class FC_Accepted = ''Accepted''"
| "show_class FC_ProtocolError = ''ProtocolError''"
| "show_class FC_ServerError = ''ServerError''"
| "show_class FC_ParseError = ''ParseError''"
| "show_class FC_Deadlock = ''Deadlock''"
| "show_class FC_Disconnected = ''Disconnected''"
| "show_class FC_Other = ''Other''"

definition finding_note :: "fuzz_finding \<Rightarrow> string" where
  "finding_note f = ''  finding payload='' @ ff_payload f @ '' class='' @ show_class (ff_class f) @ '' code=''
     @ (case ff_code f of None \<Rightarrow> ''none'' | Some code \<Rightarrow> show_i64 code) @ '' note='' @ ff_note f"

definition push_report_notes :: "fuzz_report \<Rightarrow> scenario_outcome \<Rightarrow> scenario_outcome" where
  "push_report_notes report out =
     fold add_note
       ([''fuzzer: '' @ show_u64 (fr_total report) @ '' iterations classified'']
        @ map (\<lambda>(cls, n). ''  '' @ show_class cls @ '': '' @ show_u64 n) (fr_by_class report)
        @ (if fr_by_code report = [] then []
           else ''  jsonrpc codes:'' # map (\<lambda>(code, n). ''    '' @ show_i64 code @ '': '' @ show_u64 n) (fr_by_code report))
        @ map finding_note (take 8 (filter (\<lambda>f. ff_class f \<noteq> FC_ProtocolError) (fr_findings report)))
        @ (if has_critical report
           then [''fuzzer: CRITICAL findings '' @ em_dash @ '' see deadlock/disconnected/parse rows''] else [])) out"

record fuzzer =
  fz_iterations :: u32
  fz_seed :: u64
  fz_payloads :: "fuzz_payload list"

definition fuzzer_default :: fuzzer where
  "fuzzer_default = \<lparr>fz_iterations = 50, fz_seed = 0xC0FFEE, fz_payloads = []\<rparr>"

definition resolved_payloads :: "fuzzer \<Rightarrow> fuzz_payload list" where
  "resolved_payloads f = (if fz_payloads f = [] then all_payloads else fz_payloads f)"

definition DEFAULT_MAX_FINDINGS :: nat where
  "DEFAULT_MAX_FINDINGS = 64"

text \<open>\<open>seed_from_u64\<close> is the argument \<open>seeded\<close>.\<close>

definition fuzz_start :: "'t session \<Rightarrow> 't fuzz_state" where
  "fuzz_start s = \<lparr>fs_session = s, fs_out = scenario_outcome_default, fs_events = [], fs_findings = []\<rparr>"

definition drive_fuzzer ::
  "'t session_api \<Rightarrow> fuzz_ctx \<Rightarrow> (u64 \<Rightarrow> 'g) \<Rightarrow> 'g picker \<Rightarrow> (nat \<Rightarrow> 't fuzz_tick) \<Rightarrow> fuzzer \<Rightarrow> 't session
     \<Rightarrow> 't fuzz_state option" where
  "drive_fuzzer A C seeded pick ticks f s =
     (let pool = resolved_payloads f in
      if pool = [] then Some (map_out (add_note (''fuzzer: empty payload pool '' @ em_dash @ '' nothing to drive'')) (fuzz_start s))
      else map_option (\<lambda>st. map_out (push_report_notes (from_findings (fs_findings st) DEFAULT_MAX_FINDINGS)) st)
        (fuzz_loop A C pick pool ticks [0..<unat (fz_iterations f)] (seeded (fz_seed f)) (fuzz_start s)))"

subsection \<open>Tallies\<close>

lemma report_counts:
  "fold (\<lambda>f (by_class, by_code). (bump_key (ff_class f) by_class,
      case ff_code f of Some code \<Rightarrow> bump_key code by_code | None \<Rightarrow> by_code)) findings (m, n) = (m', n') \<Longrightarrow>
   (case bt_get m' c of Some k \<Rightarrow> k | None \<Rightarrow> 0) =
     (case bt_get m c of Some k \<Rightarrow> k | None \<Rightarrow> 0) + of_nat (length (filter (\<lambda>f. ff_class f = c) findings))"
proof (induction findings arbitrary: m n)
  case (Cons f fs)
  from Cons.IH [OF Cons.prems [simplified]] show ?case by (auto simp: bump_key_def)
qed simp

lemma report_count_exact:
  "report_count (from_findings findings k) c = of_nat (length (filter (\<lambda>f. ff_class f = c) findings))"
  using report_counts [of findings "[]" "[]"] by (auto simp: report_count_def from_findings_def split: prod.split)

lemma unat_small: "n < 2 ^ 64 \<Longrightarrow> unat (of_nat n :: u64) = n" "n < 2 ^ 32 \<Longrightarrow> unat (of_nat n :: u32) = n"
  by (simp_all add: unat_of_nat_u64 unsigned_of_nat take_bit_nat_eq_self)

lemma filter_none: "(of_nat (length (filter P xs)) :: u64) = 0 \<Longrightarrow> length xs < 2 ^ 64 \<Longrightarrow> \<forall>x \<in> set xs. \<not> P x"
  using unat_small(1) [of "length (filter P xs)"] le_less_trans [OF length_filter_le [of P xs]]
  by (force simp: filter_empty_conv)

subsection \<open>What is counted is what was probed\<close>

definition good_event :: "rec_event \<Rightarrow> bool" where
  "good_event e \<longleftrightarrow> event_outcome e = Outcome_Success \<or> event_outcome e = Outcome_ExpectedRejection"

definition dead_event :: "rec_event \<Rightarrow> bool" where
  "dead_event e \<longleftrightarrow> event_outcome e = Outcome_Deadlock"

definition bad_events :: "rec_event list \<Rightarrow> nat" where
  "bad_events es = length (filter (\<lambda>e. \<not> good_event e \<and> \<not> dead_event e) es)"

definition of_class :: "fuzz_class \<Rightarrow> fuzz_finding list \<Rightarrow> nat" where
  "of_class c fs = length (filter (\<lambda>f. ff_class f = c) fs)"

text \<open>The counters, the records and the findings of a run whose session could \<open>lost\<close> times not be replaced.\<close>

definition fuzz_inv :: "nat \<Rightarrow> 't fuzz_state \<Rightarrow> bool" where
  "fuzz_inv lost st \<longleftrightarrow> (let out = fs_out st; es = fs_events st; fs = fs_findings st in
     so_total_calls out = of_nat (length es)
     \<and> so_successful_calls out = of_nat (length (filter good_event es))
     \<and> so_deadlock_count out = of_nat (length (filter dead_event es))
     \<and> so_error_count out = of_nat (bad_events es + lost)
     \<and> of_class FC_ProtocolError fs = length (filter good_event es)
     \<and> of_class FC_Deadlock fs = length (filter dead_event es)
     \<and> of_class FC_Disconnected fs + of_class FC_ParseError fs \<le> bad_events es
     \<and> length es \<le> length fs)"

lemmas fuzz_counters = map_out_def count_success_def count_error_def count_hang_def count_deadlock_def count_attempt_def

lemma fuzz_counted:
  assumes "fuzz_inv lost st" "fs_events st1 = fs_events st" "fs_findings st1 = fs_findings st"
    and "so_total_calls (fs_out st1) = so_total_calls (fs_out st) + 1"
    and "so_successful_calls (fs_out st1) = so_successful_calls (fs_out st) + (if cls = FC_ProtocolError then 1 else 0)"
    and "so_deadlock_count (fs_out st1) = so_deadlock_count (fs_out st) + (if cls = FC_Deadlock then 1 else 0)"
    and "so_error_count (fs_out st1) = so_error_count (fs_out st) + (if cls = FC_ProtocolError \<or> cls = FC_Deadlock then 0 else 1)"
    and "oc = Outcome_Success \<or> oc = Outcome_ExpectedRejection \<longleftrightarrow> cls = FC_ProtocolError" "oc = Outcome_Deadlock \<longleftrightarrow> cls = FC_Deadlock"
  shows "fuzz_inv lost (push_probe p t d oc cls code nt st1)"
  using assms by (auto simp: fuzz_inv_def Let_def of_class_def bad_events_def push_probe_def good_event_def dead_event_def)

lemma fuzz_inv_note [simp]: "fuzz_inv lost (map_out (add_note n) st) = fuzz_inv lost st"
  by (simp add: fuzz_inv_def map_out_def Let_def)

lemma class_outcome_kind:
  assumes "classify_err A e = (cls, code, nt)"
  shows "class_outcome cls = Outcome_ExpectedRejection \<longleftrightarrow> cls = FC_ProtocolError"
    "class_outcome cls \<noteq> Outcome_Success" "class_outcome cls \<noteq> Outcome_Deadlock" "cls \<noteq> FC_Deadlock"
  using assms by (cases e; auto simp: class_outcome_def split: fuzz_class.splits if_splits)+

lemma completed_inv:
  assumes "fuzz_inv lost st"
  shows "fuzz_inv lost (record_completed_probe p t result d slow (map_out count_attempt (st\<lparr>fs_session := s\<rparr>)))"
  using assms by (auto simp: record_completed_probe_def Let_def fuzz_counters intro!: fuzz_counted [OF assms])

lemma typed_probe_inv:
  assumes inv: "fuzz_inv lost st" and step: "typed_probe A C iter p tool arguments t st = (st', stop)"
  shows "fuzz_inv lost st'"
proof -
  obtain s' r where call: "call_tool A tool arguments (fs_session st) = (s', r)" by (cases "call_tool A tool arguments (fs_session st)") auto
  let ?st = "map_out count_attempt (st\<lparr>fs_session := s'\<rparr>)"
  show ?thesis
  proof (cases "hang_detect r (fc_hang_threshold C) (fc_grace_period C) (fk_watch t)")
    case (Hang_Err e)
    obtain cls code nt where cl: "classify_err A e = (cls, code, nt)" by (cases "classify_err A e") auto
    have "fuzz_inv lost (push_probe p t 0 (class_outcome cls) cls code nt
        (map_out (if cls = FC_ProtocolError then count_success else count_error) ?st))"
      by (rule fuzz_counted [OF inv]) (use class_outcome_kind [OF cl] in \<open>simp_all add: fuzz_counters\<close>)
    then show ?thesis using step by (auto simp: typed_probe_def call Hang_Err cl Let_def split: if_splits)
  next
    case (Hang_Deadlock d)
    have "fuzz_inv lost (push_probe p t d Outcome_Deadlock FC_Deadlock None nt (map_out count_deadlock ?st))" for nt
      by (rule fuzz_counted [OF inv]) (simp_all add: fuzz_counters)
    then show ?thesis using step by (auto simp: typed_probe_def call Hang_Deadlock Let_def)
  qed (use step completed_inv [OF inv] in \<open>auto simp: typed_probe_def call Let_def\<close>)
qed

lemma classify_probe_kind:
  assumes "classify_probe_err A e = (cls, kind, d, nt)"
  shows "kind = Outcome_ExpectedRejection \<longleftrightarrow> cls = FC_ProtocolError" "kind \<noteq> Outcome_Success" "kind \<noteq> Outcome_Deadlock"
    "cls \<noteq> FC_Deadlock"
  using assms by (auto simp: classify_probe_err_def Let_def split: session_error.splits if_splits)

lemma raw_kind:
  assumes "raw_judgement A C bytes t s = Some (s', cls, kind, d, code, nt)"
  shows "kind = Outcome_Success \<or> kind = Outcome_ExpectedRejection \<longleftrightarrow> cls = FC_ProtocolError"
    "kind = Outcome_Deadlock \<longleftrightarrow> cls = FC_Deadlock"
  using assms
  by (auto simp: raw_judgement_def Let_def classify_probe_kind split: prod.splits option.splits sum.splits if_splits)

lemma shutdown_counters [simp]:
  "so_total_calls (shutdown_session A s ctx out) = so_total_calls out"
  "so_successful_calls (shutdown_session A s ctx out) = so_successful_calls out"
  by (simp_all add: shutdown_session_def record_shutdown_def Let_def split: option.split sum.split)

lemma respawn_inv:
  assumes "fuzz_inv lost st" "respawn A iter t st = (st', stop)"
  shows "fuzz_inv (if stop then lost + 1 else lost) st'"
  using assms by (auto simp: respawn_def fuzz_inv_def Let_def fuzz_counters comp_def add_note_def shutdown_counts
      split: sum.splits)

lemma fuzz_step_inv:
  assumes inv: "fuzz_inv 0 st" and step: "fuzz_step A C iter p t st = Some (st', stop)"
  shows "\<exists>lost \<le> 1. fuzz_inv lost st' \<and> (\<not> stop \<longrightarrow> lost = 0)"
proof (cases "to_call_args p")
  case (Some ta)
  then show ?thesis using step typed_probe_inv [OF inv] by (cases ta) (auto simp: fuzz_step_def)
next
  case None
  show ?thesis
  proof (cases "fc_factory C")
    case False
    then show ?thesis using step None inv by (auto simp: fuzz_step_def skip_raw_def fuzz_inv_def Let_def of_class_def)
  next
    case fac: True
    show ?thesis
    proof (cases "raw_bytes p")
      case None
      then show ?thesis using step fac \<open>to_call_args p = None\<close> inv by (auto simp: fuzz_step_def handle_raw_payload_def)
    next
      case (Some bytes)
      obtain s1 cls kind d code nt where J: "raw_judgement A C bytes t (fs_session st) = Some (s1, cls, kind, d, code, nt)"
        using step None fac Some by (auto simp: fuzz_step_def handle_raw_payload_def split: option.splits)
      define st2 where "st2 = push_probe p t d kind cls code nt
        (map_out (if cls = FC_Deadlock
                  then (\<lambda>out. (count_deadlock out)\<lparr>so_hung_for_ms := so_hung_for_ms out @ [of_nat (as_millis d)]\<rparr>)
                  else if kind = Outcome_Success \<or> kind = Outcome_ExpectedRejection then count_success else count_error)
          (map_out count_attempt (st\<lparr>fs_session := s1\<rparr>)))"
      have "fuzz_inv 0 st2"
        unfolding st2_def by (rule fuzz_counted [OF inv]) (use raw_kind [OF J] in \<open>auto simp: fuzz_counters\<close>)
      moreover have "respawn A iter t st2 = (st', stop)"
        using step None fac Some by (simp add: fuzz_step_def handle_raw_payload_def J Let_def st2_def)
      ultimately show ?thesis using respawn_inv [of 0 st2] by (cases stop) fastforce+
    qed
  qed
qed

lemmas fuzz_step_defs = fuzz_step_def typed_probe_def record_completed_probe_def handle_raw_payload_def respawn_def skip_raw_def
  Let_def fuzz_counters push_probe_def

lemma teardown_zero: "so_teardown_failure_count (shutdown_session A s ctx out) = 0 \<longleftrightarrow>
    so_teardown_failure_count out = 0 \<and> session_shutdown A s = Some (Inr ())"
proof -
  have "n + 1 \<noteq> 0" if "unat n + 1 < 2 ^ 64" for n :: u64
    using that by (simp add: word_unat_eq_iff unat_word_ariths)
  then have "saturating_plus n 1 \<noteq> (0 :: u64)" for n
    by (auto simp: saturating_plus_def checked_add_def)
  then show ?thesis
    by (auto simp: shutdown_session_def record_shutdown_def Let_def split: option.split sum.split)
qed

lemma fuzz_step_findings:
  "fuzz_step A C iter p t st = Some (st', stop) \<Longrightarrow> length (fs_findings st') \<le> length (fs_findings st) + 1"
  by (auto simp: fuzz_step_defs comp_def split: option.splits prod.splits hang_outcome.splits sum.splits if_splits)

lemma push_report_counts [simp]:
  "so_total_calls (push_report_notes R out) = so_total_calls out"
  "so_successful_calls (push_report_notes R out) = so_successful_calls out"
  "so_error_count (push_report_notes R out) = so_error_count out"
  "so_hang_count (push_report_notes R out) = so_hang_count out"
  "so_deadlock_count (push_report_notes R out) = so_deadlock_count out"
  "so_teardown_failure_count (push_report_notes R out) = so_teardown_failure_count out"
proof -
  have "fold add_note ns o1 = o1\<lparr>so_notes := so_notes o1 @ ns\<rparr>" for ns o1
    by (induction ns arbitrary: o1) (simp_all add: add_note_def)
  then show "so_total_calls (push_report_notes R out) = so_total_calls out"
    "so_successful_calls (push_report_notes R out) = so_successful_calls out"
    "so_error_count (push_report_notes R out) = so_error_count out"
    "so_hang_count (push_report_notes R out) = so_hang_count out"
    "so_deadlock_count (push_report_notes R out) = so_deadlock_count out"
    "so_teardown_failure_count (push_report_notes R out) = so_teardown_failure_count out"
    by (simp_all add: push_report_notes_def)
qed

lemma fuzz_loop_inv:
  assumes "fuzz_inv 0 st" "fuzz_loop A C pick pool ticks iters g st = Some st'"
  shows "\<exists>lost \<le> 1. fuzz_inv lost st' \<and> length (fs_findings st') \<le> length (fs_findings st) + length iters"
  using assms
proof (induction iters arbitrary: g st)
  case (Cons iter iters)
  show ?case
  proof (cases "fk_cancelled (ticks iter)")
    case True
    then show ?thesis using Cons.prems by (auto simp: map_out_def fuzz_inv_def Let_def)
  next
    case False
    obtain g' i where g: "pick g (length pool) = (g', i)" by (cases "pick g (length pool)")
    obtain st1 stop where step: "fuzz_step A C iter (pool ! i) (ticks iter) st = Some (st1, stop)"
      using Cons.prems(2) False g by (auto split: option.splits)
    note inv = fuzz_step_inv [OF Cons.prems(1) step] and len = fuzz_step_findings [OF step]
    show ?thesis
    proof (cases stop)
      case True
      then show ?thesis using Cons.prems(2) False g step inv len by auto
    next
      case stop: False
      then have "fuzz_inv 0 st1" "fuzz_loop A C pick pool ticks iters g' st1 = Some st'"
        using inv Cons.prems(2) False g step by auto
      from Cons.IH [OF this] len show ?thesis by fastforce
    qed
  qed
qed auto

lemma fuzz_start_inv: "fuzz_inv 0 (fuzz_start s)"
  by (simp add: fuzz_inv_def fuzz_start_def scenario_outcome_default_def of_class_def bad_events_def)

lemma drive_fuzzer_loop:
  assumes "drive_fuzzer A C seeded pick ticks f s = Some st"
  obtains st0 where "fuzz_loop A C pick (resolved_payloads f) ticks [0..<unat (fz_iterations f)] (seeded (fz_seed f)) (fuzz_start s)
      = Some st0"
    and "st = map_out (push_report_notes (from_findings (fs_findings st0) DEFAULT_MAX_FINDINGS)) st0"
proof -
  have "resolved_payloads f \<noteq> []" by (simp add: resolved_payloads_def all_payloads_def)
  then show thesis using assms that by (auto simp: drive_fuzzer_def Let_def)
qed

lemma bad_split: "length (filter good_event es) + length (filter dead_event es) + bad_events es = length es"
  by (induction es) (auto simp: bad_events_def good_event_def dead_event_def)

text \<open>
  C20. The fuzzer's three accounts of a run agree. The calls, successes, deadlocks and errors it counts are
  exactly the calls it recorded, by their recorded outcome, no more than one error being for a session
  that could not be replaced; its report, tallied over every finding and not only the sample it keeps,
  counts exactly as many rejected probes and deadlocks; and a run with a critical finding always carries
  an error or a deadlock.
\<close>

theorem fuzz_run_accounted:
  assumes "drive_fuzzer A C seeded pick ticks f s = Some st"
  shows "let out = fs_out st; es = fs_events st; R = from_findings (fs_findings st) DEFAULT_MAX_FINDINGS in
     unat (so_total_calls out) = length es
     \<and> unat (so_successful_calls out) = length (filter good_event es)
     \<and> unat (so_deadlock_count out) = length (filter dead_event es)
     \<and> (\<exists>lost \<le> 1. unat (so_error_count out) = bad_events es + lost)
     \<and> report_count R FC_ProtocolError = so_successful_calls out
     \<and> unat (report_count R FC_Deadlock) = unat (so_deadlock_count out)
     \<and> (has_critical R \<longrightarrow> so_error_count out \<noteq> 0 \<or> so_deadlock_count out \<noteq> 0)"
proof -
  obtain st0 where loop: "fuzz_loop A C pick (resolved_payloads f) ticks [0..<unat (fz_iterations f)] (seeded (fz_seed f)) (fuzz_start s)
      = Some st0" and st: "st = map_out (push_report_notes (from_findings (fs_findings st0) DEFAULT_MAX_FINDINGS)) st0"
    by (rule drive_fuzzer_loop [OF assms])
  obtain lost where lost: "lost \<le> 1" "fuzz_inv lost st0" "length (fs_findings st0) \<le> unat (fz_iterations f)"
    using fuzz_loop_inv [OF fuzz_start_inv loop] by (auto simp: fuzz_start_def)
  let ?es = "fs_events st0"
  have "length ?es < 2 ^ 32" using lost(2,3) unsigned_less [of "fz_iterations f", where 'a = nat]
    by (simp add: fuzz_inv_def Let_def)
  then have n: "length ?es < 2 ^ 32" "length (filter good_event ?es) < 2 ^ 32" "length (filter dead_event ?es) < 2 ^ 32"
      "bad_events ?es + lost < 2 ^ 64"
    using bad_split [of ?es] lost(1) by simp_all
  have F: "fs_events st = ?es" "fs_findings st = fs_findings st0" "fs_out st = push_report_notes
      (from_findings (fs_findings st0) DEFAULT_MAX_FINDINGS) (fs_out st0)"
    by (simp_all add: st map_out_def)
  have inv: "so_total_calls (fs_out st0) = of_nat (length ?es)" "so_successful_calls (fs_out st0) = of_nat (length (filter good_event ?es))"
      "so_deadlock_count (fs_out st0) = of_nat (length (filter dead_event ?es))" "so_error_count (fs_out st0) = of_nat (bad_events ?es + lost)"
      "of_class FC_ProtocolError (fs_findings st0) = length (filter good_event ?es)"
      "of_class FC_Deadlock (fs_findings st0) = length (filter dead_event ?es)"
      "of_class FC_Disconnected (fs_findings st0) + of_class FC_ParseError (fs_findings st0) \<le> bad_events ?es"
    using lost(2) by (simp_all add: fuzz_inv_def Let_def)
  have u: "unat (so_total_calls (fs_out st0)) = length ?es" "unat (so_successful_calls (fs_out st0)) = length (filter good_event ?es)"
      "unat (so_deadlock_count (fs_out st0)) = length (filter dead_event ?es)" "unat (so_error_count (fs_out st0)) = bad_events ?es + lost"
    unfolding inv(1-4) using n by (simp_all only: unat_small less_trans [OF _ power_strict_increasing [of 32 64 "2 :: nat"]])
  have R: "report_count (from_findings (fs_findings st0) k) c = of_nat (of_class c (fs_findings st0))" for k c
    by (simp add: report_count_exact of_class_def)
  have crit: "so_error_count (fs_out st0) \<noteq> 0 \<or> so_deadlock_count (fs_out st0) \<noteq> 0"
    if "has_critical (from_findings (fs_findings st0) k)" for k
  proof -
    have "of_class FC_Deadlock (fs_findings st0) \<noteq> 0 \<or> of_class FC_Disconnected (fs_findings st0) \<noteq> 0
        \<or> of_class FC_ParseError (fs_findings st0) \<noteq> 0"
      using that by (auto simp: has_critical_def R intro!: gr0I)
    then have "unat (so_error_count (fs_out st0)) \<noteq> 0 \<or> unat (so_deadlock_count (fs_out st0)) \<noteq> 0"
      unfolding u using inv(6,7) by linarith
    then show ?thesis by (auto simp: unat_eq_zero)
  qed
  show ?thesis
    using u crit lost(1) by (auto simp: Let_def F R inv(5,6) inv(2) unat_small(1) n(3) less_trans [OF n(3)])
qed

subsection \<open>A fuzz run that passes\<close>

definition expected_error :: "session_error \<Rightarrow> bool" where
  "expected_error err = (case err of
       SE_Server e \<Rightarrow> is_expected_rejection_code (eo_code e)
     | SE_MismatchedError _ _ e \<Rightarrow> is_expected_rejection_code (eo_code e)
     | _ \<Rightarrow> False)"

definition sendable :: "fuzz_ctx \<Rightarrow> fuzz_payload \<Rightarrow> bool" where
  "sendable C p \<longleftrightarrow> to_call_args p \<noteq> None \<or> fc_factory C"

text \<open>
  A payload sent through \<open>tools/call\<close> is rejected by the tool, before the hang threshold has passed, or by
  the server with one of the four codes, before the watchdog gives the call up: the watchdog returns an
  error without looking at the clock, so such a rejection may come as late as the grace period lets it.
  After a raw frame the server answers the next request within the budget, with the tools or with a
  rejection of the frame, and its session is closed cleanly and replaced.
\<close>

definition probe_healthy :: "'t session_api \<Rightarrow> fuzz_ctx \<Rightarrow> fuzz_payload \<Rightarrow> 't fuzz_tick \<Rightarrow> 't session \<Rightarrow> bool" where
  "probe_healthy A C p t s =
     (case to_call_args p of
        Some (tool, arguments) \<Rightarrow>
          (case snd (call_tool A tool arguments s) of
             Some (Inr result) \<Rightarrow> ct_is_error result \<and> (\<exists>d. wt_first (fk_watch t) = Some d \<and> d < fc_hang_threshold C)
           | Some (Inl (SE_Server e)) \<Rightarrow> is_expected_rejection_code (eo_code e)
               \<and> (\<exists>d. wt_first (fk_watch t) = Some d \<or> wt_grace (fk_watch t) = Some d)
           | _ \<Rightarrow> False)
      | None \<Rightarrow> \<not> fk_probe_late t \<and> (\<exists>bytes s1 s2 answer fresh. raw_bytes p = Some bytes
          \<and> session_raw_send A bytes s = (s1, Some (Inr ())) \<and> list_tools A s1 = (s2, Some answer)
          \<and> (case answer of Inr _ \<Rightarrow> True | Inl e \<Rightarrow> expected_error e)
          \<and> fk_spawn t = Inr fresh \<and> session_shutdown A s2 = Some (Inr ())))"

primrec fuzz_visits ::
  "'t session_api \<Rightarrow> fuzz_ctx \<Rightarrow> 'g picker \<Rightarrow> fuzz_payload list \<Rightarrow> (nat \<Rightarrow> 't fuzz_tick) \<Rightarrow> nat list \<Rightarrow> 'g
     \<Rightarrow> 't fuzz_state \<Rightarrow> (fuzz_payload \<times> 't fuzz_tick \<times> 't session) list" where
  "fuzz_visits A C pick pool ticks [] g st = []"
| "fuzz_visits A C pick pool ticks (iter # iters) g st =
     (if fk_cancelled (ticks iter) then []
      else case pick g (length pool) of (g', i) \<Rightarrow>
        (pool ! i, ticks iter, fs_session st) #
        (case fuzz_step A C iter (pool ! i) (ticks iter) st of
           Some (st', False) \<Rightarrow> fuzz_visits A C pick pool ticks iters g' st'
         | _ \<Rightarrow> []))"

lemma raw_when_no_args: "to_call_args p = None \<Longrightarrow> \<exists>bytes. raw_bytes p = Some bytes"
  by (cases p) (simp_all add: Let_def)

lemma fuzz_step_events:
  "fuzz_step A C iter p t st = Some (st', stop) \<Longrightarrow> \<exists>es. fs_events st' = fs_events st @ es \<and> (es \<noteq> [] \<longrightarrow> sendable C p)"
  by (auto simp: fuzz_step_defs comp_def sendable_def split: option.splits prod.splits hang_outcome.splits sum.splits if_splits)

text \<open>Where only good outcomes are recorded, the loop is only stopped by a session that cannot be replaced.\<close>

lemma fuzz_step_stop:
  "fuzz_step A C iter p t st = Some (st', True) \<Longrightarrow> list_all good_event (fs_events st') \<Longrightarrow>
     so_error_count (fs_out st') = so_error_count (fs_out st) + 1"
  by (auto simp: fuzz_step_defs comp_def good_event_def add_note_def class_outcome_def
      split: option.splits prod.splits hang_outcome.splits sum.splits if_splits dest: raw_kind)

lemma fuzz_step_teardown:
  "fuzz_step A C iter p t st = Some (st', stop) \<Longrightarrow> so_teardown_failure_count (fs_out st') = 0 \<Longrightarrow>
     so_teardown_failure_count (fs_out st) = 0"
  by (auto simp: fuzz_step_defs comp_def add_note_def teardown_zero
      split: option.splits prod.splits hang_outcome.splits sum.splits if_splits)

lemma classify_expected:
  "classify_err A e = (FC_ProtocolError, code, nt) \<Longrightarrow> \<exists>eo. e = SE_Server eo \<and> is_expected_rejection_code (eo_code eo)"
  by (cases e) (auto split: if_splits)

lemma class_good: "class_outcome cls = Outcome_Success \<or> class_outcome cls = Outcome_ExpectedRejection \<longleftrightarrow> cls = FC_ProtocolError"
  by (simp add: class_outcome_def split: fuzz_class.split)

lemma hang_err: "hang_detect call hang grace w = Hang_Err e \<Longrightarrow>
    call = Some (Inl e) \<and> (\<exists>d. wt_first w = Some d \<or> wt_grace w = Some d)"
  by (auto simp: hang_detect_def hang_late_def Let_def split: option.splits sum.splits if_splits)

lemma typed_healthy:
  assumes "to_call_args p = Some (tool, arguments)" "typed_probe A C iter p tool arguments t st = (st', stop)"
  shows "\<exists>h \<le> 1. so_hang_count (fs_out st') = so_hang_count (fs_out st) + of_nat h
     \<and> (h = 0 \<and> list_all good_event (fs_events st') \<longrightarrow> probe_healthy A C p t (fs_session st))"
proof -
  obtain s' r where call: "call_tool A tool arguments (fs_session st) = (s', r)" by (cases "call_tool A tool arguments (fs_session st)") auto
  show ?thesis
  proof (cases "hang_detect r (fc_hang_threshold C) (fc_grace_period C) (fk_watch t)")
    case (Hang_Slow result d)
    then show ?thesis using assms(2)
      by (intro exI [of _ 1]) (auto simp: typed_probe_def call record_completed_probe_def Let_def fuzz_counters push_probe_def)
  next
    case (Hang_Err e)
    obtain cls code nt where cl: "classify_err A e = (cls, code, nt)" by (cases "classify_err A e") auto
    have H: "probe_healthy A C p t (fs_session st)" if "cls = FC_ProtocolError"
      using classify_expected [OF cl [unfolded that]] assms(1) hang_err [OF Hang_Err] by (auto simp: probe_healthy_def call)
    show ?thesis
    proof (cases "cls = FC_ProtocolError")
      case True
      with H have "probe_healthy A C p t (fs_session st)" by simp
      then show ?thesis using assms(2) True
        by (intro exI [of _ 0]) (auto simp: typed_probe_def call Hang_Err cl Let_def fuzz_counters push_probe_def)
    next
      case False
      then show ?thesis using assms(2) class_good [of cls]
        by (intro exI [of _ 0]) (auto simp: typed_probe_def call Hang_Err cl Let_def fuzz_counters push_probe_def add_note_def
            good_event_def split: if_splits)
    qed
  next
    case (Hang_Ok result d)
    have st': "st' = record_completed_probe p t result d False (map_out count_attempt (st\<lparr>fs_session := s'\<rparr>))"
      using assms(2) by (simp add: typed_probe_def call Hang_Ok)
    show ?thesis
      by (rule exI [of _ 0]) (use assms(1) hang_detect_ok [OF Hang_Ok] in
        \<open>simp add: st' record_completed_probe_def probe_healthy_def Let_def call is_expected_tool_rejection_def fuzz_counters
           push_probe_def good_event_def\<close>)
  next
    case (Hang_Deadlock d)
    then show ?thesis using assms
      by (intro exI [of _ 0]) (auto simp: typed_probe_def call Let_def fuzz_counters push_probe_def add_note_def good_event_def)
  qed
qed

lemma classify_probe_expected:
  "classify_probe_err A e = (FC_ProtocolError, kind, d, nt) \<Longrightarrow> expected_error e"
  by (auto simp: classify_probe_err_def expected_error_def Let_def split: session_error.splits if_splits)

lemma raw_judged_good:
  assumes "raw_judgement A C bytes t s = Some (s2, FC_ProtocolError, kind, d, code, nt)"
  shows "\<not> fk_probe_late t \<and> (\<exists>s1 answer. session_raw_send A bytes s = (s1, Some (Inr ())) \<and> list_tools A s1 = (s2, Some answer)
     \<and> (case answer of Inr _ \<Rightarrow> True | Inl e \<Rightarrow> expected_error e))"
  using assms by (auto simp: raw_judgement_def Let_def split: prod.splits option.splits sum.splits if_splits
      dest: classify_probe_expected)

lemma raw_healthy:
  assumes "to_call_args p = None" "handle_raw_payload A C iter p t st = Some (st', stop)"
  shows "so_hang_count (fs_out st') = so_hang_count (fs_out st)
     \<and> (list_all good_event (fs_events st') \<and> so_teardown_failure_count (fs_out st') = 0 \<and> \<not> stop
          \<longrightarrow> probe_healthy A C p t (fs_session st))"
proof -
  obtain bytes where b: "raw_bytes p = Some bytes" using raw_when_no_args [OF assms(1)] by blast
  obtain s1 cls kind d code nt where J: "raw_judgement A C bytes t (fs_session st) = Some (s1, cls, kind, d, code, nt)"
    using assms(2) b by (auto simp: handle_raw_payload_def split: option.splits)
  have H: "probe_healthy A C p t (fs_session st)"
    if "cls = FC_ProtocolError" "fk_spawn t = Inr fresh" "session_shutdown A s1 = Some (Inr ())" for fresh
    using raw_judged_good [OF J [unfolded that(1)]] that(2,3) b assms(1) by (auto simp: probe_healthy_def)
  show ?thesis using assms(2) raw_kind [OF J] H
    by (auto simp: handle_raw_payload_def b J respawn_def Let_def fuzz_counters push_probe_def add_note_def comp_def
        good_event_def teardown_zero split: sum.splits if_splits)
qed

lemma fuzz_step_healthy:
  assumes "fuzz_step A C iter p t st = Some (st', stop)"
  shows "\<exists>h \<le> 1. so_hang_count (fs_out st') = so_hang_count (fs_out st) + of_nat h
     \<and> (h = 0 \<and> list_all good_event (fs_events st') \<and> so_teardown_failure_count (fs_out st') = 0 \<and> \<not> stop \<and> sendable C p
          \<longrightarrow> probe_healthy A C p t (fs_session st))"
proof (cases "to_call_args p")
  case None
  then show ?thesis using assms
    by (intro exI [of _ 0]) (auto simp: fuzz_step_def skip_raw_def sendable_def split: if_splits dest: raw_healthy [OF None])
next
  case (Some ta)
  obtain tool arguments where ta: "ta = (tool, arguments)" by (cases ta)
  have "typed_probe A C iter p tool arguments t st = (st', stop)" using assms by (simp add: fuzz_step_def Some ta)
  from typed_healthy [OF Some [unfolded ta] this] show ?thesis by blast
qed

lemma fuzz_loop_grows:
  "fuzz_loop A C pick pool ticks iters g st = Some st' \<Longrightarrow>
     (\<exists>es. fs_events st' = fs_events st @ es
        \<and> (es \<noteq> [] \<longrightarrow> (\<exists>(p, t, s) \<in> set (fuzz_visits A C pick pool ticks iters g st). sendable C p)))
     \<and> (so_teardown_failure_count (fs_out st') = 0 \<longrightarrow> so_teardown_failure_count (fs_out st) = 0)"
proof (induction iters arbitrary: g st)
  case (Cons iter iters)
  show ?case
  proof (cases "fk_cancelled (ticks iter)")
    case True
    then show ?thesis using Cons.prems by (auto simp: map_out_def)
  next
    case False
    obtain g' i where g: "pick g (length pool) = (g', i)" by (cases "pick g (length pool)")
    obtain st1 stop where step: "fuzz_step A C iter (pool ! i) (ticks iter) st = Some (st1, stop)"
      using Cons.prems False g by (auto split: option.splits)
    obtain es where es: "fs_events st1 = fs_events st @ es" "es \<noteq> [] \<longrightarrow> sendable C (pool ! i)"
      using fuzz_step_events [OF step] by blast
    show ?thesis
    proof (cases stop)
      case True
      then show ?thesis using Cons.prems False g step es fuzz_step_teardown [OF step] by auto
    next
      case stop: False
      then have "fuzz_loop A C pick pool ticks iters g' st1 = Some st'" using Cons.prems False g step by auto
      from Cons.IH [OF this] show ?thesis using False g step stop es fuzz_step_teardown [OF step] by fastforce
    qed
  qed
qed simp

lemma fuzz_loop_healthy:
  assumes "fuzz_inv 0 st" "fuzz_loop A C pick pool ticks iters g st = Some st'"
    and "list_all good_event (fs_events st')" "so_error_count (fs_out st') = 0" "so_teardown_failure_count (fs_out st') = 0"
  shows "\<exists>h \<le> length iters. so_hang_count (fs_out st') = so_hang_count (fs_out st) + of_nat h
     \<and> (h = 0 \<longrightarrow> (\<forall>(p, t, s) \<in> set (fuzz_visits A C pick pool ticks iters g st). sendable C p \<longrightarrow> probe_healthy A C p t s))"
  using assms
proof (induction iters arbitrary: g st)
  case (Cons iter iters)
  show ?case
  proof (cases "fk_cancelled (ticks iter)")
    case True
    then show ?thesis using Cons.prems by (auto simp: map_out_def)
  next
    case False
    obtain g' i where g: "pick g (length pool) = (g', i)" by (cases "pick g (length pool)")
    obtain st1 stop where step: "fuzz_step A C iter (pool ! i) (ticks iter) st = Some (st1, stop)"
      using Cons.prems(2) False g by (auto split: option.splits)
    have stop: "\<not> stop"
    proof
      assume s: stop
      then have "st1 = st'" using Cons.prems(2) False g step by simp
      moreover have "so_error_count (fs_out st) = 0"
      proof -
        have "list_all good_event (fs_events st)" using fuzz_step_events [OF step] Cons.prems(3) \<open>st1 = st'\<close> by auto
        then have "bad_events (fs_events st) = 0" by (auto simp: bad_events_def list_all_iff filter_empty_conv)
        then show ?thesis using Cons.prems(1) by (simp add: fuzz_inv_def Let_def)
      qed
      ultimately show False using fuzz_step_stop step s Cons.prems(3,4) by fastforce
    qed
    then have loop: "fuzz_loop A C pick pool ticks iters g' st1 = Some st'" using Cons.prems(2) False g step by auto
    have inv: "fuzz_inv 0 st1" using fuzz_step_inv [OF Cons.prems(1) step] stop by auto
    obtain h where h: "h \<le> length iters" "so_hang_count (fs_out st') = so_hang_count (fs_out st1) + of_nat h"
      "h = 0 \<longrightarrow> (\<forall>(p, t, s) \<in> set (fuzz_visits A C pick pool ticks iters g' st1). sendable C p \<longrightarrow> probe_healthy A C p t s)"
      using Cons.IH [OF inv loop Cons.prems(3-5)] by blast
    have good: "list_all good_event (fs_events st1)" "so_teardown_failure_count (fs_out st1) = 0"
      using fuzz_loop_grows [OF loop] Cons.prems(3,5) by auto
    obtain h1 where h1: "h1 \<le> 1" "so_hang_count (fs_out st1) = so_hang_count (fs_out st) + of_nat h1"
      "h1 = 0 \<and> sendable C (pool ! i) \<longrightarrow> probe_healthy A C (pool ! i) (ticks iter) (fs_session st)"
      using fuzz_step_healthy [OF step] good stop by blast
    show ?thesis
      by (rule exI [of _ "h1 + h"]) (use h h1 False g step stop in auto)
  qed
qed auto

text \<open>
  C19. A fuzz run that passes has seen every malformed call rejected and every malformed frame survived.
  When a report of the fuzzer's outcome passes, something was sent, and every payload sent came to one of three ends. The tool rejected
  it with an error result before the hang threshold; or the server rejected it with one of the four
  JSON-RPC codes before the watchdog gave the call up, however late within the threshold and the grace
  period; or, where it was a raw frame, the server answered the next request within its budget, listing
  its tools or rejecting the frame with one of the four codes, and the desynced session was closed cleanly
  and replaced. So no accepted malformed call, no call left unanswered, no lost connection and no other
  server error can hide in a green run.
\<close>

theorem passed_fuzz_run_was_rejected:
  assumes "drive_fuzzer A C seeded pick ticks f s = Some st"
    and "passed r" "rp_scenario_name r = ''fuzzer''" "rp_scenario_outcome r = fs_out st"
  shows "let visits = fuzz_visits A C pick (resolved_payloads f) ticks [0..<unat (fz_iterations f)] (seeded (fz_seed f)) (fuzz_start s) in
     (\<forall>(p, t, s) \<in> set visits. sendable C p \<longrightarrow> probe_healthy A C p t s) \<and> (\<exists>(p, t, s) \<in> set visits. sendable C p)"
proof -
  obtain st0 where loop: "fuzz_loop A C pick (resolved_payloads f) ticks [0..<unat (fz_iterations f)] (seeded (fz_seed f)) (fuzz_start s)
      = Some st0" and st: "st = map_out (push_report_notes (from_findings (fs_findings st0) DEFAULT_MAX_FINDINGS)) st0"
    by (rule drive_fuzzer_loop [OF assms(1)])
  have out: "so_total_calls (fs_out st0) \<noteq> 0" "so_error_count (fs_out st0) = 0" "so_hang_count (fs_out st0) = 0"
      "so_deadlock_count (fs_out st0) = 0" "so_teardown_failure_count (fs_out st0) = 0"
    using assms(2-4) by (auto simp: passed_def Let_def st map_out_def)
  obtain lost where lost: "lost \<le> 1" "fuzz_inv lost st0" "length (fs_findings st0) \<le> unat (fz_iterations f)"
    using fuzz_loop_inv [OF fuzz_start_inv loop] by (auto simp: fuzz_start_def)
  have "length (fs_events st0) < 2 ^ 32" using lost(2,3) unsigned_less [of "fz_iterations f", where 'a = nat]
    by (simp add: fuzz_inv_def Let_def)
  then have "length (filter dead_event (fs_events st0)) < 2 ^ 32" "bad_events (fs_events st0) + lost < 2 ^ 64"
    using bad_split [of "fs_events st0"] lost(1) by simp_all
  from unat_small(2) [OF this(1)] unat_small(1) [OF this(2)]
  have none: "length (filter dead_event (fs_events st0)) = 0" "bad_events (fs_events st0) = 0"
    using lost(2) out(2,4) by (auto simp: fuzz_inv_def Let_def simp flip: of_nat_add)
  then have good: "list_all good_event (fs_events st0)"
    by (auto simp: bad_events_def list_all_iff filter_empty_conv)
  obtain h where h: "h \<le> unat (fz_iterations f)" "so_hang_count (fs_out st0) = of_nat h"
    "h = 0 \<longrightarrow> (\<forall>(p, t, s) \<in> set (fuzz_visits A C pick (resolved_payloads f) ticks [0..<unat (fz_iterations f)] (seeded (fz_seed f)) (fuzz_start s)).
       sendable C p \<longrightarrow> probe_healthy A C p t s)"
    using fuzz_loop_healthy [OF fuzz_start_inv loop good out(2,5)] by (auto simp: fuzz_start_def scenario_outcome_default_def)
  have "h < 2 ^ 32" using h(1) unsigned_less [of "fz_iterations f", where 'a = nat] by simp
  then have "h = 0" using unat_small(2) [of h] h(2) out(3) by simp
  moreover have "fs_events st0 \<noteq> []" using lost(2) out(1) by (auto simp: fuzz_inv_def Let_def)
  ultimately show ?thesis using h(3) fuzz_loop_grows [OF loop] by (auto simp: Let_def fuzz_start_def)
qed

subsection \<open>A server that refuses\<close>

definition refusal :: error_object where
  "refusal = \<lparr>eo_code = -32601, eo_message = [], eo_data = None\<rparr>"

text \<open>It answers everything with the method-not-found error of request 1.\<close>

definition refuse_api :: "string session_api" where
  "refuse_api = echo_api\<lparr>api_parse := (\<lambda>text. Inr (JObject [(''jsonrpc'', JString ''2.0''), (''id'', JNumber ''1''),
     (''error'', JObject [(''code'', JNumber ''-32601''), (''message'', JString [])])]))\<rparr>"

lemma refusal_code [simp]: "json_as_i64 (JNumber ''-32601'') = Some (-32601)"
  by (simp add: json_as_i64_def is_digits_def decimal_value_def is_ascii_digit_def)

lemma refuse_reads:
  "read_response refuse_api dec method i None body =
     Inl (if i = 1 then SE_Server refusal else SE_MismatchedError i (JNumber ''1'') refusal)"
  by (simp add: read_response_def refuse_api_def de_envelope_def json_object_def de_unique_def de_string_def
      json_str_def last_member_def JSONRPC_VERSION_def eq_commute [of 1 i] de_error_object_def de_fields_def de_required_def
      de_default_def de_i64_def refusal_def)

lemma refuse_request:
  assumes "ss_stateless s = None"
  shows "session_request refuse_api dec method params s = (s\<lparr>ss_next_id := ss_next_id s + 1\<rparr>,
     Some (Inl (if ss_next_id s = 1 then SE_Server refusal else SE_MismatchedError (ss_next_id s) (JNumber ''1'') refusal)))"
proof -
  have "api_request refuse_api t body = (t, Some (Inr ''first''))" for t body by (simp add: refuse_api_def echo_over_def)
  then show ?thesis using assms by (simp add: session_request_def request_body_def Let_def refuse_reads)
qed

definition echo_tick :: "string fuzz_tick" where
  "echo_tick = \<lparr>fk_cancelled = False, fk_watch = \<lparr>wt_first = Some 1, wt_grace = None, wt_hung_for = 15\<rparr>, fk_probe_late = False,
     fk_spawn = Inr echo_session, fk_thread = 0\<rparr>"

definition small_ctx :: fuzz_ctx where
  "small_ctx = \<lparr>fc_hang_threshold = 5, fc_grace_period = 10, fc_factory = True\<rparr>"

definition small_fuzzer :: fuzzer where
  "small_fuzzer = \<lparr>fz_iterations = 2, fz_seed = 0, fz_payloads = [NumericMethod, EmptyObject]\<rparr>"

definition in_turn :: "nat picker" where
  "in_turn g n = (g + 1, g)"

abbreviation small_run :: "string fuzz_state option" where
  "small_run \<equiv> drive_fuzzer refuse_api small_ctx (\<lambda>_. 0) in_turn (\<lambda>_. echo_tick) small_fuzzer echo_session"

definition refused_events :: "rec_event list" where
  "refused_events = [Rec_Call 0 0 Outcome_ExpectedRejection, Rec_Call 0 0 Outcome_ExpectedRejection]"

lemma small_step:
  assumes "ss_stateless (fs_session st) = None" "ss_tool_schemas (fs_session st) = None" "ss_tool_output_schemas (fs_session st) = None"
  shows "ss_next_id (fs_session st) = 1 \<Longrightarrow> \<exists>fd. fuzz_step refuse_api small_ctx i NumericMethod echo_tick st =
      Some (st\<lparr>fs_session := (fs_session st)\<lparr>ss_next_id := 2\<rparr>, fs_out := count_success (count_attempt (fs_out st)),
        fs_events := fs_events st @ [Rec_Call 0 0 Outcome_ExpectedRejection], fs_findings := fs_findings st @ [fd]\<rparr>, False)"
    and "ss_next_id (fs_session st) = 2 \<Longrightarrow> \<exists>fd. fuzz_step refuse_api small_ctx i EmptyObject echo_tick st =
      Some (st\<lparr>fs_session := echo_session, fs_out := count_success (count_attempt (fs_out st)),
        fs_events := fs_events st @ [Rec_Call 0 0 Outcome_ExpectedRejection], fs_findings := fs_findings st @ [fd]\<rparr>, False)"
proof -
  have c: "eo_code refusal = -32601" "fc_factory small_ctx" "fk_thread echo_tick = 0" "fk_spawn echo_tick = Inr echo_session"
      "\<not> fk_probe_late echo_tick" "is_expected_rejection_code (-32601)"
    by (simp_all add: refusal_def small_ctx_def echo_tick_def is_expected_rejection_code_def)
  have d: "hang_detect (Some (Inl e)) (fc_hang_threshold small_ctx) (fc_grace_period small_ctx) (fk_watch echo_tick) = Hang_Err e" for e
    by (simp add: hang_detect_def small_ctx_def echo_tick_def)
  have b: "\<not> DURATION_MAX < fc_hang_threshold small_ctx + fc_grace_period small_ctx" by (simp add: small_ctx_def DURATION_MAX_def)
  have w: "session_raw_send refuse_api bytes s = (s, Some (Inr ()))" "shutdown_session refuse_api s ctx out = out" for bytes s ctx out
    by (simp_all add: session_raw_send_def refuse_api_def echo_over_def shutdown_session_def session_shutdown_def record_shutdown_def)
  show "\<exists>fd. fuzz_step refuse_api small_ctx i NumericMethod echo_tick st =
      Some (st\<lparr>fs_session := (fs_session st)\<lparr>ss_next_id := 2\<rparr>, fs_out := count_success (count_attempt (fs_out st)),
        fs_events := fs_events st @ [Rec_Call 0 0 Outcome_ExpectedRejection], fs_findings := fs_findings st @ [fd]\<rparr>, False)"
    if "ss_next_id (fs_session st) = 1"
    using that assms by (auto simp: fuzz_step_def typed_probe_def call_tool_def call_tool_round_def await_then_def refuse_request d c
        map_out_def push_probe_def Let_def class_outcome_def)
  show "\<exists>fd. fuzz_step refuse_api small_ctx i EmptyObject echo_tick st =
      Some (st\<lparr>fs_session := echo_session, fs_out := count_success (count_attempt (fs_out st)),
        fs_events := fs_events st @ [Rec_Call 0 0 Outcome_ExpectedRejection], fs_findings := fs_findings st @ [fd]\<rparr>, False)"
    if "ss_next_id (fs_session st) = 2"
    using that assms b by (cases st) (auto simp: fuzz_step_def handle_raw_payload_def raw_judgement_def list_tools_def refuse_request c w
        classify_probe_err_def probe_disconnected_def respawn_def map_out_def push_probe_def Let_def)
qed

lemma small_run_ends:
  "\<exists>st. small_run = Some st \<and> fs_events st = refused_events \<and> so_total_calls (fs_out st) = 2 \<and> so_successful_calls (fs_out st) = 2
     \<and> so_error_count (fs_out st) = 0 \<and> so_hang_count (fs_out st) = 0 \<and> so_deadlock_count (fs_out st) = 0
     \<and> so_divergence_count (fs_out st) = 0 \<and> so_incomplete_worker_count (fs_out st) = 0 \<and> so_teardown_failure_count (fs_out st) = 0"
proof -
  let ?step = "fuzz_step refuse_api small_ctx"
  have s0: "ss_stateless echo_session = None" "ss_tool_schemas echo_session = None" "ss_tool_output_schemas echo_session = None"
    "ss_next_id echo_session = 1" by (simp_all add: echo_session_def)
  obtain f1 where s1: "?step 0 NumericMethod echo_tick (fuzz_start echo_session) = Some ((fuzz_start echo_session)
      \<lparr>fs_session := echo_session\<lparr>ss_next_id := 2\<rparr>, fs_out := count_success (count_attempt scenario_outcome_default),
       fs_events := [Rec_Call 0 0 Outcome_ExpectedRejection], fs_findings := [f1]\<rparr>, False)" (is "_ = Some (?st1, _)")
    using small_step(1) [of "fuzz_start echo_session" 0] s0 by (auto simp: fuzz_start_def)
  obtain f2 where s2: "?step 1 EmptyObject echo_tick ?st1 = Some (?st1\<lparr>fs_session := echo_session,
       fs_out := count_success (count_attempt (count_success (count_attempt scenario_outcome_default))),
       fs_events := refused_events, fs_findings := [f1, f2]\<rparr>, False)"
    using small_step(2) [of ?st1 1] s0 by (auto simp: refused_events_def)
  have pool: "resolved_payloads small_fuzzer = [NumericMethod, EmptyObject]" "[0..<unat (fz_iterations small_fuzzer)] = [0, 1]"
    by (simp_all add: resolved_payloads_def small_fuzzer_def upt_rec)
  have live: "\<not> fk_cancelled echo_tick" by (simp add: echo_tick_def)
  have report: "so_divergence_count (push_report_notes R out) = so_divergence_count out"
    "so_incomplete_worker_count (push_report_notes R out) = so_incomplete_worker_count out" for R out
  proof -
    have "fold add_note ns o1 = o1\<lparr>so_notes := so_notes o1 @ ns\<rparr>" for ns o1
      by (induction ns arbitrary: o1) (simp_all add: add_note_def)
    then show "so_divergence_count (push_report_notes R out) = so_divergence_count out"
      "so_incomplete_worker_count (push_report_notes R out) = so_incomplete_worker_count out"
      by (simp_all add: push_report_notes_def)
  qed
  show ?thesis
    using s1 s2 by (simp add: drive_fuzzer_def pool live in_turn_def map_out_def Let_def report)
     (simp add: count_success_def count_attempt_def scenario_outcome_default_def)
qed

lemma fuzz_run_accounted_witness:
  "\<exists>st. small_run = Some st \<and> length (fs_events st) = 2
     \<and> report_count (from_findings (fs_findings st) DEFAULT_MAX_FINDINGS) FC_ProtocolError = 2"
proof -
  obtain st where run: "small_run = Some st" and es: "fs_events st = refused_events" "so_successful_calls (fs_out st) = 2"
    using small_run_ends by blast
  show ?thesis using fuzz_run_accounted [OF run] run es by (simp add: Let_def refused_events_def)
qed

definition fuzz_metrics :: scenario_metrics where
  "fuzz_metrics = \<lparr>sm_latency = latency_stats_default,
     sm_throughput = \<lparr>ts_total_requests = 2, ts_successful_requests = 0, ts_requests_per_sec = F64_Fin 1\<rparr>,
     sm_outcomes = outcome_counts_default\<lparr>oc_expected_rejection := 2\<rparr>\<rparr>"

lemma passed_fuzz_run_was_rejected_witness:
  "\<exists>st r p t s. small_run = Some st \<and> passed r \<and> rp_scenario_outcome r = fs_out st
     \<and> sendable small_ctx p \<and> probe_healthy refuse_api small_ctx p t s"
proof -
  obtain st where run: "small_run = Some st" and st: "so_total_calls (fs_out st) = 2" "so_successful_calls (fs_out st) = 2"
      "so_error_count (fs_out st) = 0" "so_hang_count (fs_out st) = 0" "so_deadlock_count (fs_out st) = 0"
      "so_divergence_count (fs_out st) = 0" "so_incomplete_worker_count (fs_out st) = 0" "so_teardown_failure_count (fs_out st) = 0"
    using small_run_ends by blast
  let ?r = "(sample_report fuzz_metrics)\<lparr>rp_scenario_name := ''fuzzer'', rp_scenario_outcome := fs_out st\<rparr>"
  have r: "passed ?r" "rp_scenario_name ?r = ''fuzzer''" "rp_scenario_outcome ?r = fs_out st"
    by (simp_all add: passed_def sample_report_def fuzz_metrics_def hard_recorded_failure_def outcome_counts_default_def st)
  from passed_fuzz_run_was_rejected [OF run r] obtain p t s where
    "sendable small_ctx p" "probe_healthy refuse_api small_ctx p t s" by (auto simp: Let_def)
  then show ?thesis using run r by blast
qed

end
