(* ===== verification/Spec2Isabelle.thy ===== *)
theory Spec2Isabelle
  imports Thresholds Civil_Date Endpoint_Policy Controller_Run Distributed_Run Conversation Workload Sse_Transport Plan_Config
  Race_Detector Stepped_Load Hang_Probes Fuzzer
begin

text \<open>
  A verification development for mcp-loadtest, a load tester for servers of the Model Context Protocol
  (the Rust crates under \<open>src/crates/\<close>).

  The program. A run reads a configuration, opens a number of MCP sessions to the server under test, drives
  a scenario over them while a recorder counts every call, and turns the recorder into a report that is
  judged against thresholds. A distributed run splits the concurrency over worker processes on other hosts:
  a controller plans the shards, prepares, starts, supervises and cancels the workers over one
  line-oriented channel per worker, and merges the evidence they send back into one exact report. Whatever
  the program dials, the server, an OAuth endpoint or a target that a controller names to a worker, passes
  a guard first.

  How the code is modelled. A struct is a record with the fields of the struct behind a short prefix, an
  enum a datatype, an integer a word of its width (\<open>usize\<close> counts of things in memory are naturals), an
  \<open>f64\<close> a finite rational, an infinity or a NaN with the rounding of IEEE 754, a \<open>Duration\<close> its
  nanoseconds, a \<open>String\<close> its bytes, a \<open>BTreeMap\<close> the association list of its iterator. A fallible
  function returns a sum whose left side is its error, and \<open>?\<close> is \<open>and_then\<close>. What the code takes from
  elsewhere is an argument: the clock, random choices and the order in which tasks finish are lists or
  functions over which the theorems quantify; a third-party crate is a record of functions with its
  documented behaviour as a named predicate (\<open>hdr_contract\<close>, \<open>base64_contract\<close>, \<open>json_contract\<close>,
  \<open>json_grammar\<close>, \<open>parse_contract\<close>, \<open>env_contract\<close>), and the witnesses supply concrete functions that satisfy it. There is
  no fuel: a loop over what has arrived is a recursion on it, and the parser loops end by measures on the
  input (\<open>work_left\<close>, the length of what is buffered). A loop that may wait for ever consumes a list of
  what happens; the theorems about it say what holds after every such list, and the liveness theorems say
  which lists end it.

  The theories, in the order in which they build on each other.

  \<^item> \<open>Prelude\<close>, \<open>Ordered_Map\<close>, \<open>Float64\<close>, \<open>Histogram_Api\<close>, \<open>Checked_Counters\<close>, \<open>Lifecycle\<close>, \<open>Net\<close>: what the
    components share. Results, folds that stop at an error, byte and UTF-8 text; \<open>BTreeMap\<close> and \<open>BTreeSet\<close>
    (locale \<open>ordered_map\<close>); doubles; the contract of \<open>hdrhistogram\<close>; the contract of a merge that adds
    counters without wrapping (locale \<open>checked_counters\<close>); the contract of a state machine whose edges climb
    a rank (locale \<open>lifecycle\<close>); IP addresses, their texts and URLs.
  \<^item> \<open>Metrics\<close>, \<open>Report\<close>, \<open>Thresholds\<close>, \<open>Civil_Date\<close> (\<open>core/src/metrics\<close>, \<open>core/src/report.rs\<close>,
    \<open>engine/src/run/thresholds.rs\<close>): the recorder and its snapshots, the report, every threshold, the date
    of a report. No recorded call is lost or counted twice; a run passes exactly when every limit is met.
  \<^item> \<open>Jsonrpc\<close>, \<open>Session\<close> (\<open>protocol/src/jsonrpc.rs\<close>, \<open>mcp.rs\<close>, \<open>session/\<close>, \<open>schema.rs\<close>): the messages and the
    session over an abstract transport. An answer belongs to the request it is given to; a session that
    started knows the revision it speaks and announces it where the transport has a header for it (predicate
    \<open>announces\<close>); strict validation only refuses.
  \<^item> \<open>Workload\<close> (\<open>engine/src/scenario/\<close>): the pattern executor, the sustained loop, the pool of sessions and
    the teardown. The outcome of a scenario and the recorder tell the same story.
  \<^item> \<open>Breaking_Point\<close>, \<open>Stepped_Load\<close> (\<open>engine/src/breaking_point.rs\<close>, \<open>scenario/ramp.rs\<close>, \<open>ramp/\<close>, \<open>spike.rs\<close>,
    \<open>spike/\<close>): the detector of a ramp, and the ramp and the spike on both of their paths. A ramp stops at the
    first level over a budget, judged by the calls of that level alone.
  \<^item> \<open>Race_Detector\<close> (\<open>engine/src/race_detector.rs\<close>): the canonical texts by which answers are compared, and the
    report on whether they differ.
  \<^item> \<open>Hang_Probes\<close> (\<open>protocol/src/hang_detector.rs\<close>, \<open>engine/src/scenario/deadlock_probe.rs\<close>, \<open>race_check.rs\<close>,
    \<open>cold_start.rs\<close>): the watchdog over a call, and the scenarios that use it. A clean probe has seen every call
    return in time; a race check that reports no error has compared every answer.
  \<^item> \<open>Fuzzer\<close> (\<open>engine/src/scenario/fuzzer.rs\<close>, \<open>fuzzer/\<close>, \<open>core/src/fuzz_report.rs\<close>): the malformed payloads, the
    two ways they are sent, their classification and the report. A run that passes has seen every malformed
    call rejected and every malformed frame survived.
  \<^item> \<open>Host_Guard\<close>, \<open>Endpoint_Policy\<close>, \<open>Agent_Policy\<close> (\<open>protocol/src/transport/guard.rs\<close>, \<open>resolve.rs\<close>,
    \<open>auth/src/policy.rs\<close>, \<open>distributed/src/policy.rs\<close>): the guards of the outbound connections.
  \<^item> \<open>Sse_Parser\<close>, \<open>Sse_Transport\<close> (\<open>protocol/src/transport/sse/reader.rs\<close>, \<open>sse.rs\<close>): the incremental parser
    against a reference that reads the whole text, and the transport as the interleaving of its reader task
    with the requests. A schedule is a list of steps; the invariants hold after every schedule.
  \<^item> \<open>Config\<close>, \<open>Plan_Config\<close> (\<open>core/src/config/\<close>, \<open>mcp-loadtest-cli/src/cmd_run/patterns.rs\<close>,
    \<open>distributed/mod.rs\<close>): the schema and its validation, and the plans made of a configuration. Which valid
    configurations are planned, and what a worker can still refuse of the frames made of them.
  \<^item> \<open>Wire\<close>, \<open>Shard\<close>, \<open>Controller\<close>, \<open>Agent\<close>, \<open>Channel\<close>, \<open>Evidence\<close>, \<open>Aggregate\<close> (\<open>distributed/src/\<close>): the
    frames, the planner, the two state machines, the channel, the evidence and its merging. Shares are exact
    and fair; nobody starts before everybody is ready; sums are exact or refused, and the aggregate's
    counters do not depend on the order of the workers; a receive that is abandoned in the middle of a line
    loses the frame.
  \<^item> \<open>Controller_Run\<close>, \<open>Worker_Evidence\<close>, \<open>Worker\<close> (\<open>mcp-loadtest-cli/src/distributed/\<close>): the controller's
    three waiting phases, the evidence of a worker, and the worker's control loop. A run ends by its
    deadlines; a worker sends only what the protocol allows.
  \<^item> \<open>Distributed_Run\<close>, \<open>Conversation\<close>: the compositions. Every call that a worker records is counted in the
    aggregate exactly once; controller and workers that are left alone never refuse each other's frames and
    always complete.

  Each theory states its properties after the lemmas they rest on and closes with witnesses: the property
  applied to a concrete input where its hypotheses hold, with the definitions evaluated.

  Not modelled. The sockets, processes and tasks of the async runtime behind the WebSocket, HTTP and
  stdio transports; the orchestration of a local run (\<open>engine/src/run/connect.rs\<close>, \<open>executor.rs\<close>), which only
  starts and joins what is modelled; the soak and the version matrix
  scenarios; the OAuth
  exchanges that follow the endpoint policy; TOML and the defaults of serde; the renderers of a report, the
  terminal interface and the command line; traces and their replay; the OpenSSH launcher. Where a
  component is modelled only in part, its theory says what is left out.
\<close>

end
